(* ===== verification/Prelude.thy ===== *)
theory Prelude
  imports Main
begin

text \<open>
  The shared base of the development: the collections of proof hints, the result type of a
  fallible Go function run against a state, the combinators in which the workers are written,
  and the locale of state orders that every "no step ever undoes this" argument uses.

  A Go function that returns \<^verbatim>\<open>(T, error)\<close> and changes a store or a \<^verbatim>\<open>*Stats\<close> is a
  \<open>('s, 'a) prog\<close>: it maps the state to a result and the state it leaves behind. An error keeps
  the state reached so far, as Go does: an early \<^verbatim>\<open>return err\<close> rolls nothing back.
\<close>

named_theorems text_simps "evaluation and algebra of Go strings"
named_theorems prog_simps "unfolding of the program combinators"
named_theorems order_intros "steps that respect a state order"

section \<open>Errors and programs\<close>

text \<open>
  \<open>DbError\<close> is any failure the database driver reports, \<open>HttpError\<close> any failure of a call to
  an external API, \<open>Cancelled\<close> a cancelled context, \<open>DecodeError\<close> a reply that does not decode,
  \<open>Panic\<close> a Go run-time panic, and \<open>Refused m\<close> an error the program itself raises; \<open>m\<close> is the
  constant part of its message.
\<close>

datatype err = DbError | HttpError | Cancelled | DecodeError | Panic | Refused string

type_synonym ('s, 'a) prog = "'s \<Rightarrow> (err + 'a) \<times> 's"

definition ret :: "'a \<Rightarrow> ('s, 'a) prog" where
  "ret a s = (Inr a, s)"

definition throw :: "err \<Rightarrow> ('s, 'a) prog" where
  "throw e s = (Inl e, s)"

definition bindR :: "('s, 'a) prog \<Rightarrow> ('a \<Rightarrow> ('s, 'b) prog) \<Rightarrow> ('s, 'b) prog" where
  "bindR m k s = (case m s of (Inl e, s') \<Rightarrow> (Inl e, s') | (Inr a, s') \<Rightarrow> k a s')"

definition seqR :: "('s, 'a) prog \<Rightarrow> ('s, 'b) prog \<Rightarrow> ('s, 'b) prog" where
  "seqR m k = bindR m (\<lambda>_. k)"

definition modR :: "('s \<Rightarrow> 's) \<Rightarrow> ('s, unit) prog" where
  "modR f s = (Inr (), f s)"

definition getR :: "('s \<Rightarrow> 'a) \<Rightarrow> ('s, 'a) prog" where
  "getR f s = (Inr (f s), s)"

definition whenR :: "bool \<Rightarrow> ('s, unit) prog \<Rightarrow> ('s, unit) prog" where
  "whenR b m = (if b then m else ret ())"

text \<open>A Go \<^verbatim>\<open>for ... range\<close> loop whose body may return an error.\<close>

fun forR :: "('x \<Rightarrow> ('s, unit) prog) \<Rightarrow> 'x list \<Rightarrow> ('s, unit) prog" where
  "forR f [] = ret ()"
| "forR f (x # xs) = seqR (f x) (forR f xs)"

text \<open>
  The same for a body that takes fuel: \<open>None\<close> means it ran out, and the loop stops there.
\<close>

fun forO :: "('x \<Rightarrow> ('s, unit option) prog) \<Rightarrow> 'x list \<Rightarrow> ('s, unit option) prog" where
  "forO f [] = ret (Some ())"
| "forO f (x # xs) = bindR (f x) (\<lambda>r. case r of None \<Rightarrow> ret None | Some u \<Rightarrow> forO f xs)"

text \<open>The result of a call the source discards with \<^verbatim>\<open>_ = f(...)\<close>: the error is dropped.\<close>

definition ignoreR :: "('s, 'a) prog \<Rightarrow> ('s, unit) prog" where
  "ignoreR m s = (Inr (), snd (m s))"

text \<open>A call whose error the caller inspects instead of returning it.\<close>

definition attemptR :: "('s, 'a) prog \<Rightarrow> ('s, err + 'a) prog" where
  "attemptR m s = (Inr (fst (m s)), snd (m s))"

lemmas prog_defs [prog_simps] =
  ret_def throw_def bindR_def seqR_def modR_def getR_def whenR_def ignoreR_def attemptR_def

lemma bindR_assoc: "bindR (bindR m k) h = bindR m (\<lambda>a. bindR (k a) h)"
  by (rule ext) (simp add: bindR_def split: prod.splits sum.splits)

lemma bindR_ret [simp]: "bindR (ret a) k = k a"
  by (rule ext) (simp add: bindR_def ret_def)

lemma bindR_throw [simp]: "bindR (throw e) k = throw e"
  by (rule ext) (simp add: bindR_def throw_def)

lemma forR_append: "forR f (xs @ ys) = seqR (forR f xs) (forR f ys)"
proof (induction xs)
  case Nil
  show ?case by (simp add: seqR_def)
next
  case (Cons x xs)
  then show ?case by (simp add: seqR_def bindR_assoc)
qed

text \<open>The steps of a program that returned a value.\<close>

lemma bindR_Inr: "bindR m k s = (Inr b, u) \<longleftrightarrow> (\<exists>a t. m s = (Inr a, t) \<and> k a t = (Inr b, u))"
  by (auto simp: bindR_def split: prod.splits sum.splits)

lemma seqR_Inr: "seqR m k s = (Inr b, u) \<longleftrightarrow> (\<exists>a t. m s = (Inr a, t) \<and> k t = (Inr b, u))"
  by (simp add: seqR_def bindR_Inr)

lemma ret_Inr [simp]: "ret a s = (Inr b, t) \<longleftrightarrow> b = a \<and> t = s"
  by (auto simp: ret_def)

lemma throw_Inr [simp]: "throw e s \<noteq> (Inr b, t)"
  by (simp add: throw_def)

lemma getR_Inr [simp]: "getR f s = (Inr b, t) \<longleftrightarrow> b = f s \<and> t = s"
  by (auto simp: getR_def)

lemma first_Inr: "(case xs of [] \<Rightarrow> throw e | x # _ \<Rightarrow> ret x) s = (Inr a, t) \<longleftrightarrow> (\<exists>ys. xs = a # ys) \<and> t = s"
  by (auto split: list.splits)

lemmas run_ok = first_Inr bindR_Inr ret_Inr throw_Inr getR_Inr

section \<open>State orders\<close>

text \<open>
  \<open>moves R m\<close>: whatever \<open>m\<close> returns, and wherever it stops, the state it leaves is related to
  the state it started from. With a reflexive and transitive \<open>R\<close> this passes through every
  combinator, so a fact about a whole worker reduces to its primitive calls.
\<close>

definition moves :: "('s \<Rightarrow> 's \<Rightarrow> bool) \<Rightarrow> ('s, 'a) prog \<Rightarrow> bool" where
  "moves R m \<longleftrightarrow> (\<forall>s. R s (snd (m s)))"

lemma movesD: "moves R m \<Longrightarrow> R s (snd (m s))"
  by (simp add: moves_def)

lemma bindR_getR: "bindR (getR f) k s = k (f s) s"
  by (simp add: bindR_def getR_def)

lemma movesI: "(\<And>s. R s (snd (m s))) \<Longrightarrow> moves R m"
  by (simp add: moves_def)

locale state_order =
  fixes R :: "'s \<Rightarrow> 's \<Rightarrow> bool"
  assumes refl [simp]: "R s s"
    and trans: "R s t \<Longrightarrow> R t u \<Longrightarrow> R s u"
begin

lemma ret [order_intros]: "moves R (ret a)"
  by (simp add: moves_def ret_def)

lemma throw [order_intros]: "moves R (throw e)"
  by (simp add: moves_def throw_def)

lemma getR [order_intros]: "moves R (getR f)"
  by (simp add: moves_def getR_def)

lemma modR: "(\<And>s. R s (f s)) \<Longrightarrow> moves R (modR f)"
  by (simp add: moves_def modR_def)

lemma bindR [order_intros]:
  assumes "moves R m" and "\<And>a. moves R (k a)"
  shows "moves R (bindR m k)"
proof (rule movesI)
  fix s
  obtain r s' where m: "m s = (r, s')" by fastforce
  have 1: "R s s'" using movesD [OF assms(1), of s] m by simp
  show "R s (snd (bindR m k s))"
  proof (cases r)
    case (Inl e)
    with m 1 show ?thesis by (simp add: bindR_def)
  next
    case (Inr a)
    with m 1 movesD [OF assms(2), of s' a] show ?thesis
      by (auto simp: bindR_def intro: trans)
  qed
qed

text \<open>From one given state: the first step may depend on it, the rest goes on from anywhere.\<close>

lemma bindR_at:
  assumes "R s (snd (m s))" and "\<And>a t. m s = (Inr a, t) \<Longrightarrow> R t (snd (k a t))"
  shows "R s (snd (bindR m k s))"
proof -
  obtain r t where m: "m s = (r, t)" by fastforce
  with assms show ?thesis
    by (cases r) (auto simp: bindR_def intro: trans)
qed

lemma seqR [order_intros]: "moves R m \<Longrightarrow> moves R k \<Longrightarrow> moves R (seqR m k)"
  by (simp add: seqR_def bindR)

lemma whenR [order_intros]: "moves R m \<Longrightarrow> moves R (whenR b m)"
  by (simp add: whenR_def ret)

lemma forR [order_intros]: "(\<And>x. moves R (f x)) \<Longrightarrow> moves R (forR f xs)"
  by (induction xs) (simp_all add: ret seqR)

lemma forO [order_intros]: "(\<And>x. moves R (f x)) \<Longrightarrow> moves R (forO f xs)"
  by (induction xs) (auto intro!: ret bindR split: option.split)

lemma ignoreR [order_intros]: "moves R m \<Longrightarrow> moves R (ignoreR m)"
  by (simp add: moves_def ignoreR_def)

lemma attemptR [order_intros]: "moves R m \<Longrightarrow> moves R (attemptR m)"
  by (simp add: moves_def attemptR_def)

end

lemma moves_if [order_intros]: "moves R m \<Longrightarrow> moves R k \<Longrightarrow> moves R (if b then m else k)"
  by simp

lemma moves_option [order_intros]:
  "moves R m \<Longrightarrow> (\<And>a. moves R (k a)) \<Longrightarrow> moves R (case x of None \<Rightarrow> m | Some a \<Rightarrow> k a)"
  by (cases x) simp_all

lemma moves_sum [order_intros]:
  "(\<And>e. moves R (m e)) \<Longrightarrow> (\<And>a. moves R (k a)) \<Longrightarrow> moves R (case x of Inl e \<Rightarrow> m e | Inr a \<Rightarrow> k a)"
  by (cases x) simp_all

lemma moves_prod [order_intros]:
  "(\<And>a b. moves R (k a b)) \<Longrightarrow> moves R (case x of (a, b) \<Rightarrow> k a b)"
  by (cases x) simp

text \<open>Equality of a projection is an order: the frame of a program.\<close>

lemma state_order_eq: "state_order (\<lambda>s t. f s = f t)"
  by unfold_locales auto

text \<open>An invariant is an order too: it is kept wherever it held.\<close>

lemma state_order_inv: "state_order (\<lambda>s t. I s \<longrightarrow> I t)"
  by unfold_locales auto

section \<open>Guarded writes\<close>

text \<open>
  The pattern "ask, and write only if the answer is no": \<open>ask\<close> answers \<^verbatim>\<open>false\<close> only in a state that
  is not \<open>blocked\<close>, and asking changes nothing it asks about. Then the write starts in a state that
  is not blocked, whatever fails on the way.
\<close>

locale guard =
  fixes ask :: "('s, bool) prog"
    and blocked :: "'s \<Rightarrow> bool"
  assumes ask_sound: "fst (ask s) = Inr False \<Longrightarrow> \<not> blocked s"
    and ask_frame: "blocked (snd (ask s)) = blocked s"
begin

lemma guarded:
  assumes R: "\<And>s t u. R s t \<Longrightarrow> R t u \<Longrightarrow> R s u"
    and ask: "\<And>s. R s (snd (ask s))"
    and skip: "\<And>s. R s (snd (skip s))"
    and run: "\<And>s. \<not> blocked s \<Longrightarrow> R s (snd (m s))"
  shows "R s (snd (bindR ask (\<lambda>p. if p then skip else m) s))"
proof -
  obtain r s' where c: "ask s = (r, s')" by fastforce
  then have s': "R s s'" using ask [of s] by simp
  show ?thesis
  proof (cases r)
    case (Inl e)
    with c s' show ?thesis by (simp add: bindR_def)
  next
    case (Inr p)
    show ?thesis
    proof (cases p)
      case True
      with c Inr R [OF s' skip] show ?thesis by (simp add: bindR_def)
    next
      case False
      with c Inr have "\<not> blocked s'" using ask_sound [of s] ask_frame [of s] by simp
      from R [OF s' run [OF this]] c Inr False show ?thesis by (simp add: bindR_def)
    qed
  qed
qed

lemma never_cleared: "blocked s \<Longrightarrow> fst (ask s) \<noteq> Inr False"
  using ask_sound by blast

end

section \<open>Lists\<close>

text \<open>Go's "append unless seen" loops keep the first element of each key.\<close>

fun dedup_by :: "('a \<Rightarrow> 'k) \<Rightarrow> 'k set \<Rightarrow> 'a list \<Rightarrow> 'a list" where
  "dedup_by k seen [] = []"
| "dedup_by k seen (x # xs) =
     (if k x \<in> seen then dedup_by k seen xs else x # dedup_by k (insert (k x) seen) xs)"

lemma dedup_by_keys: "k ` set (dedup_by k seen xs) = k ` set xs - seen"
  by (induction xs arbitrary: seen) auto

lemma dedup_by_distinct: "distinct (map k (dedup_by k seen xs))"
proof (induction xs arbitrary: seen)
  case Nil
  show ?case by simp
next
  case (Cons x xs)
  have "k x \<notin> k ` set (dedup_by k (insert (k x) seen) xs)"
    by (simp add: dedup_by_keys)
  with Cons show ?case by simp
qed

lemma dedup_by_subset: "set (dedup_by k seen xs) \<subseteq> set xs"
  by (induction xs arbitrary: seen) auto

lemma dedup_by_find:
  "k y \<notin> seen \<Longrightarrow> find (\<lambda>x. k x = k y) (dedup_by k seen xs) = find (\<lambda>x. k x = k y) xs"
  by (induction xs arbitrary: seen) auto

lemma find_SomeD: "find P xs = Some x \<Longrightarrow> x \<in> set xs \<and> P x"
  by (auto simp: find_Some_iff)

end
