(* ===== verification/UnicodeCase.thy ===== *)
theory UnicodeCase
  imports Prelude
begin

text \<open>
  The simple case mapping of Unicode 15, which Go's package \<^verbatim>\<open>unicode\<close> applies rune by rune
  in \<^verbatim>\<open>unicode.ToUpper\<close> and \<^verbatim>\<open>unicode.ToLower\<close> (and so in \<^verbatim>\<open>strings.ToUpper\<close> and
  \<^verbatim>\<open>strings.ToLower\<close>). A row \<open>(lo, hi, stride, delta)\<close> says that every code point
  \<open>lo, lo + stride, ..., hi\<close> is mapped to itself plus \<open>delta\<close>. ASCII is handled first, as
  Go does. The table is cut into blocks so that an evaluation looks at one block only.
  \<open>is_space\<close> is \<^verbatim>\<open>unicode.IsSpace\<close>. A Go rune is an \<^verbatim>\<open>int32\<close>; code points fit, so it is an
  \<open>int\<close> here.
\<close>

type_synonym rune = int

type_synonym case_row = "int \<times> int \<times> int \<times> int"

fun case_lookup :: "case_row list \<Rightarrow> rune \<Rightarrow> rune" where
  "case_lookup [] r = r"
| "case_lookup ((lo, hi, st, d) # rows) r =
     (if r < lo then r
      else if r \<le> hi \<and> (r - lo) mod st = 0 then r + d
      else case_lookup rows r)"

definition upper_block0 :: "case_row list" where
  "upper_block0 = [
   (181, 181, 1, 743), (224, 246, 1, - 32), (248, 254, 1, - 32), (255, 255, 1, 121),
   (257, 303, 2, - 1), (305, 305, 1, - 232), (307, 311, 2, - 1), (314, 328, 2, - 1),
   (331, 375, 2, - 1), (378, 382, 2, - 1), (383, 383, 1, - 300), (384, 384, 1, 195)]"

definition upper_block1 :: "case_row list" where
  "upper_block1 = [
   (387, 389, 2, - 1), (392, 392, 1, - 1), (396, 396, 1, - 1), (402, 402, 1, - 1),
   (405, 405, 1, 97), (409, 409, 1, - 1), (410, 410, 1, 163), (414, 414, 1, 130),
   (417, 421, 2, - 1), (424, 424, 1, - 1), (429, 429, 1, - 1), (432, 432, 1, - 1)]"

definition upper_block2 :: "case_row list" where
  "upper_block2 = [
   (436, 438, 2, - 1), (441, 441, 1, - 1), (445, 445, 1, - 1), (447, 447, 1, 56),
   (453, 453, 1, - 1), (454, 454, 1, - 2), (456, 456, 1, - 1), (457, 457, 1, - 2),
   (459, 459, 1, - 1), (460, 460, 1, - 2), (462, 476, 2, - 1), (477, 477, 1, - 79)]"

definition upper_block3 :: "case_row list" where
  "upper_block3 = [
   (479, 495, 2, - 1), (498, 498, 1, - 1), (499, 499, 1, - 2), (501, 501, 1, - 1),
   (505, 543, 2, - 1), (547, 563, 2, - 1), (572, 572, 1, - 1), (575, 576, 1, 10815),
   (578, 578, 1, - 1), (583, 591, 2, - 1), (592, 592, 1, 10783), (593, 593, 1, 10780)]"

definition upper_block4 :: "case_row list" where
  "upper_block4 = [
   (594, 594, 1, 10782), (595, 595, 1, - 210), (596, 596, 1, - 206), (598, 599, 1, - 205),
   (601, 601, 1, - 202), (603, 603, 1, - 203), (604, 604, 1, 42319), (608, 608, 1, - 205),
   (609, 609, 1, 42315), (611, 611, 1, - 207), (613, 613, 1, 42280), (614, 614, 1, 42308)]"

definition upper_block5 :: "case_row list" where
  "upper_block5 = [
   (616, 616, 1, - 209), (617, 617, 1, - 211), (618, 618, 1, 42308), (619, 619, 1, 10743),
   (620, 620, 1, 42305), (623, 623, 1, - 211), (625, 625, 1, 10749), (626, 626, 1, - 213),
   (629, 629, 1, - 214), (637, 637, 1, 10727), (640, 640, 1, - 218), (642, 642, 1, 42307)]"

definition upper_block6 :: "case_row list" where
  "upper_block6 = [
   (643, 643, 1, - 218), (647, 647, 1, 42282), (648, 648, 1, - 218), (649, 649, 1, - 69),
   (650, 651, 1, - 217), (652, 652, 1, - 71), (658, 658, 1, - 219), (669, 669, 1, 42261),
   (670, 670, 1, 42258), (837, 837, 1, 84), (881, 883, 2, - 1), (887, 887, 1, - 1)]"

definition upper_block7 :: "case_row list" where
  "upper_block7 = [
   (891, 893, 1, 130), (940, 940, 1, - 38), (941, 943, 1, - 37), (945, 961, 1, - 32),
   (962, 962, 1, - 31), (963, 971, 1, - 32), (972, 972, 1, - 64), (973, 974, 1, - 63),
   (976, 976, 1, - 62), (977, 977, 1, - 57), (981, 981, 1, - 47), (982, 982, 1, - 54)]"

definition upper_block8 :: "case_row list" where
  "upper_block8 = [
   (983, 983, 1, - 8), (985, 1007, 2, - 1), (1008, 1008, 1, - 86), (1009, 1009, 1, - 80),
   (1010, 1010, 1, 7), (1011, 1011, 1, - 116), (1013, 1013, 1, - 96), (1016, 1016, 1, - 1),
   (1019, 1019, 1, - 1), (1072, 1103, 1, - 32), (1104, 1119, 1, - 80), (1121, 1153, 2, - 1)]"

definition upper_block9 :: "case_row list" where
  "upper_block9 = [
   (1163, 1215, 2, - 1), (1218, 1230, 2, - 1), (1231, 1231, 1, - 15), (1233, 1327, 2, - 1),
   (1377, 1414, 1, - 48), (4304, 4346, 1, 3008), (4349, 4351, 1, 3008), (5112, 5117, 1, - 8),
   (7296, 7296, 1, - 6254), (7297, 7297, 1, - 6253), (7298, 7298, 1, - 6244),
   (7299, 7300, 1, - 6242)]"

definition upper_block10 :: "case_row list" where
  "upper_block10 = [
   (7301, 7301, 1, - 6243), (7302, 7302, 1, - 6236), (7303, 7303, 1, - 6181),
   (7304, 7304, 1, 35266), (7545, 7545, 1, 35332), (7549, 7549, 1, 3814), (7566, 7566, 1, 35384),
   (7681, 7829, 2, - 1), (7835, 7835, 1, - 59), (7841, 7935, 2, - 1), (7936, 7943, 1, 8),
   (7952, 7957, 1, 8)]"

definition upper_block11 :: "case_row list" where
  "upper_block11 = [
   (7968, 7975, 1, 8), (7984, 7991, 1, 8), (8000, 8005, 1, 8), (8017, 8023, 2, 8),
   (8032, 8039, 1, 8), (8048, 8049, 1, 74), (8050, 8053, 1, 86), (8054, 8055, 1, 100),
   (8056, 8057, 1, 128), (8058, 8059, 1, 112), (8060, 8061, 1, 126), (8064, 8071, 1, 8)]"

definition upper_block12 :: "case_row list" where
  "upper_block12 = [
   (8080, 8087, 1, 8), (8096, 8103, 1, 8), (8112, 8113, 1, 8), (8115, 8115, 1, 9),
   (8126, 8126, 1, - 7205), (8131, 8131, 1, 9), (8144, 8145, 1, 8), (8160, 8161, 1, 8),
   (8165, 8165, 1, 7), (8179, 8179, 1, 9), (8526, 8526, 1, - 28), (8560, 8575, 1, - 16)]"

definition upper_block13 :: "case_row list" where
  "upper_block13 = [
   (8580, 8580, 1, - 1), (9424, 9449, 1, - 26), (11312, 11359, 1, - 48), (11361, 11361, 1, - 1),
   (11365, 11365, 1, - 10795), (11366, 11366, 1, - 10792), (11368, 11372, 2, - 1),
   (11379, 11379, 1, - 1), (11382, 11382, 1, - 1), (11393, 11491, 2, - 1),
   (11500, 11502, 2, - 1), (11507, 11507, 1, - 1)]"

definition upper_block14 :: "case_row list" where
  "upper_block14 = [
   (11520, 11557, 1, - 7264), (11559, 11559, 1, - 7264), (11565, 11565, 1, - 7264),
   (42561, 42605, 2, - 1), (42625, 42651, 2, - 1), (42787, 42799, 2, - 1),
   (42803, 42863, 2, - 1), (42874, 42876, 2, - 1), (42879, 42887, 2, - 1),
   (42892, 42892, 1, - 1), (42897, 42899, 2, - 1), (42900, 42900, 1, 48)]"

definition upper_block15 :: "case_row list" where
  "upper_block15 = [
   (42903, 42921, 2, - 1), (42933, 42947, 2, - 1), (42952, 42954, 2, - 1),
   (42961, 42961, 1, - 1), (42967, 42969, 2, - 1), (42998, 42998, 1, - 1),
   (43859, 43859, 1, - 928), (43888, 43967, 1, - 38864), (65345, 65370, 1, - 32),
   (66600, 66639, 1, - 40), (66776, 66811, 1, - 40), (66967, 66977, 1, - 39)]"

definition upper_block16 :: "case_row list" where
  "upper_block16 = [
   (66979, 66993, 1, - 39), (66995, 67001, 1, - 39), (67003, 67004, 1, - 39),
   (68800, 68850, 1, - 64), (71872, 71903, 1, - 32), (93792, 93823, 1, - 32),
   (125218, 125251, 1, - 34)]"

definition upper_lookup :: "rune \<Rightarrow> rune" where
  "upper_lookup r =
     (if r \<le> 384 then case_lookup upper_block0 r
      else if r \<le> 432 then case_lookup upper_block1 r
      else if r \<le> 477 then case_lookup upper_block2 r
      else if r \<le> 593 then case_lookup upper_block3 r
      else if r \<le> 614 then case_lookup upper_block4 r
      else if r \<le> 642 then case_lookup upper_block5 r
      else if r \<le> 887 then case_lookup upper_block6 r
      else if r \<le> 982 then case_lookup upper_block7 r
      else if r \<le> 1153 then case_lookup upper_block8 r
      else if r \<le> 7300 then case_lookup upper_block9 r
      else if r \<le> 7957 then case_lookup upper_block10 r
      else if r \<le> 8071 then case_lookup upper_block11 r
      else if r \<le> 8575 then case_lookup upper_block12 r
      else if r \<le> 11507 then case_lookup upper_block13 r
      else if r \<le> 42900 then case_lookup upper_block14 r
      else if r \<le> 66977 then case_lookup upper_block15 r
      else case_lookup upper_block16 r)"

definition lower_block0 :: "case_row list" where
  "lower_block0 = [
   (192, 214, 1, 32), (216, 222, 1, 32), (256, 302, 2, 1), (304, 304, 1, - 199),
   (306, 310, 2, 1), (313, 327, 2, 1), (330, 374, 2, 1), (376, 376, 1, - 121), (377, 381, 2, 1),
   (385, 385, 1, 210), (386, 388, 2, 1), (390, 390, 1, 206)]"

definition lower_block1 :: "case_row list" where
  "lower_block1 = [
   (391, 391, 1, 1), (393, 394, 1, 205), (395, 395, 1, 1), (398, 398, 1, 79), (399, 399, 1, 202),
   (400, 400, 1, 203), (401, 401, 1, 1), (403, 403, 1, 205), (404, 404, 1, 207),
   (406, 406, 1, 211), (407, 407, 1, 209), (408, 408, 1, 1)]"

definition lower_block2 :: "case_row list" where
  "lower_block2 = [
   (412, 412, 1, 211), (413, 413, 1, 213), (415, 415, 1, 214), (416, 420, 2, 1),
   (422, 422, 1, 218), (423, 423, 1, 1), (425, 425, 1, 218), (428, 428, 1, 1),
   (430, 430, 1, 218), (431, 431, 1, 1), (433, 434, 1, 217), (435, 437, 2, 1)]"

definition lower_block3 :: "case_row list" where
  "lower_block3 = [
   (439, 439, 1, 219), (440, 440, 1, 1), (444, 444, 1, 1), (452, 452, 1, 2), (453, 453, 1, 1),
   (455, 455, 1, 2), (456, 456, 1, 1), (458, 458, 1, 2), (459, 475, 2, 1), (478, 494, 2, 1),
   (497, 497, 1, 2), (498, 500, 2, 1)]"

definition lower_block4 :: "case_row list" where
  "lower_block4 = [
   (502, 502, 1, - 97), (503, 503, 1, - 56), (504, 542, 2, 1), (544, 544, 1, - 130),
   (546, 562, 2, 1), (570, 570, 1, 10795), (571, 571, 1, 1), (573, 573, 1, - 163),
   (574, 574, 1, 10792), (577, 577, 1, 1), (579, 579, 1, - 195), (580, 580, 1, 69)]"

definition lower_block5 :: "case_row list" where
  "lower_block5 = [
   (581, 581, 1, 71), (582, 590, 2, 1), (880, 882, 2, 1), (886, 886, 1, 1), (895, 895, 1, 116),
   (902, 902, 1, 38), (904, 906, 1, 37), (908, 908, 1, 64), (910, 911, 1, 63), (913, 929, 1, 32),
   (931, 939, 1, 32), (975, 975, 1, 8)]"

definition lower_block6 :: "case_row list" where
  "lower_block6 = [
   (984, 1006, 2, 1), (1012, 1012, 1, - 60), (1015, 1015, 1, 1), (1017, 1017, 1, - 7),
   (1018, 1018, 1, 1), (1021, 1023, 1, - 130), (1024, 1039, 1, 80), (1040, 1071, 1, 32),
   (1120, 1152, 2, 1), (1162, 1214, 2, 1), (1216, 1216, 1, 15), (1217, 1229, 2, 1)]"

definition lower_block7 :: "case_row list" where
  "lower_block7 = [
   (1232, 1326, 2, 1), (1329, 1366, 1, 48), (4256, 4293, 1, 7264), (4295, 4295, 1, 7264),
   (4301, 4301, 1, 7264), (5024, 5103, 1, 38864), (5104, 5109, 1, 8), (7312, 7354, 1, - 3008),
   (7357, 7359, 1, - 3008), (7680, 7828, 2, 1), (7838, 7838, 1, - 7615), (7840, 7934, 2, 1)]"

definition lower_block8 :: "case_row list" where
  "lower_block8 = [
   (7944, 7951, 1, - 8), (7960, 7965, 1, - 8), (7976, 7983, 1, - 8), (7992, 7999, 1, - 8),
   (8008, 8013, 1, - 8), (8025, 8031, 2, - 8), (8040, 8047, 1, - 8), (8072, 8079, 1, - 8),
   (8088, 8095, 1, - 8), (8104, 8111, 1, - 8), (8120, 8121, 1, - 8), (8122, 8123, 1, - 74)]"

definition lower_block9 :: "case_row list" where
  "lower_block9 = [
   (8124, 8124, 1, - 9), (8136, 8139, 1, - 86), (8140, 8140, 1, - 9), (8152, 8153, 1, - 8),
   (8154, 8155, 1, - 100), (8168, 8169, 1, - 8), (8170, 8171, 1, - 112), (8172, 8172, 1, - 7),
   (8184, 8185, 1, - 128), (8186, 8187, 1, - 126), (8188, 8188, 1, - 9), (8486, 8486, 1, - 7517)]"

definition lower_block10 :: "case_row list" where
  "lower_block10 = [
   (8490, 8490, 1, - 8383), (8491, 8491, 1, - 8262), (8498, 8498, 1, 28), (8544, 8559, 1, 16),
   (8579, 8579, 1, 1), (9398, 9423, 1, 26), (11264, 11311, 1, 48), (11360, 11360, 1, 1),
   (11362, 11362, 1, - 10743), (11363, 11363, 1, - 3814), (11364, 11364, 1, - 10727),
   (11367, 11371, 2, 1)]"

definition lower_block11 :: "case_row list" where
  "lower_block11 = [
   (11373, 11373, 1, - 10780), (11374, 11374, 1, - 10749), (11375, 11375, 1, - 10783),
   (11376, 11376, 1, - 10782), (11378, 11378, 1, 1), (11381, 11381, 1, 1),
   (11390, 11391, 1, - 10815), (11392, 11490, 2, 1), (11499, 11501, 2, 1), (11506, 11506, 1, 1),
   (42560, 42604, 2, 1), (42624, 42650, 2, 1)]"

definition lower_block12 :: "case_row list" where
  "lower_block12 = [
   (42786, 42798, 2, 1), (42802, 42862, 2, 1), (42873, 42875, 2, 1), (42877, 42877, 1, - 35332),
   (42878, 42886, 2, 1), (42891, 42891, 1, 1), (42893, 42893, 1, - 42280), (42896, 42898, 2, 1),
   (42902, 42920, 2, 1), (42922, 42922, 1, - 42308), (42923, 42923, 1, - 42319),
   (42924, 42924, 1, - 42315)]"

definition lower_block13 :: "case_row list" where
  "lower_block13 = [
   (42925, 42925, 1, - 42305), (42926, 42926, 1, - 42308), (42928, 42928, 1, - 42258),
   (42929, 42929, 1, - 42282), (42930, 42930, 1, - 42261), (42931, 42931, 1, 928),
   (42932, 42946, 2, 1), (42948, 42948, 1, - 48), (42949, 42949, 1, - 42307),
   (42950, 42950, 1, - 35384), (42951, 42953, 2, 1), (42960, 42960, 1, 1)]"

definition lower_block14 :: "case_row list" where
  "lower_block14 = [
   (42966, 42968, 2, 1), (42997, 42997, 1, 1), (65313, 65338, 1, 32), (66560, 66599, 1, 40),
   (66736, 66771, 1, 40), (66928, 66938, 1, 39), (66940, 66954, 1, 39), (66956, 66962, 1, 39),
   (66964, 66965, 1, 39), (68736, 68786, 1, 64), (71840, 71871, 1, 32), (93760, 93791, 1, 32)]"

definition lower_block15 :: "case_row list" where
  "lower_block15 = [
   (125184, 125217, 1, 34)]"

definition lower_lookup :: "rune \<Rightarrow> rune" where
  "lower_lookup r =
     (if r \<le> 390 then case_lookup lower_block0 r
      else if r \<le> 408 then case_lookup lower_block1 r
      else if r \<le> 437 then case_lookup lower_block2 r
      else if r \<le> 500 then case_lookup lower_block3 r
      else if r \<le> 580 then case_lookup lower_block4 r
      else if r \<le> 975 then case_lookup lower_block5 r
      else if r \<le> 1229 then case_lookup lower_block6 r
      else if r \<le> 7934 then case_lookup lower_block7 r
      else if r \<le> 8123 then case_lookup lower_block8 r
      else if r \<le> 8486 then case_lookup lower_block9 r
      else if r \<le> 11371 then case_lookup lower_block10 r
      else if r \<le> 42650 then case_lookup lower_block11 r
      else if r \<le> 42924 then case_lookup lower_block12 r
      else if r \<le> 42960 then case_lookup lower_block13 r
      else if r \<le> 93791 then case_lookup lower_block14 r
      else case_lookup lower_block15 r)"

definition upper_rune :: "rune \<Rightarrow> rune" where
  "upper_rune r =
     (if r < 128 then (if 97 \<le> r \<and> r \<le> 122 then r - 32 else r) else upper_lookup r)"

definition lower_rune :: "rune \<Rightarrow> rune" where
  "lower_rune r =
     (if r < 128 then (if 65 \<le> r \<and> r \<le> 90 then r + 32 else r) else lower_lookup r)"

definition is_space :: "rune \<Rightarrow> bool" where
  "is_space r \<longleftrightarrow>
     (9 \<le> r \<and> r \<le> 13) \<or> r = 32 \<or> r = 133 \<or> r = 160 \<or> r = 5760 \<or> (8192 \<le> r \<and> r \<le> 8202)
     \<or> r = 8232 \<or> r = 8233 \<or> r = 8239 \<or> r = 8287 \<or> r = 12288"

section \<open>What the upper-case table guarantees\<close>

text \<open>
  Upper-casing is idempotent and neither makes nor destroys white space. Both are facts about
  the table: the image of every row lies outside the domain of every row and away from the
  spaces. \<open>rows_miss\<close> checks one image interval against one block, \<open>row_ok\<close> one row against
  the whole table, and \<open>upper_table_ok\<close> runs the check.
\<close>

fun rows_miss :: "case_row list \<Rightarrow> int \<Rightarrow> int \<Rightarrow> int \<Rightarrow> bool" where
  "rows_miss [] a b s = True"
| "rows_miss ((lo, hi, st, d) # rows) a b s =
     (if b < lo then True
      else if hi < a \<or> ((a = b \<or> s = 2) \<and> st = 2 \<and> (a - lo) mod 2 = 1) then rows_miss rows a b s
      else False)"

fun space_free :: "int list \<Rightarrow> int \<Rightarrow> int \<Rightarrow> bool" where
  "space_free [] a b = True"
| "space_free (p # ps) a b = ((b < p \<or> p < a) \<and> space_free ps a b)"

definition wide_spaces :: "int list" where
  "wide_spaces = [133, 160, 5760, 8192, 8193, 8194, 8195, 8196, 8197, 8198, 8199, 8200, 8201,
     8202, 8232, 8233, 8239, 8287, 12288]"

definition image_fixed :: "int \<Rightarrow> int \<Rightarrow> int \<Rightarrow> bool" where
  "image_fixed a b s \<longleftrightarrow>
     (if b < 128 then (b < 97 \<or> 122 < a) \<and> 33 \<le> a else 128 \<le> a)
     \<and> (if a \<le> 384 \<and> 127 < b then rows_miss upper_block0 a b s else True)
     \<and> (if a \<le> 432 \<and> 384 < b then rows_miss upper_block1 a b s else True)
     \<and> (if a \<le> 477 \<and> 432 < b then rows_miss upper_block2 a b s else True)
     \<and> (if a \<le> 593 \<and> 477 < b then rows_miss upper_block3 a b s else True)
     \<and> (if a \<le> 614 \<and> 593 < b then rows_miss upper_block4 a b s else True)
     \<and> (if a \<le> 642 \<and> 614 < b then rows_miss upper_block5 a b s else True)
     \<and> (if a \<le> 887 \<and> 642 < b then rows_miss upper_block6 a b s else True)
     \<and> (if a \<le> 982 \<and> 887 < b then rows_miss upper_block7 a b s else True)
     \<and> (if a \<le> 1153 \<and> 982 < b then rows_miss upper_block8 a b s else True)
     \<and> (if a \<le> 7300 \<and> 1153 < b then rows_miss upper_block9 a b s else True)
     \<and> (if a \<le> 7957 \<and> 7300 < b then rows_miss upper_block10 a b s else True)
     \<and> (if a \<le> 8071 \<and> 7957 < b then rows_miss upper_block11 a b s else True)
     \<and> (if a \<le> 8575 \<and> 8071 < b then rows_miss upper_block12 a b s else True)
     \<and> (if a \<le> 11507 \<and> 8575 < b then rows_miss upper_block13 a b s else True)
     \<and> (if a \<le> 42900 \<and> 11507 < b then rows_miss upper_block14 a b s else True)
     \<and> (if a \<le> 66977 \<and> 42900 < b then rows_miss upper_block15 a b s else True)
     \<and> (if 66977 < b then rows_miss upper_block16 a b s else True)"

definition row_ok :: "case_row \<Rightarrow> bool" where
  "row_ok row =
     (case row of (l, h, s, d) \<Rightarrow>
        (s = 1 \<or> s = 2) \<and> 128 \<le> l \<and> space_free wide_spaces l h
        \<and> space_free wide_spaces (l + d) (h + d) \<and> image_fixed (l + d) (h + d) s)"

definition upper_blocks :: "case_row list list" where
  "upper_blocks = [
     upper_block0, upper_block1, upper_block2, upper_block3, upper_block4,
     upper_block5, upper_block6, upper_block7, upper_block8, upper_block9,
     upper_block10, upper_block11, upper_block12, upper_block13, upper_block14,
     upper_block15, upper_block16]"

lemma block0_ok: "list_all row_ok upper_block0"
  by code_simp

lemma block1_ok: "list_all row_ok upper_block1"
  by code_simp

lemma block2_ok: "list_all row_ok upper_block2"
  by code_simp

lemma block3_ok: "list_all row_ok upper_block3"
  by code_simp

lemma block4_ok: "list_all row_ok upper_block4"
  by code_simp

lemma block5_ok: "list_all row_ok upper_block5"
  by code_simp

lemma block6_ok: "list_all row_ok upper_block6"
  by code_simp

lemma block7_ok: "list_all row_ok upper_block7"
  by code_simp

lemma block8_ok: "list_all row_ok upper_block8"
  by code_simp

lemma block9_ok: "list_all row_ok upper_block9"
  by code_simp

lemma block10_ok: "list_all row_ok upper_block10"
  by code_simp

lemma block11_ok: "list_all row_ok upper_block11"
  by code_simp

lemma block12_ok: "list_all row_ok upper_block12"
  by code_simp

lemma block13_ok: "list_all row_ok upper_block13"
  by code_simp

lemma block14_ok: "list_all row_ok upper_block14"
  by code_simp

lemma block15_ok: "list_all row_ok upper_block15"
  by code_simp

lemma block16_ok: "list_all row_ok upper_block16"
  by code_simp

lemmas blocks_ok =
  block0_ok block1_ok block2_ok block3_ok block4_ok block5_ok
  block6_ok block7_ok block8_ok block9_ok block10_ok block11_ok
  block12_ok block13_ok block14_ok block15_ok block16_ok

lemma upper_table_ok: "\<forall>rows \<in> set upper_blocks. list_all row_ok rows"
  by (simp add: upper_blocks_def blocks_ok)

lemma case_lookup_cases:
  "case_lookup rows r = r \<or>
   (\<exists>l h s d. (l, h, s, d) \<in> set rows \<and> l \<le> r \<and> r \<le> h \<and> s dvd r - l
      \<and> case_lookup rows r = r + d)"
proof (induction rows r rule: case_lookup.induct)
  case (1 r)
  show ?case by simp
next
  case (2 lo hi st d rows r)
  show ?case
  proof (cases "r < lo \<or> r \<le> hi \<and> (r - lo) mod st = 0")
    case True
    then show ?thesis by fastforce
  next
    case False
    then have "case_lookup ((lo, hi, st, d) # rows) r = case_lookup rows r" by auto
    with 2 False show ?thesis by (metis list.set_intros(2))
  qed
qed

lemma rows_miss_lookup:
  assumes "rows_miss rows a b s" and "a \<le> x" and "x \<le> b"
    and "a = b \<or> s = 2 \<longrightarrow> (x - a) mod 2 = 0"
  shows "case_lookup rows x = x"
  using assms
proof (induction rows a b s rule: rows_miss.induct)
  case (1 a b s)
  show ?case by simp
next
  case (2 lo hi st d rows a b s)
  show ?case
  proof (cases "b < lo")
    case True
    with 2 show ?thesis by simp
  next
    case False
    with "2.prems"(1) have skip: "hi < a \<or> ((a = b \<or> s = 2) \<and> st = 2 \<and> (a - lo) mod 2 = 1)"
      and rest: "rows_miss rows a b s"
      by (auto split: if_splits)
    have "case_lookup rows x = x"
      using "2.IH" False skip rest "2.prems" by blast
    moreover have "\<not> (x \<le> hi \<and> (x - lo) mod st = 0)"
    proof
      assume hit: "x \<le> hi \<and> (x - lo) mod st = 0"
      with skip "2.prems"(2) have st: "a = b \<or> s = 2" "st = 2" "(a - lo) mod 2 = 1" by auto
      with "2.prems"(4) hit have "(x - a) mod 2 = 0" "(x - lo) mod 2 = 0" by auto
      with st(3) show False by presburger
    qed
    ultimately show ?thesis by auto
  qed
qed

lemma upper_lookup_cases:
  "upper_lookup r = r \<or> (\<exists>rows \<in> set upper_blocks. upper_lookup r = case_lookup rows r)"
  by (simp add: upper_lookup_def upper_blocks_def)

lemma upper_lookup_row:
  "upper_lookup r = r \<or>
   (\<exists>l h s d. row_ok (l, h, s, d) \<and> l \<le> r \<and> r \<le> h \<and> s dvd r - l \<and> upper_lookup r = r + d)"
proof -
  consider "upper_lookup r = r" | rows where "rows \<in> set upper_blocks" "upper_lookup r = case_lookup rows r"
    using upper_lookup_cases by blast
  then show ?thesis
  proof cases
    case 1
    then show ?thesis by blast
  next
    case 2
    with upper_table_ok have "list_all row_ok rows" by blast
    with case_lookup_cases [of rows r] 2 show ?thesis
      by (fastforce simp: list_all_iff)
  qed
qed

lemma image_fixed_upper:
  assumes "image_fixed a b s" and "a \<le> x" and "x \<le> b"
    and "a = b \<or> s = 2 \<longrightarrow> (x - a) mod 2 = 0"
  shows "upper_rune x = x"
proof (cases "x < 128")
  case True
  then show ?thesis
    using assms by (auto simp: upper_rune_def image_fixed_def split: if_splits)
next
  case False
  have miss: "\<And>rows. rows_miss rows a b s \<Longrightarrow> case_lookup rows x = x"
    by (rule rows_miss_lookup [OF _ assms(2-4)])
  show ?thesis
    using False assms(1-3) unfolding upper_rune_def image_fixed_def upper_lookup_def
    by (simp add: miss split: if_splits)
qed

lemma upper_rune_idem [simp]: "upper_rune (upper_rune r) = upper_rune r"
proof (cases "r < 128")
  case True
  then show ?thesis by (simp add: upper_rune_def)
next
  case False
  then have u: "upper_rune r = upper_lookup r" by (simp add: upper_rune_def)
  show ?thesis
    using upper_lookup_row [of r]
  proof (elim disjE exE conjE)
    assume "upper_lookup r = r"
    with u show ?thesis by simp
  next
    fix l h s d
    assume ok: "row_ok (l, h, s, d)" and r: "l \<le> r" "r \<le> h" "s dvd r - l"
      and eq: "upper_lookup r = r + d"
    from ok have s: "s = 1 \<or> s = 2" and im: "image_fixed (l + d) (h + d) s"
      by (simp_all add: row_ok_def)
    have "upper_rune (r + d) = r + d"
      by (rule image_fixed_upper [OF im]) (use r s in \<open>auto simp: algebra_simps\<close>)
    with u eq show ?thesis by simp
  qed
qed

lemma space_free_iff: "space_free ps a b \<longleftrightarrow> (\<forall>p \<in> set ps. b < p \<or> p < a)"
  by (induction ps) auto

lemma is_space_wide: "128 \<le> r \<Longrightarrow> is_space r \<longleftrightarrow> r \<in> set wide_spaces"
  unfolding is_space_def wide_spaces_def by simp arith

lemma is_space_upper [simp]: "is_space (upper_rune r) = is_space r"
proof (cases "r < 128")
  case True
  then show ?thesis by (auto simp: upper_rune_def is_space_def)
next
  case False
  then have u: "upper_rune r = upper_lookup r" by (simp add: upper_rune_def)
  show ?thesis
    using upper_lookup_row [of r]
  proof (elim disjE exE conjE)
    assume "upper_lookup r = r"
    with u show ?thesis by simp
  next
    fix l h s d
    assume ok: "row_ok (l, h, s, d)" and r: "l \<le> r" "r \<le> h"
      and eq: "upper_lookup r = r + d"
    from ok have dom: "space_free wide_spaces l h" and im: "space_free wide_spaces (l + d) (h + d)"
      and fx: "image_fixed (l + d) (h + d) s"
      by (simp_all add: row_ok_def)
    have "\<not> is_space r"
      using dom r False by (force simp: space_free_iff is_space_wide)
    moreover have "\<not> is_space (r + d)"
    proof (cases "r + d < 128")
      case True
      with fx r have "33 \<le> r + d" by (auto simp: image_fixed_def split: if_splits)
      with True show ?thesis by (simp add: is_space_def)
    next
      case False
      with im r show ?thesis by (force simp: space_free_iff is_space_wide)
    qed
    ultimately show ?thesis using u eq by simp
  qed
qed

end
