(* ===== verification/GoText.thy ===== *)
theory GoText
  imports UnicodeCase
begin

text \<open>
  The part of Go's \<^verbatim>\<open>strings\<close> and \<^verbatim>\<open>strconv\<close> packages the program uses. A Go string is
  modelled as the list of its code points (its runes). That is exact for valid UTF-8, which is
  what the JSON decoder, the Latin-1 decoder and both databases hand to the program. The one
  byte-level operation, \<^verbatim>\<open>len\<close>, is \<open>go_len\<close>. \<open>lit\<close> writes an ASCII literal.
\<close>

type_synonym gostr = "rune list"

definition lit :: "string \<Rightarrow> gostr" where
  "lit s = List.map of_char s"

lemma lit_inj [simp]: "lit a = lit b \<longleftrightarrow> a = b"
  unfolding lit_def by (rule inj_map_eq_map) (simp add: inj_def)

lemma lit_Nil [simp]: "lit s = [] \<longleftrightarrow> s = []" "[] = lit s \<longleftrightarrow> s = []" "lit [] = []"
  by (simp_all add: lit_def)

lemma lit_append: "lit (a @ b) = lit a @ lit b"
  by (simp add: lit_def)

lemma length_lit [simp]: "length (lit s) = length s"
  by (simp add: lit_def)

text \<open>The number of bytes of a rune in UTF-8, and Go's \<^verbatim>\<open>len\<close> of a string.\<close>

definition rune_bytes :: "rune \<Rightarrow> nat" where
  "rune_bytes r = (if r < 128 then 1 else if r < 2048 then 2 else if r < 65536 then 3 else 4)"

definition go_len :: "gostr \<Rightarrow> nat" where
  "go_len s = sum_list (List.map rune_bytes s)"

definition is_digit :: "rune \<Rightarrow> bool" where
  "is_digit r \<longleftrightarrow> 48 \<le> r \<and> r \<le> 57"

lemma go_len_ascii: "\<forall>r \<in> set s. r < 128 \<Longrightarrow> go_len s = length s"
  by (induction s) (simp_all add: go_len_def rune_bytes_def)

lemma go_len_digits: "\<forall>r \<in> set s. is_digit r \<Longrightarrow> go_len s = length s"
  by (rule go_len_ascii) (auto simp: is_digit_def)

section \<open>Case, trimming, splitting and joining\<close>

definition to_upper :: "gostr \<Rightarrow> gostr" where
  "to_upper s = List.map upper_rune s"

definition to_lower :: "gostr \<Rightarrow> gostr" where
  "to_lower s = List.map lower_rune s"

definition trim_left_space :: "gostr \<Rightarrow> gostr" where
  "trim_left_space s = dropWhile is_space s"

definition trim_right_space :: "gostr \<Rightarrow> gostr" where
  "trim_right_space s = rev (dropWhile is_space (rev s))"

definition trim_space :: "gostr \<Rightarrow> gostr" where
  "trim_space s = trim_right_space (trim_left_space s)"

text \<open>\<^verbatim>\<open>strings.Fields\<close>: \<open>w\<close> is the word read so far.\<close>

fun fields_from :: "gostr \<Rightarrow> gostr \<Rightarrow> gostr list" where
  "fields_from w [] = (if w = [] then [] else [w])"
| "fields_from w (r # rs) =
     (if is_space r then (if w = [] then fields_from [] rs else w # fields_from [] rs)
      else fields_from (w @ [r]) rs)"

definition str_fields :: "gostr \<Rightarrow> gostr list" where
  "str_fields s = fields_from [] s"

fun str_join :: "gostr \<Rightarrow> gostr list \<Rightarrow> gostr" where
  "str_join sep [] = []"
| "str_join sep [w] = w"
| "str_join sep (w # v # ws) = w @ sep @ str_join sep (v # ws)"

text \<open>Words: nonempty and free of white space. These are what \<open>str_fields\<close> returns.\<close>

definition word_ok :: "gostr \<Rightarrow> bool" where
  "word_ok w \<longleftrightarrow> w \<noteq> [] \<and> (\<forall>r \<in> set w. \<not> is_space r)"

lemma is_space_32 [simp]: "is_space 32"
  by (simp add: is_space_def)

lemma fields_from_ok:
  "\<forall>r \<in> set w. \<not> is_space r \<Longrightarrow> v \<in> set (fields_from w s) \<Longrightarrow> word_ok v"
proof (induction w s rule: fields_from.induct)
  case (1 w)
  then show ?case by (simp add: word_ok_def split: if_splits)
next
  case (2 w r rs)
  then show ?case
    by (cases "is_space r"; cases "w = []") (auto simp: word_ok_def)
qed

lemma fields_ok: "v \<in> set (str_fields s) \<Longrightarrow> word_ok v"
  using fields_from_ok [of "[]" v s] by (simp add: str_fields_def)

lemma fields_from_word:
  "\<forall>r \<in> set v. \<not> is_space r \<Longrightarrow> fields_from w (v @ s) = fields_from (w @ v) s"
  by (induction v arbitrary: w) auto

lemma fields_from_space:
  "is_space b \<Longrightarrow> fields_from w (b # s) = (if w = [] then fields_from [] s else w # fields_from [] s)"
  by simp

lemma fields_join:
  assumes "\<forall>w \<in> set ws. word_ok w" and "is_space b"
  shows "str_fields (str_join [b] ws) = ws"
  using assms(1)
proof (induction "[b]" ws rule: str_join.induct)
  case 1
  show ?case by (simp add: str_fields_def)
next
  case (2 w)
  then show ?case
    using fields_from_word [of w "[]" "[]"] by (simp add: str_fields_def word_ok_def)
next
  case (3 w v ws)
  then have "fields_from [] (w @ [b] @ str_join [b] (v # ws)) = w # fields_from [] (str_join [b] (v # ws))"
    using fields_from_word [of w "[]" "b # str_join [b] (v # ws)"] assms(2)
    by (simp add: word_ok_def)
  with 3 show ?case by (simp add: str_fields_def)
qed

lemma fields_dropWhile [simp]: "str_fields (dropWhile is_space s) = str_fields s"
  by (induction s) (simp_all add: str_fields_def)

lemma fields_from_spaces: "\<forall>r \<in> set s. is_space r \<Longrightarrow> fields_from w s = (if w = [] then [] else [w])"
  by (induction s arbitrary: w) auto

lemma fields_from_trailing:
  "\<forall>r \<in> set t. is_space r \<Longrightarrow> fields_from w (s @ t) = fields_from w s"
  by (induction w s rule: fields_from.induct) (auto simp: fields_from_spaces)

lemma trim_right_split: "\<exists>t. s = trim_right_space s @ t \<and> (\<forall>r \<in> set t. is_space r)"
proof -
  have "s = rev (dropWhile is_space (rev s)) @ rev (takeWhile is_space (rev s))"
    by (metis rev_append rev_rev_ident takeWhile_dropWhile_id)
  then show ?thesis
    unfolding trim_right_space_def by (metis set_rev set_takeWhileD)
qed

lemma fields_trim_right [simp]: "str_fields (trim_right_space s) = str_fields s"
proof -
  obtain t where t: "s = trim_right_space s @ t" "\<forall>r \<in> set t. is_space r"
    using trim_right_split by blast
  then have "str_fields s = fields_from [] (trim_right_space s @ t)" by (simp add: str_fields_def)
  also have "\<dots> = str_fields (trim_right_space s)"
    using fields_from_trailing [OF t(2)] by (simp add: str_fields_def)
  finally show ?thesis by simp
qed

lemma fields_trim [simp]: "str_fields (trim_space s) = str_fields s"
  by (simp add: trim_space_def trim_left_space_def)

lemma fields_from_map:
  assumes "\<And>r. is_space (f r) = is_space r"
  shows "fields_from (List.map f w) (List.map f s) = List.map (List.map f) (fields_from w s)"
proof (induction w s rule: fields_from.induct)
  case (1 w)
  show ?case by simp
next
  case (2 w r rs)
  then show ?case
    using assms by (cases "is_space r"; cases "w = []") simp_all
qed

lemma fields_map:
  "(\<And>r. is_space (f r) = is_space r) \<Longrightarrow> str_fields (List.map f s) = List.map (List.map f) (str_fields s)"
  using fields_from_map [of f "[]" s] by (simp add: str_fields_def)

lemma map_join: "List.map f (str_join sep ws) = str_join (List.map f sep) (List.map (List.map f) ws)"
  by (induction sep ws rule: str_join.induct) simp_all

lemma trim_space_trim [simp]: "trim_space (trim_space s) = trim_space s"
proof -
  have l: "trim_left_space (trim_right_space (trim_left_space s)) = trim_right_space (trim_left_space s)"
  proof -
    let ?u = "trim_left_space s"
    obtain t where t: "?u = trim_right_space ?u @ t" using trim_right_split by blast
    have "trim_right_space ?u = [] \<or> \<not> is_space (hd (trim_right_space ?u))"
    proof (cases "trim_right_space ?u")
      case Nil
      then show ?thesis by simp
    next
      case (Cons a xs)
      then have "hd ?u = a" "?u \<noteq> []" using t by (metis append_Cons list.sel(1), simp)
      then have "\<not> is_space a"
        unfolding trim_left_space_def using hd_dropWhile by metis
      then show ?thesis using Cons by simp
    qed
    then show ?thesis
      unfolding trim_left_space_def by (cases "trim_right_space (dropWhile is_space s)") auto
  qed
  show ?thesis
    unfolding trim_space_def l unfolding trim_right_space_def by simp
qed

lemma trim_space_none: "\<forall>r \<in> set s. \<not> is_space r \<Longrightarrow> trim_space s = s"
proof -
  have d: "dropWhile is_space u = u" if "\<forall>r \<in> set u. \<not> is_space r" for u
    using that by (cases u) simp_all
  assume "\<forall>r \<in> set s. \<not> is_space r"
  then have "dropWhile is_space s = s" "dropWhile is_space (rev s) = rev s"
    by (simp_all add: d)
  then show ?thesis by (simp add: trim_space_def trim_left_space_def trim_right_space_def)
qed

section \<open>Searching and replacing\<close>

fun has_prefix :: "'a list \<Rightarrow> 'a list \<Rightarrow> bool" where
  "has_prefix s [] = True"
| "has_prefix [] (p # ps) = False"
| "has_prefix (r # rs) (p # ps) = (r = p \<and> has_prefix rs ps)"

definition has_suffix :: "'a list \<Rightarrow> 'a list \<Rightarrow> bool" where
  "has_suffix s t = has_prefix (rev s) (rev t)"

fun contains :: "'a list \<Rightarrow> 'a list \<Rightarrow> bool" where
  "contains [] sub = (sub = [])"
| "contains (r # rs) sub = (has_prefix (r # rs) sub \<or> contains rs sub)"

lemma has_prefix_iff: "has_prefix s p \<longleftrightarrow> (\<exists>t. s = p @ t)"
  by (induction s p rule: has_prefix.induct) auto

lemma has_prefix_append [simp]: "has_prefix (p @ t) p"
  by (auto simp: has_prefix_iff)

lemma has_suffix_iff: "has_suffix s t \<longleftrightarrow> (\<exists>u. s = u @ t)"
proof -
  have "has_suffix s t \<longleftrightarrow> (\<exists>u. rev s = rev t @ u)"
    by (simp add: has_suffix_def has_prefix_iff)
  also have "\<dots> \<longleftrightarrow> (\<exists>u. s = u @ t)"
    by (metis rev_append rev_rev_ident)
  finally show ?thesis .
qed

lemma contains_iff: "contains s sub \<longleftrightarrow> (\<exists>u v. s = u @ sub @ v)"
proof (induction s sub rule: contains.induct)
  case (1 sub)
  show ?case by auto
next
  case (2 r rs sub)
  show ?case
  proof
    assume "contains (r # rs) sub"
    then consider "has_prefix (r # rs) sub" | "contains rs sub" by auto
    then show "\<exists>u v. r # rs = u @ sub @ v"
    proof cases
      case 1
      then show ?thesis by (metis append_Nil has_prefix_iff)
    next
      case 2
      with "2.IH" show ?thesis by (metis append_Cons)
    qed
  next
    assume "\<exists>u v. r # rs = u @ sub @ v"
    then obtain u v where e: "r # rs = u @ sub @ v" by blast
    show "contains (r # rs) sub"
    proof (cases u)
      case Nil
      with e have "has_prefix (r # rs) sub" by (auto simp: has_prefix_iff)
      then show ?thesis by simp
    next
      case (Cons a as)
      with e "2.IH" show ?thesis by auto
    qed
  qed
qed

lemma contains_append: "contains s sub \<Longrightarrow> contains (u @ s @ v) sub"
  by (simp add: contains_iff) (metis append.assoc)

text \<open>
  \<^verbatim>\<open>strings.NewReplacer\<close>: at each position the first pair whose old string is a prefix of the
  rest is replaced, and the scan goes on behind it. The old strings are nonempty.
\<close>

fun first_match :: "(gostr \<times> gostr) list \<Rightarrow> gostr \<Rightarrow> (gostr \<times> gostr) option" where
  "first_match [] s = None"
| "first_match ((old, new) # ps) s = (if has_prefix s old then Some (old, new) else first_match ps s)"

function replacer :: "(gostr \<times> gostr) list \<Rightarrow> gostr \<Rightarrow> gostr" where
  "replacer ps [] = []"
| "replacer ps (r # rs) =
     (case first_match ps (r # rs) of
        None \<Rightarrow> r # replacer ps rs
      | Some (old, new) \<Rightarrow> new @ replacer ps (drop (length old - 1) rs))"
  by pat_completeness auto
termination by (relation "measure (\<lambda>(ps, s). length s)") auto

definition replace_all :: "gostr \<Rightarrow> gostr \<Rightarrow> gostr \<Rightarrow> gostr" where
  "replace_all s old new = replacer [(old, new)] s"

text \<open>A replacer whose old strings are single runes acts rune by rune.\<close>

definition rune_subst :: "(rune \<times> gostr) list \<Rightarrow> rune \<Rightarrow> gostr" where
  "rune_subst ps r = (case map_of ps r of None \<Rightarrow> [r] | Some new \<Rightarrow> new)"

lemma first_match_single:
  "first_match (List.map (\<lambda>(a, n). ([a], n)) ps) (r # rs) = map_option (\<lambda>n. ([r], n)) (map_of ps r)"
  by (induction ps) auto

lemma replacer_single:
  "replacer (List.map (\<lambda>(a, n). ([a], n)) ps) s = concat (List.map (rune_subst ps) s)"
  by (induction s) (auto simp: first_match_single rune_subst_def split: option.splits)

section \<open>Digits and numbers\<close>

definition digits_only :: "gostr \<Rightarrow> gostr" where
  "digits_only s = filter is_digit s"

lemma digits_only_digits: "\<forall>r \<in> set (digits_only s). is_digit r"
  by (simp add: digits_only_def)

lemma digits_only_idem [simp]: "digits_only (digits_only s) = digits_only s"
  by (simp add: digits_only_def)

lemma digits_only_append: "digits_only (a @ b) = digits_only a @ digits_only b"
  by (simp add: digits_only_def)

lemma digits_only_id: "\<forall>r \<in> set s. is_digit r \<Longrightarrow> digits_only s = s"
  by (simp add: digits_only_def)

text \<open>\<^verbatim>\<open>strconv.FormatInt(n, 10)\<close>.\<close>

fun nat_digits :: "nat \<Rightarrow> gostr" where
  "nat_digits n = (if n < 10 then [48 + int n] else nat_digits (n div 10) @ [48 + int (n mod 10)])"

declare nat_digits.simps [simp del]

definition itoa :: "int \<Rightarrow> gostr" where
  "itoa n = (if n < 0 then 45 # nat_digits (nat (- n)) else nat_digits (nat n))"

lemma nat_digits_digit: "\<forall>r \<in> set (nat_digits n). is_digit r"
proof (induction n rule: nat_digits.induct)
  case (1 n)
  then show ?case
    by (cases "n < 10") (simp_all add: nat_digits.simps [of n] is_digit_def)
qed

text \<open>The value of a digit string.\<close>

fun digits_value :: "nat \<Rightarrow> gostr \<Rightarrow> nat" where
  "digits_value acc [] = acc"
| "digits_value acc (r # rs) = digits_value (10 * acc + nat (r - 48)) rs"

lemma digits_value_append: "digits_value acc (s @ t) = digits_value (digits_value acc s) t"
  by (induction acc s rule: digits_value.induct) simp_all

lemma digits_value_nat_digits [simp]: "digits_value 0 (nat_digits n) = n"
proof (induction n rule: nat_digits.induct)
  case (1 n)
  then show ?case
    by (cases "n < 10") (simp_all add: nat_digits.simps [of n] digits_value_append)
qed

lemma nat_digits_inj: "nat_digits m = nat_digits n \<Longrightarrow> m = n"
  by (metis digits_value_nat_digits)

lemma nat_digits_no_sign: "nat_digits m \<noteq> 45 # s"
  using nat_digits_digit [of m] by (auto simp: is_digit_def)

lemma itoa_inj [simp]: "itoa m = itoa n \<longleftrightarrow> m = n"
proof
  assume "itoa m = itoa n"
  then show "m = n"
    by (cases "m < 0"; cases "n < 0")
      (auto simp: itoa_def nat_digits_no_sign dest: nat_digits_inj
        dest!: nat_digits_no_sign [symmetric, THEN notE] split: if_splits)
qed simp

end
