(* ===== verification/Float64.thy ===== *)
theory Float64
  imports Complex_Main "HOL-Library.Log_Nat"
begin

text \<open>
  Go's \<^verbatim>\<open>float64\<close> where the program decides with it: the confidence score and the share of
  records a retraction sweep would unpublish. A value is the rational it stands for; a decimal
  literal, a sum or a quotient is the exact rational rounded by \<open>fl\<close>: to 53 significant bits,
  to nearest, ties to even. Only values in \<open>[0, 2 ^ 53]\<close> occur, far inside the normal range, so
  neither overflow nor subnormals are modelled.
\<close>

definition f64_exp :: "rat \<Rightarrow> int" where
  "f64_exp q =
     (case quotient_of q of (n, d) \<Rightarrow>
        let e = int (floorlog 2 (nat n)) - int (floorlog 2 (nat d))
        in if 2 powi e \<le> q then e else e - 1)"

definition rne :: "rat \<Rightarrow> int" where
  "rne x =
     (let f = \<lfloor>x\<rfloor>; r = x - of_int f
      in if r < 1 / 2 then f else if 1 / 2 < r then f + 1 else if even f then f else f + 1)"

definition fl :: "rat \<Rightarrow> rat" where
  "fl q = (if q \<le> 0 then 0 else of_int (rne (q / 2 powi (f64_exp q - 52))) * 2 powi (f64_exp q - 52))"

definition fl_add :: "rat \<Rightarrow> rat \<Rightarrow> rat" where
  "fl_add a b = fl (a + b)"

definition fl_div :: "rat \<Rightarrow> rat \<Rightarrow> rat" where
  "fl_div a b = fl (a / b)"

section \<open>Rounding to an integer\<close>

lemma rne_cases: "rne x = \<lfloor>x\<rfloor> \<or> rne x = \<lfloor>x\<rfloor> + 1"
  by (simp add: rne_def Let_def)

lemma rne_error: "\<bar>of_int (rne x) - x\<bar> \<le> 1 / 2"
proof -
  have "of_int \<lfloor>x\<rfloor> \<le> x" "x < of_int \<lfloor>x\<rfloor> + 1" by linarith+
  then show ?thesis by (auto simp: rne_def Let_def)
qed

lemma rne_int [simp]: "rne (of_int k) = k"
  by (simp add: rne_def)

lemma rne_mono:
  assumes "x \<le> y" shows "rne x \<le> rne y"
proof (cases "\<lfloor>x\<rfloor> = \<lfloor>y\<rfloor>")
  case True
  with assms show ?thesis by (auto simp: rne_def Let_def)
next
  case False
  with floor_mono [OF assms] have "\<lfloor>x\<rfloor> + 1 \<le> \<lfloor>y\<rfloor>" by linarith
  then show ?thesis using rne_cases [of x] rne_cases [of y] by linarith
qed

lemma rne_strict: "x + 1 < y \<Longrightarrow> rne x < rne y"
  using rne_error [of x] rne_error [of y] by linarith

section \<open>The binary exponent\<close>

lemma powi_less_iff: "(2::rat) powi a < 2 powi b \<longleftrightarrow> a < b"
proof
  show "a < b \<Longrightarrow> (2::rat) powi a < 2 powi b" by (rule power_int_strict_increasing) auto
next
  assume l: "(2::rat) powi a < 2 powi b"
  show "a < b"
  proof (rule ccontr)
    assume "\<not> a < b"
    then have "(2::rat) powi b \<le> 2 powi a" by (intro power_int_increasing) auto
    with l show False by simp
  qed
qed

lemma powi_split: "(2::rat) powi (a + b) = 2 powi a * 2 powi b"
  by (rule power_int_add) simp

lemma floorlog_rat_bounds:
  assumes "0 < n"
  shows "2 powi (int (floorlog 2 (nat n)) - 1) \<le> (of_int n :: rat)"
    and "(of_int n :: rat) < 2 powi (int (floorlog 2 (nat n)))"
proof -
  let ?f = "floorlog 2 (nat n)"
  have b: "2 ^ (?f - 1) \<le> nat n" "nat n < 2 ^ ?f"
    using floorlog_bounds [of "nat n" 2] assms by auto
  have f: "0 < ?f" using assms by (simp add: floorlog_def)
  have "(2::int) ^ (?f - 1) \<le> n" "n < 2 ^ ?f"
    using b assms by (simp_all add: nat_le_iff nat_less_iff flip: of_nat_le_iff of_nat_less_iff)
  then have "(2::rat) ^ (?f - 1) \<le> of_int n" "of_int n < (2::rat) ^ ?f"
    by (metis of_int_le_iff of_int_numeral of_int_power,
        metis of_int_less_iff of_int_numeral of_int_power)
  moreover have "(2::rat) powi (int ?f - 1) = 2 ^ (?f - 1)"
    using f by (simp add: power_int_def nat_diff_distrib)
  ultimately show "2 powi (int ?f - 1) \<le> (of_int n :: rat)" "(of_int n :: rat) < 2 powi (int ?f)"
    by (simp_all add: power_int_def)
qed

lemma f64_exp_bounds:
  assumes "0 < q"
  shows "2 powi (f64_exp q) \<le> q" and "q < 2 powi (f64_exp q + 1)"
proof -
  obtain n d where nd: "quotient_of q = (n, d)" by fastforce
  then have d: "0 < d" and q: "q = of_int n / of_int d"
    using quotient_of_denom_pos quotient_of_div by blast+
  with assms have n: "0 < n" by (simp add: zero_less_divide_iff)
  define a b where "a = int (floorlog 2 (nat n))" and "b = int (floorlog 2 (nat d))"
  have n1: "2 powi (a - 1) \<le> (of_int n :: rat)" and n2: "(of_int n :: rat) < 2 powi a"
    using floorlog_rat_bounds [OF n] by (simp_all add: a_def)
  have d1: "2 powi (b - 1) \<le> (of_int d :: rat)" and d2: "(of_int d :: rat) < 2 powi b"
    using floorlog_rat_bounds [OF d] by (simp_all add: b_def)
  have dpos: "(0::rat) < of_int d" using d by simp
  have lo: "2 powi (a - b - 1) \<le> q"
  proof -
    have "2 powi (a - b - 1) * of_int d \<le> 2 powi (a - b - 1) * (2::rat) powi b"
      using d2 by (intro mult_left_mono) auto
    also have "\<dots> = 2 powi (a - 1)" by (simp flip: power_int_add)
    finally have "2 powi (a - b - 1) * of_int d \<le> (of_int n :: rat)" using n1 by linarith
    then show ?thesis using dpos by (simp add: q pos_le_divide_eq)
  qed
  have hi: "q < 2 powi (a - b + 1)"
  proof -
    have "(of_int n :: rat) < 2 powi (a - b + 1) * 2 powi (b - 1)"
      using n2 by (simp flip: power_int_add)
    also have "\<dots> \<le> 2 powi (a - b + 1) * of_int d"
      using d1 by (intro mult_left_mono) auto
    finally show ?thesis using dpos by (simp add: q pos_divide_less_eq)
  qed
  have e: "f64_exp q = (if 2 powi (a - b) \<le> q then a - b else a - b - 1)"
    by (simp add: f64_exp_def nd a_def b_def Let_def)
  show "2 powi (f64_exp q) \<le> q" using e lo by simp
  show "q < 2 powi (f64_exp q + 1)" using e hi by auto
qed

lemma f64_exp_unique:
  assumes "2 powi k \<le> q" and "q < 2 powi (k + 1)"
  shows "f64_exp q = k"
proof -
  have "0 < q" using assms(1) by (meson less_le_trans zero_less_numeral zero_less_power_int)
  note b = f64_exp_bounds [OF this]
  have "(2::rat) powi k < 2 powi (f64_exp q + 1)" "(2::rat) powi f64_exp q < 2 powi (k + 1)"
    using assms b by linarith+
  then show ?thesis by (simp add: powi_less_iff)
qed

lemma f64_exp_mono: "0 < p \<Longrightarrow> p \<le> q \<Longrightarrow> f64_exp p \<le> f64_exp q"
proof -
  assume "0 < p" "p \<le> q"
  then have "(2::rat) powi f64_exp p < 2 powi (f64_exp q + 1)"
    using f64_exp_bounds [of p] f64_exp_bounds [of q] by linarith
  then show ?thesis by (simp add: powi_less_iff)
qed

section \<open>Rounding is monotone and keeps powers of two as barriers\<close>

lemma fl_ge_power:
  assumes "0 < q" shows "2 powi (f64_exp q) \<le> fl q"
proof -
  let ?e = "f64_exp q"
  have pw: "(2::rat) powi 52 * 2 powi (?e - 52) = 2 powi ?e" using powi_split [of 52 "?e - 52"] by simp
  then have "2 powi 52 * 2 powi (?e - 52) \<le> q"
    using f64_exp_bounds(1) [OF assms] by (simp only:)
  then have "of_int (2 ^ 52) \<le> q / 2 powi (?e - 52)"
    by (simp add: pos_le_divide_eq)
  then have "rne (of_int (2 ^ 52)) \<le> rne (q / 2 powi (?e - 52))" by (rule rne_mono)
  then have "2 ^ 52 \<le> rne (q / 2 powi (?e - 52))" by (simp only: rne_int)
  then have "(of_int (2 ^ 52) :: rat) * 2 powi (?e - 52) \<le> fl q"
    using assms by (simp add: fl_def mult_right_mono flip: of_int_le_iff)
  moreover have "(of_int (2 ^ 52) :: rat) * 2 powi (?e - 52) = 2 powi 52 * 2 powi (?e - 52)" by simp
  ultimately show ?thesis using pw by (simp only:)
qed

lemma fl_le_power:
  assumes "0 < q" shows "fl q \<le> 2 powi (f64_exp q + 1)"
proof -
  let ?e = "f64_exp q"
  have pw: "(2::rat) powi 53 * 2 powi (?e - 52) = 2 powi (?e + 1)"
    using powi_split [of 53 "?e - 52"] by (simp add: algebra_simps)
  then have "q \<le> 2 powi 53 * 2 powi (?e - 52)"
    using f64_exp_bounds(2) [OF assms] by (simp only: less_imp_le)
  then have "q / 2 powi (?e - 52) \<le> of_int (2 ^ 53)"
    by (simp add: pos_divide_le_eq)
  then have "rne (q / 2 powi (?e - 52)) \<le> rne (of_int (2 ^ 53))" by (rule rne_mono)
  then have "rne (q / 2 powi (?e - 52)) \<le> 2 ^ 53" by (simp only: rne_int)
  then have "fl q \<le> (of_int (2 ^ 53) :: rat) * 2 powi (?e - 52)"
    using assms by (simp add: fl_def mult_right_mono flip: of_int_le_iff)
  moreover have "(of_int (2 ^ 53) :: rat) * 2 powi (?e - 52) = 2 powi 53 * 2 powi (?e - 52)" by simp
  ultimately show ?thesis using pw by (simp only:)
qed

lemma fl_nonneg [simp]: "0 \<le> fl q"
proof (cases "0 < q")
  case True
  then show ?thesis using fl_ge_power [OF True] by (meson order_trans zero_le_numeral zero_le_power_int)
next
  case False
  then show ?thesis by (simp add: fl_def)
qed

lemma fl_mono:
  assumes "p \<le> q" shows "fl p \<le> fl q"
proof (cases "0 < p")
  case False
  then show ?thesis by (simp add: fl_def [of p])
next
  case True
  with assms have q: "0 < q" by simp
  show ?thesis
  proof (cases "f64_exp p = f64_exp q")
    case same: True
    have "p / 2 powi (f64_exp q - 52) \<le> q / 2 powi (f64_exp q - 52)"
      using assms by (intro divide_right_mono) auto
    then have "rne (p / 2 powi (f64_exp q - 52)) \<le> rne (q / 2 powi (f64_exp q - 52))"
      by (rule rne_mono)
    then show ?thesis using True q by (simp add: fl_def same mult_right_mono)
  next
    case False
    with f64_exp_mono [OF True assms] have "f64_exp p + 1 \<le> f64_exp q" by simp
    then have "(2::rat) powi (f64_exp p + 1) \<le> 2 powi f64_exp q"
      by (simp add: power_int_increasing)
    then show ?thesis using fl_le_power [OF True] fl_ge_power [OF q] by linarith
  qed
qed

lemma fl_strict_same_exp:
  assumes "0 < p" and "f64_exp p = f64_exp q" and "p + 2 powi (f64_exp q - 52) < q"
  shows "fl p < fl q"
proof -
  let ?u = "(2::rat) powi (f64_exp q - 52)"
  have u: "0 < ?u" by simp
  have q: "0 < q" using assms(1,3) u by linarith
  have "p / ?u + 1 = (p + ?u) / ?u" by (simp add: add_divide_distrib)
  also have "\<dots> < q / ?u" using assms(3) u by (rule divide_strict_right_mono)
  finally have "rne (p / ?u) < rne (q / ?u)" by (rule rne_strict)
  then show ?thesis using assms(1,2) q u by (simp add: fl_def)
qed

section \<open>Evaluating a rounding\<close>

text \<open>\<open>j\<close> is the binary exponent of a value below 2, so that \<open>q * 2 ^ (52 + j)\<close> is its significand.\<close>

lemma fl_eval:
  assumes "1 / 2 ^ j \<le> q" and "q < 2 / 2 ^ j"
  shows "fl q = of_int (rne (q * 2 ^ (52 + j))) / 2 ^ (52 + j)"
proof -
  have p: "(2::rat) powi (- int n) = 1 / 2 ^ n" for n
    by (simp add: power_int_minus inverse_eq_divide)
  have p1: "(2::rat) powi (- int j + 1) = 2 / 2 ^ j"
    using powi_split [of "- int j" 1] by (simp add: p)
  have e: "f64_exp q = - int j"
    by (rule f64_exp_unique) (use assms p p1 in simp_all)
  have q: "0 < q" using assms(1) by (meson less_le_trans zero_less_divide_1_iff zero_less_numeral zero_less_power)
  have u: "(2::rat) powi (f64_exp q - 52) = 1 / 2 ^ (52 + j)"
    using p [of "52 + j"] by (simp add: e algebra_simps)
  show ?thesis using q by (simp add: fl_def u)
qed

lemma rne_near: "\<bar>q - of_int m\<bar> < 1 / 2 \<Longrightarrow> rne q = m"
  using rne_error [of q] by linarith

lemma rne_tie: "rne (of_int k + 1 / 2) = (if even k then k else k + 1)"
proof -
  have "\<lfloor>of_int k + 1 / 2 :: rat\<rfloor> = k" by linarith
  then show ?thesis by (simp add: rne_def)
qed

lemma fl_near:
  "1 / 2 ^ j \<le> q \<Longrightarrow> q < 2 / 2 ^ j \<Longrightarrow> \<bar>q * 2 ^ (52 + j) - of_int m\<bar> < 1 / 2 \<Longrightarrow>
     fl q = of_int m / 2 ^ (52 + j)"
  by (simp add: fl_eval rne_near)

lemma fl_tie:
  "1 / 2 ^ j \<le> q \<Longrightarrow> q < 2 / 2 ^ j \<Longrightarrow> q * 2 ^ (52 + j) = of_int k + 1 / 2 \<Longrightarrow>
     fl q = of_int (if even k then k else k + 1) / 2 ^ (52 + j)"
  by (simp add: fl_eval rne_tie)

end
