(* ===== verification/Matching.thy ===== *)
theory Matching
  imports GoText Float64
begin

text \<open>
  Package \<^verbatim>\<open>matching\<close> (\<^verbatim>\<open>backend/matching/confidence.go\<close>): how strongly an official record can
  be tied to a politician, and whether that is strong enough to write an edge with no human in
  the loop. The score is computed in \<^verbatim>\<open>float64\<close>, in the order the code adds its weights.
\<close>

section \<open>Name normalisation\<close>

definition fold_accent :: "rune \<Rightarrow> rune option" where
  "fold_accent r =
     (if r \<in> {193, 192, 194, 195, 196} then Some 65
      else if r \<in> {201, 200, 202, 203} then Some 69
      else if r \<in> {205, 204, 206, 207} then Some 73
      else if r \<in> {211, 210, 212, 213, 214} then Some 79
      else if r \<in> {218, 217, 219, 220} then Some 85
      else if r = 199 then Some 67
      else if r = 209 then Some 78
      else None)"

definition fold_rune :: "rune \<Rightarrow> rune" where
  "fold_rune r = (case fold_accent r of Some f \<Rightarrow> f | None \<Rightarrow> r)"

definition normalize_name :: "gostr \<Rightarrow> gostr" where
  "normalize_name s = str_join [32] (str_fields (List.map fold_rune (to_upper (trim_space s))))"

definition names_match :: "gostr \<Rightarrow> gostr \<Rightarrow> bool" where
  "names_match a b \<longleftrightarrow> normalize_name a \<noteq> [] \<and> normalize_name a = normalize_name b"

section \<open>The score\<close>

record evidence =
  ev_full_document :: bool
  ev_masked_cpf :: bool
  ev_source_name :: gostr
  ev_subject_name :: gostr
  ev_candidates :: int

definition auto_link_threshold :: rat where
  "auto_link_threshold = fl (85 / 100)"

definition add_masked :: "evidence \<Rightarrow> rat \<times> string list \<Rightarrow> rat \<times> string list" where
  "add_masked e acc =
     (if ev_masked_cpf e then (fl_add (fst acc) (fl (60 / 100)), snd acc @ [''masked_cpf_middle6''])
      else acc)"

definition add_name :: "evidence \<Rightarrow> rat \<times> string list \<Rightarrow> rat \<times> string list" where
  "add_name e acc =
     (if names_match (ev_source_name e) (ev_subject_name e) then
        let acc' = (fl_add (fst acc) (fl (30 / 100)), snd acc @ [''exact_name'']) in
        if 4 \<le> length (str_fields (normalize_name (ev_source_name e))) then
          (fl_add (fst acc') (fl (5 / 100)), snd acc' @ [''long_name''])
        else acc'
      else acc)"

definition cap_ambiguous :: "evidence \<Rightarrow> rat \<times> string list \<Rightarrow> rat \<times> string list" where
  "cap_ambiguous e acc =
     (if 1 < ev_candidates e then
        (if fl (5 / 10) < fst acc then fl (5 / 10) else fst acc, snd acc @ [''ambiguous_match''])
      else acc)"

definition score :: "evidence \<Rightarrow> rat \<times> string list" where
  "score e =
     (if ev_full_document e then (1, [''full_document''])
      else
        let acc = cap_ambiguous e (add_name e (add_masked e (0, []))) in
        (if 1 < fst acc then 1 else fst acc, snd acc))"

definition auto_link :: "evidence \<Rightarrow> bool \<times> rat \<times> string list" where
  "auto_link e = (auto_link_threshold \<le> fst (score e), score e)"

section \<open>Normalisation is idempotent\<close>

lemma fold_rune_upper [simp]: "upper_rune (fold_rune (upper_rune r)) = fold_rune (upper_rune r)"
proof (cases "fold_accent (upper_rune r)")
  case None
  then show ?thesis by (simp add: fold_rune_def)
next
  case (Some f)
  then have "f \<in> {65, 67, 69, 73, 78, 79, 85}"
    by (auto simp: fold_accent_def split: if_splits)
  with Some show ?thesis by (auto simp: fold_rune_def upper_rune_def)
qed

lemma fold_rune_fold [simp]: "fold_rune (fold_rune r) = fold_rune r"
  by (auto simp: fold_rune_def fold_accent_def split: option.splits)

lemma is_space_fold [simp]: "is_space (fold_rune r) = is_space r"
  by (auto simp: fold_rune_def fold_accent_def is_space_def split: option.splits if_splits)

definition norm_rune :: "rune \<Rightarrow> rune" where
  "norm_rune r = fold_rune (upper_rune r)"

lemma norm_rune_idem [simp]: "norm_rune (norm_rune r) = norm_rune r"
  by (simp add: norm_rune_def)

lemma is_space_norm_rune [simp]: "is_space (norm_rune r) = is_space r"
  by (simp add: norm_rune_def)

lemma to_upper_trim_fields:
  "str_fields (List.map f (to_upper (trim_space s))) = str_fields (List.map f (to_upper s))"
  if "\<And>r. is_space (f r) = is_space r"
proof -
  have "str_fields (List.map (f \<circ> upper_rune) (trim_space s)) = str_fields (List.map (f \<circ> upper_rune) s)"
    by (simp add: fields_map that)
  then show ?thesis by (simp add: to_upper_def)
qed

text \<open>The normal form is the word list, with every rune normalised, joined by single spaces.\<close>

lemma normalize_name_words:
  "normalize_name s = str_join [32] (List.map (List.map norm_rune) (str_fields s))"
proof -
  have "str_fields (List.map fold_rune (to_upper (trim_space s))) = str_fields (List.map norm_rune s)"
    by (simp add: to_upper_trim_fields) (simp add: to_upper_def norm_rune_def [abs_def] o_def)
  then show ?thesis by (simp add: normalize_name_def fields_map)
qed

lemma word_ok_norm: "word_ok w \<Longrightarrow> word_ok (List.map norm_rune w)"
  by (simp add: word_ok_def)

lemma fields_normalize: "str_fields (normalize_name s) = List.map (List.map norm_rune) (str_fields s)"
  unfolding normalize_name_words by (rule fields_join) (auto intro: word_ok_norm fields_ok)

lemma normalize_name_idem [simp]: "normalize_name (normalize_name s) = normalize_name s"
  by (simp add: normalize_name_words [of "normalize_name s"] fields_normalize o_def)
    (simp add: normalize_name_words)

lemma normalize_name_trim [simp]: "normalize_name (trim_space s) = normalize_name s"
  by (simp add: normalize_name_words)

section \<open>The values the score takes\<close>

lemma threshold_value: "auto_link_threshold = 7656119366529843 / 9007199254740992"
  unfolding auto_link_threshold_def
  using fl_near [of 1 "85 / 100" 7656119366529843] by simp

lemma weights:
  "fl (3 / 5) = 5404319552844595 / 9007199254740992"
  "fl (3 / 10) = 5404319552844595 / 18014398509481984"
  "fl (1 / 20) = 3602879701896397 / 72057594037927936"
  "fl (1 / 2) = 1 / 2"
  using fl_near [of 1 "3 / 5" 5404319552844595] fl_near [of 2 "3 / 10" 5404319552844595]
    fl_near [of 5 "1 / 20" 7205759403792794] fl_near [of 1 "1 / 2" 4503599627370496]
  by simp_all

lemma sums:
  "fl_add 0 (5404319552844595 / 9007199254740992) = 5404319552844595 / 9007199254740992"
  "fl_add 0 (5404319552844595 / 18014398509481984) = 5404319552844595 / 18014398509481984"
  "fl_add (5404319552844595 / 18014398509481984) (3602879701896397 / 72057594037927936)
     = 3152519739159347 / 9007199254740992"
  "fl_add (5404319552844595 / 9007199254740992) (5404319552844595 / 18014398509481984)
     = 2026619832316723 / 2251799813685248"
  "fl_add (2026619832316723 / 2251799813685248) (3602879701896397 / 72057594037927936)
     = 4278419646001971 / 4503599627370496"
  using fl_near [of 1 "5404319552844595 / 9007199254740992" 5404319552844595]
    fl_near [of 2 "5404319552844595 / 18014398509481984" 5404319552844595]
    fl_near [of 2 "5404319552844595 / 18014398509481984 + 3602879701896397 / 72057594037927936" 6305039478318694]
    fl_tie [of 1 "5404319552844595 / 9007199254740992 + 5404319552844595 / 18014398509481984" 8106479329266892]
    fl_near [of 1 "2026619832316723 / 2251799813685248 + 3602879701896397 / 72057594037927936" 8556839292003942]
  by (simp_all add: fl_add_def)

lemmas score_values = weights sums threshold_value

section \<open>What the score decides\<close>

text \<open>Without a document the score is one of six values.\<close>

lemma score_without_document:
  assumes "\<not> ev_full_document e"
  shows "fst (score e) \<in> {0, 5404319552844595 / 9007199254740992, 5404319552844595 / 18014398509481984,
    3152519739159347 / 9007199254740992, 1 / 2, 2026619832316723 / 2251799813685248,
    4278419646001971 / 4503599627370496}"
  using assms
  by (auto simp: score_def add_masked_def add_name_def cap_ambiguous_def score_values Let_def)

lemma auto_link_cases:
  "fst (auto_link e) \<longleftrightarrow>
     ev_full_document e \<or>
     (ev_masked_cpf e \<and> names_match (ev_source_name e) (ev_subject_name e) \<and> ev_candidates e \<le> 1)"
  by (cases "ev_full_document e"; cases "ev_masked_cpf e";
      cases "names_match (ev_source_name e) (ev_subject_name e)"; cases "1 < ev_candidates e";
      cases "4 \<le> length (str_fields (normalize_name (ev_source_name e)))")
    (simp_all add: auto_link_def score_def add_masked_def add_name_def cap_ambiguous_def
      score_values Let_def)

text \<open>C7: \<open>AutoLink\<close> says yes exactly when the source published a full document, or the masked
  CPF digits agree, the normalised names agree and at most one politician fits. In particular no
  name, however long and exact, ever links by itself, in the \<open>float64\<close> arithmetic the code runs.\<close>

theorem auto_link_iff:
  "fst (auto_link e) \<longleftrightarrow>
     ev_full_document e \<or>
     (ev_masked_cpf e \<and> names_match (ev_source_name e) (ev_subject_name e) \<and> ev_candidates e \<le> 1)"
  by (rule auto_link_cases)

text \<open>\<open>Score\<close> is a confidence: it lies in \<open>[0, 1]\<close>, and evidence that fits more than one
  politician and carries no document never scores above one half, whatever else agrees.\<close>

theorem score_bounds:
  "0 \<le> fst (score e) \<and> fst (score e) \<le> 1 \<and>
   (fst (score e) \<le> 1 / 2 \<or> ev_full_document e \<or> ev_candidates e \<le> 1)"
  by (cases "ev_full_document e"; cases "1 < ev_candidates e")
    (auto simp: score_def add_masked_def add_name_def cap_ambiguous_def score_values Let_def)

text \<open>The comment on \<open>AutoLinkThreshold\<close> counts masked CPF plus exact name as 0.90. In
  \<open>float64\<close> the sum is the double just below the double nearest 0.90: at a threshold of 0.90
  the intended case would not link at all. At 0.85 it does.\<close>

theorem masked_name_below_ninety:
  "let e = \<lparr>ev_full_document = False, ev_masked_cpf = True, ev_source_name = lit ''Ana Reis'',
            ev_subject_name = lit ''ANA REIS'', ev_candidates = 1\<rparr>
   in fst (score e) < fl (90 / 100) \<and> fst (auto_link e)"
proof -
  have n: "fl (9 / 10) = 8106479329266893 / 9007199254740992"
    using fl_near [of 1 "9 / 10" 8106479329266893] by simp
  have m: "normalize_name (lit ''Ana Reis'') = lit ''ANA REIS''"
    "normalize_name (lit ''ANA REIS'') = lit ''ANA REIS''" by code_simp+
  have w: "length (str_fields (lit ''ANA REIS'')) = 2" by code_simp
  show ?thesis
    by (simp add: auto_link_def score_def add_masked_def add_name_def cap_ambiguous_def
        names_match_def m w n score_values Let_def)
qed

text \<open>Name comparison depends on the normal form alone: normalising twice changes nothing,
  a name and its normal form match the same names, and matching is symmetric.\<close>

theorem normalize_name_canonical:
  "normalize_name (normalize_name a) = normalize_name a
   \<and> names_match (normalize_name a) b = names_match a b
   \<and> names_match a b = names_match b a"
  by (auto simp: names_match_def)

end
