(* ===== verification/Graph.thy ===== *)
theory Graph
  imports Complex_Main Prelude GoText
begin

text \<open>
  The property graph the program keeps in Memgraph and the part of Cypher its statements use:
  \<^verbatim>\<open>MATCH\<close> by label and property, \<^verbatim>\<open>MERGE\<close> of a node on one identity property, \<^verbatim>\<open>SET\<close>, \<^verbatim>\<open>REMOVE\<close>,
  \<^verbatim>\<open>MERGE\<close> of a relationship, \<^verbatim>\<open>DETACH DELETE\<close>. A property that is absent is \<open>None\<close>, which is
  Cypher's \<^verbatim>\<open>null\<close>. The uniqueness constraints of migration 001 are checked where a node is
  created or given an id.
\<close>

datatype pval = PStr gostr | PNum rat | PBool bool | PList "gostr list"

type_synonym props = "string \<Rightarrow> pval option"

record node =
  n_key :: nat
  n_labels :: "string list"
  n_props :: props

record edge =
  e_from :: nat
  e_type :: string
  e_to :: nat
  e_props :: props

record graph =
  g_nodes :: "node list"
  g_edges :: "edge list"
  g_next :: nat

definition empty_graph :: graph where
  "empty_graph = \<lparr>g_nodes = [], g_edges = [], g_next = 0\<rparr>"

section \<open>Matching\<close>

definition has_label :: "string \<Rightarrow> node \<Rightarrow> bool" where
  "has_label l n \<longleftrightarrow> l \<in> set (n_labels n)"

definition prop_is :: "string \<Rightarrow> pval \<Rightarrow> node \<Rightarrow> bool" where
  "prop_is k v n \<longleftrightarrow> n_props n k = Some v"

definition match_nodes :: "string \<Rightarrow> (node \<Rightarrow> bool) \<Rightarrow> graph \<Rightarrow> node list" where
  "match_nodes l P g = filter (\<lambda>n. has_label l n \<and> P n) (g_nodes g)"

text \<open>\<^verbatim>\<open>v, _ := p[key].(string)\<close>: the empty string when the property is absent or not a string.\<close>

definition str_prop :: "props \<Rightarrow> string \<Rightarrow> gostr" where
  "str_prop p k = (case p k of Some (PStr s) \<Rightarrow> s | _ \<Rightarrow> [])"

definition bool_prop :: "props \<Rightarrow> string \<Rightarrow> bool" where
  "bool_prop p k = (case p k of Some (PBool b) \<Rightarrow> b | _ \<Rightarrow> False)"

definition list_prop :: "props \<Rightarrow> string \<Rightarrow> gostr list" where
  "list_prop p k = (case p k of Some (PList l) \<Rightarrow> l | _ \<Rightarrow> [])"

definition num_prop :: "props \<Rightarrow> string \<Rightarrow> rat" where
  "num_prop p k = (case p k of Some (PNum x) \<Rightarrow> x | _ \<Rightarrow> 0)"

definition node_id :: "node \<Rightarrow> gostr" where
  "node_id n = str_prop (n_props n) ''id''"

definition id_of_key :: "graph \<Rightarrow> nat \<Rightarrow> gostr" where
  "id_of_key g k = (case find (\<lambda>n. n_key n = k) (g_nodes g) of None \<Rightarrow> [] | Some n \<Rightarrow> node_id n)"

section \<open>Writing nodes\<close>

text \<open>A \<^verbatim>\<open>SET\<close> of several properties; \<open>None\<close> is \<^verbatim>\<open>null\<close> and removes the property.\<close>

fun set_props :: "(string \<times> pval option) list \<Rightarrow> props \<Rightarrow> props" where
  "set_props [] p = p"
| "set_props ((k, v) # kvs) p = set_props kvs (p(k := v))"

definition upd_props :: "(string \<times> pval option) list \<Rightarrow> node \<Rightarrow> node" where
  "upd_props kvs n = n\<lparr>n_props := set_props kvs (n_props n)\<rparr>"

definition add_label :: "string \<Rightarrow> node \<Rightarrow> node" where
  "add_label l n = (if has_label l n then n else n\<lparr>n_labels := n_labels n @ [l]\<rparr>)"

definition drop_label :: "string \<Rightarrow> node \<Rightarrow> node" where
  "drop_label l n = n\<lparr>n_labels := filter (\<lambda>x. x \<noteq> l) (n_labels n)\<rparr>"

text \<open>The labels with a uniqueness constraint on \<^verbatim>\<open>id\<close>.\<close>

definition unique_labels :: "string list" where
  "unique_labels = [''Politician'', ''Person'', ''Scandal'', ''Organization'', ''LegalProceeding'',
     ''Source'', ''Sanction'', ''SanctionRecord'']"

definition id_clash :: "node \<Rightarrow> node \<Rightarrow> bool" where
  "id_clash a b \<longleftrightarrow>
     n_props a ''id'' \<noteq> None \<and> n_props a ''id'' = n_props b ''id'' \<and>
     (\<exists>l \<in> set unique_labels. has_label l a \<and> has_label l b)"

text \<open>A statement whose result violates a constraint fails and has no effect.\<close>

definition ids_unique :: "graph \<Rightarrow> bool" where
  "ids_unique g \<longleftrightarrow> sorted_wrt (\<lambda>a b. \<not> id_clash a b) (g_nodes g)"

definition map_nodes :: "(node \<Rightarrow> bool) \<Rightarrow> (node \<Rightarrow> node) \<Rightarrow> graph \<Rightarrow> graph" where
  "map_nodes P f g = g\<lparr>g_nodes := List.map (\<lambda>n. if P n then f n else n) (g_nodes g)\<rparr>"

text \<open>
  \<^verbatim>\<open>MERGE (n:l {k: v}) ON CREATE SET c SET f\<close>: every match is updated by \<open>f\<close>; with no match one
  node is created, takes \<open>c\<close> and then \<open>f\<close>. The result is the graph, the rows bound to \<open>n\<close>, and
  whether the node was created.
\<close>

definition merge_node ::
  "string \<Rightarrow> string \<Rightarrow> pval \<Rightarrow> (string \<times> pval option) list \<Rightarrow> (node \<Rightarrow> node) \<Rightarrow> graph
     \<Rightarrow> graph \<times> node list \<times> bool" where
  "merge_node l k v c f g =
     (let ms = match_nodes l (prop_is k v) g in
      if ms \<noteq> [] then
        (map_nodes (\<lambda>n. has_label l n \<and> prop_is k v n) f g, List.map f ms, False)
      else
        let n = f \<lparr>n_key = g_next g, n_labels = [l], n_props = set_props c (Map.empty(k := Some v))\<rparr>
        in (g\<lparr>g_nodes := g_nodes g @ [n], g_next := g_next g + 1\<rparr>, [n], True))"

section \<open>Writing relationships\<close>

definition edge_is :: "nat \<Rightarrow> string \<Rightarrow> nat \<Rightarrow> edge \<Rightarrow> bool" where
  "edge_is a t b e \<longleftrightarrow> e_from e = a \<and> e_type e = t \<and> e_to e = b"

definition has_edge :: "nat \<Rightarrow> string \<Rightarrow> nat \<Rightarrow> graph \<Rightarrow> bool" where
  "has_edge a t b g \<longleftrightarrow> (\<exists>e \<in> set (g_edges g). edge_is a t b e)"

text \<open>\<^verbatim>\<open>MERGE (a)-[r:t]->(b) ON CREATE SET c SET f\<close> for one pair of nodes.\<close>

definition merge_edge ::
  "nat \<Rightarrow> string \<Rightarrow> nat \<Rightarrow> (string \<times> pval option) list \<Rightarrow> (props \<Rightarrow> props) \<Rightarrow> graph \<Rightarrow> graph" where
  "merge_edge a t b c f g =
     (if has_edge a t b g then
        g\<lparr>g_edges := List.map (\<lambda>e. if edge_is a t b e then e\<lparr>e_props := f (e_props e)\<rparr> else e) (g_edges g)\<rparr>
      else
        g\<lparr>g_edges := g_edges g @
          [\<lparr>e_from = a, e_type = t, e_to = b, e_props = f (set_props c Map.empty)\<rparr>]\<rparr>)"

text \<open>The same for every pair a \<^verbatim>\<open>MATCH\<close> of two nodes binds.\<close>

definition merge_edges ::
  "(nat \<times> nat) list \<Rightarrow> string \<Rightarrow> (string \<times> pval option) list \<Rightarrow> (props \<Rightarrow> props) \<Rightarrow> graph \<Rightarrow> graph" where
  "merge_edges ps t c f g = foldl (\<lambda>g (a, b). merge_edge a t b c f g) g ps"

definition node_pairs :: "node list \<Rightarrow> node list \<Rightarrow> (nat \<times> nat) list" where
  "node_pairs as bs = concat (List.map (\<lambda>a. List.map (\<lambda>b. (n_key a, n_key b)) bs) as)"

text \<open>\<^verbatim>\<open>DETACH DELETE\<close> of the matched nodes.\<close>

definition detach_delete :: "(node \<Rightarrow> bool) \<Rightarrow> graph \<Rightarrow> graph" where
  "detach_delete P g =
     (let ks = n_key ` set (filter P (g_nodes g)) in
      g\<lparr>g_nodes := filter (\<lambda>n. \<not> P n) (g_nodes g),
        g_edges := filter (\<lambda>e. e_from e \<notin> ks \<and> e_to e \<notin> ks) (g_edges g)\<rparr>)"

section \<open>Well-formed graphs\<close>

definition wf_graph :: "graph \<Rightarrow> bool" where
  "wf_graph g \<longleftrightarrow>
     distinct (List.map n_key (g_nodes g)) \<and>
     (\<forall>n \<in> set (g_nodes g). n_key n < g_next g) \<and>
     (\<forall>e \<in> set (g_edges g). e_from e \<in> n_key ` set (g_nodes g) \<and> e_to e \<in> n_key ` set (g_nodes g))"

lemma wf_empty [simp]: "wf_graph empty_graph"
  by (simp add: wf_graph_def empty_graph_def)

lemma key_upd [simp]:
  "n_key (upd_props kvs n) = n_key n" "n_key (add_label l n) = n_key n" "n_key (drop_label l n) = n_key n"
  by (simp_all add: upd_props_def add_label_def drop_label_def)

lemma set_props_other: "k \<notin> fst ` set kvs \<Longrightarrow> set_props kvs p k = p k"
  by (induction kvs p rule: set_props.induct) auto

lemma upd_props_other: "k \<notin> fst ` set kvs \<Longrightarrow> n_props (upd_props kvs n) k = n_props n k"
  by (simp add: upd_props_def set_props_other)

lemma upd_props_lookup:
  "n_props (upd_props kvs n) k = (case map_of (rev kvs) k of None \<Rightarrow> n_props n k | Some v \<Rightarrow> v)"
proof -
  have "set_props kvs p k = (case map_of (rev kvs) k of None \<Rightarrow> p k | Some v \<Rightarrow> v)" for p
  proof (induction kvs arbitrary: p)
    case Nil
    show ?case by simp
  next
    case (Cons x kvs)
    obtain a v where x: "x = (a, v)" by fastforce
    have ih: "set_props kvs (p(a := v)) k =
        (case map_of (rev kvs) k of None \<Rightarrow> if k = a then v else p k | Some w \<Rightarrow> w)"
      by (simp only: Cons.IH fun_upd_apply)
    show ?case
      by (cases "map_of (rev kvs) k") (simp_all add: x ih map_add_def)
  qed
  then show ?thesis by (simp add: upd_props_def)
qed

lemma labels_upd_props [simp]: "n_labels (upd_props kvs n) = n_labels n"
  by (simp add: upd_props_def)

lemma props_label [simp]:
  "n_props (add_label l n) = n_props n" "n_props (drop_label l n) = n_props n"
  by (simp_all add: add_label_def drop_label_def)

lemma has_label_simps [simp]:
  "has_label l (upd_props kvs n) = has_label l n"
  "has_label l (add_label m n) \<longleftrightarrow> l = m \<or> has_label l n"
  "has_label l (drop_label m n) \<longleftrightarrow> l \<noteq> m \<and> has_label l n"
  by (auto simp: has_label_def upd_props_def add_label_def drop_label_def)

lemma map_nodes_sel [simp]:
  "g_edges (map_nodes P f g) = g_edges g" "g_next (map_nodes P f g) = g_next g"
  "g_nodes (map_nodes P f g) = List.map (\<lambda>n. if P n then f n else n) (g_nodes g)"
  by (simp_all add: map_nodes_def)

lemma keys_map_nodes:
  "(\<And>n. n_key (f n) = n_key n) \<Longrightarrow>
     List.map n_key (List.map (\<lambda>n. if P n then f n else n) ns) = List.map n_key ns"
  by (induction ns) auto

lemma wf_map_nodes:
  assumes f: "\<And>n. n_key (f n) = n_key n" and g: "wf_graph g"
  shows "wf_graph (map_nodes P f g)"
proof -
  have k: "List.map n_key (List.map (\<lambda>n. if P n then f n else n) (g_nodes g)) = List.map n_key (g_nodes g)"
    by (rule keys_map_nodes) (rule f)
  then have "n_key ` set (List.map (\<lambda>n. if P n then f n else n) (g_nodes g)) = n_key ` set (g_nodes g)"
    by (metis set_map)
  with g k f show ?thesis
    unfolding wf_graph_def map_nodes_sel by (auto simp del: List.map_map)
qed

lemma merge_node_edges [simp]: "g_edges (fst (merge_node l k v c f g)) = g_edges g"
  by (simp add: merge_node_def Let_def)

lemma wf_merge_node:
  assumes f: "\<And>n. n_key (f n) = n_key n" and g: "wf_graph g"
  shows "wf_graph (fst (merge_node l k v c f g))"
proof (cases "match_nodes l (prop_is k v) g = []")
  case True
  then show ?thesis using g f
    by (fastforce simp: merge_node_def Let_def wf_graph_def)
next
  case False
  then show ?thesis using wf_map_nodes [OF f g] by (simp add: merge_node_def Let_def)
qed

lemma merge_edge_nodes [simp]:
  "g_nodes (merge_edge a t b c f g) = g_nodes g" "g_next (merge_edge a t b c f g) = g_next g"
  by (simp_all add: merge_edge_def)

lemma wf_merge_edge:
  assumes "wf_graph g" and "a \<in> n_key ` set (g_nodes g)" and "b \<in> n_key ` set (g_nodes g)"
  shows "wf_graph (merge_edge a t b c f g)"
  using assms by (auto simp: wf_graph_def merge_edge_def)

lemma merge_edges_simps [simp]:
  "merge_edges [] t c f g = g"
  "merge_edges ((a, b) # ps) t c f g = merge_edges ps t c f (merge_edge a t b c f g)"
  by (simp_all add: merge_edges_def)

lemma merge_edges_nodes [simp]:
  "g_nodes (merge_edges ps t c f g) = g_nodes g" "g_next (merge_edges ps t c f g) = g_next g"
  by (induction ps arbitrary: g) auto

lemma wf_merge_edges:
  "wf_graph g \<Longrightarrow> \<forall>(a, b) \<in> set ps. a \<in> n_key ` set (g_nodes g) \<and> b \<in> n_key ` set (g_nodes g)
     \<Longrightarrow> wf_graph (merge_edges ps t c f g)"
proof (induction ps arbitrary: g)
  case Nil
  then show ?case by simp
next
  case (Cons p ps)
  obtain a b where p: "p = (a, b)" by fastforce
  with Cons.prems have "wf_graph (merge_edge a t b c f g)" by (intro wf_merge_edge) auto
  then have "wf_graph (merge_edges ps t c f (merge_edge a t b c f g))"
    by (rule Cons.IH) (use Cons.prems(2) in simp)
  with p show ?case by simp
qed

lemma match_nodes_subset: "set (match_nodes l P g) \<subseteq> set (g_nodes g)"
  by (auto simp: match_nodes_def)

lemma node_pairs_iff: "(a, b) \<in> set (node_pairs as bs) \<longleftrightarrow> a \<in> n_key ` set as \<and> b \<in> n_key ` set bs"
  by (auto simp: node_pairs_def)

text \<open>The relationships a \<^verbatim>\<open>MERGE\<close> leaves: the old ones, updated or not, and the ones it names.\<close>

definition triple :: "edge \<Rightarrow> nat \<times> string \<times> nat" where
  "triple e = (e_from e, e_type e, e_to e)"

lemma has_edge_triple: "has_edge a t b g \<longleftrightarrow> (a, t, b) \<in> set (List.map triple (g_edges g))"
  by (auto simp: has_edge_def edge_is_def triple_def)

lemma triple_update:
  "List.map triple (List.map (\<lambda>e. if edge_is a t b e then e\<lparr>e_props := f (e_props e)\<rparr> else e) es)
     = List.map triple es"
  by (simp add: triple_def)

lemma triple_merge_edge:
  "set (List.map triple (g_edges (merge_edge a t b c f g)))
     = insert (a, t, b) (set (List.map triple (g_edges g)))"
proof (cases "has_edge a t b g")
  case True
  then have "g_edges (merge_edge a t b c f g) =
      List.map (\<lambda>e. if edge_is a t b e then e\<lparr>e_props := f (e_props e)\<rparr> else e) (g_edges g)"
    by (simp add: merge_edge_def)
  then show ?thesis
    using True unfolding has_edge_triple by (simp only: triple_update insert_absorb)
next
  case False
  then show ?thesis by (simp add: merge_edge_def triple_def)
qed

lemma has_edge_merge_edge [simp]:
  "has_edge x u y (merge_edge a t b c f g) \<longleftrightarrow> (x = a \<and> u = t \<and> y = b) \<or> has_edge x u y g"
  unfolding has_edge_triple triple_merge_edge by simp

lemma has_edge_merge_edges:
  "has_edge x u y (merge_edges ps t c f g) \<longleftrightarrow> has_edge x u y g \<or> (u = t \<and> (x, y) \<in> set ps)"
proof (induction ps arbitrary: g)
  case Nil
  show ?case by simp
next
  case (Cons p ps)
  obtain a b where "p = (a, b)" by fastforce
  with Cons.IH [of "merge_edge a t b c f g"] show ?case by (simp add: disj_ac) blast
qed

text \<open>The relationships that were there: updated when the statement names them, kept otherwise.\<close>

lemma merge_edge_updates:
  assumes "e \<in> set (g_edges g)" and "e_type e = t"
  shows "(if e_from e = a \<and> e_to e = b then e\<lparr>e_props := f (e_props e)\<rparr> else e) \<in> set (g_edges (merge_edge a t b c f g))"
proof (cases "has_edge a t b g")
  case True
  then show ?thesis using assms by (auto simp: merge_edge_def edge_is_def intro!: image_eqI [of _ _ e])
next
  case False
  then have "\<not> (e_from e = a \<and> e_to e = b)" using assms by (auto simp: has_edge_def edge_is_def)
  with False assms show ?thesis by (auto simp: merge_edge_def)
qed

lemma merge_edges_updates:
  assumes idem: "\<And>p. f (f p) = f p" and "e \<in> set (g_edges g)" and "e_type e = t"
  shows "(if (e_from e, e_to e) \<in> set ps then e\<lparr>e_props := f (e_props e)\<rparr> else e) \<in> set (g_edges (merge_edges ps t c f g))"
  using assms(2,3)
proof (induction ps arbitrary: g e)
  case Nil
  then show ?case by simp
next
  case (Cons p ps)
  obtain a b where p: "p = (a, b)" by fastforce
  let ?e = "if e_from e = a \<and> e_to e = b then e\<lparr>e_props := f (e_props e)\<rparr> else e"
  have "(if (e_from ?e, e_to ?e) \<in> set ps then ?e\<lparr>e_props := f (e_props ?e)\<rparr> else ?e)
      \<in> set (g_edges (merge_edges ps t c f (merge_edge a t b c f g)))"
    by (rule Cons.IH) (use merge_edge_updates [OF Cons.prems] Cons.prems(2) in auto)
  moreover have "(if (e_from ?e, e_to ?e) \<in> set ps then ?e\<lparr>e_props := f (e_props ?e)\<rparr> else ?e)
      = (if (e_from e, e_to e) \<in> set (p # ps) then e\<lparr>e_props := f (e_props e)\<rparr> else e)"
    using p idem by auto
  ultimately show ?case using p by (simp only: merge_edges_simps)
qed

text \<open>After the statement every relationship it names carries what it sets.\<close>

lemma merge_edges_stamped:
  "\<forall>e \<in> set (g_edges g). e_type e = t \<and> (e_from e, e_to e) \<in> S \<longrightarrow> (\<exists>p. e_props e = f p) \<Longrightarrow>
   \<forall>e \<in> set (g_edges (merge_edges ps t c f g)). e_type e = t \<and> (e_from e, e_to e) \<in> S \<union> set ps \<longrightarrow> (\<exists>p. e_props e = f p)"
proof (induction ps arbitrary: g S)
  case Nil
  then show ?case by simp
next
  case (Cons x ps)
  obtain a b where x: "x = (a, b)" by fastforce
  have "\<forall>e \<in> set (g_edges (merge_edge a t b c f g)). e_type e = t \<and> (e_from e, e_to e) \<in> insert (a, b) S \<longrightarrow> (\<exists>p. e_props e = f p)"
    using Cons.prems by (auto simp: merge_edge_def edge_is_def has_edge_def split: if_splits)
  from Cons.IH [OF this] show ?case by (simp add: x)
qed

lemma has_edge_cong: "g_edges g = g_edges h \<Longrightarrow> has_edge a t b g = has_edge a t b h"
  by (simp add: has_edge_def)

lemma wf_detach_delete:
  assumes "wf_graph g" shows "wf_graph (detach_delete P g)"
proof -
  have "k \<in> n_key ` set (filter (\<lambda>n. \<not> P n) (g_nodes g))"
    if "k \<in> n_key ` set (g_nodes g)" "k \<notin> n_key ` set (filter P (g_nodes g))" for k
    using that by auto
  with assms show ?thesis
    by (simp add: wf_graph_def detach_delete_def Let_def distinct_map_filter)
qed

end
