(* ===== verification/Publish.thy ===== *)
theory Publish
  imports Graph
begin

text \<open>
  What the public API may show (\<^verbatim>\<open>backend/db/memgraph/{mask,sanitize,label,fold,graph,search}.go\<close>):
  masking of CPFs, the property denylist, labels and CNJ case numbers, the conversion of query
  results to API nodes and edges, and the folded comparison behind the search box.
\<close>

section \<open>Masking and sanitising\<close>

definition slice :: "nat \<Rightarrow> nat \<Rightarrow> gostr \<Rightarrow> gostr" where
  "slice i j s = take (j - i) (drop i s)"

definition mask_cpf :: "gostr \<Rightarrow> gostr" where
  "mask_cpf cpf =
     (if go_len cpf \<noteq> 11 then cpf
      else if \<exists>r \<in> set cpf. r < 48 \<or> 57 < r then cpf
      else lit ''***.'' @ slice 3 6 cpf @ lit ''.'' @ slice 6 9 cpf @ lit ''-**'')"

definition sanitize_properties :: "props \<Rightarrow> props" where
  "sanitize_properties p k =
     (if has_suffix k ''_recorded_by'' then None
      else if has_prefix k ''_'' then None
      else if k = ''cpf'' then
        (case p k of Some (PStr s) \<Rightarrow> Some (PStr (mask_cpf s)) | v \<Rightarrow> v)
      else p k)"

section \<open>Labels\<close>

definition format_cnj :: "gostr \<Rightarrow> gostr" where
  "format_cnj s =
     (let d = digits_only s in
      if go_len d \<noteq> 20 then s
      else slice 0 7 d @ lit ''-'' @ slice 7 9 d @ lit ''.'' @ slice 9 13 d @ lit ''.'' @
        slice 13 14 d @ lit ''.'' @ slice 14 16 d @ lit ''.'' @ slice 16 20 d)"

text \<open>The separator is a middle dot (U+00B7) between two spaces.\<close>

definition middle_dot :: gostr where
  "middle_dot = [32, 183, 32]"

definition proceeding_label :: "props \<Rightarrow> gostr" where
  "proceeding_label p =
     (let number = format_cnj (str_prop p ''case_number'') in
      if number = [] then []
      else let cls = str_prop p ''class_name'' in
        if cls \<noteq> [] then cls @ middle_dot @ number else number)"

section \<open>Query results as API nodes and edges\<close>

text \<open>A node and a relationship as the database driver returns them.\<close>

record neo_node =
  nn_elem :: gostr
  nn_labels :: "string list"
  nn_props :: props

record neo_rel =
  nr_elem :: gostr
  nr_start :: gostr
  nr_end :: gostr
  nr_type :: string
  nr_props :: props

datatype neo_value = VNode neo_node | VRel neo_rel | VOther

record api_node =
  an_id :: gostr
  an_type :: gostr
  an_label :: gostr
  an_props :: props

record api_edge =
  ae_id :: gostr
  ae_from :: gostr
  ae_to :: gostr
  ae_type :: string
  ae_props :: props

definition label_to_node_type :: "string \<Rightarrow> gostr" where
  "label_to_node_type label =
     (let l = to_lower (lit label) in
      if l = lit ''legalproceeding'' then lit ''legal_proceeding'' else l)"

definition neo_node_to_model :: "neo_node \<Rightarrow> api_node" where
  "neo_node_to_model n =
     (let label = (case nn_labels n of [] \<Rightarrow> [] | l # _ \<Rightarrow> l);
          nid = str_prop (nn_props n) ''id'';
          n1 = str_prop (nn_props n) ''name'';
          n2 = (if n1 = [] then proceeding_label (nn_props n) else n1);
          registry = str_prop (nn_props n) ''registry'';
          kind = str_prop (nn_props n) ''sanction_type'';
          n3 = (if n2 = [] \<and> registry \<noteq> []
                then (if kind \<noteq> [] then registry @ middle_dot @ kind else registry) else n2);
          n4 = (if n3 = [] then nid else n3)
      in \<lparr>an_id = nid, an_type = label_to_node_type label, an_label = n4,
          an_props = sanitize_properties (nn_props n)\<rparr>)"

definition neo_rel_to_model :: "neo_rel \<Rightarrow> (gostr \<Rightarrow> gostr option) \<Rightarrow> api_edge" where
  "neo_rel_to_model r m =
     \<lparr>ae_id = nr_elem r,
      ae_from = (case m (nr_start r) of Some x \<Rightarrow> x | None \<Rightarrow> nr_start r),
      ae_to = (case m (nr_end r) of Some x \<Rightarrow> x | None \<Rightarrow> nr_end r),
      ae_type = nr_type r, ae_props = sanitize_properties (nr_props r)\<rparr>"

text \<open>
  \<^verbatim>\<open>collectGraph\<close>: the three Go maps. Each record is walked twice, first for its nodes, then for
  its relationships. \<open>failed\<close> is \<^verbatim>\<open>result.Err() != nil\<close>. The response lists the values of the two
  maps in an order Go leaves open, so it is the pair of maps.
\<close>

record collected =
  c_nodes :: "gostr \<Rightarrow> api_node option"
  c_edges :: "gostr \<Rightarrow> api_edge option"
  c_ids :: "gostr \<Rightarrow> gostr option"

definition collect_node :: "neo_value \<Rightarrow> collected \<Rightarrow> collected" where
  "collect_node v c =
     (case v of
        VNode n \<Rightarrow> (let a = neo_node_to_model n in
          c\<lparr>c_nodes := (c_nodes c)(an_id a := Some a), c_ids := (c_ids c)(nn_elem n := Some (an_id a))\<rparr>)
      | _ \<Rightarrow> c)"

definition collect_rel :: "neo_value \<Rightarrow> collected \<Rightarrow> collected" where
  "collect_rel v c =
     (case v of
        VRel r \<Rightarrow> (let e = neo_rel_to_model r (c_ids c) in c\<lparr>c_edges := (c_edges c)(ae_id e := Some e)\<rparr>)
      | _ \<Rightarrow> c)"

definition collect_record :: "neo_value list \<Rightarrow> collected \<Rightarrow> collected" where
  "collect_record vs c = fold collect_rel vs (fold collect_node vs c)"

definition collect_graph ::
  "bool \<Rightarrow> neo_value list list \<Rightarrow> err + ((gostr \<Rightarrow> api_node option) \<times> (gostr \<Rightarrow> api_edge option))" where
  "collect_graph failed recs =
     (let c = fold collect_record recs \<lparr>c_nodes = Map.empty, c_edges = Map.empty, c_ids = Map.empty\<rparr>
      in if failed then Inl DbError else Inr (c_nodes c, c_edges c))"

section \<open>Folding for search\<close>

definition accent_table :: "(rune \<times> rune) list" where
  "accent_table =
     [(193, 97), (225, 97), (192, 97), (224, 97), (194, 97), (226, 97), (195, 97), (227, 97), (196, 97), (228, 97),
      (201, 101), (233, 101), (200, 101), (232, 101), (202, 101), (234, 101), (203, 101), (235, 101),
      (205, 105), (237, 105), (204, 105), (236, 105), (206, 105), (238, 105), (207, 105), (239, 105),
      (211, 111), (243, 111), (210, 111), (242, 111), (212, 111), (244, 111), (213, 111), (245, 111), (214, 111), (246, 111),
      (218, 117), (250, 117), (217, 117), (249, 117), (219, 117), (251, 117), (220, 117), (252, 117),
      (199, 99), (231, 99), (209, 110), (241, 110)]"

definition accent_fold :: "(gostr \<times> gostr) list" where
  "accent_fold = List.map (\<lambda>(a, b). ([a], [b])) accent_table"

definition fold_query :: "gostr \<Rightarrow> gostr" where
  "fold_query q = foldl (\<lambda>q (a, b). replace_all q a b) (to_lower (trim_space q)) accent_fold"

text \<open>
  The Cypher expression \<^verbatim>\<open>foldExpr\<close> builds, and its value. Memgraph's \<^verbatim>\<open>toLower\<close> is the parameter
  \<open>lw\<close>; \<^verbatim>\<open>replace\<close> is the string replacement Go has too.
\<close>

datatype cexpr = CArg | CToLower cexpr | CReplace cexpr gostr gostr

fun cypher_eval :: "(gostr \<Rightarrow> gostr) \<Rightarrow> gostr \<Rightarrow> cexpr \<Rightarrow> gostr" where
  "cypher_eval lw s CArg = s"
| "cypher_eval lw s (CToLower e) = lw (cypher_eval lw s e)"
| "cypher_eval lw s (CReplace e a b) = replace_all (cypher_eval lw s e) a b"

definition fold_expr :: "cexpr \<Rightarrow> cexpr" where
  "fold_expr e = foldl (\<lambda>out (a, b). CReplace out a b) (CToLower e) accent_fold"

definition cypher_fold :: "(gostr \<Rightarrow> gostr) \<Rightarrow> gostr \<Rightarrow> gostr" where
  "cypher_fold lw s = cypher_eval lw s (fold_expr CArg)"

text \<open>\<^verbatim>\<open>toLower\<close> as the comment in \<^verbatim>\<open>fold.go\<close> documents it: ASCII only.\<close>

definition ascii_lower :: "rune \<Rightarrow> rune" where
  "ascii_lower r = (if 65 \<le> r \<and> r \<le> 90 then r + 32 else r)"

section \<open>The search box\<close>

text \<open>\<^verbatim>\<open>x CONTAINS $q\<close> on a property that may be \<^verbatim>\<open>null\<close>: then the row does not match.\<close>

definition str_or_null :: "node \<Rightarrow> string \<Rightarrow> gostr option" where
  "str_or_null n k = (case n_props n k of Some (PStr s) \<Rightarrow> Some s | _ \<Rightarrow> None)"

definition contains_null :: "gostr option \<Rightarrow> gostr \<Rightarrow> bool" where
  "contains_null x q = (case x of None \<Rightarrow> False | Some s \<Rightarrow> contains s q)"

definition folded_name :: "node \<Rightarrow> gostr" where
  "folded_name n = (case str_or_null n ''search_name'' of None \<Rightarrow> [] | Some s \<Rightarrow> s)"

definition any_alias :: "(gostr \<Rightarrow> gostr) \<Rightarrow> string \<Rightarrow> gostr \<Rightarrow> node \<Rightarrow> bool" where
  "any_alias lw k q n \<longleftrightarrow> (\<exists>a \<in> set (list_prop (n_props n) k). contains (cypher_fold lw a) q)"

definition search_person :: "gostr \<Rightarrow> node \<Rightarrow> bool" where
  "search_person q n \<longleftrightarrow> has_label ''Person'' n \<and> contains (folded_name n) q"

definition search_politician :: "(gostr \<Rightarrow> gostr) \<Rightarrow> gostr \<Rightarrow> node \<Rightarrow> bool" where
  "search_politician lw q n \<longleftrightarrow>
     has_label ''Politician'' n \<and> (contains (folded_name n) q \<or> any_alias lw ''name_aliases'' q n)"

definition search_scandal :: "(gostr \<Rightarrow> gostr) \<Rightarrow> gostr \<Rightarrow> node \<Rightarrow> bool" where
  "search_scandal lw q n \<longleftrightarrow>
     has_label ''Scandal'' n \<and>
     (contains (folded_name n) q \<or> any_alias lw ''aliases'' q n \<or>
      contains (cypher_fold lw (str_prop (n_props n) ''description'')) q)"

definition search_organization :: "gostr \<Rightarrow> node \<Rightarrow> bool" where
  "search_organization q n \<longleftrightarrow> has_label ''Organization'' n \<and> contains (folded_name n) q"

definition search_sanction :: "gostr \<Rightarrow> node \<Rightarrow> bool" where
  "search_sanction q n \<longleftrightarrow>
     has_label ''Sanction'' n \<and> contains (str_prop (n_props n) ''search_text'') q"

definition case_norm :: "gostr \<Rightarrow> gostr" where
  "case_norm s = replace_all (replace_all s (lit ''-'') []) (lit ''.'') []"

definition search_proceeding :: "(gostr \<Rightarrow> gostr) \<Rightarrow> gostr \<Rightarrow> gostr \<Rightarrow> node \<Rightarrow> bool" where
  "search_proceeding lw q qd n \<longleftrightarrow>
     has_label ''LegalProceeding'' n \<and>
     ((qd \<noteq> [] \<and> contains_null (map_option case_norm (str_or_null n ''case_number'')) qd) \<or>
      contains_null (map_option (cypher_fold lw) (str_or_null n ''case_number'')) q \<or>
      contains_null (map_option (cypher_fold lw) (str_or_null n ''class_name'')) q \<or>
      contains_null (map_option (cypher_fold lw) (str_or_null n ''court'')) q)"

definition search_all :: "(gostr \<Rightarrow> gostr) \<Rightarrow> gostr \<Rightarrow> gostr \<Rightarrow> node \<Rightarrow> bool" where
  "search_all lw q qd n \<longleftrightarrow>
     (has_label ''Politician'' n \<and> (contains (folded_name n) q \<or> any_alias lw ''name_aliases'' q n)) \<or>
     (has_label ''Person'' n \<and> contains (folded_name n) q) \<or>
     (has_label ''Scandal'' n \<and> (contains (folded_name n) q \<or> any_alias lw ''aliases'' q n)) \<or>
     (has_label ''Organization'' n \<and> contains (folded_name n) q) \<or>
     (has_label ''Sanction'' n \<and> contains (str_prop (n_props n) ''search_text'') q) \<or>
     (has_label ''LegalProceeding'' n \<and>
       ((qd \<noteq> [] \<and> contains_null (map_option case_norm (str_or_null n ''case_number'')) qd) \<or>
        contains_null (map_option (cypher_fold lw) (str_or_null n ''case_number'')) q \<or>
        contains_null (map_option (cypher_fold lw) (str_or_null n ''class_name'')) q \<or>
        contains_null (map_option (cypher_fold lw) (str_or_null n ''court'')) q))"

text \<open>\<^verbatim>\<open>QuerySearch\<close>: which nodes the \<^verbatim>\<open>WHERE\<close> clause of the query for this type keeps.\<close>

definition search_keeps :: "(gostr \<Rightarrow> gostr) \<Rightarrow> gostr \<Rightarrow> gostr \<Rightarrow> node \<Rightarrow> bool" where
  "search_keeps lw q node_type n =
     (let folded = fold_query q; qd = digits_only folded in
      if node_type = lit ''politician'' then search_politician lw folded n
      else if node_type = lit ''person'' then search_person folded n
      else if node_type = lit ''scandal'' then search_scandal lw folded n
      else if node_type = lit ''organization'' then search_organization folded n
      else if node_type = lit ''sanction'' then search_sanction folded n
      else if node_type = lit ''legal_proceeding'' then search_proceeding lw folded qd n
      else search_all lw folded qd n)"

definition query_search :: "(gostr \<Rightarrow> gostr) \<Rightarrow> gostr \<Rightarrow> gostr \<Rightarrow> graph \<Rightarrow> node list" where
  "query_search lw q node_type g = take 20 (filter (search_keeps lw q node_type) (g_nodes g))"

section \<open>What masking hides\<close>

definition full_cpf :: "gostr \<Rightarrow> bool" where
  "full_cpf s \<longleftrightarrow> length s = 11 \<and> (\<forall>r \<in> set s. is_digit r)"

lemma slice_append:
  assumes "i \<le> j" "j \<le> k" shows "slice i j s @ slice j k s = slice i k s"
proof -
  have "drop j s = drop (j - i) (drop i s)" "k - i = (j - i) + (k - j)" using assms by simp_all
  then show ?thesis by (simp only: slice_def take_add)
qed

lemma length_slice [simp]: "length (slice i j s) = min (j - i) (length s - i)"
  by (simp add: slice_def min_def)

lemma go_len_eq_digits: "\<not> (\<exists>r \<in> set s. r < 48 \<or> 57 < r) \<Longrightarrow> go_len s = length s"
  by (rule go_len_digits) (auto simp: is_digit_def not_less)

lemma mask_cpf_cases:
  "mask_cpf s = (if full_cpf s then lit ''***.'' @ slice 3 6 s @ lit ''.'' @ slice 6 9 s @ lit ''-**'' else s)"
proof (cases "\<exists>r \<in> set s. r < 48 \<or> 57 < r")
  case True
  then show ?thesis by (auto simp: mask_cpf_def full_cpf_def is_digit_def)
next
  case False
  then show ?thesis
    using go_len_eq_digits [OF False] by (auto simp: mask_cpf_def full_cpf_def is_digit_def not_less)
qed

lemma full_cpf_mask [simp]: "\<not> full_cpf (mask_cpf s)"
  by (auto simp: mask_cpf_cases full_cpf_def)

lemma mask_cpf_idem [simp]: "mask_cpf (mask_cpf s) = mask_cpf s"
  by (simp add: mask_cpf_cases [of "mask_cpf s"])

text \<open>A property map the public may see.\<close>

definition public_props :: "props \<Rightarrow> bool" where
  "public_props p \<longleftrightarrow>
     (\<forall>k v. p k = Some v \<longrightarrow>
        \<not> has_suffix k ''_recorded_by'' \<and> \<not> has_prefix k ''_'' \<and>
        (k = ''cpf'' \<longrightarrow> (\<forall>s. v = PStr s \<longrightarrow> \<not> full_cpf s)))"

lemma public_sanitize [simp]: "public_props (sanitize_properties p)"
  by (auto simp: public_props_def sanitize_properties_def split: option.splits pval.splits if_splits)

lemma sanitize_public: "sanitize_properties p = p \<longleftrightarrow> public_props p"
proof
  assume "public_props p"
  then have "sanitize_properties p k = p k" for k
    by (cases "p k") (auto simp: public_props_def sanitize_properties_def mask_cpf_cases
        split: pval.splits)
  then show "sanitize_properties p = p" by (rule ext)
qed (metis public_sanitize)

text \<open>The maps hold the models of the nodes and relationships walked so far, each under its own id.\<close>

definition node_id_shown :: "neo_node \<Rightarrow> gostr" where
  "node_id_shown n = str_prop (nn_props n) ''id''"

definition models_of :: "neo_value set \<Rightarrow> collected \<Rightarrow> bool" where
  "models_of vs c \<longleftrightarrow>
     dom (c_nodes c) = node_id_shown ` {n. VNode n \<in> vs} \<and> dom (c_edges c) = nr_elem ` {r. VRel r \<in> vs} \<and>
     (\<forall>i a. c_nodes c i = Some a \<longrightarrow> (\<exists>n. VNode n \<in> vs \<and> i = node_id_shown n \<and> a = neo_node_to_model n)) \<and>
     (\<forall>i e. c_edges c i = Some e \<longrightarrow> (\<exists>r m. VRel r \<in> vs \<and> i = nr_elem r \<and> e = neo_rel_to_model r m))"

lemma model_public [simp]: "public_props (an_props (neo_node_to_model n))" "public_props (ae_props (neo_rel_to_model r m))"
  by (simp_all add: neo_node_to_model_def neo_rel_to_model_def Let_def)

lemma model_id [simp]: "an_id (neo_node_to_model n) = node_id_shown n" "ae_id (neo_rel_to_model r m) = nr_elem r"
  by (simp_all add: neo_node_to_model_def neo_rel_to_model_def node_id_shown_def Let_def)

text \<open>A record is walked for its nodes and then for its relationships, so the maps lag behind by the latter.\<close>

lemma walk_nodes_other: "c_edges (fold collect_node vs c) = c_edges c"
proof (induction vs arbitrary: c)
  case (Cons v vs)
  have "c_edges (collect_node v c) = c_edges c" by (cases v) (simp_all add: collect_node_def Let_def)
  with Cons.IH [of "collect_node v c"] show ?case by simp
qed simp

lemma walk_nodes_dom: "dom (c_nodes (fold collect_node vs c)) = dom (c_nodes c) \<union> node_id_shown ` {n. VNode n \<in> set vs}"
proof (induction vs arbitrary: c)
  case (Cons v vs)
  have "dom (c_nodes (collect_node v c)) = dom (c_nodes c) \<union> node_id_shown ` {n. VNode n = v}"
    by (cases v) (auto simp: collect_node_def Let_def)
  with Cons.IH [of "collect_node v c"] show ?case by auto
qed simp

lemma walk_nodes_found:
  "c_nodes (fold collect_node vs c) i = Some a \<Longrightarrow> c_nodes c i = Some a \<or> (\<exists>n. VNode n \<in> set vs \<and> i = node_id_shown n \<and> a = neo_node_to_model n)"
proof (induction vs arbitrary: c)
  case (Cons v vs)
  have "c_nodes c i = Some a \<or> (\<exists>n. VNode n = v \<and> i = node_id_shown n \<and> a = neo_node_to_model n)" if "c_nodes (collect_node v c) i = Some a"
    using that by (cases v) (auto simp: collect_node_def Let_def split: if_splits)
  with Cons.IH [of "collect_node v c"] Cons.prems show ?case
    by (metis fold_simps(2) list.set_intros(1) list.set_intros(2))
qed simp

lemma walk_rels_other: "c_nodes (fold collect_rel vs c) = c_nodes c"
proof (induction vs arbitrary: c)
  case (Cons v vs)
  have "c_nodes (collect_rel v c) = c_nodes c" by (cases v) (simp_all add: collect_rel_def Let_def)
  with Cons.IH [of "collect_rel v c"] show ?case by simp
qed simp

lemma walk_rels_dom: "dom (c_edges (fold collect_rel vs c)) = dom (c_edges c) \<union> nr_elem ` {r. VRel r \<in> set vs}"
proof (induction vs arbitrary: c)
  case (Cons v vs)
  have "dom (c_edges (collect_rel v c)) = dom (c_edges c) \<union> nr_elem ` {r. VRel r = v}"
    by (cases v) (auto simp: collect_rel_def Let_def)
  with Cons.IH [of "collect_rel v c"] show ?case by auto
qed simp

lemma walk_rels_found:
  "c_edges (fold collect_rel vs c) i = Some a \<Longrightarrow> c_edges c i = Some a \<or> (\<exists>r m. VRel r \<in> set vs \<and> i = nr_elem r \<and> a = neo_rel_to_model r m)"
proof (induction vs arbitrary: c)
  case (Cons v vs)
  have "c_edges c i = Some a \<or> (\<exists>r m. VRel r = v \<and> i = nr_elem r \<and> a = neo_rel_to_model r m)" if "c_edges (collect_rel v c) i = Some a"
    using that by (cases v) (auto simp: collect_rel_def Let_def split: if_splits)
  with Cons.IH [of "collect_rel v c"] Cons.prems show ?case
    by (metis fold_simps(2) list.set_intros(1) list.set_intros(2))
qed simp

lemma models_record:
  assumes "models_of ws c" shows "models_of (set vs \<union> ws) (collect_record vs c)"
proof -
  let ?n = "fold collect_node vs c"
  let ?c = "fold collect_rel vs ?n"
  have w: "dom (c_nodes c) = node_id_shown ` {n. VNode n \<in> ws}" "dom (c_edges c) = nr_elem ` {r. VRel r \<in> ws}"
    "\<And>i a. c_nodes c i = Some a \<Longrightarrow> \<exists>n. VNode n \<in> ws \<and> i = node_id_shown n \<and> a = neo_node_to_model n"
    "\<And>i e. c_edges c i = Some e \<Longrightarrow> \<exists>r m. VRel r \<in> ws \<and> i = nr_elem r \<and> e = neo_rel_to_model r m"
    using assms unfolding models_of_def by blast+
  have n: "c_nodes ?c = c_nodes ?n" and e: "c_edges ?n = c_edges c" by (rule walk_rels_other, rule walk_nodes_other)
  have "dom (c_nodes ?c) = node_id_shown ` {n. VNode n \<in> set vs \<union> ws}"
    unfolding n walk_nodes_dom w(1) by blast
  moreover have "dom (c_edges ?c) = nr_elem ` {r. VRel r \<in> set vs \<union> ws}"
    unfolding walk_rels_dom e w(2) by blast
  moreover have "\<exists>n. VNode n \<in> set vs \<union> ws \<and> i = node_id_shown n \<and> a = neo_node_to_model n"
    if "c_nodes ?c i = Some a" for i a
    using walk_nodes_found [of vs c i a] w(3) [of i a] that unfolding n by blast
  moreover have "\<exists>r m. VRel r \<in> set vs \<union> ws \<and> i = nr_elem r \<and> x = neo_rel_to_model r m"
    if "c_edges ?c i = Some x" for i x
    using walk_rels_found [of vs ?n i x] w(4) [of i x] that unfolding e by blast
  ultimately show ?thesis unfolding models_of_def collect_record_def by blast
qed

lemma models_fold: "models_of ws c \<Longrightarrow> models_of (set (concat recs) \<union> ws) (fold collect_record recs c)"
proof (induction recs arbitrary: ws c)
  case (Cons vs recs)
  from Cons.IH [OF models_record [OF Cons.prems, of vs]] show ?case by (simp add: Un_ac)
qed simp

lemma collected:
  assumes "collect_graph failed recs = Inr (ns, es)"
  shows "dom ns = node_id_shown ` {n. VNode n \<in> set (concat recs)}" "dom es = nr_elem ` {r. VRel r \<in> set (concat recs)}"
    "ns i = Some a \<Longrightarrow> \<exists>n. VNode n \<in> set (concat recs) \<and> i = node_id_shown n \<and> a = neo_node_to_model n"
    "es j = Some e \<Longrightarrow> \<exists>r m. VRel r \<in> set (concat recs) \<and> j = nr_elem r \<and> e = neo_rel_to_model r m"
proof -
  have "models_of {} \<lparr>c_nodes = Map.empty, c_edges = Map.empty, c_ids = Map.empty\<rparr>" by (simp add: models_of_def)
  from models_fold [OF this, of recs] assms
  have m: "models_of (set (concat recs)) \<lparr>c_nodes = ns, c_edges = es, c_ids = Map.empty\<rparr>"
    by (auto simp: collect_graph_def models_of_def Let_def split: if_splits)
  then show "dom ns = node_id_shown ` {n. VNode n \<in> set (concat recs)}" "dom es = nr_elem ` {r. VRel r \<in> set (concat recs)}"
    unfolding models_of_def by simp_all
  show "ns i = Some a \<Longrightarrow> \<exists>n. VNode n \<in> set (concat recs) \<and> i = node_id_shown n \<and> a = neo_node_to_model n"
    using m unfolding models_of_def by simp
  show "es j = Some e \<Longrightarrow> \<exists>r m. VRel r \<in> set (concat recs) \<and> j = nr_elem r \<and> e = neo_rel_to_model r m"
    using m unfolding models_of_def by simp
qed

section \<open>Case numbers\<close>

lemma slices_cnj:
  assumes "length d = 20"
  shows "slice 0 7 d @ slice 7 9 d @ slice 9 13 d @ slice 13 14 d @ slice 14 16 d @ slice 16 20 d = d"
  using assms by (simp add: slice_append) (simp add: slice_def)

lemma digits_only_lit [simp]: "digits_only (lit ''-'') = []" "digits_only (lit ''.'') = []"
  by code_simp+

lemma digits_only_slice [simp]: "digits_only (slice i j (digits_only s)) = slice i j (digits_only s)"
  by (rule digits_only_id) (auto simp: slice_def digits_only_def dest!: in_set_takeD in_set_dropD)

lemma go_len_digits_only [simp]: "go_len (digits_only s) = length (digits_only s)"
  by (rule go_len_digits) (rule digits_only_digits)

lemma digits_format_cnj [simp]: "digits_only (format_cnj s) = digits_only s"
  using slices_cnj [of "digits_only s"]
  by (simp add: format_cnj_def Let_def digits_only_append)

lemma format_cnj_idem [simp]: "format_cnj (format_cnj s) = format_cnj s"
  by (cases "length (digits_only s) = 20") (simp_all add: format_cnj_def [of "format_cnj s"] Let_def,
    simp_all add: format_cnj_def Let_def)

lemma format_cnj_runes:
  "length (digits_only s) = 20 \<Longrightarrow> r \<in> set (format_cnj s) \<Longrightarrow> is_digit r \<or> r = 45 \<or> r = 46"
  using digits_only_digits [of s]
  by (auto simp: format_cnj_def Let_def lit_def slice_def dest!: in_set_takeD in_set_dropD)

section \<open>Both sides of the search fold alike\<close>

lemma replace_all_rune: "replace_all s [a] new = concat (List.map (\<lambda>r. if r = a then new else [r]) s)"
proof -
  have "rune_subst [(a, new)] = (\<lambda>r. if r = a then new else [r])"
    by (rule ext) (simp add: rune_subst_def)
  then show ?thesis
    using replacer_single [of "[(a, new)]" s] by (simp add: replace_all_def)
qed

lemma replace_all_single: "replace_all s [a] [b] = List.map (\<lambda>r. if r = a then b else r) s"
  by (induction s) (auto simp: replace_all_rune)

lemma replace_all_del: "replace_all s [a] [] = filter (\<lambda>r. r \<noteq> a) s"
  by (induction s) (auto simp: replace_all_rune)

definition fold_table :: "(rune \<times> rune) list \<Rightarrow> rune \<Rightarrow> rune" where
  "fold_table t r = foldl (\<lambda>r (a, b). if r = a then b else r) r t"

lemma fold_table_Cons: "fold_table ((a, b) # t) r = fold_table t (if r = a then b else r)"
  by (simp add: fold_table_def)

lemma foldl_replace:
  "foldl (\<lambda>q (a, b). replace_all q a b) s (List.map (\<lambda>(a, b). ([a], [b])) t) = List.map (fold_table t) s"
proof (induction t arbitrary: s)
  case Nil
  show ?case by (simp add: fold_table_def)
next
  case (Cons p t)
  obtain a b where "p = (a, b)" by fastforce
  with Cons.IH [of "replace_all s [a] [b]"] show ?case
    by (simp add: replace_all_single fold_table_Cons o_def)
qed

lemma fold_query_map: "fold_query q = List.map (fold_table accent_table \<circ> lower_rune) (trim_space q)"
  by (simp add: fold_query_def accent_fold_def foldl_replace to_lower_def)

lemma cypher_eval_foldl:
  "cypher_eval lw s (foldl (\<lambda>out (a, b). CReplace out a b) e t)
     = foldl (\<lambda>q (a, b). replace_all q a b) (cypher_eval lw s e) t"
  by (induction t arbitrary: e) auto

lemma cypher_fold_map: "cypher_fold lw s = List.map (fold_table accent_table) (lw s)"
  by (simp add: cypher_fold_def fold_expr_def cypher_eval_foldl accent_fold_def foldl_replace)

lemma lower_latin:
  "128 \<le> r \<Longrightarrow> r \<le> 255 \<Longrightarrow>
     lower_rune r = (if 192 \<le> r \<and> r \<le> 222 \<and> r \<noteq> 215 then r + 32 else r)"
  by (auto simp: lower_rune_def lower_lookup_def lower_block0_def)

lemma fold_table_none: "r \<notin> fst ` set t \<Longrightarrow> fold_table t r = r"
  by (induction t arbitrary: r) (auto simp: fold_table_def)

text \<open>When no replacement is itself replaced, the chain of replacements is one table lookup.\<close>

lemma fold_table_lookup:
  "fst ` set t \<inter> snd ` set t = {} \<Longrightarrow> fold_table t r = (case map_of t r of Some b \<Rightarrow> b | None \<Rightarrow> r)"
proof (induction t)
  case Nil
  show ?case by (simp add: fold_table_def)
next
  case (Cons p t)
  obtain a b where p: "p = (a, b)" by fastforce
  with Cons.prems have "b \<notin> fst ` set t" by auto
  with Cons p show ?case by (auto simp: fold_table_Cons fold_table_none)
qed

lemma accent_table_stable: "fst ` set accent_table \<inter> snd ` set accent_table = {}"
  by (auto simp: accent_table_def)

lemmas fold_accent_table = fold_table_lookup [OF accent_table_stable]

lemma accents_both_cases:
  "list_all (\<lambda>(r, b). 128 \<le> r \<and> r \<le> 255 \<and>
     (r < 192 \<or> 222 < r \<or> r = 215 \<or> map_of accent_table r = map_of accent_table (r + 32))) accent_table"
  by (simp add: accent_table_def)

lemma runes_agree:
  assumes "r < 128 \<or> r \<in> fst ` set accent_table"
  shows "fold_table accent_table (lower_rune r) = fold_table accent_table (ascii_lower r)"
proof (cases "r < 128")
  case True
  then show ?thesis by (simp add: lower_rune_def ascii_lower_def)
next
  case False
  with assms obtain b where b: "(r, b) \<in> set accent_table" by auto
  then have some: "map_of accent_table r \<noteq> None" by (metis weak_map_of_SomeI option.distinct(1))
  from b accents_both_cases have r: "128 \<le> r" "r \<le> 255"
    "r < 192 \<or> 222 < r \<or> r = 215 \<or> map_of accent_table r = map_of accent_table (r + 32)"
    by (fastforce simp: list_all_iff)+
  then have "ascii_lower r = r" by (simp add: ascii_lower_def)
  with r some show ?thesis
    by (auto simp: lower_latin fold_accent_table split: option.splits)
qed

section \<open>Searching a case number\<close>

definition cnj_rune :: "rune \<Rightarrow> bool" where
  "cnj_rune r \<longleftrightarrow> 45 \<le> r \<and> r \<le> 57"

lemma accent_table_range: "r \<in> fst ` set accent_table \<Longrightarrow> 128 \<le> r"
  using accents_both_cases by (fastforce simp: list_all_iff)

lemma fold_table_cnj: "cnj_rune r \<Longrightarrow> fold_table accent_table (lower_rune r) = r"
proof -
  assume r: "cnj_rune r"
  then have "lower_rune r = r" by (simp add: cnj_rune_def lower_rune_def)
  moreover have "r \<notin> fst ` set accent_table" using r accent_table_range [of r] by (auto simp: cnj_rune_def)
  ultimately show ?thesis by (simp add: fold_table_none)
qed

lemma fold_query_cnj: "\<forall>r \<in> set s. cnj_rune r \<Longrightarrow> fold_query s = s"
proof -
  assume c: "\<forall>r \<in> set s. cnj_rune r"
  then have "trim_space s = s" by (intro trim_space_none) (auto simp: cnj_rune_def is_space_def)
  with c show ?thesis by (simp add: fold_query_map fold_table_cnj map_idI)
qed

lemma case_norm_filter: "case_norm s = filter (\<lambda>r. r \<noteq> 45 \<and> r \<noteq> 46) s"
proof -
  have "lit ''-'' = [45]" "lit ''.'' = [46]" by code_simp+
  then show ?thesis by (simp add: case_norm_def replace_all_del conj_commute)
qed

lemma case_norm_digits:
  assumes "\<forall>r \<in> set s. is_digit r \<or> r = 45 \<or> r = 46" shows "case_norm s = digits_only s"
proof -
  have "(r \<noteq> 45 \<and> r \<noteq> 46) = is_digit r" if "r \<in> set s" for r
    using assms that by (auto simp: is_digit_def)
  then show ?thesis unfolding case_norm_filter digits_only_def by (rule filter_cong [OF HOL.refl])
qed

lemma contains_self [simp]: "contains s s"
  unfolding contains_iff by (metis append_Nil append_Nil2)

lemma search_proceeding_number:
  assumes lp: "has_label ''LegalProceeding'' n" and s: "length s = 20" "\<forall>r \<in> set s. is_digit r"
    and stored: "n_props n ''case_number'' = Some (PStr c)" "c = s \<or> c = format_cnj s"
    and q: "q = s \<or> q = format_cnj s"
  shows "search_proceeding lw (fold_query q) (digits_only (fold_query q)) n"
proof -
  have d: "digits_only s = s" using s(2) by (rule digits_only_id)
  have f: "\<forall>r \<in> set (format_cnj s). is_digit r \<or> r = 45 \<or> r = 46"
    using format_cnj_runes [of s] d s(1) by auto
  have "\<forall>r \<in> set q. cnj_rune r"
    using q f s(2) by (auto simp: cnj_rune_def is_digit_def)
  then have "fold_query q = q" by (rule fold_query_cnj)
  then have qd: "digits_only (fold_query q) = s" using q d digits_format_cnj [of s] by auto
  have "case_norm c = digits_only c"
    using stored(2) f s(2) by (intro case_norm_digits) auto
  then have "case_norm c = s" using stored(2) d digits_format_cnj [of s] by auto
  moreover have "s \<noteq> []" using s(1) by auto
  ultimately show ?thesis
    using lp stored(1) qd by (simp add: search_proceeding_def str_or_null_def contains_null_def)
qed

section \<open>Properties\<close>

text \<open>C9: what \<open>collectGraph\<close> hands to the API are the nodes and the relationships the query returned, all of them
  and no others, each under its own id as the model of what is stored; and no property among those shown is
  an operator's \<open>*_recorded_by\<close>, an internal \<open>_*\<close>, or a \<open>cpf\<close> with all its digits. The denylist is about
  properties by name: the id, the label and every other property are shown as stored, so an id that was
  built from a CPF is shown with it.\<close>

theorem collect_graph_public:
  assumes "collect_graph failed recs = Inr (ns, es)"
  shows "dom ns = node_id_shown ` {n. VNode n \<in> set (concat recs)} \<and> dom es = nr_elem ` {r. VRel r \<in> set (concat recs)} \<and>
    (\<forall>i a. ns i = Some a \<longrightarrow> public_props (an_props a) \<and>
       (\<exists>n. VNode n \<in> set (concat recs) \<and> i = node_id_shown n \<and> a = neo_node_to_model n)) \<and>
    (\<forall>i e. es i = Some e \<longrightarrow> public_props (ae_props e) \<and>
       (\<exists>r m. VRel r \<in> set (concat recs) \<and> i = nr_elem r \<and> e = neo_rel_to_model r m))"
proof (intro conjI allI impI)
  show "dom ns = node_id_shown ` {n. VNode n \<in> set (concat recs)}" "dom es = nr_elem ` {r. VRel r \<in> set (concat recs)}"
    by (rule collected [OF assms])+
  fix i
  show "public_props (an_props a)" "\<exists>n. VNode n \<in> set (concat recs) \<and> i = node_id_shown n \<and> a = neo_node_to_model n"
    if "ns i = Some a" for a using collected(3) [OF assms that] by auto
  show "public_props (ae_props e)" "\<exists>r m. VRel r \<in> set (concat recs) \<and> i = nr_elem r \<and> e = neo_rel_to_model r m"
    if "es i = Some e" for e using collected(4) [OF assms that] by auto
qed

theorem collect_graph_public_witness:
  "\<exists>ns es. collect_graph False
       [[VNode \<lparr>nn_elem = lit ''7'', nn_labels = [''Person''],
           nn_props = [''id'' \<mapsto> PStr (lit ''p1''), ''cpf'' \<mapsto> PStr (lit ''12345678901'')]\<rparr>]]
     = Inr (ns, es) \<and> map_option (\<lambda>a. public_props (an_props a)) (ns (lit ''p1'')) = Some True"
proof -
  let ?recs = "[[VNode \<lparr>nn_elem = lit ''7'', nn_labels = [''Person''],
    nn_props = [''id'' \<mapsto> PStr (lit ''p1''), ''cpf'' \<mapsto> PStr (lit ''12345678901'')]\<rparr>]]"
  obtain ns es where r: "collect_graph False ?recs = Inr (ns, es)" by (auto simp: collect_graph_def Let_def)
  note shown = collect_graph_public [OF r]
  have "lit ''p1'' \<in> dom ns" using shown by (simp add: node_id_shown_def str_prop_def)
  then obtain a where "ns (lit ''p1'') = Some a" by blast
  with shown r show ?thesis by auto
qed

text \<open>The denylist drops exactly the operator and scratch fields, masks a string CPF and lets
  every other property through unchanged; sanitising twice is sanitising once.\<close>

theorem sanitize_properties_exact:
  "(sanitize_properties p k = None \<longleftrightarrow>
      p k = None \<or> has_suffix k ''_recorded_by'' \<or> has_prefix k ''_'') \<and>
   (sanitize_properties p k \<in> {None, p k} \<or>
      (\<exists>s. k = ''cpf'' \<and> p k = Some (PStr s) \<and> full_cpf s \<and>
           sanitize_properties p k = Some (PStr (mask_cpf s)))) \<and>
   sanitize_properties (sanitize_properties p) = sanitize_properties p"
proof (intro conjI)
  show "sanitize_properties (sanitize_properties p) = sanitize_properties p"
    by (simp add: sanitize_public)
  show "sanitize_properties p k = None \<longleftrightarrow>
      p k = None \<or> has_suffix k ''_recorded_by'' \<or> has_prefix k ''_''"
    by (auto simp: sanitize_properties_def split: option.splits pval.splits)
  show "sanitize_properties p k \<in> {None, p k} \<or>
      (\<exists>s. k = ''cpf'' \<and> p k = Some (PStr s) \<and> full_cpf s \<and>
           sanitize_properties p k = Some (PStr (mask_cpf s)))"
    by (auto simp: sanitize_properties_def mask_cpf_cases split: option.splits pval.splits)
qed

text \<open>A masked CPF tells nothing but the six middle digits: two full CPFs that agree there are
  published as the same string, and that string is no longer a full CPF.\<close>

theorem mask_cpf_hides:
  assumes "full_cpf a" and "full_cpf b" and "slice 3 9 a = slice 3 9 b"
  shows "mask_cpf a = mask_cpf b \<and> \<not> full_cpf (mask_cpf a)"
proof -
  have "slice 3 6 s = take 3 (slice 3 9 s)" "slice 6 9 s = drop 3 (slice 3 9 s)" for s
    by (simp_all add: slice_def drop_take)
  with assms show ?thesis by (simp add: mask_cpf_cases [of a] mask_cpf_cases [of b])
     (simp add: full_cpf_def)
qed

theorem mask_cpf_hides_witness:
  "mask_cpf (lit ''11122233344'') = mask_cpf (lit ''99922233300'')"
proof -
  have "full_cpf (lit ''11122233344'')" "full_cpf (lit ''99922233300'')"
    "slice 3 9 (lit ''11122233344'') = slice 3 9 (lit ''99922233300'')" by code_simp+
  from mask_cpf_hides [OF this] show ?thesis ..
qed

text \<open>Formatting a CNJ number only inserts punctuation: the digits read back are the digits put
  in, formatting is idempotent, and a string that has not exactly 20 digits is left as it is.\<close>

theorem format_cnj_roundtrip:
  "digits_only (format_cnj s) = digits_only s \<and> format_cnj (format_cnj s) = format_cnj s \<and>
   (format_cnj s = s \<or> length (digits_only s) = 20)"
proof -
  have "length (digits_only s) \<noteq> 20 \<Longrightarrow> format_cnj s = s" by (simp add: format_cnj_def)
  then show ?thesis by auto
qed

text \<open>A proceeding is found by its case number however it is stored and however it is typed,
  bare or in CNJ form, by the typed and by the untyped search, whatever Memgraph's \<open>toLower\<close> does.\<close>

theorem search_finds_case_number:
  assumes "has_label ''LegalProceeding'' n" and "length s = 20" "\<forall>r \<in> set s. is_digit r"
    and "n_props n ''case_number'' = Some (PStr c)" "c = s \<or> c = format_cnj s"
    and "q = s \<or> q = format_cnj s"
  shows "search_keeps lw q (lit ''legal_proceeding'') n \<and> search_keeps lw q [] n"
  using search_proceeding_number [OF assms, of lw] assms(1)
  by (simp add: search_keeps_def Let_def search_all_def search_proceeding_def)

theorem search_finds_case_number_witness:
  "search_keeps (\<lambda>s. s) (lit ''5083376-05.2014.4.04.7000'') []
     \<lparr>n_key = 0, n_labels = [''LegalProceeding''],
      n_props = [''case_number'' \<mapsto> PStr (lit ''50833760520144047000'')]\<rparr>"
proof -
  have "length (lit ''50833760520144047000'') = 20" "\<forall>r \<in> set (lit ''50833760520144047000''). is_digit r"
    "lit ''5083376-05.2014.4.04.7000'' = format_cnj (lit ''50833760520144047000'')" by code_simp+
  from search_finds_case_number [of "\<lparr>n_key = 0, n_labels = [''LegalProceeding''],
      n_props = [''case_number'' \<mapsto> PStr (lit ''50833760520144047000'')]\<rparr>", OF _ this(1) this(2) _ _ disjI2 [OF this(3)]]
  show ?thesis by (simp add: has_label_def)
qed

text \<open>The Go side and the Cypher side of a search fold a string alike, as long as it uses only
  ASCII and the letters of the accent table and neither starts nor ends in white space. Memgraph's
  \<open>toLower\<close> is the hypothesis: it changes ASCII capitals and nothing else.\<close>

theorem fold_sides_agree:
  assumes "\<forall>s. lw s = List.map ascii_lower s"
    and "\<forall>r \<in> set s. r < 128 \<or> r \<in> fst ` set accent_table" and "trim_space s = s"
  shows "cypher_fold lw s = fold_query s"
  using assms by (simp add: cypher_fold_map fold_query_map runes_agree)

theorem fold_sides_agree_witness:
  "cypher_fold (List.map ascii_lower) [74, 79, 83, 201] = fold_query [74, 79, 83, 201]"
proof (rule fold_sides_agree)
  show "\<forall>r \<in> set [74, 79, 83, 201]. r < 128 \<or> r \<in> fst ` set accent_table"
    by (simp add: accent_table_def)
  show "trim_space [74, 79, 83, 201] = [74, 79, 83, 201]" by code_simp
qed simp

text \<open>Outside that alphabet the two sides differ, although the comment on \<open>foldQuery\<close> asks them
  to agree exactly: a politician whose only alias is the letter Y with diaeresis (U+0178) is not
  found by searching that alias, because Go lower-cases the letter and Memgraph does not.\<close>

theorem fold_sides_diverge:
  "\<not> search_keeps (List.map ascii_lower) [376] (lit ''politician'')
     \<lparr>n_key = 0, n_labels = [''Politician''], n_props = [''name_aliases'' \<mapsto> PList [[376]]]\<rparr>"
proof -
  have l: "lower_rune 376 = 255"
    by (simp add: lower_rune_def lower_lookup_def lower_block0_def)
  have f: "fold_table accent_table 255 = 255" "fold_table accent_table 376 = 376"
    by (rule fold_table_none, simp add: accent_table_def)+
  have "trim_space [376] = [376]" by code_simp
  then have "fold_query [376] = [255]" by (simp add: fold_query_map l f)
  moreover have "cypher_fold (List.map ascii_lower) [376] = [376]"
    by (simp add: cypher_fold_map ascii_lower_def f)
  ultimately show ?thesis
    by (simp add: search_keeps_def search_politician_def any_alias_def list_prop_def folded_name_def
        str_or_null_def Let_def)
qed

text \<open>The untyped search finds what the typed ones find, with one gap: a scandal is found by its
  description only when scandals are asked for.\<close>

theorem search_all_is_typed:
  "(\<exists>t \<in> {''politician'', ''person'', ''scandal'', ''organization'', ''sanction'', ''legal_proceeding''}.
      search_keeps lw q (lit t) n) \<longleftrightarrow>
   search_keeps lw q [] n \<or>
   (has_label ''Scandal'' n \<and> contains (cypher_fold lw (str_prop (n_props n) ''description'')) (fold_query q))"
  by (simp add: search_keeps_def Let_def search_all_def search_politician_def search_person_def
      search_scandal_def search_organization_def search_sanction_def search_proceeding_def) blast

end
