(* ===== verification/World.thy ===== *)
theory World
  imports Graph
begin

text \<open>
  The stores a run works on: the graph in Memgraph and the tables in Postgres. The rows of a table
  are listed in the order they were inserted. \<open>clock\<close> is the time of the run as it is written into
  the graph, \<open>wall\<close> the same instant in seconds; neither advances during a run. The UUID Postgres gives
  a new row is the number of ids it has \<open>issued\<close>. Every database
  call goes through \<open>db_call\<close>, which consumes one entry of the fault script \<open>faults\<close>: \<open>Up\<close>, the
  call happens; \<open>Lost\<close>, it fails and has no effect; \<open>LostAck\<close>, it takes effect but the client sees
  an error; \<open>RowsLost\<close>, the statement is accepted and the error comes with its rows, which only a caller
  that asks the result for its error gets to see. An empty script is a run without faults. Whatever is proved for every state is proved
  for every place a connection may break.
\<close>

datatype fault = Up | Lost | LostAck | RowsLost

record tombstone =
  tb_key :: gostr
  tb_node :: gostr
  tb_removal :: "gostr option"

record review =
  rv_id :: nat
  rv_type :: string
  rv_payload :: props
  rv_worker :: string
  rv_status :: string
  rv_by :: "gostr option"

record import_state =
  im_registry :: gostr
  im_last_page :: int
  im_seen :: int
  im_synced :: gostr

record snapshot =
  sn_case :: gostr
  sn_key :: gostr
  sn_nome :: gostr
  sn_polo :: gostr

record watch =
  wt_case :: gostr
  wt_endpoint :: gostr
  wt_scandal :: gostr
  wt_proceeding :: gostr
  wt_movement :: "gostr option"
  wt_status :: string
  wt_added_by :: string
  wt_polled :: "int option"
  wt_djen_polled :: "int option"

record alias_row =
  al_politician :: gostr
  al_alias :: gostr
  al_status :: string

record world =
  graph :: graph
  tombs :: "tombstone list"
  reviews :: "review list"
  import_states :: "import_state list"
  snapshots :: "snapshot list"
  watches :: "watch list"
  aliases :: "alias_row list"
  clock :: gostr
  faults :: "fault list"
  wall :: int
  issued :: nat

definition empty_world :: world where
  "empty_world = \<lparr>graph = empty_graph, tombs = [], reviews = [], import_states = [], snapshots = [],
     watches = [], aliases = [], clock = [], faults = [], wall = 0, issued = 0\<rparr>"

section \<open>Database calls\<close>

definition db_call :: "('z world_scheme, 'a) prog \<Rightarrow> ('z world_scheme, 'a) prog" where
  "db_call m s =
     (case faults s of
        [] \<Rightarrow> m s
      | Up # fs \<Rightarrow> m (s\<lparr>faults := fs\<rparr>)
      | Lost # fs \<Rightarrow> (Inl DbError, s\<lparr>faults := fs\<rparr>)
      | LostAck # fs \<Rightarrow> (Inl DbError, snd (m (s\<lparr>faults := fs\<rparr>)))
      | RowsLost # fs \<Rightarrow> (Inl DbError, s\<lparr>faults := fs\<rparr>))"

text \<open>A Cypher statement: it commits when the result respects the uniqueness constraints.\<close>

definition run_cypher :: "(graph \<Rightarrow> graph \<times> 'a) \<Rightarrow> ('z world_scheme, 'a) prog" where
  "run_cypher f s =
     (case f (graph s) of (g, a) \<Rightarrow>
        if ids_unique g then (Inr a, s\<lparr>graph := g\<rparr>) else (Inl DbError, s))"

definition cypher :: "(graph \<Rightarrow> graph \<times> 'a) \<Rightarrow> ('z world_scheme, 'a) prog" where
  "cypher f = db_call (run_cypher f)"

definition cypher_read :: "(graph \<Rightarrow> 'a) \<Rightarrow> ('z world_scheme, 'a) prog" where
  "cypher_read f = db_call (getR (\<lambda>s. f (graph s)))"

text \<open>A read whose caller looks for a row and never at \<^verbatim>\<open>res.Err()\<close>: lost rows are no rows (\<open>none\<close>).\<close>

definition cypher_read_unchecked :: "'a \<Rightarrow> (graph \<Rightarrow> 'a) \<Rightarrow> ('z world_scheme, 'a) prog" where
  "cypher_read_unchecked none f s =
     (case faults s of RowsLost # fs \<Rightarrow> (Inr none, s\<lparr>faults := fs\<rparr>) | _ \<Rightarrow> cypher_read f s)"

definition sql :: "('z world_scheme \<Rightarrow> 'z world_scheme) \<Rightarrow> ('z world_scheme, unit) prog" where
  "sql f = db_call (modR f)"

definition sql_read :: "('z world_scheme \<Rightarrow> 'a) \<Rightarrow> ('z world_scheme, 'a) prog" where
  "sql_read f = db_call (getR f)"

text \<open>An order that does not look at the fault script passes through a database call.\<close>

locale world_order = state_order R
  for R :: "'z world_scheme \<Rightarrow> 'z world_scheme \<Rightarrow> bool" +
  assumes faults: "R s (s\<lparr>faults := fs\<rparr>)"
begin

lemma db_call [order_intros]:
  assumes "moves R m" shows "moves R (db_call m)"
proof (rule movesI)
  fix s
  have m: "R s (snd (m (s\<lparr>faults := fs\<rparr>)))" for fs
    using trans [OF faults movesD [OF assms]] .
  show "R s (snd (db_call m s))"
    using m movesD [OF assms, of s] faults
    by (auto simp: db_call_def split: list.splits fault.splits)
qed

lemma cypher:
  "(\<And>s. ids_unique (fst (f (graph s))) \<Longrightarrow> R s (s\<lparr>graph := fst (f (graph s))\<rparr>)) \<Longrightarrow> moves R (cypher f)"
  unfolding cypher_def
  by (rule db_call) (simp add: moves_def run_cypher_def case_prod_beta)

lemma cypher_at:
  assumes "\<And>fs. R (s\<lparr>faults := fs\<rparr>) (s\<lparr>faults := fs, graph := fst (f (graph s))\<rparr>)"
  shows "R s (snd (cypher f s))"
proof -
  have 1: "R s (snd (run_cypher f (s\<lparr>faults := fs\<rparr>)))" for fs
    using trans [OF faults assms [of fs]] faults [of s fs]
    by (simp add: run_cypher_def case_prod_beta)
  have "snd (run_cypher f s) = snd (run_cypher f (s\<lparr>faults := faults s\<rparr>))" by simp
  then have 2: "R s (snd (run_cypher f s))" using 1 [of "faults s"] by simp
  show ?thesis
    using 1 2 faults by (auto simp: cypher_def db_call_def split: list.splits fault.splits)
qed

lemma cypher_read [order_intros]: "moves R (cypher_read f)"
  unfolding cypher_read_def by (rule db_call) (rule getR)

lemma cypher_read_unchecked [order_intros]: "moves R (cypher_read_unchecked none f)"
proof (rule movesI)
  fix s show "R s (snd (cypher_read_unchecked none f s))"
    using movesD [OF cypher_read, of s f] faults
    by (simp add: cypher_read_unchecked_def split: list.split fault.split)
qed

lemma sql: "(\<And>s. R s (f s)) \<Longrightarrow> moves R (sql f)"
  unfolding sql_def by (rule db_call) (rule modR)

lemma sql_read [order_intros]: "moves R (sql_read f)"
  unfolding sql_read_def by (rule db_call) (rule getR)

end

text \<open>What a call that reported success did.\<close>

lemma db_call_ok:
  assumes "db_call m s = (Inr a, t)"
  shows "\<exists>fs. m (s\<lparr>faults := fs\<rparr>) = (Inr a, t)"
proof (cases "faults s")
  case Nil
  then have "m (s\<lparr>faults := []\<rparr>) = m s" by (intro arg_cong [of _ _ m]) simp
  moreover have "db_call m s = m s" using Nil by (simp add: db_call_def)
  ultimately show ?thesis using assms by (intro exI [of _ "[]"]) simp
next
  case (Cons f fs)
  with assms show ?thesis by (intro exI [of _ fs]) (cases f; simp add: db_call_def)
qed

lemma cypher_ok:
  assumes "cypher f s = (Inr a, t)"
  shows "\<exists>fs. t = s\<lparr>faults := fs, graph := fst (f (graph s))\<rparr> \<and> a = snd (f (graph s)) \<and> ids_unique (graph t)"
  using db_call_ok [OF assms [unfolded cypher_def]]
  by (auto simp: run_cypher_def case_prod_beta split: if_splits)

lemma cypher_result: "cypher f s = (Inr a, t) \<Longrightarrow> f (graph s) = (graph t, a)"
  by (drule cypher_ok) auto

lemma cypher_read_ok:
  assumes "cypher_read f s = (Inr a, t)"
  shows "\<exists>fs. t = s\<lparr>faults := fs\<rparr> \<and> a = f (graph s)"
  using db_call_ok [OF assms [unfolded cypher_read_def]] by (auto simp: getR_def)

lemma cypher_read_unchecked_cases:
  "(\<exists>fs. cypher_read_unchecked none f s = (Inr none, s\<lparr>faults := fs\<rparr>)) \<or>
   cypher_read_unchecked none f s = cypher_read f s"
  by (auto simp: cypher_read_unchecked_def split: list.split fault.split)

lemma cypher_read_unchecked_ok:
  assumes "cypher_read_unchecked none f s = (Inr a, t)"
  shows "\<exists>fs. t = s\<lparr>faults := fs\<rparr> \<and> (a = none \<or> a = f (graph s))"
  using cypher_read_unchecked_cases [of none f s] cypher_read_ok [of f s a t] assms by auto

lemma sql_read_ok:
  assumes "sql_read f s = (Inr a, t)"
  shows "\<exists>fs. t = s\<lparr>faults := fs\<rparr> \<and> a = f (s\<lparr>faults := fs\<rparr>)"
  using db_call_ok [OF assms [unfolded sql_read_def]] by (auto simp: getR_def)

section \<open>Which calls leave which store alone\<close>

text \<open>Orders used throughout: the graph, the tombstones, the reviews are only extended or kept.\<close>

definition same_graph :: "'z world_scheme \<Rightarrow> 'z world_scheme \<Rightarrow> bool" where
  "same_graph s t \<longleftrightarrow> graph s = graph t"

definition same_tombs :: "'z world_scheme \<Rightarrow> 'z world_scheme \<Rightarrow> bool" where
  "same_tombs s t \<longleftrightarrow> tombs s = tombs t"

definition keeps_wf :: "'z world_scheme \<Rightarrow> 'z world_scheme \<Rightarrow> bool" where
  "keeps_wf s t \<longleftrightarrow> (wf_graph (graph s) \<and> ids_unique (graph s) \<longrightarrow> wf_graph (graph t) \<and> ids_unique (graph t))"

interpretation same_graph: world_order same_graph
  by unfold_locales (auto simp: same_graph_def)

interpretation same_tombs: world_order same_tombs
  by unfold_locales (auto simp: same_tombs_def)

interpretation keeps_wf: world_order keeps_wf
  by unfold_locales (auto simp: keeps_wf_def)

text \<open>A statement keeps the graph well-formed when its effect does; uniqueness is checked.\<close>

lemma keeps_wf_cypher:
  "(\<And>g. wf_graph g \<Longrightarrow> wf_graph (fst (f g))) \<Longrightarrow> moves keeps_wf (cypher f)"
  by (rule keeps_wf.cypher) (simp add: keeps_wf_def)

section \<open>The review queue\<close>

definition create_pending_review :: "string \<Rightarrow> props \<Rightarrow> string \<Rightarrow> ('z world_scheme, unit) prog" where
  "create_pending_review typ payload worker =
     sql (\<lambda>s. s\<lparr>reviews := reviews s @
       [\<lparr>rv_id = issued s, rv_type = typ, rv_payload = payload, rv_worker = worker, rv_status = ''pending'',
         rv_by = None\<rparr>], issued := issued s + 1\<rparr>)"

end
