(* ===== verification/Tombstone.thy ===== *)
theory Tombstone
  imports World Matching
begin

text \<open>
  Purge tombstones (\<^verbatim>\<open>backend/db/psql/tombstone.go\<close>): the keys under which a purged person or
  company is remembered, the writes of the backoffice and the check every ingest worker makes
  before it creates a node. Postgres's own text functions are parameters: \<open>up\<close> is \<^verbatim>\<open>upper\<close>,
  \<open>ci\<close> the case folding of \<^verbatim>\<open>ILIKE\<close>, \<open>txt\<close> the text form of a \<^verbatim>\<open>jsonb\<close> payload.
\<close>

section \<open>Keys\<close>

definition tombstone_key_cpf :: "gostr \<Rightarrow> gostr" where
  "tombstone_key_cpf d = lit ''cpf:'' @ d"

definition tombstone_key_cnpj :: "gostr \<Rightarrow> gostr" where
  "tombstone_key_cnpj d = lit ''cnpj:'' @ d"

definition tombstone_accents :: "(rune \<times> gostr) list" where
  "tombstone_accents =
     [(193, [65]), (192, [65]), (194, [65]), (195, [65]), (196, [65]),
      (201, [69]), (200, [69]), (202, [69]), (203, [69]),
      (205, [73]), (204, [73]), (206, [73]), (207, [73]),
      (211, [79]), (210, [79]), (212, [79]), (213, [79]), (214, [79]),
      (218, [85]), (217, [85]), (219, [85]), (220, [85]),
      (199, [67]), (209, [78])]"

text \<open>Full stop, comma, hyphen, apostrophe, backquote, quotation mark, slash.\<close>

definition tombstone_punct :: "(rune \<times> gostr) list" where
  "tombstone_punct =
     [(46, [32]), (44, [32]), (45, [32]), (39, [32]), (96, [32]), (34, [32]), (47, [32])]"

definition single_olds :: "(rune \<times> gostr) list \<Rightarrow> (gostr \<times> gostr) list" where
  "single_olds ps = List.map (\<lambda>(a, n). ([a], n)) ps"

definition tombstone_suffix :: "(gostr \<times> gostr) list" where
  "tombstone_suffix =
     [(lit ''JUNIOR'', lit ''JR''), (lit ''JR'', lit ''JR''), (lit ''JUN'', lit ''JR''),
      (lit ''FILHO'', lit ''FILHO''), (lit ''FO'', lit ''FILHO''), (lit ''FILHA'', lit ''FILHO''),
      (lit ''NETO'', lit ''NETO''), (lit ''NETA'', lit ''NETO''),
      (lit ''SOBRINHO'', lit ''SOBRINHO''), (lit ''SOBRINHA'', lit ''SOBRINHO''),
      (lit ''SEGUNDO'', lit ''II''), (lit ''II'', lit ''II''),
      (lit ''TERCEIRO'', lit ''III''), (lit ''III'', lit ''III'')]"

definition canon_suffix :: "gostr \<Rightarrow> gostr" where
  "canon_suffix f = (case map_of tombstone_suffix f of Some c \<Rightarrow> c | None \<Rightarrow> f)"

definition tombstone_key_name :: "gostr \<Rightarrow> gostr" where
  "tombstone_key_name name =
     (let folded = replacer (single_olds tombstone_punct)
                     (replacer (single_olds tombstone_accents) (to_upper name))
      in lit ''name:'' @ str_join [32] (List.map canon_suffix (str_fields folded)))"

section \<open>The table\<close>

definition usable_key :: "gostr \<Rightarrow> bool" where
  "usable_key k \<longleftrightarrow> trim_space k \<noteq> [] \<and> \<not> has_suffix k (lit '':'')"

definition buried :: "'z world_scheme \<Rightarrow> gostr \<Rightarrow> bool" where
  "buried s k \<longleftrightarrow> (\<exists>t \<in> set (tombs s). tb_key t = k)"

definition insert_tombstone :: "gostr \<Rightarrow> gostr \<Rightarrow> gostr option \<Rightarrow> 'z world_scheme \<Rightarrow> 'z world_scheme" where
  "insert_tombstone k node rid s =
     (if buried s k then s
      else s\<lparr>tombs := tombs s @ [\<lparr>tb_key = k, tb_node = node, tb_removal = rid\<rparr>]\<rparr>)"

definition create_purge_tombstones ::
  "gostr list \<Rightarrow> gostr \<Rightarrow> gostr \<Rightarrow> ('z world_scheme, unit) prog" where
  "create_purge_tombstones keys node removal =
     forR (\<lambda>k. if usable_key k
               then sql (insert_tombstone k node (if trim_space removal \<noteq> [] then Some removal else None))
               else ret ()) keys"

fun is_subject_purged :: "gostr list \<Rightarrow> ('z world_scheme, bool) prog" where
  "is_subject_purged [] = ret False"
| "is_subject_purged (k # ks) =
     (if usable_key k then
        bindR (sql_read (\<lambda>s. buried s k)) (\<lambda>e. if e then ret True else is_subject_purged ks)
      else is_subject_purged ks)"

section \<open>Erasing the name elsewhere\<close>

text \<open>\<^verbatim>\<open>s ILIKE p\<close>: percent, underscore and backslash as Postgres reads them.\<close>

fun ilike :: "(rune \<Rightarrow> rune) \<Rightarrow> gostr \<Rightarrow> gostr \<Rightarrow> bool" where
  "ilike ci [] s = (s = [])"
| "ilike ci (p # ps) s =
     (if p = 37 then list_ex (\<lambda>k. ilike ci ps (drop k s)) [0 ..< Suc (length s)]
      else if p = 95 then (case s of [] \<Rightarrow> False | r # rs \<Rightarrow> ilike ci ps rs)
      else if p = 92 then
        (case ps of [] \<Rightarrow> False
         | q # qs \<Rightarrow> (case s of [] \<Rightarrow> False | r # rs \<Rightarrow> ci q = ci r \<and> ilike ci qs rs))
      else (case s of [] \<Rightarrow> False | r # rs \<Rightarrow> ci p = ci r \<and> ilike ci ps rs))"

definition btrim :: "gostr \<Rightarrow> gostr" where
  "btrim s = rev (dropWhile (\<lambda>r. r = 32) (rev (dropWhile (\<lambda>r. r = 32) s)))"

definition same_text :: "(gostr \<Rightarrow> gostr) \<Rightarrow> gostr \<Rightarrow> gostr \<Rightarrow> bool" where
  "same_text up a b \<longleftrightarrow> up (btrim a) = up (btrim b)"

text \<open>A \<^verbatim>\<open>DELETE\<close>: the statement and the number of rows it affected.\<close>

definition sql_delete ::
  "('z world_scheme \<Rightarrow> nat) \<Rightarrow> ('z world_scheme \<Rightarrow> 'z world_scheme) \<Rightarrow> ('z world_scheme, nat) prog" where
  "sql_delete cnt f = db_call (\<lambda>s. (Inr (cnt s), f s))"

definition delete_purged_subject_name ::
  "(gostr \<Rightarrow> gostr) \<Rightarrow> (rune \<Rightarrow> rune) \<Rightarrow> (props \<Rightarrow> gostr) \<Rightarrow> gostr \<Rightarrow> ('z world_scheme, nat) prog" where
  "delete_purged_subject_name up ci txt raw =
     (let name = trim_space raw; pat = [37] @ name @ [37];
          snap = (\<lambda>x. same_text up (sn_nome x) name);
          ali = (\<lambda>x. same_text up (al_alias x) name);
          rev = (\<lambda>x. ilike ci pat (txt (rv_payload x)))
      in if name = [] then ret 0
         else bindR (sql_delete (\<lambda>s. length (filter snap (snapshots s)))
                       (\<lambda>s. s\<lparr>snapshots := filter (\<lambda>x. \<not> snap x) (snapshots s)\<rparr>)) (\<lambda>a.
              bindR (sql_delete (\<lambda>s. length (filter ali (aliases s)))
                       (\<lambda>s. s\<lparr>aliases := filter (\<lambda>x. \<not> ali x) (aliases s)\<rparr>)) (\<lambda>b.
              bindR (sql_delete (\<lambda>s. length (filter rev (reviews s)))
                       (\<lambda>s. s\<lparr>reviews := filter (\<lambda>x. \<not> rev x) (reviews s)\<rparr>)) (\<lambda>c.
              ret (a + b + c)))))"

section \<open>The key of a name\<close>

lemma replacer_runes: "replacer (single_olds ps) s = concat (List.map (rune_subst ps) s)"
  by (simp add: single_olds_def replacer_single)

definition punct_rune :: "rune \<Rightarrow> rune" where
  "punct_rune r = (if r \<in> {46, 44, 45, 39, 96, 34, 47} then 32 else r)"

lemma subst_accents: "rune_subst tombstone_accents r = [fold_rune r]"
  by (simp add: rune_subst_def tombstone_accents_def fold_rune_def fold_accent_def)

lemma subst_punct: "rune_subst tombstone_punct r = [punct_rune r]"
  by (simp add: rune_subst_def tombstone_punct_def punct_rune_def)

lemma concat_singletons: "concat (List.map (\<lambda>r. [f r]) s) = List.map f s"
  by (induction s) simp_all

lemma tombstone_fold:
  "replacer (single_olds tombstone_punct) (replacer (single_olds tombstone_accents) (to_upper s))
     = List.map (punct_rune \<circ> norm_rune) s"
  by (simp add: replacer_runes subst_accents [abs_def] subst_punct [abs_def] concat_singletons
      to_upper_def norm_rune_def [abs_def] o_def)

lemma tombstone_key_words:
  "tombstone_key_name s =
     lit ''name:'' @ str_join [32] (List.map canon_suffix (str_fields (List.map (punct_rune \<circ> norm_rune) s)))"
  by (simp only: tombstone_key_name_def Let_def tombstone_fold)

lemma is_space_punct: "is_space r \<Longrightarrow> is_space (punct_rune r)"
  by (simp add: punct_rune_def)

text \<open>Mapping runes so that spaces stay spaces splits each word further and merges none.\<close>

lemma fields_append_space:
  "is_space b \<Longrightarrow> str_fields (u @ b # v) = str_fields u @ str_fields v"
proof -
  assume b: "is_space b"
  have "fields_from w (u @ b # v) = fields_from w u @ fields_from [] v" for w
    using b by (induction w u rule: fields_from.induct) auto
  then show ?thesis by (simp add: str_fields_def)
qed

lemma fields_map_spaces:
  assumes g: "\<And>r. is_space r \<Longrightarrow> is_space (g r)"
  shows "str_fields (List.map g s) = concat (List.map (\<lambda>w. str_fields (List.map g w)) (str_fields s))"
proof -
  have "str_fields (List.map g (w @ s)) = concat (List.map (\<lambda>w. str_fields (List.map g w)) (fields_from w s))"
    if "\<forall>r \<in> set w. \<not> is_space r" for w
    using that
  proof (induction s arbitrary: w)
    case Nil
    show ?case by (simp add: str_fields_def)
  next
    case (Cons r s)
    show ?case
    proof (cases "is_space r")
      case True
      then have "str_fields (List.map g (w @ r # s)) = str_fields (List.map g w) @ str_fields (List.map g s)"
        using fields_append_space [OF g, of r "List.map g w"] by simp
      with True Cons.IH [of "[]"] show ?thesis by (simp add: str_fields_def)
    next
      case False
      with Cons.prems Cons.IH [of "w @ [r]"] show ?thesis by simp
    qed
  qed
  from this [of "[]"] show ?thesis by (simp add: str_fields_def)
qed

lemma tombstone_key_normalize [simp]: "tombstone_key_name (normalize_name s) = tombstone_key_name s"
proof -
  let ?g = "punct_rune \<circ> norm_rune"
  have g: "is_space r \<Longrightarrow> is_space (?g r)" for r by (simp add: is_space_punct)
  have "str_fields (List.map ?g (normalize_name s)) =
      concat (List.map (\<lambda>w. str_fields (List.map ?g w)) (List.map (List.map norm_rune) (str_fields s)))"
    using fields_map_spaces [of ?g "normalize_name s", OF g] by (simp only: fields_normalize)
  also have "\<dots> = concat (List.map (\<lambda>w. str_fields (List.map ?g w)) (str_fields s))"
    by (simp add: o_def)
  also have "\<dots> = str_fields (List.map ?g s)"
    by (rule fields_map_spaces [OF g, symmetric])
  finally show ?thesis by (simp only: tombstone_key_words)
qed

lemma tombstone_key_trim [simp]: "tombstone_key_name (trim_space s) = tombstone_key_name s"
  using tombstone_key_normalize [of "trim_space s"] by simp

section \<open>The check\<close>

text \<open>
  What a worker relies on. \<open>check\<close> answers \<^verbatim>\<open>false\<close> only when none of its usable keys is buried, and
  asking buries and unearths nothing. Then a guarded write runs only in states where the subject
  is not buried.
\<close>

locale purge_guard =
  fixes check :: "gostr list \<Rightarrow> ('s, bool) prog"
    and is_buried :: "'s \<Rightarrow> gostr \<Rightarrow> bool"
    and usable :: "gostr \<Rightarrow> bool"
  assumes check_sound:
      "fst (check ks s) = Inr False \<Longrightarrow> k \<in> set ks \<Longrightarrow> usable k \<Longrightarrow> \<not> is_buried s k"
    and check_frame: "is_buried (snd (check ks s)) k = is_buried s k"

sublocale purge_guard \<subseteq> subject: guard "check ks" "\<lambda>s. \<exists>k \<in> set ks. usable k \<and> is_buried s k" for ks
  by unfold_locales (auto simp: check_frame dest: check_sound)

lemma sql_read_cases:
  "sql_read f s = (Inr (f s), s) \<or> (\<exists>fs. sql_read f s = (Inr (f (s\<lparr>faults := fs\<rparr>)), s\<lparr>faults := fs\<rparr>))
   \<or> (\<exists>fs. sql_read f s = (Inl DbError, s\<lparr>faults := fs\<rparr>))"
  by (auto simp: sql_read_def db_call_def getR_def split: list.splits fault.splits)

lemma buried_faults [simp]: "buried (s\<lparr>faults := fs\<rparr>) k = buried s k"
  by (simp add: buried_def)

lemma is_subject_purged_frame: "\<exists>fs. snd (is_subject_purged ks s) = s\<lparr>faults := fs\<rparr>"
proof (induction ks arbitrary: s)
  case Nil
  have "snd (is_subject_purged [] s) = s\<lparr>faults := faults s\<rparr>" by (simp add: ret_def)
  then show ?case by blast
next
  case (Cons k ks)
  have self: "\<exists>fs. s = s\<lparr>faults := fs\<rparr>" for s :: "'z world_scheme"
    by (rule exI [of _ "faults s"]) simp
  have rest: "\<exists>fs'. snd (is_subject_purged ks (s\<lparr>faults := fs\<rparr>)) = s\<lparr>faults := fs'\<rparr>" for fs
    using Cons.IH [of "s\<lparr>faults := fs\<rparr>"] by auto
  show ?case
    using sql_read_cases [of "\<lambda>s. buried s k" s] Cons.IH [of s] rest self [of s]
    by (auto simp: bindR_def ret_def)
qed

lemma is_subject_purged_sound:
  "fst (is_subject_purged ks s) = Inr False \<Longrightarrow> k \<in> set ks \<Longrightarrow> usable_key k \<Longrightarrow> \<not> buried s k"
proof (induction ks arbitrary: s)
  case Nil
  then show ?case by simp
next
  case (Cons x ks)
  show ?case
  proof (cases "usable_key x")
    case False
    with Cons show ?thesis by auto
  next
    case True
    have ih: "k \<in> set ks \<Longrightarrow> \<not> buried s k"
      if "fst (is_subject_purged ks (s\<lparr>faults := fs\<rparr>)) = Inr False" for fs
      using Cons.IH [OF that _ Cons.prems(3)] by simp
    show ?thesis
      using sql_read_cases [of "\<lambda>s. buried s x" s] Cons.prems True ih ih [of "faults s"]
      by (auto simp: bindR_def ret_def split: if_splits)
  qed
qed

interpretation tombstones: purge_guard is_subject_purged buried usable_key
proof unfold_locales
  show "\<not> buried s k" if "fst (is_subject_purged ks s) = Inr False" "k \<in> set ks" "usable_key k"
    for ks k and s :: "'z world_scheme"
    using is_subject_purged_sound that .
  show "buried (snd (is_subject_purged ks s)) k = buried s k" for ks k and s :: "'z world_scheme"
    using is_subject_purged_frame [of ks s] by auto
qed

context world_order
begin

lemma is_subject_purged [order_intros]: "moves R (is_subject_purged ks)"
  by (induction ks) (auto intro!: order_intros ret bindR sql_read)

end

section \<open>Writing tombstones\<close>

definition tombs_grow :: "'z world_scheme \<Rightarrow> 'z world_scheme \<Rightarrow> bool" where
  "tombs_grow s t \<longleftrightarrow> (\<forall>k. buried s k \<longrightarrow> buried t k)"

interpretation tombs_grow: world_order tombs_grow
  by unfold_locales (auto simp: tombs_grow_def)

lemma buried_insert [simp]: "buried (insert_tombstone k n r s) x \<longleftrightarrow> x = k \<or> buried s x"
  by (auto simp: insert_tombstone_def buried_def)

lemma grow_create: "moves tombs_grow (create_purge_tombstones keys n r)"
  unfolding create_purge_tombstones_def
  by (auto intro!: tombs_grow.forR tombs_grow.ret tombs_grow.sql moves_if simp: tombs_grow_def)

lemma sql_ok: "fst (sql f s) = Inr u \<Longrightarrow> \<exists>fs. snd (sql f s) = f (s\<lparr>faults := fs\<rparr>)"
proof -
  have "\<exists>fs. f s = f (s\<lparr>faults := fs\<rparr>)" by (rule exI [of _ "faults s"]) simp
  then show "fst (sql f s) = Inr u \<Longrightarrow> ?thesis"
    by (auto simp: sql_def db_call_def modR_def split: list.splits fault.splits)
qed

lemma create_buries:
  assumes "fst (create_purge_tombstones keys n r s) = Inr ()" and "k \<in> set keys" and "usable_key k"
  shows "buried (snd (create_purge_tombstones keys n r s)) k"
  using assms
proof (induction keys arbitrary: s)
  case Nil
  then show ?case by simp
next
  case (Cons x keys)
  let ?w = "\<lambda>k. if usable_key k
    then sql (insert_tombstone k n (if trim_space r \<noteq> [] then Some r else None)) else ret ()"
  let ?s' = "snd (?w x s)"
  have run: "create_purge_tombstones (x # keys) n r s = create_purge_tombstones keys n r ?s'"
    and ok: "fst (?w x s) = Inr ()"
    using Cons.prems(1)
    by (auto simp: create_purge_tombstones_def seqR_def bindR_def ret_def split: prod.splits sum.splits if_splits)
  show ?case
  proof (cases "k = x")
    case True
    with ok Cons.prems(3) have "buried ?s' k"
      using sql_ok [of "insert_tombstone x n (if trim_space r \<noteq> [] then Some r else None)" s "()"]
      by auto
    with grow_create [of keys n r] show ?thesis
      unfolding run moves_def tombs_grow_def by blast
  next
    case False
    with Cons.prems Cons.IH [of ?s'] show ?thesis by (simp only: run) simp
  qed
qed

section \<open>Erasing a name\<close>

lemma ilike_literal:
  "92 \<notin> set name \<Longrightarrow> ilike ci (name @ [37]) (name @ v)"
proof (induction name)
  case Nil
  have "ilike ci [] (drop (length v) v)" by simp
  then have "\<exists>k \<in> set [0 ..< Suc (length v)]. ilike ci [] (drop k v)"
    by (intro bexI [of _ "length v"]) simp_all
  then show ?case by (simp add: list_ex_iff)
next
  case (Cons p name)
  then have ih: "ilike ci (name @ [37]) (name @ v)" by simp
  show ?case
  proof (cases "p = 37")
    case True
    have "ilike ci (name @ [37]) (drop 1 (p # name @ v))" using ih by simp
    then have "\<exists>k \<in> set [0 ..< Suc (length (p # name @ v))]. ilike ci (name @ [37]) (drop k (p # name @ v))"
      by (rule bexI) (simp only: set_upt atLeastLessThan_iff list.size, simp)
    with True show ?thesis by (simp add: list_ex_iff)
  next
    case False
    with ih Cons.prems show ?thesis by simp
  qed
qed

lemma ilike_contains:
  assumes "contains s name" and "92 \<notin> set name"
  shows "ilike ci ([37] @ name @ [37]) s"
proof -
  obtain u v where s: "s = u @ name @ v" using assms(1) by (auto simp: contains_iff)
  have "ilike ci (name @ [37]) (drop (length u) s)" using ilike_literal [OF assms(2)] s by simp
  then have "\<exists>k \<in> set [0 ..< Suc (length s)]. ilike ci (name @ [37]) (drop k s)"
    by (intro bexI [of _ "length u"]) (simp_all add: s)
  then show ?thesis by (simp add: list_ex_iff)
qed

lemma faults_self: "faults s = fs \<Longrightarrow> f (s\<lparr>faults := fs\<rparr>) = f s"
  by (rule arg_cong [of _ _ f]) simp

lemma sql_delete_ok:
  assumes "sql_delete cnt f s = (Inr c, t)"
  shows "\<exists>fs. t = f (s\<lparr>faults := fs\<rparr>) \<and> c = cnt (s\<lparr>faults := fs\<rparr>)"
proof (cases "faults s")
  case Nil
  with assms have "t = f s" "c = cnt s" by (simp_all add: sql_delete_def db_call_def)
  then show ?thesis
    using faults_self [OF Nil, of f] faults_self [OF Nil, of cnt] by metis
next
  case (Cons f fs)
  with assms show ?thesis
    by (intro exI [of _ fs]) (cases f; simp add: sql_delete_def db_call_def)
qed

lemma delete_erases:
  assumes "delete_purged_subject_name up ci txt raw s = (Inr n, t)" and "trim_space raw \<noteq> []"
  shows "(\<forall>x \<in> set (snapshots t). \<not> same_text up (sn_nome x) (trim_space raw)) \<and>
         (\<forall>x \<in> set (aliases t). \<not> same_text up (al_alias x) (trim_space raw)) \<and>
         (92 \<notin> set (trim_space raw) \<longrightarrow> (\<forall>x \<in> set (reviews t). \<not> contains (txt (rv_payload x)) (trim_space raw))) \<and>
         graph t = graph s \<and> tombs t = tombs s"
  using assms ilike_contains [of _ "trim_space raw" ci]
  by (auto simp: delete_purged_subject_name_def Let_def bindR_Inr ret_def dest!: sql_delete_ok)

section \<open>Properties\<close>

text \<open>Two names that \<open>matching.NamesMatch\<close> considers the same share one tombstone key, and so do
  a name and its normal form: nothing the matcher would link escapes the purge of that name.\<close>

theorem matching_names_share_tombstone:
  assumes "names_match a b"
  shows "tombstone_key_name a = tombstone_key_name b"
  using assms tombstone_key_normalize [of a] tombstone_key_normalize [of b]
  by (simp add: names_match_def)

theorem matching_names_share_tombstone_witness:
  "tombstone_key_name [74, 111, 115, 233] = tombstone_key_name (lit ''  JOSE '')"
proof (rule matching_names_share_tombstone)
  have "normalize_name [74, 111, 115, 233] = lit ''JOSE''" "normalize_name (lit ''  JOSE '') = lit ''JOSE''"
    by code_simp+
  then show "names_match [74, 111, 115, 233] (lit ''  JOSE '')" by (simp add: names_match_def)
qed

text \<open>The interchangeable suffixes share a key whatever the name in front of them.\<close>

theorem suffix_shares_tombstone:
  "tombstone_key_name (n @ lit '' JUNIOR'') = tombstone_key_name (n @ lit '' JR.'') \<and>
   tombstone_key_name (n @ lit '' Fo.'') = tombstone_key_name (n @ lit '' FILHO'')"
proof -
  let ?g = "punct_rune \<circ> norm_rune"
  have s: "is_space (?g 32)" by (simp add: is_space_punct)
  have split: "tombstone_key_name (n @ 32 # w) = lit ''name:'' @ str_join [32]
      (List.map canon_suffix (str_fields (List.map ?g n)) @ List.map canon_suffix (str_fields (List.map ?g w)))" for w
    using fields_append_space [OF s, of "List.map ?g n" "List.map ?g w"]
    by (simp add: tombstone_key_words)
  have l: "lit '' JUNIOR'' = 32 # lit ''JUNIOR''" "lit '' JR.'' = 32 # lit ''JR.''"
    "lit '' Fo.'' = 32 # lit ''Fo.''" "lit '' FILHO'' = 32 # lit ''FILHO''" by (simp_all add: lit_def)
  have "List.map canon_suffix (str_fields (List.map ?g (lit ''JUNIOR''))) = [lit ''JR'']"
    "List.map canon_suffix (str_fields (List.map ?g (lit ''JR.''))) = [lit ''JR'']"
    "List.map canon_suffix (str_fields (List.map ?g (lit ''Fo.''))) = [lit ''FILHO'']"
    "List.map canon_suffix (str_fields (List.map ?g (lit ''FILHO''))) = [lit ''FILHO'']"
    by code_simp+
  then show ?thesis by (simp add: l split)
qed

text \<open>A purge is final. Once the tombstones of a node were written without an error, no run of
  any program that only adds tombstones brings a state in which the check clears one of these keys,
  at whatever point database calls fail.\<close>

theorem tombstones_are_final:
  assumes "fst (create_purge_tombstones keys n r s) = Inr ()"
    and "moves tombs_grow p" and "k \<in> set keys" "usable_key k"
  shows "fst (is_subject_purged [k] (snd (p (snd (create_purge_tombstones keys n r s))))) \<noteq> Inr False"
proof -
  let ?t = "snd (create_purge_tombstones keys n r s)"
  have "buried ?t k" using create_buries [OF assms(1,3,4)] .
  with movesD [OF assms(2), of ?t] have "buried (snd (p ?t)) k" by (simp add: tombs_grow_def)
  then show ?thesis by (intro tombstones.subject.never_cleared) (simp add: assms(4))
qed

theorem tombstones_are_final_witness:
  "fst (is_subject_purged [lit ''cpf:12345678901'']
     (snd (create_purge_tombstones [lit ''cpf:12345678901''] (lit ''p1'') [] (empty_world\<lparr>faults := []\<rparr>)))) \<noteq> Inr False"
proof -
  let ?s = "empty_world\<lparr>faults := []\<rparr>"
  have u: "usable_key (lit ''cpf:12345678901'')" by code_simp
  have ok: "fst (create_purge_tombstones [lit ''cpf:12345678901''] (lit ''p1'') [] ?s) = Inr ()"
    using u by (simp add: create_purge_tombstones_def prog_simps sql_def db_call_def)
  have "moves tombs_grow (ret ())" by (rule tombs_grow.ret)
  from tombstones_are_final [OF ok this _ u] show ?thesis by (simp add: ret_def)
qed

text \<open>An erasure that reports success left the name nowhere: no party snapshot and no pending
  alias is equal to it up to case and surrounding blanks, and no review payload contains it, as
  long as the name holds no backslash, \<^verbatim>\<open>ILIKE\<close>'s escape character.\<close>

theorem erasure_is_complete:
  assumes "delete_purged_subject_name up ci txt raw s = (Inr n, t)"
    and "trim_space raw \<noteq> []" and "92 \<notin> set (trim_space raw)"
  shows "(\<forall>x \<in> set (snapshots t). \<not> same_text up (sn_nome x) (trim_space raw)) \<and>
         (\<forall>x \<in> set (aliases t). \<not> same_text up (al_alias x) (trim_space raw)) \<and>
         (\<forall>x \<in> set (reviews t). \<not> contains (txt (rv_payload x)) (trim_space raw)) \<and>
         graph t = graph s \<and> tombs t = tombs s"
  using delete_erases [OF assms(1,2)] assms(3) by blast

theorem erasure_is_complete_witness:
  "let s = empty_world\<lparr>snapshots := [\<lparr>sn_case = [], sn_key = [], sn_nome = lit ''ANA '', sn_polo = lit ''P''\<rparr>]\<rparr>;
       (r, t) = delete_purged_subject_name (\<lambda>x. x) (\<lambda>r. r) (\<lambda>p. []) (lit ''ANA'') s
   in r = Inr 1 \<and> list_all (\<lambda>x. \<not> same_text (\<lambda>x. x) (sn_nome x) (lit ''ANA'')) (snapshots t)"
proof -
  let ?s = "empty_world\<lparr>snapshots := [\<lparr>sn_case = [], sn_key = [], sn_nome = lit ''ANA '', sn_polo = lit ''P''\<rparr>]\<rparr>"
  let ?d = "delete_purged_subject_name (\<lambda>x. x) (\<lambda>r. r) (\<lambda>p. []) (lit ''ANA'') ?s"
  have n: "trim_space (lit ''ANA'') = lit ''ANA''" "lit ''ANA'' \<noteq> []" "92 \<notin> set (lit ''ANA'')"
    by code_simp+
  have b: "same_text (\<lambda>x. x) (lit ''ANA '') (lit ''ANA'')" by code_simp
  have d: "\<exists>t. ?d = (Inr 1, t)"
    by (simp add: delete_purged_subject_name_def n b Let_def sql_delete_def db_call_def empty_world_def
        bindR_def ret_def)
  then obtain t where d: "?d = (Inr 1, t)" by blast
  with erasure_is_complete [OF d] n show ?thesis by (simp add: list_all_iff)
qed

end
