(* ===== verification/Cases.thy ===== *)
theory Cases
  imports Tombstone Publish
begin

text \<open>
  The cases the program watches: the table \<^verbatim>\<open>watcher_tracking\<close> (\<^verbatim>\<open>backend/db/psql/watcher.go\<close>, the case
  and snapshot tables of \<^verbatim>\<open>backend/db/psql/djen.go\<close>) and the LegalProceeding nodes
  (\<^verbatim>\<open>backend/db/memgraph/datajud_writer.go\<close>), with the orders the case workers keep.
\<close>

section \<open>The watch list\<close>

definition day :: int where "day = 24 * 60 * 60"

text \<open>\<^verbatim>\<open>IS NULL OR x < now() - interval 'n days'\<close>.\<close>

definition stale :: "int \<Rightarrow> int \<Rightarrow> int option \<Rightarrow> bool" where
  "stale now n x = (case x of None \<Rightarrow> True | Some t \<Rightarrow> t < now - n * day)"

definition due_watcher :: "int \<Rightarrow> watch \<Rightarrow> bool" where
  "due_watcher now w \<longleftrightarrow>
     wt_status w = ''active'' \<or> (wt_status w = ''concluded'' \<and> stale now 7 (wt_polled w))"

definition list_watcher_cases_for_poll :: "('z world_scheme, watch list) prog" where
  "list_watcher_cases_for_poll = sql_read (\<lambda>s. filter (due_watcher (wall s)) (watches s))"

definition due_djen :: "int \<Rightarrow> watch \<Rightarrow> bool" where
  "due_djen now w \<longleftrightarrow>
     (wt_status w = ''active'' \<and> stale now 1 (wt_djen_polled w)) \<or>
     (wt_status w = ''concluded'' \<and> stale now 7 (wt_djen_polled w))"

definition list_djen_cases_for_poll :: "('z world_scheme, watch list) prog" where
  "list_djen_cases_for_poll = sql_read (\<lambda>s. filter (due_djen (wall s)) (watches s))"

definition update_watch :: "gostr \<Rightarrow> (watch \<Rightarrow> watch) \<Rightarrow> ('z world_scheme, unit) prog" where
  "update_watch c f =
     sql (\<lambda>s. s\<lparr>watches := List.map (\<lambda>w. if wt_case w = c then f w else w) (watches s)\<rparr>)"

definition update_watcher_tracking_poll ::
  "gostr \<Rightarrow> gostr option \<Rightarrow> string \<Rightarrow> int \<Rightarrow> ('z world_scheme, unit) prog" where
  "update_watcher_tracking_poll c movement status polled_at =
     update_watch c (\<lambda>w. w\<lparr>wt_movement := movement, wt_status := status, wt_polled := Some polled_at\<rparr>)"

definition update_djen_polled_at :: "gostr \<Rightarrow> int \<Rightarrow> ('z world_scheme, unit) prog" where
  "update_djen_polled_at c polled_at = update_watch c (\<lambda>w. w\<lparr>wt_djen_polled := Some polled_at\<rparr>)"

definition is_watcher_case_tracked :: "gostr \<Rightarrow> ('z world_scheme, bool) prog" where
  "is_watcher_case_tracked c = sql_read (\<lambda>s. \<exists>w \<in> set (watches s). wt_case w = c)"

definition upsert_watcher_case ::
  "gostr \<Rightarrow> gostr \<Rightarrow> gostr \<Rightarrow> gostr \<Rightarrow> string \<Rightarrow> ('z world_scheme, unit) prog" where
  "upsert_watcher_case c endpoint scandal proceeding added_by =
     sql (\<lambda>s. if \<exists>w \<in> set (watches s). wt_case w = c then s
       else s\<lparr>watches := watches s @
         [\<lparr>wt_case = c, wt_endpoint = endpoint, wt_scandal = scandal, wt_proceeding = proceeding,
           wt_movement = None, wt_status = ''active'', wt_added_by = added_by, wt_polled = None,
           wt_djen_polled = None\<rparr>]\<rparr>)"

definition is_case_tracked :: "gostr \<Rightarrow> ('z world_scheme, bool) prog" where
  "is_case_tracked c = sql_read (\<lambda>s. \<exists>w \<in> set (watches s). digits_only (wt_case w) = c)"

section \<open>Party snapshots and reviews\<close>

definition list_djen_snapshot_keys :: "gostr \<Rightarrow> ('z world_scheme, gostr list) prog" where
  "list_djen_snapshot_keys c =
     sql_read (\<lambda>s. List.map sn_key (filter (\<lambda>x. sn_case x = c) (snapshots s)))"

definition insert_djen_snapshot_party ::
  "gostr \<Rightarrow> gostr \<Rightarrow> gostr \<Rightarrow> gostr \<Rightarrow> ('z world_scheme, unit) prog" where
  "insert_djen_snapshot_party c k nome polo =
     sql (\<lambda>s. if \<exists>x \<in> set (snapshots s). sn_case x = c \<and> sn_key x = k then s
       else s\<lparr>snapshots := snapshots s @ [\<lparr>sn_case = c, sn_key = k, sn_nome = nome, sn_polo = polo\<rparr>]\<rparr>)"

definition json_text :: "props \<Rightarrow> string \<Rightarrow> gostr option" where
  "json_text p k = (case p k of Some (PStr s) \<Rightarrow> Some s | _ \<Rightarrow> None)"

definition is_case_candidate :: "gostr \<Rightarrow> review \<Rightarrow> bool" where
  "is_case_candidate c r \<longleftrightarrow>
     rv_type r = ''djen_case_candidate'' \<and> map_option digits_only (json_text (rv_payload r) ''case_number'') = Some c"

definition has_djen_case_candidate :: "gostr \<Rightarrow> ('z world_scheme, bool) prog" where
  "has_djen_case_candidate c = sql_read (\<lambda>s. \<exists>r \<in> set (reviews s). is_case_candidate c r)"

definition is_party_match :: "gostr \<Rightarrow> gostr \<Rightarrow> review \<Rightarrow> bool" where
  "is_party_match pid lp r \<longleftrightarrow>
     rv_type r = ''djen_party_match'' \<and>
     json_text (rv_payload r) ''politician_id'' = Some pid \<and>
     json_text (rv_payload r) ''proceeding_id'' = Some lp"

definition has_party_match_review :: "gostr \<Rightarrow> gostr \<Rightarrow> ('z world_scheme, bool) prog" where
  "has_party_match_review pid lp = sql_read (\<lambda>s. \<exists>r \<in> set (reviews s). is_party_match pid lp r)"

section \<open>Asking before filing\<close>

text \<open>
  Reviews of one kind are told apart by a key. A worker that asks whether a review for the key exists,
  and files one only if not, never files a second.
\<close>

definition is_once :: "('k \<Rightarrow> review \<Rightarrow> bool) \<Rightarrow> 'z world_scheme \<Rightarrow> bool" where
  "is_once is_for s \<longleftrightarrow> sorted_wrt (\<lambda>a b. \<not> (\<exists>k. is_for k a \<and> is_for k b)) (reviews s)"

locale review_key =
  fixes is_for :: "'k \<Rightarrow> review \<Rightarrow> bool"
begin

definition ask :: "'k \<Rightarrow> ('z world_scheme, bool) prog" where
  "ask k = sql_read (\<lambda>s. \<exists>r \<in> set (reviews s). is_for k r)"

definition stays_once :: "'z world_scheme \<Rightarrow> 'z world_scheme \<Rightarrow> bool" where
  "stays_once s t \<longleftrightarrow> (is_once is_for s \<longrightarrow> is_once is_for t)"

lemma order: "world_order stays_once"
  by unfold_locales (auto simp: stays_once_def is_once_def)

lemma same_reviews: "reviews s = reviews t \<Longrightarrow> stays_once s t"
  by (simp add: stays_once_def is_once_def)

lemma guarded: "guard (ask k) (\<lambda>s. \<exists>r \<in> set (reviews s). is_for k r)"
proof unfold_locales
  fix s :: "'a world_scheme"
  show "\<not> (\<exists>r \<in> set (reviews s). is_for k r)" if "fst (ask k s) = Inr False"
    using that sql_read_cases [of "\<lambda>s. \<exists>r \<in> set (reviews s). is_for k r" s] by (auto simp: ask_def)
  show "(\<exists>r \<in> set (reviews (snd (ask k s))). is_for k r) = (\<exists>r \<in> set (reviews s). is_for k r)"
    using sql_read_cases [of "\<lambda>s. \<exists>r \<in> set (reviews s). is_for k r" s] by (auto simp: ask_def)
qed

lemma filing:
  assumes "\<not> (\<exists>r \<in> set (reviews s). is_for k r)"
    and "\<And>k' i w st b. is_for k' \<lparr>rv_id = i, rv_type = ty, rv_payload = pl, rv_worker = w, rv_status = st, rv_by = b\<rparr> \<Longrightarrow> k' = k"
  shows "stays_once s (snd (create_pending_review ty pl wk s))"
proof -
  have "stays_once s (s\<lparr>faults := fs, reviews := reviews s @
      [\<lparr>rv_id = i, rv_type = ty, rv_payload = pl, rv_worker = wk, rv_status = ''pending'', rv_by = None\<rparr>],
      issued := j\<rparr>)" for fs i j
    using assms by (auto simp: stays_once_def is_once_def sorted_wrt_append)
  note new = this this [of _ _ "faults s"]
  have lost: "stays_once s (s\<lparr>faults := fs\<rparr>)" for fs
    by (rule same_reviews) simp
  show ?thesis
    using new lost
    by (auto simp: create_pending_review_def sql_def db_call_def modR_def split: list.splits fault.splits)
qed

end

interpretation party_match: review_key "\<lambda>(pid, lp). is_party_match pid lp" .

section \<open>Legal proceedings\<close>

record proceeding_upsert =
  pu_case :: gostr
  pu_court :: gostr
  pu_type :: gostr
  pu_class :: gostr
  pu_status :: gostr
  pu_assuntos :: "gostr list"
  pu_filed :: "gostr option"

definition legal_proceeding_id :: "gostr \<Rightarrow> gostr" where
  "legal_proceeding_id c = lit ''lp_'' @ replace_all (replace_all (trim_space c) (lit ''.'') []) (lit ''-'') []"

text \<open>\<^verbatim>\<open>CASE WHEN $x = '' THEN lp.k ELSE $x END\<close>.\<close>

definition unless_empty :: "gostr \<Rightarrow> pval option \<Rightarrow> pval option" where
  "unless_empty x old = (if x = [] then old else Some (PStr x))"

definition proceeding_facts :: "proceeding_upsert \<Rightarrow> node \<Rightarrow> node" where
  "proceeding_facts u n =
     upd_props
       [(''court'', unless_empty (pu_court u) (n_props n ''court'')),
        (''type'', unless_empty (pu_type u) (n_props n ''type'')),
        (''class_name'', unless_empty (pu_class u) (n_props n ''class_name'')),
        (''status'', unless_empty (pu_status u) (n_props n ''status'')),
        (''assuntos'', if pu_assuntos u = [] then n_props n ''assuntos'' else Some (PList (pu_assuntos u))),
        (''date_filed'', case pu_filed u of None \<Rightarrow> n_props n ''date_filed'' | Some d \<Rightarrow> Some (PStr d))] n"

definition merge_proceeding :: "proceeding_upsert \<Rightarrow> graph \<Rightarrow> graph \<times> gostr list" where
  "merge_proceeding u g =
     (case merge_node ''LegalProceeding'' ''case_number'' (PStr (pu_case u))
             [(''id'', Some (PStr (legal_proceeding_id (pu_case u)))), (''status'', Some (PStr (lit ''ongoing'')))]
             (proceeding_facts u) g of
        (g', rows, _) \<Rightarrow> (g', List.map (\<lambda>n. str_prop (n_props n) ''id'') rows))"

definition upsert_legal_proceeding_by_case :: "proceeding_upsert \<Rightarrow> ('z world_scheme, gostr) prog" where
  "upsert_legal_proceeding_by_case u =
     bindR (cypher (merge_proceeding u)) (\<lambda>ids.
       case ids of [] \<Rightarrow> throw (Refused ''upsert legal proceeding returned no rows'') | i # _ \<Rightarrow> ret i)"

definition ensure_investigates_edge :: "gostr \<Rightarrow> gostr \<Rightarrow> ('z world_scheme, unit) prog" where
  "ensure_investigates_edge lp sc =
     cypher (\<lambda>g. (merge_edges
       (node_pairs (match_nodes ''LegalProceeding'' (prop_is ''id'' (PStr lp)) g)
                   (match_nodes ''Scandal'' (prop_is ''id'' (PStr sc)) g)) ''INVESTIGATES'' [] (\<lambda>p. p) g, ()))"

text \<open>The three-valued disposition as the property the graph keeps: absent when it cannot be told.\<close>

definition conviction_prop :: "string \<Rightarrow> pval option" where
  "conviction_prop disposition =
     (if disposition = ''conviction'' then Some (PBool True)
      else if disposition = ''acquittal'' then Some (PBool False) else None)"

definition case_state_props :: "string \<Rightarrow> string \<Rightarrow> bool \<Rightarrow> node \<Rightarrow> node" where
  "case_state_props phase disposition concluded n =
     upd_props
       [(''phase'', if phase \<noteq> [] then Some (PStr (lit phase)) else n_props n ''phase''),
        (''has_conviction'', conviction_prop disposition),
        (''status'', if concluded then Some (PStr (lit ''concluded'')) else n_props n ''status'')] n"

definition update_proceeding_case_state ::
  "gostr \<Rightarrow> string \<Rightarrow> string \<Rightarrow> bool \<Rightarrow> ('z world_scheme, unit) prog" where
  "update_proceeding_case_state lp phase disposition concluded =
     cypher (\<lambda>g. (map_nodes (\<lambda>n. has_label ''LegalProceeding'' n \<and> prop_is ''id'' (PStr lp) n)
       (case_state_props phase disposition concluded) g, ()))"

end
