(* ===== verification/Identity.thy ===== *)
theory Identity
  imports Tombstone
begin

text \<open>
  What a node says about whom it stands for, and the two orders "this step brings back nobody who was
  purged": \<open>no_resurrection\<close> for workers that never rewrite an identity, \<open>no_revival\<close> for workers that
  refresh the name of a node they find.
\<close>

section \<open>Who a node is\<close>

text \<open>
  What a node says about a person or company: its CPF, its CNPJ and its name. A step resurrects
  nobody when every node it leaves either had this identity before or has one no tombstone covers.
\<close>

type_synonym identity = "pval option \<times> pval option \<times> pval option"

definition ident :: "node \<Rightarrow> identity" where
  "ident n = (n_props n ''cpf'', n_props n ''cnpj'', n_props n ''name'')"

definition covers :: "(gostr \<Rightarrow> bool) \<Rightarrow> (gostr \<Rightarrow> gostr) \<Rightarrow> pval option \<Rightarrow> bool" where
  "covers b key v \<longleftrightarrow> (\<exists>x. v = Some (PStr x) \<and> usable_key (key x) \<and> b (key x))"

definition covered :: "(gostr \<Rightarrow> bool) \<Rightarrow> identity \<Rightarrow> bool" where
  "covered b i \<longleftrightarrow>
     (case i of (cpf, cnpj, name) \<Rightarrow>
        covers b tombstone_key_cpf cpf \<or> covers b tombstone_key_cnpj cnpj \<or> covers b tombstone_key_name name)"

definition adds_only :: "(identity \<Rightarrow> bool) \<Rightarrow> graph \<Rightarrow> graph \<Rightarrow> bool" where
  "adds_only ok g h \<longleftrightarrow>
     (\<forall>n \<in> set (g_nodes h). (\<exists>m \<in> set (g_nodes g). n_key m = n_key n \<and> ident m = ident n) \<or> ok (ident n))"

definition no_resurrection :: "'z world_scheme \<Rightarrow> 'z world_scheme \<Rightarrow> bool" where
  "no_resurrection s t \<longleftrightarrow>
     tombs s = tombs t \<and> adds_only (\<lambda>i. \<not> covered (buried s) i) (graph s) (graph t)"

lemma adds_only_refl [simp]: "adds_only ok g g"
  by (auto simp: adds_only_def)

lemma adds_only_trans: "adds_only ok g h \<Longrightarrow> adds_only ok h k \<Longrightarrow> adds_only ok g k"
  unfolding adds_only_def by metis

lemma buried_tombs: "tombs s = tombs t \<Longrightarrow> buried s = buried t"
  by (rule ext) (simp add: buried_def)

interpretation no_resurrection: world_order no_resurrection
proof unfold_locales
  show "no_resurrection s s" for s :: "'z world_scheme"
    by (simp add: no_resurrection_def)
  show "no_resurrection s u" if "no_resurrection s t" "no_resurrection t u" for s t u :: "'z world_scheme"
    using that buried_tombs [of s t] adds_only_trans by (auto simp: no_resurrection_def)
  show "no_resurrection s (s\<lparr>faults := fs\<rparr>)" for s :: "'z world_scheme" and fs
    by (simp add: no_resurrection_def)
qed

lemma no_resurrection_cypher:
  assumes "\<And>g. adds_only (\<lambda>_. False) g (fst (f g))"
  shows "moves no_resurrection (cypher f)"
  using assms by (intro no_resurrection.cypher) (auto simp: no_resurrection_def adds_only_def)

lemma adds_only_nodes: "g_nodes g = g_nodes h \<Longrightarrow> adds_only ok g h"
  by (auto simp: adds_only_def)

lemma adds_only_map:
  assumes "\<And>n. n_key (f n) = n_key n" "\<And>n. ident (f n) = ident n"
  shows "adds_only ok g (map_nodes P f g)"
  using assms unfolding adds_only_def by (fastforce split: if_splits)

lemma adds_only_merge:
  assumes f: "\<And>n. n_key (f n) = n_key n" "\<And>n. ident (f n) = ident n"
    and new: "ok (ident \<lparr>n_key = 0, n_labels = [l], n_props = set_props c (Map.empty(k := Some v))\<rparr>)"
  shows "adds_only ok g (fst (merge_node l k v c f g))"
proof (cases "match_nodes l (prop_is k v) g = []")
  case True
  have "ident (f \<lparr>n_key = g_next g, n_labels = [l], n_props = set_props c (Map.empty(k := Some v))\<rparr>) =
      ident \<lparr>n_key = 0, n_labels = [l], n_props = set_props c (Map.empty(k := Some v))\<rparr>"
    by (simp add: f) (simp add: ident_def)
  with True new show ?thesis
    by (auto simp: merge_node_def Let_def adds_only_def)
next
  case False
  then show ?thesis using adds_only_map [of f, OF f] by (simp add: merge_node_def Let_def)
qed

lemma ident_labels [simp]: "ident (add_label l n) = ident n" "ident (drop_label l n) = ident n"
  by (simp_all add: ident_def)

lemma ident_upd_flag [simp]: "ident (upd_props [(''_sanctions_created'', v)] n) = ident n"
  by (simp add: ident_def upd_props_def)

section \<open>Refreshing a name\<close>

text \<open>
  \<open>n\<close> continues \<open>m\<close>: the same node with the same documents, and with the same name or one no
  tombstone covers.
\<close>

definition continues :: "(gostr \<Rightarrow> bool) \<Rightarrow> node \<Rightarrow> node \<Rightarrow> bool" where
  "continues b m n \<longleftrightarrow>
     n_key m = n_key n \<and> n_props m ''cpf'' = n_props n ''cpf'' \<and> n_props m ''cnpj'' = n_props n ''cnpj'' \<and>
     (n_props m ''name'' = n_props n ''name'' \<or> \<not> covers b tombstone_key_name (n_props n ''name''))"

definition revives_none :: "(gostr \<Rightarrow> bool) \<Rightarrow> graph \<Rightarrow> graph \<Rightarrow> bool" where
  "revives_none b g h \<longleftrightarrow>
     (\<forall>n \<in> set (g_nodes h). (\<exists>m \<in> set (g_nodes g). continues b m n) \<or> \<not> covered b (ident n))"

definition no_revival :: "'z world_scheme \<Rightarrow> 'z world_scheme \<Rightarrow> bool" where
  "no_revival s t \<longleftrightarrow> tombs s = tombs t \<and> revives_none (buried s) (graph s) (graph t)"

lemma continues_refl [simp]: "continues b n n"
  by (simp add: continues_def)

lemma continues_trans: "continues b k m \<Longrightarrow> continues b m n \<Longrightarrow> continues b k n"
  by (auto simp: continues_def)

lemma continues_covered: "continues b m n \<Longrightarrow> covered b (ident n) \<Longrightarrow> covered b (ident m)"
  by (auto simp: continues_def covered_def ident_def)

lemma revives_none_refl [simp]: "revives_none b g g"
  unfolding revives_none_def by (auto intro: continues_refl)

lemma revives_none_trans:
  assumes "revives_none b g h" and "revives_none b h k" shows "revives_none b g k"
  unfolding revives_none_def
proof
  fix n assume n: "n \<in> set (g_nodes k)"
  show "(\<exists>m \<in> set (g_nodes g). continues b m n) \<or> \<not> covered b (ident n)"
  proof (cases "covered b (ident n)")
    case True
    with n assms(2) obtain m where m: "m \<in> set (g_nodes h)" "continues b m n"
      unfolding revives_none_def by blast
    with True continues_covered assms(1) obtain l where "l \<in> set (g_nodes g)" "continues b l m"
      unfolding revives_none_def by blast
    with m continues_trans show ?thesis by blast
  qed simp
qed

interpretation no_revival: world_order no_revival
proof unfold_locales
  show "no_revival s s" for s :: "'z world_scheme" by (simp add: no_revival_def)
  show "no_revival s u" if "no_revival s t" "no_revival t u" for s t u :: "'z world_scheme"
    using that buried_tombs [of s t] revives_none_trans by (auto simp: no_revival_def)
  show "no_revival s (s\<lparr>faults := fs\<rparr>)" for s :: "'z world_scheme" and fs
    by (simp add: no_revival_def)
qed

lemma revives_none_nodes: "g_nodes g = g_nodes h \<Longrightarrow> revives_none b g h"
  unfolding revives_none_def by (auto intro: continues_refl)

lemma no_revival_cypher:
  assumes "\<And>b g. revives_none b g (fst (f g))" shows "moves no_revival (cypher f)"
  using assms by (intro no_revival.cypher) (simp add: no_revival_def)

lemma revives_none_map:
  assumes "\<And>n. continues b n (f n)" shows "revives_none b g (map_nodes P f g)"
  using assms by (auto simp: revives_none_def intro: continues_refl)

lemma revives_none_merge:
  assumes f: "\<And>n. continues b n (f n)"
    and new: "\<not> covered b (ident (f \<lparr>n_key = g_next g, n_labels = [l], n_props = set_props c (Map.empty(k := Some v))\<rparr>))"
  shows "revives_none b g (fst (merge_node l k v c f g))"
proof (cases "match_nodes l (prop_is k v) g = []")
  case True
  with new show ?thesis by (auto simp: merge_node_def Let_def revives_none_def intro: continues_refl)
next
  case False
  then show ?thesis using revives_none_map [of b f, OF f] by (simp add: merge_node_def Let_def)
qed

end
