(* ===== verification/Sanction_Store.thy ===== *)
theory Sanction_Store
  imports Cases Identity
begin

text \<open>
  The statements behind the sanctions sync: \<^verbatim>\<open>backend/db/memgraph/sanctions_writer.go\<close>, the
  retraction sweep of \<^verbatim>\<open>backend/db/memgraph/retraction.go\<close> and the tables of
  \<^verbatim>\<open>backend/db/psql/sanctions.go\<close>. Memgraph's \<^verbatim>\<open>toLower\<close> is the parameter \<open>lw\<close>.
\<close>

section \<open>Writing sanctions\<close>

record sanction_upsert =
  su_registry :: gostr
  su_entry :: gostr
  su_type :: gostr
  su_organ :: gostr
  su_start :: gostr
  su_end :: gostr
  su_process :: gostr
  su_url :: gostr
  su_run :: gostr

record politician_match =
  pm_id :: gostr
  pm_name :: gostr

definition sanction_node_id :: "gostr \<Rightarrow> gostr \<Rightarrow> gostr" where
  "sanction_node_id registry entry = to_upper (trim_space registry) @ lit '':'' @ trim_space entry"

definition nil_if_empty :: "gostr \<Rightarrow> pval option" where
  "nil_if_empty s = (if trim_space s = [] then None else Some (PStr s))"

text \<open>The \<^verbatim>\<open>SET\<close> and \<^verbatim>\<open>REMOVE\<close> clauses of \<^verbatim>\<open>UpsertSanction\<close> on the merged node.\<close>

definition publish_sanction :: "sanction_upsert \<Rightarrow> gostr \<Rightarrow> node \<Rightarrow> node" where
  "publish_sanction u now n =
     (let seen = (if su_run u = [] then n_props n ''last_seen_run'' else Some (PStr (su_run u)));
          seen_at = (if su_run u = [] then n_props n ''last_seen_at'' else Some (PStr now))
      in drop_label ''RetractedSanction'' (upd_props
          [(''registry'', Some (PStr (to_upper (trim_space (su_registry u))))),
           (''search_text'', Some (PStr (fold_query (su_registry u @ lit '' '' @ su_type u @ lit '' '' @
              su_organ u @ lit '' '' @ su_process u)))),
           (''sanction_type'', Some (PStr (su_type u))),
           (''organ'', Some (PStr (su_organ u))),
           (''date_start'', nil_if_empty (su_start u)),
           (''date_end'', nil_if_empty (su_end u)),
           (''process_ref'', Some (PStr (su_process u))),
           (''source_url'', Some (PStr (su_url u))),
           (''last_seen_run'', seen),
           (''last_seen_at'', seen_at),
           (''retracted_at'', None),
           (''retraction_reason'', None)]
          (add_label ''Sanction'' n)))"

definition upsert_sanction :: "sanction_upsert \<Rightarrow> ('z world_scheme, gostr) prog" where
  "upsert_sanction u =
     (if trim_space (su_url u) = [] then throw (Refused ''missing source_url'')
      else bindR (getR clock) (\<lambda>now.
        bindR (cypher (\<lambda>g.
          case merge_node ''SanctionRecord'' ''id'' (PStr (sanction_node_id (su_registry u) (su_entry u))) []
                 (publish_sanction u now) g of
            (g', rows, _) \<Rightarrow> (g', List.map (\<lambda>n. str_prop (n_props n) ''id'') rows))) (\<lambda>ids.
        case ids of [] \<Rightarrow> throw (Refused ''upsert sanction returned no rows'') | i # _ \<Rightarrow> ret i)))"

definition sanctioned_pairs :: "string \<Rightarrow> gostr \<Rightarrow> gostr \<Rightarrow> graph \<Rightarrow> (nat \<times> nat) list" where
  "sanctioned_pairs nt nid sid g =
     node_pairs (match_nodes nt (prop_is ''id'' (PStr nid)) g)
                (match_nodes ''Sanction'' (prop_is ''id'' (PStr sid)) g)"

definition ensure_sanctioned_in_edge ::
  "string \<Rightarrow> gostr \<Rightarrow> gostr \<Rightarrow> rat \<Rightarrow> string list \<Rightarrow> ('z world_scheme, unit) prog" where
  "ensure_sanctioned_in_edge nt nid sid conf signals =
     (if nt \<notin> {''Politician'', ''Person'', ''Organization''} then throw (Refused ''invalid node type'')
      else cypher (\<lambda>g. (merge_edges (sanctioned_pairs nt nid sid g) ''SANCTIONED_IN'' []
        (set_props [(''confidence'', Some (PNum conf)),
                    (''confidence_signals'', Some (PList (List.map lit signals)))]) g, ())))"

section \<open>Subjects\<close>

text \<open>
  \<^verbatim>\<open>MERGE ... ON CREATE SET ..., n._sanctions_created = true WITH n, coalesce(...) AS created REMOVE
  n._sanctions_created RETURN n.id, created\<close>: the rows are read before the flag is removed.
\<close>

definition merge_flagged ::
  "string \<Rightarrow> string \<Rightarrow> gostr \<Rightarrow> (string \<times> pval option) list \<Rightarrow> graph \<Rightarrow> graph \<times> (gostr \<times> bool) list" where
  "merge_flagged l k v c g =
     (case merge_node l k (PStr v) (c @ [(''_sanctions_created'', Some (PBool True))]) (\<lambda>n. n) g of
        (g', rows, _) \<Rightarrow>
          (map_nodes (\<lambda>n. has_label l n \<and> prop_is k (PStr v) n) (upd_props [(''_sanctions_created'', None)]) g',
           List.map (\<lambda>n. (str_prop (n_props n) ''id'', bool_prop (n_props n) ''_sanctions_created'')) rows))"

definition first_row :: "'a list \<Rightarrow> ('z world_scheme, 'a) prog" where
  "first_row rows = (case rows of [] \<Rightarrow> throw (Refused ''returned no rows'') | r # _ \<Rightarrow> ret r)"

definition ensure_organization_by_cnpj :: "gostr \<Rightarrow> ('z world_scheme, gostr \<times> bool) prog" where
  "ensure_organization_by_cnpj cnpj =
     (let digits = digits_only cnpj in
      if length digits \<noteq> 14 then throw (Refused ''invalid cnpj'')
      else bindR (cypher (merge_flagged ''Organization'' ''cnpj'' digits
             [(''id'', Some (PStr (lit ''org_'' @ digits)))])) first_row)"

definition upsert_person_by_cpf :: "gostr \<Rightarrow> gostr \<Rightarrow> ('z world_scheme, gostr \<times> bool) prog" where
  "upsert_person_by_cpf name cpf =
     (let digits = digits_only cpf in
      if length digits \<noteq> 11 then throw (Refused ''invalid cpf'')
      else bindR (cypher (merge_flagged ''Person'' ''cpf'' digits
             [(''id'', Some (PStr (lit ''person_'' @ digits))),
              (''name'', Some (PStr (trim_space name))),
              (''search_name'', Some (PStr (fold_query name)))])) first_row)"

text \<open>The id of the first row, when there is one and its id is a string.\<close>

definition first_id :: "node list \<Rightarrow> gostr option" where
  "first_id rows = (case rows of [] \<Rightarrow> None | n # _ \<Rightarrow> str_or_null n ''id'')"

definition find_subject_by_cpf :: "gostr \<Rightarrow> ('z world_scheme, string \<times> gostr) prog" where
  "find_subject_by_cpf cpf =
     (let digits = digits_only cpf in
      if length digits \<noteq> 11 then ret ([], [])
      else bindR (cypher_read_unchecked None (\<lambda>g. first_id (match_nodes ''Politician'' (prop_is ''cpf'' (PStr digits)) g))) (\<lambda>a.
        case a of Some i \<Rightarrow> ret (''Politician'', i)
        | None \<Rightarrow> bindR (cypher_read_unchecked None (\<lambda>g. first_id (match_nodes ''Person'' (prop_is ''cpf'' (PStr digits)) g))) (\<lambda>b.
            case b of Some i \<Rightarrow> ret (''Person'', i) | None \<Rightarrow> ret ([], []))))"

definition masked_matches :: "gostr \<Rightarrow> graph \<Rightarrow> politician_match list" where
  "masked_matches middle g =
     filter (\<lambda>m. pm_id m \<noteq> [])
       (List.map (\<lambda>n. \<lparr>pm_id = str_prop (n_props n) ''id'', pm_name = str_prop (n_props n) ''name''\<rparr>)
         (match_nodes ''Politician''
           (\<lambda>n. case str_or_null n ''cpf'' of None \<Rightarrow> False
                | Some c \<Rightarrow> length c = 11 \<and> slice 3 9 c = middle) g))"

definition match_politicians_by_masked_cpf :: "gostr \<Rightarrow> ('z world_scheme, politician_match list) prog" where
  "match_politicians_by_masked_cpf middle6 =
     (let middle = digits_only middle6 in
      if length middle \<noteq> 6 then ret [] else cypher_read (masked_matches middle))"

definition match_politician_by_name :: "(gostr \<Rightarrow> gostr) \<Rightarrow> gostr \<Rightarrow> ('z world_scheme, gostr) prog" where
  "match_politician_by_name lw raw =
     (let name = trim_space raw in
      if name = [] then ret []
      else bindR (cypher_read_unchecked None (\<lambda>g. first_id (match_nodes ''Politician''
             (\<lambda>n. case str_or_null n ''name'' of None \<Rightarrow> False | Some x \<Rightarrow> lw x = lw name) g))) (\<lambda>a.
        case a of Some i \<Rightarrow> ret i | None \<Rightarrow> ret []))"

section \<open>The retraction sweep\<close>

record retraction_guard =
  max_fraction :: rat
  min_records :: int

definition default_retraction_guard :: retraction_guard where
  "default_retraction_guard = \<lparr>max_fraction = fl (5 / 100), min_records = 100\<rparr>"

record sweep_result =
  sw_source :: gostr
  sw_held :: nat
  sw_seen :: nat
  sw_missing :: nat
  sw_retracted :: nat
  sw_refused :: bool

definition of_registry :: "gostr \<Rightarrow> node \<Rightarrow> bool" where
  "of_registry registry n \<longleftrightarrow> prop_is ''registry'' (PStr registry) n"

text \<open>Cypher comparisons with \<^verbatim>\<open>null\<close> are \<^verbatim>\<open>null\<close>: an unstamped record is neither seen nor unseen.\<close>

definition seen_by :: "gostr \<Rightarrow> node \<Rightarrow> bool" where
  "seen_by run n \<longleftrightarrow> n_props n ''last_seen_run'' = Some (PStr run)"

definition unseen_by :: "gostr \<Rightarrow> node \<Rightarrow> bool" where
  "unseen_by run n \<longleftrightarrow> (case n_props n ''last_seen_run'' of None \<Rightarrow> False | Some v \<Rightarrow> v \<noteq> PStr run)"

definition sweep_counts :: "gostr \<Rightarrow> gostr \<Rightarrow> graph \<Rightarrow> nat \<times> nat \<times> nat" where
  "sweep_counts registry run g =
     (let held = match_nodes ''SanctionRecord'' (of_registry registry) g
      in (length held, length (filter (seen_by run) held),
          length (filter (\<lambda>n. has_label ''Sanction'' n \<and> unseen_by run n) held)))"

definition retract_node :: "gostr \<Rightarrow> node \<Rightarrow> node" where
  "retract_node now n =
     upd_props [(''retracted_at'', Some (PStr now)), (''retraction_reason'', Some (PStr (lit ''absent_from_source'')))]
       (add_label ''RetractedSanction'' (drop_label ''Sanction'' n))"

definition to_retract :: "gostr \<Rightarrow> gostr \<Rightarrow> node \<Rightarrow> bool" where
  "to_retract registry run n \<longleftrightarrow> has_label ''Sanction'' n \<and> of_registry registry n \<and> unseen_by run n"

definition retract_unseen :: "gostr \<Rightarrow> gostr \<Rightarrow> gostr \<Rightarrow> graph \<Rightarrow> graph \<times> nat" where
  "retract_unseen registry run now g =
     (map_nodes (to_retract registry run) (retract_node now) g,
      length (filter (to_retract registry run) (g_nodes g)))"

definition guard_refuses :: "retraction_guard \<Rightarrow> nat \<Rightarrow> nat \<Rightarrow> bool" where
  "guard_refuses gd held missing \<longleftrightarrow>
     int held < min_records gd \<or> max_fraction gd < fl_div (of_nat missing) (of_nat held)"

definition sweep_retracted_sanctions ::
  "gostr \<Rightarrow> gostr \<Rightarrow> retraction_guard \<Rightarrow> ('z world_scheme, sweep_result) prog" where
  "sweep_retracted_sanctions registry run gd =
     (if registry = [] \<or> run = [] then throw (Refused ''sweep needs a registry and a run id'')
      else bindR (cypher_read (sweep_counts registry run)) (\<lambda>(held, seen, missing).
        let res = \<lparr>sw_source = registry, sw_held = held, sw_seen = seen, sw_missing = missing,
                   sw_retracted = 0, sw_refused = False\<rparr> in
        if guard_refuses gd held missing then ret (res\<lparr>sw_refused := True\<rparr>)
        else bindR (getR clock) (\<lambda>now.
          bindR (cypher (retract_unseen registry run now)) (\<lambda>n.
          ret (res\<lparr>sw_retracted := n\<rparr>)))))"

section \<open>Postgres tables of the sync\<close>

definition is_sanction_review :: "gostr \<Rightarrow> gostr \<Rightarrow> review \<Rightarrow> bool" where
  "is_sanction_review sid pid r \<longleftrightarrow>
     rv_type r = ''possible_politician_sanction'' \<and>
     json_text (rv_payload r) ''sanction_id'' = Some sid \<and>
     json_text (rv_payload r) ''politician_id'' = Some pid"

definition has_sanction_review :: "gostr \<Rightarrow> gostr \<Rightarrow> ('z world_scheme, bool) prog" where
  "has_sanction_review sid pid = sql_read (\<lambda>s. \<exists>r \<in> set (reviews s). is_sanction_review sid pid r)"

definition get_sanction_import_state :: "gostr \<Rightarrow> ('z world_scheme, import_state option) prog" where
  "get_sanction_import_state registry = sql_read (\<lambda>s. find (\<lambda>r. im_registry r = registry) (import_states s))"

definition upsert_sanction_import_state ::
  "gostr \<Rightarrow> int \<Rightarrow> int \<Rightarrow> gostr \<Rightarrow> ('z world_scheme, unit) prog" where
  "upsert_sanction_import_state registry last_page seen synced =
     sql (\<lambda>s. if \<exists>r \<in> set (import_states s). im_registry r = registry
       then s\<lparr>import_states := List.map (\<lambda>r. if im_registry r = registry
              then r\<lparr>im_last_page := last_page, im_seen := seen, im_synced := synced\<rparr> else r) (import_states s)\<rparr>
       else s\<lparr>import_states := import_states s @
              [\<lparr>im_registry = registry, im_last_page = last_page, im_seen = seen, im_synced = synced\<rparr>]\<rparr>)"

text \<open>Asking for a review before filing one is a guard.\<close>

interpretation review_guard:
  guard "has_sanction_review sid pid" "\<lambda>s. \<exists>r \<in> set (reviews s). is_sanction_review sid pid r" for sid pid
proof unfold_locales
  show "\<not> (\<exists>r \<in> set (reviews s). is_sanction_review sid pid r)"
    if "fst (has_sanction_review sid pid s) = Inr False" for s :: "'z world_scheme"
    using that sql_read_cases [of "\<lambda>s. \<exists>r \<in> set (reviews s). is_sanction_review sid pid r" s]
    by (auto simp: has_sanction_review_def)
  show "(\<exists>r \<in> set (reviews (snd (has_sanction_review sid pid s))). is_sanction_review sid pid r) =
      (\<exists>r \<in> set (reviews s). is_sanction_review sid pid r)" for s :: "'z world_scheme"
    using sql_read_cases [of "\<lambda>s. \<exists>r \<in> set (reviews s). is_sanction_review sid pid r" s]
    by (auto simp: has_sanction_review_def)
qed

section \<open>What the statements keep of a node\<close>

lemma ident_publish [simp]: "ident (publish_sanction u now n) = ident n"
  by (simp add: publish_sanction_def Let_def) (simp add: ident_def upd_props_other)

lemma ident_retract [simp]: "ident (retract_node now n) = ident n"
  by (simp add: retract_node_def ident_def upd_props_other)

lemma key_publish [simp]: "n_key (publish_sanction u now n) = n_key n" "n_key (retract_node now n) = n_key n"
  by (simp_all add: publish_sanction_def retract_node_def Let_def)

section \<open>How strong an edge is\<close>

definition edge_conf :: "edge \<Rightarrow> pval option" where
  "edge_conf e = e_props e ''confidence''"

definition document_conf :: "pval option \<Rightarrow> bool" where
  "document_conf v \<longleftrightarrow> (\<exists>c. v = Some (PNum c) \<and> auto_link_threshold \<le> c)"

definition document_edges :: "graph \<Rightarrow> graph \<Rightarrow> bool" where
  "document_edges g h \<longleftrightarrow>
     (\<forall>e \<in> set (g_edges h). e_type e = ''SANCTIONED_IN'' \<longrightarrow>
        (\<exists>e' \<in> set (g_edges g). triple e' = triple e \<and> edge_conf e' = edge_conf e) \<or> document_conf (edge_conf e))"

definition document_grade :: "'z world_scheme \<Rightarrow> 'z world_scheme \<Rightarrow> bool" where
  "document_grade s t \<longleftrightarrow> document_edges (graph s) (graph t)"

lemma document_edges_refl [simp]: "document_edges g g"
  by (auto simp: document_edges_def)

lemma triple_type: "triple e = triple e' \<Longrightarrow> e_type e = e_type e'"
  by (simp add: triple_def)

lemma document_edges_trans:
  assumes "document_edges g h" and "document_edges h k" shows "document_edges g k"
  unfolding document_edges_def
proof (intro ballI impI)
  fix e assume e: "e \<in> set (g_edges k)" "e_type e = ''SANCTIONED_IN''"
  then consider "document_conf (edge_conf e)"
    | e' where "e' \<in> set (g_edges h)" "triple e' = triple e" "edge_conf e' = edge_conf e"
    using assms(2) unfolding document_edges_def by blast
  then show "(\<exists>e' \<in> set (g_edges g). triple e' = triple e \<and> edge_conf e' = edge_conf e) \<or> document_conf (edge_conf e)"
  proof cases
    case 2
    then have "e_type e' = ''SANCTIONED_IN''" using e(2) triple_type [of e' e] by simp
    with 2 assms(1) show ?thesis unfolding document_edges_def by metis
  qed simp
qed

interpretation document_grade: world_order document_grade
  by unfold_locales (auto simp: document_grade_def intro: document_edges_trans)

lemma document_edges_same: "g_edges g = g_edges h \<Longrightarrow> document_edges g h"
  by (auto simp: document_edges_def)

lemma document_merge_edge:
  assumes "\<And>p. document_conf (f p ''confidence'')"
  shows "document_edges g (merge_edge a t b c f g)"
  using assms unfolding document_edges_def merge_edge_def edge_conf_def
  by (auto simp: triple_def)

lemma document_merge_edges:
  assumes "\<And>p. document_conf (f p ''confidence'')"
  shows "document_edges g (merge_edges ps t c f g)"
proof (induction ps arbitrary: g)
  case Nil
  show ?case by simp
next
  case (Cons p ps)
  obtain a b where "p = (a, b)" by fastforce
  moreover have "document_edges g (merge_edge a t b c f g)" for a b
    by (rule document_merge_edge) (rule assms)
  ultimately show ?case
    using Cons [of "merge_edge a t b c f g"] by (auto intro: document_edges_trans)
qed

lemma document_grade_cypher:
  "(\<And>g. document_edges g (fst (f g))) \<Longrightarrow> moves document_grade (cypher f)"
  by (rule document_grade.cypher) (simp add: document_grade_def)

section \<open>What each statement keeps\<close>

lemma merge_flagged_nodes:
  "fst (merge_flagged l k v c g) =
     map_nodes (\<lambda>n. has_label l n \<and> prop_is k (PStr v) n) (upd_props [(''_sanctions_created'', None)])
       (fst (merge_node l k (PStr v) (c @ [(''_sanctions_created'', Some (PBool True))]) (\<lambda>n. n) g))"
  by (simp add: merge_flagged_def split: prod.splits)

context world_order
begin

lemma upsert_sanction:
  "(\<And>now. moves R (cypher (\<lambda>g.
      case merge_node ''SanctionRecord'' ''id'' (PStr (sanction_node_id (su_registry u) (su_entry u))) []
             (publish_sanction u now) g of
        (g', rows, _) \<Rightarrow> (g', List.map (\<lambda>n. str_prop (n_props n) ''id'') rows)))) \<Longrightarrow>
   moves R (upsert_sanction u)"
  unfolding upsert_sanction_def
  by (intro moves_if throw bindR getR) (auto split: list.split intro: throw ret)

lemma first_row [order_intros]: "moves R (first_row rows)"
  by (simp add: first_row_def throw ret split: list.split)

lemma ensure_sanctioned_in_edge:
  "moves R (cypher (\<lambda>g. (merge_edges (sanctioned_pairs nt nid sid g) ''SANCTIONED_IN'' []
        (set_props [(''confidence'', Some (PNum conf)),
                    (''confidence_signals'', Some (PList (List.map lit signals)))]) g, ()))) \<Longrightarrow>
   moves R (ensure_sanctioned_in_edge nt nid sid conf signals)"
  unfolding ensure_sanctioned_in_edge_def by (intro moves_if throw)

lemma ensure_organization_by_cnpj:
  "moves R (cypher (merge_flagged ''Organization'' ''cnpj'' (digits_only cnpj)
             [(''id'', Some (PStr (lit ''org_'' @ digits_only cnpj)))])) \<Longrightarrow>
   moves R (ensure_organization_by_cnpj cnpj)"
  unfolding ensure_organization_by_cnpj_def Let_def by (intro moves_if throw bindR first_row)

lemma upsert_person_by_cpf:
  "moves R (cypher (merge_flagged ''Person'' ''cpf'' (digits_only cpf)
             [(''id'', Some (PStr (lit ''person_'' @ digits_only cpf))),
              (''name'', Some (PStr (trim_space name))),
              (''search_name'', Some (PStr (fold_query name)))])) \<Longrightarrow>
   moves R (upsert_person_by_cpf name cpf)"
  unfolding upsert_person_by_cpf_def Let_def by (intro moves_if throw bindR first_row)

lemma find_subject_by_cpf [order_intros]: "moves R (find_subject_by_cpf cpf)"
  unfolding find_subject_by_cpf_def Let_def
  by (intro moves_if ret bindR cypher_read_unchecked moves_option)

lemma match_politicians_by_masked_cpf [order_intros]: "moves R (match_politicians_by_masked_cpf m)"
  unfolding match_politicians_by_masked_cpf_def Let_def by (intro moves_if ret cypher_read)

lemma match_politician_by_name [order_intros]: "moves R (match_politician_by_name lw n)"
  unfolding match_politician_by_name_def Let_def
  by (intro moves_if ret bindR cypher_read_unchecked moves_option)

lemma has_sanction_review [order_intros]: "moves R (has_sanction_review sid pid)"
  unfolding has_sanction_review_def by (rule sql_read)

lemma sweep_retracted_sanctions:
  "(\<And>now. moves R (cypher (retract_unseen registry run now))) \<Longrightarrow>
   moves R (sweep_retracted_sanctions registry run gd)"
  unfolding sweep_retracted_sanctions_def Let_def
  by (intro moves_if throw bindR cypher_read moves_prod ret getR)

end

text \<open>The statements, against each order.\<close>

lemma upsert_cypher_nodes:
  "fst (case merge_node l k v c f g of (g', rows, b) \<Rightarrow> (g', h rows)) = fst (merge_node l k v c f g)"
  by (simp split: prod.splits)

lemma wf_upsert: "moves keeps_wf (upsert_sanction u)"
  by (rule keeps_wf.upsert_sanction, rule keeps_wf_cypher)
    (simp add: upsert_cypher_nodes wf_merge_node)

lemma wf_flagged: "moves keeps_wf (cypher (merge_flagged l k v c))"
  by (rule keeps_wf_cypher) (simp add: merge_flagged_nodes wf_map_nodes wf_merge_node)

lemma wf_edge: "moves keeps_wf (ensure_sanctioned_in_edge nt nid sid conf signals)"
proof (rule keeps_wf.ensure_sanctioned_in_edge, rule keeps_wf_cypher)
  fix g :: graph assume "wf_graph g"
  then show "wf_graph (fst (merge_edges (sanctioned_pairs nt nid sid g) ''SANCTIONED_IN'' []
        (set_props [(''confidence'', Some (PNum conf)),
                    (''confidence_signals'', Some (PList (List.map lit signals)))]) g, ()))"
    unfolding fst_conv by (rule wf_merge_edges)
      (auto simp: sanctioned_pairs_def node_pairs_iff dest!: subsetD [OF match_nodes_subset])
qed

lemma wf_retract: "moves keeps_wf (cypher (retract_unseen registry run now))"
  by (rule keeps_wf_cypher) (simp add: retract_unseen_def wf_map_nodes)

lemma document_upsert: "moves document_grade (upsert_sanction u)"
  by (rule document_grade.upsert_sanction, rule document_grade_cypher, rule document_edges_same)
    (simp add: upsert_cypher_nodes)

lemma document_flagged: "moves document_grade (cypher (merge_flagged l k v c))"
  by (rule document_grade_cypher, rule document_edges_same) (simp add: merge_flagged_nodes)

lemma document_edge:
  "auto_link_threshold \<le> conf \<Longrightarrow> moves document_grade (ensure_sanctioned_in_edge nt nid sid conf signals)"
  by (rule document_grade.ensure_sanctioned_in_edge, rule document_grade_cypher, unfold fst_conv,
      rule document_merge_edges) (simp add: document_conf_def)

lemma document_retract: "moves document_grade (cypher (retract_unseen registry run now))"
  by (rule document_grade_cypher, rule document_edges_same) (simp add: retract_unseen_def)

lemma no_resurrection_upsert: "moves no_resurrection (upsert_sanction u)"
proof (rule no_resurrection.upsert_sanction, rule no_resurrection.cypher)
  fix now and s :: "'a world_scheme"
  show "no_resurrection s (s\<lparr>graph := fst (case merge_node ''SanctionRecord'' ''id''
      (PStr (sanction_node_id (su_registry u) (su_entry u))) [] (publish_sanction u now) (graph s) of
        (g', rows, _) \<Rightarrow> (g', List.map (\<lambda>n. str_prop (n_props n) ''id'') rows))\<rparr>)"
    unfolding upsert_cypher_nodes
    by (simp add: no_resurrection_def, rule adds_only_merge, rule key_publish, rule ident_publish)
      (simp add: ident_def covered_def covers_def)
qed

lemma no_resurrection_edge: "moves no_resurrection (ensure_sanctioned_in_edge nt nid sid conf signals)"
  by (rule no_resurrection.ensure_sanctioned_in_edge, rule no_resurrection_cypher) (simp add: adds_only_nodes)

lemma no_resurrection_retract: "moves no_resurrection (cypher (retract_unseen registry run now))"
  by (rule no_resurrection_cypher) (simp add: retract_unseen_def adds_only_map)

lemma adds_only_flagged:
  assumes "ok (ident \<lparr>n_key = 0, n_labels = [l], n_props = set_props c (Map.empty(k := Some (PStr v)))\<rparr>)"
  shows "adds_only ok g (fst (merge_flagged l k v c g))"
proof -
  let ?c = "c @ [(''_sanctions_created'', Some (PBool True))]"
  have "set_props ?c p x = set_props c p x" if "x \<noteq> ''_sanctions_created''" for p x
    using that by (induction c arbitrary: p) auto
  then have "ok (ident \<lparr>n_key = 0, n_labels = [l], n_props = set_props ?c (Map.empty(k := Some (PStr v)))\<rparr>)"
    using assms by (simp add: ident_def)
  then have "adds_only ok g (fst (merge_node l k (PStr v) ?c (\<lambda>n. n) g))"
    by (intro adds_only_merge) simp_all
  then show ?thesis
    unfolding merge_flagged_nodes by (rule adds_only_trans) (simp add: adds_only_map)
qed

lemma no_resurrection_create:
  assumes "\<not> covered (buried s)
    (ident \<lparr>n_key = 0, n_labels = [l], n_props = set_props c (Map.empty(k := Some (PStr v)))\<rparr>)"
  shows "no_resurrection s (snd (cypher (merge_flagged l k v c) s))"
proof (rule no_resurrection.cypher_at)
  fix fs
  have "buried (s\<lparr>faults := fs\<rparr>) = buried s" by (rule ext) simp
  with assms adds_only_flagged show
    "no_resurrection (s\<lparr>faults := fs\<rparr>) (s\<lparr>faults := fs, graph := fst (merge_flagged l k v c (graph s))\<rparr>)"
    by (simp add: no_resurrection_def)
qed

lemma no_resurrection_org:
  assumes "\<not> buried s (tombstone_key_cnpj (digits_only cnpj))"
  shows "no_resurrection s (snd (ensure_organization_by_cnpj cnpj s))"
proof (cases "length (digits_only cnpj) = 14")
  case True
  have "no_resurrection s (snd (cypher (merge_flagged ''Organization'' ''cnpj'' (digits_only cnpj)
      [(''id'', Some (PStr (lit ''org_'' @ digits_only cnpj)))]) s))"
    by (rule no_resurrection_create) (use assms in \<open>simp add: ident_def covered_def covers_def\<close>)
  with True show ?thesis
    unfolding ensure_organization_by_cnpj_def Let_def
    by (simp, intro no_resurrection.bindR_at)
      (auto intro: movesD [OF no_resurrection.first_row])
next
  case False
  then show ?thesis by (simp add: ensure_organization_by_cnpj_def throw_def Let_def)
qed

lemma no_resurrection_person:
  assumes "\<not> buried s (tombstone_key_cpf (digits_only cpf))"
    and "usable_key (tombstone_key_name name) \<Longrightarrow> \<not> buried s (tombstone_key_name name)"
  shows "no_resurrection s (snd (upsert_person_by_cpf name cpf s))"
proof (cases "length (digits_only cpf) = 11")
  case True
  have "no_resurrection s (snd (cypher (merge_flagged ''Person'' ''cpf'' (digits_only cpf)
      [(''id'', Some (PStr (lit ''person_'' @ digits_only cpf))), (''name'', Some (PStr (trim_space name))),
       (''search_name'', Some (PStr (fold_query name)))]) s))"
    by (rule no_resurrection_create) (use assms in \<open>auto simp: ident_def covered_def covers_def\<close>)
  with True show ?thesis
    unfolding upsert_person_by_cpf_def Let_def
    by (simp, intro no_resurrection.bindR_at)
      (auto intro: movesD [OF no_resurrection.first_row])
next
  case False
  then show ?thesis by (simp add: upsert_person_by_cpf_def throw_def Let_def)
qed

section \<open>The sweep guard in float64\<close>

text \<open>
  One twentieth is the ceiling. The quotient is rounded, the ceiling is rounded, and still the
  comparison decides exactly as integers would, for any registry of fewer than \<open>2 ^ 48\<close> records.
\<close>

lemma twentieth_exact:
  assumes h: "0 < h" "h < 2 ^ 48"
  shows "fl (1 / 20) < fl (of_nat m / of_nat h) \<longleftrightarrow> h < 20 * m"
proof
  assume l: "fl (1 / 20) < fl (of_nat m / of_nat h)"
  show "h < 20 * m"
  proof (rule ccontr)
    assume "\<not> h < 20 * m"
    then have "(of_nat (20 * m) :: rat) \<le> of_nat h" by (simp only: of_nat_le_iff)
    then have "(of_nat m / of_nat h :: rat) \<le> 1 / 20" using h by (simp add: divide_le_eq)
    from fl_mono [OF this] l show False by simp
  qed
next
  assume hm: "h < 20 * m"
  let ?q = "of_nat m / of_nat h :: rat"
  have hp: "(0::rat) < of_nat h" using h by simp
  have "(of_nat (h + 1) :: rat) \<le> of_nat (20 * m)" using hm by (simp only: of_nat_le_iff)
  then have "(of_nat (h + 1) :: rat) / (20 * of_nat h) \<le> of_nat (20 * m) / (20 * of_nat h)"
    using hp by (intro divide_right_mono) simp_all
  moreover have "(of_nat (h + 1) :: rat) / (20 * of_nat h) = 1 / 20 + 1 / (20 * of_nat h)"
    using hp by (simp add: field_simps)
  ultimately have ge: "1 / 20 + 1 / (20 * of_nat h) \<le> ?q" by simp
  have "(of_nat h :: rat) < of_nat (2 ^ 48)" using h(2) by (simp only: of_nat_less_iff)
  then have "20 * of_nat h < (144115188075855872 :: rat)" by simp
  then have "1 / (144115188075855872 :: rat) < 1 / (20 * of_nat h)"
    using hp by (intro divide_strict_left_mono) simp_all
  then have gap: "1 / 20 + 1 / 144115188075855872 < ?q" using ge by linarith
  have p32: "(2::rat) powi - 5 = 1 / 32" "(2::rat) powi - 4 = 1 / 16" "(2::rat) powi - 57 = 1 / 144115188075855872"
    by (simp_all add: power_int_minus inverse_eq_divide)
  have e: "f64_exp (1 / 20) = - 5" by (rule f64_exp_unique) (simp_all add: p32)
  have q: "0 < ?q" using gap by (meson less_trans zero_less_divide_1_iff zero_less_numeral add_pos_pos)
  have "- 5 \<le> f64_exp ?q" using f64_exp_mono [of "1 / 20" ?q] gap e by simp
  then consider "f64_exp ?q = - 5" | "- 4 \<le> f64_exp ?q" by linarith
  then show "fl (1 / 20) < fl ?q"
  proof cases
    case 1
    then show ?thesis using gap e p32 by (intro fl_strict_same_exp) simp_all
  next
    case 2
    then have "(2::rat) powi - 4 \<le> 2 powi f64_exp ?q" by (intro power_int_increasing) simp_all
    then show ?thesis using fl_ge_power [OF q] p32 weights(3) by simp
  qed
qed

lemma guard_refuses_exact:
  assumes "held < 2 ^ 48"
  shows "guard_refuses default_retraction_guard held missing \<longleftrightarrow> held < 100 \<or> held < 20 * missing"
proof (cases "held < 100")
  case True
  then show ?thesis by (simp add: guard_refuses_def default_retraction_guard_def)
next
  case False
  then show ?thesis
    using twentieth_exact [of held missing] assms
    by (simp add: guard_refuses_def default_retraction_guard_def fl_div_def)
qed

section \<open>Properties\<close>

lemma sweep_counts_missing:
  assumes "\<forall>n \<in> set (g_nodes g). has_label ''Sanction'' n \<longrightarrow> has_label ''SanctionRecord'' n"
  shows "snd (snd (sweep_counts registry run g)) = length (filter (to_retract registry run) (g_nodes g))"
proof -
  have "filter (\<lambda>n. (has_label ''SanctionRecord'' n \<and> of_registry registry n) \<and> has_label ''Sanction'' n \<and> unseen_by run n)
      (g_nodes g) = filter (to_retract registry run) (g_nodes g)"
    using assms by (intro filter_cong) (auto simp: to_retract_def)
  then show ?thesis by (simp add: sweep_counts_def match_nodes_def Let_def conj_commute)
qed

lemma sweep_ok:
  assumes "sweep_retracted_sanctions registry run gd s = (Inr res, t)"
  shows "(sw_held res, sw_seen res, sw_missing res) = sweep_counts registry run (graph s) \<and>
    sw_refused res = guard_refuses gd (sw_held res) (sw_missing res) \<and>
    (if sw_refused res then graph t = graph s \<and> sw_retracted res = 0
     else graph t = fst (retract_unseen registry run (clock s) (graph s)) \<and>
          sw_retracted res = snd (retract_unseen registry run (clock s) (graph s)))"
  using assms
  by (auto simp: sweep_retracted_sanctions_def run_ok Let_def split: if_splits prod.splits
      dest!: cypher_read_ok cypher_ok)

text \<open>C23: a sweep that ran never unpublishes more than one twentieth of a registry, and nothing at
  all of a registry of fewer than 100 records. When it refuses, the graph is untouched; when it
  does not, exactly the published records stamped by another run change, and they change into
  \<open>retract_node\<close>. Migration 004 is the hypothesis that every sanction carries the permanent label,
  and a registry holds fewer than \<open>2 ^ 48\<close> records.\<close>

theorem sweep_is_bounded:
  assumes "sweep_retracted_sanctions registry run default_retraction_guard s = (Inr res, t)"
    and "\<forall>n \<in> set (g_nodes (graph s)). has_label ''Sanction'' n \<longrightarrow> has_label ''SanctionRecord'' n"
    and "length (g_nodes (graph s)) < 2 ^ 48"
  shows "20 * sw_retracted res \<le> sw_held res \<and>
    (sw_retracted res = 0 \<or> 100 \<le> sw_held res) \<and>
    (if sw_refused res then graph t = graph s
     else g_nodes (graph t) = List.map (\<lambda>n. if to_retract registry run n then retract_node (clock s) n else n)
            (g_nodes (graph s)))"
proof -
  note ok = sweep_ok [OF assms(1)]
  have held: "sw_held res < 2 ^ 48"
    using ok assms(3) le_less_trans [OF length_filter_le]
    by (auto simp: sweep_counts_def match_nodes_def Let_def)
  have "sw_missing res = length (filter (to_retract registry run) (g_nodes (graph s)))"
    using ok sweep_counts_missing [OF assms(2)] by (metis snd_conv)
  with ok guard_refuses_exact [OF held] show ?thesis
    by (auto simp: retract_unseen_def not_less)
qed

definition sweep_example :: world where
  "sweep_example = empty_world\<lparr>graph := \<lparr>g_nodes = [\<lparr>n_key = 0, n_labels = [''SanctionRecord'', ''Sanction''],
      n_props = [''registry'' \<mapsto> PStr (lit ''CEIS''), ''last_seen_run'' \<mapsto> PStr (lit ''r1'')]\<rparr>],
     g_edges = [], g_next = 1\<rparr>\<rparr>"

theorem sweep_is_bounded_witness:
  "\<exists>res t. sweep_retracted_sanctions (lit ''CEIS'') (lit ''r2'') default_retraction_guard sweep_example = (Inr res, t)
     \<and> 20 * sw_retracted res \<le> sw_held res"
proof -
  let ?p = "sweep_retracted_sanctions (lit ''CEIS'') (lit ''r2'') default_retraction_guard sweep_example"
  have "\<exists>res t. ?p = (Inr res, t)"
    by (simp add: sweep_retracted_sanctions_def sweep_example_def prog_simps cypher_read_def db_call_def
        empty_world_def sweep_counts_def match_nodes_def has_label_def of_registry_def prop_is_def
        guard_refuses_def default_retraction_guard_def Let_def)
  then obtain res t where r: "?p = (Inr res, t)" by blast
  have n: "g_nodes (graph sweep_example) = [\<lparr>n_key = 0, n_labels = [''SanctionRecord'', ''Sanction''],
      n_props = [''registry'' \<mapsto> PStr (lit ''CEIS''), ''last_seen_run'' \<mapsto> PStr (lit ''r1'')]\<rparr>]"
    by (simp add: sweep_example_def)
  from sweep_is_bounded [OF r] r show ?thesis by (auto simp: n has_label_def)
qed

text \<open>Retraction is not a one-way door. After an upsert that returned, the record is published
  under its deterministic id, is no longer marked retracted, and carries the stamp of the run when
  the run has one.\<close>

theorem upsert_republishes:
  assumes "upsert_sanction u s = (Inr i, t)"
  shows "i = sanction_node_id (su_registry u) (su_entry u) \<and>
    (\<exists>n \<in> set (g_nodes (graph t)). n_props n ''id'' = Some (PStr i) \<and>
       has_label ''SanctionRecord'' n \<and> has_label ''Sanction'' n \<and> \<not> has_label ''RetractedSanction'' n \<and>
       n_props n ''retracted_at'' = None \<and> (su_run u = [] \<or> seen_by (su_run u) n))"
proof -
  let ?id = "sanction_node_id (su_registry u) (su_entry u)"
  let ?P = "\<lambda>n. n_props n ''id'' = Some (PStr ?id) \<and> has_label ''SanctionRecord'' n"
  let ?Q = "\<lambda>n. ?P n \<and> has_label ''Sanction'' n \<and> \<not> has_label ''RetractedSanction'' n \<and>
       n_props n ''retracted_at'' = None \<and> (su_run u = [] \<or> seen_by (su_run u) n)"
  have pub: "?Q (publish_sanction u now n)" if "?P n" for n now
    using that by (simp add: publish_sanction_def Let_def seen_by_def upd_props_lookup)
  obtain now fs where step: "(case merge_node ''SanctionRecord'' ''id'' (PStr ?id) [] (publish_sanction u now) (graph s) of
      (g', rows, _) \<Rightarrow> (g', List.map (\<lambda>n. str_prop (n_props n) ''id'') rows)) = (graph t, i # fs)"
    using assms by (auto simp: upsert_sanction_def run_ok split: if_splits dest!: cypher_result)
  have row: "\<exists>n \<in> set (g_nodes (graph t)). ?Q n \<and> str_prop (n_props n) ''id'' = i"
  proof (cases "match_nodes ''SanctionRecord'' (prop_is ''id'' (PStr ?id)) (graph s)")
    case Nil
    let ?n = "publish_sanction u now \<lparr>n_key = g_next (graph s), n_labels = [''SanctionRecord''],
        n_props = Map.empty(''id'' \<mapsto> PStr ?id)\<rparr>"
    have "?n \<in> set (g_nodes (graph t)) \<and> str_prop (n_props ?n) ''id'' = i"
      using step [symmetric] Nil by (auto simp: merge_node_def Let_def)
    moreover have "?Q ?n" by (rule pub) (simp add: has_label_def)
    ultimately show ?thesis by blast
  next
    case (Cons n ns)
    then have "n \<in> set (match_nodes ''SanctionRecord'' (prop_is ''id'' (PStr ?id)) (graph s))" by simp
    then have n: "n \<in> set (g_nodes (graph s))" "?P n"
      by (simp_all add: match_nodes_def prop_is_def)
    then have "publish_sanction u now n \<in> set (g_nodes (graph t))"
      "str_prop (n_props (publish_sanction u now n)) ''id'' = i"
      using step [symmetric] Cons by (force simp: merge_node_def Let_def prop_is_def)+
    with pub [OF n(2)] show ?thesis by blast
  qed
  then show ?thesis by (auto simp: str_prop_def)
qed

definition upsert_example :: sanction_upsert where
  "upsert_example = \<lparr>su_registry = lit ''ceis'', su_entry = lit ''7'', su_type = [], su_organ = [],
     su_start = [], su_end = [], su_process = [], su_url = lit ''http'', su_run = lit ''r1''\<rparr>"

theorem upsert_republishes_witness:
  "\<exists>i t. upsert_sanction upsert_example empty_world = (Inr i, t) \<and>
     (\<exists>n \<in> set (g_nodes (graph t)). n_props n ''id'' = Some (PStr i) \<and> has_label ''Sanction'' n)"
proof -
  have u: "trim_space (su_url upsert_example) \<noteq> []"
    unfolding upsert_example_def by code_simp
  have "\<exists>i t. upsert_sanction upsert_example empty_world = (Inr i, t)"
    by (simp add: upsert_sanction_def u prog_simps cypher_def db_call_def run_cypher_def empty_world_def
        empty_graph_def merge_node_def match_nodes_def ids_unique_def Let_def)
  then obtain i t where r: "upsert_sanction upsert_example empty_world = (Inr i, t)" by blast
  from upsert_republishes [OF r] r show ?thesis by blast
qed

text \<open>A retracted sanction is out of every search at once: whatever is typed and whatever type is
  asked for, the query keeps it neither by the typed nor by the untyped \<^verbatim>\<open>WHERE\<close> clause, since
  retraction drops the only label these clauses look for.\<close>

theorem retracted_is_unsearchable:
  assumes "set (n_labels n) \<subseteq> {''SanctionRecord'', ''Sanction'', ''RetractedSanction''}"
  shows "\<not> search_keeps lw q ty (retract_node now n)"
proof -
  have "has_label l (retract_node now n) \<Longrightarrow> l \<in> {''SanctionRecord'', ''RetractedSanction''}" for l
    using assms by (auto simp: retract_node_def has_label_def [of _ n])
  then have "\<not> has_label l (retract_node now n)" if "l \<notin> {''SanctionRecord'', ''RetractedSanction''}" for l
    using that by blast
  then show ?thesis
    by (simp add: search_keeps_def Let_def search_all_def search_politician_def search_person_def
        search_scandal_def search_organization_def search_sanction_def search_proceeding_def)
qed

theorem retracted_is_unsearchable_witness:
  "\<not> search_keeps (\<lambda>s. s) [] [] (retract_node [] \<lparr>n_key = 0, n_labels = [''SanctionRecord'', ''Sanction''], n_props = Map.empty\<rparr>)"
  by (rule retracted_is_unsearchable) simp

end
