(* ===== verification/Sanction_Records.thy ===== *)
theory Sanction_Records
  imports Graph
begin

text \<open>
  From what the registries publish to normalised records
  (\<^verbatim>\<open>backend/workers/sanctions/client_cgu.go\<close>, \<^verbatim>\<open>client_tcu.go\<close> and the document classifier of
  \<^verbatim>\<open>worker.go\<close>). A decoded JSON object is a record of the fields the code reads; a CSV file is the
  list of rows \<^verbatim>\<open>encoding/csv\<close> hands out, each a row or an error.
\<close>

record sanction_record =
  sr_registry :: gostr
  sr_entry :: gostr
  sr_type :: gostr
  sr_organ :: gostr
  sr_start :: gostr
  sr_end :: gostr
  sr_process :: gostr
  sr_url :: gostr
  sr_name :: gostr
  sr_cnpj :: gostr
  sr_cpf :: gostr
  sr_masked :: gostr

definition registry_ceis :: gostr where "registry_ceis = lit ''CEIS''"
definition registry_cnep :: gostr where "registry_cnep = lit ''CNEP''"
definition registry_ceaf :: gostr where "registry_ceaf = lit ''CEAF''"
definition registry_leniencia :: gostr where "registry_leniencia = lit ''LENIENCIA''"
definition registry_tcu_irregular :: gostr where "registry_tcu_irregular = lit ''TCU_IRREGULAR''"
definition registry_tcu_inabilitado :: gostr where "registry_tcu_inabilitado = lit ''TCU_INABILITADO''"
definition registry_tcu_inidoneo :: gostr where "registry_tcu_inidoneo = lit ''TCU_INIDONEO''"

lemmas registry_names = registry_ceis_def registry_cnep_def registry_ceaf_def registry_leniencia_def
  registry_tcu_irregular_def registry_tcu_inabilitado_def registry_tcu_inidoneo_def

section \<open>Documents\<close>

text \<open>The buckets are returned in the order CPF, CNPJ, masked CPF. The asterisk is rune 42.\<close>

definition classify_document :: "gostr \<Rightarrow> gostr \<times> gostr \<times> gostr" where
  "classify_document r0 =
     (let raw = trim_space r0; digits = digits_only raw in
      if raw = [] then ([], [], [])
      else if length digits = 14 then ([], digits, [])
      else if length digits = 11 then (digits, [], [])
      else if contains raw (lit ''*'') \<and> length digits = 6 then ([], [], digits)
      else ([], [], []))"

definition with_document :: "gostr \<Rightarrow> sanction_record \<Rightarrow> sanction_record" where
  "with_document doc r =
     (case classify_document doc of (cpf, cnpj, masked) \<Rightarrow>
        r\<lparr>sr_cpf := cpf, sr_cnpj := cnpj, sr_masked := masked\<rparr>)"

fun first_non_empty :: "gostr list \<Rightarrow> gostr" where
  "first_non_empty [] = []"
| "first_non_empty (v # vs) = (if trim_space v \<noteq> [] then trim_space v else first_non_empty vs)"

section \<open>Dates\<close>

text \<open>
  \<^verbatim>\<open>time.Parse\<close> for the five layouts in use. A layout is a list of chunks; parsing a chunk consumes
  a prefix of the value and records year, month and day. As in Go, hours may have one digit, a
  fractional second may follow the seconds, and a run of spaces matches a run of spaces.
\<close>

datatype chunk = Year4 | Month2 | Day2 | Hour24 | Minute2 | Second2 | Spaces | Char rune | Zone

record date_parts =
  dp_year :: gostr
  dp_month :: nat
  dp_day :: nat

definition digit_val :: "rune \<Rightarrow> nat" where
  "digit_val r = nat (r - 48)"

fun getnum :: "bool \<Rightarrow> gostr \<Rightarrow> (nat \<times> gostr) option" where
  "getnum fixed [] = None"
| "getnum fixed (a # s) =
     (if \<not> is_digit a then None
      else (case s of
          b # t \<Rightarrow> if is_digit b then Some (10 * digit_val a + digit_val b, t)
                   else if fixed then None else Some (digit_val a, s)
        | [] \<Rightarrow> if fixed then None else Some (digit_val a, s)))"

definition bounded_num :: "bool \<Rightarrow> nat \<Rightarrow> nat \<Rightarrow> gostr \<Rightarrow> (nat \<times> gostr) option" where
  "bounded_num fixed lo hi s =
     (case getnum fixed s of None \<Rightarrow> None | Some (n, t) \<Rightarrow> if lo \<le> n \<and> n \<le> hi then Some (n, t) else None)"

definition skip_fraction :: "gostr \<Rightarrow> gostr" where
  "skip_fraction s =
     (case s of p # d # t \<Rightarrow> if (p = 46 \<or> p = 44) \<and> is_digit d then dropWhile is_digit t else s | _ \<Rightarrow> s)"

definition parse_zone :: "gostr \<Rightarrow> gostr option" where
  "parse_zone s =
     (case s of
        [] \<Rightarrow> None
      | z # t \<Rightarrow>
          if z = 90 then Some t
          else (case s of
              sg # h1 # h2 # c # m1 # m2 # u \<Rightarrow>
                if c = 58 \<and> (sg = 43 \<or> sg = 45) \<and> is_digit h1 \<and> is_digit h2 \<and> is_digit m1 \<and> is_digit m2
                   \<and> 10 * digit_val h1 + digit_val h2 \<le> 24 \<and> 10 * digit_val m1 + digit_val m2 \<le> 60
                then Some u else None
            | _ \<Rightarrow> None))"

definition parse_chunk :: "chunk \<Rightarrow> gostr \<Rightarrow> date_parts \<Rightarrow> (gostr \<times> date_parts) option" where
  "parse_chunk c s d =
     (case c of
        Year4 \<Rightarrow> if length s < 4 \<or> \<not> list_all is_digit (take 4 s) then None
                 else Some (drop 4 s, d\<lparr>dp_year := take 4 s\<rparr>)
      | Month2 \<Rightarrow> map_option (\<lambda>(n, t). (t, d\<lparr>dp_month := n\<rparr>)) (bounded_num True 1 12 s)
      | Day2 \<Rightarrow> map_option (\<lambda>(n, t). (t, d\<lparr>dp_day := n\<rparr>)) (getnum True s)
      | Hour24 \<Rightarrow> map_option (\<lambda>(n, t). (t, d)) (bounded_num False 0 23 s)
      | Minute2 \<Rightarrow> map_option (\<lambda>(n, t). (t, d)) (bounded_num True 0 59 s)
      | Second2 \<Rightarrow> map_option (\<lambda>(n, t). (skip_fraction t, d)) (bounded_num True 0 59 s)
      | Spaces \<Rightarrow> (case s of [] \<Rightarrow> Some (s, d)
                   | r # t \<Rightarrow> if r = 32 then Some (dropWhile (\<lambda>x. x = 32) s, d) else None)
      | Char r \<Rightarrow> (case s of [] \<Rightarrow> None | x # t \<Rightarrow> if x = r then Some (t, d) else None)
      | Zone \<Rightarrow> map_option (\<lambda>t. (t, d)) (parse_zone s))"

fun parse_chunks :: "chunk list \<Rightarrow> gostr \<Rightarrow> date_parts \<Rightarrow> date_parts option" where
  "parse_chunks [] s d = (if s = [] then Some d else None)"
| "parse_chunks (c # cs) s d =
     (case parse_chunk c s d of None \<Rightarrow> None | Some (t, e) \<Rightarrow> parse_chunks cs t e)"

definition leap_year :: "nat \<Rightarrow> bool" where
  "leap_year y \<longleftrightarrow> y mod 4 = 0 \<and> (y mod 100 \<noteq> 0 \<or> y mod 400 = 0)"

definition days_in :: "nat \<Rightarrow> nat \<Rightarrow> nat" where
  "days_in m y = (if m = 2 then (if leap_year y then 29 else 28) else if m \<in> {4, 6, 9, 11} then 30 else 31)"

definition valid_day :: "date_parts \<Rightarrow> bool" where
  "valid_day d \<longleftrightarrow> 1 \<le> dp_day d \<and> dp_day d \<le> days_in (dp_month d) (digits_value 0 (dp_year d))"

definition layout_iso :: "chunk list" where
  "layout_iso = [Year4, Char 45, Month2, Char 45, Day2]"

definition layouts :: "chunk list list" where
  "layouts =
     [layout_iso,
      [Day2, Char 47, Month2, Char 47, Year4],
      layout_iso @ [Char 84, Hour24, Char 58, Minute2, Char 58, Second2, Zone],
      layout_iso @ [Char 84, Hour24, Char 58, Minute2, Char 58, Second2],
      layout_iso @ [Spaces, Hour24, Char 58, Minute2, Char 58, Second2]]"

definition time_parse :: "chunk list \<Rightarrow> gostr \<Rightarrow> date_parts option" where
  "time_parse l s =
     (case parse_chunks l s \<lparr>dp_year = [], dp_month = 0, dp_day = 0\<rparr> of
        None \<Rightarrow> None | Some d \<Rightarrow> if valid_day d then Some d else None)"

definition two_digits :: "nat \<Rightarrow> gostr" where
  "two_digits n = [48 + int (n div 10), 48 + int (n mod 10)]"

definition format_date :: "date_parts \<Rightarrow> gostr" where
  "format_date d = dp_year d @ [45] @ two_digits (dp_month d) @ [45] @ two_digits (dp_day d)"

fun first_layout :: "chunk list list \<Rightarrow> gostr \<Rightarrow> gostr" where
  "first_layout [] s = []"
| "first_layout (l # ls) s = (case time_parse l s of Some d \<Rightarrow> format_date d | None \<Rightarrow> first_layout ls s)"

definition normalize_date :: "gostr \<Rightarrow> gostr" where
  "normalize_date s0 = (let s = trim_space s0 in if s = [] then [] else first_layout layouts s)"

section \<open>Slugs and deep links\<close>

definition slug_accent :: "rune \<Rightarrow> rune option" where
  "slug_accent r =
     (if r \<in> {225, 224, 226, 227, 228, 229, 193, 192, 194, 195, 196, 197} then Some 65
      else if r \<in> {233, 232, 234, 235, 201, 200, 202, 203} then Some 69
      else if r \<in> {237, 236, 238, 239, 205, 204, 206, 207} then Some 73
      else if r \<in> {243, 242, 244, 245, 246, 211, 210, 212, 213, 214} then Some 79
      else if r \<in> {250, 249, 251, 252, 218, 217, 219, 220} then Some 85
      else if r \<in> {231, 199} then Some 67
      else if r \<in> {241, 209} then Some 78
      else if r \<in> {253, 255, 221} then Some 89
      else None)"

text \<open>One turn of the loop of \<^verbatim>\<open>companyNameSlug\<close>: the builder and \<^verbatim>\<open>lastDash\<close>.\<close>

definition slug_step :: "rune \<Rightarrow> gostr \<times> bool \<Rightarrow> gostr \<times> bool" where
  "slug_step r st =
     (case st of (b, last_dash) \<Rightarrow>
        if 97 \<le> r \<and> r \<le> 122 then (b @ [r - 32], False)
        else if (65 \<le> r \<and> r \<le> 90) \<or> is_digit r then (b @ [r], False)
        else (case slug_accent r of
            Some f \<Rightarrow> (b @ [f], False)
          | None \<Rightarrow> if b \<noteq> [] \<and> \<not> last_dash then (b @ [45], True) else (b, last_dash)))"

definition trim_right_rune :: "rune \<Rightarrow> gostr \<Rightarrow> gostr" where
  "trim_right_rune c s = rev (dropWhile (\<lambda>r. r = c) (rev s))"

definition company_name_slug :: "gostr \<Rightarrow> gostr" where
  "company_name_slug n0 =
     (let name = trim_space n0 in
      if name = [] then [] else trim_right_rune 45 (fst (fold slug_step name ([], False))))"

definition slug_name :: "gostr \<Rightarrow> gostr" where
  "slug_name n0 =
     concat (List.map (\<lambda>r. if (97 \<le> r \<and> r \<le> 122) \<or> is_digit r then [r] else if r = 32 then [95] else [])
       (to_lower (trim_space n0)))"

definition cgu_source_url :: "gostr \<Rightarrow> gostr \<Rightarrow> int \<Rightarrow> gostr" where
  "cgu_source_url link registry i =
     (if trim_space link \<noteq> [] then trim_space link
      else if registry = registry_ceis then lit ''https://portaldatransparencia.gov.br/sancoes/ceis?id='' @ itoa i
      else if registry = registry_cnep then lit ''https://portaldatransparencia.gov.br/sancoes/cnep?id='' @ itoa i
      else if registry = registry_ceaf then lit ''https://portaldatransparencia.gov.br/sancoes/ceaf?id='' @ itoa i
      else if registry = registry_leniencia
           then lit ''https://portaldatransparencia.gov.br/acordos-leniencia?id='' @ itoa i
      else lit ''https://portaldatransparencia.gov.br/sancoes'')"

definition strip_leading_zeros :: "gostr \<Rightarrow> gostr" where
  "strip_leading_zeros s = dropWhile (\<lambda>r. r = 48) s"

definition tcu_source_url :: "gostr \<Rightarrow> gostr \<Rightarrow> gostr \<Rightarrow> gostr" where
  "tcu_source_url deliberacao processo file_url =
     (if has_prefix (to_lower (trim_space deliberacao)) (lit ''http'') then trim_space deliberacao
      else let p = strip_leading_zeros (digits_only processo) in
        if p \<noteq> [] then
          lit ''https://contas.tcu.gov.br/pesquisaJurisprudencia/#/resultado/acordao-completo/'' @ p @ lit ''.PROC''
        else file_url)"

definition tcu_entry_id :: "gostr \<Rightarrow> gostr \<Rightarrow> gostr \<Rightarrow> gostr" where
  "tcu_entry_id processo doc name =
     (let proc = digits_only processo; d = digits_only doc;
          subject = (if d = [] then slug_name name else d)
      in if proc \<noteq> [] \<and> subject \<noteq> [] then proc @ lit ''-'' @ subject
         else if proc \<noteq> [] then proc else subject)"

section \<open>CGU pages\<close>

record pessoa =
  pe_cpf :: gostr
  pe_cnpj :: gostr
  pe_nome :: gostr

record ceis_cnep =
  cc_id :: int
  cc_inicio :: gostr
  cc_fim :: gostr
  cc_tipo_resumida :: gostr
  cc_tipo_portal :: gostr
  cc_orgao :: gostr
  cc_sanc_nome :: gostr
  cc_sanc_codigo :: gostr
  cc_pessoa :: pessoa
  cc_link :: gostr
  cc_processo :: gostr

record ceaf =
  ca_id :: int
  ca_publicacao :: gostr
  ca_cpf_punido :: gostr
  ca_nome_punido :: gostr
  ca_processo :: gostr
  ca_tipo :: gostr
  ca_pessoa :: pessoa
  ca_orgao :: gostr

record leniencia_company =
  lc_informado :: gostr
  lc_razao :: gostr
  lc_cnpj_formatado :: gostr
  lc_cnpj :: gostr

record leniencia =
  le_id :: int
  le_inicio :: gostr
  le_fim :: gostr
  le_orgao :: gostr
  le_situacao :: gostr
  le_sancoes :: "leniencia_company list"

definition blank_record :: sanction_record where
  "blank_record = \<lparr>sr_registry = [], sr_entry = [], sr_type = [], sr_organ = [], sr_start = [], sr_end = [],
     sr_process = [], sr_url = [], sr_name = [], sr_cnpj = [], sr_cpf = [], sr_masked = []\<rparr>"

definition map_ceis_cnep :: "gostr \<Rightarrow> ceis_cnep \<Rightarrow> sanction_record" where
  "map_ceis_cnep registry d =
     with_document (first_non_empty [pe_cnpj (cc_pessoa d), pe_cpf (cc_pessoa d), cc_sanc_codigo d])
       (blank_record\<lparr>sr_registry := registry, sr_entry := itoa (cc_id d),
          sr_type := first_non_empty [cc_tipo_resumida d, cc_tipo_portal d],
          sr_organ := cc_orgao d,
          sr_start := normalize_date (cc_inicio d), sr_end := normalize_date (cc_fim d),
          sr_process := cc_processo d, sr_url := cgu_source_url (cc_link d) registry (cc_id d),
          sr_name := first_non_empty [pe_nome (cc_pessoa d), cc_sanc_nome d]\<rparr>)"

definition map_ceaf :: "ceaf \<Rightarrow> sanction_record" where
  "map_ceaf d =
     with_document (first_non_empty [pe_cpf (ca_pessoa d), ca_cpf_punido d])
       (blank_record\<lparr>sr_registry := registry_ceaf, sr_entry := itoa (ca_id d), sr_type := ca_tipo d,
          sr_organ := ca_orgao d, sr_start := normalize_date (ca_publicacao d),
          sr_process := ca_processo d, sr_url := cgu_source_url [] registry_ceaf (ca_id d),
          sr_name := first_non_empty [pe_nome (ca_pessoa d), ca_nome_punido d]\<rparr>)"

text \<open>\<^verbatim>\<open>"Acordo de Leniencia "\<close> with its circumflex (rune 234).\<close>

definition acordo_prefix :: gostr where
  "acordo_prefix = lit ''Acordo de Leni'' @ [234] @ lit ''ncia ''"

definition leniencia_base :: "leniencia \<Rightarrow> sanction_record" where
  "leniencia_base d =
     blank_record\<lparr>sr_registry := registry_leniencia,
       sr_type := trim_space (acordo_prefix @ le_situacao d), sr_organ := le_orgao d,
       sr_start := normalize_date (le_inicio d), sr_end := normalize_date (le_fim d),
       sr_url := cgu_source_url [] registry_leniencia (le_id d)\<rparr>"

definition company_key :: "nat \<Rightarrow> gostr \<Rightarrow> sanction_record \<Rightarrow> gostr" where
  "company_key i doc r =
     (if sr_cnpj r \<noteq> [] then sr_cnpj r
      else if digits_only doc \<noteq> [] then digits_only doc
      else if company_name_slug (sr_name r) \<noteq> [] then company_name_slug (sr_name r)
      else itoa (int i))"

definition map_company :: "leniencia \<Rightarrow> nat \<Rightarrow> leniencia_company \<Rightarrow> sanction_record" where
  "map_company d i s =
     (let doc = first_non_empty [lc_cnpj_formatado s, lc_cnpj s];
          r = with_document doc ((leniencia_base d)\<lparr>sr_name := first_non_empty [lc_razao s, lc_informado s]\<rparr>)
      in r\<lparr>sr_entry := itoa (le_id d) @ lit ''-'' @ company_key i doc r\<rparr>)"

definition map_leniencia :: "leniencia \<Rightarrow> sanction_record list" where
  "map_leniencia d =
     (if le_sancoes d = [] then [(leniencia_base d)\<lparr>sr_entry := itoa (le_id d)\<rparr>]
      else List.map (\<lambda>(i, s). map_company d i s) (enumerate 0 (le_sancoes d)))"

text \<open>A page body, as the JSON decoder reads it for the type of its registry, or an error.\<close>

datatype cgu_page = CeisCnepPage "ceis_cnep list" | CeafPage "ceaf list" | LenienciaPage "leniencia list"

definition map_cgu_page :: "gostr \<Rightarrow> (gostr \<Rightarrow> gostr \<Rightarrow> cgu_page option) \<Rightarrow> gostr \<Rightarrow> err + sanction_record list" where
  "map_cgu_page registry decode body =
     (if registry \<in> {registry_ceis, registry_cnep} then
        (case decode registry body of
           Some (CeisCnepPage ds) \<Rightarrow> Inr (List.map (map_ceis_cnep registry) ds) | _ \<Rightarrow> Inl DecodeError)
      else if registry = registry_ceaf then
        (case decode registry body of Some (CeafPage ds) \<Rightarrow> Inr (List.map map_ceaf ds) | _ \<Rightarrow> Inl DecodeError)
      else if registry = registry_leniencia then
        (case decode registry body of
           Some (LenienciaPage ds) \<Rightarrow> Inr (concat (List.map map_leniencia ds)) | _ \<Rightarrow> Inl DecodeError)
      else Inl (Refused ''unknown registry''))"

section \<open>TCU files\<close>

record tcu_file =
  tf_registry :: gostr
  tf_filename :: gostr
  tf_type :: gostr

definition tcu_files :: "tcu_file list" where
  "tcu_files =
     [\<lparr>tf_registry = registry_tcu_irregular, tf_filename = lit ''resp-contas-julgadas-irregulares.csv'',
       tf_type = lit ''Contas julgadas irregulares''\<rparr>,
      \<lparr>tf_registry = registry_tcu_inabilitado, tf_filename = lit ''inabilitados-funcao-publica.csv'',
       tf_type = lit ''Inabilitado para fun'' @ [231, 227] @ lit ''o p'' @ [250] @ lit ''blica''\<rparr>,
      \<lparr>tf_registry = registry_tcu_inidoneo, tf_filename = lit ''licitantes-inidoneos.csv'',
       tf_type = lit ''Licitante inid'' @ [244] @ lit ''neo''\<rparr>]"

definition normalize_header :: "gostr \<Rightarrow> gostr" where
  "normalize_header h0 =
     (let h = trim_space h0 in to_upper (if has_prefix h [65279] then drop 1 h else h))"

text \<open>The column index: a later column of the same name wins.\<close>

definition header_cols :: "gostr list \<Rightarrow> gostr \<Rightarrow> nat option" where
  "header_cols header = foldl (\<lambda>m (i, h). m(normalize_header h := Some i)) Map.empty (enumerate 0 header)"

definition csv_get :: "(gostr \<Rightarrow> nat option) \<Rightarrow> gostr list \<Rightarrow> gostr \<Rightarrow> gostr" where
  "csv_get cols row name =
     (case cols name of None \<Rightarrow> [] | Some i \<Rightarrow> if i < length row then trim_space (row ! i) else [])"

definition tcu_row :: "tcu_file \<Rightarrow> gostr \<Rightarrow> (gostr \<Rightarrow> nat option) \<Rightarrow> gostr list \<Rightarrow> sanction_record option" where
  "tcu_row f file_url cols row =
     (let name = csv_get cols row (lit ''NOME'');
          doc = first_non_empty [csv_get cols row (lit ''CPF_CNPJ''), csv_get cols row (lit ''CPF'')];
          processo = csv_get cols row (lit ''PROCESSO'');
          deliberacao = csv_get cols row (lit ''DELIBERACAO'');
          start = first_non_empty [normalize_date (csv_get cols row (lit ''DATA ACORDAO'')),
                                   normalize_date (csv_get cols row (lit ''DATA TRANSITO JULGADO''))];
          finish = normalize_date (csv_get cols row (lit ''DATA FINAL''))
      in if name = [] \<and> doc = [] \<and> processo = [] then None
         else Some (with_document doc (blank_record\<lparr>sr_registry := tf_registry f,
           sr_entry := tcu_entry_id processo doc name, sr_type := tf_type f,
           sr_organ := lit ''Tribunal de Contas da Uni'' @ [227] @ lit ''o'',
           sr_start := start, sr_end := finish, sr_process := processo,
           sr_url := tcu_source_url deliberacao processo file_url, sr_name := name\<rparr>)))"

fun tcu_rows ::
  "tcu_file \<Rightarrow> gostr \<Rightarrow> (gostr \<Rightarrow> nat option) \<Rightarrow> (err + gostr list) list \<Rightarrow> err + sanction_record list" where
  "tcu_rows f file_url cols [] = Inr []"
| "tcu_rows f file_url cols (Inl e # rows) = Inl e"
| "tcu_rows f file_url cols (Inr row # rows) =
     (case tcu_rows f file_url cols rows of
        Inl e \<Rightarrow> Inl e
      | Inr rs \<Rightarrow> Inr (case tcu_row f file_url cols row of None \<Rightarrow> rs | Some r \<Rightarrow> r # rs))"

definition parse_tcu_csv :: "(err + gostr list) list \<Rightarrow> tcu_file \<Rightarrow> gostr \<Rightarrow> err + sanction_record list" where
  "parse_tcu_csv rows f file_url =
     (case rows of
        [] \<Rightarrow> Inr []
      | Inl e # _ \<Rightarrow> Inl e
      | Inr header # rest \<Rightarrow> tcu_rows f file_url (header_cols header) rest)"

section \<open>What every record satisfies\<close>

text \<open>
  The invariant the worker rests on: at most one document, each of its exact length, and a source
  to point at.
\<close>

definition digits_of_length :: "nat \<Rightarrow> gostr \<Rightarrow> bool" where
  "digits_of_length n s \<longleftrightarrow> length s = n \<and> (\<forall>r \<in> set s. is_digit r)"

definition documents_ok :: "gostr \<times> gostr \<times> gostr \<Rightarrow> bool" where
  "documents_ok d \<longleftrightarrow>
     (case d of (cpf, cnpj, masked) \<Rightarrow>
        (cpf = [] \<or> digits_of_length 11 cpf) \<and> (cnpj = [] \<or> digits_of_length 14 cnpj) \<and>
        (masked = [] \<or> digits_of_length 6 masked) \<and>
        (cpf = [] \<or> cnpj = []) \<and> (cpf = [] \<or> masked = []) \<and> (cnpj = [] \<or> masked = []))"

definition record_ok :: "sanction_record \<Rightarrow> bool" where
  "record_ok r \<longleftrightarrow> documents_ok (sr_cpf r, sr_cnpj r, sr_masked r) \<and> trim_space (sr_url r) \<noteq> []"

lemma classify_ok: "documents_ok (classify_document raw)"
  using digits_only_digits [of "trim_space raw"]
  by (auto simp: classify_document_def documents_ok_def digits_of_length_def Let_def)

lemma with_document_sel [simp]:
  "sr_url (with_document doc r) = sr_url r" "sr_registry (with_document doc r) = sr_registry r"
  "sr_entry (with_document doc r) = sr_entry r" "sr_name (with_document doc r) = sr_name r"
  "(sr_cpf (with_document doc r), sr_cnpj (with_document doc r), sr_masked (with_document doc r))
     = classify_document doc"
  by (simp_all add: with_document_def split: prod.splits)

lemma record_ok_with_document: "trim_space (sr_url r) \<noteq> [] \<Longrightarrow> record_ok (with_document doc r)"
  using classify_ok [of doc] by (simp only: record_ok_def with_document_sel) simp

lemma trim_right_nonempty:
  assumes "r \<in> set s" "\<not> is_space r" shows "trim_space s \<noteq> []"
proof -
  have "r \<in> set (trim_left_space s)"
    unfolding trim_left_space_def using assms by (induction s) auto
  then have "\<exists>x \<in> set (rev (trim_left_space s)). \<not> is_space x" using assms by auto
  then show ?thesis
    unfolding trim_space_def trim_right_space_def by (simp add: dropWhile_eq_Nil_conv)
qed

lemma literal_source: "s \<noteq> [] \<Longrightarrow> hd s = CHR ''h'' \<Longrightarrow> trim_space (lit s @ u) \<noteq> []"
  by (rule trim_right_nonempty [of 104]) (cases s; simp add: lit_def is_space_def)+

lemma cgu_source_nonempty: "trim_space (cgu_source_url link registry i) \<noteq> []"
  using literal_source [of "''https://portaldatransparencia.gov.br/sancoes''" "[]"]
  by (simp add: cgu_source_url_def literal_source)

lemma map_company_ok: "record_ok (map_company d i s)"
proof -
  have "record_ok (r\<lparr>sr_entry := e\<rparr>) = record_ok r" for r e by (simp add: record_ok_def)
  then show ?thesis
    by (simp add: map_company_def Let_def record_ok_with_document leniencia_base_def cgu_source_nonempty)
qed

lemma map_leniencia_ok: "r \<in> set (map_leniencia d) \<Longrightarrow> record_ok r \<and> sr_registry r = registry_leniencia"
proof (cases "le_sancoes d = []")
  case True
  then show "r \<in> set (map_leniencia d) \<Longrightarrow> ?thesis"
    by (simp add: map_leniencia_def record_ok_def documents_ok_def leniencia_base_def blank_record_def
        cgu_source_nonempty)
next
  case False
  then show "r \<in> set (map_leniencia d) \<Longrightarrow> ?thesis"
    by (auto simp: map_leniencia_def map_company_ok) (simp add: map_company_def leniencia_base_def Let_def)
qed

lemma tcu_source_nonempty:
  assumes "trim_space file_url \<noteq> []" shows "trim_space (tcu_source_url deliberacao processo file_url) \<noteq> []"
proof (cases "has_prefix (to_lower (trim_space deliberacao)) (lit ''http'')")
  case True
  then have "trim_space deliberacao \<noteq> []" by (auto simp: has_prefix_iff to_lower_def lit_def)
  with True show ?thesis by (simp add: tcu_source_url_def)
next
  case False
  then show ?thesis using assms by (simp add: tcu_source_url_def Let_def literal_source)
qed

lemma tcu_row_ok:
  "tcu_row f file_url cols row = Some r \<Longrightarrow> trim_space file_url \<noteq> [] \<Longrightarrow> record_ok r"
  by (auto simp: tcu_row_def Let_def record_ok_with_document tcu_source_nonempty split: if_splits)

lemma tcu_rows_ok:
  "tcu_rows f file_url cols rows = Inr rs \<Longrightarrow> trim_space file_url \<noteq> [] \<Longrightarrow> r \<in> set rs \<Longrightarrow> record_ok r"
  by (induction f file_url cols rows arbitrary: rs rule: tcu_rows.induct)
    (auto split: sum.splits option.splits dest: tcu_row_ok)

section \<open>Dates come out in one form\<close>

definition year_ok :: "date_parts \<Rightarrow> bool" where
  "year_ok d \<longleftrightarrow> length (dp_year d) = 4 \<and> list_all is_digit (dp_year d)"

definition month_ok :: "date_parts \<Rightarrow> bool" where
  "month_ok d \<longleftrightarrow> 1 \<le> dp_month d \<and> dp_month d \<le> 12"

lemma parse_chunk_year: "parse_chunk c s d = Some (t, e) \<Longrightarrow> c = Year4 \<or> year_ok d \<Longrightarrow> year_ok e"
  by (cases c) (auto simp: parse_chunk_def year_ok_def split: if_splits list.splits option.splits)

lemma parse_chunk_month: "parse_chunk c s d = Some (t, e) \<Longrightarrow> c = Month2 \<or> month_ok d \<Longrightarrow> month_ok e"
  by (cases c) (auto simp: parse_chunk_def month_ok_def bounded_num_def split: if_splits list.splits option.splits)

lemma parse_chunks_year: "parse_chunks cs s d = Some e \<Longrightarrow> Year4 \<in> set cs \<or> year_ok d \<Longrightarrow> year_ok e"
  by (induction cs s d rule: parse_chunks.induct)
    (auto split: if_splits option.splits dest: parse_chunk_year)

lemma parse_chunks_month: "parse_chunks cs s d = Some e \<Longrightarrow> Month2 \<in> set cs \<or> month_ok d \<Longrightarrow> month_ok e"
  by (induction cs s d rule: parse_chunks.induct)
    (auto split: if_splits option.splits dest: parse_chunk_month)

definition date_ok :: "date_parts \<Rightarrow> bool" where
  "date_ok d \<longleftrightarrow> year_ok d \<and> month_ok d \<and> valid_day d"

lemma time_parse_ok:
  "time_parse l s = Some d \<Longrightarrow> Year4 \<in> set l \<Longrightarrow> Month2 \<in> set l \<Longrightarrow> date_ok d"
  by (auto simp: time_parse_def date_ok_def split: option.splits if_splits
      intro: parse_chunks_year parse_chunks_month)

lemma layouts_dated: "l \<in> set layouts \<Longrightarrow> Year4 \<in> set l \<and> Month2 \<in> set l"
  by (auto simp: layouts_def layout_iso_def)

lemma first_layout_ok:
  "(\<And>l. l \<in> set ls \<Longrightarrow> Year4 \<in> set l \<and> Month2 \<in> set l) \<Longrightarrow>
     first_layout ls s = [] \<or> (\<exists>d. date_ok d \<and> first_layout ls s = format_date d)"
  by (induction ls) (auto split: option.splits dest: time_parse_ok)

lemma normalize_date_cases:
  "normalize_date s = [] \<or> (\<exists>d. date_ok d \<and> normalize_date s = format_date d)"
  using first_layout_ok [of layouts "trim_space s"] layouts_dated
  by (auto simp: normalize_date_def Let_def)

lemma getnum_two_digits: "n < 100 \<Longrightarrow> getnum b (two_digits n @ t) = Some (n, t)"
proof -
  assume "n < 100"
  then have "n div 10 < 10" by simp
  then show ?thesis
    by (simp add: two_digits_def is_digit_def digit_val_def)
qed

lemma days_in_le: "days_in m y \<le> 31"
  by (simp add: days_in_def)

lemma time_parse_format:
  assumes "date_ok d" shows "time_parse layout_iso (format_date d) = Some d"
proof -
  have y: "length (dp_year d) = 4" "list_all is_digit (dp_year d)"
    and m: "1 \<le> dp_month d" "dp_month d \<le> 12" and v: "valid_day d"
    using assms by (simp_all add: date_ok_def year_ok_def month_ok_def)
  have eta: "\<lparr>dp_year = dp_year d, dp_month = dp_month d, dp_day = dp_day d\<rparr> = d" by (cases d) simp
  have "dp_day d < 100"
    using v days_in_le [of "dp_month d" "digits_value 0 (dp_year d)"] by (simp add: valid_day_def)
  note two = getnum_two_digits [of "dp_month d" True] getnum_two_digits [OF this, of True "[]"]
  show ?thesis
    using y m v two
    by (simp add: eta time_parse_def format_date_def layout_iso_def parse_chunk_def bounded_num_def)
qed

lemma two_digits_digit: "n < 100 \<Longrightarrow> r \<in> set (two_digits n) \<Longrightarrow> is_digit r"
  by (auto simp: two_digits_def is_digit_def)

lemma format_date_runes:
  assumes "date_ok d" and "r \<in> set (format_date d)" shows "is_digit r \<or> r = 45"
proof -
  have "dp_day d < 100" "dp_month d < 100"
    using assms(1) days_in_le [of "dp_month d" "digits_value 0 (dp_year d)"]
    by (simp_all add: date_ok_def valid_day_def month_ok_def)
  with assms two_digits_digit show ?thesis
    by (auto simp: format_date_def date_ok_def year_ok_def list_all_iff)
qed

lemma trim_format_date: "date_ok d \<Longrightarrow> trim_space (format_date d) = format_date d"
  by (rule trim_space_none) (auto simp: is_digit_def is_space_def dest!: format_date_runes)

lemma normalize_format_date:
  assumes "date_ok d" shows "normalize_date (format_date d) = format_date d"
proof -
  have "format_date d \<noteq> []" by (simp add: format_date_def)
  then show ?thesis
    using trim_format_date [OF assms] time_parse_format [OF assms]
    by (simp add: normalize_date_def layouts_def)
qed

section \<open>Entry ids\<close>

lemma nat_digits_prefix:
  assumes "nat_digits a @ s = nat_digits b @ t"
    and "s = [] \<or> \<not> is_digit (hd s)" and "t = [] \<or> \<not> is_digit (hd t)"
  shows "a = b"
proof -
  have p: "takeWhile is_digit (nat_digits n @ u) = nat_digits n" if "u = [] \<or> \<not> is_digit (hd u)" for n u
    using that nat_digits_digit [of n] by (cases u) (simp_all add: takeWhile_append2)
  from arg_cong [OF assms(1), of "takeWhile is_digit"] show ?thesis
    by (simp add: p assms(2,3) nat_digits_inj)
qed

lemma itoa_prefix:
  assumes "itoa a @ s = itoa b @ t" and "s = [] \<or> hd s = 45" and "t = [] \<or> hd t = 45"
  shows "a = b"
proof -
  have d: "u = [] \<or> \<not> is_digit (hd u)" if "u = [] \<or> hd u = 45" for u
    using that by (auto simp: is_digit_def)
  have ne: "nat_digits n \<noteq> []" for n
    by (metis append_is_Nil_conv nat_digits.simps not_Cons_self2)
  have sg: "nat_digits n @ u \<noteq> 45 # v" for n u v
    using ne [of n] nat_digits_digit [of n] by (cases "nat_digits n") (auto simp: is_digit_def)
  show ?thesis
  proof (cases "a < 0"; cases "b < 0")
    assume "a < 0" "b < 0"
    with assms nat_digits_prefix [of "nat (- a)" s "nat (- b)" t] d show ?thesis by (simp add: itoa_def)
  next
    assume "\<not> a < 0" "\<not> b < 0"
    with assms nat_digits_prefix [of "nat a" s "nat b" t] d show ?thesis by (simp add: itoa_def)
  qed (use assms(1) sg in \<open>auto simp: itoa_def dest: sym\<close>)
qed

lemma leniencia_entry:
  "r \<in> set (map_leniencia d) \<Longrightarrow> \<exists>s. sr_entry r = itoa (le_id d) @ s \<and> (s = [] \<or> hd s = 45)"
  by (auto simp: map_leniencia_def map_company_def Let_def leniencia_base_def lit_def split: if_splits)

lemma cgu_page_ok:
  assumes "map_cgu_page registry decode body = Inr rs"
  shows "\<forall>r \<in> set rs. record_ok r \<and> sr_registry r = registry"
proof -
  have c: "record_ok (map_ceis_cnep g d) \<and> sr_registry (map_ceis_cnep g d) = g" for g d
    by (simp add: map_ceis_cnep_def record_ok_with_document cgu_source_nonempty)
  have f: "record_ok (map_ceaf d) \<and> sr_registry (map_ceaf d) = registry_ceaf" for d
    by (simp add: map_ceaf_def record_ok_with_document cgu_source_nonempty)
  show ?thesis
    using assms c f map_leniencia_ok
    by (fastforce simp: map_cgu_page_def split: if_splits option.splits cgu_page.splits)
qed

lemma tcu_csv_ok:
  assumes "parse_tcu_csv rows f file_url = Inr rs" and "trim_space file_url \<noteq> []"
  shows "\<forall>r \<in> set rs. record_ok r"
  using assms tcu_rows_ok by (fastforce simp: parse_tcu_csv_def split: list.splits sum.splits)

section \<open>Properties\<close>

text \<open>The classifier puts a document in at most one bucket, at its exact length, and never changes
  a digit: the bucket it fills holds the digits of the input.\<close>

theorem classify_document_exclusive:
  "documents_ok (classify_document raw) \<and>
   (case classify_document raw of (cpf, cnpj, masked) \<Rightarrow> cpf @ cnpj @ masked \<in> {[], digits_only (trim_space raw)})"
  using classify_ok [of raw] by (auto simp: classify_document_def Let_def)

text \<open>C35: every record of a CGU page that decodes has one clean document at most, a source to link to
  and the registry it was fetched for.\<close>

theorem cgu_page_records_ok:
  assumes "map_cgu_page registry decode body = Inr rs"
  shows "\<forall>r \<in> set rs. record_ok r \<and> sr_registry r = registry"
  using cgu_page_ok [OF assms] .

definition ceaf_example :: ceaf where
  "ceaf_example = \<lparr>ca_id = 9, ca_publicacao = lit ''05/03/2020'', ca_cpf_punido = lit ''***.222.333-**'',
     ca_nome_punido = lit ''ANA'', ca_processo = [], ca_tipo = [],
     ca_pessoa = \<lparr>pe_cpf = [], pe_cnpj = [], pe_nome = []\<rparr>, ca_orgao = []\<rparr>"

theorem cgu_page_records_ok_witness: "record_ok (map_ceaf ceaf_example)"
proof -
  have "map_cgu_page registry_ceaf (\<lambda>_ _. Some (CeafPage [ceaf_example])) [] = Inr [map_ceaf ceaf_example]"
    by (simp add: map_cgu_page_def registry_names)
  from cgu_page_records_ok [OF this] show ?thesis by simp
qed

text \<open>The same for a TCU file, whatever its header and rows: every record has one clean document at
  most and a source to link to.\<close>

theorem tcu_records_ok:
  assumes "parse_tcu_csv rows f file_url = Inr rs" and "trim_space file_url \<noteq> []"
  shows "\<forall>r \<in> set rs. record_ok r"
  using tcu_csv_ok [OF assms] .

theorem tcu_records_ok_witness:
  "case parse_tcu_csv [Inr [lit ''NOME'', lit ''CPF''], Inr [lit ''ANA'', lit ''111.222.333-44'']]
     (hd tcu_files) (lit ''http://x'') of
     Inl e \<Rightarrow> False | Inr rs \<Rightarrow> length rs = 1 \<and> list_all record_ok rs"
proof -
  let ?p = "parse_tcu_csv [Inr [lit ''NOME'', lit ''CPF''], Inr [lit ''ANA'', lit ''111.222.333-44'']]
     (hd tcu_files) (lit ''http://x'')"
  have "case ?p of Inl e \<Rightarrow> False | Inr rs \<Rightarrow> length rs = 1" by code_simp
  then obtain rs where r: "?p = Inr rs" "length rs = 1" by (auto split: sum.splits)
  have "trim_space (lit ''http://x'') \<noteq> []" by code_simp
  from tcu_records_ok [OF r(1) this] r show ?thesis by (simp add: list_all_iff)
qed

text \<open>Companies of different leniency agreements never share a sanction: their entry ids differ.\<close>

theorem leniencia_entries_apart:
  assumes "r \<in> set (map_leniencia d)" and "q \<in> set (map_leniencia e)" and "le_id d \<noteq> le_id e"
  shows "sr_entry r \<noteq> sr_entry q"
  using leniencia_entry [OF assms(1)] leniencia_entry [OF assms(2)] assms(3) itoa_prefix by metis

definition agreement :: "int \<Rightarrow> leniencia" where
  "agreement i = \<lparr>le_id = i, le_inicio = [], le_fim = [], le_orgao = [], le_situacao = [],
     le_sancoes = [\<lparr>lc_informado = [], lc_razao = [], lc_cnpj_formatado = [], lc_cnpj = []\<rparr>]\<rparr>"

theorem leniencia_entries_apart_witness:
  "sr_entry (hd (map_leniencia (agreement 1))) \<noteq> sr_entry (hd (map_leniencia (agreement 2)))"
proof (rule leniencia_entries_apart)
  show "hd (map_leniencia (agreement 1)) \<in> set (map_leniencia (agreement 1))"
    "hd (map_leniencia (agreement 2)) \<in> set (map_leniencia (agreement 2))"
    by (simp_all add: map_leniencia_def agreement_def)
  show "le_id (agreement 1) \<noteq> le_id (agreement 2)" by (simp add: agreement_def)
qed

text \<open>A normalised date is empty or a real calendar day written yyyy-mm-dd, and normalising it
  again gives it back.\<close>

theorem normalize_date_canonical:
  "(normalize_date s = [] \<or> (\<exists>d. date_ok d \<and> normalize_date s = format_date d)) \<and>
   normalize_date (normalize_date s) = normalize_date s"
proof -
  have "normalize_date [] = []" by (simp add: normalize_date_def trim_space_none)
  then show ?thesis using normalize_date_cases [of s] normalize_format_date by auto
qed

end
