(* ===== verification/Sanctions.thy ===== *)
theory Sanctions
  imports Sanction_Store Sanction_Records
begin

text \<open>
  The sanctions sync (\<^verbatim>\<open>backend/workers/sanctions/worker.go\<close>, the paging of \<^verbatim>\<open>client_cgu.go\<close> and the
  downloads of \<^verbatim>\<open>client_tcu.go\<close>). The worker's state is the two databases and its statistics. What
  the registries answer, and when the context is cancelled, is the environment \<open>api\<close>: any function
  of the request. The CGU loop has no bound of its own, so it takes fuel; running out of fuel is the
  result \<open>None\<close>.
\<close>

record sync_options =
  op_key :: gostr
  op_registries :: "gostr list"
  op_dry :: bool
  op_tcu_url :: gostr
  op_max_pages :: int
  op_sweep :: bool
  op_pg :: bool
  op_mg :: bool

datatype http_reply = NetFail | Reply int gostr bool

datatype csv_reply = CsvFail | CsvReply int "(err + gostr list) list"

record registry_api =
  cgu_reply :: "gostr \<Rightarrow> int \<Rightarrow> nat \<Rightarrow> http_reply"
  cgu_cancelled :: "gostr \<Rightarrow> int \<Rightarrow> nat \<Rightarrow> bool"
  cgu_decode :: "gostr \<Rightarrow> gostr \<Rightarrow> cgu_page option"
  tcu_reply :: "gostr \<Rightarrow> csv_reply"
  mg_lower :: "gostr \<Rightarrow> gostr"

record sync_state = world +
  ss_run :: gostr
  ss_sweeps :: "sweep_result list"
  ss_processed :: nat
  ss_upserted :: nat
  ss_orgs :: nat
  ss_persons :: nat
  ss_edges :: nat
  ss_pending :: nat
  ss_masked :: nat
  ss_auto :: nat
  ss_name_only :: nat
  ss_tombstoned :: nat
  ss_duplicates :: nat
  ss_skipped :: "gostr list"
  ss_failed :: "gostr list"
  ss_per :: "gostr \<Rightarrow> nat"

section \<open>The CGU client\<close>

definition cgu_registry_path :: "gostr \<Rightarrow> (gostr \<times> gostr) option" where
  "cgu_registry_path grp =
     (if grp = lit ''ceis'' then Some (lit ''ceis'', registry_ceis)
      else if grp = lit ''cnep'' then Some (lit ''cnep'', registry_cnep)
      else if grp = lit ''ceaf'' then Some (lit ''ceaf'', registry_ceaf)
      else if grp = lit ''leniencia'' then Some (lit ''acordos-leniencia'', registry_leniencia)
      else None)"

definition is_cgu_transient_400 :: "int \<Rightarrow> gostr \<Rightarrow> bool" where
  "is_cgu_transient_400 status body \<longleftrightarrow> status = 400 \<and> contains body (lit ''Erro ao executar a consulta'')"

definition next_backoff :: "nat \<Rightarrow> nat" where
  "next_backoff b = (if 30 < 2 * b then 30 else 2 * b)"

definition cgu_max_retries :: nat where
  "cgu_max_retries = 5"

text \<open>
  \<^verbatim>\<open>getPage\<close>: \<open>left\<close> attempts remain, \<open>b\<close> is the next backoff in seconds, \<open>slept\<close> the time slept so
  far. A cancelled context shows in the sleep after a failed attempt.
\<close>

fun get_page_from ::
  "(nat \<Rightarrow> http_reply) \<Rightarrow> (nat \<Rightarrow> bool) \<Rightarrow> nat \<Rightarrow> nat \<Rightarrow> nat \<Rightarrow> nat \<Rightarrow> (err + gostr) \<times> nat" where
  "get_page_from reply cancelled 0 attempt b slept = (Inl HttpError, slept)"
| "get_page_from reply cancelled (Suc left) attempt b slept =
     (let retry = (if cancelled attempt then (Inl Cancelled, slept)
                   else get_page_from reply cancelled left (Suc attempt) (next_backoff b) (slept + b)) in
      case reply attempt of
        NetFail \<Rightarrow> retry
      | Reply status body read_ok \<Rightarrow>
          if status = 200 then (if read_ok then (Inr body, slept) else (Inl HttpError, slept))
          else if status = 429 \<or> 500 \<le> status \<or> is_cgu_transient_400 status body then retry
          else (Inl HttpError, slept))"

definition get_page :: "registry_api \<Rightarrow> gostr \<Rightarrow> int \<Rightarrow> (err + gostr) \<times> nat" where
  "get_page api path page =
     get_page_from (cgu_reply api path page) (cgu_cancelled api path page) (Suc cgu_max_retries) 0 1 0"

section \<open>Linking one record\<close>

text \<open>A method call on the Postgres store: with a \<^verbatim>\<open>nil\<close> store it panics.\<close>

definition with_pg :: "sync_options \<Rightarrow> ('s, 'a) prog \<Rightarrow> ('s, 'a) prog" where
  "with_pg w m = (if op_pg w then m else throw Panic)"

definition document_evidence :: evidence where
  "document_evidence = \<lparr>ev_full_document = True, ev_masked_cpf = False, ev_source_name = [],
     ev_subject_name = [], ev_candidates = 0\<rparr>"

definition review_payload ::
  "sanction_record \<Rightarrow> gostr \<Rightarrow> gostr \<Rightarrow> gostr \<Rightarrow> rat \<Rightarrow> string list \<Rightarrow> props" where
  "review_payload rec sid pid pname conf signals =
     [''sanction_id'' \<mapsto> PStr sid, ''politician_id'' \<mapsto> PStr pid, ''politician_name'' \<mapsto> PStr pname,
      ''confidence'' \<mapsto> PNum conf, ''confidence_signals'' \<mapsto> PList (List.map lit signals),
      ''registry'' \<mapsto> PStr (sr_registry rec), ''sanctioned_name'' \<mapsto> PStr (sr_name rec),
      ''masked_cpf'' \<mapsto> PStr (sr_masked rec), ''source_url'' \<mapsto> PStr (sr_url rec)]"

definition queue_review ::
  "sync_options \<Rightarrow> sanction_record \<Rightarrow> gostr \<Rightarrow> gostr \<Rightarrow> gostr \<Rightarrow> rat \<Rightarrow> string list \<Rightarrow> (sync_state, bool) prog" where
  "queue_review w rec sid pid pname conf signals =
     with_pg w (bindR (has_sanction_review sid pid) (\<lambda>exists.
       if exists then ret False
       else seqR (create_pending_review ''possible_politician_sanction''
                    (review_payload rec sid pid pname conf signals) ''sanctions_sync'')
                 (ret True)))"

definition count_review :: "bool \<Rightarrow> (sync_state, unit) prog" where
  "count_review created =
     modR (\<lambda>s. if created then s\<lparr>ss_pending := ss_pending s + 1\<rparr> else s\<lparr>ss_duplicates := ss_duplicates s + 1\<rparr>)"

definition count_tombstoned :: "(sync_state, unit) prog" where
  "count_tombstoned = modR (\<lambda>s. s\<lparr>ss_tombstoned := ss_tombstoned s + 1\<rparr>)"

definition count_edge :: "(sync_state, unit) prog" where
  "count_edge = modR (\<lambda>s. s\<lparr>ss_edges := ss_edges s + 1\<rparr>)"

definition link_document :: "string \<Rightarrow> gostr \<Rightarrow> gostr \<Rightarrow> (sync_state, unit) prog" where
  "link_document nt nid sid =
     (case auto_link document_evidence of (_, conf, signals) \<Rightarrow>
        seqR (ensure_sanctioned_in_edge nt nid sid conf signals) count_edge)"

definition link_cnpj :: "sync_options \<Rightarrow> sanction_record \<Rightarrow> gostr \<Rightarrow> (sync_state, unit) prog" where
  "link_cnpj w rec sid =
     with_pg w (bindR (is_subject_purged [tombstone_key_cnpj (sr_cnpj rec)]) (\<lambda>purged.
       if purged then count_tombstoned
       else bindR (ensure_organization_by_cnpj (sr_cnpj rec)) (\<lambda>(org, created).
         seqR (whenR created (modR (\<lambda>s. s\<lparr>ss_orgs := ss_orgs s + 1\<rparr>)))
              (link_document ''Organization'' org sid))))"

definition link_full_cpf :: "sync_options \<Rightarrow> sanction_record \<Rightarrow> gostr \<Rightarrow> (sync_state, unit) prog" where
  "link_full_cpf w rec sid =
     with_pg w (bindR (is_subject_purged [tombstone_key_cpf (sr_cpf rec), tombstone_key_name (sr_name rec)]) (\<lambda>purged.
       if purged then count_tombstoned
       else bindR (find_subject_by_cpf (sr_cpf rec)) (\<lambda>(nt, nid).
         if nt = [] then
           bindR (upsert_person_by_cpf (sr_name rec) (sr_cpf rec)) (\<lambda>(person, created).
             seqR (whenR created (modR (\<lambda>s. s\<lparr>ss_persons := ss_persons s + 1\<rparr>)))
                  (link_document ''Person'' person sid))
         else link_document nt nid sid)))"

definition masked_evidence :: "sanction_record \<Rightarrow> nat \<Rightarrow> politician_match \<Rightarrow> evidence" where
  "masked_evidence rec n m =
     \<lparr>ev_full_document = False, ev_masked_cpf = True, ev_source_name = sr_name rec,
      ev_subject_name = pm_name m, ev_candidates = int n\<rparr>"

definition link_masked_one ::
  "sync_options \<Rightarrow> sanction_record \<Rightarrow> gostr \<Rightarrow> nat \<Rightarrow> politician_match \<Rightarrow> (sync_state, unit) prog" where
  "link_masked_one w rec sid n m =
     seqR (modR (\<lambda>s. s\<lparr>ss_masked := ss_masked s + 1\<rparr>))
       (case auto_link (masked_evidence rec n m) of (auto, conf, signals) \<Rightarrow>
          if \<not> auto then bindR (queue_review w rec sid (pm_id m) (pm_name m) conf signals) count_review
          else with_pg w (bindR (is_subject_purged [tombstone_key_name (pm_name m)]) (\<lambda>purged.
            if purged then count_tombstoned
            else seqR (ensure_sanctioned_in_edge ''Politician'' (pm_id m) sid conf signals)
                   (seqR count_edge (modR (\<lambda>s. s\<lparr>ss_auto := ss_auto s + 1\<rparr>))))))"

definition link_masked_cpf :: "sync_options \<Rightarrow> sanction_record \<Rightarrow> gostr \<Rightarrow> (sync_state, unit) prog" where
  "link_masked_cpf w rec sid =
     bindR (match_politicians_by_masked_cpf (sr_masked rec)) (\<lambda>ms.
       forR (link_masked_one w rec sid (length ms)) ms)"

definition link_name_only ::
  "sync_options \<Rightarrow> registry_api \<Rightarrow> sanction_record \<Rightarrow> gostr \<Rightarrow> (sync_state, unit) prog" where
  "link_name_only w api rec sid =
     seqR (modR (\<lambda>s. s\<lparr>ss_name_only := ss_name_only s + 1\<rparr>))
       (let name = trim_space (sr_name rec) in
        if name = [] then ret ()
        else bindR (match_politician_by_name (mg_lower api) name) (\<lambda>pol.
          if pol = [] then ret ()
          else (case score \<lparr>ev_full_document = False, ev_masked_cpf = False, ev_source_name = sr_name rec,
                            ev_subject_name = name, ev_candidates = 0\<rparr> of (conf, signals) \<Rightarrow>
            bindR (queue_review w rec sid pol name conf signals) count_review)))"

definition record_upsert :: "sanction_record \<Rightarrow> gostr \<Rightarrow> sanction_upsert" where
  "record_upsert rec run =
     \<lparr>su_registry = sr_registry rec, su_entry = sr_entry rec, su_type = sr_type rec, su_organ = sr_organ rec,
      su_start = sr_start rec, su_end = sr_end rec, su_process = sr_process rec, su_url = sr_url rec,
      su_run = run\<rparr>"

definition apply_record :: "sync_options \<Rightarrow> registry_api \<Rightarrow> sanction_record \<Rightarrow> (sync_state, unit) prog" where
  "apply_record w api rec =
     seqR (modR (\<lambda>s. s\<lparr>ss_processed := ss_processed s + 1,
                      ss_per := (ss_per s)(sr_registry rec := ss_per s (sr_registry rec) + 1)\<rparr>))
       (if op_dry w then
          modR (\<lambda>s. if sr_masked rec \<noteq> [] then s\<lparr>ss_masked := ss_masked s + 1\<rparr>
                    else if sr_cnpj rec = [] \<and> sr_cpf rec = [] then s\<lparr>ss_name_only := ss_name_only s + 1\<rparr>
                    else s)
        else
          bindR (getR ss_run) (\<lambda>run.
          bindR (upsert_sanction (record_upsert rec run)) (\<lambda>sid.
          seqR (modR (\<lambda>s. s\<lparr>ss_upserted := ss_upserted s + 1\<rparr>))
            (if sr_cnpj rec \<noteq> [] then link_cnpj w rec sid
             else if sr_cpf rec \<noteq> [] then link_full_cpf w rec sid
             else if sr_masked rec \<noteq> [] then link_masked_cpf w rec sid
             else link_name_only w api rec sid))))"

section \<open>Registries\<close>

definition save_state :: "sync_options \<Rightarrow> gostr \<Rightarrow> int \<Rightarrow> int \<Rightarrow> (sync_state, unit) prog" where
  "save_state w registry page seen =
     (if op_dry w \<or> \<not> op_pg w then ret ()
      else bindR (getR clock) (\<lambda>now. upsert_sanction_import_state registry (page - 1) seen now))"

definition failure_mark :: "gostr \<Rightarrow> int \<Rightarrow> gostr" where
  "failure_mark grp page = grp @ lit ''@p'' @ itoa page"

fun cgu_pages ::
  "sync_options \<Rightarrow> registry_api \<Rightarrow> gostr \<Rightarrow> gostr \<Rightarrow> gostr \<Rightarrow> nat \<Rightarrow> int \<Rightarrow> int \<Rightarrow> (sync_state, unit option) prog" where
  "cgu_pages w api grp path registry 0 page seen = ret None"
| "cgu_pages w api grp path registry (Suc fuel) page seen =
     (if 0 < op_max_pages w \<and> op_max_pages w < page then seqR (save_state w registry page seen) (ret (Some ()))
      else case fst (get_page api path page) of
          Inl Cancelled \<Rightarrow> throw Cancelled
        | Inl e \<Rightarrow> seqR (modR (\<lambda>s. s\<lparr>ss_failed := ss_failed s @ [failure_mark grp page]\<rparr>))
                      (seqR (save_state w registry page seen) (ret (Some ())))
        | Inr body \<Rightarrow>
            (case map_cgu_page registry (cgu_decode api) body of
               Inl e \<Rightarrow> throw e
             | Inr [] \<Rightarrow> seqR (save_state w registry page seen) (ret (Some ()))
             | Inr recs \<Rightarrow>
                 seqR (forR (apply_record w api) recs)
                   (seqR (save_state w registry (page + 1) (seen + int (length recs)))
                     (cgu_pages w api grp path registry fuel (page + 1) (seen + int (length recs))))))"

definition run_cgu_registry ::
  "nat \<Rightarrow> sync_options \<Rightarrow> registry_api \<Rightarrow> gostr \<Rightarrow> (sync_state, unit option) prog" where
  "run_cgu_registry fuel w api grp =
     (case cgu_registry_path grp of
        None \<Rightarrow> throw (Refused ''unknown cgu registry'')
      | Some (path, registry) \<Rightarrow>
          if trim_space (op_key w) = [] then throw (Refused ''TRANSPARENCIA_API_KEY is required'')
          else cgu_pages w api grp path registry fuel 1 0)"

definition tcu_base_url :: "sync_options \<Rightarrow> gostr" where
  "tcu_base_url w =
     (let base = trim_right_rune 47 (trim_space (op_tcu_url w)) in
      if base = [] then lit ''https://sites.tcu.gov.br/dados-abertos/inidoneos-irregulares/arquivos'' else base)"

definition download_and_parse_tcu :: "registry_api \<Rightarrow> gostr \<Rightarrow> tcu_file \<Rightarrow> err + sanction_record list" where
  "download_and_parse_tcu api url f =
     (case tcu_reply api url of
        CsvFail \<Rightarrow> Inl HttpError
      | CsvReply status rows \<Rightarrow> if status \<noteq> 200 then Inl HttpError else parse_tcu_csv rows f url)"

definition run_tcu_file :: "sync_options \<Rightarrow> registry_api \<Rightarrow> tcu_file \<Rightarrow> (sync_state, unit) prog" where
  "run_tcu_file w api f =
     (case download_and_parse_tcu api (tcu_base_url w @ lit ''/'' @ tf_filename f) f of
        Inl e \<Rightarrow> throw e
      | Inr recs \<Rightarrow>
          seqR (forR (apply_record w api) recs)
            (if \<not> op_dry w \<and> op_pg w
             then bindR (getR clock) (\<lambda>now.
               upsert_sanction_import_state (tf_registry f) 0 (int (length recs)) now)
             else ret ()))"

definition run_tcu :: "sync_options \<Rightarrow> registry_api \<Rightarrow> (sync_state, unit) prog" where
  "run_tcu w api = forR (run_tcu_file w api) tcu_files"

section \<open>The sweep and the run\<close>

definition registry_failed :: "gostr \<Rightarrow> sync_state \<Rightarrow> bool" where
  "registry_failed registry s \<longleftrightarrow>
     (\<exists>f \<in> set (ss_failed s).
        has_prefix (to_lower f) (to_lower registry @ lit ''@'') \<or> to_lower f = to_lower registry)"

definition sweep :: "sync_options \<Rightarrow> gostr \<Rightarrow> (sync_state, unit) prog" where
  "sweep w registry =
     (if \<not> op_sweep w \<or> op_dry w \<or> \<not> op_mg w then ret ()
      else if 0 < op_max_pages w then ret ()
      else bindR (getR (registry_failed registry)) (\<lambda>failed.
        if failed then ret ()
        else bindR (getR ss_run) (\<lambda>run.
          bindR (attemptR (sweep_retracted_sanctions registry run default_retraction_guard)) (\<lambda>r.
            case r of Inl e \<Rightarrow> ret () | Inr res \<Rightarrow> modR (\<lambda>s. s\<lparr>ss_sweeps := ss_sweeps s @ [res]\<rparr>)))))"

definition all_registries :: "gostr list" where
  "all_registries = [lit ''ceis'', lit ''cnep'', lit ''ceaf'', lit ''leniencia'', lit ''tcu'']"

definition selected_registries :: "gostr list \<Rightarrow> gostr list" where
  "selected_registries requested =
     (if requested = [] then all_registries
      else dedup_by (\<lambda>r. r) {} (filter (\<lambda>r. r \<noteq> []) (List.map (\<lambda>r. to_lower (trim_space r)) requested)))"

definition plan_registries :: "gostr list \<Rightarrow> bool \<Rightarrow> err + gostr list \<times> gostr list" where
  "plan_registries selected has_key =
     (let has_tcu = list_ex (\<lambda>g. g = lit ''tcu'') selected;
          has_cgu = list_ex (\<lambda>g. g \<noteq> lit ''tcu'') selected
      in if has_key \<or> \<not> has_cgu then Inr (selected, [])
         else if \<not> has_tcu then Inl (Refused ''TRANSPARENCIA_API_KEY is required'')
         else Inr (filter (\<lambda>g. g = lit ''tcu'') selected, filter (\<lambda>g. g \<noteq> lit ''tcu'') selected))"

definition tcu_registries :: "gostr list" where
  "tcu_registries = [lit ''TCU_IRREGULAR'', lit ''TCU_INABILITADO'', lit ''TCU_INIDONEO'']"

definition run_group :: "nat \<Rightarrow> sync_options \<Rightarrow> registry_api \<Rightarrow> gostr \<Rightarrow> (sync_state, unit option) prog" where
  "run_group fuel w api grp =
     (if grp \<in> {lit ''ceis'', lit ''cnep'', lit ''ceaf'', lit ''leniencia''} then
        bindR (run_cgu_registry fuel w api grp) (\<lambda>r.
          case r of None \<Rightarrow> ret None | Some u \<Rightarrow> seqR (sweep w (to_upper grp)) (ret (Some ())))
      else if grp = lit ''tcu'' then
        seqR (run_tcu w api) (seqR (forR (sweep w) tcu_registries) (ret (Some ())))
      else throw (Refused ''unknown registry''))"

fun run_groups :: "nat \<Rightarrow> sync_options \<Rightarrow> registry_api \<Rightarrow> gostr list \<Rightarrow> (sync_state, unit option) prog" where
  "run_groups fuel w api [] = ret (Some ())"
| "run_groups fuel w api (g # gs) =
     bindR (run_group fuel w api g) (\<lambda>r. case r of None \<Rightarrow> ret None | Some u \<Rightarrow> run_groups fuel w api gs)"

definition new_run_id :: "gostr \<Rightarrow> gostr" where
  "new_run_id stamp = lit ''run_'' @ stamp"

definition reset_stats :: "gostr \<Rightarrow> sync_state \<Rightarrow> sync_state" where
  "reset_stats stamp s =
     s\<lparr>ss_run := new_run_id stamp, ss_sweeps := [], ss_processed := 0, ss_upserted := 0, ss_orgs := 0,
       ss_persons := 0, ss_edges := 0, ss_pending := 0, ss_masked := 0, ss_auto := 0, ss_name_only := 0,
       ss_tombstoned := 0, ss_duplicates := 0, ss_skipped := [], ss_failed := [], ss_per := (\<lambda>_. 0)\<rparr>"

definition run_sync :: "nat \<Rightarrow> sync_options \<Rightarrow> registry_api \<Rightarrow> gostr \<Rightarrow> (sync_state, unit option) prog" where
  "run_sync fuel w api stamp =
     seqR (modR (reset_stats stamp))
       (if \<not> op_dry w \<and> \<not> op_mg w then throw (Refused ''memgraph writer is required unless --dry-run'')
        else case plan_registries (selected_registries (op_registries w)) (trim_space (op_key w) \<noteq> []) of
            Inl e \<Rightarrow> throw e
          | Inr (to_run, skipped) \<Rightarrow>
              seqR (modR (\<lambda>s. if skipped \<noteq> [] then s\<lparr>ss_skipped := skipped\<rparr> else s))
                (run_groups fuel w api to_run))"

section \<open>Orders the whole run respects\<close>

text \<open>
  What the worker asks of the stores: an order that does not look at the statistics and that each
  statement respects where the worker uses it. An edge is written with a document-grade confidence
  only; an organisation or a person is created only while no tombstone covers it; a review is filed
  only while the pair has none. Everything the worker does then respects the order, wherever a
  database call fails.
\<close>

lemma usable_digits:
  assumes "\<forall>r \<in> set d. is_digit r" and "d \<noteq> []"
  shows "usable_key (tombstone_key_cnpj d)" "usable_key (tombstone_key_cpf d)"
proof -
  have "usable_key (lit (CHR ''c'' # s) @ d)" for s
  proof -
    have "trim_space (lit (CHR ''c'' # s) @ d) \<noteq> []"
      by (rule trim_right_nonempty [of 99]) (simp_all add: lit_def is_space_def)
    moreover have "\<not> has_suffix (lit (CHR ''c'' # s) @ d) (lit '':'')"
    proof
      assume "has_suffix (lit (CHR ''c'' # s) @ d) (lit '':'')"
      then obtain u where "lit (CHR ''c'' # s) @ d = u @ [58]" by (auto simp: has_suffix_iff lit_def)
      then have "last d = 58" using assms(2) by (metis last_appendR last_snoc)
      with assms show False using last_in_set [OF assms(2)] by (auto simp: is_digit_def)
    qed
    ultimately show ?thesis by (simp add: usable_key_def)
  qed
  then show "usable_key (tombstone_key_cnpj d)" "usable_key (tombstone_key_cpf d)"
    by (simp_all add: tombstone_key_cnpj_def tombstone_key_cpf_def)
qed

lemma find_subject_frame: "\<exists>fs. snd (find_subject_by_cpf c s) = s\<lparr>faults := fs\<rparr>"
proof -
  have self: "\<exists>fs. s = s\<lparr>faults := fs\<rparr>" for s :: "'z world_scheme" by (rule exI [of _ "faults s"]) simp
  have read: "\<exists>fs. snd (cypher_read f s) = s\<lparr>faults := fs\<rparr>" for f and s :: "'z world_scheme"
    using sql_read_cases [of "\<lambda>s. f (graph s)" s] self [of s]
    by (auto simp: cypher_read_def sql_read_def)
  have read': "\<exists>fs. snd (cypher_read_unchecked d f s) = s\<lparr>faults := fs\<rparr>" for d f and s :: "'z world_scheme"
    using cypher_read_unchecked_cases [of d f s] read [of f s] by auto
  have then_read: "\<exists>fs. snd (bindR (cypher_read_unchecked d f) k s) = s\<lparr>faults := fs\<rparr>"
    if "\<And>a t. \<exists>fs. snd (k a t) = t\<lparr>faults := fs\<rparr>" for d f k and s :: "'z world_scheme"
  proof -
    obtain r t where c: "cypher_read_unchecked d f s = (r, t)" by fastforce
    with read' [of d f s] obtain fs where t: "t = s\<lparr>faults := fs\<rparr>" by auto
    show ?thesis using c t that by (cases r) (auto simp: bindR_def, metis world.update_convs(9) world.surjective)
  qed
  show ?thesis
    unfolding find_subject_by_cpf_def Let_def
    by (auto simp: ret_def self split: option.split intro!: then_read)
qed

lemma tcu_base_nonempty: "trim_space (tcu_base_url w @ lit ''/'' @ u) \<noteq> []"
  by (rule trim_right_nonempty [of 47]) (simp_all add: lit_def is_space_def)

lemma tcu_download_ok:
  "download_and_parse_tcu api (tcu_base_url w @ lit ''/'' @ tf_filename f) f = Inr recs \<Longrightarrow>
     \<forall>r \<in> set recs. record_ok r"
  using tcu_base_nonempty tcu_csv_ok
  by (auto simp: download_and_parse_tcu_def split: csv_reply.splits if_splits)

locale sanction_stores = world_order R for R :: "sync_state \<Rightarrow> sync_state \<Rightarrow> bool" +
  assumes stats: "world.truncate s = world.truncate t \<Longrightarrow> R s t"
    and upsert: "moves R (upsert_sanction u)"
    and edge: "auto_link_threshold \<le> conf \<Longrightarrow> moves R (ensure_sanctioned_in_edge nt nid sid conf signals)"
    and org: "\<not> buried s (tombstone_key_cnpj (digits_only d)) \<Longrightarrow> R s (snd (ensure_organization_by_cnpj d s))"
    and person: "\<not> buried s (tombstone_key_cpf (digits_only d)) \<Longrightarrow>
      (usable_key (tombstone_key_name n) \<Longrightarrow> \<not> buried s (tombstone_key_name n)) \<Longrightarrow>
      R s (snd (upsert_person_by_cpf n d s))"
    and review: "\<not> (\<exists>r \<in> set (reviews s). is_sanction_review sid pid r) \<Longrightarrow>
      R s (snd (create_pending_review ''possible_politician_sanction''
                 (review_payload rec sid pid pname conf signals) ''sanctions_sync'' s))"
    and retract: "moves R (sweep_retracted_sanctions registry run gd)"
    and import_state: "moves R (upsert_sanction_import_state registry page seen now)"
begin

lemma stat: "(\<And>s. world.truncate (f s) = world.truncate s) \<Longrightarrow> moves R (modR f)"
  by (rule modR) (rule stats, simp)

lemma pg [order_intros]: "moves R m \<Longrightarrow> moves R (with_pg w m)"
  by (simp add: with_pg_def throw)

lemma counts [order_intros]: "moves R count_tombstoned" "moves R count_edge" "moves R (count_review b)"
  unfolding count_tombstoned_def count_edge_def count_review_def
  by (rule stat, simp add: world.truncate_def)+

lemma auto_document: "fst (auto_link e) \<Longrightarrow> auto_link_threshold \<le> fst (snd (auto_link e))"
  by (simp add: auto_link_def)

lemma link_document [order_intros]: "moves R (link_document nt nid sid)"
proof -
  have "fst (auto_link document_evidence)" by (simp add: auto_link_cases document_evidence_def)
  from auto_document [OF this] show ?thesis
    unfolding link_document_def by (auto simp: case_prod_beta intro!: seqR edge counts)
qed

lemma queue_review [order_intros]: "moves R (queue_review w rec sid pid pname conf signals)"
  unfolding queue_review_def
proof (intro pg movesI, rule review_guard.guarded [where R = R], erule (1) trans)
  show "R s (snd (has_sanction_review sid pid s))" for s
    using has_sanction_review by (rule movesD)
  show "R s (snd (ret False s))" for s by (simp add: ret_def)
  show "R s (snd (seqR (create_pending_review ''possible_politician_sanction''
      (review_payload rec sid pid pname conf signals) ''sanctions_sync'') (ret True) s))"
    if "\<not> (\<exists>r \<in> set (reviews s). is_sanction_review sid pid r)" for s
    unfolding seqR_def by (rule bindR_at, rule review, rule that) (simp add: ret_def)
qed

lemma link_cnpj [order_intros]:
  assumes "digits_of_length 14 (sr_cnpj rec)"
  shows "moves R (link_cnpj w rec sid)"
  unfolding link_cnpj_def
proof (intro pg movesI, rule tombstones.subject.guarded [where R = R], erule (1) trans)
  show "R s (snd (is_subject_purged [tombstone_key_cnpj (sr_cnpj rec)] s))" for s
    using is_subject_purged by (rule movesD)
  show "R s (snd (count_tombstoned s))" for s using counts(1) by (rule movesD)
  have d: "digits_only (sr_cnpj rec) = sr_cnpj rec" "usable_key (tombstone_key_cnpj (sr_cnpj rec))"
    using assms by (auto simp: digits_of_length_def intro!: digits_only_id usable_digits)
  have rest: "moves R (case p of (org, created) \<Rightarrow>
      seqR (whenR created (modR (\<lambda>s. s\<lparr>ss_orgs := ss_orgs s + 1\<rparr>)))
        (link_document ''Organization'' org sid))" for p
    by (intro moves_prod seqR whenR stat link_document) (simp add: world.truncate_def)
  show "R s (snd (bindR (ensure_organization_by_cnpj (sr_cnpj rec)) (\<lambda>(org, created).
      seqR (whenR created (modR (\<lambda>s. s\<lparr>ss_orgs := ss_orgs s + 1\<rparr>)))
        (link_document ''Organization'' org sid)) s))"
    if "\<not> (\<exists>k \<in> set [tombstone_key_cnpj (sr_cnpj rec)]. usable_key k \<and> buried s k)" for s
    by (rule bindR_at, rule org) (use that d movesD [OF rest] in simp_all)
qed

lemma link_full_cpf [order_intros]:
  assumes "digits_of_length 11 (sr_cpf rec)"
  shows "moves R (link_full_cpf w rec sid)"
  unfolding link_full_cpf_def
proof (intro pg movesI, rule tombstones.subject.guarded [where R = R], erule (1) trans)
  let ?keys = "[tombstone_key_cpf (sr_cpf rec), tombstone_key_name (sr_name rec)]"
  show "R s (snd (is_subject_purged ?keys s))" for s
    using is_subject_purged by (rule movesD)
  show "R s (snd (count_tombstoned s))" for s using counts(1) by (rule movesD)
  have d: "digits_only (sr_cpf rec) = sr_cpf rec" "usable_key (tombstone_key_cpf (sr_cpf rec))"
    using assms by (auto simp: digits_of_length_def intro!: digits_only_id usable_digits)
  let ?created = "\<lambda>(person, created).
      seqR (whenR created (modR (\<lambda>s. s\<lparr>ss_persons := ss_persons s + 1\<rparr>))) (link_document ''Person'' person sid)"
  have rest: "moves R (?created p)" for p
    by (intro moves_prod seqR whenR stat link_document) (simp add: world.truncate_def)
  have frame: "\<exists>fs. snd (find_subject_by_cpf c s) = s\<lparr>faults := fs\<rparr>" for c and s :: sync_state
    by (rule find_subject_frame)
  fix s :: sync_state
  assume b: "\<not> (\<exists>k \<in> set ?keys. usable_key k \<and> buried s k)"
  have new: "R t (snd (bindR (upsert_person_by_cpf (sr_name rec) (sr_cpf rec)) ?created t))"
    if "find_subject_by_cpf (sr_cpf rec) s = (a, t)" for a and t :: sync_state
  proof (rule bindR_at, rule person)
    have "\<exists>fs. t = s\<lparr>faults := fs\<rparr>" using frame [of "sr_cpf rec" s] that by auto
    then obtain fs where "t = s\<lparr>faults := fs\<rparr>" by blast
    with b d show "\<not> buried t (tombstone_key_cpf (digits_only (sr_cpf rec)))"
      "usable_key (tombstone_key_name (sr_name rec)) \<Longrightarrow> \<not> buried t (tombstone_key_name (sr_name rec))"
      by simp_all
    show "R u (snd (?created p u))" for p u using rest by (rule movesD)
  qed
  show "R s (snd (bindR (find_subject_by_cpf (sr_cpf rec)) (\<lambda>(nt, nid).
      if nt = [] then bindR (upsert_person_by_cpf (sr_name rec) (sr_cpf rec)) ?created
      else link_document nt nid sid) s))"
  proof (rule bindR_at)
    show "R s (snd (find_subject_by_cpf (sr_cpf rec) s))" using find_subject_by_cpf by (rule movesD)
    fix p t assume "find_subject_by_cpf (sr_cpf rec) s = (Inr p, t)"
    from new [OF this] movesD [OF link_document]
    show "R t (snd ((case p of (nt, nid) \<Rightarrow>
        if nt = [] then bindR (upsert_person_by_cpf (sr_name rec) (sr_cpf rec)) ?created
        else link_document nt nid sid) t))"
      by (cases p) simp
  qed
qed

lemma link_masked_one [order_intros]: "moves R (link_masked_one w rec sid n m)"
proof -
  let ?e = "masked_evidence rec n m"
  have edge: "moves R (ensure_sanctioned_in_edge ''Politician'' (pm_id m) sid (fst (snd (auto_link ?e))) signals)"
    if "fst (auto_link ?e)" for signals
    by (rule edge, rule auto_document, rule that)
  show ?thesis
    unfolding link_masked_one_def case_prod_beta
    by (cases "fst (auto_link ?e)")
      (auto intro!: seqR stat bindR queue_review counts pg is_subject_purged moves_if edge
        simp: world.truncate_def simp del: is_subject_purged.simps)
qed

lemma link_masked_cpf [order_intros]: "moves R (link_masked_cpf w rec sid)"
  unfolding link_masked_cpf_def
  by (intro bindR match_politicians_by_masked_cpf forR link_masked_one)

lemma link_name_only [order_intros]: "moves R (link_name_only w api rec sid)"
  unfolding link_name_only_def Let_def
  by (intro seqR stat moves_if ret bindR match_politician_by_name moves_prod queue_review counts)
    (simp add: world.truncate_def)

lemma apply_record:
  assumes "record_ok rec"
  shows "moves R (apply_record w api rec)"
proof -
  have cnpj: "moves R (link_cnpj w rec sid)" if "sr_cnpj rec \<noteq> []" for sid
    using assms that by (intro link_cnpj) (simp add: record_ok_def documents_ok_def)
  have cpf: "moves R (link_full_cpf w rec sid)" if "sr_cpf rec \<noteq> []" for sid
    using assms that by (intro link_full_cpf) (simp add: record_ok_def documents_ok_def)
  have link: "moves R (if sr_cnpj rec \<noteq> [] then link_cnpj w rec sid
      else if sr_cpf rec \<noteq> [] then link_full_cpf w rec sid
      else if sr_masked rec \<noteq> [] then link_masked_cpf w rec sid
      else link_name_only w api rec sid)" for sid
    using cnpj cpf link_masked_cpf link_name_only by simp
  show ?thesis
    unfolding apply_record_def
    by (intro seqR stat moves_if bindR getR upsert link) (simp_all add: world.truncate_def)
qed

lemma apply_records:
  "\<forall>rec \<in> set recs. record_ok rec \<Longrightarrow> moves R (forR (apply_record w api) recs)"
  by (induction recs) (simp_all add: ret seqR apply_record)

lemma save_state [order_intros]: "moves R (save_state w registry page seen)"
  unfolding save_state_def by (intro moves_if ret bindR getR import_state)

lemma cgu_pages [order_intros]: "moves R (cgu_pages w api grp path registry fuel page seen)"
proof (induction w api grp path registry fuel page seen rule: cgu_pages.induct)
  case (1 w api grp path registry page seen)
  show ?case by (simp add: ret)
next
  case (2 w api grp path registry fuel page seen)
  have fail: "moves R (modR (\<lambda>s. s\<lparr>ss_failed := ss_failed s @ [failure_mark grp page]\<rparr>) :: (sync_state, unit) prog)"
    by (rule stat) (simp add: world.truncate_def)
  have recs: "moves R (forR (apply_record w api) recs)"
    if "map_cgu_page registry (cgu_decode api) body = Inr recs" for body recs
    by (rule apply_records) (use cgu_page_ok [OF that] in blast)
  show ?case
    using "2.IH" recs
    by (auto simp del: forR.simps intro!: seqR save_state ret throw fail
        split: sum.split err.split list.split)
qed

lemma run_cgu_registry [order_intros]: "moves R (run_cgu_registry fuel w api grp)"
  unfolding run_cgu_registry_def
  by (intro moves_option throw moves_prod moves_if cgu_pages)

lemma sweep [order_intros]: "moves R (sweep w registry)"
  unfolding sweep_def
  by (intro moves_if ret bindR getR attemptR retract moves_sum stat) (simp add: world.truncate_def)

lemma run_tcu [order_intros]: "moves R (run_tcu w api)"
proof -
  have "moves R (forR (apply_record w api) recs)"
    if "download_and_parse_tcu api (tcu_base_url w @ lit ''/'' @ tf_filename f) f = Inr recs" for f recs
    by (rule apply_records) (use tcu_download_ok [OF that] in blast)
  then show ?thesis
    unfolding run_tcu_def run_tcu_file_def
    by (intro forR) (auto intro!: throw seqR ret bindR getR import_state split: sum.split)
qed

lemma run_groups [order_intros]: "moves R (run_groups fuel w api gs)"
proof (induction gs)
  case Nil
  show ?case by (simp add: ret)
next
  case (Cons g gs)
  have "moves R (run_group fuel w api g)"
    unfolding run_group_def
    by (intro moves_if bindR run_cgu_registry moves_option ret seqR sweep run_tcu forR throw)
  with Cons show ?case by (auto intro!: bindR moves_option ret)
qed

lemma run_sync: "moves R (run_sync fuel w api stamp)"
  unfolding run_sync_def
  by (intro seqR stat moves_if throw moves_sum moves_prod run_groups)
    (simp_all add: world.truncate_def reset_stats_def)

end

section \<open>The orders\<close>

lemma truncate_sel:
  assumes "world.truncate s = world.truncate t"
  shows "graph s = graph t" "tombs s = tombs t" "reviews s = reviews t"
  using arg_cong [OF assms, of graph] arg_cong [OF assms, of tombs] arg_cong [OF assms, of reviews]
  by (simp_all add: world.truncate_def)

text \<open>At most one sanction review per pair of sanction and politician.\<close>

definition same_review :: "review \<Rightarrow> review \<Rightarrow> bool" where
  "same_review a b \<longleftrightarrow> (\<exists>sid pid. is_sanction_review sid pid a \<and> is_sanction_review sid pid b)"

definition reviews_once :: "'z world_scheme \<Rightarrow> bool" where
  "reviews_once s \<longleftrightarrow> sorted_wrt (\<lambda>a b. \<not> same_review a b) (reviews s)"

definition keeps_once :: "'z world_scheme \<Rightarrow> 'z world_scheme \<Rightarrow> bool" where
  "keeps_once s t \<longleftrightarrow> (reviews_once s \<longrightarrow> reviews_once t)"

interpretation keeps_once: world_order keeps_once
  by unfold_locales (auto simp: keeps_once_def reviews_once_def)

lemma once_same: "reviews s = reviews t \<Longrightarrow> keeps_once s t"
  by (simp add: keeps_once_def reviews_once_def)

lemma payload_pair: "is_sanction_review a b
    \<lparr>rv_id = i, rv_type = ''possible_politician_sanction'', rv_payload = review_payload rec sid pid pname conf signals,
     rv_worker = w, rv_status = st, rv_by = by\<rparr> \<longleftrightarrow> a = sid \<and> b = pid"
  by (auto simp: is_sanction_review_def json_text_def review_payload_def)

lemma once_review:
  assumes "\<not> (\<exists>r \<in> set (reviews s). is_sanction_review sid pid r)"
  shows "keeps_once s (snd (create_pending_review ''possible_politician_sanction''
           (review_payload rec sid pid pname conf signals) ''sanctions_sync'' s))"
proof -
  have "keeps_once s (s\<lparr>faults := fs, reviews := reviews s @
      [\<lparr>rv_id = i, rv_type = ''possible_politician_sanction'', rv_payload = review_payload rec sid pid pname conf signals,
        rv_worker = ''sanctions_sync'', rv_status = ''pending'', rv_by = None\<rparr>], issued := j\<rparr>)" for fs i j
    using assms by (auto simp: keeps_once_def reviews_once_def sorted_wrt_append same_review_def payload_pair)
  note new = this this [of _ _ "faults s"]
  show ?thesis
    using new once_same
    by (auto simp: create_pending_review_def sql_def db_call_def modR_def keeps_once.faults
        split: list.splits fault.splits)
qed

lemma once_cypher: "moves keeps_once (cypher f)"
  by (rule keeps_once.cypher) (simp add: once_same)

lemma tombs_cypher: "moves same_tombs (cypher f)"
  by (rule same_tombs.cypher) (simp add: same_tombs_def)

lemma import_moves:
  assumes "\<And>s x. R s (s\<lparr>import_states := x\<rparr>)" and "\<And>f. (\<And>s. R s (f s)) \<Longrightarrow> moves R (sql f)"
  shows "moves R (upsert_sanction_import_state registry page seen now)"
  unfolding upsert_sanction_import_state_def by (rule assms(2)) (simp add: assms(1))

lemma review_moves:
  assumes "\<And>s x k. R s (s\<lparr>reviews := x, issued := k\<rparr>)" and "\<And>f. (\<And>s. R s (f s)) \<Longrightarrow> moves R (sql f)"
  shows "R s (snd (create_pending_review ty payload wk s))"
  unfolding create_pending_review_def by (rule movesD, rule assms(2)) (simp add: assms(1))

interpretation doc: sanction_stores document_grade
proof unfold_locales
  fix s t :: sync_state and u nt nid sid pid conf signals d n rec pname registry run gd page seen now
  show "world.truncate s = world.truncate t \<Longrightarrow> document_grade s t"
    using truncate_sel [of s t] by (simp add: document_grade_def)
  show "moves document_grade (upsert_sanction u)" by (rule document_upsert)
  show "auto_link_threshold \<le> conf \<Longrightarrow> moves document_grade (ensure_sanctioned_in_edge nt nid sid conf signals)"
    by (rule document_edge)
  show "document_grade s (snd (ensure_organization_by_cnpj d s))"
    by (rule movesD, rule document_grade.ensure_organization_by_cnpj, rule document_flagged)
  show "document_grade s (snd (upsert_person_by_cpf n d s))"
    by (rule movesD, rule document_grade.upsert_person_by_cpf, rule document_flagged)
  show "document_grade s (snd (create_pending_review ''possible_politician_sanction''
      (review_payload rec sid pid pname conf signals) ''sanctions_sync'' s))"
    by (rule review_moves [OF _ document_grade.sql]) (simp_all add: document_grade_def)
  show "moves document_grade (sweep_retracted_sanctions registry run gd)"
    by (rule document_grade.sweep_retracted_sanctions, rule document_retract)
  show "moves document_grade (upsert_sanction_import_state registry page seen now)"
    by (rule import_moves [OF _ document_grade.sql]) (simp_all add: document_grade_def)
qed

interpretation res: sanction_stores no_resurrection
proof unfold_locales
  fix s t :: sync_state and u nt nid sid pid conf signals d n rec pname registry run gd page seen now
  show "world.truncate s = world.truncate t \<Longrightarrow> no_resurrection s t"
    using truncate_sel [of s t] by (simp add: no_resurrection_def)
  show "moves no_resurrection (upsert_sanction u)" by (rule no_resurrection_upsert)
  show "moves no_resurrection (ensure_sanctioned_in_edge nt nid sid conf signals)"
    by (rule no_resurrection_edge)
  show "\<not> buried s (tombstone_key_cnpj (digits_only d)) \<Longrightarrow> no_resurrection s (snd (ensure_organization_by_cnpj d s))"
    by (rule no_resurrection_org)
  show "\<not> buried s (tombstone_key_cpf (digits_only d)) \<Longrightarrow>
      (usable_key (tombstone_key_name n) \<Longrightarrow> \<not> buried s (tombstone_key_name n)) \<Longrightarrow>
      no_resurrection s (snd (upsert_person_by_cpf n d s))"
    by (rule no_resurrection_person)
  show "no_resurrection s (snd (create_pending_review ''possible_politician_sanction''
      (review_payload rec sid pid pname conf signals) ''sanctions_sync'' s))"
    by (rule review_moves [OF _ no_resurrection.sql]) (simp_all add: no_resurrection_def)
  show "moves no_resurrection (sweep_retracted_sanctions registry run gd)"
    by (rule no_resurrection.sweep_retracted_sanctions, rule no_resurrection_retract)
  show "moves no_resurrection (upsert_sanction_import_state registry page seen now)"
    by (rule import_moves [OF _ no_resurrection.sql]) (simp_all add: no_resurrection_def)
qed

interpretation once: sanction_stores keeps_once
proof unfold_locales
  fix s t :: sync_state and u nt nid sid pid conf signals d n rec pname registry run gd page seen now
  show "world.truncate s = world.truncate t \<Longrightarrow> keeps_once s t"
    using truncate_sel [of s t] by (simp add: once_same)
  show "moves keeps_once (upsert_sanction u)" by (rule keeps_once.upsert_sanction, rule once_cypher)
  show "moves keeps_once (ensure_sanctioned_in_edge nt nid sid conf signals)"
    by (rule keeps_once.ensure_sanctioned_in_edge, rule once_cypher)
  show "keeps_once s (snd (ensure_organization_by_cnpj d s))"
    by (rule movesD, rule keeps_once.ensure_organization_by_cnpj, rule once_cypher)
  show "keeps_once s (snd (upsert_person_by_cpf n d s))"
    by (rule movesD, rule keeps_once.upsert_person_by_cpf, rule once_cypher)
  show "\<not> (\<exists>r \<in> set (reviews s). is_sanction_review sid pid r) \<Longrightarrow>
      keeps_once s (snd (create_pending_review ''possible_politician_sanction''
      (review_payload rec sid pid pname conf signals) ''sanctions_sync'' s))"
    by (rule once_review)
  show "moves keeps_once (sweep_retracted_sanctions registry run gd)"
    by (rule keeps_once.sweep_retracted_sanctions, rule once_cypher)
  show "moves keeps_once (upsert_sanction_import_state registry page seen now)"
    by (rule import_moves [OF _ keeps_once.sql]) (simp_all add: once_same)
qed

interpretation wf: sanction_stores keeps_wf
proof unfold_locales
  fix s t :: sync_state and u nt nid sid pid conf signals d n rec pname registry run gd page seen now
  show "world.truncate s = world.truncate t \<Longrightarrow> keeps_wf s t"
    using truncate_sel [of s t] by (simp add: keeps_wf_def)
  show "moves keeps_wf (upsert_sanction u)" by (rule wf_upsert)
  show "moves keeps_wf (ensure_sanctioned_in_edge nt nid sid conf signals)" by (rule wf_edge)
  show "keeps_wf s (snd (ensure_organization_by_cnpj d s))"
    by (rule movesD, rule keeps_wf.ensure_organization_by_cnpj, rule wf_flagged)
  show "keeps_wf s (snd (upsert_person_by_cpf n d s))"
    by (rule movesD, rule keeps_wf.upsert_person_by_cpf, rule wf_flagged)
  show "keeps_wf s (snd (create_pending_review ''possible_politician_sanction''
      (review_payload rec sid pid pname conf signals) ''sanctions_sync'' s))"
    by (rule review_moves [OF _ keeps_wf.sql]) (simp_all add: keeps_wf_def)
  show "moves keeps_wf (sweep_retracted_sanctions registry run gd)"
    by (rule keeps_wf.sweep_retracted_sanctions, rule wf_retract)
  show "moves keeps_wf (upsert_sanction_import_state registry page seen now)"
    by (rule import_moves [OF _ keeps_wf.sql]) (simp_all add: keeps_wf_def)
qed

section \<open>A dry run\<close>

definition same_world :: "sync_state \<Rightarrow> sync_state \<Rightarrow> bool" where
  "same_world s t \<longleftrightarrow> world.truncate s = world.truncate t"

interpretation same_world: state_order same_world
  by unfold_locales (auto simp: same_world_def)

lemma same_world_stat: "(\<And>s. world.truncate (f s) = world.truncate s) \<Longrightarrow> moves same_world (modR f)"
  by (rule same_world.modR) (simp add: same_world_def)

lemma dry_apply: "op_dry w \<Longrightarrow> moves same_world (apply_record w api rec)"
  unfolding apply_record_def
  by (auto intro!: same_world.seqR same_world_stat simp: world.truncate_def)

lemma dry_save: "op_dry w \<Longrightarrow> moves same_world (save_state w registry page seen)"
  by (simp add: save_state_def same_world.ret)

lemma dry_sweep: "op_dry w \<Longrightarrow> moves same_world (sweep w registry)"
  by (simp add: sweep_def same_world.ret)

lemma dry_pages: "op_dry w \<Longrightarrow> moves same_world (cgu_pages w api grp path registry fuel page seen)"
proof (induction w api grp path registry fuel page seen rule: cgu_pages.induct)
  case (1 w api grp path registry page seen)
  show ?case by (simp add: same_world.ret)
next
  case (2 w api grp path registry fuel page seen)
  have fail: "moves same_world (modR (\<lambda>s. s\<lparr>ss_failed := ss_failed s @ [failure_mark grp page]\<rparr>) :: (sync_state, unit) prog)"
    by (rule same_world_stat) (simp add: world.truncate_def)
  show ?case
    using "2.IH" "2.prems"
    by (auto simp del: forR.simps
        intro!: same_world.seqR dry_save same_world.ret same_world.throw same_world.forR dry_apply fail
        split: sum.split err.split list.split)
qed

lemma dry_run: "op_dry w \<Longrightarrow> moves same_world (run_sync fuel w api stamp)"
proof -
  assume d: "op_dry w"
  have "moves same_world (run_tcu w api)"
    using d unfolding run_tcu_def run_tcu_file_def
    by (auto intro!: same_world.forR same_world.seqR same_world.throw same_world.ret dry_apply split: sum.split)
  then have "moves same_world (run_group fuel w api g)" for g
    using d unfolding run_group_def run_cgu_registry_def
    by (intro moves_if same_world.bindR moves_option same_world.ret same_world.seqR dry_sweep
        same_world.forR same_world.throw moves_prod dry_pages)
  then have "moves same_world (run_groups fuel w api gs)" for gs
    by (induction gs) (auto intro!: same_world.bindR moves_option same_world.ret)
  then show ?thesis
    unfolding run_sync_def
    by (intro same_world.seqR same_world_stat moves_if same_world.throw moves_sum moves_prod)
      (simp_all add: world.truncate_def reset_stats_def)
qed

section \<open>Fetching\<close>

definition retryable :: "http_reply \<Rightarrow> bool" where
  "retryable r \<longleftrightarrow>
     (case r of NetFail \<Rightarrow> True
      | Reply status body _ \<Rightarrow> status \<noteq> 200 \<and> (status = 429 \<or> 500 \<le> status \<or> is_cgu_transient_400 status body))"

text \<open>The sum of the backoffs of \<open>n\<close> failed attempts that start at \<open>b\<close> seconds.\<close>

fun backoff_sum :: "nat \<Rightarrow> nat \<Rightarrow> nat" where
  "backoff_sum 0 b = 0"
| "backoff_sum (Suc n) b = b + backoff_sum n (next_backoff b)"

lemma get_page_from_slept:
  "snd (get_page_from reply cancelled left k b slept) \<le> slept + backoff_sum left b"
proof (induction reply cancelled left k b slept rule: get_page_from.induct)
  case (1 reply cancelled k b slept)
  show ?case by simp
next
  case (2 reply cancelled left k b slept)
  then show ?case by (force simp: Let_def split: http_reply.split)
qed

lemma get_page_from_ok:
  "fst (get_page_from reply cancelled left k b slept) = Inr body \<longleftrightarrow>
     (\<exists>j<left. reply (k + j) = Reply 200 body True \<and> (\<forall>i<j. retryable (reply (k + i)) \<and> \<not> cancelled (k + i)))"
proof (induction reply cancelled left k b slept rule: get_page_from.induct)
  case (1 reply cancelled k b slept)
  show ?case by simp
next
  case (2 reply cancelled left k b slept)
  let ?P = "\<lambda>j. reply (k + j) = Reply 200 body True \<and> (\<forall>i<j. retryable (reply (k + i)) \<and> \<not> cancelled (k + i))"
  have split: "(\<exists>j<Suc left. ?P j) \<longleftrightarrow> reply k = Reply 200 body True \<or>
      (retryable (reply k) \<and> \<not> cancelled k \<and>
       (\<exists>j<left. reply (Suc k + j) = Reply 200 body True \<and>
          (\<forall>i<j. retryable (reply (Suc k + i)) \<and> \<not> cancelled (Suc k + i))))"
    unfolding Ex_less_Suc2 by (simp add: All_less_Suc2) blast
  show ?case
    unfolding split using 2
    by (auto simp: Let_def retryable_def is_cgu_transient_400_def split: http_reply.split)
qed

text \<open>A page at which the loop of a registry stops.\<close>

definition stops_at :: "sync_options \<Rightarrow> registry_api \<Rightarrow> gostr \<Rightarrow> gostr \<Rightarrow> int \<Rightarrow> bool" where
  "stops_at w api path registry page \<longleftrightarrow>
     (0 < op_max_pages w \<and> op_max_pages w < page) \<or>
     (case fst (get_page api path page) of Inl e \<Rightarrow> True
      | Inr body \<Rightarrow> (case map_cgu_page registry (cgu_decode api) body of Inl e \<Rightarrow> True | Inr rs \<Rightarrow> rs = []))"

lemma seqR_not_None: "(\<And>t. fst (k t) \<noteq> Inr None) \<Longrightarrow> fst (seqR m k s) \<noteq> Inr None"
  by (auto simp: seqR_def bindR_def split: prod.splits sum.splits)

lemma ret_not_None: "fst (ret (Some u) s) \<noteq> Inr None" "fst (throw e s) \<noteq> Inr None"
  by (simp_all add: ret_def throw_def)

lemma cgu_pages_stop:
  "stops_at w api path registry p \<Longrightarrow> page \<le> p \<Longrightarrow> nat (p - page) < fuel \<Longrightarrow>
     fst (cgu_pages w api grp path registry fuel page seen s) \<noteq> Inr None"
proof (induction w api grp path registry fuel page seen arbitrary: s rule: cgu_pages.induct)
  case (1 w api grp path registry page seen)
  then show ?case by simp
next
  case (2 w api grp path registry fuel page seen)
  show ?case
  proof (cases "stops_at w api path registry page")
    case True
    then show ?thesis
      by (auto simp: stops_at_def intro!: seqR_not_None ret_not_None split: sum.split err.split list.split)
  next
    case False
    with "2.prems"(1,2) have "page + 1 \<le> p" by (cases "page = p") auto
    moreover from this "2.prems"(3) have "nat (p - (page + 1)) < fuel" by linarith
    ultimately have "\<And>b x xs s. fst (get_page api path page) = Inr b \<Longrightarrow>
        map_cgu_page registry (cgu_decode api) b = Inr (x # xs) \<Longrightarrow>
        fst (cgu_pages w api grp path registry fuel (page + 1) (seen + int (length (x # xs))) s) \<noteq> Inr None"
      using "2.IH" "2.prems"(1) False by (auto simp: stops_at_def)
    then show ?thesis
      by (auto intro!: seqR_not_None ret_not_None split: sum.split err.split list.split simp del: list.size)
  qed
qed

section \<open>No document, no edge\<close>

definition same_edges :: "'z world_scheme \<Rightarrow> 'z world_scheme \<Rightarrow> bool" where
  "same_edges s t \<longleftrightarrow> g_edges (graph s) = g_edges (graph t)"

interpretation same_edges: world_order same_edges
  by unfold_locales (auto simp: same_edges_def)

lemma same_edges_queue: "moves same_edges (queue_review w rec sid pid pname conf signals)"
  unfolding queue_review_def with_pg_def create_pending_review_def
  by (intro moves_if same_edges.bindR same_edges.has_sanction_review same_edges.ret same_edges.seqR
      same_edges.sql same_edges.throw) (simp add: same_edges_def)

lemma same_edges_count: "moves same_edges (count_review b)"
  unfolding count_review_def by (rule same_edges.modR) (simp add: same_edges_def)

lemma same_edges_upsert: "moves same_edges (upsert_sanction u)"
  by (rule same_edges.upsert_sanction, rule same_edges.cypher)
    (simp add: same_edges_def upsert_cypher_nodes)

lemma same_edges_name_only: "moves same_edges (link_name_only w api rec sid)"
  unfolding link_name_only_def Let_def
  by (intro same_edges.seqR same_edges.modR moves_if same_edges.ret same_edges.bindR
      same_edges.match_politician_by_name moves_prod same_edges_queue same_edges_count)
    (simp add: same_edges_def)

section \<open>Properties\<close>

text \<open>C8: whatever the registries publish and wherever a call fails, a run leaves every SANCTIONED_IN
  edge either as strong as it found it or with a confidence at or above the auto-link threshold.\<close>

theorem sync_edges_document_grade: "document_grade s (snd (run_sync fuel w api stamp s))"
  by (rule movesD, rule doc.run_sync)

text \<open>C12: a run resurrects nobody. Every node it leaves either bore the same CPF, CNPJ and name before,
  or bears none that a tombstone covers; and it leaves the tombstones alone.\<close>

theorem sync_resurrects_nobody: "no_resurrection s (snd (run_sync fuel w api stamp s))"
  by (rule movesD, rule res.run_sync)

text \<open>A run never files a second review for the same sanction and politician, also when an insert
  is applied but its acknowledgement is lost.\<close>

theorem sync_reviews_once:
  assumes "reviews_once s" shows "reviews_once (snd (run_sync fuel w api stamp s))"
  using movesD [OF once.run_sync, of s fuel w api stamp] assms by (simp add: keeps_once_def)

definition idle_state :: sync_state where
  "idle_state = world.extend empty_world \<lparr>ss_run = [], ss_sweeps = [], ss_processed = 0, ss_upserted = 0,
     ss_orgs = 0, ss_persons = 0, ss_edges = 0, ss_pending = 0, ss_masked = 0, ss_auto = 0, ss_name_only = 0,
     ss_tombstoned = 0, ss_duplicates = 0, ss_skipped = [], ss_failed = [], ss_per = (\<lambda>_. 0)\<rparr>"

definition tcu_options :: sync_options where
  "tcu_options = \<lparr>op_key = [], op_registries = [lit ''tcu''], op_dry = False, op_tcu_url = [],
     op_max_pages = 0, op_sweep = True, op_pg = True, op_mg = True\<rparr>"

definition empty_api :: registry_api where
  "empty_api = \<lparr>cgu_reply = (\<lambda>_ _ _. NetFail), cgu_cancelled = (\<lambda>_ _ _. False), cgu_decode = (\<lambda>_ _. None),
     tcu_reply = (\<lambda>_. CsvReply 200 []), mg_lower = (\<lambda>s. s)\<rparr>"

theorem sync_reviews_once_witness: "reviews_once (snd (run_sync 1 tcu_options empty_api [] idle_state))"
  by (rule sync_reviews_once) (simp add: reviews_once_def idle_state_def world.extend_def empty_world_def)

text \<open>A run keeps the graph well-formed: distinct node keys, no dangling edge, unique ids.\<close>

theorem sync_keeps_graph_wf:
  assumes "wf_graph (graph s)" and "ids_unique (graph s)"
  shows "wf_graph (graph (snd (run_sync fuel w api stamp s))) \<and>
         ids_unique (graph (snd (run_sync fuel w api stamp s)))"
  using movesD [OF wf.run_sync, of s fuel w api stamp] assms by (simp add: keeps_wf_def)

theorem sync_keeps_graph_wf_witness: "wf_graph (graph (snd (run_sync 1 tcu_options empty_api [] idle_state)))"
proof -
  have "wf_graph (graph idle_state)" "ids_unique (graph idle_state)"
    by (simp_all add: idle_state_def world.extend_def empty_world_def ids_unique_def)
      (simp add: empty_graph_def)
  from sync_keeps_graph_wf [OF this] show ?thesis ..
qed

text \<open>A dry run writes nothing: both databases are exactly as they were, and no call was made.\<close>

theorem dry_run_writes_nothing:
  assumes "op_dry w" shows "world.truncate (snd (run_sync fuel w api stamp s)) = world.truncate s"
  using movesD [OF dry_run [OF assms], of s fuel api stamp] by (simp add: same_world_def)

theorem dry_run_writes_nothing_witness:
  "world.truncate (snd (run_sync 1 (tcu_options\<lparr>op_dry := True\<rparr>) empty_api [] idle_state)) = world.truncate idle_state"
  by (rule dry_run_writes_nothing) simp

text \<open>A record with no document at all never leads to an edge. It upserts its sanction and at most
  files a review, whatever the name matches.\<close>

theorem name_only_writes_no_edge:
  assumes "sr_cnpj rec = []" and "sr_cpf rec = []" and "sr_masked rec = []"
  shows "g_edges (graph (snd (apply_record w api rec s))) = g_edges (graph s)"
proof -
  have "moves same_edges (apply_record w api rec)"
    using assms unfolding apply_record_def
    by (auto intro!: same_edges.seqR same_edges.modR same_edges.bindR same_edges.getR same_edges_upsert
        same_edges_name_only simp: same_edges_def)
  from movesD [OF this, of s] show ?thesis by (simp add: same_edges_def)
qed

theorem name_only_writes_no_edge_witness:
  "g_edges (graph (snd (apply_record tcu_options empty_api (blank_record\<lparr>sr_name := lit ''ANA''\<rparr>) idle_state))) = g_edges (graph idle_state)"
  by (rule name_only_writes_no_edge) (simp_all add: blank_record_def)

text \<open>The plan splits the selected registries without losing one. With a key everything runs; without
  one only the keyless TCU lists run and the CGU registries are reported as skipped; it is an error
  exactly when that would leave nothing to run.\<close>

theorem plan_registries_partition:
  "(case plan_registries selected has_key of
      Inl e \<Rightarrow> \<not> has_key \<and> selected \<noteq> [] \<and> lit ''tcu'' \<notin> set selected
    | Inr (to_run, skipped) \<Rightarrow>
        set to_run \<union> set skipped = set selected \<and> set to_run \<inter> set skipped = {} \<and>
        length to_run + length skipped = length selected \<and>
        (if has_key then skipped = [] else set to_run \<subseteq> {lit ''tcu''}))"
proof (cases "has_key \<or> \<not> list_ex (\<lambda>g. g \<noteq> lit ''tcu'') selected")
  case True
  then show ?thesis by (auto simp: plan_registries_def list_ex_iff)
next
  case False
  then have "selected \<noteq> []" by auto
  show ?thesis
  proof (cases "list_ex (\<lambda>g. g = lit ''tcu'') selected")
    case True
    have "length (filter (\<lambda>g. g = lit ''tcu'') selected) + length (filter (\<lambda>g. g \<noteq> lit ''tcu'') selected)
        = length selected"
      by (rule sum_length_filter_compl)
    with False True show ?thesis
      by (simp add: plan_registries_def) blast
  next
    case no_tcu: False
    with False \<open>selected \<noteq> []\<close> show ?thesis
      by (simp add: plan_registries_def list_ex_iff)
  qed
qed

text \<open>Fetching one page makes at most six attempts and sleeps at most 61 seconds, and it returns a
  body exactly when one of the six attempts answers 200 with a readable body and every attempt before
  it failed in a way worth retrying, without a cancellation in between.\<close>

theorem get_page_retries:
  "snd (get_page api path page) \<le> 61 \<and>
   (fst (get_page api path page) = Inr body \<longleftrightarrow>
     (\<exists>j<6. cgu_reply api path page j = Reply 200 body True \<and>
        list_all (\<lambda>i. retryable (cgu_reply api path page i) \<and> \<not> cgu_cancelled api path page i) [0..<j]))"
proof -
  have "backoff_sum (Suc cgu_max_retries) 1 = 61"
    by (simp add: cgu_max_retries_def eval_nat_numeral(3) next_backoff_def numeral_eq_Suc)
  then have "snd (get_page api path page) \<le> 61"
    using get_page_from_slept [of "cgu_reply api path page" "cgu_cancelled api path page" "Suc cgu_max_retries" 0 1 0]
    by (simp add: get_page_def)
  moreover have "list_all P [0..<j] \<longleftrightarrow> (\<forall>i<j. P i)" for P j by (auto simp: list_all_iff)
  ultimately show ?thesis
    by (simp add: get_page_def get_page_from_ok cgu_max_retries_def)
qed

text \<open>Paging ends. If some page stops the loop, because the page cap is behind it, the page cannot be
  had or decoded, or it is empty, then fuel for the pages up to it is enough: the registry run does not
  end for want of fuel. With a page cap the cap itself is such a page.\<close>

theorem registry_paging_terminates:
  assumes "cgu_registry_path grp = Some (path, registry)"
    and "stops_at w api path registry p"
    and "1 \<le> p" and "nat p \<le> fuel"
  shows "fst (run_cgu_registry fuel w api grp s) \<noteq> Inr None"
proof -
  from cgu_pages_stop [OF assms(2), of 1 fuel] assms(1,3,4) show ?thesis
    by (auto simp: run_cgu_registry_def throw_def)
qed

theorem registry_paging_terminates_witness:
  "fst (run_cgu_registry 4 (tcu_options\<lparr>op_key := lit ''k'', op_max_pages := 3\<rparr>) empty_api (lit ''ceis'') idle_state) \<noteq> Inr None"
proof (rule registry_paging_terminates [where p = 4])
  show "cgu_registry_path (lit ''ceis'') = Some (lit ''ceis'', registry_ceis)" by (simp add: cgu_registry_path_def)
  show "stops_at (tcu_options\<lparr>op_key := lit ''k'', op_max_pages := 3\<rparr>) empty_api (lit ''ceis'') registry_ceis 4"
    by (simp add: stops_at_def)
qed simp_all

lemma failed_group:
  assumes "cgu_registry_path grp = Some (path, registry)"
  shows "has_prefix (to_lower (failure_mark grp page)) (to_lower (to_upper grp) @ lit ''@'')"
proof -
  have "to_lower grp = to_lower (to_upper grp) \<and> to_lower (lit ''@p'') = lit ''@'' @ lit ''p''"
  proof -
    have "to_lower (lit ''ceis'') = to_lower (to_upper (lit ''ceis''))"
      "to_lower (lit ''cnep'') = to_lower (to_upper (lit ''cnep''))"
      "to_lower (lit ''ceaf'') = to_lower (to_upper (lit ''ceaf''))"
      "to_lower (lit ''leniencia'') = to_lower (to_upper (lit ''leniencia''))"
      by code_simp+
    moreover have "to_lower (lit ''@p'') = lit ''@'' @ lit ''p''" by code_simp
    ultimately show ?thesis using assms by (auto simp: cgu_registry_path_def split: if_splits)
  qed
  then show ?thesis
    by (auto simp: failure_mark_def to_lower_def has_prefix_iff)
qed

text \<open>
  What a complete fetch of a CGU registry is, by what the API answers alone: pages with records, all of them
  had and understood, up to one that is empty.
\<close>

definition page_records :: "registry_api \<Rightarrow> gostr \<Rightarrow> gostr \<Rightarrow> int \<Rightarrow> err + sanction_record list" where
  "page_records api path registry page =
     (case fst (get_page api path page) of Inl e \<Rightarrow> Inl e | Inr body \<Rightarrow> map_cgu_page registry (cgu_decode api) body)"

definition complete_fetch :: "registry_api \<Rightarrow> gostr \<Rightarrow> gostr \<Rightarrow> bool" where
  "complete_fetch api path registry \<longleftrightarrow>
     (\<exists>n \<ge> 1. page_records api path registry n = Inr [] \<and>
        (\<forall>p. 1 \<le> p \<and> p < n \<longrightarrow> (\<exists>r rs. page_records api path registry p = Inr (r # rs))))"

lemma save_state_marks: "save_state w registry page seen s = (Inr u, t) \<Longrightarrow> ss_failed t = ss_failed s"
  by (auto simp: save_state_def upsert_sanction_import_state_def ret_def bindR_Inr getR_Inr sql_def modR_def
      dest!: db_call_ok split: if_splits)

lemma fetch_marks:
  assumes "cgu_registry_path grp = Some (path, registry)" and "\<not> complete_fetch api path registry"
  shows "cgu_pages w api grp path registry fuel page seen s = (Inr (Some ()), t) \<Longrightarrow> 1 \<le> page \<Longrightarrow>
    (\<And>p. 1 \<le> p \<Longrightarrow> p < page \<Longrightarrow> \<exists>r rs. page_records api path registry p = Inr (r # rs)) \<Longrightarrow>
    registry_failed (to_upper grp) t \<or> 0 < op_max_pages w"
proof (induction fuel arbitrary: page seen s)
  case 0
  then show ?case by (simp add: ret_def)
next
  case (Suc fuel)
  show ?case
  proof (cases "0 < op_max_pages w \<and> op_max_pages w < page")
    case False
    show ?thesis
    proof (cases "fst (get_page api path page)")
      case (Inl e)
      with Suc.prems(1) False obtain x where
        "save_state w registry page seen (s\<lparr>ss_failed := ss_failed s @ [failure_mark grp page]\<rparr>) = (Inr x, t)"
        by (cases e) (auto simp: seqR_Inr modR_def throw_def ret_def)
      from save_state_marks [OF this] have "failure_mark grp page \<in> set (ss_failed t)" by simp
      then have "registry_failed (to_upper grp) t"
        using failed_group [OF assms(1)] by (auto simp: registry_failed_def)
      then show ?thesis ..
    next
      case (Inr body)
      then have page: "page_records api path registry page = map_cgu_page registry (cgu_decode api) body"
        by (simp add: page_records_def)
      consider e where "map_cgu_page registry (cgu_decode api) body = Inl e"
        | "map_cgu_page registry (cgu_decode api) body = Inr []"
        | r rs where "map_cgu_page registry (cgu_decode api) body = Inr (r # rs)"
        by (metis neq_Nil_conv obj_sumE)
      then show ?thesis
      proof cases
        case 1
        with Suc.prems(1) False Inr show ?thesis by (auto simp: throw_def)
      next
        case 2
        with page Suc.prems(2,3) have "complete_fetch api path registry"
          unfolding complete_fetch_def by (intro exI [of _ page]) auto
        with assms(2) show ?thesis by blast
      next
        case 3
        with Suc.prems(1) False Inr obtain k u where
          "cgu_pages w api grp path registry fuel (page + 1) k u = (Inr (Some ()), t)"
          by (auto simp: seqR_Inr)
        moreover have "\<exists>r rs. page_records api path registry p = Inr (r # rs)" if "1 \<le> p" "p < page + 1" for p
          using Suc.prems(3) [of p] that page 3 by (cases "p = page") auto
        ultimately show ?thesis using Suc.IH Suc.prems(2) by simp
      qed
    qed
  qed simp
qed

text \<open>C24: an incomplete fetch is never read as a retraction. Unless the API gave every page of a CGU registry up to
  an empty one, running that registry is the fetch and nothing more, whatever the options, the stores and
  the connection: a page that could not be had, or a cap on the pages, leaves the sweep after it
  without any effect, in the databases and in the statistics.\<close>

theorem incomplete_fetch_never_sweeps:
  assumes "cgu_registry_path grp = Some (path, registry)" and "\<not> complete_fetch api path registry"
  shows "run_group fuel w api grp s = run_cgu_registry fuel w api grp s"
proof -
  have grp: "grp \<in> {lit ''ceis'', lit ''cnep'', lit ''ceaf'', lit ''leniencia''}"
    using assms(1) by (auto simp: cgu_registry_path_def split: if_splits)
  have run: "run_group fuel w api grp =
      bindR (run_cgu_registry fuel w api grp) (\<lambda>r. case r of None \<Rightarrow> ret None | Some u \<Rightarrow> seqR (sweep w (to_upper grp)) (ret (Some ())))"
    unfolding run_group_def by (simp only: grp if_True)
  have swept: "sweep w (to_upper grp) t = (Inr (), t)" if "run_cgu_registry fuel w api grp s = (Inr (Some ()), t)" for t
  proof -
    have "cgu_pages w api grp path registry fuel 1 0 s = (Inr (Some ()), t)"
      using that assms(1) by (auto simp: run_cgu_registry_def throw_def split: if_splits)
    from fetch_marks [OF assms this] have "registry_failed (to_upper grp) t \<or> 0 < op_max_pages w" by simp
    then show ?thesis by (auto simp: sweep_def ret_def bindR_def getR_def)
  qed
  obtain r t where r: "run_cgu_registry fuel w api grp s = (r, t)" by fastforce
  show ?thesis
  proof (cases r)
    case (Inl e)
    with r show ?thesis by (simp add: run bindR_def)
  next
    case (Inr x)
    with r swept show ?thesis by (cases x) (auto simp: run bindR_def seqR_def ret_def)
  qed
qed

theorem incomplete_fetch_never_sweeps_witness:
  "run_group 3 (tcu_options\<lparr>op_key := lit ''k''\<rparr>) empty_api (lit ''ceis'') idle_state =
   run_cgu_registry 3 (tcu_options\<lparr>op_key := lit ''k''\<rparr>) empty_api (lit ''ceis'') idle_state"
proof -
  obtain path registry where p: "cgu_registry_path (lit ''ceis'') = Some (path, registry)"
    by (simp add: cgu_registry_path_def)
  have "fst (get_page_from (\<lambda>n. NetFail) (\<lambda>n. False) left k b slept) = Inl HttpError" for left k b slept
    by (induction left arbitrary: k b slept) simp_all
  then have "page_records empty_api path registry n = Inl HttpError" for n
    by (simp add: page_records_def get_page_def empty_api_def del: get_page_from.simps)
  then have "\<not> complete_fetch empty_api path registry" by (auto simp: complete_fetch_def)
  from incomplete_fetch_never_sweeps [OF p this] show ?thesis .
qed

end
