(* ===== verification/Djen_Client.thy ===== *)
theory Djen_Client
  imports Sanction_Records
begin

text \<open>
  The client of the court gazette (\<^verbatim>\<open>backend/workers/djen/client.go\<close>): pacing, retries, the
  bisection around records the gazette cannot serve, and pagination. The gazette is the environment
  \<open>djen_api\<close>: any function of the ordinal of the request and the request, giving the time to the
  answer and the answer. Time is in nanoseconds, as in Go. A context may be cancelled at an instant
  \<open>cl_deadline\<close>; when a timer and the cancellation fall on the same instant, the cancellation wins.
  Every request sent is logged with the time it was sent; the log is not part of the code.
\<close>

section \<open>What the gazette answers\<close>

record destinatario =
  de_nome :: gostr
  de_polo :: gostr
  de_comunicacao :: int

record item =
  it_id :: int
  it_tribunal :: gostr
  it_tipo :: gostr
  it_documento :: gostr
  it_orgao :: gostr
  it_processo :: gostr
  it_mascara :: gostr
  it_classe :: gostr
  it_codigo :: gostr
  it_data :: gostr
  it_link :: gostr
  it_texto :: gostr
  it_destinatarios :: "destinatario list"

record api_response =
  ar_status :: gostr
  ar_message :: gostr
  ar_count :: int
  ar_items :: "item list"

record request =
  rq_base :: gostr
  rq_params :: "(string \<times> gostr) list"
  rq_page :: nat
  rq_size :: nat

datatype body = Unreadable | Undecodable | Decoded api_response

datatype reply = Dropped | Answered int body

record djen_api =
  dj_url_ok :: "gostr \<Rightarrow> bool"
  dj_server :: "nat \<Rightarrow> request \<Rightarrow> nat \<times> reply"

record djen_client =
  cl_base :: gostr
  cl_now :: nat
  cl_deadline :: "nat option"
  cl_last :: "nat option"
  cl_skipped :: nat
  cl_log :: "(nat \<times> request) list"

definition items_per_page :: nat where "items_per_page = 32"
definition max_retries :: nat where "max_retries = 3"
definition backoff_initial :: nat where "backoff_initial = 1000000000"
definition backoff_max :: nat where "backoff_max = 8 * 1000000000"
definition request_interval :: nat where "request_interval = 60 * 1000000000 div 60"
definition client_timeout :: nat where "client_timeout = 45 * 1000000000"

definition new_client :: "gostr \<Rightarrow> nat \<Rightarrow> nat option \<Rightarrow> djen_client" where
  "new_client base_url now deadline =
     (let base = trim_space base_url in
      \<lparr>cl_base = (if base = [] then lit ''https://comunicaapi.pje.jus.br/api/v1/comunicacao'' else base),
       cl_now = now, cl_deadline = deadline, cl_last = None, cl_skipped = 0, cl_log = []\<rparr>)"

section \<open>Time\<close>

text \<open>Waiting for a timer or the cancellation of the context, whichever comes first.\<close>

definition sleep_for :: "nat \<Rightarrow> (djen_client, unit) prog" where
  "sleep_for d s =
     (case cl_deadline s of
        None \<Rightarrow> (Inr (), s\<lparr>cl_now := cl_now s + d\<rparr>)
      | Some dl \<Rightarrow> if dl \<le> cl_now s + d then (Inl Cancelled, s\<lparr>cl_now := max (cl_now s) dl\<rparr>)
                  else (Inr (), s\<lparr>cl_now := cl_now s + d\<rparr>))"

definition mark_request :: "(djen_client, unit) prog" where
  "mark_request = modR (\<lambda>s. s\<lparr>cl_last := Some (cl_now s)\<rparr>)"

definition limiter_wait :: "(djen_client, unit) prog" where
  "limiter_wait s =
     (case cl_last s of
        None \<Rightarrow> mark_request s
      | Some l \<Rightarrow> if cl_now s - l < request_interval
                 then seqR (sleep_for (request_interval - (cl_now s - l))) mark_request s
                 else mark_request s)"

definition double_backoff :: "nat \<Rightarrow> nat" where
  "double_backoff b = (if backoff_max < 2 * b then backoff_max else 2 * b)"

text \<open>
  One request. It fails when the connection does, when the answer takes longer than the timeout of
  the client, or when the context is cancelled before the answer.
\<close>

definition http_do :: "djen_api \<Rightarrow> request \<Rightarrow> (djen_client, reply) prog" where
  "http_do api rq s =
     (case dj_server api (length (cl_log s)) rq of (dt, r) \<Rightarrow>
        let s' = s\<lparr>cl_log := cl_log s @ [(cl_now s, rq)]\<rparr>;
            arrival = cl_now s + min dt client_timeout;
            answer = (if client_timeout < dt then Dropped else r)
        in case cl_deadline s of
             None \<Rightarrow> (Inr answer, s'\<lparr>cl_now := arrival\<rparr>)
           | Some dl \<Rightarrow> if dl \<le> arrival then (Inr Dropped, s'\<lparr>cl_now := max (cl_now s) dl\<rparr>)
                       else (Inr answer, s'\<lparr>cl_now := arrival\<rparr>))"

section \<open>Retries\<close>

definition server_rejected :: err where
  "server_rejected = Refused ''server rejected the request''"

text \<open>\<open>left\<close> attempts remain and \<open>b\<close> is the next backoff.\<close>

fun djen_get_from :: "djen_api \<Rightarrow> request \<Rightarrow> nat \<Rightarrow> nat \<Rightarrow> (djen_client, body) prog" where
  "djen_get_from api rq 0 b = throw HttpError"
| "djen_get_from api rq (Suc left) b =
     seqR limiter_wait (bindR (http_do api rq) (\<lambda>r.
       case r of
         Dropped \<Rightarrow> seqR (sleep_for b) (djen_get_from api rq left (double_backoff b))
       | Answered status bd \<Rightarrow>
           if 500 \<le> status then throw server_rejected
           else if status = 429 then seqR (sleep_for b) (djen_get_from api rq left (double_backoff b))
           else if status \<noteq> 200 then throw HttpError
           else if bd = Unreadable then throw HttpError
           else ret bd))"

definition djen_get :: "djen_api \<Rightarrow> request \<Rightarrow> (djen_client, body) prog" where
  "djen_get api rq = djen_get_from api rq (Suc max_retries) backoff_initial"

definition fetch_page ::
  "djen_api \<Rightarrow> (string \<times> gostr) list \<Rightarrow> nat \<Rightarrow> nat \<Rightarrow> (djen_client, api_response) prog" where
  "fetch_page api ps page sz =
     bindR (getR cl_base) (\<lambda>base.
       if \<not> dj_url_ok api base then throw (Refused ''parse url'')
       else bindR (djen_get api \<lparr>rq_base = base, rq_params = ps, rq_page = page, rq_size = sz\<rparr>) (\<lambda>bd.
         case bd of Decoded resp \<Rightarrow> ret resp | _ \<Rightarrow> throw DecodeError))"

section \<open>Ranges\<close>

record range_result =
  rr_items :: "item list"
  rr_total :: int
  rr_served :: bool
  rr_skipped :: nat

definition whole_page :: "api_response \<Rightarrow> range_result" where
  "whole_page resp = \<lparr>rr_items = ar_items resp, rr_total = ar_count resp, rr_served = True, rr_skipped = 0\<rparr>"

definition both_halves :: "range_result \<Rightarrow> range_result \<Rightarrow> range_result" where
  "both_halves lo hi =
     \<lparr>rr_items = rr_items lo @ rr_items hi, rr_total = max (rr_total lo) (rr_total hi),
      rr_served = (rr_served lo \<or> rr_served hi), rr_skipped = rr_skipped lo + rr_skipped hi\<rparr>"

definition one_skipped :: range_result where
  "one_skipped = \<lparr>rr_items = [], rr_total = 0, rr_served = False, rr_skipped = 1\<rparr>"

text \<open>The last chance of a record that is alone on its page.\<close>

definition fetch_single :: "djen_api \<Rightarrow> (string \<times> gostr) list \<Rightarrow> nat \<Rightarrow> (djen_client, range_result) prog" where
  "fetch_single api ps offset =
     seqR (sleep_for backoff_initial)
       (bindR (attemptR (fetch_page api ps (offset + 1) 1)) (\<lambda>r.
         case r of
           Inr resp \<Rightarrow> ret (whole_page resp)
         | Inl e \<Rightarrow> if e \<noteq> server_rejected then throw e
                    else seqR (modR (\<lambda>s. s\<lparr>cl_skipped := cl_skipped s + 1\<rparr>)) (ret one_skipped)))"

function fetch_range ::
  "djen_api \<Rightarrow> (string \<times> gostr) list \<Rightarrow> nat \<Rightarrow> nat \<Rightarrow> (djen_client, range_result) prog" where
  "fetch_range api ps offset sz =
     bindR (attemptR (fetch_page api ps (offset div sz + 1) sz)) (\<lambda>r.
       case r of
         Inr resp \<Rightarrow> ret (whole_page resp)
       | Inl e \<Rightarrow>
           if e \<noteq> server_rejected then throw e
           else if 1 < sz then
             bindR (fetch_range api ps offset (sz div 2)) (\<lambda>lo.
             bindR (fetch_range api ps (offset + sz div 2) (sz div 2)) (\<lambda>hi.
             ret (both_halves lo hi)))
           else fetch_single api ps offset)"
  by pat_completeness auto
termination by (relation "measure (\<lambda>(api, ps, offset, sz). sz)") auto

declare fetch_range.simps [simp del]

section \<open>Pagination\<close>

text \<open>
  \<open>tot\<close>, the total the gazette reports, is negative until the first answer. The loop has no bound of its own, so it takes fuel;
  running out of it is the result \<open>None\<close>. A cap of 0 is no cap.
\<close>

definition capped :: "nat \<Rightarrow> item list \<Rightarrow> item list" where
  "capped cap out = (if 0 < cap \<and> cap < length out then take cap out else out)"

fun paginate_from ::
  "djen_api \<Rightarrow> (string \<times> gostr) list \<Rightarrow> nat \<Rightarrow> nat \<Rightarrow> nat \<Rightarrow> int \<Rightarrow> item list
     \<Rightarrow> (djen_client, item list option) prog" where
  "paginate_from api ps cap 0 offset tot out = ret None"
| "paginate_from api ps cap (Suc fuel) offset tot out =
     (if 0 < cap \<and> cap \<le> length out then ret (Some (capped cap out))
      else if 0 \<le> tot \<and> tot \<le> int offset then ret (Some (capped cap out))
      else bindR (fetch_range api ps offset items_per_page) (\<lambda>r.
        if tot < 0 \<and> \<not> rr_served r then throw server_rejected
        else if length (rr_items r) + rr_skipped r = 0 then ret (Some (capped cap (out @ rr_items r)))
        else paginate_from api ps cap fuel (offset + items_per_page)
               (if tot < 0 then rr_total r else tot) (out @ rr_items r)))"

definition paginate ::
  "djen_api \<Rightarrow> nat \<Rightarrow> (string \<times> gostr) list \<Rightarrow> nat \<Rightarrow> (djen_client, item list option) prog" where
  "paginate api fuel ps cap = paginate_from api ps cap fuel 0 (- 1) []"

definition search_by_case_number :: "djen_api \<Rightarrow> nat \<Rightarrow> gostr \<Rightarrow> (djen_client, item list option) prog" where
  "search_by_case_number api fuel n = paginate api fuel [(''numeroProcesso'', n)] 0"

section \<open>Searching a name year by year\<close>

record cal_date =
  ca_year :: nat
  ca_month :: nat
  ca_day :: nat

definition date_before :: "cal_date \<Rightarrow> cal_date \<Rightarrow> bool" where
  "date_before a b \<longleftrightarrow>
     ca_year a < ca_year b \<or>
     (ca_year a = ca_year b \<and>
       (ca_month a < ca_month b \<or> (ca_month a = ca_month b \<and> ca_day a < ca_day b)))"

definition coverage_start_year :: nat where "coverage_start_year = 2021"

definition format_cal :: "cal_date \<Rightarrow> gostr" where
  "format_cal d = format_date \<lparr>dp_year = nat_digits (ca_year d), dp_month = ca_month d, dp_day = ca_day d\<rparr>"

text \<open>The window of one year: its last day, or the day of the run if that comes first.\<close>

definition year_window :: "cal_date \<Rightarrow> nat \<Rightarrow> cal_date \<times> cal_date" where
  "year_window end y =
     (let to = \<lparr>ca_year = y, ca_month = 12, ca_day = 31\<rparr>
      in (\<lparr>ca_year = y, ca_month = 1, ca_day = 1\<rparr>, if date_before end to then end else to))"

definition window_dates :: "cal_date \<Rightarrow> (cal_date \<times> cal_date) list" where
  "window_dates end = List.map (year_window end) [coverage_start_year ..< Suc (ca_year end)]"

text \<open>A clock before 2020 makes the capacity of the slice negative, which panics.\<close>

definition party_windows :: "cal_date \<Rightarrow> err + (gostr \<times> gostr) list" where
  "party_windows end =
     (if Suc (ca_year end) < coverage_start_year then Inl Panic
      else Inr (List.map (\<lambda>(a, b). (format_cal a, format_cal b)) (window_dates end)))"

fun search_windows ::
  "djen_api \<Rightarrow> nat \<Rightarrow> gostr \<Rightarrow> nat \<Rightarrow> (gostr \<times> gostr) list \<Rightarrow> item list
     \<Rightarrow> (djen_client, item list option) prog" where
  "search_windows api fuel name cap [] out = ret (Some out)"
| "search_windows api fuel name cap ((from_date, to_date) # ws) out =
     (if 0 < cap \<and> cap \<le> length out then ret (Some out)
      else bindR (paginate api fuel
                   [(''nomeParte'', name), (''dataDisponibilizacaoInicio'', from_date),
                    (''dataDisponibilizacaoFim'', to_date)]
                   (if 0 < cap then cap - length out else 0)) (\<lambda>r.
        case r of None \<Rightarrow> ret None
        | Some items \<Rightarrow> search_windows api fuel name cap ws (out @ items)))"

definition search_by_party_name ::
  "djen_api \<Rightarrow> nat \<Rightarrow> cal_date \<Rightarrow> gostr \<Rightarrow> nat \<Rightarrow> (djen_client, item list option) prog" where
  "search_by_party_name api fuel today name cap =
     (case party_windows today of Inl e \<Rightarrow> throw e
      | Inr ws \<Rightarrow> search_windows api fuel name cap ws [])"

section \<open>Pacing\<close>

definition paced :: "djen_client \<Rightarrow> bool" where
  "paced s \<longleftrightarrow>
     successively (\<lambda>a b. fst a + request_interval \<le> fst b) (cl_log s) \<and>
     (case cl_last s of None \<Rightarrow> cl_log s = []
      | Some l \<Rightarrow> l \<le> cl_now s \<and> (\<forall>e \<in> set (cl_log s). fst e \<le> l))"

definition keeps_pace :: "djen_client \<Rightarrow> djen_client \<Rightarrow> bool" where
  "keeps_pace s t \<longleftrightarrow> (paced s \<longrightarrow> paced t)"

interpretation pace: state_order keeps_pace
  by unfold_locales (auto simp: keeps_pace_def)

lemma pace_modR: "(\<And>s. cl_log (f s) = cl_log s \<and> cl_last (f s) = cl_last s \<and> cl_now s \<le> cl_now (f s))
    \<Longrightarrow> moves keeps_pace (modR f)"
  by (rule pace.modR) (auto simp: keeps_pace_def paced_def split: option.splits intro: le_trans)

lemma pace_sleep: "moves keeps_pace (sleep_for d)"
  by (rule movesI) (auto simp: sleep_for_def keeps_pace_def paced_def split: option.splits)

text \<open>What the wait leaves when it did not fail: the last request is a whole interval behind.\<close>

lemma limiter_wait_ok:
  assumes "limiter_wait s = (Inr u, t)" and "paced s"
  shows "paced t \<and> cl_last t = Some (cl_now t) \<and>
    (\<forall>e \<in> set (cl_log t). fst e + request_interval \<le> cl_now t)"
proof (cases "cl_last s")
  case None
  then show ?thesis
    using assms by (auto simp: limiter_wait_def mark_request_def modR_def paced_def)
next
  case (Some l)
  with assms(2) have l: "l \<le> cl_now s" "\<forall>e \<in> set (cl_log s). fst e \<le> l"
    and sp: "successively (\<lambda>a b. fst a + request_interval \<le> fst b) (cl_log s)"
    by (auto simp: paced_def)
  have t: "cl_log t = cl_log s \<and> cl_last t = Some (cl_now t) \<and> l + request_interval \<le> cl_now t"
    using assms(1) Some l(1)
    by (auto simp: limiter_wait_def mark_request_def seqR_def bindR_def modR_def sleep_for_def
        split: option.splits if_splits)
  have "\<forall>e \<in> set (cl_log t). fst e + request_interval \<le> cl_now t"
    using t l(2) by fastforce
  with t sp show ?thesis by (auto simp: paced_def)
qed

lemma pace_limiter: "moves keeps_pace limiter_wait"
proof (rule movesI)
  fix s
  obtain r t where w: "limiter_wait s = (r, t)" by fastforce
  show "keeps_pace s (snd (limiter_wait s))"
  proof (cases r)
    case (Inr u)
    then show ?thesis using limiter_wait_ok w by (auto simp: keeps_pace_def)
  next
    case (Inl e)
    with w show ?thesis
      by (force simp: limiter_wait_def mark_request_def seqR_def bindR_def modR_def sleep_for_def
          keeps_pace_def paced_def split: option.splits if_splits)
  qed
qed

lemma successively_snoc:
  "successively P (xs @ [y]) \<longleftrightarrow> successively P xs \<and> (xs = [] \<or> P (last xs) y)"
  by (auto simp: successively_append_iff)

lemma pace_send: "moves keeps_pace (bindR limiter_wait (\<lambda>u. http_do api rq))"
proof (rule movesI)
  fix s
  show "keeps_pace s (snd (bindR limiter_wait (\<lambda>u. http_do api rq) s))"
  proof (cases "limiter_wait s")
    case (Pair r t)
    show ?thesis
    proof (cases r)
      case (Inl e)
      then show ?thesis using Pair movesD [OF pace_limiter, of s] by (simp add: bindR_def)
    next
      case (Inr u)
      have "paced (snd (http_do api rq t))" if "paced s"
      proof -
        have w: "paced t \<and> cl_last t = Some (cl_now t) \<and>
            (\<forall>e \<in> set (cl_log t). fst e + request_interval \<le> cl_now t)"
          using limiter_wait_ok [OF _ that, of u t] Pair Inr by simp
        then have "cl_log t = [] \<or> fst (last (cl_log t)) + request_interval \<le> cl_now t"
          using last_in_set by blast
        with w show ?thesis
          by (auto simp: http_do_def paced_def successively_snoc Let_def
              split: prod.splits option.splits)
      qed
      then show ?thesis using Pair Inr by (simp add: bindR_def keeps_pace_def)
    qed
  qed
qed

lemma pace_get: "moves keeps_pace (djen_get_from api rq left b)"
proof (induction api rq left b rule: djen_get_from.induct)
  case (1 api rq b)
  show ?case by (simp add: pace.throw)
next
  case (2 api rq left b)
  show ?case
    unfolding djen_get_from.simps seqR_def [of limiter_wait] bindR_assoc [symmetric]
    by (intro pace.bindR pace_send)
      (auto split: reply.split intro!: pace.seqR pace_sleep pace.throw pace.ret simp: 2)
qed

lemma pace_page: "moves keeps_pace (fetch_page api ps page sz)"
  unfolding fetch_page_def djen_get_def
  by (intro pace.bindR pace.getR moves_if pace.throw pace_get)
    (auto split: body.split intro: pace.ret pace.throw)

lemma pace_range: "moves keeps_pace (fetch_range api ps offset sz)"
proof (induction api ps offset sz rule: fetch_range.induct)
  case (1 api ps offset sz)
  have single: "moves keeps_pace (fetch_single api ps offset)"
    unfolding fetch_single_def
    by (intro pace.seqR pace_sleep pace.bindR pace.attemptR pace_page moves_sum moves_if pace.throw
        pace_modR pace.ret) simp
  show ?case
    unfolding fetch_range.simps [of api ps offset sz]
    by (intro pace.bindR pace.attemptR pace_page)
      (auto intro!: pace.bindR pace.ret pace.throw single 1 split: sum.split)
qed

lemma pace_paginate: "moves keeps_pace (paginate_from api ps cap fuel offset tot out)"
  by (induction api ps cap fuel offset tot out rule: paginate_from.induct)
    (auto intro!: pace.ret pace.throw pace.bindR pace_range)

lemma pace_windows: "moves keeps_pace (search_windows api fuel name cap ws out)"
proof (induction api fuel name cap ws out rule: search_windows.induct)
  case (1 api fuel name cap out)
  show ?case by (simp add: pace.ret)
next
  case (2 api fuel name cap a b ws out)
  then show ?case
    by (auto intro!: pace.ret pace.bindR pace_paginate split: option.split simp: paginate_def)
qed

lemma pace_name: "moves keeps_pace (search_by_party_name api fuel today name cap)"
  unfolding search_by_party_name_def by (auto intro: pace.throw pace_windows split: sum.split)

end
