(* ===== verification/Djen_Search.thy ===== *)
theory Djen_Search
  imports Djen_Client
begin

text \<open>
  What the gazette client guarantees: how many requests a search costs whatever the gazette answers,
  that pagination ends, and, against an archive that holds a fixed list of records some of which it
  cannot serve, exactly which records a search returns.
\<close>

section \<open>The cost of a program in requests\<close>

definition sends :: "nat \<Rightarrow> (djen_client, 'a) prog \<Rightarrow> bool" where
  "sends n m \<longleftrightarrow> (\<forall>s. length (cl_log (snd (m s))) \<le> length (cl_log s) + n)"

lemma sendsD: "sends n m \<Longrightarrow> m s = (r, t) \<Longrightarrow> length (cl_log t) \<le> length (cl_log s) + n"
  by (metis sends_def snd_conv)

lemma sends_mono: "sends n m \<Longrightarrow> n \<le> k \<Longrightarrow> sends k m"
  unfolding sends_def by (meson add_le_mono1 le_trans nat_add_left_cancel_le)

lemma sends_bind:
  assumes "sends n m" and "\<And>a. sends k (f a)" shows "sends (n + k) (bindR m f)"
  unfolding sends_def
proof
  fix s
  obtain r t where m: "m s = (r, t)" by fastforce
  show "length (cl_log (snd (bindR m f s))) \<le> length (cl_log s) + (n + k)"
  proof (cases r)
    case (Inl e)
    with m sendsD [OF assms(1) m] show ?thesis by (simp add: bindR_def)
  next
    case (Inr a)
    obtain r' u where "f a t = (r', u)" by fastforce
    with m Inr sendsD [OF assms(1) m] sendsD [OF assms(2) this] show ?thesis by (simp add: bindR_def)
  qed
qed

lemma sends_seq: "sends n m \<Longrightarrow> sends k f \<Longrightarrow> sends (n + k) (seqR m f)"
  by (simp add: seqR_def sends_bind)

lemma sends_free [simp]: "sends n (ret a)" "sends n (throw e)" "sends n (getR f)"
  by (simp_all add: sends_def ret_def throw_def getR_def)

lemma sends_attempt: "sends n m \<Longrightarrow> sends n (attemptR m)"
  by (simp add: sends_def attemptR_def)

lemma sends_wait: "sends 0 (sleep_for d)" "sends 0 limiter_wait"
  by (auto simp: sends_def sleep_for_def limiter_wait_def mark_request_def modR_def seqR_def bindR_def
      split: option.splits)

lemma sends_http: "sends 1 (http_do api rq)"
  by (auto simp: sends_def http_do_def Let_def split: prod.splits option.splits)

lemma sends_get: "sends left (djen_get_from api rq left b)"
proof (induction left arbitrary: b)
  case 0
  show ?case by simp
next
  case (Suc left)
  have k: "sends left (seqR (sleep_for b) (djen_get_from api rq left c))" for c
    using sends_seq [OF sends_wait(1) Suc.IH] by simp
  have "sends left (case r of Dropped \<Rightarrow> seqR (sleep_for b) (djen_get_from api rq left (double_backoff b))
       | Answered status bd \<Rightarrow>
           if 500 \<le> status then throw server_rejected
           else if status = 429 then seqR (sleep_for b) (djen_get_from api rq left (double_backoff b))
           else if status \<noteq> 200 then throw HttpError
           else if bd = Unreadable then throw HttpError
           else ret bd)" for r
    by (cases r) (simp_all add: k)
  from sends_seq [OF sends_wait(2) sends_bind [OF sends_http this]] show ?case by simp
qed

lemma sends_page: "sends 4 (fetch_page api ps page sz)"
proof -
  have "sends 4 (djen_get api rq)" for rq
    unfolding djen_get_def using sends_get [of "Suc max_retries" api rq backoff_initial]
    by (rule sends_mono) (simp add: max_retries_def)
  then have "sends (4 + 0) (bindR (djen_get api rq) (\<lambda>bd. case bd of Decoded resp \<Rightarrow> ret resp | _ \<Rightarrow> throw DecodeError))" for rq
    by (rule sends_bind) (auto split: body.split)
  then have "sends (0 + 4) (fetch_page api ps page sz)"
    unfolding fetch_page_def by (intro sends_bind) simp_all
  then show ?thesis by simp
qed

lemma sends_single: "sends 4 (fetch_single api ps offset)"
proof -
  have "sends 0 (modR (\<lambda>s. s\<lparr>cl_skipped := cl_skipped s + 1\<rparr>))" by (simp add: sends_def modR_def)
  then have "sends 0 (seqR (modR (\<lambda>s. s\<lparr>cl_skipped := cl_skipped s + 1\<rparr>)) (ret one_skipped))"
    using sends_seq [OF _ sends_free(1) [of 0]] by fastforce
  then have "sends (4 + 0) (bindR (attemptR (fetch_page api ps (offset + 1) 1)) (\<lambda>r.
         case r of Inr resp \<Rightarrow> ret (whole_page resp)
         | Inl e \<Rightarrow> if e \<noteq> server_rejected then throw e
                    else seqR (modR (\<lambda>s. s\<lparr>cl_skipped := cl_skipped s + 1\<rparr>)) (ret one_skipped)))"
    by (intro sends_bind sends_attempt sends_page) (auto split: sum.split)
  from sends_seq [OF sends_wait(1) this] show ?thesis by (simp add: fetch_single_def)
qed

lemma sends_range: "0 < sz \<Longrightarrow> sends (12 * sz - 4) (fetch_range api ps offset sz)"
proof (induction api ps offset sz rule: fetch_range.induct)
  case (1 api ps offset sz)
  let ?h = "sz div 2"
  have bisect: "sends (12 * sz - 8) (bindR (fetch_range api ps offset ?h) (\<lambda>lo.
      bindR (fetch_range api ps (offset + ?h) ?h) (\<lambda>hi. ret (both_halves lo hi))))" if "1 < sz"
  proof -
    have ih: "sends (12 * ?h - 4) (fetch_range api ps offset ?h)"
      "sends (12 * ?h - 4) (fetch_range api ps (offset + ?h) ?h)"
      using 1 that by (force simp: server_rejected_def)+
    have "sends (12 * ?h - 4 + (12 * ?h - 4 + 0)) (bindR (fetch_range api ps offset ?h) (\<lambda>lo.
      bindR (fetch_range api ps (offset + ?h) ?h) (\<lambda>hi. ret (both_halves lo hi))))"
      by (intro sends_bind ih sends_free)
    then show ?thesis by (rule sends_mono) (use that in linarith)
  qed
  have "sends (12 * sz - 8) (fetch_single api ps offset)" if "\<not> 1 < sz"
    by (rule sends_mono [OF sends_single]) (use that "1.prems" in linarith)
  with bisect have "sends (4 + (12 * sz - 8)) (fetch_range api ps offset sz)"
    unfolding fetch_range.simps [of api ps offset sz]
    by (intro sends_bind sends_attempt sends_page) (auto split: sum.split)
  moreover have "4 + (12 * sz - 8) = 12 * sz - 4" using "1.prems" by linarith
  ultimately show ?case by simp
qed

section \<open>Pagination ends\<close>

text \<open>If no answer reports more than \<open>n\<close> results, nor a negative number of them, the pages end.\<close>

definition count_bounded :: "djen_api \<Rightarrow> int \<Rightarrow> bool" where
  "count_bounded api n \<longleftrightarrow>
     (\<forall>k rq dt st resp. dj_server api k rq = (dt, Answered st (Decoded resp)) \<longrightarrow>
        0 \<le> ar_count resp \<and> ar_count resp \<le> n)"

lemma http_do_answer:
  "http_do api rq s = (Inr (Answered st bd), t) \<Longrightarrow> \<exists>k dt. dj_server api k rq = (dt, Answered st bd)"
  by (auto simp: http_do_def Let_def split: prod.splits option.splits if_splits)

lemma djen_get_answer:
  "djen_get_from api rq left b s = (Inr bd, t) \<Longrightarrow> \<exists>k dt st. dj_server api k rq = (dt, Answered st bd)"
proof (induction api rq left b arbitrary: s rule: djen_get_from.induct)
  case (1 api rq b)
  then show ?case by (simp add: throw_def)
next
  case (2 api rq left b)
  from "2.prems" obtain r u where r: "\<exists>w. http_do api rq w = (Inr r, u)"
    and k: "(case r of Dropped \<Rightarrow> seqR (sleep_for b) (djen_get_from api rq left (double_backoff b))
       | Answered status bd \<Rightarrow>
           if 500 \<le> status then throw server_rejected
           else if status = 429 then seqR (sleep_for b) (djen_get_from api rq left (double_backoff b))
           else if status \<noteq> 200 then throw HttpError
           else if bd = Unreadable then throw HttpError
           else ret bd) u = (Inr bd, t)"
    by (simp only: djen_get_from.simps seqR_Inr bindR_Inr) blast
  show ?case
  proof (cases r)
    case Dropped
    with k "2.IH"(1) show ?thesis by (auto simp: seqR_Inr)
  next
    case (Answered status x)
    show ?thesis
    proof (cases "500 \<le> status \<or> status \<noteq> 429")
      case True
      with k Answered have "x = bd" by (auto split: if_splits simp: throw_def ret_def)
      with r Answered http_do_answer show ?thesis by blast
    next
      case False
      with k Answered "2.IH"(2) show ?thesis by (auto simp: seqR_Inr)
    qed
  qed
qed

lemma page_count:
  assumes "count_bounded api n" and "fetch_page api ps page sz s = (Inr resp, t)"
  shows "0 \<le> ar_count resp \<and> ar_count resp \<le> n"
proof -
  from assms(2) obtain rq w bd u where g: "djen_get api rq w = (Inr bd, u)"
    and "(case bd of Decoded resp \<Rightarrow> ret resp | _ \<Rightarrow> throw DecodeError) u = (Inr resp, t)"
    by (auto simp: fetch_page_def run_ok split: if_splits)
  then have "djen_get api rq w = (Inr (Decoded resp), u)" by (cases bd) auto
  with djen_get_answer [of api rq "Suc max_retries" backoff_initial w "Decoded resp" u] assms(1)
  show ?thesis unfolding djen_get_def count_bounded_def by metis
qed

lemma attempt_Inr: "attemptR m s = (Inr r, t) \<longleftrightarrow> m s = (r, t)"
  by (cases "m s") (auto simp: attemptR_def)

lemma single_count:
  assumes "count_bounded api n" and "0 \<le> n" and "fetch_single api ps offset s = (Inr r, t)"
  shows "0 \<le> rr_total r \<and> rr_total r \<le> n"
proof -
  from assms(3) obtain u a v where a: "fetch_page api ps (offset + 1) 1 u = (a, v)"
    and k: "(case a of Inr resp \<Rightarrow> ret (whole_page resp)
         | Inl e \<Rightarrow> if e \<noteq> server_rejected then throw e
                    else seqR (modR (\<lambda>s. s\<lparr>cl_skipped := cl_skipped s + 1\<rparr>)) (ret one_skipped)) v = (Inr r, t)"
    by (auto simp only: fetch_single_def seqR_Inr bindR_Inr attempt_Inr)
  show ?thesis
  proof (cases a)
    case (Inl e)
    with k assms(2) show ?thesis by (auto simp: seqR_Inr one_skipped_def split: if_splits)
  next
    case (Inr resp)
    with k a page_count [OF assms(1)] show ?thesis by (auto simp: whole_page_def)
  qed
qed

lemma range_count:
  assumes "fetch_range api ps offset sz s = (Inr r, t)" and "count_bounded api n" and "0 \<le> n"
  shows "0 \<le> rr_total r \<and> rr_total r \<le> n"
  using assms
proof (induction api ps offset sz arbitrary: s r t rule: fetch_range.induct)
  case (1 api ps offset sz)
  from "1.prems"(1) obtain a u where a: "fetch_page api ps (offset div sz + 1) sz s = (a, u)"
    and k: "(case a of Inr resp \<Rightarrow> ret (whole_page resp)
       | Inl e \<Rightarrow>
           if e \<noteq> server_rejected then throw e
           else if 1 < sz then
             bindR (fetch_range api ps offset (sz div 2)) (\<lambda>lo.
             bindR (fetch_range api ps (offset + sz div 2) (sz div 2)) (\<lambda>hi.
             ret (both_halves lo hi)))
           else fetch_single api ps offset) u = (Inr r, t)"
    unfolding fetch_range.simps [of api ps offset sz] by (auto simp: run_ok attempt_Inr)
  show ?case
  proof (cases a)
    case (Inr resp)
    with k page_count [OF "1.prems"(2)] a show ?thesis by (auto simp: whole_page_def)
  next
    case (Inl e)
    with k have e: "e = server_rejected" by (auto split: if_splits)
    show ?thesis
    proof (cases "1 < sz")
      case True
      with k Inl e obtain lo hi v w where h: "fetch_range api ps offset (sz div 2) u = (Inr lo, v)"
        "fetch_range api ps (offset + sz div 2) (sz div 2) v = (Inr hi, w)" and r: "r = both_halves lo hi"
        by (auto simp: run_ok)
      from "1.IH" Inl e True h "1.prems" have "0 \<le> rr_total lo \<and> rr_total lo \<le> n"
        "0 \<le> rr_total hi \<and> rr_total hi \<le> n"
        by blast+
      with r show ?thesis by (simp add: both_halves_def le_max_iff_disj)
    next
      case False
      with k Inl e single_count [OF "1.prems"(2,3)] show ?thesis by simp
    qed
  qed
qed

lemma paginate_ends:
  assumes "count_bounded api n" and "0 \<le> n"
  shows "n \<le> int offset + 32 * (int fuel - 1) \<and> (if tot < 0 then offset = 0 \<and> 2 \<le> fuel
      else tot \<le> n \<and> 1 \<le> fuel)
    \<Longrightarrow> fst (paginate_from api ps cap fuel offset tot out s) \<noteq> Inr None"
  using assms
proof (induction api ps cap fuel offset tot out arbitrary: s rule: paginate_from.induct)
  case (1 api ps cap offset tot out)
  then show ?case by (simp split: if_splits)
next
  case (2 api ps cap fuel offset tot out)
  show ?case
  proof (cases "(0 < cap \<and> cap \<le> length out) \<or> (0 \<le> tot \<and> tot \<le> int offset)")
    case True
    then show ?thesis by (auto simp: ret_def)
  next
    case False
    obtain a u where f: "fetch_range api ps offset items_per_page s = (a, u)" by fastforce
    show ?thesis
    proof (cases a)
      case (Inl e)
      with False f show ?thesis by (auto simp: bindR_def)
    next
      case (Inr r)
      have b: "0 \<le> rr_total r \<and> rr_total r \<le> n"
        using range_count [OF f [unfolded Inr] "2.prems"(2,3)] .
      have "fst (paginate_from api ps cap fuel (offset + items_per_page)
          (if tot < 0 then rr_total r else tot) (out @ rr_items r) u) \<noteq> Inr None"
        if "\<not> (tot < 0 \<and> \<not> rr_served r)" "length (rr_items r) + rr_skipped r \<noteq> 0"
      proof (rule "2.IH")
        show "n \<le> int (offset + items_per_page) + 32 * (int fuel - 1) \<and>
            (if (if tot < 0 then rr_total r else tot) < 0 then offset + items_per_page = 0 \<and> 2 \<le> fuel
             else (if tot < 0 then rr_total r else tot) \<le> n \<and> 1 \<le> fuel)"
          using "2.prems"(1) b False by (auto simp: items_per_page_def split: if_splits)
      qed (use False that "2.prems" in auto)
      with False f Inr show ?thesis by (auto simp: bindR_def ret_def throw_def)
    qed
  qed
qed

section \<open>An archive with unservable records\<close>

text \<open>
  The gazette as the comments of the client describe it: a fixed list of matching records, some of
  which it cannot serve. A page that overlaps such a record answers 500 whatever its size, any other
  page answers with its slice of the list. \<open>cnt\<close> is the count it reports.
\<close>

definition unservable :: "item list \<Rightarrow> (nat \<Rightarrow> bool) \<Rightarrow> nat \<Rightarrow> nat \<Rightarrow> bool" where
  "unservable recs bad a n \<longleftrightarrow> (\<exists>i \<in> set [a ..< a + n]. i < length recs \<and> bad i)"

definition slice_of :: "item list \<Rightarrow> nat \<Rightarrow> nat \<Rightarrow> item list" where
  "slice_of recs a n = take n (drop a recs)"

definition archive :: "item list \<Rightarrow> (nat \<Rightarrow> bool) \<Rightarrow> int \<Rightarrow> request \<Rightarrow> reply" where
  "archive recs bad cnt rq =
     (let n = rq_size rq; a = (rq_page rq - 1) * n in
      if unservable recs bad a n then Answered 500 Unreadable
      else Answered 200 (Decoded \<lparr>ar_status = [], ar_message = [], ar_count = cnt, ar_items = slice_of recs a n\<rparr>))"

definition serves_archive :: "djen_api \<Rightarrow> gostr \<Rightarrow> item list \<Rightarrow> (nat \<Rightarrow> bool) \<Rightarrow> int \<Rightarrow> bool" where
  "serves_archive api base recs bad cnt \<longleftrightarrow>
     dj_url_ok api base \<and>
     (\<forall>k rq. fst (dj_server api k rq) \<le> client_timeout \<and> snd (dj_server api k rq) = archive recs bad cnt rq)"

text \<open>The records of a range that can be served, and the number of those that cannot.\<close>

definition servable :: "item list \<Rightarrow> (nat \<Rightarrow> bool) \<Rightarrow> nat \<Rightarrow> nat \<Rightarrow> item list" where
  "servable recs bad a n = List.map (nth recs) (filter (\<lambda>i. i < length recs \<and> \<not> bad i) [a ..< a + n])"

definition lost_records :: "item list \<Rightarrow> (nat \<Rightarrow> bool) \<Rightarrow> nat \<Rightarrow> nat \<Rightarrow> nat" where
  "lost_records recs bad a n = length (filter (\<lambda>i. i < length recs \<and> bad i) [a ..< a + n])"

definition some_page :: "item list \<Rightarrow> (nat \<Rightarrow> bool) \<Rightarrow> nat \<Rightarrow> nat \<Rightarrow> bool" where
  "some_page recs bad a n \<longleftrightarrow> (\<exists>i \<in> set [a ..< a + n]. \<not> (i < length recs \<and> bad i))"

definition range_answer :: "item list \<Rightarrow> (nat \<Rightarrow> bool) \<Rightarrow> int \<Rightarrow> nat \<Rightarrow> nat \<Rightarrow> range_result" where
  "range_answer recs bad cnt a n =
     \<lparr>rr_items = servable recs bad a n, rr_total = (if some_page recs bad a n then cnt else 0),
      rr_served = some_page recs bad a n, rr_skipped = lost_records recs bad a n\<rparr>"

text \<open>The pages the bisection of \<open>2 ^ k\<close> records from \<open>a\<close> on asks for.\<close>

fun pages_for :: "item list \<Rightarrow> (nat \<Rightarrow> bool) \<Rightarrow> nat \<Rightarrow> nat \<Rightarrow> nat" where
  "pages_for recs bad a 0 = (if unservable recs bad a 1 then 2 else 1)"
| "pages_for recs bad a (Suc k) =
     (if unservable recs bad a (2 ^ Suc k)
      then 1 + pages_for recs bad a k + pages_for recs bad (a + 2 ^ k) k else 1)"

definition after :: "nat \<Rightarrow> nat \<Rightarrow> djen_client \<Rightarrow> djen_client \<Rightarrow> bool" where
  "after n k s t \<longleftrightarrow>
     cl_base t = cl_base s \<and> cl_deadline t = None \<and> cl_skipped t = cl_skipped s + k \<and>
     length (cl_log t) = length (cl_log s) + n"

lemma after_trans: "after n k s t \<Longrightarrow> after n' k' t u \<Longrightarrow> after (n + n') (k + k') s u"
  by (simp add: after_def)

lemma split_upt: "[a ..< a + (n + m)] = [a ..< a + n] @ [a + n ..< a + n + m]"
  using upt_add_eq_append [of a "a + n" m] by (simp add: add.assoc)

lemma servable_append: "servable recs bad a (n + m) = servable recs bad a n @ servable recs bad (a + n) m"
  unfolding servable_def split_upt by simp

lemma lost_append: "lost_records recs bad a (n + m) = lost_records recs bad a n + lost_records recs bad (a + n) m"
  unfolding lost_records_def split_upt by simp

lemma some_page_append: "some_page recs bad a (n + m) \<longleftrightarrow> some_page recs bad a n \<or> some_page recs bad (a + n) m"
  unfolding some_page_def split_upt by auto

lemma range_answer_halves:
  "0 \<le> cnt \<Longrightarrow> both_halves (range_answer recs bad cnt a n) (range_answer recs bad cnt (a + n) m)
     = range_answer recs bad cnt a (n + m)"
  by (simp add: both_halves_def range_answer_def servable_append lost_append some_page_append)

lemma slice_upt: "slice_of recs a n = List.map (nth recs) (filter (\<lambda>i. i < length recs) [a ..< a + n])"
proof (induction n)
  case 0
  show ?case by (simp add: slice_of_def)
next
  case (Suc n)
  have "take n (drop a recs) = drop a recs" if "\<not> a + n < length recs"
    using that by simp
  with Suc show ?case
    by (cases "a + n < length recs") (simp_all add: slice_of_def take_Suc_conv_app_nth)
qed

lemma range_answer_served:
  assumes "\<not> unservable recs bad a n" and "0 < n"
  shows "range_answer recs bad cnt a n =
    \<lparr>rr_items = slice_of recs a n, rr_total = cnt, rr_served = True, rr_skipped = 0\<rparr>"
proof -
  have no: "\<not> (i < length recs \<and> bad i)" if "i \<in> set [a ..< a + n]" for i
    using assms(1) that by (auto simp: unservable_def)
  have "filter (\<lambda>i. i < length recs \<and> \<not> bad i) [a ..< a + n] = filter (\<lambda>i. i < length recs) [a ..< a + n]"
    by (rule filter_cong) (use no in auto)
  moreover have "filter (\<lambda>i. i < length recs \<and> bad i) [a ..< a + n] = []"
    using no by (auto simp: filter_empty_conv)
  moreover have "some_page recs bad a n"
    using no assms(2) unfolding some_page_def by (intro bexI [of _ a]) auto
  ultimately show ?thesis
    by (simp add: range_answer_def servable_def lost_records_def slice_upt)
qed

lemma sleep_calm: "cl_deadline s = None \<Longrightarrow> \<exists>t. sleep_for d s = (Inr (), t) \<and> after 0 0 s t"
  by (auto simp: sleep_for_def after_def)

lemma limiter_calm: "cl_deadline s = None \<Longrightarrow> \<exists>t. limiter_wait s = (Inr (), t) \<and> after 0 0 s t"
  by (auto simp: limiter_wait_def mark_request_def modR_def seqR_def bindR_def sleep_for_def after_def
      split: option.splits)

lemma get_archive:
  assumes "serves_archive api (cl_base s) recs bad cnt" and "cl_deadline s = None"
  shows "\<exists>t. djen_get api rq s = ((case archive recs bad cnt rq of
      Answered st bd \<Rightarrow> if st = 500 then Inl server_rejected else Inr bd | Dropped \<Rightarrow> Inl HttpError), t) \<and> after 1 0 s t"
proof -
  obtain u where u: "limiter_wait s = (Inr (), u)" "after 0 0 s u"
    using limiter_calm [OF assms(2)] by blast
  obtain dt where dt: "dj_server api (length (cl_log u)) rq = (dt, archive recs bad cnt rq)" "dt \<le> client_timeout"
    using assms(1) unfolding serves_archive_def by (metis prod.collapse)
  have h: "\<exists>t. http_do api rq u = (Inr (archive recs bad cnt rq), t) \<and> after 1 0 s t"
    using u(2) dt by (auto simp: http_do_def Let_def after_def)
  then obtain t where t: "http_do api rq u = (Inr (archive recs bad cnt rq), t)" "after 1 0 s t" by blast
  have a: "archive recs bad cnt rq = Answered 500 Unreadable \<or> (\<exists>resp. archive recs bad cnt rq = Answered 200 (Decoded resp))"
    by (simp add: archive_def Let_def)
  show ?thesis
    using a t u(1) by (auto simp: djen_get_def seqR_def bindR_def throw_def ret_def)
qed

lemma page_archive:
  assumes "serves_archive api (cl_base s) recs bad cnt" and "cl_deadline s = None"
    and "n = 2 ^ k" and "n dvd a"
  shows "\<exists>t. fetch_page api ps (a div n + 1) n s =
    ((if unservable recs bad a n then Inl server_rejected
      else Inr \<lparr>ar_status = [], ar_message = [], ar_count = cnt, ar_items = slice_of recs a n\<rparr>), t) \<and> after 1 0 s t"
proof -
  let ?rq = "\<lparr>rq_base = cl_base s, rq_params = ps, rq_page = a div n + 1, rq_size = n\<rparr>"
  have ok: "dj_url_ok api (cl_base s)" using assms(1) by (simp add: serves_archive_def)
  have "archive recs bad cnt ?rq = (if unservable recs bad a n then Answered 500 Unreadable
      else Answered 200 (Decoded \<lparr>ar_status = [], ar_message = [], ar_count = cnt, ar_items = slice_of recs a n\<rparr>))"
    using assms(3,4) by (simp add: archive_def Let_def)
  with get_archive [OF assms(1,2), of ?rq] ok show ?thesis
    by (auto simp: fetch_page_def bindR_def getR_def ret_def split: if_splits)
qed

lemma single_archive:
  assumes "serves_archive api (cl_base s) recs bad cnt" and "cl_deadline s = None"
    and "unservable recs bad a 1"
  shows "\<exists>t. fetch_single api ps a s = (Inr (range_answer recs bad cnt a 1), t) \<and> after 1 1 s t"
proof -
  obtain u where u: "sleep_for backoff_initial s = (Inr (), u)" "after 0 0 s u"
    using sleep_calm [OF assms(2)] by blast
  with assms have "serves_archive api (cl_base u) recs bad cnt" "cl_deadline u = None"
    by (simp_all add: after_def)
  from page_archive [OF this, of 1 0 a ps] obtain v
    where v: "fetch_page api ps (a + 1) 1 u = (Inl server_rejected, v)" "after 1 0 u v"
    using assms(3) by auto
  have "range_answer recs bad cnt a 1 = one_skipped"
    using assms(3) by (auto simp: range_answer_def one_skipped_def servable_def lost_records_def some_page_def unservable_def)
  moreover have "after 1 1 s (v\<lparr>cl_skipped := cl_skipped v + 1\<rparr>)"
    using u(2) v(2) by (simp add: after_def)
  ultimately show ?thesis
    using u(1) v(1) by (simp add: fetch_single_def seqR_def bindR_def attemptR_def modR_def ret_def)
qed

lemma range_archive:
  assumes "0 \<le> cnt"
  shows "serves_archive api (cl_base s) recs bad cnt \<Longrightarrow> cl_deadline s = None \<Longrightarrow> 2 ^ k dvd a \<Longrightarrow>
    \<exists>t. fetch_range api ps a (2 ^ k) s = (Inr (range_answer recs bad cnt a (2 ^ k)), t) \<and>
      after (pages_for recs bad a k) (lost_records recs bad a (2 ^ k)) s t"
proof (induction k arbitrary: a s)
  case 0
  obtain u where u: "fetch_page api ps (a div 1 + 1) 1 s =
    ((if unservable recs bad a 1 then Inl server_rejected
      else Inr \<lparr>ar_status = [], ar_message = [], ar_count = cnt, ar_items = slice_of recs a 1\<rparr>), u)" "after 1 0 s u"
    using page_archive [OF 0(1,2), of 1 0 a ps] by auto
  show ?case
  proof (cases "unservable recs bad a 1")
    case False
    from range_answer_served [OF False] have "lost_records recs bad a 1 = 0"
      by (simp add: range_answer_def)
    with False u range_answer_served [OF False, of cnt] show ?thesis
      by (simp add: fetch_range.simps [of api ps a "Suc 0"] bindR_def attemptR_def ret_def whole_page_def)
  next
    case True
    from u(2) 0 have "serves_archive api (cl_base u) recs bad cnt" "cl_deadline u = None"
      by (simp_all add: after_def)
    from single_archive [OF this True, of ps] obtain t
      where t: "fetch_single api ps a u = (Inr (range_answer recs bad cnt a 1), t)" "after 1 1 u t" by blast
    have "lost_records recs bad a 1 = 1" using True by (auto simp: lost_records_def unservable_def)
    with True u t after_trans [OF u(2) t(2)] show ?thesis
      by (simp add: fetch_range.simps [of api ps a "Suc 0"] bindR_def attemptR_def numeral_2_eq_2)
  qed
next
  case (Suc k)
  let ?n = "2 ^ Suc k :: nat"
  obtain u where u: "fetch_page api ps (a div ?n + 1) ?n s =
    ((if unservable recs bad a ?n then Inl server_rejected
      else Inr \<lparr>ar_status = [], ar_message = [], ar_count = cnt, ar_items = slice_of recs a ?n\<rparr>), u)" "after 1 0 s u"
    using page_archive [OF Suc.prems(1,2) refl Suc.prems(3)] by blast
  show ?case
  proof (cases "unservable recs bad a ?n")
    case False
    from range_answer_served [OF False] have "lost_records recs bad a ?n = 0"
      by (simp add: range_answer_def)
    with False u range_answer_served [OF False, of cnt] show ?thesis
      by (simp add: fetch_range.simps [of api ps a "2 * 2 ^ k"] bindR_def attemptR_def ret_def whole_page_def)
  next
    case True
    have half: "?n div 2 = 2 ^ k" "2 ^ k dvd a" "2 ^ k dvd a + 2 ^ k" "1 < ?n"
      using Suc.prems(3) dvd_trans [of "2 ^ k" ?n a] one_less_power [of "2::nat" "Suc k"] by simp_all
    from u(2) Suc.prems have "serves_archive api (cl_base u) recs bad cnt" "cl_deadline u = None"
      by (simp_all add: after_def)
    from Suc.IH [OF this half(2)] obtain v where v:
      "fetch_range api ps a (2 ^ k) u = (Inr (range_answer recs bad cnt a (2 ^ k)), v)"
      "after (pages_for recs bad a k) (lost_records recs bad a (2 ^ k)) u v" by blast
    with \<open>serves_archive api (cl_base u) recs bad cnt\<close>
    have "serves_archive api (cl_base v) recs bad cnt" "cl_deadline v = None"
      by (simp_all add: after_def)
    from Suc.IH [OF this half(3)] obtain t where t:
      "fetch_range api ps (a + 2 ^ k) (2 ^ k) v = (Inr (range_answer recs bad cnt (a + 2 ^ k) (2 ^ k)), t)"
      "after (pages_for recs bad (a + 2 ^ k) k) (lost_records recs bad (a + 2 ^ k) (2 ^ k)) v t" by blast
    have r: "fetch_range api ps a ?n s = (Inr (range_answer recs bad cnt a ?n), t)"
      using True u(1) v(1) t(1) half(1,4) range_answer_halves [OF assms, of recs bad a "2 ^ k" "2 ^ k"]
      by (simp add: fetch_range.simps [of api ps a "2 ^ k + 2 ^ k"] bindR_def attemptR_def ret_def mult_2)
    have "after (pages_for recs bad a (Suc k)) (lost_records recs bad a ?n) s t"
      using True after_trans [OF after_trans [OF u(2) v(2)] t(2)]
        lost_append [of recs bad a "2 ^ k" "2 ^ k"] by (simp add: mult_2)
    with r show ?thesis by blast
  qed
qed

text \<open>Past the end of the list there is nothing to serve and nothing to lose.\<close>

lemma beyond_upt:
  assumes "\<And>i. P i \<Longrightarrow> i < l" and "l \<le> a + n"
  shows "filter P [a ..< a + n] = filter P [a ..< l]"
proof (cases "a \<le> l")
  case True
  then have "[a ..< a + n] = [a ..< l] @ [l ..< a + n]"
    using upt_add_eq_append [of a l "a + n - l"] assms(2) by simp
  moreover have "filter P [l ..< a + n] = []" using assms(1) by (force simp: filter_empty_conv)
  ultimately show ?thesis by simp
next
  case False
  then show ?thesis using assms(1) by (force simp: filter_empty_conv)
qed

lemma servable_beyond: "length recs \<le> a + n \<Longrightarrow>
    servable recs bad a n = List.map (nth recs) (filter (\<lambda>i. i < length recs \<and> \<not> bad i) [a ..< length recs])"
  unfolding servable_def by (subst beyond_upt) auto

lemma lost_beyond: "length recs \<le> a + n \<Longrightarrow>
    lost_records recs bad a n = length (filter (\<lambda>i. i < length recs \<and> bad i) [a ..< length recs])"
  unfolding lost_records_def by (subst beyond_upt) auto

lemma range_accounts:
  "length (servable recs bad a n) + lost_records recs bad a n = length (filter (\<lambda>i. i < length recs) [a ..< a + n])"
proof (induction n)
  case 0
  show ?case by (simp add: servable_def lost_records_def)
next
  case (Suc n)
  then show ?case by (simp add: servable_def lost_records_def)
qed

lemma fetch_range_archive:
  assumes "serves_archive api (cl_base s) recs bad cnt" and "cl_deadline s = None" and "0 \<le> cnt"
    and "items_per_page dvd a"
  shows "\<exists>t. fetch_range api ps a items_per_page s = (Inr (range_answer recs bad cnt a items_per_page), t) \<and>
      after (pages_for recs bad a 5) (lost_records recs bad a items_per_page) s t"
  using range_archive [OF assms(3,1,2), of 5 a ps] assms(4) by (simp add: items_per_page_def)

lemma paginate_archive:
  assumes "serves_archive api (cl_base s) recs bad (int (length recs))" and "cl_deadline s = None"
    and "items_per_page dvd a" and "1 \<le> fuel" and "length recs \<le> a + 32 * (fuel - 1)"
  shows "\<exists>n t. paginate_from api ps 0 fuel a (int (length recs)) out s =
    (Inr (Some (out @ servable recs bad a (length recs))), t) \<and> after n (lost_records recs bad a (length recs)) s t"
  using assms
proof (induction fuel arbitrary: a out s)
  case 0
  then show ?case by simp
next
  case (Suc fuel)
  let ?l = "length recs"
  show ?case
  proof (cases "?l \<le> a")
    case True
    then have "servable recs bad a ?l = []" "lost_records recs bad a ?l = 0"
      by (auto simp: servable_beyond lost_beyond)
    moreover have "after 0 0 s s" using Suc.prems(2) by (simp add: after_def)
    ultimately show ?thesis using True by (auto simp: ret_def capped_def)
  next
    case False
    obtain u where u: "fetch_range api ps a items_per_page s = (Inr (range_answer recs bad (int ?l) a items_per_page), u)"
      and au: "after (pages_for recs bad a 5) (lost_records recs bad a items_per_page) s u"
      using fetch_range_archive [OF Suc.prems(1,2) _ Suc.prems(3), of ps] by auto
    have "filter (\<lambda>i. i < ?l) [a ..< a + items_per_page] \<noteq> []"
      unfolding filter_empty_conv using False by (auto simp: items_per_page_def intro!: bexI [of _ a])
    then have some: "length (servable recs bad a items_per_page) + lost_records recs bad a items_per_page \<noteq> 0"
      unfolding range_accounts by simp
    have pre: "serves_archive api (cl_base u) recs bad (int ?l)" "cl_deadline u = None"
      using au Suc.prems by (simp_all add: after_def)
    have "items_per_page dvd a + items_per_page" "1 \<le> fuel" "?l \<le> a + items_per_page + 32 * (fuel - 1)"
      using Suc.prems(3,5) False by (auto simp: items_per_page_def)
    from Suc.IH [OF pre this, of "out @ servable recs bad a items_per_page"] obtain n t where
      t: "paginate_from api ps 0 fuel (a + items_per_page) (int ?l) (out @ servable recs bad a items_per_page) u =
        (Inr (Some ((out @ servable recs bad a items_per_page) @ servable recs bad (a + items_per_page) ?l)), t)"
      and at: "after n (lost_records recs bad (a + items_per_page) ?l) u t" by blast
    have "servable recs bad a items_per_page @ servable recs bad (a + items_per_page) ?l = servable recs bad a ?l"
      "lost_records recs bad a items_per_page + lost_records recs bad (a + items_per_page) ?l = lost_records recs bad a ?l"
      unfolding servable_append [symmetric] lost_append [symmetric] by (simp_all add: servable_beyond lost_beyond)
    with t after_trans [OF au at] show ?thesis
      using False u some by (auto simp: bindR_def range_answer_def)
  qed
qed

section \<open>The cost of isolating one record\<close>

lemma unservable_append: "unservable recs bad a (n + m) \<longleftrightarrow> unservable recs bad a n \<or> unservable recs bad (a + n) m"
  unfolding unservable_def split_upt by auto

lemma pages_clean: "\<not> unservable recs bad a (2 ^ k) \<Longrightarrow> pages_for recs bad a k = 1"
  by (cases k) auto

lemma lost_pos: "unservable recs bad a n \<longleftrightarrow> 0 < lost_records recs bad a n"
  by (auto simp: lost_records_def unservable_def filter_empty_conv)

lemma pages_one: "lost_records recs bad a (2 ^ k) = 1 \<Longrightarrow> pages_for recs bad a k = 2 * k + 2"
proof (induction k arbitrary: a)
  case 0
  then show ?case by (simp add: lost_pos)
next
  case (Suc k)
  have split: "lost_records recs bad a (2 ^ k) + lost_records recs bad (a + 2 ^ k) (2 ^ k) = 1"
    using Suc.prems lost_append [of recs bad a "2 ^ k" "2 ^ k"] by (simp add: mult_2)
  then consider "lost_records recs bad a (2 ^ k) = 1" "lost_records recs bad (a + 2 ^ k) (2 ^ k) = 0"
    | "lost_records recs bad a (2 ^ k) = 0" "lost_records recs bad (a + 2 ^ k) (2 ^ k) = 1" by linarith
  then have "pages_for recs bad a k + pages_for recs bad (a + 2 ^ k) k = 2 * k + 3"
  proof cases
    case 1
    with Suc.IH [of a] pages_clean [of recs bad "a + 2 ^ k" k] show ?thesis by (simp add: lost_pos)
  next
    case 2
    with Suc.IH [of "a + 2 ^ k"] pages_clean [of recs bad a k] show ?thesis by (simp add: lost_pos)
  qed
  moreover have "unservable recs bad a (2 ^ Suc k)" using Suc.prems by (simp add: lost_pos)
  ultimately show ?case by simp
qed

section \<open>Caps\<close>

lemma paginate_capped:
  "0 < cap \<Longrightarrow> paginate_from api ps cap fuel offset tot out s = (Inr (Some r), t) \<Longrightarrow> length r \<le> cap"
proof (induction api ps cap fuel offset tot out arbitrary: s rule: paginate_from.induct)
  case (1 api ps cap offset tot out)
  then show ?case by (simp add: ret_def)
next
  case (2 api ps cap fuel offset tot out)
  then show ?case by (auto simp: bindR_Inr capped_def split: if_splits)
qed

lemma windows_capped:
  "0 < cap \<Longrightarrow> length out \<le> cap \<Longrightarrow>
     search_windows api fuel name cap ws out s = (Inr (Some r), t) \<Longrightarrow> length r \<le> cap"
proof (induction api fuel name cap ws out arbitrary: s rule: search_windows.induct)
  case (1 api fuel name cap out)
  then show ?case by simp
next
  case (2 api fuel name cap a b ws out)
  show ?case
  proof (cases "cap \<le> length out")
    case True
    with 2 show ?thesis by simp
  next
    case False
    with "2.prems" obtain x items u v where
      p: "paginate api fuel [(''nomeParte'', name), (''dataDisponibilizacaoInicio'', a), (''dataDisponibilizacaoFim'', b)]
        (cap - length out) s = (Inr (Some items), u)"
      and r: "search_windows api fuel name cap ws (out @ items) u = (Inr (Some r), t)"
      by (auto simp: bindR_Inr split: option.splits)
    from False paginate_capped [OF _ p [unfolded paginate_def]] have "length (out @ items) \<le> cap" by simp
    with "2.IH" "2.prems"(1) False r show ?thesis by auto
  qed
qed

lemma date_before_irrefl [simp]: "\<not> date_before d d"
  by (simp add: date_before_def)

section \<open>Properties\<close>

lemma whole_archive:
  "servable recs bad 0 (length recs) = List.map (nth recs) (filter (\<lambda>i. \<not> bad i) [0 ..< length recs])"
  "lost_records recs bad 0 (length recs) = length (filter bad [0 ..< length recs])"
proof -
  have "filter (\<lambda>i. i < length recs \<and> \<not> bad i) [0 ..< length recs] = filter (\<lambda>i. \<not> bad i) [0 ..< length recs]"
    "filter (\<lambda>i. i < length recs \<and> bad i) [0 ..< length recs] = filter bad [0 ..< length recs]"
    by (rule filter_cong, simp, simp)+
  then show "servable recs bad 0 (length recs) = List.map (nth recs) (filter (\<lambda>i. \<not> bad i) [0 ..< length recs])"
    "lost_records recs bad 0 (length recs) = length (filter bad [0 ..< length recs])"
    by (simp_all add: servable_def lost_records_def)
qed

lemma archive_halves:
  "servable recs bad 0 items_per_page @ servable recs bad items_per_page (length recs) = servable recs bad 0 (length recs)"
  "lost_records recs bad 0 items_per_page + lost_records recs bad items_per_page (length recs) = lost_records recs bad 0 (length recs)"
  using servable_append [of recs bad 0 items_per_page "length recs"] lost_append [of recs bad 0 items_per_page "length recs"]
  by (simp_all add: servable_beyond lost_beyond)

lemma search_served:
  assumes "serves_archive api (cl_base s) recs bad (int (length recs))" and "cl_deadline s = None"
    and "1 \<le> f" and "length recs \<le> 32 * f" and "some_page recs bad 0 32"
  shows "\<exists>t. search_by_case_number api (Suc f) n s = (Inr (Some (servable recs bad 0 (length recs))), t) \<and>
    cl_skipped t = cl_skipped s + lost_records recs bad 0 (length recs)"
proof -
  let ?l = "length recs" and ?ps = "[(''numeroProcesso'', n)]"
  obtain u where u: "fetch_range api ?ps 0 items_per_page s = (Inr (range_answer recs bad (int ?l) 0 items_per_page), u)"
    and au: "after (pages_for recs bad 0 5) (lost_records recs bad 0 items_per_page) s u"
    using fetch_range_archive [OF assms(1,2), of 0 ?ps] by auto
  have pre: "serves_archive api (cl_base u) recs bad (int ?l)" "cl_deadline u = None"
    using au assms by (simp_all add: after_def)
  have "?l \<le> items_per_page + 32 * (f - 1)" using assms(3,4) by (auto simp: items_per_page_def)
  from paginate_archive [OF pre _ assms(3) this, of ?ps "servable recs bad 0 items_per_page"] obtain k t where
    t: "paginate_from api ?ps 0 f items_per_page (int ?l) (servable recs bad 0 items_per_page) u =
      (Inr (Some (servable recs bad 0 ?l)), t)"
    and at: "after k (lost_records recs bad items_per_page ?l) u t"
    using archive_halves by auto
  show ?thesis
  proof (cases "length (servable recs bad 0 items_per_page) + lost_records recs bad 0 items_per_page = 0")
    case empty: True
    then have "filter (\<lambda>i. i < ?l) [0 ..< 0 + items_per_page] = []" unfolding range_accounts by simp
    then have "recs = []" by (cases recs) (auto simp: filter_empty_conv items_per_page_def)
    with assms(5) u au show ?thesis
      by (auto simp: search_by_case_number_def paginate_def bindR_def ret_def range_answer_def capped_def
          items_per_page_def servable_def lost_records_def after_def)
  next
    case False
    have "search_by_case_number api (Suc f) n s = (Inr (Some (servable recs bad 0 ?l)), t)"
      using assms(5) False u t
      by (auto simp: search_by_case_number_def paginate_def bindR_def range_answer_def items_per_page_def)
    moreover have "cl_skipped t = cl_skipped s + lost_records recs bad 0 ?l"
      using au at archive_halves(2) [of recs bad] by (simp add: after_def)
    ultimately show ?thesis by blast
  qed
qed

text \<open>Against an archive some of whose records cannot be served, a case search returns exactly
  the servable ones, in order, and counts every other one as skipped, with fuel for the pages there
  are; unless not one page of the first range can be served, which is reported as an error.\<close>

theorem search_returns_servable:
  assumes "serves_archive api (cl_base s) recs bad (int (length recs))" and "cl_deadline s = None"
    and "2 \<le> fuel" and "length recs \<le> 32 * (fuel - 1)"
  shows "\<exists>t. search_by_case_number api fuel n s =
      ((if some_page recs bad 0 32
        then Inr (Some (List.map (nth recs) (filter (\<lambda>i. \<not> bad i) [0 ..< length recs])))
        else Inl server_rejected), t) \<and>
    (some_page recs bad 0 32 \<longrightarrow> cl_skipped t = cl_skipped s + length (filter bad [0 ..< length recs]))"
proof -
  obtain f where f: "fuel = Suc f" "1 \<le> f" "length recs \<le> 32 * f" using assms(3,4) by (cases fuel) auto
  obtain u where u: "fetch_range api [(''numeroProcesso'', n)] 0 items_per_page s =
      (Inr (range_answer recs bad (int (length recs)) 0 items_per_page), u)"
    using fetch_range_archive [OF assms(1,2), of 0 "[(''numeroProcesso'', n)]"] by auto
  show ?thesis
  proof (cases "some_page recs bad 0 32")
    case True
    with search_served [OF assms(1,2) f(2,3) True, of n] show ?thesis by (auto simp: f whole_archive)
  next
    case False
    with u show ?thesis
      by (simp add: f search_by_case_number_def paginate_def bindR_def throw_def range_answer_def items_per_page_def)
  qed
qed

definition archive_api :: "item list \<Rightarrow> (nat \<Rightarrow> bool) \<Rightarrow> int \<Rightarrow> djen_api" where
  "archive_api recs bad cnt = \<lparr>dj_url_ok = (\<lambda>_. True), dj_server = (\<lambda>k rq. (0, archive recs bad cnt rq))\<rparr>"

lemma archive_api_serves: "serves_archive (archive_api recs bad cnt) base recs bad cnt"
  by (simp add: serves_archive_def archive_api_def)

definition numbered :: "int \<Rightarrow> item" where
  "numbered i = \<lparr>it_id = i, it_tribunal = [], it_tipo = [], it_documento = [], it_orgao = [], it_processo = [],
     it_mascara = [], it_classe = [], it_codigo = [], it_data = [], it_link = [], it_texto = [],
     it_destinatarios = []\<rparr>"

theorem search_returns_servable_witness:
  "\<exists>t. search_by_case_number (archive_api [numbered 0, numbered 1, numbered 2] (\<lambda>i. i = 1) 3) 2 []
      (new_client [] 0 None) = (Inr (Some [numbered 0, numbered 2]), t) \<and> cl_skipped t = 1"
proof -
  let ?recs = "[numbered 0, numbered 1, numbered 2]" and ?bad = "\<lambda>i::nat. i = 1"
  have p: "some_page ?recs ?bad 0 32" unfolding some_page_def by (rule bexI [of _ 0]) simp_all
  have s: "serves_archive (archive_api ?recs ?bad 3) (cl_base (new_client [] 0 None)) ?recs ?bad (int (length ?recs))"
    using archive_api_serves [of ?recs ?bad 3] by simp
  have u: "[0 ..< length ?recs] = [0, 1, 2]" by (simp add: upt_rec)
  have "\<exists>t. search_by_case_number (archive_api ?recs ?bad 3) 2 [] (new_client [] 0 None) =
      (Inr (Some [numbered 0, numbered 2]), t) \<and> cl_skipped t = cl_skipped (new_client [] 0 None) + 1"
    using search_returns_servable [OF s, of 2 "[]"] p unfolding u by (simp add: new_client_def Let_def)
  then show ?thesis by (simp add: new_client_def Let_def)
qed

text \<open>Whatever the gazette answers, two requests of a name search are at least one interval apart,
  over all retries, bisections, pages and yearly windows.\<close>

theorem requests_are_paced:
  "successively (\<lambda>a b. fst a + request_interval \<le> fst b)
     (cl_log (snd (search_by_party_name api fuel today name cap (new_client base now deadline))))"
proof -
  have "paced (new_client base now deadline)" by (simp add: paced_def new_client_def Let_def)
  then show ?thesis
    using movesD [OF pace_name] by (simp add: keeps_pace_def paced_def)
qed

text \<open>Whatever the gazette answers, one range costs at most 380 requests: an outage cannot turn the
  bisection into an endless one.\<close>

theorem range_cost_bounded:
  "length (cl_log (snd (fetch_range api ps offset items_per_page s))) \<le> length (cl_log s) + 380"
  using sends_range [of items_per_page api ps offset] by (simp add: sends_def items_per_page_def)

text \<open>Isolating one unservable record among the 32 of a range costs exactly twelve requests, two for
  each halving and two for the record, and loses that record only.\<close>

theorem isolating_one_record:
  assumes "serves_archive api (cl_base s) recs bad cnt" and "cl_deadline s = None" and "0 \<le> cnt"
    and "items_per_page dvd a" and "lost_records recs bad a items_per_page = 1"
  shows "\<exists>r t. fetch_range api ps a items_per_page s = (Inr r, t) \<and> rr_skipped r = 1 \<and>
    rr_items r = servable recs bad a items_per_page \<and> cl_skipped t = cl_skipped s + 1 \<and>
    length (cl_log t) = length (cl_log s) + 12"
  using fetch_range_archive [OF assms(1-4), of ps] pages_one [of recs bad a 5] assms(5)
  by (auto simp: after_def range_answer_def items_per_page_def)

theorem isolating_one_record_witness:
  "\<exists>r t. fetch_range (archive_api [numbered 0, numbered 1] (\<lambda>i. i = 0) 2) [] 0 items_per_page (new_client [] 0 None)
     = (Inr r, t) \<and> length (cl_log t) = 12"
proof -
  let ?recs = "[numbered 0, numbered 1]" and ?bad = "\<lambda>i::nat. i = 0"
  have "filter (\<lambda>i. i < length ?recs \<and> ?bad i) [0 ..< 0 + 32] = [0]" by (simp add: upt_rec)
  then have l: "lost_records ?recs ?bad 0 items_per_page = 1"
    by (simp only: lost_records_def items_per_page_def) simp
  have "\<exists>r t. fetch_range (archive_api ?recs ?bad 2) [] 0 items_per_page (new_client [] 0 None) = (Inr r, t) \<and>
      length (cl_log t) = length (cl_log (new_client [] 0 None)) + 12"
    using isolating_one_record [OF archive_api_serves _ _ _ l, of "new_client [] 0 None" 2 "[]"]
    by (auto simp: new_client_def Let_def)
  then show ?thesis by (simp add: new_client_def Let_def)
qed

text \<open>C33: pagination ends. If no answer reports a negative count or one above \<open>n\<close>, fuel for the pages of
  \<open>n\<close> results and one more is enough, whatever else the gazette answers.\<close>

theorem pagination_terminates:
  assumes "count_bounded api n" and "0 \<le> n" and "2 \<le> fuel" and "n \<le> 32 * (int fuel - 1)"
  shows "fst (paginate api fuel ps cap s) \<noteq> Inr None"
  unfolding paginate_def by (rule paginate_ends [OF assms(1,2)]) (use assms(3,4) in simp)

theorem pagination_terminates_witness:
  "fst (paginate (archive_api [numbered 0] (\<lambda>i. True) 1) 2 [] 0 (new_client [] 0 None)) \<noteq> Inr None"
  by (rule pagination_terminates [where n = 1])
    (auto simp: count_bounded_def archive_api_def archive_def Let_def split: if_splits)

text \<open>A name search with a cap returns at most that many communications over all its windows.\<close>

theorem name_search_capped:
  assumes "search_by_party_name api fuel today name cap s = (Inr (Some items), t)" and "0 < cap"
  shows "length items \<le> cap"
  using assms windows_capped [of cap "[]" api fuel name]
  by (auto simp: search_by_party_name_def split: sum.splits)

theorem name_search_capped_witness:
  "\<exists>items t. search_by_party_name (archive_api [numbered 0, numbered 1] (\<lambda>i. False) 2) 2
     \<lparr>ca_year = 2021, ca_month = 3, ca_day = 1\<rparr> [] 1 (new_client [] 0 None) = (Inr (Some items), t) \<and> length items \<le> 1"
proof -
  let ?api = "archive_api [numbered 0, numbered 1] (\<lambda>i. False) 2" and ?s = "new_client [] 0 None"
  let ?p = "search_by_party_name ?api 2 \<lparr>ca_year = 2021, ca_month = 3, ca_day = 1\<rparr> [] 1 ?s"
  have w: "\<exists>a b. party_windows \<lparr>ca_year = 2021, ca_month = 3, ca_day = 1\<rparr> = Inr [(a, b)]"
    by (simp add: party_windows_def window_dates_def coverage_start_year_def case_prod_beta)
  have "\<exists>items t. ?p = (Inr (Some items), t)"
  proof -
    obtain a b where ab: "party_windows \<lparr>ca_year = 2021, ca_month = 3, ca_day = 1\<rparr> = Inr [(a, b)]" using w by blast
    let ?ps = "[(''nomeParte'', []), (''dataDisponibilizacaoInicio'', a), (''dataDisponibilizacaoFim'', b)]"
    have d: "cl_deadline ?s = None" by (simp add: new_client_def Let_def)
    obtain u where u: "fetch_range ?api ?ps 0 items_per_page ?s =
        (Inr (range_answer [numbered 0, numbered 1] (\<lambda>i. False) 2 0 items_per_page), u)"
      using fetch_range_archive [OF archive_api_serves d, where a = 0 and ps = ?ps and cnt = 2
          and recs = "[numbered 0, numbered 1]" and bad = "\<lambda>i. False"] by auto
    have "some_page [numbered 0, numbered 1] (\<lambda>i. False) 0 items_per_page"
      unfolding some_page_def items_per_page_def by (rule bexI [of _ 0]) simp_all
    with ab u show ?thesis
      by (simp add: search_by_party_name_def paginate_def bindR_def ret_def range_answer_def numeral_2_eq_2
          items_per_page_def)
  qed
  then show ?thesis using name_search_capped [of ?api 2] by fastforce
qed

text \<open>The yearly windows of a name search partition the covered days. Every day from the first of
  January 2021 up to the day of the run lies in exactly one window, and no window reaches past that
  day or over a year's end.\<close>

theorem windows_partition:
  assumes "date_before d \<lparr>ca_year = 2021, ca_month = 1, ca_day = 1\<rparr> = False"
    and "date_before today d = False"
    and "1 \<le> ca_month d" "ca_month d \<le> 12" "1 \<le> ca_day d" "ca_day d \<le> 31"
  shows "(\<exists>!w. w \<in> set (window_dates today) \<and> \<not> date_before d (fst w) \<and> \<not> date_before (snd w) d) \<and>
    (\<forall>(a, b) \<in> set (window_dates today). ca_year a = ca_year b \<and> \<not> date_before today b)"
proof -
  have mem: "w \<in> set (window_dates today) \<longleftrightarrow> (\<exists>y. 2021 \<le> y \<and> y \<le> ca_year today \<and> w = year_window today y)" for w
    by (auto simp: window_dates_def coverage_start_year_def simp del: upt_Suc)
  have jan: "\<not> date_before d \<lparr>ca_year = y, ca_month = 1, ca_day = 1\<rparr> \<longleftrightarrow> y \<le> ca_year d" for y
    using assms(3,5) by (auto simp: date_before_def)
  have dec: "\<not> date_before \<lparr>ca_year = y, ca_month = 12, ca_day = 31\<rparr> d \<longleftrightarrow> ca_year d \<le> y" for y
    using assms(4,6) by (auto simp: date_before_def)
  have last: "y = ca_year today" if "y \<le> ca_year today" "date_before today \<lparr>ca_year = y, ca_month = 12, ca_day = 31\<rparr>" for y
    using that by (auto simp: date_before_def)
  have "ca_year d \<le> ca_year today" using assms(2) by (auto simp: date_before_def)
  then have inside: "\<not> date_before d (fst (year_window today y)) \<and> \<not> date_before (snd (year_window today y)) d
      \<longleftrightarrow> y = ca_year d" if "y \<le> ca_year today" for y
    using that jan [of y] dec [of y] last [of y] assms(2)
    by (cases "date_before today \<lparr>ca_year = y, ca_month = 12, ca_day = 31\<rparr>") (auto simp: year_window_def Let_def)
  have y: "2021 \<le> ca_year d" "ca_year d \<le> ca_year today"
    using assms(1,2) by (auto simp: date_before_def)
  have ex1: "\<exists>!w. w \<in> set (window_dates today) \<and> \<not> date_before d (fst w) \<and> \<not> date_before (snd w) d"
  proof (rule ex1I)
    show "year_window today (ca_year d) \<in> set (window_dates today) \<and>
        \<not> date_before d (fst (year_window today (ca_year d))) \<and>
        \<not> date_before (snd (year_window today (ca_year d))) d"
      using y inside by (auto simp: mem)
    fix w assume "w \<in> set (window_dates today) \<and> \<not> date_before d (fst w) \<and> \<not> date_before (snd w) d"
    then show "w = year_window today (ca_year d)" using inside unfolding mem by blast
  qed
  have within: "ca_year (fst w) = ca_year (snd w) \<and> \<not> date_before today (snd w)" if "w \<in> set (window_dates today)" for w
    using that last unfolding mem by (auto simp: year_window_def Let_def date_before_irrefl split: if_splits)
  show ?thesis
  proof (rule conjI [OF ex1], rule ballI)
    fix w assume "w \<in> set (window_dates today)"
    from within [OF this] show "case w of (a, b) \<Rightarrow> ca_year a = ca_year b \<and> \<not> date_before today b"
      by (simp add: case_prod_beta)
  qed
qed

theorem windows_partition_witness:
  "\<exists>!w. w \<in> set (window_dates \<lparr>ca_year = 2024, ca_month = 5, ca_day = 3\<rparr>) \<and>
     \<not> date_before \<lparr>ca_year = 2022, ca_month = 2, ca_day = 28\<rparr> (fst w) \<and>
     \<not> date_before (snd w) \<lparr>ca_year = 2022, ca_month = 2, ca_day = 28\<rparr>"
  using windows_partition [of "\<lparr>ca_year = 2022, ca_month = 2, ca_day = 28\<rparr>"
      "\<lparr>ca_year = 2024, ca_month = 5, ca_day = 3\<rparr>"]
  by (simp add: date_before_def)

text \<open>A search whose count the gazette never reports does not loop, it stops short: a missing count
  decodes to 0, and only the records of the first range are returned, however many there are.\<close>

theorem missing_count_truncates:
  assumes "serves_archive api (cl_base s) recs bad 0" and "cl_deadline s = None"
    and "some_page recs bad 0 32" and "2 \<le> fuel"
  shows "fst (search_by_case_number api fuel n s) = Inr (Some (servable recs bad 0 32))"
proof -
  let ?ps = "[(''numeroProcesso'', n)]"
  obtain u where u: "fetch_range api ?ps 0 items_per_page s = (Inr (range_answer recs bad 0 0 items_per_page), u)"
    using fetch_range_archive [OF assms(1,2), of 0 ?ps] by auto
  obtain f where f: "fuel = Suc (Suc f)"
  proof
    show "fuel = Suc (Suc (fuel - 2))" using assms(4) by simp
  qed
  have p: "some_page recs bad 0 items_per_page" using assms(3) by (simp add: items_per_page_def)
  have "fst (search_by_case_number api fuel n s) = Inr (Some (servable recs bad 0 items_per_page))"
    using u p unfolding f
    by (simp add: search_by_case_number_def paginate_def bindR_def ret_def range_answer_def capped_def)
  then show ?thesis by (simp only: items_per_page_def)
qed

theorem missing_count_truncates_witness:
  "fst (search_by_case_number (archive_api [numbered 0] (\<lambda>i. False) 0) 2 [] (new_client [] 0 None)) = Inr (Some [numbered 0])"
proof -
  have "filter (\<lambda>i. i < length [numbered 0] \<and> \<not> False) [0 ..< 0 + 32] = [0]" by (simp add: upt_rec)
  then have "servable [numbered 0] (\<lambda>i. False) 0 32 = [numbered 0]" by (simp only: servable_def) simp
  moreover have "some_page [numbered 0] (\<lambda>i. False) 0 32"
    unfolding some_page_def by (rule bexI [of _ 0]) simp_all
  ultimately show ?thesis
    using missing_count_truncates [OF archive_api_serves, of "new_client [] 0 None" "[numbered 0]" "\<lambda>i. False" 2 "[]"]
    by (simp add: new_client_def Let_def)
qed

end
