(* ===== verification/Djen_Text.thy ===== *)
theory Djen_Text
  imports Djen_Client Matching Cases
begin

text \<open>
  The pure part of the gazette worker (\<^verbatim>\<open>backend/workers/djen/worker.go\<close>): the roster of a case, the
  index of politician names, the class filter, the company heuristic and the cleaning of names.
  Go's regular expressions are written out: \<^verbatim>\<open>\s\<close> is ASCII white space without the vertical tab,
  and \<^verbatim>\<open>(?i)\<close> lets the long s stand for an S, as RE2's simple folding does.
\<close>

section \<open>Names\<close>

definition accent_map :: "(rune \<times> rune) list" where
  "accent_map =
     [(193, 65), (192, 65), (194, 65), (195, 65), (196, 65),
      (201, 69), (200, 69), (202, 69), (203, 69),
      (205, 73), (204, 73), (206, 73), (207, 73),
      (211, 79), (210, 79), (212, 79), (213, 79), (214, 79),
      (218, 85), (217, 85), (219, 85), (220, 85),
      (199, 67), (209, 78)]"

definition strip_accents :: "gostr \<Rightarrow> gostr" where
  "strip_accents s = List.map (\<lambda>r. case map_of accent_map r of Some f \<Rightarrow> f | None \<Rightarrow> r) s"

definition djen_normalize_name :: "gostr \<Rightarrow> gostr" where
  "djen_normalize_name s = str_join [32] (str_fields (strip_accents (to_upper (trim_space s))))"

definition normalize_case_number :: "gostr \<Rightarrow> gostr" where
  "normalize_case_number s = filter is_digit s"

text \<open>\<^verbatim>\<open>(?i)\s+E\s+OUTROS?(\s*\([0-9]+\))?\s*$\<close> at the start of a string.\<close>

definition re_space :: "rune \<Rightarrow> bool" where
  "re_space r \<longleftrightarrow> r \<in> {9, 10, 12, 13, 32}"

definition re_letter :: "rune \<Rightarrow> rune \<Rightarrow> bool" where
  "re_letter c r \<longleftrightarrow> r = c \<or> r = c + 32 \<or> (c = 83 \<and> r = 383)"

definition re_spaces1 :: "gostr \<Rightarrow> gostr option" where
  "re_spaces1 s = (case s of r # t \<Rightarrow> if re_space r then Some (dropWhile re_space t) else None | [] \<Rightarrow> None)"

fun re_word :: "rune list \<Rightarrow> gostr \<Rightarrow> gostr option" where
  "re_word [] s = Some s"
| "re_word (c # cs) [] = None"
| "re_word (c # cs) (r # s) = (if re_letter c r then re_word cs s else None)"

definition re_optional_s :: "gostr \<Rightarrow> gostr" where
  "re_optional_s s = (case s of r # t \<Rightarrow> if re_letter 83 r then t else s | [] \<Rightarrow> s)"

definition re_count_tail :: "gostr \<Rightarrow> bool" where
  "re_count_tail s =
     (case dropWhile re_space s of
        [] \<Rightarrow> True
      | r # t \<Rightarrow> r = 40 \<and> takeWhile is_digit t \<noteq> [] \<and>
          (case dropWhile is_digit t of c # u \<Rightarrow> c = 41 \<and> dropWhile re_space u = [] | [] \<Rightarrow> False))"

definition e_outros_here :: "gostr \<Rightarrow> bool" where
  "e_outros_here s =
     (case re_spaces1 s of None \<Rightarrow> False
      | Some t \<Rightarrow> (case re_word [69] t of None \<Rightarrow> False
        | Some u \<Rightarrow> (case re_spaces1 u of None \<Rightarrow> False
          | Some v \<Rightarrow> (case re_word [79, 85, 84, 82, 79] v of None \<Rightarrow> False
            | Some w \<Rightarrow> re_count_tail (re_optional_s w)))))"

text \<open>The leftmost match runs to the end of the string, so replacing it cuts the string there.\<close>

fun cut_e_outros :: "gostr \<Rightarrow> gostr" where
  "cut_e_outros [] = []"
| "cut_e_outros (r # s) = (if e_outros_here (r # s) then [] else r # cut_e_outros s)"

definition strip_e_outros :: "gostr \<Rightarrow> gostr" where
  "strip_e_outros name = trim_space (cut_e_outros name)"

section \<open>Companies\<close>

definition company_final_tokens :: "gostr list" where
  "company_final_tokens =
     [lit ''SA'', lit ''LTDA'', lit ''EIRELI'', lit ''MEI'', lit ''ME'', lit ''EPP'', lit ''CIA'']"

definition company_tokens :: "gostr list" where
  "company_tokens =
     [lit ''COMPANHIA'', lit ''CONSORCIO'', lit ''CONSTRUTORA'', lit ''INCORPORADORA'', lit ''ASSOCIACAO'',
      lit ''FUNDACAO'', lit ''INSTITUTO'', lit ''MUNICIPIO'', lit ''PREFEITURA'', lit ''UNIAO'', lit ''BANCO'']"

definition company_phrases :: "gostr list" where
  "company_phrases = [lit ''ESTADO DE'', lit ''MINISTERIO PUBLICO'']"

definition drop_punct :: "gostr \<Rightarrow> gostr" where
  "drop_punct s = replacer [([47], []), ([46], [])] s"

definition is_company_name :: "gostr \<Rightarrow> bool" where
  "is_company_name name =
     (let upper = to_upper (trim_space name) in
      if upper = [] then False
      else
        let uf = str_fields (drop_punct upper);
            folded = str_join [32] (str_fields (drop_punct (djen_normalize_name name)))
        in (uf \<noteq> [] \<and> last uf \<in> set company_final_tokens) \<or>
           list_ex (\<lambda>f. f \<in> set company_tokens) (str_fields folded) \<or>
           list_ex (contains folded) company_phrases)"

section \<open>The class filter\<close>

definition class_codes :: "gostr list" where
  "class_codes = [lit ''283'', lit ''282'', lit ''284'', lit ''285'', lit ''280'', lit ''64'']"

definition class_keywords :: "gostr list" where
  "class_keywords =
     [lit ''penal'', lit ''crime'', lit ''criminal'', lit ''improbidade'', lit ''inquerito'', lit ''tribunal do juri'']"

definition re_wordchar :: "rune \<Rightarrow> bool" where
  "re_wordchar r \<longleftrightarrow> is_digit r \<or> (65 \<le> r \<and> r \<le> 90) \<or> (97 \<le> r \<and> r \<le> 122) \<or> r = 95"

text \<open>\<^verbatim>\<open>\bjuri\b\<close>; \<open>prev\<close> says whether the rune before is a word character.\<close>

fun juri_word :: "bool \<Rightarrow> gostr \<Rightarrow> bool" where
  "juri_word prev [] = False"
| "juri_word prev (r # s) =
     ((\<not> prev \<and> has_prefix (r # s) (lit ''juri'') \<and>
       (case drop 4 (r # s) of [] \<Rightarrow> True | c # _ \<Rightarrow> \<not> re_wordchar c)) \<or>
      juri_word (re_wordchar r) s)"

definition is_criminal_or_improbidade_class :: "gostr \<Rightarrow> gostr \<Rightarrow> bool" where
  "is_criminal_or_improbidade_class nome codigo =
     (if trim_space codigo \<in> set class_codes then True
      else let lower = to_lower (djen_normalize_name nome)
           in list_ex (contains lower) class_keywords \<or> juri_word False lower)"

definition group_has_allowed_class :: "item list \<Rightarrow> bool" where
  "group_has_allowed_class its = list_ex (\<lambda>i. is_criminal_or_improbidade_class (it_classe i) (it_codigo i)) its"

section \<open>Rosters\<close>

record party =
  pa_nome :: gostr
  pa_polo :: gostr
  pa_comunicacao :: int
  pa_link :: gostr
  pa_texto :: gostr
  pa_tribunal :: gostr

definition party_key :: "gostr \<Rightarrow> gostr \<Rightarrow> gostr" where
  "party_key nome polo = djen_normalize_name nome @ lit ''|'' @ to_upper (trim_space polo)"

definition item_parties :: "item \<Rightarrow> party list" where
  "item_parties i =
     filter (\<lambda>p. pa_nome p \<noteq> [] \<and> pa_polo p \<noteq> [])
       (List.map (\<lambda>d. \<lparr>pa_nome = trim_space (de_nome d), pa_polo = trim_space (de_polo d),
          pa_comunicacao = de_comunicacao d, pa_link = it_link i, pa_texto = it_texto i,
          pa_tribunal = it_tribunal i\<rparr>) (it_destinatarios i))"

definition roster_from_items :: "item list \<Rightarrow> party list" where
  "roster_from_items items =
     dedup_by (\<lambda>p. party_key (pa_nome p) (pa_polo p)) {} (concat (List.map item_parties items))"

definition roster_delta :: "party list \<Rightarrow> gostr list \<Rightarrow> party list" where
  "roster_delta roster existing = filter (\<lambda>p. party_key (pa_nome p) (pa_polo p) \<notin> set existing) roster"

section \<open>The index of politicians\<close>

record politician_names =
  pn_id :: gostr
  pn_name :: gostr
  pn_aliases :: "gostr list"

definition names_for :: "politician_names \<Rightarrow> gostr list" where
  "names_for p = (if trim_space (pn_name p) \<noteq> [] then [pn_name p] else []) @ filter (\<lambda>a. trim_space a \<noteq> []) (pn_aliases p)"

definition search_names_for :: "politician_names \<Rightarrow> gostr list" where
  "search_names_for p = (let n = trim_space (pn_name p) in if n \<noteq> [] then [n] else [])"

definition index_entry :: "gostr \<Rightarrow> gostr \<Rightarrow> (gostr \<Rightarrow> gostr option) \<Rightarrow> gostr \<Rightarrow> gostr option" where
  "index_entry pid n idx =
     (let key = djen_normalize_name n in
      if key = [] \<or> idx key \<noteq> None then idx else idx(key \<mapsto> pid))"

definition build_politician_index :: "politician_names list \<Rightarrow> gostr \<Rightarrow> gostr option" where
  "build_politician_index pols = fold (\<lambda>p. fold (index_entry (pn_id p)) (names_for p)) pols Map.empty"

definition match_politician :: "gostr \<Rightarrow> (gostr \<Rightarrow> gostr option) \<Rightarrow> gostr option" where
  "match_politician name idx = idx (djen_normalize_name name)"

section \<open>Groups of publications\<close>

text \<open>
  A Go map from case number to publications. Its iteration order is not specified; it is given by
  \<open>order\<close>, which permutes the list of keys.
\<close>

definition processo_keys :: "item list \<Rightarrow> gostr list" where
  "processo_keys items = filter (\<lambda>n. n \<noteq> []) (List.map (\<lambda>i. trim_space (it_processo i)) items)"

definition group_by_processo :: "(gostr list \<Rightarrow> gostr list) \<Rightarrow> item list \<Rightarrow> (gostr \<times> item list) list" where
  "group_by_processo order items =
     List.map (\<lambda>n. (n, filter (\<lambda>i. trim_space (it_processo i) = n) items)) (order (remdups (processo_keys items)))"

definition group_names_party :: "item list \<Rightarrow> gostr \<Rightarrow> bool" where
  "group_names_party its name =
     (let want = djen_normalize_name name in
      want \<noteq> [] \<and>
      list_ex (\<lambda>i. list_ex (\<lambda>d. djen_normalize_name (strip_e_outros (de_nome d)) = want) (it_destinatarios i)) its)"

definition tribunal_endpoint :: "gostr \<Rightarrow> gostr" where
  "tribunal_endpoint sigla =
     (let s = to_lower (trim_space sigla) in if s = [] then [] else lit ''api_publica_'' @ s)"

fun endpoint_for_group :: "item list \<Rightarrow> gostr" where
  "endpoint_for_group [] = []"
| "endpoint_for_group (i # its) =
     (if trim_space (it_tribunal i) \<noteq> [] then tribunal_endpoint (trim_space (it_tribunal i))
      else endpoint_for_group its)"

section \<open>Snippets\<close>

fun strip_tags_from :: "bool \<Rightarrow> gostr \<Rightarrow> gostr" where
  "strip_tags_from in_tag [] = []"
| "strip_tags_from in_tag (r # s) =
     (if r = 60 then strip_tags_from True s
      else if r = 62 then strip_tags_from False s
      else if \<not> in_tag then r # strip_tags_from in_tag s
      else strip_tags_from in_tag s)"

definition strip_tags :: "gostr \<Rightarrow> gostr" where
  "strip_tags s = strip_tags_from False s"

definition snippet :: "gostr \<Rightarrow> nat \<Rightarrow> gostr" where
  "snippet html m = take m (str_join [32] (str_fields (strip_tags html)))"

section \<open>Identities of name-only nodes\<close>

definition url_structural :: "(gostr \<times> gostr) list" where
  "url_structural = [(lit ''/'', lit ''_''), (lit ''?'', lit ''_''), (lit ''#'', lit ''_''), (lit ''%'', lit ''_'')]"

definition name_slug :: "gostr \<Rightarrow> gostr" where
  "name_slug name = replacer url_structural (str_join (lit ''_'') (str_fields (to_lower (trim_space name))))"

definition djen_person_id :: "gostr \<Rightarrow> gostr" where
  "djen_person_id name = lit ''person_djen_'' @ name_slug name"

definition djen_organization_id :: "gostr \<Rightarrow> gostr" where
  "djen_organization_id name = lit ''org_djen_'' @ name_slug name"

section \<open>Facts the worker rests on\<close>

lemma strip_accents_fold: "strip_accents s = List.map fold_rune s"
  unfolding strip_accents_def fold_rune_def
  by (rule map_cong [OF refl]) (simp add: accent_map_def fold_accent_def)

lemma normalizers_agree: "djen_normalize_name s = normalize_name s"
  by (simp add: djen_normalize_name_def normalize_name_def strip_accents_fold)

lemma index_entry_get:
  "index_entry pid n idx k =
     (if djen_normalize_name n = k \<and> k \<noteq> [] \<and> idx k = None then Some pid else idx k)"
  by (simp add: index_entry_def Let_def)

lemma index_entries_get:
  "fold (index_entry pid) ns idx k =
     (if idx k = None \<and> k \<noteq> [] \<and> (\<exists>n \<in> set ns. djen_normalize_name n = k) then Some pid else idx k)"
  by (induction ns arbitrary: idx) (auto simp: index_entry_get)

lemma index_fold_get:
  "fold (\<lambda>p. fold (index_entry (pn_id p)) (names_for p)) pols idx k =
     (case idx k of Some i \<Rightarrow> Some i
      | None \<Rightarrow> if k = [] then None
                else map_option pn_id (find (\<lambda>p. \<exists>n \<in> set (names_for p). djen_normalize_name n = k) pols))"
  by (induction pols arbitrary: idx) (auto simp: index_entries_get split: option.split)

lemma replacer_url: "replacer url_structural s = List.map (\<lambda>r. if r \<in> {47, 63, 35, 37} then 95 else r) s"
proof -
  have u: "url_structural = List.map (\<lambda>(a, n). ([a], n)) [(47, [95]), (63, [95]), (35, [95]), (37, [95])]"
    by (simp add: url_structural_def lit_def)
  have "replacer url_structural s = concat (List.map (rune_subst [(47, [95]), (63, [95]), (35, [95]), (37, [95])]) s)"
    unfolding u by (rule replacer_single)
  also have "\<dots> = List.map (\<lambda>r. if r \<in> {47, 63, 35, 37} then 95 else r) s"
    by (induction s) (auto simp: rune_subst_def)
  finally show ?thesis .
qed

lemma join_set: "set (str_join sep ws) \<subseteq> set sep \<union> \<Union> (set ` set ws)"
  by (induction sep ws rule: str_join.induct) auto

lemma name_slug_runes: "r \<in> set (name_slug name) \<Longrightarrow> r \<notin> {47, 63, 35, 37} \<and> \<not> is_space r"
proof -
  assume "r \<in> set (name_slug name)"
  then obtain q where q: "q \<in> set (str_join (lit ''_'') (str_fields (to_lower (trim_space name))))"
    "r = (if q \<in> {47, 63, 35, 37} then 95 else q)"
    by (auto simp: name_slug_def replacer_url)
  then have "q = 95 \<or> \<not> is_space q"
    using join_set [of "lit ''_''" "str_fields (to_lower (trim_space name))"] fields_ok
    by (fastforce simp: lit_def word_ok_def)
  then show ?thesis using q(2) by (auto simp: is_space_def)
qed

lemma party_key_trim: "party_key (trim_space a) (trim_space b) = party_key a b"
  by (simp add: party_key_def normalizers_agree)

lemma roster_keys:
  "(\<lambda>p. party_key (pa_nome p) (pa_polo p)) ` set (roster_from_items items)
     = (\<lambda>p. party_key (pa_nome p) (pa_polo p)) ` set (concat (List.map item_parties items))"
  by (simp only: roster_from_items_def dedup_by_keys) simp

section \<open>Properties\<close>

text \<open>The gazette worker and the sanction matcher normalise a name by the same function, so two
  names one of them considers the same are the same for the other.\<close>

theorem one_normal_form: "djen_normalize_name = normalize_name"
  by (rule ext) (rule normalizers_agree)

text \<open>A party matches a politician exactly when its whole normalised name is a name or an alias of
  one, and then it matches the first such politician of the list.\<close>

theorem politician_match_exact:
  "match_politician name (build_politician_index pols) =
     (if djen_normalize_name name = [] then None
      else map_option pn_id (find (\<lambda>p. list_ex (\<lambda>n. djen_normalize_name n = djen_normalize_name name) (names_for p)) pols))"
  by (simp add: match_politician_def build_politician_index_def index_fold_get list_ex_iff)

text \<open>The id of a name-only node is one path segment of a URL: whatever the name, it has no slash,
  question mark, hash or percent sign and no white space, and two names that differ only in outer or
  repeated blanks share it.\<close>

theorem name_ids_are_url_safe:
  "list_all (\<lambda>r. r \<notin> {47, 63, 35, 37} \<and> \<not> is_space r) (djen_person_id name) \<and>
   list_all (\<lambda>r. r \<notin> {47, 63, 35, 37} \<and> \<not> is_space r) (djen_organization_id name) \<and>
   djen_person_id (trim_space name) = djen_person_id name"
proof -
  have "list_all (\<lambda>r. r \<notin> {47, 63, 35, 37} \<and> \<not> is_space r) (name_slug name)"
    using name_slug_runes by (auto simp: list_all_iff)
  moreover have "list_all (\<lambda>r. r \<notin> {47, 63, 35, 37} \<and> \<not> is_space r) (lit ''person_djen_'')"
    "list_all (\<lambda>r. r \<notin> {47, 63, 35, 37} \<and> \<not> is_space r) (lit ''org_djen_'')" by code_simp+
  moreover have "name_slug (trim_space name) = name_slug name" by (simp add: name_slug_def)
  ultimately show ?thesis by (simp add: djen_person_id_def djen_organization_id_def)
qed

text \<open>The phrases of public bodies are not matched at word boundaries: a natural person whose name
  contains one of them across words is taken for an organisation.\<close>

theorem company_phrase_inside_words: "is_company_name (lit ''MARIA MODESTADO DELFINO'')"
  by code_simp

end
