(* ===== verification/Djen.thy ===== *)
theory Djen
  imports Djen_Search Djen_Text
begin

text \<open>
  The gazette worker (\<^verbatim>\<open>backend/workers/djen/worker.go\<close>) and its statements on the graph
  (\<^verbatim>\<open>backend/db/memgraph/djen_writer.go\<close>). The state is both databases, the client and the
  statistics. The environment gives the gazette, the fuel for pagination, the day of the run, the
  iteration order of Go's maps and the order in which the concurrent name lookups reach the single
  writer; a cancelled run may drop some of them.
\<close>

section \<open>State and environment\<close>

record djen_options =
  do_case :: bool
  do_name :: bool
  do_rematch :: bool
  do_dry :: bool
  do_cap :: int
  do_limit :: int

record djen_env =
  en_api :: djen_api
  en_fuel :: nat
  en_today :: cal_date
  en_order :: "gostr list \<Rightarrow> gostr list"
  en_schedule :: "(politician_names \<times> gostr) list \<Rightarrow> (politician_names \<times> gostr) list"

record djen_state = world +
  dj_client :: djen_client
  dj_cases_loaded :: nat
  dj_cases_polled :: nat
  dj_parties_seen :: nat
  dj_parties_new :: nat
  dj_politician_hits :: nat
  dj_persons_linked :: nat
  dj_orgs_linked :: nat
  dj_names_searched :: nat
  dj_candidates :: nat
  dj_registered :: nat
  dj_unregistrable :: nat
  dj_tracked :: nat
  dj_existing :: nat
  dj_class :: nat
  dj_not_party :: nat
  dj_tombstoned :: nat
  dj_pending :: nat
  dj_rematched :: nat
  dj_fetch_errors :: nat
  dj_skipped_records :: nat

text \<open>A call of the client.\<close>

definition in_client :: "(djen_client, 'a) prog \<Rightarrow> (djen_state, 'a) prog" where
  "in_client m s = (case m (dj_client s) of (r, c) \<Rightarrow> (r, s\<lparr>dj_client := c\<rparr>))"

definition cancelled_now :: "djen_state \<Rightarrow> bool" where
  "cancelled_now s =
     (case cl_deadline (dj_client s) of None \<Rightarrow> False | Some d \<Rightarrow> d \<le> cl_now (dj_client s))"

section \<open>The writer\<close>

definition politician_row :: "node \<Rightarrow> politician_names" where
  "politician_row n =
     \<lparr>pn_id = str_prop (n_props n) ''id'', pn_name = str_prop (n_props n) ''name'',
      pn_aliases = filter (\<lambda>a. trim_space a \<noteq> []) (list_prop (n_props n) ''name_aliases'')\<rparr>"

definition list_politician_names :: "('z world_scheme, politician_names list) prog" where
  "list_politician_names =
     cypher_read (\<lambda>g. filter (\<lambda>p. trim_space (pn_id p) \<noteq> [])
       (List.map politician_row (match_nodes ''Politician'' (\<lambda>n. True) g)))"

record party_upsert =
  py_name :: gostr
  py_comunicacao :: gostr
  py_link :: gostr
  py_tribunal :: gostr

definition party_facts :: "party_upsert \<Rightarrow> node \<Rightarrow> node" where
  "party_facts u =
     upd_props
       [(''name'', Some (PStr (trim_space (py_name u)))),
        (''search_name'', Some (PStr (fold_query (py_name u)))),
        (''provenance_source'', Some (PStr (lit ''djen''))),
        (''provenance_comunicacao_id'', Some (PStr (py_comunicacao u))),
        (''provenance_link'', Some (PStr (py_link u))),
        (''provenance_tribunal'', Some (PStr (py_tribunal u)))]"

definition merge_party :: "string \<Rightarrow> gostr \<Rightarrow> party_upsert \<Rightarrow> graph \<Rightarrow> graph \<times> gostr list" where
  "merge_party l i u g =
     (case merge_node l ''id'' (PStr i) [] (party_facts u) g of
        (g', rows, _) \<Rightarrow> (g', List.map (\<lambda>n. str_prop (n_props n) ''id'') rows))"

definition upsert_djen_person :: "party_upsert \<Rightarrow> ('z world_scheme, gostr) prog" where
  "upsert_djen_person u =
     bindR (cypher (merge_party ''Person'' (djen_person_id (py_name u)) u)) (\<lambda>ids.
       case ids of [] \<Rightarrow> throw (Refused ''upsert djen person returned no rows'') | i # _ \<Rightarrow> ret i)"

definition upsert_djen_organization :: "party_upsert \<Rightarrow> ('z world_scheme, gostr) prog" where
  "upsert_djen_organization u =
     bindR (cypher (merge_party ''Organization'' (djen_organization_id (py_name u)) u)) (\<lambda>ids.
       case ids of [] \<Rightarrow> throw (Refused ''upsert djen organization returned no rows'') | i # _ \<Rightarrow> ret i)"

definition defendant_pairs :: "string \<Rightarrow> gostr \<Rightarrow> gostr \<Rightarrow> graph \<Rightarrow> (nat \<times> nat) list" where
  "defendant_pairs nt nid lp g =
     node_pairs (match_nodes nt (prop_is ''id'' (PStr nid)) g)
                (match_nodes ''LegalProceeding'' (prop_is ''id'' (PStr lp)) g)"

definition ensure_djen_defendant_edge ::
  "string \<Rightarrow> gostr \<Rightarrow> gostr \<Rightarrow> gostr \<Rightarrow> ('z world_scheme, unit) prog" where
  "ensure_djen_defendant_edge nt nid lp outcome =
     cypher (\<lambda>g. (merge_edges (defendant_pairs nt nid lp g) ''DEFENDANT_IN'' []
       (set_props [(''outcome'', Some (PStr outcome)), (''source'', Some (PStr (lit ''djen'')))]) g, ()))"

record cited_person =
  cp_person :: gostr
  cp_name :: gostr
  cp_proceeding :: gostr
  cp_case :: gostr
  cp_scandal :: gostr

definition rec_string :: "props \<Rightarrow> string \<Rightarrow> gostr" where
  "rec_string p k = trim_space (str_prop p k)"

definition nodes_at :: "string \<Rightarrow> nat \<Rightarrow> graph \<Rightarrow> node list" where
  "nodes_at l k g = match_nodes l (\<lambda>n. n_key n = k) g"

text \<open>\<^verbatim>\<open>OPTIONAL MATCH\<close>: a proceeding that investigates nothing gives one row without a scandal.\<close>

definition scandals_of :: "graph \<Rightarrow> node \<Rightarrow> gostr list" where
  "scandals_of g lp =
     (let ss = concat (List.map (\<lambda>e. nodes_at ''Scandal'' (e_to e) g)
                (filter (\<lambda>e. e_type e = ''INVESTIGATES'' \<and> e_from e = n_key lp) (g_edges g)))
      in if ss = [] then [[]] else List.map (\<lambda>s. rec_string (n_props s) ''id'') ss)"

definition cited_rows :: "graph \<Rightarrow> cited_person list" where
  "cited_rows g =
     concat (List.map (\<lambda>e. concat (List.map (\<lambda>p. concat (List.map (\<lambda>lp. List.map (\<lambda>sc.
         \<lparr>cp_person = rec_string (n_props p) ''id'', cp_name = rec_string (n_props p) ''name'',
          cp_proceeding = rec_string (n_props lp) ''id'', cp_case = rec_string (n_props lp) ''case_number'',
          cp_scandal = sc\<rparr>) (scandals_of g lp))
       (nodes_at ''LegalProceeding'' (e_to e) g))) (nodes_at ''Person'' (e_from e) g)))
     (filter (\<lambda>e. e_type e = ''DEFENDANT_IN'') (g_edges g)))"

definition list_cited_persons :: "('z world_scheme, cited_person list) prog" where
  "list_cited_persons =
     cypher_read (\<lambda>g. filter (\<lambda>c. cp_person c \<noteq> [] \<and> cp_name c \<noteq> [] \<and> cp_proceeding c \<noteq> []) (cited_rows g))"

section \<open>Rematch mode\<close>

definition djen_worker :: string where "djen_worker = ''djen''"

definition rematch_payload :: "cited_person \<Rightarrow> gostr \<Rightarrow> props" where
  "rematch_payload p pid =
     [''case_number'' \<mapsto> PStr (cp_case p), ''scandal_id'' \<mapsto> PStr (cp_scandal p),
      ''proceeding_id'' \<mapsto> PStr (cp_proceeding p), ''politician_id'' \<mapsto> PStr pid,
      ''person_id'' \<mapsto> PStr (cp_person p), ''name'' \<mapsto> PStr (cp_name p), ''polo'' \<mapsto> PStr (lit ''P''),
      ''origin'' \<mapsto> PStr (lit ''rematch'')]"

definition count_pending :: "(djen_state, unit) prog" where
  "count_pending = modR (\<lambda>s. s\<lparr>dj_pending := dj_pending s + 1\<rparr>)"

definition count_hit :: "(djen_state, unit) prog" where
  "count_hit = modR (\<lambda>s. s\<lparr>dj_politician_hits := dj_politician_hits s + 1\<rparr>)"

definition rematch_one ::
  "djen_options \<Rightarrow> (gostr \<Rightarrow> gostr option) \<Rightarrow> cited_person \<Rightarrow> (djen_state, unit) prog" where
  "rematch_one w idx p =
     (case match_politician (cp_name p) idx of None \<Rightarrow> ret ()
      | Some pid \<Rightarrow>
          bindR (has_party_match_review pid (cp_proceeding p)) (\<lambda>exists.
            if exists then modR (\<lambda>s. s\<lparr>dj_existing := dj_existing s + 1\<rparr>)
            else seqR count_hit
              (if do_dry w then ret ()
               else seqR (create_pending_review ''djen_party_match'' (rematch_payload p pid) djen_worker)
                         count_pending)))"

definition run_rematch_mode :: "djen_options \<Rightarrow> (gostr \<Rightarrow> gostr option) \<Rightarrow> (djen_state, unit) prog" where
  "run_rematch_mode w idx =
     bindR list_cited_persons (\<lambda>persons.
       seqR (modR (\<lambda>s. s\<lparr>dj_rematched := length persons\<rparr>)) (forR (rematch_one w idx) persons))"

section \<open>Case mode\<close>

definition party_provenance :: "gostr \<Rightarrow> party \<Rightarrow> party_upsert" where
  "party_provenance name p =
     \<lparr>py_name = name, py_comunicacao = itoa (pa_comunicacao p), py_link = pa_link p, py_tribunal = pa_tribunal p\<rparr>"

definition count_purged :: "(djen_state, unit) prog" where
  "count_purged = modR (\<lambda>s. s\<lparr>dj_tombstoned := dj_tombstoned s + 1\<rparr>)"

definition count_person :: "(djen_state, unit) prog" where
  "count_person = modR (\<lambda>s. s\<lparr>dj_persons_linked := dj_persons_linked s + 1\<rparr>)"

definition count_org :: "(djen_state, unit) prog" where
  "count_org = modR (\<lambda>s. s\<lparr>dj_orgs_linked := dj_orgs_linked s + 1\<rparr>)"

definition handle_person_party ::
  "djen_options \<Rightarrow> watch \<Rightarrow> gostr \<Rightarrow> party \<Rightarrow> (djen_state, unit) prog" where
  "handle_person_party w c name p =
     (if do_dry w then count_person
      else bindR (is_subject_purged [tombstone_key_name name]) (\<lambda>purged.
        if purged then count_purged
        else bindR (upsert_djen_person (party_provenance name p)) (\<lambda>pid.
             seqR (ensure_djen_defendant_edge ''Person'' pid (wt_proceeding c) (lit ''cited''))
                  count_person)))"

definition unknown_cnpj_payload :: "gostr \<Rightarrow> gostr \<Rightarrow> gostr \<Rightarrow> party \<Rightarrow> props" where
  "unknown_cnpj_payload name org case_number p =
     [''name'' \<mapsto> PStr name, ''organization_id'' \<mapsto> PStr org, ''case_number'' \<mapsto> PStr case_number,
      ''source'' \<mapsto> PStr (lit ''djen''), ''link'' \<mapsto> PStr (pa_link p)]"

definition handle_company_party ::
  "djen_options \<Rightarrow> watch \<Rightarrow> gostr \<Rightarrow> gostr \<Rightarrow> party \<Rightarrow> (djen_state, unit) prog" where
  "handle_company_party w c case_number name p =
     (if do_dry w then count_org
      else bindR (is_subject_purged [tombstone_key_name name]) (\<lambda>purged.
        if purged then count_purged
        else bindR (upsert_djen_organization (party_provenance name p)) (\<lambda>org.
             seqR (ensure_djen_defendant_edge ''Organization'' org (wt_proceeding c) (lit ''cited''))
               (seqR (create_pending_review ''unknown_cnpj'' (unknown_cnpj_payload name org case_number p) djen_worker)
                 (seqR count_pending count_org)))))"

definition party_match_payload :: "watch \<Rightarrow> gostr \<Rightarrow> gostr \<Rightarrow> gostr \<Rightarrow> party \<Rightarrow> props" where
  "party_match_payload c case_number pid name p =
     [''case_number'' \<mapsto> PStr case_number, ''scandal_id'' \<mapsto> PStr (wt_scandal c),
      ''proceeding_id'' \<mapsto> PStr (wt_proceeding c), ''politician_id'' \<mapsto> PStr pid, ''name'' \<mapsto> PStr name,
      ''polo'' \<mapsto> PStr (pa_polo p), ''tribunal'' \<mapsto> PStr (pa_tribunal p),
      ''comunicacao_id'' \<mapsto> PStr (itoa (pa_comunicacao p)), ''link'' \<mapsto> PStr (pa_link p),
      ''texto_snippet'' \<mapsto> PStr (snippet (pa_texto p) 500)]"

definition handle_passive ::
  "djen_options \<Rightarrow> (gostr \<Rightarrow> gostr option) \<Rightarrow> watch \<Rightarrow> gostr \<Rightarrow> party \<Rightarrow> (djen_state, unit) prog" where
  "handle_passive w idx c case_number p =
     (let name = strip_e_outros (pa_nome p) in
      if is_company_name name then handle_company_party w c case_number name p
      else case match_politician name idx of
          Some pid \<Rightarrow>
            seqR (if do_dry w then ret ()
                  else seqR (create_pending_review ''djen_party_match'' (party_match_payload c case_number pid name p) djen_worker)
                            count_pending)
              count_hit
        | None \<Rightarrow> handle_person_party w c name p)"

definition process_party ::
  "djen_options \<Rightarrow> (gostr \<Rightarrow> gostr option) \<Rightarrow> watch \<Rightarrow> gostr \<Rightarrow> party \<Rightarrow> (djen_state, unit) prog" where
  "process_party w idx c case_number p =
     seqR (if pa_polo p = lit ''P'' then handle_passive w idx c case_number p else ret ())
       (if do_dry w then ret ()
        else insert_djen_snapshot_party (wt_case c) (party_key (pa_nome p) (pa_polo p)) (pa_nome p) (pa_polo p))"

definition count_fetch_error :: "(djen_state, unit) prog" where
  "count_fetch_error = modR (\<lambda>s. s\<lparr>dj_fetch_errors := dj_fetch_errors s + 1\<rparr>)"

definition poll_parties ::
  "djen_options \<Rightarrow> (gostr \<Rightarrow> gostr option) \<Rightarrow> watch \<Rightarrow> gostr \<Rightarrow> item list \<Rightarrow> (djen_state, unit) prog" where
  "poll_parties w idx c case_number items =
     (let roster = roster_from_items items in
      seqR (modR (\<lambda>s. s\<lparr>dj_cases_polled := dj_cases_polled s + 1, dj_parties_seen := dj_parties_seen s + length roster\<rparr>))
        (bindR (list_djen_snapshot_keys (wt_case c)) (\<lambda>existing.
          let delta = roster_delta roster existing in
          seqR (modR (\<lambda>s. s\<lparr>dj_parties_new := dj_parties_new s + length delta\<rparr>))
            (seqR (forR (process_party w idx c case_number) delta)
              (if do_dry w then ret ()
               else bindR (getR wall) (\<lambda>now. update_djen_polled_at (wt_case c) now))))))"

definition poll_case ::
  "djen_env \<Rightarrow> djen_options \<Rightarrow> (gostr \<Rightarrow> gostr option) \<Rightarrow> watch \<Rightarrow> (djen_state, unit option) prog" where
  "poll_case e w idx c =
     (let case_number = normalize_case_number (wt_case c) in
      bindR (attemptR (in_client (search_by_case_number (en_api e) (en_fuel e) case_number))) (\<lambda>r.
        case r of
          Inl er \<Rightarrow> bindR (getR cancelled_now) (\<lambda>stop.
            if stop then throw er else seqR count_fetch_error (ret (Some ())))
        | Inr None \<Rightarrow> ret None
        | Inr (Some items) \<Rightarrow> seqR (poll_parties w idx c case_number items) (ret (Some ()))))"

definition poll_limit :: "int \<Rightarrow> nat \<Rightarrow> nat" where
  "poll_limit l n = (if l \<le> 0 \<or> int n < l then n else nat l)"

definition run_case_mode ::
  "djen_env \<Rightarrow> djen_options \<Rightarrow> (gostr \<Rightarrow> gostr option) \<Rightarrow> (djen_state, unit option) prog" where
  "run_case_mode e w idx =
     bindR list_djen_cases_for_poll (\<lambda>cases.
       seqR (modR (\<lambda>s. s\<lparr>dj_cases_loaded := length cases\<rparr>))
         (forO (poll_case e w idx) (take (poll_limit (do_limit w) (length cases)) cases)))"

section \<open>Name mode\<close>

definition bare_case :: "gostr \<Rightarrow> proceeding_upsert" where
  "bare_case c = \<lparr>pu_case = c, pu_court = [], pu_type = [], pu_class = [], pu_status = [], pu_assuntos = [], pu_filed = None\<rparr>"

definition register_discovered_case :: "gostr \<Rightarrow> item list \<Rightarrow> (djen_state, bool) prog" where
  "register_discovered_case c its =
     (if length c \<noteq> 20 then ret False
      else let endpoint = endpoint_for_group its in
        if endpoint = [] then ret False
        else bindR (upsert_legal_proceeding_by_case (bare_case c)) (\<lambda>lp.
             seqR (upsert_watcher_case c endpoint [] lp djen_worker) (ret True)))"

definition count_registered :: "bool \<Rightarrow> (djen_state, unit) prog" where
  "count_registered b =
     modR (\<lambda>s. if b then s\<lparr>dj_registered := dj_registered s + 1\<rparr> else s\<lparr>dj_unregistrable := dj_unregistrable s + 1\<rparr>)"

definition name_group :: "djen_options \<Rightarrow> gostr \<Rightarrow> gostr \<times> item list \<Rightarrow> (djen_state, unit) prog" where
  "name_group w name grp =
     (case grp of (case_number, its) \<Rightarrow>
        if \<not> group_names_party its name then modR (\<lambda>s. s\<lparr>dj_not_party := dj_not_party s + 1\<rparr>)
        else let digits = normalize_case_number case_number in
          bindR (is_case_tracked digits) (\<lambda>tracked.
            if tracked then modR (\<lambda>s. s\<lparr>dj_tracked := dj_tracked s + 1\<rparr>)
            else if \<not> group_has_allowed_class its then modR (\<lambda>s. s\<lparr>dj_class := dj_class s + 1\<rparr>)
            else seqR (if do_dry w then ret () else bindR (register_discovered_case digits its) count_registered)
                      (modR (\<lambda>s. s\<lparr>dj_candidates := dj_candidates s + 1\<rparr>))))"

definition name_lookup ::
  "djen_env \<Rightarrow> djen_options \<Rightarrow> nat \<Rightarrow> politician_names \<times> gostr \<Rightarrow> (djen_state, unit option) prog" where
  "name_lookup e w cap job =
     (case job of (pol, name) \<Rightarrow>
        bindR (attemptR (in_client (search_by_party_name (en_api e) (en_fuel e) (en_today e) name cap))) (\<lambda>r.
        seqR (modR (\<lambda>s. s\<lparr>dj_names_searched := dj_names_searched s + 1\<rparr>))
          (case r of
             Inl er \<Rightarrow> bindR (getR cancelled_now) (\<lambda>stop.
               if stop then throw er else seqR count_fetch_error (ret (Some ())))
           | Inr None \<Rightarrow> ret None
           | Inr (Some items) \<Rightarrow> seqR (forR (name_group w name) (group_by_processo (en_order e) items)) (ret (Some ())))))"

definition name_cap :: "int \<Rightarrow> nat" where
  "name_cap c = (if c \<le> 0 then 300 else nat c)"

definition run_name_mode ::
  "djen_env \<Rightarrow> djen_options \<Rightarrow> politician_names list \<Rightarrow> (djen_state, unit option) prog" where
  "run_name_mode e w pols =
     forO (name_lookup e w (name_cap (do_cap w)))
       (en_schedule e (concat (List.map (\<lambda>p. List.map (\<lambda>n. (p, n)) (search_names_for p)) pols)))"

section \<open>The run\<close>

definition reset_djen :: "djen_state \<Rightarrow> djen_state" where
  "reset_djen s =
     s\<lparr>dj_cases_loaded := 0, dj_cases_polled := 0, dj_parties_seen := 0, dj_parties_new := 0,
       dj_politician_hits := 0, dj_persons_linked := 0, dj_orgs_linked := 0, dj_names_searched := 0,
       dj_candidates := 0, dj_registered := 0, dj_unregistrable := 0, dj_tracked := 0, dj_existing := 0,
       dj_class := 0, dj_not_party := 0, dj_tombstoned := 0, dj_pending := 0, dj_rematched := 0,
       dj_fetch_errors := 0, dj_skipped_records := 0\<rparr>"

definition when_mode :: "bool \<Rightarrow> ('s, unit option) prog \<Rightarrow> ('s, unit option) prog" where
  "when_mode b m = (if b then m else ret (Some ()))"

definition then_mode :: "('s, unit option) prog \<Rightarrow> ('s, unit option) prog \<Rightarrow> ('s, unit option) prog" where
  "then_mode m k = bindR m (\<lambda>r. case r of None \<Rightarrow> ret None | Some u \<Rightarrow> k)"

definition run_djen :: "djen_env \<Rightarrow> djen_options \<Rightarrow> (djen_state, unit option) prog" where
  "run_djen e w =
     seqR (modR reset_djen)
       (bindR list_politician_names (\<lambda>pols.
         let idx = build_politician_index pols in
         then_mode (when_mode (do_case w) (run_case_mode e w idx))
           (then_mode (when_mode (do_name w) (run_name_mode e w pols))
             (then_mode (when_mode (do_rematch w) (seqR (run_rematch_mode w idx) (ret (Some ()))))
               (seqR (modR (\<lambda>s. s\<lparr>dj_skipped_records := cl_skipped (dj_client s)\<rparr>)) (ret (Some ())))))))"

end
