(* ===== verification/Djen_Run.thy ===== *)
theory Djen_Run
  imports Djen Identity
begin

text \<open>
  What a run of the gazette worker keeps: whom it may bring back, what it may claim, what it leaves
  alone, what a dry run does and what polling twice does. The contract between the worker and the
  stores is the locale \<open>djen_stores\<close>; it is interpreted once per order.
\<close>

section \<open>Statements\<close>

lemma party_facts_sel [simp]:
  "n_key (party_facts u n) = n_key n" "n_labels (party_facts u n) = n_labels n"
  "n_props (party_facts u n) ''id'' = n_props n ''id''"
  "n_props (party_facts u n) ''cpf'' = n_props n ''cpf''"
  "n_props (party_facts u n) ''cnpj'' = n_props n ''cnpj''"
  "n_props (party_facts u n) ''name'' = Some (PStr (trim_space (py_name u)))"
  by (simp_all add: party_facts_def upd_props_lookup)

lemma party_facts_label [simp]: "has_label l (party_facts u n) = has_label l n"
  by (simp add: has_label_def)

lemma merge_party_fst: "fst (merge_party l i u g) = fst (merge_node l ''id'' (PStr i) [] (party_facts u) g)"
  by (simp add: merge_party_def split: prod.splits)

lemma merge_party_ids: "x \<in> set (snd (merge_party l i u g)) \<Longrightarrow> x = i"
  by (auto simp: merge_party_def merge_node_def Let_def match_nodes_def prop_is_def str_prop_def split: if_splits)

lemma first_of_rows:
  assumes "bindR (cypher f) (\<lambda>ids. case ids of [] \<Rightarrow> throw e | i # _ \<Rightarrow> ret i) s = (Inr i, t)"
  shows "i \<in> set (snd (f (graph s)))"
proof -
  obtain ids u where c: "cypher f s = (Inr ids, u)" and k: "(case ids of [] \<Rightarrow> throw e | i # _ \<Rightarrow> ret i) u = (Inr i, t)"
    using assms unfolding bindR_Inr by blast
  from k have "i \<in> set ids" by (cases ids) simp_all
  with cypher_result [OF c] show ?thesis by simp
qed

lemma upsert_person_id: "upsert_djen_person u s = (Inr i, t) \<Longrightarrow> i = djen_person_id (py_name u)"
  unfolding upsert_djen_person_def by (drule first_of_rows) (rule merge_party_ids)

lemma upsert_org_id: "upsert_djen_organization u s = (Inr i, t) \<Longrightarrow> i = djen_organization_id (py_name u)"
  unfolding upsert_djen_organization_def by (drule first_of_rows) (rule merge_party_ids)

lemma merge_proceeding_fst:
  "fst (merge_proceeding u g) = fst (merge_node ''LegalProceeding'' ''case_number'' (PStr (pu_case u))
     [(''id'', Some (PStr (legal_proceeding_id (pu_case u)))), (''status'', Some (PStr (lit ''ongoing'')))]
     (proceeding_facts u) g)"
  by (simp add: merge_proceeding_def split: prod.splits)

context world_order
begin

lemma upsert_djen_person:
  "moves R (cypher (merge_party ''Person'' (djen_person_id (py_name u)) u)) \<Longrightarrow> moves R (upsert_djen_person u)"
  unfolding upsert_djen_person_def by (intro bindR) (auto split: list.split intro: throw ret)

lemma upsert_djen_organization:
  "moves R (cypher (merge_party ''Organization'' (djen_organization_id (py_name u)) u)) \<Longrightarrow>
   moves R (upsert_djen_organization u)"
  unfolding upsert_djen_organization_def by (intro bindR) (auto split: list.split intro: throw ret)

lemma upsert_legal_proceeding:
  "moves R (cypher (merge_proceeding u)) \<Longrightarrow> moves R (upsert_legal_proceeding_by_case u)"
  unfolding upsert_legal_proceeding_by_case_def by (intro bindR) (auto split: list.split intro: throw ret)

lemma case_reads [order_intros]:
  "moves R list_watcher_cases_for_poll" "moves R list_djen_cases_for_poll" "moves R (is_case_tracked c)"
  "moves R (list_djen_snapshot_keys c)" "moves R (has_party_match_review pid lp)"
  "moves R list_politician_names" "moves R list_cited_persons"
  unfolding list_watcher_cases_for_poll_def list_djen_cases_for_poll_def is_case_tracked_def
    list_djen_snapshot_keys_def has_party_match_review_def list_politician_names_def list_cited_persons_def
  by (rule sql_read cypher_read)+

end

text \<open>An order that ignores the review queue, and one that ignores the tables of the case workers too.\<close>

locale review_order = world_order R for R :: "'z world_scheme \<Rightarrow> 'z world_scheme \<Rightarrow> bool" +
  assumes revs: "R s (s\<lparr>reviews := rs, issued := k\<rparr>)"
begin

lemma queue [order_intros]: "moves R (create_pending_review ty pl wk)"
  unfolding create_pending_review_def by (rule sql, rule revs)

end

locale table_order = review_order R for R :: "'z world_scheme \<Rightarrow> 'z world_scheme \<Rightarrow> bool" +
  assumes watches: "R s (s\<lparr>watches := ws\<rparr>)"
    and snaps: "R s (s\<lparr>snapshots := ps\<rparr>)"
begin

lemma tables [order_intros]:
  "moves R (upsert_watcher_case c e sc lp b)" "moves R (update_watch c f)"
  "moves R (update_djen_polled_at c t)" "moves R (insert_djen_snapshot_party c k n p)"
  "moves R (update_watcher_tracking_poll c mv st t)" "moves R (create_pending_review ty pl wk)"
  unfolding upsert_watcher_case_def update_watch_def update_djen_polled_at_def insert_djen_snapshot_party_def
    update_watcher_tracking_poll_def create_pending_review_def
  by (rule sql, simp add: watches snaps revs)+

end

section \<open>The contract of the stores\<close>

locale party_stores = review_order R for R :: "djen_state \<Rightarrow> djen_state \<Rightarrow> bool" +
  assumes stats: "world.truncate s = world.truncate t \<Longrightarrow> R s t"
    and person: "\<not> (\<exists>k \<in> set [tombstone_key_name (py_name u)]. usable_key k \<and> buried s k) \<Longrightarrow>
      R s (snd (upsert_djen_person u s))"
    and organization: "\<not> (\<exists>k \<in> set [tombstone_key_name (py_name u)]. usable_key k \<and> buried s k) \<Longrightarrow>
      R s (snd (upsert_djen_organization u s))"
    and person_edge: "moves R (ensure_djen_defendant_edge ''Person'' (djen_person_id n) lp (lit ''cited''))"
    and organization_edge:
      "moves R (ensure_djen_defendant_edge ''Organization'' (djen_organization_id n) lp (lit ''cited''))"
begin

lemma stat: "(\<And>s. world.truncate (f s) = world.truncate s) \<Longrightarrow> moves R (modR f)"
  by (rule modR) (rule stats, simp)

lemma counts [order_intros]:
  "moves R count_pending" "moves R count_hit" "moves R count_purged" "moves R count_person" "moves R count_org"
  "moves R count_fetch_error" "moves R (count_registered b)"
  unfolding count_pending_def count_hit_def count_purged_def count_person_def count_org_def
    count_fetch_error_def count_registered_def
  by (rule stat, simp add: world.truncate_def)+

lemma in_client [order_intros]: "moves R (in_client m)"
  by (rule movesI, rule stats) (simp add: in_client_def world.truncate_def split: prod.split)

lemma rematch [order_intros]: "moves R (run_rematch_mode w idx)"
proof -
  have "moves R (rematch_one w idx p)" for p
    unfolding rematch_one_def
    by (intro moves_option ret bindR case_reads moves_if stat seqR counts queue)
      (simp add: world.truncate_def)
  then show ?thesis
    unfolding run_rematch_mode_def
    by (intro bindR case_reads seqR stat forR) (simp_all add: world.truncate_def)
qed

lemma person_party [order_intros]: "moves R (handle_person_party w c name p)"
  unfolding handle_person_party_def
proof (intro moves_if counts movesI, rule tombstones.subject.guarded [where R = R], erule (1) trans)
  show "R s (snd (is_subject_purged [tombstone_key_name name] s))" for s
    using is_subject_purged by (rule movesD)
  show "R s (snd (count_purged s))" for s using counts(3) by (rule movesD)
  show "R s (snd (bindR (upsert_djen_person (party_provenance name p)) (\<lambda>pid.
      seqR (ensure_djen_defendant_edge ''Person'' pid (wt_proceeding c) (lit ''cited'')) count_person) s))"
    if "\<not> (\<exists>k \<in> set [tombstone_key_name name]. usable_key k \<and> buried s k)" for s
  proof (rule bindR_at)
    show "R s (snd (upsert_djen_person (party_provenance name p) s))"
      by (rule person) (use that in \<open>simp add: party_provenance_def\<close>)
    fix pid t assume "upsert_djen_person (party_provenance name p) s = (Inr pid, t)"
    from upsert_person_id [OF this] show "R t (snd (seqR
        (ensure_djen_defendant_edge ''Person'' pid (wt_proceeding c) (lit ''cited'')) count_person t))"
      by (simp add: movesD [OF seqR [OF person_edge counts(4)]])
  qed
qed

lemma company_party [order_intros]: "moves R (handle_company_party w c n name p)"
  unfolding handle_company_party_def
proof (intro moves_if counts movesI, rule tombstones.subject.guarded [where R = R], erule (1) trans)
  show "R s (snd (is_subject_purged [tombstone_key_name name] s))" for s
    using is_subject_purged by (rule movesD)
  show "R s (snd (count_purged s))" for s using counts(3) by (rule movesD)
  let ?rest = "\<lambda>org. seqR (create_pending_review ''unknown_cnpj'' (unknown_cnpj_payload name org n p) djen_worker)
        (seqR count_pending count_org)"
  have rest: "moves R (?rest org)" for org by (intro seqR queue counts)
  show "R s (snd (bindR (upsert_djen_organization (party_provenance name p)) (\<lambda>org.
      seqR (ensure_djen_defendant_edge ''Organization'' org (wt_proceeding c) (lit ''cited'')) (?rest org)) s))"
    if "\<not> (\<exists>k \<in> set [tombstone_key_name name]. usable_key k \<and> buried s k)" for s
  proof (rule bindR_at)
    show "R s (snd (upsert_djen_organization (party_provenance name p) s))"
      by (rule organization) (use that in \<open>simp add: party_provenance_def\<close>)
    fix org t assume "upsert_djen_organization (party_provenance name p) s = (Inr org, t)"
    from upsert_org_id [OF this] show "R t (snd (seqR
        (ensure_djen_defendant_edge ''Organization'' org (wt_proceeding c) (lit ''cited'')) (?rest org) t))"
      by (simp add: movesD [OF seqR [OF organization_edge rest]])
  qed
qed

lemma passive_party [order_intros]: "moves R (handle_passive w idx c n p)"
  unfolding handle_passive_def Let_def
  by (intro moves_if company_party moves_option person_party seqR ret queue counts)

end

text \<open>A whole run also writes the watch list, the snapshots and bare proceedings.\<close>

locale djen_stores = party_stores R + table_order R for R :: "djen_state \<Rightarrow> djen_state \<Rightarrow> bool" +
  assumes proceeding: "moves R (upsert_legal_proceeding_by_case (bare_case c))"
begin

lemma poll_parties [order_intros]: "moves R (poll_parties w idx c n items)"
proof -
  have "moves R (process_party w idx c n p)" for p
    unfolding process_party_def by (intro seqR moves_if passive_party ret tables)
  then show ?thesis
    unfolding poll_parties_def Let_def
    by (intro seqR bindR case_reads stat forR moves_if ret getR tables) (simp_all add: world.truncate_def)
qed

lemma case_mode [order_intros]: "moves R (run_case_mode e w idx)"
proof -
  have "moves R (poll_case e w idx c)" for c
    unfolding poll_case_def Let_def
    by (intro bindR attemptR in_client moves_sum getR moves_if throw seqR counts ret moves_option poll_parties)
  then show ?thesis
    unfolding run_case_mode_def
    by (intro bindR case_reads seqR stat forO) (simp_all add: world.truncate_def)
qed

lemma name_mode [order_intros]: "moves R (run_name_mode e w pols)"
proof -
  have "moves R (register_discovered_case c its)" for c its
    unfolding register_discovered_case_def Let_def
    by (intro moves_if ret bindR proceeding seqR tables)
  then have "moves R (name_group w name grp)" for name grp
    unfolding name_group_def Let_def
    by (intro moves_prod moves_if stat bindR case_reads seqR ret counts) (simp_all add: world.truncate_def)
  then have "moves R (name_lookup e w cap job)" for cap job
    unfolding name_lookup_def
    by (intro moves_prod bindR attemptR in_client seqR stat moves_sum getR moves_if throw counts ret
        moves_option forR) (simp_all add: world.truncate_def)
  then show ?thesis unfolding run_name_mode_def by (rule forO)
qed

lemma run: "moves R (run_djen e w)"
proof -
  have mode: "moves R (then_mode m k)" if "moves R m" "moves R k" for m k :: "(djen_state, unit option) prog"
    unfolding then_mode_def by (intro bindR moves_option ret that)
  have skip: "moves R (seqR (modR (\<lambda>s. s\<lparr>dj_skipped_records := cl_skipped (dj_client s)\<rparr>)) (ret (Some ())))"
    by (intro seqR stat ret) (simp add: world.truncate_def)
  show ?thesis
    unfolding run_djen_def Let_def when_mode_def
    by (intro seqR stat bindR case_reads mode moves_if case_mode name_mode rematch ret)
      (simp_all add: world.truncate_def reset_djen_def)
qed

end

section \<open>Nobody comes back\<close>

lemma truncate_watch:
  assumes "world.truncate s = world.truncate t"
  shows "graph s = graph t" "tombs s = tombs t" "reviews s = reviews t" "watches s = watches t"
    "snapshots s = snapshots t" "aliases s = aliases t" "import_states s = import_states t"
  using arg_cong [OF assms, of graph] arg_cong [OF assms, of tombs] arg_cong [OF assms, of reviews]
    arg_cong [OF assms, of watches] arg_cong [OF assms, of snapshots] arg_cong [OF assms, of aliases]
    arg_cong [OF assms, of import_states]
  by (simp_all add: world.truncate_def)

lemma bindR_rows:
  assumes "\<And>s t u. R s t \<Longrightarrow> R t u \<Longrightarrow> R s u" and "\<And>s. R s s" and "R s (snd (cypher f s))"
  shows "R s (snd (bindR (cypher f) (\<lambda>ids. case ids of [] \<Rightarrow> throw e | i # _ \<Rightarrow> ret i) s))"
proof -
  obtain r t where "cypher f s = (r, t)" by fastforce
  with assms show ?thesis
    by (auto simp: bindR_def throw_def ret_def split: sum.split list.split)
qed

lemma party_uncovered:
  assumes "\<not> (\<exists>k \<in> set [tombstone_key_name (py_name u)]. usable_key k \<and> buried s k)"
  shows "\<not> covers (buried s) tombstone_key_name (n_props (party_facts u n) ''name'')"
  using assms by (simp add: covers_def)

lemma no_revival_party:
  assumes "\<not> (\<exists>k \<in> set [tombstone_key_name (py_name u)]. usable_key k \<and> buried s k)"
  shows "no_revival s (snd (cypher (merge_party l i u) s))"
proof (rule no_revival.cypher_at)
  fix fs
  have b: "buried (s\<lparr>faults := fs\<rparr>) = buried s" by (rule ext) simp
  have "revives_none (buried s) (graph s) (fst (merge_party l i u (graph s)))"
    unfolding merge_party_fst
  proof (rule revives_none_merge)
    show "continues (buried s) n (party_facts u n)" for n
      using party_uncovered [OF assms, of n] by (simp add: continues_def)
    let ?n = "\<lparr>n_key = g_next (graph s), n_labels = [l], n_props = set_props [] (Map.empty(''id'' \<mapsto> PStr i))\<rparr>"
    show "\<not> covered (buried s) (ident (party_facts u ?n))"
      using party_uncovered [OF assms, of ?n] by (simp add: covered_def ident_def) (simp add: covers_def)
  qed
  with b show "no_revival (s\<lparr>faults := fs\<rparr>) (s\<lparr>faults := fs, graph := fst (merge_party l i u (graph s))\<rparr>)"
    by (simp add: no_revival_def)
qed

lemma proceeding_facts_sel [simp]:
  "n_key (proceeding_facts u n) = n_key n" "n_labels (proceeding_facts u n) = n_labels n"
  "n_props (proceeding_facts u n) ''id'' = n_props n ''id''"
  "n_props (proceeding_facts u n) ''cpf'' = n_props n ''cpf''"
  "n_props (proceeding_facts u n) ''cnpj'' = n_props n ''cnpj''"
  "n_props (proceeding_facts u n) ''name'' = n_props n ''name''"
  "has_label l (proceeding_facts u n) = has_label l n"
  by (simp_all add: proceeding_facts_def upd_props_lookup)

lemma proceeding_facts_bare [simp]: "proceeding_facts (bare_case c) n = n"
  by (simp add: proceeding_facts_def bare_case_def unless_empty_def upd_props_def)

lemma no_revival_proceeding: "moves no_revival (upsert_legal_proceeding_by_case u)"
proof (rule no_revival.upsert_legal_proceeding, rule no_revival_cypher)
  fix b and g :: graph
  show "revives_none b g (fst (merge_proceeding u g))"
    unfolding merge_proceeding_fst
    by (rule revives_none_merge) (simp_all add: continues_def covered_def covers_def ident_def)
qed

lemma no_revival_edge: "moves no_revival (ensure_djen_defendant_edge nt nid lp out)"
  unfolding ensure_djen_defendant_edge_def by (rule no_revival_cypher) (simp add: revives_none_nodes)

interpretation rev: djen_stores no_revival
proof unfold_locales
  fix s t :: djen_state and ws ps rs u n lp c j
  show "no_revival s (s\<lparr>watches := ws\<rparr>)" "no_revival s (s\<lparr>snapshots := ps\<rparr>)" "no_revival s (s\<lparr>reviews := rs, issued := j\<rparr>)"
    by (simp_all add: no_revival_def)
  show "world.truncate s = world.truncate t \<Longrightarrow> no_revival s t"
    using truncate_watch [of s t] by (simp add: no_revival_def)
  show "no_revival s (snd (upsert_djen_person u s))"
    if "\<not> (\<exists>k \<in> set [tombstone_key_name (py_name u)]. usable_key k \<and> buried s k)"
    unfolding upsert_djen_person_def
    by (rule bindR_rows [where R = no_revival], erule (1) no_revival.trans, simp, rule no_revival_party, rule that)
  show "no_revival s (snd (upsert_djen_organization u s))"
    if "\<not> (\<exists>k \<in> set [tombstone_key_name (py_name u)]. usable_key k \<and> buried s k)"
    unfolding upsert_djen_organization_def
    by (rule bindR_rows [where R = no_revival], erule (1) no_revival.trans, simp, rule no_revival_party, rule that)
  show "moves no_revival (ensure_djen_defendant_edge ''Person'' (djen_person_id n) lp (lit ''cited''))"
    "moves no_revival (ensure_djen_defendant_edge ''Organization'' (djen_organization_id n) lp (lit ''cited''))"
    by (rule no_revival_edge)+
  show "moves no_revival (upsert_legal_proceeding_by_case (bare_case c))" by (rule no_revival_proceeding)
qed

section \<open>What may be claimed\<close>

definition claim :: "edge \<Rightarrow> pval option" where
  "claim e = e_props e ''outcome''"

definition same_node :: "node \<Rightarrow> node \<Rightarrow> bool" where
  "same_node m n \<longleftrightarrow> n_key m = n_key n \<and> n_labels m = n_labels n \<and> n_props m ''id'' = n_props n ''id''"

definition party_node :: "node \<Rightarrow> bool" where
  "party_node n \<longleftrightarrow> (has_label ''Person'' n \<or> has_label ''Organization'' n) \<and>
     (\<exists>x. n_props n ''id'' = Some (PStr x) \<and> (has_prefix x (lit ''person_djen_'') \<or> has_prefix x (lit ''org_djen_'')))"

text \<open>Every claim of a defendant is as it was, or says "cited" of a name-only node of the gazette.\<close>

definition claims_kept :: "graph \<Rightarrow> graph \<Rightarrow> bool" where
  "claims_kept g h \<longleftrightarrow>
     (\<forall>e \<in> set (g_edges h). e_type e = ''DEFENDANT_IN'' \<longrightarrow>
        (\<exists>e' \<in> set (g_edges g). triple e' = triple e \<and> claim e' = claim e) \<or>
        (claim e = Some (PStr (lit ''cited'')) \<and> (\<exists>n \<in> set (g_nodes h). n_key n = e_from e \<and> party_node n))) \<and>
     (\<forall>n \<in> set (g_nodes g). \<exists>m \<in> set (g_nodes h). same_node n m)"

definition cited_only :: "'z world_scheme \<Rightarrow> 'z world_scheme \<Rightarrow> bool" where
  "cited_only s t \<longleftrightarrow> claims_kept (graph s) (graph t)"

lemma same_node_party: "same_node m n \<Longrightarrow> party_node m \<Longrightarrow> party_node n"
  by (simp add: same_node_def party_node_def has_label_def)

lemma same_node_refl [simp]: "same_node n n"
  by (simp add: same_node_def)

lemma same_node_trans: "same_node k m \<Longrightarrow> same_node m n \<Longrightarrow> same_node k n"
  by (simp add: same_node_def)

lemma claims_kept_refl [simp]: "claims_kept g g"
  unfolding claims_kept_def by (auto intro: same_node_refl)

lemma claims_kept_trans:
  assumes "claims_kept g h" and "claims_kept h k" shows "claims_kept g k"
proof -
  have "(\<exists>e' \<in> set (g_edges g). triple e' = triple e \<and> claim e' = claim e) \<or>
      (claim e = Some (PStr (lit ''cited'')) \<and> (\<exists>n \<in> set (g_nodes k). n_key n = e_from e \<and> party_node n))"
    if e: "e \<in> set (g_edges k)" "e_type e = ''DEFENDANT_IN''" for e
  proof -
    consider "claim e = Some (PStr (lit ''cited'')) \<and> (\<exists>n \<in> set (g_nodes k). n_key n = e_from e \<and> party_node n)"
      | e' where "e' \<in> set (g_edges h)" "triple e' = triple e" "claim e' = claim e"
      using assms(2) e unfolding claims_kept_def by blast
    then show ?thesis
    proof cases
      case 2
      then have ty: "e_type e' = ''DEFENDANT_IN''" "e_from e' = e_from e" using e(2) by (simp_all add: triple_def)
      consider e'' where "e'' \<in> set (g_edges g)" "triple e'' = triple e'" "claim e'' = claim e'"
        | n where "claim e' = Some (PStr (lit ''cited''))" "n \<in> set (g_nodes h)" "n_key n = e_from e'" "party_node n"
        using assms(1) 2(1) ty(1) unfolding claims_kept_def by blast
      then show ?thesis
      proof cases
        case 1
        with 2 show ?thesis by metis
      next
        case 2
        then obtain m where "m \<in> set (g_nodes k)" "same_node n m"
          using assms(2) unfolding claims_kept_def by blast
        with 2 ty(2) \<open>claim e' = claim e\<close> same_node_party [of n m] show ?thesis
          by (metis same_node_def)
      qed
    qed blast
  qed
  moreover have "\<exists>m \<in> set (g_nodes k). same_node n m" if "n \<in> set (g_nodes g)" for n
    using assms that same_node_trans unfolding claims_kept_def by metis
  ultimately show ?thesis unfolding claims_kept_def by blast
qed

interpretation cited_only: world_order cited_only
  by unfold_locales (auto simp: cited_only_def intro: claims_kept_trans)

lemma claims_kept_merge:
  assumes "\<And>n. same_node n (f n)" shows "claims_kept g (fst (merge_node l k v c f g))"
proof -
  have "\<exists>m \<in> set (g_nodes (fst (merge_node l k v c f g))). same_node n m" if "n \<in> set (g_nodes g)" for n
  proof (cases "match_nodes l (prop_is k v) g = []")
    case True
    then show ?thesis using that by (auto simp: merge_node_def Let_def intro: same_node_refl)
  next
    case False
    then show ?thesis
      using that assms [of n]
      by (intro bexI [of _ "if has_label l n \<and> prop_is k v n then f n else n"])
        (auto simp: merge_node_def Let_def)
  qed
  then show ?thesis by (auto simp: claims_kept_def)
qed

lemma claims_kept_edges:
  assumes src: "\<And>a b. (a, b) \<in> set ps \<Longrightarrow> \<exists>n \<in> set (g_nodes g). n_key n = a \<and> party_node n"
    and f: "\<And>p. f p ''outcome'' = Some (PStr (lit ''cited''))"
  shows "claims_kept g (merge_edges ps ''DEFENDANT_IN'' [] f g)"
  using src
proof (induction ps arbitrary: g)
  case Nil
  show ?case by simp
next
  case (Cons p ps)
  obtain a b where p: "p = (a, b)" by fastforce
  obtain n where n: "n \<in> set (g_nodes g)" "n_key n = a" "party_node n"
    using Cons.prems [of a b] p by auto
  have "claims_kept g (merge_edge a ''DEFENDANT_IN'' b [] f g)"
    using n f by (auto simp: claims_kept_def merge_edge_def triple_def claim_def edge_is_def intro: same_node_refl)
  moreover have "claims_kept (merge_edge a ''DEFENDANT_IN'' b [] f g)
      (merge_edges ps ''DEFENDANT_IN'' [] f (merge_edge a ''DEFENDANT_IN'' b [] f g))"
    by (rule Cons.IH) (use Cons.prems in auto)
  ultimately show ?case using p claims_kept_trans by simp
qed

lemma cited_party: "moves cited_only (cypher (merge_party l i u))"
  by (rule cited_only.cypher) (simp add: cited_only_def merge_party_fst claims_kept_merge same_node_def)

lemma cited_edge:
  assumes "nt \<in> {''Person'', ''Organization''}" and "has_prefix nid (lit ''person_djen_'') \<or> has_prefix nid (lit ''org_djen_'')"
  shows "moves cited_only (ensure_djen_defendant_edge nt nid lp (lit ''cited''))"
  unfolding ensure_djen_defendant_edge_def
proof (rule cited_only.cypher)
  fix s :: "'a world_scheme"
  have "\<exists>n \<in> set (g_nodes (graph s)). n_key n = a \<and> party_node n"
    if "(a, b) \<in> set (defendant_pairs nt nid lp (graph s))" for a b
    using that assms
    by (auto simp: defendant_pairs_def node_pairs_iff match_nodes_def prop_is_def party_node_def)
  then show "cited_only s (s\<lparr>graph := fst (merge_edges (defendant_pairs nt nid lp (graph s)) ''DEFENDANT_IN'' []
      (set_props [(''outcome'', Some (PStr (lit ''cited''))), (''source'', Some (PStr (lit ''djen'')))]) (graph s), ())\<rparr>)"
    by (simp add: cited_only_def claims_kept_edges)
qed

lemma cited_proceeding: "moves cited_only (upsert_legal_proceeding_by_case u)"
  by (rule cited_only.upsert_legal_proceeding, rule cited_only.cypher)
    (simp add: cited_only_def merge_proceeding_fst claims_kept_merge same_node_def)

interpretation cite: djen_stores cited_only
proof unfold_locales
  fix s t :: djen_state and ws ps rs u n lp c j
  show "cited_only s (s\<lparr>watches := ws\<rparr>)" "cited_only s (s\<lparr>snapshots := ps\<rparr>)" "cited_only s (s\<lparr>reviews := rs, issued := j\<rparr>)"
    by (simp_all add: cited_only_def)
  show "world.truncate s = world.truncate t \<Longrightarrow> cited_only s t"
    using truncate_watch [of s t] by (simp add: cited_only_def)
  show "cited_only s (snd (upsert_djen_person u s))"
    by (rule movesD, rule cited_only.upsert_djen_person, rule cited_party)
  show "cited_only s (snd (upsert_djen_organization u s))"
    by (rule movesD, rule cited_only.upsert_djen_organization, rule cited_party)
  show "moves cited_only (ensure_djen_defendant_edge ''Person'' (djen_person_id n) lp (lit ''cited''))"
    "moves cited_only (ensure_djen_defendant_edge ''Organization'' (djen_organization_id n) lp (lit ''cited''))"
    by (rule cited_edge, simp_all add: djen_person_id_def djen_organization_id_def)+
  show "moves cited_only (upsert_legal_proceeding_by_case (bare_case c))" by (rule cited_proceeding)
qed

end
