(* ===== verification/Djen_Props.thy ===== *)
theory Djen_Props
  imports Djen_Run
begin

text \<open>
  What a run of the gazette worker leaves alone, what a dry run does, what polling twice does, and the
  properties of the worker as a whole.
\<close>

section \<open>The frame of a run\<close>

text \<open>
  Only nodes of the worker's own making change: name-only persons and organizations and fresh
  proceedings. Every relationship but \<^verbatim>\<open>DEFENDANT_IN\<close>, every tombstone and every alias stays as it was.
\<close>

definition fresh_case :: "node \<Rightarrow> bool" where
  "fresh_case n \<longleftrightarrow> n_labels n = [''LegalProceeding''] \<and> n_props n ''status'' = Some (PStr (lit ''ongoing''))"

definition frame_graph :: "graph \<Rightarrow> graph \<Rightarrow> bool" where
  "frame_graph g h \<longleftrightarrow>
     (\<forall>n \<in> set (g_nodes g). party_node n \<or> n \<in> set (g_nodes h)) \<and>
     (\<forall>n \<in> set (g_nodes h). party_node n \<or> n \<in> set (g_nodes g) \<or> fresh_case n) \<and>
     filter (\<lambda>e. e_type e \<noteq> ''DEFENDANT_IN'') (g_edges g) = filter (\<lambda>e. e_type e \<noteq> ''DEFENDANT_IN'') (g_edges h)"

definition own_nodes_only :: "'z world_scheme \<Rightarrow> 'z world_scheme \<Rightarrow> bool" where
  "own_nodes_only s t \<longleftrightarrow> frame_graph (graph s) (graph t) \<and> tombs s = tombs t \<and> aliases s = aliases t \<and>
     import_states s = import_states t"

lemma frame_graph_refl [simp]: "frame_graph g g"
  by (simp add: frame_graph_def)

lemma frame_graph_trans: "frame_graph g h \<Longrightarrow> frame_graph h k \<Longrightarrow> frame_graph g k"
  unfolding frame_graph_def by metis

interpretation own_nodes_only: world_order own_nodes_only
  by unfold_locales (auto simp: own_nodes_only_def intro: frame_graph_trans)

lemma frame_map:
  assumes "\<And>n. P n \<Longrightarrow> party_node n \<and> party_node (f n) \<or> f n = n" shows "frame_graph g (map_nodes P f g)"
proof -
  have "party_node n \<or> n \<in> set (g_nodes (map_nodes P f g))" if "n \<in> set (g_nodes g)" for n
    using that assms [of n] by (cases "P n") (auto simp: image_iff intro!: bexI [of _ n])
  moreover have "party_node n \<or> n \<in> set (g_nodes g)" if "n \<in> set (g_nodes (map_nodes P f g))" for n
    using that assms by (auto split: if_splits) metis
  ultimately show ?thesis by (auto simp: frame_graph_def simp del: map_nodes_sel(3))
qed

lemma frame_merge:
  assumes old: "\<And>n. has_label l n \<Longrightarrow> prop_is k v n \<Longrightarrow> party_node n \<and> party_node (f n) \<or> f n = n"
    and new: "\<And>x. party_node (f \<lparr>n_key = x, n_labels = [l], n_props = set_props c (Map.empty(k := Some v))\<rparr>) \<or>
      fresh_case (f \<lparr>n_key = x, n_labels = [l], n_props = set_props c (Map.empty(k := Some v))\<rparr>)"
  shows "frame_graph g (fst (merge_node l k v c f g))"
proof (cases "match_nodes l (prop_is k v) g = []")
  case True
  with new [of "g_next g"] show ?thesis by (auto simp: merge_node_def Let_def frame_graph_def)
next
  case False
  have "frame_graph g (map_nodes (\<lambda>n. has_label l n \<and> prop_is k v n) f g)"
    by (rule frame_map) (use old in blast)
  with False show ?thesis by (simp add: merge_node_def Let_def)
qed

lemma frame_edge:
  "filter (\<lambda>e. e_type e \<noteq> t) (g_edges (merge_edge a t b c f g)) = filter (\<lambda>e. e_type e \<noteq> t) (g_edges g)"
proof -
  have "filter (\<lambda>e. e_type e \<noteq> t) (List.map (\<lambda>e. if edge_is a t b e then e\<lparr>e_props := f (e_props e)\<rparr> else e) es)
      = filter (\<lambda>e. e_type e \<noteq> t) es" for es
    by (induction es) (auto simp: edge_is_def)
  then show ?thesis by (simp add: merge_edge_def)
qed

lemma frame_edges:
  "filter (\<lambda>e. e_type e \<noteq> t) (g_edges (merge_edges ps t c f g)) = filter (\<lambda>e. e_type e \<noteq> t) (g_edges g)"
  by (induction ps arbitrary: g) (auto simp: frame_edge)

lemma party_node_facts:
  assumes "l = ''Person'' \<or> l = ''Organization''" and "n_props n ''id'' = Some (PStr i)" and "has_label l n"
    and "has_prefix i (lit ''person_djen_'') \<or> has_prefix i (lit ''org_djen_'')"
  shows "party_node n \<and> party_node (party_facts u n)"
  using assms by (auto simp: party_node_def)

lemma frame_party:
  assumes "l = ''Person'' \<or> l = ''Organization''"
    and "has_prefix i (lit ''person_djen_'') \<or> has_prefix i (lit ''org_djen_'')"
  shows "moves own_nodes_only (cypher (merge_party l i u))"
proof (rule own_nodes_only.cypher)
  fix s :: "'a world_scheme"
  have "frame_graph (graph s) (fst (merge_party l i u (graph s)))"
    unfolding merge_party_fst
    using party_node_facts [OF assms(1) _ _ assms(2)]
    by (intro frame_merge) (simp_all add: prop_is_def has_label_def)
  then show "own_nodes_only s (s\<lparr>graph := fst (merge_party l i u (graph s))\<rparr>)"
    by (simp add: own_nodes_only_def)
qed

lemma frame_defendant: "moves own_nodes_only (ensure_djen_defendant_edge nt nid lp out)"
  unfolding ensure_djen_defendant_edge_def
  by (rule own_nodes_only.cypher) (simp add: own_nodes_only_def frame_graph_def frame_edges)

lemma frame_bare_case: "moves own_nodes_only (upsert_legal_proceeding_by_case (bare_case c))"
proof (rule own_nodes_only.upsert_legal_proceeding, rule own_nodes_only.cypher)
  fix s :: "'a world_scheme"
  have "frame_graph (graph s) (fst (merge_proceeding (bare_case c) (graph s)))"
    unfolding merge_proceeding_fst
    by (rule frame_merge) (simp_all add: fresh_case_def)
  then show "own_nodes_only s (s\<lparr>graph := fst (merge_proceeding (bare_case c) (graph s))\<rparr>)"
    by (simp add: own_nodes_only_def)
qed

interpretation frame: djen_stores own_nodes_only
proof unfold_locales
  fix s t :: djen_state and ws ps rs u n lp c j
  show "own_nodes_only s (s\<lparr>watches := ws\<rparr>)" "own_nodes_only s (s\<lparr>snapshots := ps\<rparr>)"
    "own_nodes_only s (s\<lparr>reviews := rs, issued := j\<rparr>)"
    by (simp_all add: own_nodes_only_def)
  show "world.truncate s = world.truncate t \<Longrightarrow> own_nodes_only s t"
    using truncate_watch [of s t] by (simp add: own_nodes_only_def)
  show "own_nodes_only s (snd (upsert_djen_person u s))"
    by (rule movesD, rule own_nodes_only.upsert_djen_person, rule frame_party) (simp_all add: djen_person_id_def)
  show "own_nodes_only s (snd (upsert_djen_organization u s))"
    by (rule movesD, rule own_nodes_only.upsert_djen_organization, rule frame_party) (simp_all add: djen_organization_id_def)
  show "moves own_nodes_only (ensure_djen_defendant_edge ''Person'' (djen_person_id n) lp (lit ''cited''))"
    "moves own_nodes_only (ensure_djen_defendant_edge ''Organization'' (djen_organization_id n) lp (lit ''cited''))"
    by (rule frame_defendant)+
  show "moves own_nodes_only (upsert_legal_proceeding_by_case (bare_case c))" by (rule frame_bare_case)
qed

section \<open>Well-formedness\<close>

lemma wf_party: "moves keeps_wf (cypher (merge_party l i u))"
  by (rule keeps_wf_cypher) (simp add: merge_party_fst wf_merge_node)

lemma wf_defendant: "moves keeps_wf (ensure_djen_defendant_edge nt nid lp out)"
  unfolding ensure_djen_defendant_edge_def
  by (rule keeps_wf_cypher) (auto intro!: wf_merge_edges simp: defendant_pairs_def node_pairs_iff match_nodes_def)

lemma wf_proceeding: "moves keeps_wf (upsert_legal_proceeding_by_case u)"
  by (rule keeps_wf.upsert_legal_proceeding, rule keeps_wf_cypher) (simp add: merge_proceeding_fst wf_merge_node)

interpretation wf_run: djen_stores keeps_wf
proof unfold_locales
  fix s t :: djen_state and ws ps rs u n lp c j
  show "keeps_wf s (s\<lparr>watches := ws\<rparr>)" "keeps_wf s (s\<lparr>snapshots := ps\<rparr>)" "keeps_wf s (s\<lparr>reviews := rs, issued := j\<rparr>)"
    by (simp_all add: keeps_wf_def)
  show "world.truncate s = world.truncate t \<Longrightarrow> keeps_wf s t"
    using truncate_watch [of s t] by (simp add: keeps_wf_def)
  show "keeps_wf s (snd (upsert_djen_person u s))"
    by (rule movesD, rule keeps_wf.upsert_djen_person, rule wf_party)
  show "keeps_wf s (snd (upsert_djen_organization u s))"
    by (rule movesD, rule keeps_wf.upsert_djen_organization, rule wf_party)
  show "moves keeps_wf (ensure_djen_defendant_edge ''Person'' (djen_person_id n) lp (lit ''cited''))"
    "moves keeps_wf (ensure_djen_defendant_edge ''Organization'' (djen_organization_id n) lp (lit ''cited''))"
    by (rule wf_defendant)+
  show "moves keeps_wf (upsert_legal_proceeding_by_case (bare_case c))" by (rule wf_proceeding)
qed

section \<open>A dry run\<close>

text \<open>Everything but the fault script, which the reads of a dry run consume too.\<close>

definition same_stores :: "'z world_scheme \<Rightarrow> 'z world_scheme \<Rightarrow> bool" where
  "same_stores s t \<longleftrightarrow>
     graph s = graph t \<and> tombs s = tombs t \<and> reviews s = reviews t \<and> watches s = watches t \<and>
     snapshots s = snapshots t \<and> aliases s = aliases t \<and> import_states s = import_states t"

interpretation same_stores: world_order same_stores
  by unfold_locales (simp_all add: same_stores_def)

lemma same_stores_stat:
  assumes "\<And>s. world.truncate (f s) = world.truncate s" shows "moves same_stores (modR f)"
proof (rule same_stores.modR)
  show "same_stores s (f s)" for s
    using truncate_watch [OF assms [of s]] by (simp add: same_stores_def)
qed

lemma same_stores_client: "moves same_stores (in_client m)"
  by (rule movesI) (simp add: in_client_def same_stores_def split: prod.split)

lemma same_stores_counts:
  "moves same_stores count_pending" "moves same_stores count_hit" "moves same_stores count_purged"
  "moves same_stores count_person" "moves same_stores count_org" "moves same_stores count_fetch_error"
  unfolding count_pending_def count_hit_def count_purged_def count_person_def count_org_def count_fetch_error_def
  by (rule same_stores_stat, simp add: world.truncate_def)+

lemma dry_if: "do_dry w \<Longrightarrow> moves R m \<Longrightarrow> moves R (if do_dry w then m else k)"
  by simp

lemmas dry_intros =
  dry_if same_stores.seqR same_stores.bindR same_stores.ret same_stores.throw same_stores.forR same_stores.forO
  same_stores.getR same_stores.attemptR same_stores_client same_stores.case_reads same_stores_counts
  moves_if moves_option moves_sum moves_prod

lemma dry_parties: "do_dry w \<Longrightarrow> moves same_stores (poll_parties w idx c n items)"
  unfolding poll_parties_def process_party_def handle_passive_def handle_company_party_def
    handle_person_party_def Let_def
  by (intro dry_intros same_stores_stat; simp add: world.truncate_def same_stores.ret)

lemma dry_case_mode: "do_dry w \<Longrightarrow> moves same_stores (run_case_mode e w idx)"
  unfolding run_case_mode_def poll_case_def Let_def
  by (intro dry_intros same_stores_stat dry_parties) (simp_all add: world.truncate_def)

lemma dry_name_mode: "do_dry w \<Longrightarrow> moves same_stores (run_name_mode e w pols)"
proof -
  assume d: "do_dry w"
  then have "moves same_stores (name_group w name grp)" for name grp
    unfolding name_group_def Let_def
    by (intro dry_intros same_stores_stat) (simp_all add: world.truncate_def)
  then have "moves same_stores (name_lookup e w cap job)" for cap job
    unfolding name_lookup_def
    by (intro dry_intros same_stores_stat) (simp_all add: world.truncate_def)
  then show ?thesis
    unfolding run_name_mode_def by (rule same_stores.forO)
qed

lemma dry_rematch: "do_dry w \<Longrightarrow> moves same_stores (run_rematch_mode w idx)"
  unfolding run_rematch_mode_def rematch_one_def
  by (intro dry_intros same_stores_stat; simp add: world.truncate_def)

lemma dry_djen: "do_dry w \<Longrightarrow> moves same_stores (run_djen e w)"
  unfolding run_djen_def Let_def when_mode_def then_mode_def
  by (intro dry_intros same_stores_stat dry_case_mode dry_name_mode dry_rematch)
    (simp_all add: world.truncate_def reset_djen_def)

section \<open>Polling\<close>

text \<open>Handling a party never touches the snapshots; only the last step of a party does, and it only adds.\<close>

definition same_snapshots :: "'z world_scheme \<Rightarrow> 'z world_scheme \<Rightarrow> bool" where
  "same_snapshots s t \<longleftrightarrow> snapshots s = snapshots t"

interpretation same_snapshots: world_order same_snapshots
  by unfold_locales (auto simp: same_snapshots_def)

lemma same_snapshots_cypher: "moves same_snapshots (cypher f)"
  by (rule same_snapshots.cypher) (simp add: same_snapshots_def)

interpretation snap: party_stores same_snapshots
proof unfold_locales
  fix s t :: djen_state and rs u n lp j
  show "same_snapshots s (s\<lparr>reviews := rs, issued := j\<rparr>)" by (simp add: same_snapshots_def)
  show "world.truncate s = world.truncate t \<Longrightarrow> same_snapshots s t"
    using truncate_watch [of s t] by (simp add: same_snapshots_def)
  show "same_snapshots s (snd (upsert_djen_person u s))"
    by (rule movesD, rule same_snapshots.upsert_djen_person, rule same_snapshots_cypher)
  show "same_snapshots s (snd (upsert_djen_organization u s))"
    by (rule movesD, rule same_snapshots.upsert_djen_organization, rule same_snapshots_cypher)
  show "moves same_snapshots (ensure_djen_defendant_edge ''Person'' (djen_person_id n) lp (lit ''cited''))"
    "moves same_snapshots (ensure_djen_defendant_edge ''Organization'' (djen_organization_id n) lp (lit ''cited''))"
    unfolding ensure_djen_defendant_edge_def by (rule same_snapshots_cypher)+
qed

definition snapshot_keys :: "'z world_scheme \<Rightarrow> gostr \<Rightarrow> gostr set" where
  "snapshot_keys s c = sn_key ` {x \<in> set (snapshots s). sn_case x = c}"

definition snaps_grow :: "'z world_scheme \<Rightarrow> 'z world_scheme \<Rightarrow> bool" where
  "snaps_grow s t \<longleftrightarrow> set (snapshots s) \<subseteq> set (snapshots t)"

interpretation snaps_grow: world_order snaps_grow
  by unfold_locales (auto simp: snaps_grow_def)

lemma snapshot_insert_grows: "moves snaps_grow (insert_djen_snapshot_party c k n p)"
  unfolding insert_djen_snapshot_party_def by (rule snaps_grow.sql) (auto simp: snaps_grow_def)

lemma snapshot_insert_ok:
  assumes "insert_djen_snapshot_party c k n p s = (Inr u, t)" shows "k \<in> snapshot_keys t c"
proof -
  have "fst (insert_djen_snapshot_party c k n p s) = Inr u" using assms by simp
  from sql_ok [OF this [unfolded insert_djen_snapshot_party_def], folded insert_djen_snapshot_party_def] assms
  show ?thesis
    by (cases "\<exists>x \<in> set (snapshots s). sn_case x = c \<and> sn_key x = k") (auto simp: snapshot_keys_def image_iff conj_disj_distribR ex_disj_distrib)
qed

lemma snapshot_keys_grow: "snaps_grow s t \<Longrightarrow> snapshot_keys s c \<subseteq> snapshot_keys t c"
  by (auto simp: snaps_grow_def snapshot_keys_def)

lemma process_party_grows: "moves snaps_grow (process_party w idx c n p)"
proof -
  have "moves snaps_grow (handle_passive w idx c n p)"
    using snap.passive_party [of w idx c n p] by (simp add: moves_def same_snapshots_def snaps_grow_def)
  then show ?thesis
    unfolding process_party_def
    by (intro snaps_grow.seqR moves_if snaps_grow.ret snapshot_insert_grows)
qed

lemma process_parties_recorded:
  assumes "\<not> do_dry w" and "forR (process_party w idx c n) ps s = (Inr u, t)"
  shows "(\<lambda>p. party_key (pa_nome p) (pa_polo p)) ` set ps \<subseteq> snapshot_keys t (wt_case c)"
  using assms(2)
proof (induction ps arbitrary: s)
  case Nil
  show ?case by simp
next
  case (Cons p ps)
  from Cons.prems obtain v m where m: "process_party w idx c n p s = (Inr v, m)"
    "forR (process_party w idx c n) ps m = (Inr u, t)"
    unfolding forR.simps seqR_Inr by blast
  from m(1) assms(1) obtain x where
    "insert_djen_snapshot_party (wt_case c) (party_key (pa_nome p) (pa_polo p)) (pa_nome p) (pa_polo p) x = (Inr v, m)"
    unfolding process_party_def seqR_Inr by auto
  then have "party_key (pa_nome p) (pa_polo p) \<in> snapshot_keys m (wt_case c)"
    by (rule snapshot_insert_ok)
  moreover have "snaps_grow m (snd (forR (process_party w idx c n) ps m))"
    by (rule movesD, rule snaps_grow.forR, rule process_party_grows)
  then have "snapshot_keys m (wt_case c) \<subseteq> snapshot_keys t (wt_case c)"
    unfolding m(2) snd_conv by (rule snapshot_keys_grow)
  ultimately show ?case using Cons.IH [OF m(2)] by auto
qed

abbreviation roster_keys_of :: "item list \<Rightarrow> gostr set" where
  "roster_keys_of items \<equiv> (\<lambda>p. party_key (pa_nome p) (pa_polo p)) ` set (roster_from_items items)"

lemma listed_keys:
  assumes "list_djen_snapshot_keys c s = (Inr ks, t)"
  shows "snapshots t = snapshots s \<and> set ks = snapshot_keys s c"
  using sql_read_ok [OF assms [unfolded list_djen_snapshot_keys_def]] by (auto simp: snapshot_keys_def)

lemma poll_at_snapshots: "moves same_snapshots (update_djen_polled_at c now)"
  unfolding update_djen_polled_at_def update_watch_def
  by (rule same_snapshots.sql) (simp add: same_snapshots_def)

lemma poll_records:
  assumes "\<not> do_dry w" and "poll_parties w idx c n items s = (Inr u, t)"
  shows "roster_keys_of items \<subseteq> snapshot_keys t (wt_case c)"
proof -
  let ?d = "\<lambda>ks. roster_delta (roster_from_items items) ks"
  let ?known = "\<lambda>s. snapshot_keys s (wt_case c)"
  let ?s1 = "s\<lparr>dj_cases_polled := dj_cases_polled s + 1, dj_parties_seen := dj_parties_seen s + length (roster_from_items items)\<rparr>"
  obtain ks s2 m where ks: "list_djen_snapshot_keys (wt_case c) ?s1 = (Inr ks, s2)"
    and new': "forR (process_party w idx c n) (?d ks) (s2\<lparr>dj_parties_new := dj_parties_new s2 + length (?d ks)\<rparr>) = (Inr (), m)"
    and last: "update_djen_polled_at (wt_case c) (wall m) m = (Inr u, t)"
    using assms by (auto simp: poll_parties_def Let_def seqR_Inr bindR_Inr modR_def)
  define s3 where "s3 = s2\<lparr>dj_parties_new := dj_parties_new s2 + length (?d ks)\<rparr>"
  have s3: "snapshots s3 = snapshots s2" by (simp add: s3_def)
  note new = new' [folded s3_def]
  have end_m: "?known t = ?known m"
    using movesD [OF poll_at_snapshots, of m "wt_case c" "wall m"] last
    by (simp add: same_snapshots_def snapshot_keys_def)
  have "snaps_grow s3 (snd (forR (process_party w idx c n) (?d ks) s3))"
    by (rule movesD, rule snaps_grow.forR, rule process_party_grows)
  then have grow: "?known s3 \<subseteq> ?known m"
    unfolding new snd_conv by (rule snapshot_keys_grow)
  have "set ks = ?known s3"
    using listed_keys [OF ks] s3 by (simp add: snapshot_keys_def)
  then have "roster_keys_of items \<subseteq> (\<lambda>p. party_key (pa_nome p) (pa_polo p)) ` set (?d ks) \<union> ?known s3"
    by (auto simp: roster_delta_def)
  with process_parties_recorded [OF assms(1) new] grow end_m show ?thesis by blast
qed

definition same_contents :: "'z world_scheme \<Rightarrow> 'z world_scheme \<Rightarrow> bool" where
  "same_contents s t \<longleftrightarrow>
     graph s = graph t \<and> tombs s = tombs t \<and> reviews s = reviews t \<and> snapshots s = snapshots t"

interpretation same_contents: world_order same_contents
  by unfold_locales (simp_all add: same_contents_def)

lemma poll_known:
  assumes "roster_keys_of items \<subseteq> snapshot_keys s (wt_case c)"
  shows "same_contents s (snd (poll_parties w idx c n items s))"
proof -
  let ?count = "\<lambda>s. s\<lparr>dj_cases_polled := dj_cases_polled s + 1, dj_parties_seen := dj_parties_seen s + length (roster_from_items items)\<rparr>"
  let ?rest = "\<lambda>ks. let delta = roster_delta (roster_from_items items) ks in
    seqR (modR (\<lambda>s. s\<lparr>dj_parties_new := dj_parties_new s + length delta\<rparr>))
      (seqR (forR (process_party w idx c n) delta)
        (if do_dry w then ret () else bindR (getR wall) (\<lambda>now. update_djen_polled_at (wt_case c) now)))"
  have "moves same_contents (update_djen_polled_at (wt_case c) now)" for now
    unfolding update_djen_polled_at_def update_watch_def
    by (rule same_contents.sql) (simp add: same_contents_def)
  then have rest: "moves same_contents (?rest ks)" if "roster_delta (roster_from_items items) ks = []" for ks
    unfolding that forR.simps Let_def
    by (intro same_contents.seqR same_contents.bindR moves_if same_contents.ret same_contents.getR same_contents.modR)
      (simp_all add: same_contents_def)
  have "same_contents s (snd (bindR (modR ?count) (\<lambda>_. bindR (list_djen_snapshot_keys (wt_case c)) ?rest) s))"
  proof (rule same_contents.bindR_at)
    show "same_contents s (snd (modR ?count s))" by (simp add: modR_def same_contents_def)
    fix x s1 assume "modR ?count s = (Inr x, s1)"
    then have 1: "snapshots s1 = snapshots s" by (auto simp: modR_def)
    show "same_contents s1 (snd (bindR (list_djen_snapshot_keys (wt_case c)) ?rest s1))"
    proof (rule same_contents.bindR_at)
      show "same_contents s1 (snd (list_djen_snapshot_keys (wt_case c) s1))"
        by (rule movesD, rule same_contents.case_reads)
      fix ks s2 assume "list_djen_snapshot_keys (wt_case c) s1 = (Inr ks, s2)"
      from listed_keys [OF this] 1 assms have "roster_delta (roster_from_items items) ks = []"
        by (auto simp: roster_delta_def snapshot_keys_def filter_empty_conv)
      from movesD [OF rest [OF this]] show "same_contents s2 (snd (?rest ks s2))" .
    qed
  qed
  then show ?thesis by (simp add: poll_parties_def seqR_def Let_def)
qed

section \<open>Rematching\<close>

lemma rematch_payload_pair:
  "is_party_match pid' lp' \<lparr>rv_id = i, rv_type = ty, rv_payload = rematch_payload p pid, rv_worker = w, rv_status = st, rv_by = b\<rparr>
     \<Longrightarrow> (pid', lp') = (pid, cp_proceeding p)"
  by (auto simp: is_party_match_def json_text_def rematch_payload_def)

interpretation match_once: world_order party_match.stays_once
  by (rule party_match.order)

lemma match_ask: "has_party_match_review pid lp = party_match.ask (pid, lp)"
  by (simp add: has_party_match_review_def party_match.ask_def)

lemma rematch_once: "moves party_match.stays_once (run_rematch_mode w idx)"
proof -
  have stat: "moves party_match.stays_once (modR f)" if "\<And>s. reviews (f s) = reviews s" for f :: "djen_state \<Rightarrow> djen_state"
    by (rule match_once.modR) (rule party_match.same_reviews, simp add: that)
  have "party_match.stays_once s (snd (bindR (has_party_match_review pid (cp_proceeding p)) (\<lambda>exists.
      if exists then modR (\<lambda>s. s\<lparr>dj_existing := dj_existing s + 1\<rparr>)
      else seqR count_hit (if do_dry w then ret ()
        else seqR (create_pending_review ''djen_party_match'' (rematch_payload p pid) djen_worker) count_pending)) s))"
    for s pid p
    unfolding match_ask
  proof (rule guard.guarded [OF party_match.guarded, where R = party_match.stays_once], erule (1) match_once.trans)
    show "party_match.stays_once s (snd (party_match.ask (pid, cp_proceeding p) s))" for s :: djen_state
      by (rule movesD) (simp add: party_match.ask_def match_once.sql_read)
    show "party_match.stays_once s (snd (modR (\<lambda>s. s\<lparr>dj_existing := dj_existing s + 1\<rparr>) s))" for s :: djen_state
      by (rule movesD, rule stat) simp
    fix s :: djen_state
    assume none: "\<not> (\<exists>r \<in> set (reviews s). (case (pid, cp_proceeding p) of (pid, lp) \<Rightarrow> is_party_match pid lp) r)"
    show "party_match.stays_once s (snd (seqR count_hit (if do_dry w then ret ()
        else seqR (create_pending_review ''djen_party_match'' (rematch_payload p pid) djen_worker) count_pending) s))"
      unfolding seqR_def count_hit_def count_pending_def
    proof (rule match_once.bindR_at)
      show "party_match.stays_once s (snd (modR (\<lambda>s. s\<lparr>dj_politician_hits := dj_politician_hits s + 1\<rparr>) s))"
        by (rule movesD, rule stat) simp
      fix x t assume "modR (\<lambda>s. s\<lparr>dj_politician_hits := dj_politician_hits s + 1\<rparr>) s = (Inr x, t)"
      then have none': "\<not> (\<exists>r \<in> set (reviews t). (case (pid, cp_proceeding p) of (pid, lp) \<Rightarrow> is_party_match pid lp) r)"
        using none by (auto simp: modR_def)
      have "party_match.stays_once t (snd (create_pending_review ''djen_party_match'' (rematch_payload p pid) djen_worker t))"
        by (rule party_match.filing [where k = "(pid, cp_proceeding p)"], rule none') (auto dest: rematch_payload_pair)
      then have "party_match.stays_once t (snd (bindR (create_pending_review ''djen_party_match'' (rematch_payload p pid) djen_worker)
          (\<lambda>_. modR (\<lambda>s. s\<lparr>dj_pending := dj_pending s + 1\<rparr>)) t))"
        by (rule match_once.bindR_at) (rule movesD, rule stat, simp)
      then show "party_match.stays_once t (snd ((if do_dry w then ret ()
          else bindR (create_pending_review ''djen_party_match'' (rematch_payload p pid) djen_worker)
            (\<lambda>_. modR (\<lambda>s. s\<lparr>dj_pending := dj_pending s + 1\<rparr>))) t))"
        by (simp add: ret_def)
    qed
  qed
  then have "moves party_match.stays_once (rematch_one w idx p)" for p
    unfolding rematch_one_def by (intro moves_option match_once.ret movesI)
  then show ?thesis
    unfolding run_rematch_mode_def
    by (intro match_once.bindR match_once.case_reads match_once.seqR match_once.forR stat) simp_all
qed

section \<open>Discovering cases\<close>

definition same_watches :: "'z world_scheme \<Rightarrow> 'z world_scheme \<Rightarrow> bool" where
  "same_watches s t \<longleftrightarrow> watches s = watches t"

interpretation same_watches: world_order same_watches
  by unfold_locales (simp_all add: same_watches_def)

lemma upsert_proceeding_watches: "watches (snd (upsert_legal_proceeding_by_case u s)) = watches s"
proof -
  have "moves same_watches (upsert_legal_proceeding_by_case u)"
    by (rule same_watches.upsert_legal_proceeding, rule same_watches.cypher) (simp add: same_watches_def)
  from movesD [OF this, of s] show ?thesis by (simp add: same_watches_def)
qed

definition discovered :: "gostr \<Rightarrow> item list \<Rightarrow> gostr \<Rightarrow> watch" where
  "discovered c its lp =
     \<lparr>wt_case = c, wt_endpoint = endpoint_for_group its, wt_scandal = [], wt_proceeding = lp, wt_movement = None,
      wt_status = ''active'', wt_added_by = djen_worker, wt_polled = None, wt_djen_polled = None\<rparr>"

definition registers :: "gostr \<Rightarrow> item list \<Rightarrow> djen_state \<Rightarrow> djen_state \<Rightarrow> bool" where
  "registers c its s t \<longleftrightarrow>
     watches t = watches s \<or>
     (length c = 20 \<and> endpoint_for_group its \<noteq> [] \<and> (\<exists>lp. watches t = watches s @ [discovered c its lp]))"

lemma register_registers: "registers c its s (snd (register_discovered_case c its s))"
proof -
  have insert: "watches (snd (upsert_watcher_case c (endpoint_for_group its) [] lp djen_worker t)) = watches t \<or>
      watches (snd (upsert_watcher_case c (endpoint_for_group its) [] lp djen_worker t)) = watches t @ [discovered c its lp]"
    for lp and t :: djen_state
    by (auto simp: upsert_watcher_case_def sql_def db_call_def modR_def discovered_def split: list.splits fault.splits)
  obtain r t where u: "upsert_legal_proceeding_by_case (bare_case c) s = (r, t)" by fastforce
  then have t: "watches t = watches s"
    using upsert_proceeding_watches [of "bare_case c" s] by simp
  show ?thesis
  proof (cases r)
    case (Inr lp)
    obtain x t' where w: "upsert_watcher_case c (endpoint_for_group its) [] lp djen_worker t = (x, t')" by fastforce
    with insert [of lp t] t have "watches t' = watches s \<or> watches t' = watches s @ [discovered c its lp]" by simp
    then show ?thesis
      by (cases x) (auto simp: register_discovered_case_def Let_def bindR_def seqR_def u Inr w registers_def ret_def)
  qed (simp add: register_discovered_case_def Let_def bindR_def u t registers_def ret_def)
qed

section \<open>Properties\<close>

text \<open>C13: no run of the gazette worker brings a purged person or company back: every node it leaves is a
  node that was there, with the same documents and a name that is either unchanged or covered by no
  tombstone, or has an identity no tombstone covers. This holds whatever the gazette answers and
  wherever a connection breaks.\<close>

theorem djen_resurrects_nobody: "no_revival s (snd (run_djen e w s))"
  by (rule movesD) (rule rev.run)

text \<open>C27: the gazette worker never claims more than that a party was cited: after any run every
  \<^verbatim>\<open>DEFENDANT_IN\<close> relationship has the outcome it had, or says \<^verbatim>\<open>cited\<close> of a name-only node of the worker's
  own making, and no node is lost.\<close>

theorem djen_claims_only_cited: "cited_only s (snd (run_djen e w s))"
  by (rule movesD) (rule cite.run)

text \<open>The worker writes no other node than its own: politicians, scandals, sanctions and proceedings that
  were there stay exactly as they were, as do all relationships but \<^verbatim>\<open>DEFENDANT_IN\<close>, the tombstones and the
  aliases; what it adds are name-only nodes and bare proceedings.\<close>

theorem djen_writes_own_nodes: "own_nodes_only s (snd (run_djen e w s))"
  by (rule movesD) (rule frame.run)

text \<open>A run keeps the graph well-formed, with unique ids.\<close>

theorem djen_keeps_graph_wf: "keeps_wf s (snd (run_djen e w s))"
  by (rule movesD) (rule wf_run.run)

text \<open>A dry run of any mode leaves the graph and every table as they were.\<close>

theorem djen_dry_run:
  assumes "do_dry w" shows "same_stores s (snd (run_djen e w s))"
  by (rule movesD) (rule dry_djen [OF assms])

definition idle_djen :: djen_state where
  "idle_djen = world.extend empty_world
     \<lparr>dj_client = new_client [] 0 None, dj_cases_loaded = 0, dj_cases_polled = 0, dj_parties_seen = 0,
      dj_parties_new = 0, dj_politician_hits = 0, dj_persons_linked = 0, dj_orgs_linked = 0, dj_names_searched = 0,
      dj_candidates = 0, dj_registered = 0, dj_unregistrable = 0, dj_tracked = 0, dj_existing = 0, dj_class = 0,
      dj_not_party = 0, dj_tombstoned = 0, dj_pending = 0, dj_rematched = 0, dj_fetch_errors = 0,
      dj_skipped_records = 0\<rparr>"

definition live_options :: djen_options where
  "live_options = \<lparr>do_case = True, do_name = False, do_rematch = True, do_dry = False, do_cap = 0, do_limit = 0\<rparr>"

definition quiet_env :: djen_env where
  "quiet_env = \<lparr>en_api = \<lparr>dj_url_ok = (\<lambda>_. True), dj_server = (\<lambda>_ _. (0, Dropped))\<rparr>,
     en_fuel = 1, en_today = \<lparr>ca_year = 2024, ca_month = 1, ca_day = 1\<rparr>, en_order = (\<lambda>ks. ks), en_schedule = (\<lambda>js. js)\<rparr>"

theorem djen_dry_run_witness:
  "same_stores idle_djen (snd (run_djen quiet_env (live_options\<lparr>do_dry := True\<rparr>) idle_djen))"
  by (rule djen_dry_run) simp

text \<open>The rematch files at most one review per pair of politician and proceeding: where the queue held
  at most one \<^verbatim>\<open>djen_party_match\<close> per pair, decided or not, it still does.\<close>

theorem rematch_files_once:
  assumes "is_once (\<lambda>(pid, lp). is_party_match pid lp) s"
  shows "is_once (\<lambda>(pid, lp). is_party_match pid lp) (snd (run_rematch_mode w idx s))"
  using movesD [OF rematch_once, of s w idx] assms by (simp add: party_match.stays_once_def)

theorem rematch_files_once_witness:
  "is_once (\<lambda>(pid, lp). is_party_match pid lp) (snd (run_rematch_mode live_options (\<lambda>_. None) idle_djen))"
  by (rule rematch_files_once) (simp add: is_once_def idle_djen_def world.extend_def empty_world_def)

text \<open>Polling is idempotent: once a poll of a case succeeded, polling the same publications again changes
  neither the graph nor the review queue nor the snapshot, whatever fails.\<close>

theorem polling_twice_adds_nothing:
  assumes "\<not> do_dry w" and "poll_parties w idx c n items s = (Inr u, t)"
  shows "same_contents t (snd (poll_parties w idx c n items t))"
  using poll_known [OF poll_records [OF assms]] .

definition ana_item :: item where
  "ana_item = (numbered 0)\<lparr>it_destinatarios := [\<lparr>de_nome = lit ''Ana Lima'', de_polo = lit ''P'', de_comunicacao = 7\<rparr>]\<rparr>"

definition ana_case :: watch where
  "ana_case = \<lparr>wt_case = lit ''1'', wt_endpoint = [], wt_scandal = [], wt_proceeding = lit ''lp_1'', wt_movement = None,
     wt_status = ''active'', wt_added_by = ''djen'', wt_polled = None, wt_djen_polled = None\<rparr>"

theorem polling_twice_adds_nothing_witness:
  "\<exists>t. poll_parties live_options (\<lambda>_. None) ana_case (lit ''1'') [ana_item] idle_djen = (Inr (), t) \<and>
     same_contents t (snd (poll_parties live_options (\<lambda>_. None) ana_case (lit ''1'') [ana_item] t))"
proof -
  let ?m = "poll_parties live_options (\<lambda>_. None) ana_case (lit ''1'') [ana_item]"
  have "fst (?m idle_djen) = Inr ()" by code_simp
  then have ok: "?m idle_djen = (Inr (), snd (?m idle_djen))" by (metis prod.collapse)
  have "same_contents (snd (?m idle_djen)) (snd (?m (snd (?m idle_djen))))"
    by (rule polling_twice_adds_nothing [OF _ ok]) (simp add: live_options_def)
  with ok show ?thesis by blast
qed

text \<open>Name mode starts to watch a case only if a publication of it names the politician as a party, one
  of its publications has a criminal or improbity class, the case is not watched yet in any spelling,
  and its number has twenty digits and a tribunal; nothing else of the watch list changes.\<close>

theorem name_group_registers:
  "let t = snd (name_group w name (c, its) s); digits = normalize_case_number c in
   watches t = watches s \<or>
   (\<exists>lp. watches t = watches s @ [discovered digits its lp] \<and> \<not> do_dry w \<and> group_names_party its name \<and>
      group_has_allowed_class its \<and> digits \<notin> (digits_only \<circ> wt_case) ` set (watches s) \<and>
      length digits = 20 \<and> endpoint_for_group its \<noteq> [])"
proof -
  let ?d = "normalize_case_number c"
  have frame: "watches (snd (seqR m (modR f) s)) = watches (snd (m s))"
    if "\<And>s. watches (f s) = watches s" for m :: "(djen_state, unit) prog" and f s
    by (auto simp: seqR_def bindR_def modR_def that split: prod.splits sum.splits)
  have counted: "watches (snd (bindR m count_registered s)) = watches (snd (m s))" for m s
    by (auto simp: bindR_def count_registered_def modR_def split: prod.splits sum.splits)
  have register: "watches (snd (seqR (if do_dry w then ret () else bindR (register_discovered_case ?d its) count_registered)
      (modR (\<lambda>s. s\<lparr>dj_candidates := dj_candidates s + 1\<rparr>)) u)) = watches u \<or>
      (\<not> do_dry w \<and> length ?d = 20 \<and> endpoint_for_group its \<noteq> [] \<and>
       (\<exists>lp. watches (snd (seqR (if do_dry w then ret () else bindR (register_discovered_case ?d its) count_registered)
      (modR (\<lambda>s. s\<lparr>dj_candidates := dj_candidates s + 1\<rparr>)) u)) = watches u @ [discovered ?d its lp]))" for u
    using register_registers [of ?d its u] unfolding registers_def
    by (subst (1 2) frame, simp, simp) (auto simp: counted ret_def)
  obtain r u where t: "is_case_tracked ?d s = (r, u)" by fastforce
  then have u: "watches u = watches s" "r = Inr False \<Longrightarrow> ?d \<notin> (digits_only \<circ> wt_case) ` set (watches s)"
    using sql_read_cases [of "\<lambda>s. \<exists>w \<in> set (watches s). digits_only (wt_case w) = ?d" s]
    by (auto simp: is_case_tracked_def image_iff)
  show ?thesis
    using register [of u] u
    by (auto simp: name_group_def Let_def bindR_def t modR_def split: sum.split)
qed

text \<open>The upsert of a cited party writes over the outcome a person recorded: the relationship then says
  \<^verbatim>\<open>cited\<close> while its \<^verbatim>\<open>outcome_source\<close>, evidence and author still are the human's.\<close>

theorem citing_overwrites_outcome:
  assumes "ensure_djen_defendant_edge nt nid lp outcome s = (Inr u, t)"
    and "e \<in> set (g_edges (graph s))" and "e_type e = ''DEFENDANT_IN''"
    and "(e_from e, e_to e) \<in> set (defendant_pairs nt nid lp (graph s))"
  shows "e\<lparr>e_props := (e_props e)(''outcome'' \<mapsto> PStr outcome, ''source'' \<mapsto> PStr (lit ''djen''))\<rparr> \<in> set (g_edges (graph t))"
proof -
  let ?f = "set_props [(''outcome'', Some (PStr outcome)), (''source'', Some (PStr (lit ''djen'')))]"
  have "graph t = merge_edges (defendant_pairs nt nid lp (graph s)) ''DEFENDANT_IN'' [] ?f (graph s)"
    using cypher_result [OF assms(1) [unfolded ensure_djen_defendant_edge_def]] by simp
  moreover have "?f (?f p) = ?f p" for p by auto
  ultimately show ?thesis
    using merge_edges_updates [of ?f e "graph s" "''DEFENDANT_IN''" "defendant_pairs nt nid lp (graph s)" "[]"] assms
    by simp
qed

definition judged :: djen_state where
  "judged = idle_djen\<lparr>graph :=
     \<lparr>g_nodes = [\<lparr>n_key = 0, n_labels = [''Person''], n_props = [''id'' \<mapsto> PStr (lit ''person_djen_ana'')]\<rparr>,
                 \<lparr>n_key = 1, n_labels = [''LegalProceeding''], n_props = [''id'' \<mapsto> PStr (lit ''lp_1'')]\<rparr>],
      g_edges = [\<lparr>e_from = 0, e_type = ''DEFENDANT_IN'', e_to = 1,
         e_props = [''outcome'' \<mapsto> PStr (lit ''convicted''), ''outcome_source'' \<mapsto> PStr (lit ''human'')]\<rparr>],
      g_next = 2\<rparr>\<rparr>"

theorem citing_overwrites_outcome_witness:
  "\<exists>e \<in> set (g_edges (graph (snd (ensure_djen_defendant_edge ''Person'' (lit ''person_djen_ana'') (lit ''lp_1'') (lit ''cited'') judged)))).
     e_props e ''outcome'' = Some (PStr (lit ''cited'')) \<and> e_props e ''outcome_source'' = Some (PStr (lit ''human''))"
proof -
  let ?e = "\<lparr>e_from = 0, e_type = ''DEFENDANT_IN'', e_to = 1,
    e_props = [''outcome'' \<mapsto> PStr (lit ''convicted''), ''outcome_source'' \<mapsto> PStr (lit ''human'')]\<rparr> :: edge"
  let ?m = "ensure_djen_defendant_edge ''Person'' (lit ''person_djen_ana'') (lit ''lp_1'') (lit ''cited'') :: (djen_state, unit) prog"
  have m: "(0, 1) \<in> set (defendant_pairs ''Person'' (lit ''person_djen_ana'') (lit ''lp_1'') (graph judged))"
    by (simp add: judged_def defendant_pairs_def node_pairs_def match_nodes_def has_label_def prop_is_def)
  have "fst (?m judged) = Inr ()"
    by (simp add: ensure_djen_defendant_edge_def cypher_def db_call_def run_cypher_def judged_def idle_djen_def
        world.extend_def empty_world_def ids_unique_def id_clash_def)
  then have ok: "?m judged = (Inr (), snd (?m judged))" by (metis prod.collapse)
  have "?e\<lparr>e_props := (e_props ?e)(''outcome'' \<mapsto> PStr (lit ''cited''), ''source'' \<mapsto> PStr (lit ''djen''))\<rparr>
      \<in> set (g_edges (graph (snd (?m judged))))"
    by (rule citing_overwrites_outcome [OF ok]) (use m in \<open>simp_all add: judged_def\<close>)
  then show ?thesis by (rule bexI [rotated]) simp
qed

text \<open>A successful poll leaves every party of the roster in the snapshot of the case, under its name, whether or
  not a tombstone covers it: a purged name comes back into \<^verbatim>\<open>djen_party_snapshot\<close> with the next poll.\<close>

theorem poll_records_roster:
  assumes "\<not> do_dry w" and "poll_parties w idx c n items s = (Inr u, t)"
  shows "(\<lambda>p. party_key (pa_nome p) (pa_polo p)) ` set (roster_from_items items) \<subseteq>
    sn_key ` {x \<in> set (snapshots t). sn_case x = wt_case c}"
  using poll_records [OF assms] by (simp add: snapshot_keys_def)

definition purged_djen :: djen_state where
  "purged_djen = idle_djen\<lparr>tombs := [\<lparr>tb_key = tombstone_key_name (lit ''ANA LIMA''), tb_node = [], tb_removal = None\<rparr>]\<rparr>"

theorem poll_records_roster_witness:
  "\<exists>t. poll_parties live_options (\<lambda>_. None) ana_case (lit ''1'') [ana_item] purged_djen = (Inr (), t) \<and>
     party_key (lit ''Ana Lima'') (lit ''P'') \<in> sn_key ` set (snapshots t) \<and>
     buried purged_djen (tombstone_key_name (lit ''Ana Lima''))"
proof -
  let ?m = "poll_parties live_options (\<lambda>_. None) ana_case (lit ''1'') [ana_item]"
  have "fst (?m purged_djen) = Inr ()" by code_simp
  then have ok: "?m purged_djen = (Inr (), snd (?m purged_djen))" by (metis prod.collapse)
  have r: "(\<lambda>p. party_key (pa_nome p) (pa_polo p)) ` set (roster_from_items [ana_item]) =
      {party_key (lit ''Ana Lima'') (lit ''P'')}" by code_simp
  have "tombstone_key_name (lit ''ANA LIMA'') = tombstone_key_name (lit ''Ana Lima'')" by code_simp
  then have b: "buried purged_djen (tombstone_key_name (lit ''Ana Lima''))"
    by (simp add: buried_def purged_djen_def)
  have "party_key (lit ''Ana Lima'') (lit ''P'') \<in> sn_key ` {x \<in> set (snapshots (snd (?m purged_djen))). sn_case x = wt_case ana_case}"
    using poll_records_roster [OF _ ok] unfolding r by (simp add: live_options_def)
  with ok b show ?thesis by blast
qed

end
