(* ===== verification/GoSort.thy ===== *)
theory GoSort
  imports Main "HOL-Library.Multiset"
begin

text \<open>
  Go's \<^verbatim>\<open>sort.SliceStable\<close> as the standard library runs it: blocks of twenty elements sorted by
  insertion, then merged in place, two neighbours at a time, by \<^verbatim>\<open>symMerge\<close>. What the algorithm does with
  a comparison that is not an order is part of the model. On a comparison by key the result is the
  one stable arrangement, which \<open>slice_stable\<close>, an insertion sort of the whole list, gives as well; the
  latter is what the model takes for the \<^verbatim>\<open>ORDER BY\<close> of the databases, with the order in which the engine
  meets the rows as a parameter.
\<close>

section \<open>Insertion\<close>

text \<open>One pass of the insertion sort, on the sorted part read from its end.\<close>

fun sift :: "('a \<Rightarrow> 'a \<Rightarrow> bool) \<Rightarrow> 'a \<Rightarrow> 'a list \<Rightarrow> 'a list" where
  "sift lt x [] = [x]"
| "sift lt x (y # ys) = (if lt x y then y # sift lt x ys else x # y # ys)"

definition slice_stable :: "('a \<Rightarrow> 'a \<Rightarrow> bool) \<Rightarrow> 'a list \<Rightarrow> 'a list" where
  "slice_stable lt xs = rev (foldl (\<lambda>acc x. sift lt x acc) [] xs)"

lemma mset_sift: "mset (sift lt x ys) = add_mset x (mset ys)"
  by (induction ys) auto

lemma mset_slice: "mset (slice_stable lt xs) = mset xs"
proof -
  have "mset (foldl (\<lambda>acc x. sift lt x acc) ys xs) = mset ys + mset xs" for ys
    by (induction xs arbitrary: ys) (simp_all add: mset_sift)
  then show ?thesis by (simp add: slice_stable_def)
qed

lemma set_sift: "set (sift lt x ys) = insert x (set ys)"
  by (induction ys) auto

lemma set_slice [simp]: "set (slice_stable lt xs) = set xs"
  using mset_slice [of lt xs] by (metis set_mset_mset)

section \<open>Symmetric merge\<close>

text \<open>The least index from \<open>i\<close> on where the search stops; every \<^verbatim>\<open>for i < j\<close> of \<^verbatim>\<open>symMerge\<close> is one.\<close>

function bsearch :: "(nat \<Rightarrow> bool) \<Rightarrow> nat \<Rightarrow> nat \<Rightarrow> nat" where
  "bsearch P i j =
     (if i < j then (let h = (i + j) div 2 in if P h then bsearch P (h + 1) j else bsearch P i h) else i)"
  by pat_completeness auto
termination by (relation "measure (\<lambda>(P, i, j). j - i)") auto

declare bsearch.simps [simp del]

text \<open>
  \<^verbatim>\<open>symMerge(a, m, b)\<close> on the two runs \<open>us = data[a:m]\<close> and \<open>vs = data[m:b]\<close>, with indices counted from \<open>a\<close>. Where
  the code rotates, the runs change places; where one part is empty it neither rotates nor recurs.
\<close>

definition merge_start :: "('a \<Rightarrow> 'a \<Rightarrow> bool) \<Rightarrow> 'a list \<Rightarrow> 'a list \<Rightarrow> nat" where
  "merge_start lt us vs =
     (let data = us @ vs; m = length us; b = length us + length vs; mid = b div 2; n = mid + m; p = n - 1;
          (start, r) = (if mid < m then (n - b, mid) else (0, m))
      in bsearch (\<lambda>c. \<not> lt (data ! (p - c)) (data ! c)) start r)"

function sym_merge :: "('a \<Rightarrow> 'a \<Rightarrow> bool) \<Rightarrow> 'a list \<Rightarrow> 'a list \<Rightarrow> 'a list" where
  "sym_merge lt us vs =
     (if length us = 1 then
        (let i = bsearch (\<lambda>h. lt (vs ! h) (hd us)) 0 (length vs) in take i vs @ hd us # drop i vs)
      else if length vs = 1 then
        (let i = bsearch (\<lambda>h. \<not> lt (hd vs) (us ! h)) 0 (length us) in take i us @ hd vs # drop i us)
      else
        (let m = length us; b = length us + length vs; mid = b div 2; start = merge_start lt us vs;
             stop = mid + m - start;
             us1 = take start us; us2 = drop start us; vs1 = take (stop - m) vs; vs2 = drop (stop - m) vs
         in (if 0 < start \<and> start < mid then sym_merge lt us1 vs1 else us1 @ vs1) @
            (if mid < stop \<and> stop < b then sym_merge lt us2 vs2 else us2 @ vs2)))"
  by pat_completeness auto
termination
proof (relation "measure (\<lambda>(lt, us, vs). length us + length vs)", goal_cases)
  case 1
  show ?case by simp
next
  case (2 lt us vs)
  then show ?case by (auto simp: min_def)
next
  case (3 lt us vs)
  then show ?case by (cases "length us"; cases "length vs") auto
qed

declare sym_merge.simps [simp del]

text \<open>The blocks and the passes over them; a last block without a neighbour waits for the next pass.\<close>

function blocks_of :: "nat \<Rightarrow> 'a list \<Rightarrow> 'a list list" where
  "blocks_of n xs = (if n = 0 \<or> length xs \<le> n then [xs] else take n xs # blocks_of n (drop n xs))"
  by pat_completeness auto
termination by (relation "measure (\<lambda>(n, xs). length xs)") auto

declare blocks_of.simps [simp del]

fun merge_pass :: "('a \<Rightarrow> 'a \<Rightarrow> bool) \<Rightarrow> 'a list list \<Rightarrow> 'a list list" where
  "merge_pass lt (us # vs # rest) = sym_merge lt us vs # merge_pass lt rest"
| "merge_pass lt bs = bs"

lemma length_merge_pass: "length (merge_pass lt bs) = (length bs + 1) div 2"
  by (induction lt bs rule: merge_pass.induct) auto

function merge_passes :: "('a \<Rightarrow> 'a \<Rightarrow> bool) \<Rightarrow> 'a list list \<Rightarrow> 'a list" where
  "merge_passes lt bs = (if length bs \<le> 1 then concat bs else merge_passes lt (merge_pass lt bs))"
  by pat_completeness auto
termination by (relation "measure (\<lambda>(lt, bs). length bs)") (auto simp: length_merge_pass)

declare merge_passes.simps [simp del]

definition go_stable :: "('a \<Rightarrow> 'a \<Rightarrow> bool) \<Rightarrow> 'a list \<Rightarrow> 'a list" where
  "go_stable lt xs = merge_passes lt (List.map (slice_stable lt) (blocks_of 20 xs))"

section \<open>Nothing is lost\<close>

lemma mset_sym_merge: "mset (sym_merge lt us vs) = mset us + mset vs"
proof (induction lt us vs rule: sym_merge.induct)
  case (1 lt us vs)
  have cut: "mset (take i xs) + mset (drop i xs) = mset xs" for i and xs :: "'a list"
    by (metis append_take_drop_id mset_append)
  have cross: "A + C = U \<Longrightarrow> B + D = V \<Longrightarrow> A + B + (C + D) = U + V" for A B C D U V :: "'a multiset"
    by (auto simp: ac_simps)
  show ?case
  proof (cases "length us = 1 \<or> length vs = 1")
    case True
    then show ?thesis
      using cut by (subst sym_merge.simps) (auto simp: Let_def length_Suc_conv ac_simps)
  next
    case False
    let ?s = "merge_start lt us vs" and ?mid = "(length us + length vs) div 2"
    let ?k = "?mid + length us - ?s - length us"
    have l: "mset (if 0 < ?s \<and> ?s < ?mid then sym_merge lt (take ?s us) (take ?k vs) else take ?s us @ take ?k vs) =
        mset (take ?s us) + mset (take ?k vs)"
      using "1.IH"(1) [OF _ _ refl refl refl refl refl refl refl refl refl] False by auto
    have r: "mset (if ?mid < ?mid + length us - ?s \<and> ?mid + length us - ?s < length us + length vs
          then sym_merge lt (drop ?s us) (drop ?k vs) else drop ?s us @ drop ?k vs) =
        mset (drop ?s us) + mset (drop ?k vs)"
      using "1.IH"(2) [OF _ _ refl refl refl refl refl refl refl refl refl] False by auto
    have "mset (take ?s us) + mset (take ?k vs) + (mset (drop ?s us) + mset (drop ?k vs)) = mset us + mset vs"
      by (rule cross) (rule cut)+
    with l r show ?thesis using False by (subst sym_merge.simps) (simp add: Let_def)
  qed
qed

lemma concat_blocks: "concat (blocks_of n xs) = xs"
  by (induction n xs rule: blocks_of.induct) (subst blocks_of.simps, simp)

lemma mset_merge_pass: "mset (concat (merge_pass lt bs)) = mset (concat bs)"
  by (induction lt bs rule: merge_pass.induct) (simp_all add: mset_sym_merge ac_simps)

lemma mset_merge_passes: "mset (merge_passes lt bs) = mset (concat bs)"
  by (induction lt bs rule: merge_passes.induct) (subst merge_passes.simps, simp add: mset_merge_pass)

lemma mset_go_stable: "mset (go_stable lt xs) = mset xs"
proof -
  have "mset (concat (List.map (slice_stable lt) bs)) = mset (concat bs)" for bs
    by (induction bs) (simp_all add: mset_slice)
  then show ?thesis by (simp add: go_stable_def mset_merge_passes concat_blocks)
qed

lemma set_go_stable [simp]: "set (go_stable lt xs) = set xs"
  using mset_go_stable [of lt xs] by (metis set_mset_mset)

text \<open>Up to twenty elements it is the insertion sort.\<close>

lemma go_stable_short: "length xs \<le> 20 \<Longrightarrow> go_stable lt xs = slice_stable lt xs"
  by (simp add: go_stable_def blocks_of.simps merge_passes.simps)

section \<open>By a key\<close>

text \<open>Sorted by the key, with elements of equal key in the order given.\<close>

definition in_key_order :: "('a \<Rightarrow> int) \<Rightarrow> 'a list \<Rightarrow> bool" where
  "in_key_order key xs \<longleftrightarrow> sorted_wrt (\<lambda>a b. key a \<le> key b) xs"

definition arranged :: "('a \<Rightarrow> int) \<Rightarrow> 'a list \<Rightarrow> 'a list \<Rightarrow> bool" where
  "arranged key xs ys \<longleftrightarrow> in_key_order key ys \<and> (\<forall>k. filter (\<lambda>a. key a = k) ys = filter (\<lambda>a. key a = k) xs)"

definition by_key :: "('a \<Rightarrow> 'a \<Rightarrow> bool) \<Rightarrow> ('a \<Rightarrow> int) \<Rightarrow> 'a set \<Rightarrow> bool" where
  "by_key lt key A \<longleftrightarrow> (\<forall>a \<in> A. \<forall>b \<in> A. lt a b \<longleftrightarrow> key a < key b)"

lemma by_keyD: "by_key lt key A \<Longrightarrow> a \<in> A \<Longrightarrow> b \<in> A \<Longrightarrow> lt a b \<longleftrightarrow> key a < key b"
  by (simp add: by_key_def)

lemma by_key_mono: "by_key lt key A \<Longrightarrow> B \<subseteq> A \<Longrightarrow> by_key lt key B"
  by (auto simp: by_key_def)

lemma arranged_set: "arranged key xs ys \<Longrightarrow> set ys = set xs"
proof -
  assume a: "arranged key xs ys"
  have "x \<in> set ys \<longleftrightarrow> x \<in> set (filter (\<lambda>a. key a = key x) ys)" for x ys by simp
  with a show ?thesis by (metis arranged_def subsetI subset_antisym)
qed

lemma arranged_unique: "arranged key xs ys \<Longrightarrow> arranged key xs zs \<Longrightarrow> ys = zs"
proof (induction ys arbitrary: xs zs)
  case Nil
  from arranged_set [OF Nil(1)] arranged_set [OF Nil(2)] have "set zs = {}" by simp
  then show ?case by simp
next
  case (Cons y ys)
  have sets: "set zs = set (y # ys)" using Cons.prems arranged_set by metis
  then obtain z zs' where zs: "zs = z # zs'" by (cases zs) auto
  have "key z \<le> key y" "key y \<le> key z"
    using Cons.prems sets unfolding zs arranged_def in_key_order_def by auto
  then have k: "key z = key y" by simp
  from Cons.prems have f: "filter (\<lambda>a. key a = j) (y # ys) = filter (\<lambda>a. key a = j) (z # zs')" for j
    unfolding zs arranged_def by simp
  from f [of "key y"] k have zy: "z = y" by simp
  have "filter (\<lambda>a. key a = j) ys = filter (\<lambda>a. key a = j) zs'" for j
    using f [of j] zy by (auto split: if_splits)
  with Cons.prems have "arranged key ys ys" "arranged key ys zs'"
    unfolding zs arranged_def in_key_order_def by auto
  from Cons.IH [OF this] zy zs show ?case by simp
qed

lemma arranged_append:
  assumes "arranged key xs ys" and "arranged key xs' ys'" and "\<And>a b. a \<in> set xs \<Longrightarrow> b \<in> set xs' \<Longrightarrow> key a \<le> key b"
  shows "arranged key (xs @ xs') (ys @ ys')"
  using assms(1,2) arranged_set [OF assms(1)] arranged_set [OF assms(2)] assms(3)
  by (simp add: arranged_def in_key_order_def sorted_wrt_append)

text \<open>The insertion sort.\<close>

lemma sift_sorted:
  assumes "by_key lt key (insert x (set ys))" and "sorted_wrt (\<lambda>a b. key b \<le> key a) ys"
  shows "sorted_wrt (\<lambda>a b. key b \<le> key a) (sift lt x ys)"
  using assms
proof (induction ys)
  case (Cons y ys)
  have "by_key lt key (insert x (set ys))" by (rule by_key_mono [OF Cons.prems(1)]) auto
  with Cons show ?case by (fastforce simp: set_sift by_keyD)
qed simp

lemma sift_filter:
  assumes "by_key lt key (insert x (set ys))" and "sorted_wrt (\<lambda>a b. key b \<le> key a) ys"
  shows "filter (\<lambda>a. key a = k) (sift lt x ys) = filter (\<lambda>a. key a = k) (x # ys)"
  using assms
proof (induction ys)
  case (Cons y ys)
  have "by_key lt key (insert x (set ys))" by (rule by_key_mono [OF Cons.prems(1)]) auto
  with Cons show ?case by (auto simp: by_keyD)
qed simp

lemma slice_arranged:
  assumes "by_key lt key (set xs)"
  shows "arranged key xs (slice_stable lt xs)"
proof -
  let ?f = "\<lambda>ys xs. foldl (\<lambda>acc x. sift lt x acc) ys xs"
  have "sorted_wrt (\<lambda>a b. key b \<le> key a) (?f ys xs) \<and>
      (\<forall>k. filter (\<lambda>a. key a = k) (?f ys xs) = rev (filter (\<lambda>a. key a = k) xs) @ filter (\<lambda>a. key a = k) ys)"
    if "sorted_wrt (\<lambda>a b. key b \<le> key a) ys" and "by_key lt key (set ys \<union> set xs)" for ys
    using that
  proof (induction xs arbitrary: ys)
    case (Cons x xs)
    have b: "by_key lt key (insert x (set ys))" "by_key lt key (set (sift lt x ys) \<union> set xs)"
      by (auto intro: by_key_mono [OF Cons.prems(2)] simp: set_sift)
    from Cons.IH [OF sift_sorted [OF b(1) Cons.prems(1)] b(2)] sift_filter [OF b(1) Cons.prems(1)] show ?case by simp
  qed simp
  from this [of "[]"] assms show ?thesis
    by (simp add: slice_stable_def arranged_def in_key_order_def sorted_wrt_rev rev_filter [symmetric])
qed

text \<open>The binary search, when what it asks holds up to some index and not beyond.\<close>

lemma bsearch_spec:
  assumes "i \<le> j" and "\<And>a b. i \<le> a \<Longrightarrow> a \<le> b \<Longrightarrow> b < j \<Longrightarrow> P b \<Longrightarrow> P a"
  shows "i \<le> bsearch P i j \<and> bsearch P i j \<le> j \<and> (\<forall>a. i \<le> a \<and> a < bsearch P i j \<longrightarrow> P a) \<and>
    (\<forall>a. bsearch P i j \<le> a \<and> a < j \<longrightarrow> \<not> P a)"
  using assms
proof (induction P i j rule: bsearch.induct)
  case (1 P i j)
  let ?h = "(i + j) div 2"
  show ?case
  proof (cases "i < j")
    case True
    then have h: "i \<le> ?h" "?h < j" by auto
    show ?thesis
    proof (cases "P ?h")
      case True
      with "1.IH"(1) [OF \<open>i < j\<close> refl True] "1.prems"(2) h
      have ih: "?h + 1 \<le> bsearch P (?h + 1) j \<and> bsearch P (?h + 1) j \<le> j \<and>
          (\<forall>a. ?h + 1 \<le> a \<and> a < bsearch P (?h + 1) j \<longrightarrow> P a) \<and> (\<forall>a. bsearch P (?h + 1) j \<le> a \<and> a < j \<longrightarrow> \<not> P a)"
        by simp
      have low: "P a" if "i \<le> a" "a \<le> ?h" for a using "1.prems"(2) [OF that h(2) True] .
      have b: "bsearch P i j = bsearch P (?h + 1) j"
        using \<open>i < j\<close> True by (subst bsearch.simps) (simp add: Let_def)
      have "P a" if "i \<le> a" "a < bsearch P (?h + 1) j" for a
        using ih low [of a] that by (cases "a \<le> ?h") auto
      with ih h show ?thesis unfolding b by auto
    next
      case False
      have b: "bsearch P i j = bsearch P i ?h"
        using \<open>i < j\<close> False by (subst bsearch.simps) (simp add: Let_def)
      from "1.IH"(2) [OF \<open>i < j\<close> refl False h(1)] "1.prems"(2) h
      have ih: "i \<le> bsearch P i ?h \<and> bsearch P i ?h \<le> ?h \<and> (\<forall>a. i \<le> a \<and> a < bsearch P i ?h \<longrightarrow> P a) \<and>
          (\<forall>a. bsearch P i ?h \<le> a \<and> a < ?h \<longrightarrow> \<not> P a)"
        by (meson order_less_trans)
      have high: "\<not> P a" if "?h \<le> a" "a < j" for a using "1.prems"(2) [OF h(1) that] False by blast
      have "\<not> P a" if "bsearch P i ?h \<le> a" "a < j" for a
        using ih high [of a] that by (cases "a < ?h") auto
      with ih h show ?thesis unfolding b by auto
    qed
  next
    case False
    with "1.prems"(1) have "i = j" by simp
    then show ?thesis by (auto simp: bsearch.simps)
  qed
qed

lemma key_nth: "in_key_order key xs \<Longrightarrow> i \<le> j \<Longrightarrow> j < length xs \<Longrightarrow> key (xs ! i) \<le> key (xs ! j)"
  unfolding in_key_order_def by (cases "i = j") (auto simp: sorted_wrt_iff_nth_less)

lemma key_take: "in_key_order key xs \<Longrightarrow> in_key_order key (take i xs)"
  and key_drop: "in_key_order key xs \<Longrightarrow> in_key_order key (drop i xs)"
  by (simp_all add: in_key_order_def sorted_wrt_take sorted_wrt_drop)

lemma take_nth: "x \<in> set (take i xs) \<Longrightarrow> \<exists>a < i. a < length xs \<and> x = xs ! a"
  by (auto simp: in_set_conv_nth)

lemma drop_nth: "x \<in> set (drop i xs) \<Longrightarrow> \<exists>a \<ge> i. a < length xs \<and> x = xs ! a"
  by (auto simp: in_set_conv_nth) (metis add.commute le_add2 less_diff_conv)

lemma key_cut:
  assumes "in_key_order key xs" and "a \<in> set (take i xs)" and "b \<in> set (drop i xs)"
  shows "key a \<le> key b"
  using take_nth [OF assms(2)] drop_nth [OF assms(3)] key_nth [OF assms(1)] by fastforce

text \<open>One element against a run, and the cut between two runs.\<close>

lemma insert_arranged:
  assumes "in_key_order key (as @ bs)" and "\<And>a. a \<in> set as \<Longrightarrow> key a \<le> key x" and "\<And>b. b \<in> set bs \<Longrightarrow> key x \<le> key b"
  shows "in_key_order key (as @ x # bs)"
  using assms by (simp add: in_key_order_def sorted_wrt_append)

lemma filter_none: "(\<And>a. a \<in> set as \<Longrightarrow> key a \<noteq> k) \<Longrightarrow> filter (\<lambda>a. key a = k) as = []"
  by (simp add: filter_empty_conv)

lemma merge_single_left:
  assumes "by_key lt key (insert u (set vs))" and "in_key_order key vs"
  defines "i \<equiv> bsearch (\<lambda>h. lt (vs ! h) u) 0 (length vs)"
  shows "arranged key (u # vs) (take i vs @ u # drop i vs)"
proof -
  have p: "lt (vs ! h) u \<longleftrightarrow> key (vs ! h) < key u" if "h < length vs" for h
    using that by (intro by_keyD [OF assms(1)]) auto
  have m: "lt (vs ! a) u" if "0 \<le> a" "a \<le> b" "b < length vs" "lt (vs ! b) u" for a b
    using p [of a] p [of b] key_nth [OF assms(2) that(2,3)] that by simp
  note found = bsearch_spec [of 0 "length vs" "\<lambda>h. lt (vs ! h) u", OF le0 m, folded i_def]
  then have i: "i \<le> length vs" "\<And>a. a < i \<Longrightarrow> lt (vs ! a) u" "\<And>a. i \<le> a \<Longrightarrow> a < length vs \<Longrightarrow> \<not> lt (vs ! a) u"
    by simp_all
  have low: "key a < key u" if "a \<in> set (take i vs)" for a
    using take_nth [OF that] i(2) p by auto
  have high: "key u \<le> key b" if "b \<in> set (drop i vs)" for b
    using drop_nth [OF that] i(3) p by (auto simp: not_less [symmetric])
  have "filter (\<lambda>a. key a = k) (take i vs @ u # drop i vs) = filter (\<lambda>a. key a = k) (u # vs)" for k
  proof -
    have "filter (\<lambda>a. key a = k) vs = filter (\<lambda>a. key a = k) (take i vs) @ filter (\<lambda>a. key a = k) (drop i vs)"
      by (simp flip: filter_append)
    moreover have "key u = k \<Longrightarrow> filter (\<lambda>a. key a = k) (take i vs) = []"
      by (rule filter_none) (use low in fastforce)
    ultimately show ?thesis by auto
  qed
  moreover have "in_key_order key (take i vs @ u # drop i vs)"
    by (rule insert_arranged) (use assms(2) low high in \<open>auto simp: less_imp_le\<close>)
  ultimately show ?thesis by (simp add: arranged_def)
qed

lemma merge_single_right:
  assumes "by_key lt key (insert v (set us))" and "in_key_order key us"
  defines "i \<equiv> bsearch (\<lambda>h. \<not> lt v (us ! h)) 0 (length us)"
  shows "arranged key (us @ [v]) (take i us @ v # drop i us)"
proof -
  have p: "lt v (us ! h) \<longleftrightarrow> key v < key (us ! h)" if "h < length us" for h
    using that by (intro by_keyD [OF assms(1)]) auto
  have m: "\<not> lt v (us ! a)" if "0 \<le> a" "a \<le> b" "b < length us" "\<not> lt v (us ! b)" for a b
    using p [of a] p [of b] key_nth [OF assms(2) that(2,3)] that by simp
  note found = bsearch_spec [of 0 "length us" "\<lambda>h. \<not> lt v (us ! h)", OF le0 m, folded i_def]
  then have i: "i \<le> length us" "\<And>a. a < i \<Longrightarrow> \<not> lt v (us ! a)" "\<And>a. i \<le> a \<Longrightarrow> a < length us \<Longrightarrow> lt v (us ! a)"
    by simp_all
  have low: "key a \<le> key v" if "a \<in> set (take i us)" for a
    using take_nth [OF that] i(2) p by (auto simp: not_less [symmetric])
  have high: "key v < key b" if "b \<in> set (drop i us)" for b
    using drop_nth [OF that] i(3) p by auto
  have "filter (\<lambda>a. key a = k) (take i us @ v # drop i us) = filter (\<lambda>a. key a = k) (us @ [v])" for k
  proof -
    have "filter (\<lambda>a. key a = k) us = filter (\<lambda>a. key a = k) (take i us) @ filter (\<lambda>a. key a = k) (drop i us)"
      by (simp flip: filter_append)
    moreover have "key v = k \<Longrightarrow> filter (\<lambda>a. key a = k) (drop i us) = []"
      by (rule filter_none) (use high in fastforce)
    ultimately show ?thesis by auto
  qed
  moreover have "in_key_order key (take i us @ v # drop i us)"
    by (rule insert_arranged) (use assms(2) low high in \<open>auto simp: less_imp_le\<close>)
  ultimately show ?thesis by (simp add: arranged_def)
qed

text \<open>
  Where \<open>sym_merge\<close> cuts: what goes left of the first run is not above what goes right of the second, and
  what goes left of the second run is below what goes right of the first.
\<close>

lemma merge_start_cuts:
  assumes "by_key lt key (set us \<union> set vs)" and "in_key_order key us" and "in_key_order key vs"
  defines "mid \<equiv> (length us + length vs) div 2" and "s \<equiv> merge_start lt us vs"
  shows "s \<le> mid" "s \<le> length us" "mid - s \<le> length vs"
    "\<And>a b. a \<in> set (take s us) \<Longrightarrow> b \<in> set (drop (mid - s) vs) \<Longrightarrow> key a \<le> key b"
    "\<And>a b. a \<in> set (drop s us) \<Longrightarrow> b \<in> set (take (mid - s) vs) \<Longrightarrow> key b < key a"
proof -
  let ?m = "length us" and ?n = "length vs"
  let ?i = "if mid < ?m then mid - ?n else 0" and ?r = "if mid < ?m then mid else ?m"
  let ?P = "\<lambda>c. \<not> lt ((us @ vs) ! (mid + ?m - 1 - c)) ((us @ vs) ! c)"
  have s: "s = bsearch ?P ?i ?r"
    unfolding s_def merge_start_def mid_def by (simp add: Let_def)
  have r: "?i \<le> ?r" "?r \<le> ?m" "?r \<le> mid" "mid - ?i \<le> ?n" unfolding mid_def by auto
  have P: "?P c \<longleftrightarrow> key (us ! c) \<le> key (vs ! (mid - 1 - c))" "c < ?m" "mid - 1 - c < ?n"
    if "?i \<le> c" "c < ?r" for c
  proof -
    show c: "c < ?m" "mid - 1 - c < ?n" using that r by auto
    have "mid + ?m - 1 - c = ?m + (mid - 1 - c)" using that(2) r(3) by linarith
    then have "(us @ vs) ! (mid + ?m - 1 - c) = vs ! (mid - 1 - c)" by (simp only: nth_append_length_plus)
    moreover have "lt (vs ! (mid - 1 - c)) (us ! c) \<longleftrightarrow> key (vs ! (mid - 1 - c)) < key (us ! c)"
      by (rule by_keyD [OF assms(1)]) (use c in auto)
    ultimately show "?P c \<longleftrightarrow> key (us ! c) \<le> key (vs ! (mid - 1 - c))"
      using c by (simp add: nth_append not_less)
  qed
  have "?P a" if "?i \<le> a" "a \<le> b" "b < ?r" "?P b" for a b
    using P [of a] P [of b] that key_nth [OF assms(2) that(2)] key_nth [OF assms(3), of "mid - 1 - b" "mid - 1 - a"]
    by (smt (verit) diff_le_mono2 le_trans order_le_less_trans)
  from bsearch_spec [of ?i ?r ?P] r(1) this
  have b: "?i \<le> s" "s \<le> ?r" "\<And>a. ?i \<le> a \<Longrightarrow> a < s \<Longrightarrow> ?P a" "\<And>a. s \<le> a \<Longrightarrow> a < ?r \<Longrightarrow> \<not> ?P a"
    unfolding s by blast+
  show "s \<le> mid" "s \<le> length us" "mid - s \<le> length vs" using b(1,2) r by linarith+
  {
    fix x y assume x: "x \<in> set (take s us)" and y: "y \<in> set (drop (mid - s) vs)"
    obtain i where i: "i < s" "i < ?m" "x = us ! i" using take_nth [OF x] by blast
    obtain j where j: "mid - s \<le> j" "j < ?n" "y = vs ! j" using drop_nth [OF y] by blast
    have "?i < s"
    proof (rule ccontr)
      assume "\<not> ?i < s"
      with b(1) have "s = ?i" by simp
      with i j r(4) show False by (auto simp: mid_def split: if_splits)
    qed
    then have c: "?i \<le> s - 1" "s - 1 < ?r" "s - 1 < s" using b(2) by auto
    have "key (us ! i) \<le> key (us ! (s - 1))" using i b(2) r(2) by (intro key_nth [OF assms(2)]) auto
    also have "\<dots> \<le> key (vs ! (mid - 1 - (s - 1)))" using P(1) [OF c(1,2)] b(3) [OF c(1,3)] by simp
    also have "mid - 1 - (s - 1) = mid - s" using i by simp
    also have "key (vs ! (mid - s)) \<le> key (vs ! j)" using j by (intro key_nth [OF assms(3)]) auto
    finally show "key x \<le> key y" using i j by simp
  }
  {
    fix x y assume x: "x \<in> set (drop s us)" and y: "y \<in> set (take (mid - s) vs)"
    obtain i where i: "s \<le> i" "i < ?m" "x = us ! i" using drop_nth [OF x] by blast
    obtain j where j: "j < mid - s" "j < ?n" "y = vs ! j" using take_nth [OF y] by blast
    have "s < ?r" using i j b(2) by (auto split: if_splits)
    then have c: "?i \<le> s" "s < ?r" "s \<le> s" using b(1) by auto
    have "key (vs ! j) \<le> key (vs ! (mid - 1 - s))" using j P(3) [OF c(1,2)] by (intro key_nth [OF assms(3)]) auto
    also have "\<dots> < key (us ! s)" using P(1) [OF c(1,2)] b(4) [OF c(3,2)] by simp
    also have "\<dots> \<le> key (us ! i)" using i by (intro key_nth [OF assms(2)]) auto
    finally show "key y < key x" using i j by simp
  }
qed

lemma arranged_swap:
  assumes "\<And>a b. a \<in> set us2 \<Longrightarrow> b \<in> set vs1 \<Longrightarrow> key b < key a"
  shows "arranged key ((us1 @ vs1) @ us2 @ vs2) = arranged key ((us1 @ us2) @ vs1 @ vs2)"
proof -
  have "filter (\<lambda>a. key a = k) vs1 @ filter (\<lambda>a. key a = k) us2 = filter (\<lambda>a. key a = k) us2 @ filter (\<lambda>a. key a = k) vs1" for k
  proof (cases "filter (\<lambda>a. key a = k) us2 = []")
    case False
    then obtain a where "a \<in> set us2" "key a = k" by (auto simp: filter_empty_conv)
    then have "filter (\<lambda>a. key a = k) vs1 = []" using assms by (intro filter_none) fastforce
    then show ?thesis by simp
  qed simp
  then show ?thesis unfolding arranged_def by (intro ext) (metis (no_types, lifting) append.assoc filter_append)
qed

lemma arranged_self: "in_key_order key xs \<Longrightarrow> arranged key xs xs"
  by (simp add: arranged_def)

lemma sym_merge_arranged:
  "by_key lt key (set us \<union> set vs) \<Longrightarrow> in_key_order key us \<Longrightarrow> in_key_order key vs \<Longrightarrow>
   arranged key (us @ vs) (sym_merge lt us vs)"
proof (induction lt us vs rule: sym_merge.induct)
  case (1 lt us vs)
  note prems = "1.prems"
  consider "length us = 1" | "length us \<noteq> 1" "length vs = 1" | "length us \<noteq> 1" "length vs \<noteq> 1" by blast
  then show ?case
  proof cases
    case 1
    then obtain u where "us = [u]" by (auto simp: length_Suc_conv)
    with prems merge_single_left [of lt key u vs] show ?thesis by (simp add: sym_merge.simps Let_def)
  next
    case 2
    then obtain v where "vs = [v]" by (auto simp: length_Suc_conv)
    with prems 2 merge_single_right [of lt key v us] show ?thesis by (simp add: sym_merge.simps Let_def)
  next
    case 3
    let ?s = "merge_start lt us vs" and ?mid = "(length us + length vs) div 2"
    let ?us1 = "take ?s us" and ?us2 = "drop ?s us" and ?vs1 = "take (?mid - ?s) vs" and ?vs2 = "drop (?mid - ?s) vs"
    note cut = merge_start_cuts [OF prems]
    have k: "?mid + length us - ?s - length us = ?mid - ?s" by simp
    have sub: "by_key lt key (set ?us1 \<union> set ?vs1)" "by_key lt key (set ?us2 \<union> set ?vs2)"
      by (auto intro!: by_key_mono [OF prems(1)] dest: in_set_takeD in_set_dropD)
    note ord = key_take [OF prems(2)] key_take [OF prems(3)] key_drop [OF prems(2)] key_drop [OF prems(3)]
    have L: "arranged key (?us1 @ ?vs1) (if 0 < ?s \<and> ?s < ?mid then sym_merge lt ?us1 ?vs1 else ?us1 @ ?vs1)"
    proof (cases "0 < ?s \<and> ?s < ?mid")
      case True
      from "1.IH"(1) [OF 3 refl refl refl refl refl refl refl refl refl True] sub(1) ord True k show ?thesis by simp
    next
      case False
      then have "?us1 = [] \<or> ?vs1 = []" by auto
      with False ord show ?thesis by (auto intro!: arranged_self simp: in_key_order_def)
    qed
    have R: "arranged key (?us2 @ ?vs2) (if ?mid < ?mid + length us - ?s \<and> ?mid + length us - ?s < length us + length vs
        then sym_merge lt ?us2 ?vs2 else ?us2 @ ?vs2)"
    proof (cases "?mid < ?mid + length us - ?s \<and> ?mid + length us - ?s < length us + length vs")
      case True
      from "1.IH"(2) [OF 3 refl refl refl refl refl refl refl refl refl True] sub(2) ord k show ?thesis
        using True by simp
    next
      case False
      then have "?us2 = [] \<or> ?vs2 = []" using cut(1,2) by auto
      with False ord show ?thesis by (auto intro!: arranged_self)
    qed
    have "key a \<le> key b" if "a \<in> set (?us1 @ ?vs1)" "b \<in> set (?us2 @ ?vs2)" for a b
    proof -
      show ?thesis
        using that key_cut [OF prems(2), of a ?s b] key_cut [OF prems(3), of a "?mid - ?s" b] cut(4) [of a b] cut(5) [of b a]
        by (auto simp: less_imp_le)
    qed
    from arranged_append [OF L R this] arranged_swap [of ?us2 ?vs1 key ?us1 ?vs2] cut(5)
    have "arranged key (us @ vs) ((if 0 < ?s \<and> ?s < ?mid then sym_merge lt ?us1 ?vs1 else ?us1 @ ?vs1) @
        (if ?mid < ?mid + length us - ?s \<and> ?mid + length us - ?s < length us + length vs
         then sym_merge lt ?us2 ?vs2 else ?us2 @ ?vs2))"
      by simp
    with 3 k show ?thesis by (subst sym_merge.simps) (simp only: Let_def if_False)
  qed
qed

lemma merge_pass_arranged:
  assumes "by_key lt key (\<Union> (set ` set bs))" and "\<And>b. b \<in> set bs \<Longrightarrow> in_key_order key b"
  shows "(\<forall>b \<in> set (merge_pass lt bs). in_key_order key b) \<and>
    (\<forall>k. filter (\<lambda>a. key a = k) (concat (merge_pass lt bs)) = filter (\<lambda>a. key a = k) (concat bs))"
  using assms
proof (induction lt bs rule: merge_pass.induct)
  case (1 lt us vs rest)
  have b: "by_key lt key (set us \<union> set vs)" "by_key lt key (\<Union> (set ` set rest))"
    by (rule by_key_mono [OF "1.prems"(1)], force)+
  from "1.IH" [OF b(2)] "1.prems"(2) sym_merge_arranged [OF b(1)] show ?case
    by (simp add: arranged_def)
qed simp_all

lemma merge_passes_arranged:
  "by_key lt key (\<Union> (set ` set bs)) \<Longrightarrow> (\<And>b. b \<in> set bs \<Longrightarrow> in_key_order key b) \<Longrightarrow>
   arranged key (concat bs) (merge_passes lt bs)"
proof (induction lt bs rule: merge_passes.induct)
  case (1 lt bs)
  show ?case
  proof (cases "length bs \<le> 1")
    case True
    then have "merge_passes lt bs = concat bs" by (subst merge_passes.simps) simp
    moreover have "bs = [] \<or> (\<exists>b. bs = [b])" using True by (cases bs) auto
    ultimately show ?thesis using "1.prems"(2) by (auto simp: arranged_def in_key_order_def)
  next
    case False
    note pass = merge_pass_arranged [OF "1.prems"]
    have "set (concat (merge_pass lt bs)) = set (concat bs)"
      using arg_cong [OF mset_merge_pass [of lt bs], of set_mset] by (simp only: set_mset_mset)
    then have "by_key lt key (\<Union> (set ` set (merge_pass lt bs)))" using "1.prems"(1) by simp
    from "1.IH" [OF False this] pass have "arranged key (concat (merge_pass lt bs)) (merge_passes lt (merge_pass lt bs))"
      by simp
    with pass False show ?thesis by (subst merge_passes.simps) (simp add: arranged_def)
  qed
qed

text \<open>On a comparison by key \<^verbatim>\<open>SliceStable\<close> is a stable sort: the same list as by insertion.\<close>

lemma go_stable_arranged:
  assumes "by_key lt key (set xs)"
  shows "arranged key xs (go_stable lt xs)"
proof -
  have sub: "set b \<subseteq> set xs" if "b \<in> set (blocks_of 20 xs)" for b
    using that concat_blocks [of 20 xs] by (metis UN_upper set_concat)
  have block: "arranged key b (slice_stable lt b)" if "b \<in> set (blocks_of 20 xs)" for b
    by (rule slice_arranged, rule by_key_mono [OF assms sub [OF that]])
  have "filter (\<lambda>a. key a = k) (concat (List.map (slice_stable lt) bs)) = filter (\<lambda>a. key a = k) (concat bs)"
    if "set bs \<subseteq> set (blocks_of 20 xs)" for k bs
    using that block by (induction bs) (simp_all add: arranged_def)
  then have same: "filter (\<lambda>a. key a = k) (concat (List.map (slice_stable lt) (blocks_of 20 xs))) = filter (\<lambda>a. key a = k) xs" for k
    by (simp add: concat_blocks)
  have "arranged key (concat (List.map (slice_stable lt) (blocks_of 20 xs))) (go_stable lt xs)"
    unfolding go_stable_def
    by (rule merge_passes_arranged) (use sub block in \<open>auto intro!: by_key_mono [OF assms] simp: arranged_def\<close>)
  with same show ?thesis by (simp add: arranged_def)
qed

lemma go_stable_by_key: "by_key lt key (set xs) \<Longrightarrow> go_stable lt xs = slice_stable lt xs"
  using go_stable_arranged slice_arranged arranged_unique by metis

end
