(* ===== verification/GoValue.thy ===== *)
theory GoValue
  imports Sanction_Records
begin

text \<open>
  Values a Go program decodes without a type (\<^verbatim>\<open>any\<close> and \<^verbatim>\<open>map[string]any\<close> after \<^verbatim>\<open>json.Unmarshal\<close>), how
  \<^verbatim>\<open>fmt.Sprintf("%v", x)\<close> prints them, the numbers \<^verbatim>\<open>strconv.ParseInt\<close> reads, and \<^verbatim>\<open>time.Parse\<close> to an
  instant. A number is the shortest decimal of its float64, 0.d1 d2 ... times ten to the power \<open>pt\<close>,
  as the shortest-digits algorithm of the runtime gives it; the digits have no leading or trailing zero.
\<close>

section \<open>Untyped values\<close>

datatype jval =
  JNull | JBool bool | JNum bool gostr int | JStr gostr | JList "jval list" | JMap "(gostr \<times> jval) list"

type_synonym jobj = "(gostr \<times> jval) list"

definition jget :: "jobj \<Rightarrow> string \<Rightarrow> jval" where
  "jget m k = (case map_of m (lit k) of None \<Rightarrow> JNull | Some v \<Rightarrow> v)"

text \<open>The verb \<^verbatim>\<open>%g\<close> with the shortest precision: an exponent below -4 or from 6 on is written out.\<close>

definition exp_digits :: "nat \<Rightarrow> gostr" where
  "exp_digits n = (if n < 10 then 48 # nat_digits n else nat_digits n)"

definition fmt_e :: "gostr \<Rightarrow> int \<Rightarrow> gostr" where
  "fmt_e ds pt =
     (case ds of [] \<Rightarrow> lit ''0'' | d # rest \<Rightarrow> d # (if rest = [] then [] else 46 # rest)) @
     [101, if pt - 1 < 0 then 45 else 43] @ exp_digits (nat \<bar>pt - 1\<bar>)"

definition fmt_f :: "gostr \<Rightarrow> int \<Rightarrow> gostr" where
  "fmt_f ds pt =
     (if 0 < pt then take (nat pt) ds @ replicate (nat pt - length ds) 48 else [48]) @
     (if int (length ds) \<le> pt \<or> ds = [] then []
      else 46 # (if pt < 0 then replicate (nat (- pt)) 48 else []) @ drop (nat pt) ds)"

definition fmt_num :: "bool \<Rightarrow> gostr \<Rightarrow> int \<Rightarrow> gostr" where
  "fmt_num neg ds pt =
     (if neg then [45] else []) @
     (if ds = [] then [48] else if pt - 1 < -4 \<or> 6 \<le> pt - 1 then fmt_e ds pt else fmt_f ds pt)"

fun fmt_v :: "jval \<Rightarrow> gostr" where
  "fmt_v JNull = lit ''<nil>''"
| "fmt_v (JBool b) = (if b then lit ''true'' else lit ''false'')"
| "fmt_v (JNum neg ds pt) = fmt_num neg ds pt"
| "fmt_v (JStr s) = s"
| "fmt_v (JList vs) = [91] @ str_join [32] (List.map fmt_v vs) @ [93]"
| "fmt_v (JMap kvs) = lit ''map['' @ str_join [32] (List.map (\<lambda>(k, v). k @ [58] @ fmt_v v) kvs) @ [93]"

text \<open>An integer as the decoder gives it.\<close>

fun strip_zeros :: "gostr \<Rightarrow> gostr" where
  "strip_zeros [] = []"
| "strip_zeros (d # ds) = (case strip_zeros ds of [] \<Rightarrow> if d = 48 then [] else [d] | r # rs \<Rightarrow> d # r # rs)"

definition jint :: "int \<Rightarrow> jval" where
  "jint n =
     (let ds = nat_digits (nat \<bar>n\<bar>) in
      if n = 0 then JNum False [] 0 else JNum (n < 0) (strip_zeros ds) (int (length ds)))"

section \<open>Numbers\<close>

definition decimal :: "gostr \<Rightarrow> int" where
  "decimal s = foldl (\<lambda>a r. 10 * a + (r - 48)) 0 s"

text \<open>\<^verbatim>\<open>strconv.ParseInt(s, 10, 64)\<close>; an out-of-range value is an error.\<close>

definition parse_int64 :: "gostr \<Rightarrow> int option" where
  "parse_int64 s =
     (let body = (case s of r # t \<Rightarrow> if r = 43 \<or> r = 45 then t else s | [] \<Rightarrow> []);
          n = decimal body;
          v = (if has_prefix s [45] then - n else n)
      in if body = [] \<or> \<not> list_all is_digit body then None
         else if - (2 ^ 63) \<le> v \<and> v < 2 ^ 63 then Some v else None)"

section \<open>Instants\<close>

record stamp = date_parts +
  st_hour :: nat
  st_minute :: nat
  st_second :: nat
  st_nano :: int
  st_offset :: int

definition no_stamp :: stamp where
  "no_stamp = \<lparr>dp_year = [], dp_month = 0, dp_day = 0, st_hour = 0, st_minute = 0, st_second = 0, st_nano = 0, st_offset = 0\<rparr>"

text \<open>The fraction of a second: nine digits count, further ones are skipped.\<close>

definition fraction :: "gostr \<Rightarrow> int" where
  "fraction s =
     (case s of p # d # t \<Rightarrow>
        if (p = 46 \<or> p = 44) \<and> is_digit d then
          (let ds = take 9 (takeWhile is_digit (d # t)) in decimal (ds @ replicate (9 - length ds) 48))
        else 0
      | _ \<Rightarrow> 0)"

definition zone_offset :: "gostr \<Rightarrow> int" where
  "zone_offset s =
     (case s of
        sg # h1 # h2 # c # m1 # m2 # u \<Rightarrow>
          (if sg = 90 then 0 else (if sg = 45 then - 1 else 1) * (decimal [h1, h2] * 3600 + decimal [m1, m2] * 60))
      | _ \<Rightarrow> 0)"

definition stamp_chunk :: "chunk \<Rightarrow> gostr \<Rightarrow> stamp \<Rightarrow> (gostr \<times> stamp) option" where
  "stamp_chunk c s d =
     (case c of
        Year4 \<Rightarrow> if length s < 4 \<or> \<not> list_all is_digit (take 4 s) then None
                 else Some (drop 4 s, d\<lparr>dp_year := take 4 s\<rparr>)
      | Month2 \<Rightarrow> map_option (\<lambda>(n, t). (t, d\<lparr>dp_month := n\<rparr>)) (bounded_num True 1 12 s)
      | Day2 \<Rightarrow> map_option (\<lambda>(n, t). (t, d\<lparr>dp_day := n\<rparr>)) (getnum True s)
      | Hour24 \<Rightarrow> map_option (\<lambda>(n, t). (t, d\<lparr>st_hour := n\<rparr>)) (bounded_num False 0 23 s)
      | Minute2 \<Rightarrow> map_option (\<lambda>(n, t). (t, d\<lparr>st_minute := n\<rparr>)) (bounded_num True 0 59 s)
      | Second2 \<Rightarrow> map_option (\<lambda>(n, t). (skip_fraction t, d\<lparr>st_second := n, st_nano := fraction t\<rparr>))
                     (bounded_num True 0 59 s)
      | Spaces \<Rightarrow> (case s of [] \<Rightarrow> Some (s, d)
                   | r # t \<Rightarrow> if r = 32 then Some (dropWhile (\<lambda>x. x = 32) s, d) else None)
      | Char r \<Rightarrow> (case s of [] \<Rightarrow> None | x # t \<Rightarrow> if x = r then Some (t, d) else None)
      | Zone \<Rightarrow> map_option (\<lambda>t. (t, d\<lparr>st_offset := zone_offset s\<rparr>)) (parse_zone s))"

fun stamp_chunks :: "chunk list \<Rightarrow> gostr \<Rightarrow> stamp \<Rightarrow> stamp option" where
  "stamp_chunks [] s d = (if s = [] then Some d else None)"
| "stamp_chunks (c # cs) s d =
     (case stamp_chunk c s d of None \<Rightarrow> None | Some (t, e) \<Rightarrow> stamp_chunks cs t e)"

definition stamp_parse :: "chunk list \<Rightarrow> gostr \<Rightarrow> stamp option" where
  "stamp_parse l s =
     (case stamp_chunks l s no_stamp of
        None \<Rightarrow> None | Some d \<Rightarrow> if valid_day (date_parts.truncate d) then Some d else None)"

fun first_stamp :: "chunk list list \<Rightarrow> gostr \<Rightarrow> stamp option" where
  "first_stamp [] s = None"
| "first_stamp (l # ls) s = (case stamp_parse l s of Some d \<Rightarrow> Some d | None \<Rightarrow> first_stamp ls s)"

text \<open>Days since the first of January of the year 0, and nanoseconds since then, in UTC.\<close>

definition day_number :: "int \<Rightarrow> nat \<Rightarrow> nat \<Rightarrow> int" where
  "day_number y m d =
     (if y = 0 then 0 else 365 * y + (y - 1) div 4 - (y - 1) div 100 + (y - 1) div 400 + 1) +
     int (sum_list (List.map (\<lambda>k. days_in k (nat y)) [1 ..< m]) + (d - 1))"

definition instant :: "stamp \<Rightarrow> int" where
  "instant d =
     (((day_number (decimal (dp_year d)) (dp_month d) (dp_day d) * 24 + int (st_hour d)) * 60 + int (st_minute d)) * 60
       + int (st_second d) - st_offset d) * 1000000000 + st_nano d"

end
