(* ===== verification/Datajud_Case.thy ===== *)
theory Datajud_Case
  imports GoSort GoValue Cases
begin

text \<open>
  What the DataJud worker derives from one case (the pure part of \<^verbatim>\<open>backend/workers/datajud/worker.go\<close>): the
  readings of its untyped fields, the chronological order of its movements and the state machine that
  reads them. The order is \<^verbatim>\<open>sort.SliceStable\<close> as Go runs it (\<open>GoSort\<close>), also on movements whose time cannot be read,
  which no comparison puts before or after another.
\<close>

section \<open>Untyped fields\<close>

definition map_string :: "jobj \<Rightarrow> string \<Rightarrow> gostr" where
  "map_string m k = (case jget m k of JNull \<Rightarrow> [] | v \<Rightarrow> trim_space (fmt_v v))"

definition movement_code :: "jobj \<Rightarrow> gostr" where
  "movement_code m = map_string m ''codigo''"

definition movement_nome :: "jobj \<Rightarrow> gostr" where
  "movement_nome m = (case jget m ''nome'' of JStr s \<Rightarrow> s | _ \<Rightarrow> [])"

definition proceeding_type_from_classe :: "jobj \<Rightarrow> gostr" where
  "proceeding_type_from_classe classe =
     (let code = map_string classe ''codigo'' in if code \<noteq> [] then code else lit ''criminal'')"

definition proceeding_class_name :: "jobj \<Rightarrow> gostr" where
  "proceeding_class_name classe = map_string classe ''nome''"

definition court_name :: "jobj \<Rightarrow> gostr" where
  "court_name orgao = map_string orgao ''nome''"

definition assuntos_codes :: "jobj list \<Rightarrow> gostr list" where
  "assuntos_codes as = filter (\<lambda>c. c \<noteq> []) (List.map (\<lambda>a. map_string a ''codigo'') as)"

definition string_list :: "jval \<Rightarrow> gostr list" where
  "string_list v =
     (case v of
        JList vs \<Rightarrow> List.map fmt_v (filter (\<lambda>e. e \<noteq> JNull) vs)
      | JStr s \<Rightarrow> [s]
      | _ \<Rightarrow> [])"

definition complement_list :: "jval \<Rightarrow> jobj list" where
  "complement_list v =
     (case v of JList vs \<Rightarrow> List.map_filter (\<lambda>e. case e of JMap kvs \<Rightarrow> Some kvs | _ \<Rightarrow> None) vs | _ \<Rightarrow> [])"

section \<open>Folding\<close>

definition pt_accents :: "(rune \<times> gostr) list" where
  "pt_accents =
     [(225, [97]), (226, [97]), (227, [97]), (224, [97]), (233, [101]), (234, [101]), (237, [105]),
      (243, [111]), (244, [111]), (245, [111]), (250, [117]), (252, [117]), (231, [99])]"

definition fold_pt :: "gostr \<Rightarrow> gostr" where
  "fold_pt s = replacer (single_olds pt_accents) (to_lower s)"

definition accent_folder :: "(rune \<times> gostr) list" where
  "accent_folder =
     [(225, [97]), (224, [97]), (226, [97]), (227, [97]), (228, [97]),
      (233, [101]), (232, [101]), (234, [101]), (235, [101]),
      (237, [105]), (236, [105]), (238, [105]), (239, [105]),
      (243, [111]), (242, [111]), (244, [111]), (245, [111]), (246, [111]),
      (250, [117]), (249, [117]), (251, [117]), (252, [117]),
      (231, [99]), (241, [110])]"

definition fold_text :: "gostr \<Rightarrow> gostr" where
  "fold_text s = replacer (single_olds accent_folder) (to_lower s)"

section \<open>The order of movements\<close>

text \<open>
  The layouts tried in turn. RFC3339 and RFC3339Nano accept the same texts, and so do the layout
  with three fractional digits and the one after it for every text the former accepts.
\<close>

definition time_layouts :: "chunk list list" where
  "time_layouts =
     [layout_iso @ [Char 84, Hour24, Char 58, Minute2, Char 58, Second2, Zone],
      layout_iso @ [Char 84, Hour24, Char 58, Minute2, Char 58, Second2],
      layout_iso @ [Spaces, Hour24, Char 58, Minute2, Char 58, Second2],
      layout_iso]"

definition movement_time :: "jobj \<Rightarrow> int option" where
  "movement_time m =
     (let s = map_string m ''dataHora'' in
      if s = [] then None else map_option instant (first_stamp time_layouts s))"

definition movement_before :: "jobj \<Rightarrow> jobj \<Rightarrow> bool" where
  "movement_before a b =
     (case movement_time a of None \<Rightarrow> False
      | Some s \<Rightarrow> (case movement_time b of None \<Rightarrow> False | Some t \<Rightarrow> s < t))"

definition movements_chronological :: "jobj list \<Rightarrow> jobj list" where
  "movements_chronological movs = go_stable movement_before movs"

section \<open>The state machine\<close>

record case_state =
  cs_phase :: string
  cs_disposition :: string
  cs_concluded :: bool

definition no_state :: case_state where
  "no_state = \<lparr>cs_phase = '''', cs_disposition = '''', cs_concluded = False\<rparr>"

definition has_conviction :: "case_state \<Rightarrow> bool" where
  "has_conviction st \<longleftrightarrow> cs_disposition st = ''conviction''"

definition criminal_class :: "gostr \<Rightarrow> bool" where
  "criminal_class class_name =
     list_ex (contains (fold_pt class_name)) [lit ''penal'', lit ''criminal'', lit ''crime'']"

definition concludes :: "gostr \<Rightarrow> gostr \<Rightarrow> bool" where
  "concludes code nome \<longleftrightarrow> code = lit ''22'' \<or> contains nome (lit ''transito em julgado'') \<or> code = lit ''848''"

definition sentenced :: "string \<Rightarrow> case_state \<Rightarrow> case_state" where
  "sentenced d st = st\<lparr>cs_disposition := d, cs_phase := ''sentenced''\<rparr>"

definition dispose :: "gostr \<Rightarrow> gostr \<Rightarrow> case_state \<Rightarrow> case_state" where
  "dispose code nome st =
     (if contains nome (lit ''improceden'') \<or> code = lit ''220'' then sentenced ''acquittal'' st
      else if contains nome (lit ''absolvi'') then sentenced ''acquittal'' st
      else if contains nome (lit ''extincao da punibilidade'') \<or>
              contains nome (lit ''extinta a punibilidade'') \<or> code = lit ''1042''
        then st\<lparr>cs_disposition := ''''\<rparr>
      else if contains nome (lit ''condena'') then sentenced ''conviction'' st
      else if contains nome (lit ''proceden'') \<or> code = lit ''219'' \<or> code = lit ''221''
        then sentenced ''conviction'' st
      else st)"

definition read_movement :: "bool \<Rightarrow> case_state \<Rightarrow> jobj \<Rightarrow> case_state" where
  "read_movement criminal st m =
     (let code = movement_code m; nome = fold_pt (movement_nome m);
          st' = (if concludes code nome then st\<lparr>cs_concluded := True\<rparr> else st)
      in if \<not> criminal then st' else dispose code nome st')"

definition derive_case_state :: "gostr \<Rightarrow> jobj list \<Rightarrow> case_state" where
  "derive_case_state class_name movs =
     foldl (read_movement (criminal_class class_name)) no_state (movements_chronological movs)"

section \<open>Movement ids and dates\<close>

definition movement_id :: "jobj \<Rightarrow> int option" where
  "movement_id m =
     (let i = trim_space (fmt_v (jget m ''id'')) in
      if i = [] \<or> i = lit ''<nil>'' then None else parse_int64 i)"

definition max_movement_id :: "jobj list \<Rightarrow> gostr" where
  "max_movement_id movs =
     (let m = foldl (\<lambda>acc x. case movement_id x of None \<Rightarrow> acc | Some n \<Rightarrow> if acc < n then n else acc) 0 movs
      in if m = 0 then [] else itoa m)"

definition filing_layouts :: "chunk list list" where
  "filing_layouts =
     [layout_iso @ [Char 84, Hour24, Char 58, Minute2, Char 58, Second2, Zone],
      layout_iso,
      layout_iso @ [Char 84, Hour24, Char 58, Minute2, Char 58, Second2]]"

text \<open>The date as the writer formats it: the day of the parsed time in its own zone.\<close>

definition parse_date :: "gostr \<Rightarrow> gostr option" where
  "parse_date s0 =
     (let s = trim_space s0 in
      if s = [] then None else map_option (\<lambda>d. format_date (date_parts.truncate d)) (first_stamp filing_layouts s))"

end
