(* ===== verification/Datajud_Client.thy ===== *)
theory Datajud_Client
  imports Datajud_Case
begin

text \<open>
  The client of the DataJud API (\<^verbatim>\<open>backend/workers/datajud/client.go\<close>): pacing, the two retry ladders and the
  reading of an answer. A run of HTTP is a function of the number of the request, so that the server
  may change its mind; decoding JSON is part of its answer. Times are in nanoseconds.
\<close>

section \<open>What the API answers\<close>

record case_source =
  so_numero :: gostr
  so_sigilo :: int
  so_classe :: jobj
  so_assuntos :: "jobj list"
  so_ajuizamento :: gostr
  so_orgao :: jobj
  so_movimentos :: "jobj list"
  so_raw :: jobj

text \<open>A hit may have no \<^verbatim>\<open>_source\<close> object, or one that does not decode into the struct.\<close>

datatype hit = NoSource | BadSource | Source case_source

datatype dk_body = DkUnreadable | DkUndecodable | DkHits "hit list"

record dk_request =
  dr_url :: gostr
  dr_key :: gostr
  dr_case :: gostr

text \<open>An answer has a status, the header \<^verbatim>\<open>Retry-After\<close> and a body.\<close>

datatype dk_reply = DkDropped | DkAnswered int gostr dk_body

text \<open>\<open>dk_http_date\<close> stands for \<^verbatim>\<open>http.ParseTime\<close>, on the clock of the client.\<close>

record dk_api =
  dk_url_ok :: "gostr \<Rightarrow> bool"
  dk_server :: "nat \<Rightarrow> dk_request \<Rightarrow> nat \<times> dk_reply"
  dk_http_date :: "gostr \<Rightarrow> int option"

record dk_client =
  kc_base :: gostr
  kc_key :: gostr
  kc_now :: nat
  kc_deadline :: "nat option"
  kc_last :: "nat option"
  kc_log :: "(nat \<times> dk_request) list"

definition second :: nat where "second = 1000000000"
definition dk_request_interval :: nat where "dk_request_interval = 60 * second div 60"
definition dk_max_retries :: nat where "dk_max_retries = 3"
definition max_retries_429 :: nat where "max_retries_429 = 6"
definition dk_backoff_initial :: nat where "dk_backoff_initial = 1 * second"
definition dk_backoff_max :: nat where "dk_backoff_max = 16 * second"
definition backoff_max_429 :: nat where "backoff_max_429 = 90 * second"
definition dk_timeout :: nat where "dk_timeout = 45 * second"

definition trim_right_slash :: "gostr \<Rightarrow> gostr" where
  "trim_right_slash s = rev (dropWhile (\<lambda>r. r = 47) (rev s))"

definition new_dk_client :: "gostr \<Rightarrow> gostr \<Rightarrow> nat \<Rightarrow> nat option \<Rightarrow> err + dk_client" where
  "new_dk_client api_base api_key now deadline =
     (let base = trim_space api_base; key = trim_space api_key in
      if key = [] then Inl (Refused ''DATAJUD_API_KEY is required'')
      else Inr \<lparr>kc_base = trim_right_slash (if base = [] then lit ''https://api-publica.datajud.cnj.jus.br'' else base),
                kc_key = key, kc_now = now, kc_deadline = deadline, kc_last = None, kc_log = []\<rparr>)"

section \<open>Waiting\<close>

definition dk_sleep :: "nat \<Rightarrow> (dk_client, unit) prog" where
  "dk_sleep d s =
     (case kc_deadline s of
        None \<Rightarrow> (Inr (), s\<lparr>kc_now := kc_now s + d\<rparr>)
      | Some dl \<Rightarrow> if dl \<le> kc_now s + d then (Inl Cancelled, s\<lparr>kc_now := max (kc_now s) dl\<rparr>)
                  else (Inr (), s\<lparr>kc_now := kc_now s + d\<rparr>))"

definition dk_mark :: "(dk_client, unit) prog" where
  "dk_mark = modR (\<lambda>s. s\<lparr>kc_last := Some (kc_now s)\<rparr>)"

definition dk_limiter_wait :: "(dk_client, unit) prog" where
  "dk_limiter_wait s =
     (case kc_last s of
        None \<Rightarrow> dk_mark s
      | Some l \<Rightarrow> if kc_now s - l < dk_request_interval
                 then seqR (dk_sleep (dk_request_interval - (kc_now s - l))) dk_mark s
                 else dk_mark s)"

text \<open>The delay of a ladder and its next step.\<close>

definition ladder :: "nat \<Rightarrow> nat \<Rightarrow> nat \<times> nat" where
  "ladder b most = (min b most, min (2 * b) most)"

text \<open>\<^verbatim>\<open>time.Duration(secs) * time.Second\<close> wraps at 64 bits.\<close>

definition seconds64 :: "int \<Rightarrow> int" where
  "seconds64 n = (n * 1000000000 + 2 ^ 63) mod 2 ^ 64 - 2 ^ 63"

definition cap_duration :: "int \<Rightarrow> nat" where
  "cap_duration d = (if d \<le> 0 then 0 else if int backoff_max_429 < d then backoff_max_429 else nat d)"

definition retry_after :: "dk_api \<Rightarrow> nat \<Rightarrow> gostr \<Rightarrow> nat" where
  "retry_after api now header =
     (let h = trim_space header in
      if h = [] then 0
      else case parse_int64 h of
          Some secs \<Rightarrow> if secs < 0 then 0 else cap_duration (seconds64 secs)
        | None \<Rightarrow> (case dk_http_date api h of Some t \<Rightarrow> cap_duration (t - int now) | None \<Rightarrow> 0))"

section \<open>One request\<close>

definition dk_do :: "dk_api \<Rightarrow> dk_request \<Rightarrow> (dk_client, dk_reply) prog" where
  "dk_do api rq s =
     (case dk_server api (length (kc_log s)) rq of (dt, r) \<Rightarrow>
        let s' = s\<lparr>kc_log := kc_log s @ [(kc_now s, rq)]\<rparr>;
            arrival = kc_now s + min dt dk_timeout;
            answer = (if dk_timeout < dt then DkDropped else r)
        in case kc_deadline s of
             None \<Rightarrow> (Inr answer, s'\<lparr>kc_now := arrival\<rparr>)
           | Some dl \<Rightarrow> if dl \<le> arrival then (Inr DkDropped, s'\<lparr>kc_now := max (kc_now s) dl\<rparr>)
                       else (Inr answer, s'\<lparr>kc_now := arrival\<rparr>))"

definition exhausted :: err where
  "exhausted = Refused ''exhausted retries''"

text \<open>
  \<open>fails\<close> and \<open>limits\<close> are the retries left of either ladder, \<open>b\<close> and \<open>b429\<close> their next delays.
\<close>

function dk_post_from ::
  "dk_api \<Rightarrow> dk_request \<Rightarrow> nat \<Rightarrow> nat \<Rightarrow> nat \<Rightarrow> nat \<Rightarrow> (dk_client, dk_body) prog" where
  "dk_post_from api rq fails limits b b429 =
     seqR dk_limiter_wait
       (if \<not> dk_url_ok api (dr_url rq) then throw (Refused ''build request'')
        else bindR (dk_do api rq) (\<lambda>r.
          let failed = (case fails of 0 \<Rightarrow> throw exhausted
            | Suc f \<Rightarrow> seqR (dk_sleep (fst (ladder b dk_backoff_max)))
                (dk_post_from api rq f limits (snd (ladder b dk_backoff_max)) b429))
          in case r of
              DkDropped \<Rightarrow> failed
            | DkAnswered status header bd \<Rightarrow>
                if status = 429 then
                  (case limits of 0 \<Rightarrow> throw exhausted
                   | Suc l \<Rightarrow> bindR (getR (\<lambda>s. retry_after api (kc_now s) header)) (\<lambda>wait.
                       if wait = 0 then
                         seqR (dk_sleep (fst (ladder b429 backoff_max_429)))
                           (dk_post_from api rq fails l b (snd (ladder b429 backoff_max_429)))
                       else seqR (dk_sleep wait) (dk_post_from api rq fails l b b429)))
                else if 500 \<le> status then failed
                else if status \<noteq> 200 then throw HttpError
                else if bd = DkUnreadable then throw HttpError
                else ret bd))"
  by pat_completeness auto
termination by (relation "measure (\<lambda>(api, rq, fails, limits, b, b429). fails + limits)") auto

declare dk_post_from.simps [simp del]

definition dk_post :: "dk_api \<Rightarrow> dk_request \<Rightarrow> (dk_client, dk_body) prog" where
  "dk_post api rq = dk_post_from api rq dk_max_retries max_retries_429 dk_backoff_initial dk_backoff_initial"

definition dk_search :: "dk_api \<Rightarrow> gostr \<Rightarrow> gostr \<Rightarrow> (dk_client, case_source option) prog" where
  "dk_search api endpoint case_number =
     bindR (getR (\<lambda>s. \<lparr>dr_url = kc_base s @ [47] @ trim_space endpoint @ lit ''/_search'', dr_key = kc_key s,
                       dr_case = case_number\<rparr>)) (\<lambda>rq.
     bindR (dk_post api rq) (\<lambda>bd.
       case bd of
         DkHits hs \<Rightarrow>
           (case hs of
              [] \<Rightarrow> ret None
            | NoSource # _ \<Rightarrow> ret None
            | BadSource # _ \<Rightarrow> throw DecodeError
            | Source so # _ \<Rightarrow> ret (Some so))
       | _ \<Rightarrow> throw DecodeError))"

end
