(* ===== verification/Datajud.thy ===== *)
theory Datajud
  imports Datajud_Client
begin

text \<open>
  The DataJud worker (\<^verbatim>\<open>backend/workers/datajud/worker.go\<close>, \<^verbatim>\<open>tpu_verify.go\<close>): the verification of the
  movement table, the probe, and one poll per watched case. The lookups run concurrently and reach
  the single writer in an order given by the environment, which may drop some when the run is
  cancelled; each is made when its result is written.
\<close>

section \<open>State and environment\<close>

record dk_options =
  ko_probe_case :: gostr
  ko_probe_tribunal :: gostr
  ko_verify :: bool
  ko_strict :: bool
  ko_limit :: int
  ko_writes :: bool
  ko_mg :: bool

text \<open>\<open>ke_page\<close> is what the CNJ page of a movement code reads, \<open>ke_order\<close> the order of a Go map.\<close>

record dk_env =
  ke_api :: dk_api
  ke_page :: "gostr \<Rightarrow> err + gostr"
  ke_order :: "(gostr \<times> gostr list) list \<Rightarrow> (gostr \<times> gostr list) list"
  ke_schedule :: "watch list \<Rightarrow> watch list"

record dk_state = world +
  dk_http :: dk_client
  dk_loaded :: nat
  dk_polled :: nat
  dk_restricted :: nat
  dk_not_found :: nat
  dk_updated :: nat
  dk_concluded :: nat
  dk_probe_ok :: bool
  dk_tpu_ok :: bool
  dk_notes :: "string list"
  dk_fetch_errors :: nat

definition in_http :: "(dk_client, 'a) prog \<Rightarrow> (dk_state, 'a) prog" where
  "in_http m s = (case m (dk_http s) of (r, c) \<Rightarrow> (r, s\<lparr>dk_http := c\<rparr>))"

definition stopped :: "dk_state \<Rightarrow> bool" where
  "stopped s = (case kc_deadline (dk_http s) of None \<Rightarrow> False | Some d \<Rightarrow> d \<le> kc_now (dk_http s))"

definition note_down :: "string \<Rightarrow> (dk_state, unit) prog" where
  "note_down n = modR (\<lambda>s. s\<lparr>dk_notes := dk_notes s @ [n]\<rparr>)"

section \<open>The movement table\<close>

definition required_codes :: "(gostr \<times> gostr list) list" where
  "required_codes =
     [(lit ''51'', [lit ''receb'', lit ''den'']), (lit ''60'', [lit ''conden'']), (lit ''61'', [lit ''absolv'']),
      (lit ''848'', [lit ''senten'']), (lit ''901'', [lit ''prescri'']), (lit ''132'', [lit ''baixa'']),
      (lit ''246'', [lit ''arquiv''])]"

definition verify_code :: "(gostr \<Rightarrow> err + gostr) \<Rightarrow> gostr \<Rightarrow> gostr list \<Rightarrow> err + bool" where
  "verify_code page code keywords =
     (case page code of Inl e \<Rightarrow> Inl e | Inr b \<Rightarrow> Inr (list_all (contains (to_lower b)) keywords))"

fun verify_codes :: "(gostr \<Rightarrow> err + gostr) \<Rightarrow> (gostr \<times> gostr list) list \<Rightarrow> err + bool" where
  "verify_codes page [] = Inr True"
| "verify_codes page ((code, keywords) # rest) =
     (case verify_code page code keywords of
        Inl e \<Rightarrow> Inl e | Inr ok \<Rightarrow> if \<not> ok then Inr False else verify_codes page rest)"

definition verify_movement_codes :: "dk_env \<Rightarrow> err + bool" where
  "verify_movement_codes e = verify_codes (ke_page e) (ke_order e required_codes)"

definition verify_step :: "dk_env \<Rightarrow> dk_options \<Rightarrow> (dk_state, unit) prog" where
  "verify_step e o1 =
     (if \<not> ko_verify o1 then ret ()
      else let v = verify_movement_codes e; ok = (case v of Inl er \<Rightarrow> False | Inr b \<Rightarrow> b) in
        seqR (case v of Inl er \<Rightarrow> if ko_strict o1 then throw er
                                 else note_down ''TPU verification skipped after lookup error''
              | Inr b \<Rightarrow> ret ())
          (seqR (modR (\<lambda>s. s\<lparr>dk_tpu_ok := ok\<rparr>))
            (if ok then ret ()
             else if ko_strict o1 then throw (Refused ''TPU code verification failed'')
             else note_down ''TPU verification did not confirm all required movement labels'')))"

section \<open>The probe\<close>

text \<open>\<^verbatim>\<open>fmt.Sprintf("%v", src.Raw["numeroProcesso"])\<close> of an absent key is \<^verbatim>\<open><nil>\<close>.\<close>

definition probe_capabilities :: "case_source \<Rightarrow> bool" where
  "probe_capabilities so =
     (let numero = (if trim_space (so_numero so) = [] then trim_space (fmt_v (jget (so_raw so) ''numeroProcesso''))
                    else trim_space (so_numero so));
          movs = so_movimentos so \<noteq> [] \<or> map_of (so_raw so) (lit ''movimentos'') \<noteq> None
      in numero \<noteq> [] \<and> movs)"

definition probe_step :: "dk_env \<Rightarrow> dk_options \<Rightarrow> (dk_state, unit) prog" where
  "probe_step e o1 =
     (if trim_space (ko_probe_case o1) = [] \<or> trim_space (ko_probe_tribunal o1) = [] then ret ()
      else bindR (attemptR (in_http (dk_search (ke_api e) (ko_probe_tribunal o1) (ko_probe_case o1)))) (\<lambda>r.
        seqR (case r of Inl er \<Rightarrow> if ko_strict o1 then throw er else note_down ''probe call failed''
              | Inr x \<Rightarrow> ret ())
          (case (case r of Inl er \<Rightarrow> None | Inr x \<Rightarrow> x) of
             None \<Rightarrow> if ko_strict o1 then throw (Refused ''probe case not found'') else note_down ''probe case not found''
           | Some so \<Rightarrow>
               seqR (modR (\<lambda>s. s\<lparr>dk_probe_ok := probe_capabilities so\<rparr>))
                 (if probe_capabilities so then ret ()
                  else if ko_strict o1 then throw (Refused ''probe response missing core fields'')
                  else note_down ''probe response missing core fields''))))"

section \<open>One case\<close>

definition case_upsert :: "case_source \<Rightarrow> proceeding_upsert" where
  "case_upsert so =
     \<lparr>pu_case = so_numero so, pu_court = court_name (so_orgao so), pu_type = proceeding_type_from_classe (so_classe so),
      pu_class = proceeding_class_name (so_classe so), pu_status = lit ''ongoing'',
      pu_assuntos = assuntos_codes (so_assuntos so), pu_filed = parse_date (so_ajuizamento so)\<rparr>"

definition apply_case_writes ::
  "dk_options \<Rightarrow> watch \<Rightarrow> case_source \<Rightarrow> case_state \<Rightarrow> (dk_state, unit) prog" where
  "apply_case_writes o1 c so st =
     (if \<not> ko_mg o1 then throw (Refused ''memgraph writer is required'')
      else bindR (upsert_legal_proceeding_by_case (case_upsert so)) (\<lambda>pid.
        seqR (if wt_scandal c \<noteq> [] then ensure_investigates_edge pid (wt_scandal c) else ret ())
          (update_proceeding_case_state pid (cs_phase st) (cs_disposition st) (cs_concluded st))))"

definition touch_watch :: "dk_options \<Rightarrow> watch \<Rightarrow> (dk_state, unit) prog" where
  "touch_watch o1 c =
     (if ko_writes o1 then
        bindR (getR wall) (\<lambda>now. ignoreR (update_watcher_tracking_poll (wt_case c) (wt_movement c) (wt_status c) now))
      else ret ())"

definition last_movement :: "watch \<Rightarrow> case_source \<Rightarrow> gostr option" where
  "last_movement c so =
     (let last = max_movement_id (so_movimentos so) in if last \<noteq> [] then Some last else wt_movement c)"

definition record_case :: "dk_options \<Rightarrow> watch \<Rightarrow> case_source \<Rightarrow> (dk_state, unit) prog" where
  "record_case o1 c so =
     (let st = derive_case_state (proceeding_class_name (so_classe so)) (so_movimentos so);
          new_status = (if cs_concluded st then ''concluded'' else wt_status c)
      in seqR (if cs_concluded st then modR (\<lambda>s. s\<lparr>dk_concluded := dk_concluded s + 1\<rparr>) else ret ())
        (if \<not> ko_writes o1 then ret ()
         else seqR (apply_case_writes o1 c so st)
           (seqR (bindR (getR wall) (\<lambda>now.
               update_watcher_tracking_poll (wt_case c) (last_movement c so) new_status now))
             (modR (\<lambda>s. s\<lparr>dk_updated := dk_updated s + 1\<rparr>)))))"

definition poll_watch :: "dk_env \<Rightarrow> dk_options \<Rightarrow> watch \<Rightarrow> (dk_state, unit) prog" where
  "poll_watch e o1 c =
     bindR (attemptR (in_http (dk_search (ke_api e) (wt_endpoint c) (wt_case c)))) (\<lambda>r.
       case r of
         Inl er \<Rightarrow> bindR (getR stopped) (\<lambda>stop.
           if stop then throw er else modR (\<lambda>s. s\<lparr>dk_fetch_errors := dk_fetch_errors s + 1\<rparr>))
       | Inr src \<Rightarrow>
           seqR (modR (\<lambda>s. s\<lparr>dk_polled := dk_polled s + 1\<rparr>))
             (case src of
                None \<Rightarrow> seqR (modR (\<lambda>s. s\<lparr>dk_not_found := dk_not_found s + 1\<rparr>)) (touch_watch o1 c)
              | Some so \<Rightarrow>
                  if 0 < so_sigilo so then
                    seqR (modR (\<lambda>s. s\<lparr>dk_restricted := dk_restricted s + 1\<rparr>)) (touch_watch o1 c)
                  else record_case o1 c so))"

section \<open>The run\<close>

definition case_limit :: "int \<Rightarrow> nat \<Rightarrow> nat" where
  "case_limit l n = (if l \<le> 0 \<or> int n < l then n else nat l)"

definition poll_watches :: "dk_env \<Rightarrow> dk_options \<Rightarrow> (dk_state, unit) prog" where
  "poll_watches e o1 =
     bindR list_watcher_cases_for_poll (\<lambda>cases.
       seqR (modR (\<lambda>s. s\<lparr>dk_loaded := length cases\<rparr>))
         (forR (poll_watch e o1) (ke_schedule e (take (case_limit (ko_limit o1) (length cases)) cases))))"

definition reset_dk :: "dk_state \<Rightarrow> dk_state" where
  "reset_dk s =
     s\<lparr>dk_loaded := 0, dk_polled := 0, dk_restricted := 0, dk_not_found := 0, dk_updated := 0, dk_concluded := 0,
       dk_probe_ok := False, dk_tpu_ok := False, dk_notes := [], dk_fetch_errors := 0\<rparr>"

definition run_datajud :: "dk_env \<Rightarrow> dk_options \<Rightarrow> (dk_state, unit) prog" where
  "run_datajud e o1 =
     seqR (modR reset_dk) (seqR (verify_step e o1) (seqR (probe_step e o1) (poll_watches e o1)))"

end
