(* ===== verification/Datajud_Props.thy ===== *)
theory Datajud_Props
  imports Datajud Djen_Props
begin

text \<open>
  What the DataJud worker promises: which disposition a docket gets, how patient the client is, what a run
  may touch, and what a poll publishes. The contract between the worker and the stores is the locale
  \<open>datajud_stores\<close>.
\<close>

section \<open>The disposition of a docket\<close>

text \<open>What one movement says by itself: \<open>Some ''''\<close> is "cannot say".\<close>

definition signal :: "jobj \<Rightarrow> string option" where
  "signal m =
     (let code = movement_code m; nome = fold_pt (movement_nome m) in
      if contains nome (lit ''improceden'') \<or> code = lit ''220'' \<or> contains nome (lit ''absolvi'') then Some ''acquittal''
      else if contains nome (lit ''extincao da punibilidade'') \<or>
              contains nome (lit ''extinta a punibilidade'') \<or> code = lit ''1042'' then Some ''''
      else if contains nome (lit ''condena'') \<or> contains nome (lit ''proceden'') \<or> code = lit ''219'' \<or> code = lit ''221''
        then Some ''conviction''
      else None)"

definition ends_case :: "jobj \<Rightarrow> bool" where
  "ends_case m = concludes (movement_code m) (fold_pt (movement_nome m))"

definition last_signal :: "jobj list \<Rightarrow> string" where
  "last_signal ms = (case rev (List.map_filter signal ms) of [] \<Rightarrow> '''' | d # _ \<Rightarrow> d)"

definition judged_by :: "jobj \<Rightarrow> bool" where
  "judged_by m \<longleftrightarrow> signal m = Some ''acquittal'' \<or> signal m = Some ''conviction''"

lemma dispose_signal:
  "dispose (movement_code m) (fold_pt (movement_nome m)) st =
     (case signal m of None \<Rightarrow> st
      | Some d \<Rightarrow> if d = '''' then st\<lparr>cs_disposition := ''''\<rparr> else sentenced d st)"
  by (simp add: dispose_def signal_def Let_def)

lemma read_movement_signal:
  "read_movement criminal st m =
     \<lparr>cs_phase = (if criminal \<and> judged_by m then ''sentenced'' else cs_phase st),
      cs_disposition = (if criminal then (case signal m of None \<Rightarrow> cs_disposition st | Some d \<Rightarrow> d) else cs_disposition st),
      cs_concluded = (cs_concluded st \<or> ends_case m)\<rparr>"
proof -
  have "signal m \<in> {None, Some '''', Some ''acquittal'', Some ''conviction''}"
    by (simp add: signal_def Let_def)
  then show ?thesis
    by (cases st) (auto simp: read_movement_def Let_def dispose_signal judged_by_def ends_case_def sentenced_def)
qed

lemma map_filter_snoc: "List.map_filter f (xs @ [x]) = List.map_filter f xs @ (case f x of None \<Rightarrow> [] | Some y \<Rightarrow> [y])"
  by (simp add: List.map_filter_def split: option.split)

lemma fold_movements:
  "foldl (read_movement criminal) no_state ms =
     \<lparr>cs_phase = (if criminal \<and> list_ex judged_by ms then ''sentenced'' else ''''),
      cs_disposition = (if criminal then last_signal ms else ''''),
      cs_concluded = list_ex ends_case ms\<rparr>"
proof (induction ms rule: rev_induct)
  case Nil
  show ?case by (simp add: no_state_def last_signal_def List.map_filter_def)
next
  case (snoc m ms)
  then show ?case
    by (auto simp: read_movement_signal last_signal_def map_filter_snoc split: option.split)
qed

lemma chronological_key:
  assumes "\<And>m. m \<in> set movs \<Longrightarrow> movement_time m \<noteq> None"
  shows "arranged (\<lambda>m. the (movement_time m)) movs (movements_chronological movs)"
  unfolding movements_chronological_def
proof (rule go_stable_arranged, unfold by_key_def, intro ballI)
  fix a b assume "a \<in> set movs" "b \<in> set movs"
  then obtain s t where "movement_time a = Some s" "movement_time b = Some t"
    using assms [of a] assms [of b] by auto
  then show "movement_before a b = (the (movement_time a) < the (movement_time b))"
    by (simp add: movement_before_def)
qed

lemma last_filter_key:
  assumes "sorted_wrt (\<lambda>a b. key a \<le> (key b :: int)) L" and "filter P (filter (\<lambda>a. key a = k) L) = xs @ [m]"
    and "\<And>x. x \<in> set L \<Longrightarrow> P x \<Longrightarrow> key x \<le> k"
  shows "\<exists>ys. filter P L = ys @ [m]"
  using assms
proof (induction L arbitrary: xs)
  case (Cons x L)
  show ?case
  proof (cases "\<exists>ys. filter P (filter (\<lambda>a. key a = k) L) = ys @ [m]")
    case True
    with Cons show ?thesis by (auto split: if_splits)
  next
    case False
    with Cons.prems(2) have x: "key x = k" "P x" "filter P (filter (\<lambda>a. key a = k) L) = []" "x = m"
      by (auto split: if_splits simp: Cons_eq_append_conv)
    have "filter P L = []"
      using Cons.prems(1,3) x by (fastforce simp: filter_empty_conv)
    with x show ?thesis by simp
  qed
qed simp

lemma map_filter_last: "filter (\<lambda>m. f m \<noteq> None) L = ys @ [m] \<Longrightarrow> f m = Some d \<Longrightarrow> (case rev (List.map_filter f L) of [] \<Rightarrow> e | x # _ \<Rightarrow> x) = d"
  by (simp add: List.map_filter_def)

lemma latest_signal:
  assumes "\<And>x. x \<in> set (as @ m # bs) \<Longrightarrow> movement_time x \<noteq> None" and "signal m = Some d"
    and "\<And>x. x \<in> set as \<Longrightarrow> signal x \<noteq> None \<Longrightarrow> the (movement_time x) \<le> the (movement_time m)"
    and "\<And>x. x \<in> set bs \<Longrightarrow> signal x \<noteq> None \<Longrightarrow> the (movement_time x) < the (movement_time m)"
  shows "last_signal (movements_chronological (as @ m # bs)) = d"
proof -
  let ?key = "\<lambda>x. the (movement_time x)" and ?movs = "as @ m # bs"
  let ?L = "movements_chronological ?movs" and ?P = "\<lambda>x. signal x \<noteq> None"
  have s: "sorted_wrt (\<lambda>a b. ?key a \<le> ?key b) ?L"
    "filter (\<lambda>x. ?key x = ?key m) ?L = filter (\<lambda>x. ?key x = ?key m) ?movs"
    using chronological_key [of ?movs] assms(1) unfolding arranged_def in_key_order_def by blast+
  have "filter ?P (filter (\<lambda>x. ?key x = ?key m) bs) = []"
    using assms(4) by (fastforce simp: filter_empty_conv)
  then have "filter ?P (filter (\<lambda>x. ?key x = ?key m) ?L) = filter ?P (filter (\<lambda>x. ?key x = ?key m) as) @ [m]"
    unfolding s(2) using assms(2) by simp
  from last_filter_key [OF s(1) this] obtain ys where "filter ?P ?L = ys @ [m]"
    using assms(2-4) by (force simp: movements_chronological_def less_imp_le)
  from map_filter_last [OF this assms(2)] show ?thesis by (simp add: last_signal_def)
qed

text \<open>Up to twenty movements, one whose time cannot be read stops every later one.\<close>

lemma undated_barrier:
  assumes "movement_time u = None" and "length (xs @ u # ys) \<le> 20"
  shows "movements_chronological (xs @ u # ys) = movements_chronological xs @ u # movements_chronological ys"
proof -
  let ?f = "foldl (\<lambda>acc x. sift movement_before x acc)"
  have u: "sift movement_before u acc = u # acc" for acc
    using assms by (cases acc) (simp_all add: movement_before_def)
  have x: "sift movement_before x (acc @ u # rest) = sift movement_before x acc @ u # rest" for x acc rest
    using assms by (induction acc) (simp_all add: movement_before_def split: option.split)
  have "?f (acc @ u # rest) ys = ?f acc ys @ u # rest" for acc rest
    by (induction ys arbitrary: acc) (simp_all add: x)
  from this [of "[]"] show ?thesis
    using assms(2) by (simp add: movements_chronological_def go_stable_short slice_stable_def u)
qed

section \<open>Movement ids\<close>

lemma trim_keeps: "r \<in> set s \<Longrightarrow> \<not> is_space r \<Longrightarrow> r \<in> set (trim_space s)"
proof -
  have d: "r \<in> set (dropWhile is_space s)" if "r \<in> set s" "\<not> is_space r" for s r
    using that by (induction s) auto
  then show "r \<in> set s \<Longrightarrow> \<not> is_space r \<Longrightarrow> r \<in> set (trim_space s)"
    by (simp add: trim_space_def trim_left_space_def trim_right_space_def)
qed

lemma large_id_unread:
  assumes "jget m ''id'' = JNum neg ds pt" and "ds \<noteq> []" and "7 \<le> pt"
  shows "movement_id m = None"
proof -
  let ?i = "trim_space (fmt_num neg ds pt)"
  have e: "101 \<in> set ?i"
    using assms by (intro trim_keeps) (auto simp: fmt_num_def fmt_e_def is_space_def split: list.split)
  have "\<not> list_all is_digit (case ?i of r # t \<Rightarrow> if r = 43 \<or> r = 45 then t else ?i | [] \<Rightarrow> [])"
  proof (cases ?i)
    case (Cons r rs)
    with e have "r = 43 \<or> r = 45 \<Longrightarrow> 101 \<in> set rs" by auto
    moreover have "\<not> is_digit 101" by (simp add: is_digit_def)
    ultimately show ?thesis using e Cons by (auto simp: list_all_iff)
  qed (use e in simp)
  then have "parse_int64 ?i = None"
    unfolding parse_int64_def Let_def by simp
  then show ?thesis by (simp add: movement_id_def assms(1) Let_def)
qed

section \<open>Patience\<close>

definition failing :: "dk_reply \<Rightarrow> bool" where
  "failing r = (case r of DkDropped \<Rightarrow> True | DkAnswered st h b \<Rightarrow> st \<noteq> 429 \<and> 500 \<le> st)"

definition limited :: "dk_reply \<Rightarrow> bool" where
  "limited r = (case r of DkDropped \<Rightarrow> False | DkAnswered st h b \<Rightarrow> st = 429)"

definition serves :: "dk_body \<Rightarrow> dk_reply \<Rightarrow> bool" where
  "serves bd r = (case r of DkDropped \<Rightarrow> False | DkAnswered st h b \<Rightarrow> st = 200 \<and> b = bd \<and> bd \<noteq> DkUnreadable)"

text \<open>What the client sees of the answer to its request number \<open>i\<close>.\<close>

definition answer_to :: "dk_api \<Rightarrow> dk_request \<Rightarrow> nat \<Rightarrow> dk_reply" where
  "answer_to api rq i = (case dk_server api i rq of (dt, r) \<Rightarrow> if dk_timeout < dt then DkDropped else r)"

text \<open>The outcome without clocks: only the order of the answers and the two budgets count.\<close>

function judge :: "(nat \<Rightarrow> dk_reply) \<Rightarrow> nat \<Rightarrow> nat \<Rightarrow> nat \<Rightarrow> err + dk_body" where
  "judge f i fails limits =
     (if failing (f i) then (case fails of 0 \<Rightarrow> Inl exhausted | Suc n \<Rightarrow> judge f (i + 1) n limits)
      else if limited (f i) then (case limits of 0 \<Rightarrow> Inl exhausted | Suc n \<Rightarrow> judge f (i + 1) fails n)
      else case f i of
          DkAnswered st h b \<Rightarrow> if st \<noteq> 200 \<or> b = DkUnreadable then Inl HttpError else Inr b
        | DkDropped \<Rightarrow> Inl exhausted)"
  by pat_completeness auto
termination by (relation "measure (\<lambda>(f, i, fails, limits). fails + limits)") auto

declare judge.simps [simp del]

lemma sleep_free: "kc_deadline s = None \<Longrightarrow> dk_sleep d s = (Inr (), s\<lparr>kc_now := kc_now s + d\<rparr>)"
  by (simp add: dk_sleep_def)

lemma limiter_free:
  assumes "kc_deadline s = None"
  shows "\<exists>t. dk_limiter_wait s = (Inr (), t) \<and> kc_deadline t = None \<and> kc_log t = kc_log s"
  using assms
  by (cases "kc_last s") (simp_all add: dk_limiter_wait_def dk_mark_def seqR_def bindR_def modR_def sleep_free)

lemma do_free:
  assumes "kc_deadline s = None"
  shows "\<exists>t. dk_do api rq s = (Inr (answer_to api rq (length (kc_log s))), t) \<and> kc_deadline t = None \<and>
    length (kc_log t) = length (kc_log s) + 1"
  using assms by (simp add: dk_do_def answer_to_def Let_def split: prod.split)

text \<open>What the client does about one answer.\<close>

definition reaction :: "dk_api \<Rightarrow> dk_request \<Rightarrow> nat \<Rightarrow> nat \<Rightarrow> nat \<Rightarrow> nat \<Rightarrow> dk_reply \<Rightarrow> (dk_client, dk_body) prog" where
  "reaction api rq fails limits b b429 r =
     (let failed = (case fails of 0 \<Rightarrow> throw exhausted
        | Suc f \<Rightarrow> seqR (dk_sleep (fst (ladder b dk_backoff_max)))
            (dk_post_from api rq f limits (snd (ladder b dk_backoff_max)) b429))
      in case r of
          DkDropped \<Rightarrow> failed
        | DkAnswered status header bd \<Rightarrow>
            if status = 429 then
              (case limits of 0 \<Rightarrow> throw exhausted
               | Suc l \<Rightarrow> bindR (getR (\<lambda>s. retry_after api (kc_now s) header)) (\<lambda>wait.
                   if wait = 0 then
                     seqR (dk_sleep (fst (ladder b429 backoff_max_429)))
                       (dk_post_from api rq fails l b (snd (ladder b429 backoff_max_429)))
                   else seqR (dk_sleep wait) (dk_post_from api rq fails l b b429)))
            else if 500 \<le> status then failed
            else if status \<noteq> 200 then throw HttpError
            else if bd = DkUnreadable then throw HttpError
            else ret bd)"

lemma post_unfold:
  "dk_post_from api rq fails limits b b429 =
     seqR dk_limiter_wait
       (if \<not> dk_url_ok api (dr_url rq) then throw (Refused ''build request'')
        else bindR (dk_do api rq) (reaction api rq fails limits b b429))"
  unfolding dk_post_from.simps [of api rq fails limits b b429] reaction_def [abs_def] ..

lemma post_judge:
  assumes "kc_deadline s = None" and "dk_url_ok api (dr_url rq)"
  shows "fst (dk_post_from api rq fails limits b b429 s) = judge (answer_to api rq) (length (kc_log s)) fails limits"
  using assms(1)
proof (induction "fails + limits" arbitrary: fails limits b b429 s rule: less_induct)
  case less
  obtain t where t: "dk_limiter_wait s = (Inr (), t)" "kc_deadline t = None" "kc_log t = kc_log s"
    using limiter_free [OF less.prems] by blast
  obtain u where u: "dk_do api rq t = (Inr (answer_to api rq (length (kc_log s))), u)" "kc_deadline u = None"
    "length (kc_log u) = length (kc_log s) + 1"
    using do_free [OF t(2), of api rq] t(3) by auto
  let ?r = "answer_to api rq (length (kc_log s))"
  have waits: "fst (seqR (dk_sleep d) m u) = fst (m (u\<lparr>kc_now := kc_now u + d\<rparr>))" for d and m :: "(dk_client, dk_body) prog"
    using u(2) by (simp add: seqR_def bindR_def sleep_free)
  have ih: "fst (dk_post_from api rq f l x y (u\<lparr>kc_now := kc_now u + d\<rparr>)) = judge (answer_to api rq) (length (kc_log s) + 1) f l"
    if "f + l < fails + limits" for f l x y d
    using less.hyps [OF that, of "u\<lparr>kc_now := kc_now u + d\<rparr>"] u(2,3) by simp
  have "fst (dk_post_from api rq fails limits b b429 s) =
      (if failing ?r then (case fails of 0 \<Rightarrow> Inl exhausted | Suc n \<Rightarrow> judge (answer_to api rq) (length (kc_log s) + 1) n limits)
       else if limited ?r then (case limits of 0 \<Rightarrow> Inl exhausted | Suc n \<Rightarrow> judge (answer_to api rq) (length (kc_log s) + 1) fails n)
       else case ?r of DkAnswered st h b \<Rightarrow> if st \<noteq> 200 \<or> b = DkUnreadable then Inl HttpError else Inr b
          | DkDropped \<Rightarrow> Inl exhausted)"
  proof -
    have "fst (dk_post_from api rq fails limits b b429 s) =
        fst (reaction api rq fails limits b b429 ?r u)"
      unfolding post_unfold
      by (simp add: seqR_def [of dk_limiter_wait] bindR_def [of dk_limiter_wait] bindR_def [of "dk_do api rq"] t u assms(2))
    then show ?thesis
      by (cases ?r; cases fails; cases limits)
        (simp_all add: reaction_def Let_def failing_def limited_def waits ih throw_def ret_def bindR_def [of "getR f" for f] getR_def)
  qed
  then show ?case unfolding judge.simps [of "answer_to api rq" "length (kc_log s)" fails limits] .
qed

lemma reply_kinds: "failing r \<Longrightarrow> \<not> limited r \<and> \<not> serves bd r" "limited r \<Longrightarrow> \<not> failing r \<and> \<not> serves bd r"
  by (cases r; simp add: failing_def limited_def serves_def)+

text \<open>\<open>k\<close> answers that are retried and fit the budgets, then one that serves the body.\<close>

definition served_after :: "(nat \<Rightarrow> dk_reply) \<Rightarrow> dk_body \<Rightarrow> nat \<Rightarrow> nat \<Rightarrow> nat \<Rightarrow> nat \<Rightarrow> bool" where
  "served_after f bd i fails limits k \<longleftrightarrow>
     list_all (\<lambda>j. failing (f j) \<or> limited (f j)) [i ..< i + k] \<and>
     length (filter (\<lambda>j. failing (f j)) [i ..< i + k]) \<le> fails \<and>
     length (filter (\<lambda>j. limited (f j)) [i ..< i + k]) \<le> limits \<and> serves bd (f (i + k))"

lemma served_after_0: "served_after f bd i fails limits 0 \<longleftrightarrow> serves bd (f i)"
  by (simp add: served_after_def)

lemma served_after_Suc:
  "served_after f bd i fails limits (Suc k) \<longleftrightarrow>
     (failing (f i) \<and> (\<exists>n. fails = Suc n \<and> served_after f bd (i + 1) n limits k)) \<or>
     (limited (f i) \<and> (\<exists>n. limits = Suc n \<and> served_after f bd (i + 1) fails n k))"
proof -
  have upt: "[i ..< i + Suc k] = i # [i + 1 ..< i + 1 + k]" by (simp add: upt_conv_Cons)
  show ?thesis
    using reply_kinds [of "f i"] unfolding served_after_def upt
    by (cases fails; cases limits; auto)
qed

lemma judge_served: "judge f i fails limits = Inr bd \<longleftrightarrow> (\<exists>k. served_after f bd i fails limits k)"
proof (induction "fails + limits" arbitrary: i fails limits rule: less_induct)
  case less
  have "(\<exists>k. served_after f bd i fails limits k) \<longleftrightarrow>
      served_after f bd i fails limits 0 \<or> (\<exists>k. served_after f bd i fails limits (Suc k))"
    by (metis not0_implies_Suc)
  then have step: "(\<exists>k. served_after f bd i fails limits k) \<longleftrightarrow> serves bd (f i) \<or>
      (failing (f i) \<and> (\<exists>n. fails = Suc n \<and> (\<exists>k. served_after f bd (i + 1) n limits k))) \<or>
      (limited (f i) \<and> (\<exists>n. limits = Suc n \<and> (\<exists>k. served_after f bd (i + 1) fails n k)))"
    unfolding served_after_0 served_after_Suc by blast
  have ih: "(\<exists>k. served_after f bd (i + 1) n l k) \<longleftrightarrow> judge f (i + 1) n l = Inr bd" if "n + l < fails + limits" for n l
    using less [OF that] by simp
  show ?case
  proof (cases "failing (f i)")
    case True
    then show ?thesis using reply_kinds [of "f i" bd] ih
      unfolding step judge.simps [of f i fails limits] by (cases fails) auto
  next
    case False
    show ?thesis
    proof (cases "limited (f i)")
      case True
      then show ?thesis using reply_kinds [of "f i" bd] ih
        unfolding step judge.simps [of f i fails limits] by (cases limits) auto
    next
      case F: False
      with False show ?thesis
        unfolding step judge.simps [of f i fails limits]
        by (cases "f i") (auto simp: failing_def limited_def serves_def)
    qed
  qed
qed

text \<open>However the server answers, a lookup sends at most one request more than both budgets together.\<close>

lemma post_sends: "length (kc_log (snd (dk_post_from api rq fails limits b b429 s))) \<le> length (kc_log s) + fails + limits + 1"
proof (induction "fails + limits" arbitrary: fails limits b b429 s rule: less_induct)
  case less
  have sleep: "length (kc_log (snd (seqR (dk_sleep d) m u))) \<le> n"
    if "\<And>v. kc_log v = kc_log u \<Longrightarrow> length (kc_log (snd (m v))) \<le> n" "length (kc_log u) \<le> n"
    for d n u and m :: "(dk_client, dk_body) prog"
    using that by (auto simp: seqR_def bindR_def dk_sleep_def split: option.splits)
  have wait: "kc_log (snd (dk_limiter_wait s)) = kc_log s"
    by (auto simp: dk_limiter_wait_def dk_mark_def seqR_def bindR_def modR_def dk_sleep_def split: option.splits)
  have sent: "length (kc_log (snd (dk_do api rq t))) = length (kc_log t) + 1" for t
    by (auto simp: dk_do_def Let_def split: prod.splits option.splits)
  obtain x t where t: "dk_limiter_wait s = (x, t)" by fastforce
  have "\<exists>r. fst (dk_do api rq t) = Inr r"
    by (simp add: dk_do_def Let_def split: prod.split option.split)
  then obtain r u where u: "dk_do api rq t = (Inr r, u)" by (metis prod.collapse)
  have lt: "kc_log t = kc_log s" "length (kc_log u) = length (kc_log s) + 1"
    using wait sent [of t] t u by auto
  have ih: "length (kc_log (snd (dk_post_from api rq f l y z v))) \<le> length (kc_log s) + fails + limits + 1"
    if "f + l < fails + limits" "kc_log v = kc_log u" for f l y z v
    using less [OF that(1), of y z v] that lt by simp
  have waits: "length (kc_log (snd (seqR (dk_sleep d) (dk_post_from api rq f l y z) u))) \<le> length (kc_log s) + fails + limits + 1"
    if "f + l < fails + limits" for d f l y z
    by (rule sleep) (use ih [OF that] lt in auto)
  have known: "length (kc_log s) + 1 \<le> length (kc_log s) + fails + limits + 1" by simp
  show ?case
  proof (cases x)
    case (Inl e)
    then show ?thesis
      unfolding post_unfold using t lt by (simp add: seqR_def bindR_def)
  next
    case (Inr a)
    have "snd (dk_post_from api rq fails limits b b429 s) =
        (if \<not> dk_url_ok api (dr_url rq) then t
         else snd (reaction api rq fails limits b b429 r u))"
      unfolding post_unfold
      by (simp add: seqR_def [of dk_limiter_wait] bindR_def [of dk_limiter_wait] bindR_def [of "dk_do api rq"] t u Inr throw_def)
    then show ?thesis
      using lt waits
      by (cases r; cases fails; cases limits)
        (simp_all add: reaction_def Let_def throw_def ret_def bindR_def [of "getR f" for f] getR_def)
  qed
qed

section \<open>The contract of the stores\<close>

locale datajud_stores = world_order R for R :: "dk_state \<Rightarrow> dk_state \<Rightarrow> bool" +
  assumes stats: "world.truncate s = world.truncate t \<Longrightarrow> R s t"
    and poll_row: "moves R (update_watcher_tracking_poll c mv st now)"
    and proceeding: "moves R (upsert_legal_proceeding_by_case u)"
    and investigates: "moves R (ensure_investigates_edge pid sc)"
    and state: "moves R (update_proceeding_case_state pid ph d b)"
begin

lemma stat: "(\<And>s. world.truncate (f s) = world.truncate s) \<Longrightarrow> moves R (modR f)"
  by (rule modR) (rule stats, simp)

lemma note_down [order_intros]: "moves R (note_down n)"
  unfolding note_down_def by (rule stat) (simp add: world.truncate_def)

lemma in_http [order_intros]: "moves R (in_http m)"
  by (rule movesI, rule stats) (simp add: in_http_def world.truncate_def split: prod.split)

lemma verify_step: "moves R (verify_step e o1)"
  unfolding verify_step_def Let_def
  by (intro moves_if ret seqR moves_sum throw note_down stat) (simp add: world.truncate_def)

lemma probe_step: "moves R (probe_step e o1)"
  unfolding probe_step_def
  by (intro moves_if ret seqR bindR attemptR in_http moves_sum moves_option throw note_down stat)
    (simp add: world.truncate_def)

lemma record_case: "moves R (record_case o1 c so)"
  unfolding record_case_def apply_case_writes_def Let_def
  by (intro seqR bindR moves_if ret throw proceeding investigates state poll_row getR stat)
    (simp_all add: world.truncate_def)

lemma poll_watch: "moves R (poll_watch e o1 c)"
  unfolding poll_watch_def touch_watch_def
  by (intro bindR attemptR in_http moves_sum moves_if throw seqR moves_option record_case ignoreR poll_row getR ret stat)
    (simp_all add: world.truncate_def)

lemma run: "moves R (run_datajud e o1)"
  unfolding run_datajud_def poll_watches_def
  by (intro seqR bindR verify_step probe_step case_reads forR poll_watch stat)
    (simp_all add: world.truncate_def reset_dk_def)

end

section \<open>Case level only\<close>

text \<open>
  A run changes proceedings and their \<^verbatim>\<open>INVESTIGATES\<close> relationships and, of the watch list, what the last
  poll said; no person, no claim about one, no review, no tombstone.
\<close>

definition is_case :: "node \<Rightarrow> bool" where
  "is_case n = has_label ''LegalProceeding'' n"

definition watched :: "watch \<Rightarrow> watch" where
  "watched w = w\<lparr>wt_movement := None, wt_status := '''', wt_polled := None\<rparr>"

definition case_level :: "'z world_scheme \<Rightarrow> 'z world_scheme \<Rightarrow> bool" where
  "case_level s t \<longleftrightarrow>
     filter (\<lambda>n. \<not> is_case n) (g_nodes (graph s)) = filter (\<lambda>n. \<not> is_case n) (g_nodes (graph t)) \<and>
     filter (\<lambda>e. e_type e \<noteq> ''INVESTIGATES'') (g_edges (graph s)) = filter (\<lambda>e. e_type e \<noteq> ''INVESTIGATES'') (g_edges (graph t)) \<and>
     List.map watched (watches s) = List.map watched (watches t) \<and>
     tombs s = tombs t \<and> reviews s = reviews t \<and> snapshots s = snapshots t \<and> aliases s = aliases t \<and>
     import_states s = import_states t"

interpretation case_level: world_order case_level
  by unfold_locales (simp_all add: case_level_def)

lemma poll_row_watches:
  assumes "world_order R" and "\<And>s ws. List.map watched ws = List.map watched (watches s) \<Longrightarrow> R s (s\<lparr>watches := ws\<rparr>)"
  shows "moves R (update_watcher_tracking_poll c mv st now)"
  unfolding update_watcher_tracking_poll_def update_watch_def
  by (rule world_order.sql [OF assms(1)], rule assms(2)) (simp add: watched_def)

lemma other_nodes_map:
  assumes "\<And>n. is_case n \<Longrightarrow> is_case (f n)" and "\<And>n. P n \<Longrightarrow> is_case n"
  shows "filter (\<lambda>n. \<not> is_case n) (g_nodes (map_nodes P f g)) = filter (\<lambda>n. \<not> is_case n) (g_nodes g)"
proof -
  have "filter (\<lambda>n. \<not> is_case n) (List.map (\<lambda>n. if P n then f n else n) ns) = filter (\<lambda>n. \<not> is_case n) ns" for ns
    using assms by (induction ns) auto
  then show ?thesis by simp
qed

lemma other_nodes_proceeding:
  "filter (\<lambda>n. \<not> is_case n) (g_nodes (fst (merge_proceeding u g))) = filter (\<lambda>n. \<not> is_case n) (g_nodes g)"
proof (cases "match_nodes ''LegalProceeding'' (prop_is ''case_number'' (PStr (pu_case u))) g = []")
  case True
  then show ?thesis by (simp add: merge_proceeding_fst merge_node_def Let_def is_case_def) (simp add: has_label_def)
next
  case False
  then show ?thesis
    by (simp add: merge_proceeding_fst merge_node_def Let_def del: map_nodes_sel(3))
      (rule other_nodes_map, auto simp: is_case_def)
qed

lemma merge_proceeding_edges: "g_edges (fst (merge_proceeding u g)) = g_edges g"
  by (simp add: merge_proceeding_fst)

lemma case_state_sel [simp]:
  "has_label l (case_state_props ph d b n) = has_label l n"
  "n_key (case_state_props ph d b n) = n_key n" "n_props (case_state_props ph d b n) ''cpf'' = n_props n ''cpf''"
  "n_props (case_state_props ph d b n) ''cnpj'' = n_props n ''cnpj''"
  "n_props (case_state_props ph d b n) ''name'' = n_props n ''name''"
  "n_props (case_state_props ph d b n) ''id'' = n_props n ''id''"
  "n_props (case_state_props ph d b n) ''case_number'' = n_props n ''case_number''"
  by (simp_all add: case_state_props_def upd_props_lookup)

lemma other_nodes_state:
  "filter (\<lambda>n. \<not> is_case n) (g_nodes (map_nodes (\<lambda>n. has_label ''LegalProceeding'' n \<and> Q n) (case_state_props ph d b) g))
     = filter (\<lambda>n. \<not> is_case n) (g_nodes g)"
  by (rule other_nodes_map) (simp_all add: is_case_def)

interpretation case_run: datajud_stores case_level
proof unfold_locales
  fix s t :: dk_state and c mv st now u pid sc ph d b
  show "world.truncate s = world.truncate t \<Longrightarrow> case_level s t"
    using truncate_watch [of s t] by (simp add: case_level_def)
  show "moves case_level (update_watcher_tracking_poll c mv st now :: (dk_state, unit) prog)"
    by (rule poll_row_watches, unfold_locales) (simp add: case_level_def)
  show "moves case_level (upsert_legal_proceeding_by_case u :: (dk_state, gostr) prog)"
    by (rule case_level.upsert_legal_proceeding, rule case_level.cypher)
      (simp add: case_level_def other_nodes_proceeding merge_proceeding_edges)
  show "moves case_level (ensure_investigates_edge pid sc :: (dk_state, unit) prog)"
    unfolding ensure_investigates_edge_def
    by (rule case_level.cypher) (simp add: case_level_def frame_edges)
  show "moves case_level (update_proceeding_case_state pid ph d b :: (dk_state, unit) prog)"
    unfolding update_proceeding_case_state_def
    by (rule case_level.cypher) (simp add: case_level_def other_nodes_state del: map_nodes_sel(3))
qed

section \<open>Nobody comes back, and the graph stays well-formed\<close>

lemma no_revival_same_nodes: "g_nodes (graph s) = g_nodes (graph t) \<Longrightarrow> tombs s = tombs t \<Longrightarrow> no_revival s t"
  by (simp add: no_revival_def revives_none_nodes)

interpretation rev_run: datajud_stores no_revival
proof unfold_locales
  fix s t :: dk_state and c mv st now u pid sc ph d b
  show "world.truncate s = world.truncate t \<Longrightarrow> no_revival s t"
    using truncate_watch [of s t] by (simp add: no_revival_same_nodes)
  show "moves no_revival (update_watcher_tracking_poll c mv st now :: (dk_state, unit) prog)"
    by (rule poll_row_watches, unfold_locales) (simp add: no_revival_same_nodes)
  show "moves no_revival (upsert_legal_proceeding_by_case u :: (dk_state, gostr) prog)"
    by (rule no_revival_proceeding)
  show "moves no_revival (ensure_investigates_edge pid sc :: (dk_state, unit) prog)"
    unfolding ensure_investigates_edge_def by (rule no_revival_cypher) (simp add: revives_none_nodes)
  show "moves no_revival (update_proceeding_case_state pid ph d b :: (dk_state, unit) prog)"
    unfolding update_proceeding_case_state_def
    by (rule no_revival_cypher) (simp add: revives_none_map continues_def)
qed

interpretation wf_dk: datajud_stores keeps_wf
proof unfold_locales
  fix s t :: dk_state and c mv st now u pid sc ph d b
  show "world.truncate s = world.truncate t \<Longrightarrow> keeps_wf s t"
    using truncate_watch [of s t] by (simp add: keeps_wf_def)
  show "moves keeps_wf (update_watcher_tracking_poll c mv st now :: (dk_state, unit) prog)"
    by (rule poll_row_watches, unfold_locales) (simp add: keeps_wf_def)
  show "moves keeps_wf (upsert_legal_proceeding_by_case u :: (dk_state, gostr) prog)"
    by (rule wf_proceeding)
  show "moves keeps_wf (ensure_investigates_edge pid sc :: (dk_state, unit) prog)"
    unfolding ensure_investigates_edge_def
    by (rule keeps_wf_cypher) (auto intro!: wf_merge_edges simp: node_pairs_iff match_nodes_def)
  show "moves keeps_wf (update_proceeding_case_state pid ph d b :: (dk_state, unit) prog)"
    unfolding update_proceeding_case_state_def
    by (rule keeps_wf_cypher) (simp add: wf_map_nodes)
qed

section \<open>A run without writes\<close>

lemma no_write_if: "\<not> ko_writes o1 \<Longrightarrow> moves R k \<Longrightarrow> moves R (if ko_writes o1 then m else k)"
  "\<not> ko_writes o1 \<Longrightarrow> moves R k \<Longrightarrow> moves R (if \<not> ko_writes o1 then k else m)"
  by simp_all

lemma same_stores_http: "moves same_stores (in_http m)"
  by (rule movesI) (simp add: in_http_def same_stores_def split: prod.split)

lemma same_stores_note: "moves same_stores (note_down n)"
  unfolding note_down_def by (rule same_stores_stat) (simp add: world.truncate_def)

lemma read_only:
  assumes "\<not> ko_writes o1" shows "moves same_stores (run_datajud e o1)"
proof -
  note intros = no_write_if [OF assms] dry_intros same_stores_http same_stores_note same_stores_stat
  have "moves same_stores (poll_watch e o1 c)" for c
    unfolding poll_watch_def touch_watch_def record_case_def Let_def
    by (intro intros) (simp_all add: world.truncate_def)
  moreover have "moves same_stores (verify_step e o1)"
    unfolding verify_step_def Let_def by (intro intros) (simp add: world.truncate_def)
  moreover have "moves same_stores (probe_step e o1)"
    unfolding probe_step_def by (intro intros) (simp add: world.truncate_def)
  ultimately show ?thesis
    unfolding run_datajud_def poll_watches_def
    by (intro intros) (simp_all add: world.truncate_def reset_dk_def)
qed

section \<open>What a poll publishes\<close>

lemma upsert_ok:
  assumes "upsert_legal_proceeding_by_case u s = (Inr i, t)"
  shows "\<exists>n \<in> set (g_nodes (graph t)). has_label ''LegalProceeding'' n \<and>
    n_props n ''case_number'' = Some (PStr (pu_case u)) \<and> str_prop (n_props n) ''id'' = i \<and>
    (pu_status u \<noteq> [] \<longrightarrow> n_props n ''status'' = Some (PStr (pu_status u)))"
proof -
  let ?f = "proceeding_facts u" and ?g = "graph s"
  let ?P = "prop_is ''case_number'' (PStr (pu_case u))"
  have f: "n_props (?f n) ''case_number'' = n_props n ''case_number''"
    "pu_status u \<noteq> [] \<Longrightarrow> n_props (?f n) ''status'' = Some (PStr (pu_status u))" for n
    by (simp_all add: proceeding_facts_def upd_props_lookup unless_empty_def)
  obtain ys where c: "cypher (merge_proceeding u) s = (Inr (i # ys), t)"
    using assms unfolding upsert_legal_proceeding_by_case_def by (auto simp: run_ok)
  have i: "i \<in> set (snd (merge_proceeding u ?g))" and g: "graph t = fst (merge_proceeding u ?g)"
    using cypher_result [OF c] by simp_all
  show ?thesis
  proof (cases "match_nodes ''LegalProceeding'' ?P ?g = []")
    case True
    then show ?thesis using i g
      by (auto simp: merge_proceeding_def merge_node_def Let_def f) (auto simp: has_label_def)
  next
    case False
    then obtain n where n: "n \<in> set (match_nodes ''LegalProceeding'' ?P ?g)" "i = str_prop (n_props (?f n)) ''id''"
      using i by (auto simp: merge_proceeding_def merge_node_def Let_def)
    then have "?f n \<in> set (g_nodes (graph t))"
      using False g by (auto simp: merge_proceeding_def merge_node_def Let_def match_nodes_def intro!: image_eqI [of _ _ n])
    then show ?thesis
      using n f by (intro bexI [of _ "?f n"]) (auto simp: match_nodes_def prop_is_def)
  qed
qed

lemma same_nodes_investigates:
  assumes "ensure_investigates_edge pid sc s = (Inr u, t)" shows "g_nodes (graph t) = g_nodes (graph s)"
proof -
  have "graph t = fst (graph t, u)" by simp
  also have "\<dots> = merge_edges (node_pairs (match_nodes ''LegalProceeding'' (prop_is ''id'' (PStr pid)) (graph s))
      (match_nodes ''Scandal'' (prop_is ''id'' (PStr sc)) (graph s))) ''INVESTIGATES'' [] (\<lambda>p. p) (graph s)"
    using cypher_result [OF assms [unfolded ensure_investigates_edge_def]] by simp
  finally show ?thesis by simp
qed

lemma state_written:
  assumes "update_proceeding_case_state pid ph d b s = (Inr u, t)" and "n \<in> set (g_nodes (graph s))"
    and "has_label ''LegalProceeding'' n" and "n_props n ''id'' = Some (PStr pid)"
  shows "case_state_props ph d b n \<in> set (g_nodes (graph t))"
proof -
  have "graph t = map_nodes (\<lambda>n. has_label ''LegalProceeding'' n \<and> prop_is ''id'' (PStr pid) n) (case_state_props ph d b) (graph s)"
    using cypher_result [OF assms(1) [unfolded update_proceeding_case_state_def]] by simp
  with assms(2-4) show ?thesis by (auto simp: prop_is_def intro!: image_eqI [of _ _ n])
qed

lemma poll_row_graph:
  assumes "update_watcher_tracking_poll c mv st now s = (r, t)" shows "graph t = graph s"
proof -
  have "moves same_graph (update_watcher_tracking_poll c mv st now)"
    by (rule poll_row_watches, unfold_locales) (simp add: same_graph_def)
  from movesD [OF this, of s] assms show ?thesis by (simp add: same_graph_def)
qed

lemma upsert_ids:
  assumes "upsert_legal_proceeding_by_case u s = (Inr i, t)"
    and "\<And>n. n \<in> set (g_nodes (graph s)) \<Longrightarrow> is_case n \<Longrightarrow> \<exists>x. n_props n ''id'' = Some (PStr x)"
    and "n \<in> set (g_nodes (graph t))" and "is_case n"
  shows "\<exists>x. n_props n ''id'' = Some (PStr x)"
proof -
  obtain ys where c: "cypher (merge_proceeding u) s = (Inr (i # ys), t)"
    using assms(1) unfolding upsert_legal_proceeding_by_case_def by (auto simp: run_ok)
  then have "graph t = fst (merge_proceeding u (graph s))"
    using cypher_result by fastforce
  with assms(2-4) show ?thesis
    by (auto simp: merge_proceeding_fst merge_node_def Let_def is_case_def split: if_splits)
qed

lemma record_publishes:
  assumes "record_case o1 c so s = (Inr u, t)" and "ko_writes o1"
    and ids: "\<And>n. n \<in> set (g_nodes (graph s)) \<Longrightarrow> is_case n \<Longrightarrow> \<exists>x. n_props n ''id'' = Some (PStr x)"
    and st: "st = derive_case_state (proceeding_class_name (so_classe so)) (so_movimentos so)"
  shows "\<exists>n \<in> set (g_nodes (graph t)). is_case n \<and> n_props n ''case_number'' = Some (PStr (so_numero so)) \<and>
    n_props n ''has_conviction'' = conviction_prop (cs_disposition st) \<and>
    n_props n ''status'' = Some (PStr (lit (if cs_concluded st then ''concluded'' else ''ongoing'')))"
proof -
  let ?count = "if cs_concluded st then modR (\<lambda>s. s\<lparr>dk_concluded := dk_concluded s + 1\<rparr>) else ret ()"
  let ?rest = "seqR (apply_case_writes o1 c so st) (seqR (bindR (getR wall) (\<lambda>now. update_watcher_tracking_poll (wt_case c)
        (last_movement c so) (if cs_concluded st then ''concluded'' else wt_status c) now))
      (modR (\<lambda>s. s\<lparr>dk_updated := dk_updated s + 1\<rparr>)))"
  have "seqR ?count ?rest s = (Inr u, t)"
    using assms(1,2) by (simp add: record_case_def Let_def st)
  from iffD1 [OF seqR_Inr this] obtain a s1 where first: "?count s = (Inr a, s1)" and rest: "?rest s1 = (Inr u, t)"
    by blast
  have 1: "graph s1 = graph s" using first by (auto simp: modR_def split: if_splits)
  obtain x s2 where w: "apply_case_writes o1 c so st s1 = (Inr x, s2)" and 2: "graph t = graph s2"
    using rest by (auto simp: seqR_Inr bindR_Inr modR_def dest!: poll_row_graph)
  obtain pid s3 s4 where p: "upsert_legal_proceeding_by_case (case_upsert so) s1 = (Inr pid, s3)"
    and i: "g_nodes (graph s4) = g_nodes (graph s3)"
    and u: "update_proceeding_case_state pid (cs_phase st) (cs_disposition st) (cs_concluded st) s4 = (Inr x, s2)"
    using w by (auto simp: apply_case_writes_def seqR_Inr bindR_Inr dest!: same_nodes_investigates split: if_splits)
  obtain n where n: "n \<in> set (g_nodes (graph s3))" "has_label ''LegalProceeding'' n"
    "n_props n ''case_number'' = Some (PStr (so_numero so))" "str_prop (n_props n) ''id'' = pid"
    "n_props n ''status'' = Some (PStr (lit ''ongoing''))"
    using upsert_ok [OF p] by (auto simp: case_upsert_def)
  then have "n_props n ''id'' = Some (PStr pid)"
    using upsert_ids [OF p _ n(1)] ids 1 by (auto simp: is_case_def str_prop_def)
  from state_written [OF u _ n(2) this] n(1) i 2 have "case_state_props (cs_phase st) (cs_disposition st) (cs_concluded st) n \<in> set (g_nodes (graph t))"
    by simp
  then show ?thesis
    by (rule bexI [rotated]) (use n in \<open>simp add: is_case_def, simp add: case_state_props_def upd_props_lookup\<close>)
qed

section \<open>A number in two spellings\<close>

lemma ids_unique_appendD: "ids_unique (g\<lparr>g_nodes := ns @ [m], g_next := k\<rparr>) \<Longrightarrow> n \<in> set ns \<Longrightarrow> \<not> id_clash n m"
  by (simp add: ids_unique_def sorted_wrt_append)

lemma clashing_upsert:
  assumes "n \<in> set (g_nodes (graph s))" and "has_label ''LegalProceeding'' n"
    and "n_props n ''id'' = Some (PStr (legal_proceeding_id (pu_case u)))"
    and "match_nodes ''LegalProceeding'' (prop_is ''case_number'' (PStr (pu_case u))) (graph s) = []"
  shows "fst (upsert_legal_proceeding_by_case u s) = Inl DbError"
proof -
  let ?c = "set_props [(''id'', Some (PStr (legal_proceeding_id (pu_case u)))), (''status'', Some (PStr (lit ''ongoing'')))]
    (Map.empty(''case_number'' \<mapsto> PStr (pu_case u)))"
  let ?m = "proceeding_facts u \<lparr>n_key = g_next (graph s), n_labels = [''LegalProceeding''], n_props = ?c\<rparr>"
  have "id_clash n ?m"
    using assms(2,3) by (simp add: id_clash_def unique_labels_def) (simp add: has_label_def)
  moreover have "fst (merge_proceeding u (graph s)) = graph s\<lparr>g_nodes := g_nodes (graph s) @ [?m], g_next := g_next (graph s) + 1\<rparr>"
    using assms(4) by (simp add: merge_proceeding_fst merge_node_def Let_def)
  ultimately have "\<not> ids_unique (fst (merge_proceeding u (graph s)))"
    using ids_unique_appendD assms(1) by metis
  then have "fst (cypher (merge_proceeding u) s) = Inl DbError"
    by (simp add: cypher_def db_call_def run_cypher_def case_prod_beta split: list.split fault.split)
  then show ?thesis
    by (cases "cypher (merge_proceeding u) s") (simp add: upsert_legal_proceeding_by_case_def bindR_def)
qed

section \<open>A run that cannot fail\<close>

text \<open>From a calm state (no deadline, no fault to come) the program returns, and leaves a calm state.\<close>

definition calm :: "dk_state \<Rightarrow> bool" where
  "calm s \<longleftrightarrow> kc_deadline (dk_http s) = None \<and> faults s = []"

definition returns :: "(dk_state, 'a) prog \<Rightarrow> bool" where
  "returns m \<longleftrightarrow> (\<forall>s. calm s \<longrightarrow> (\<exists>a t. m s = (Inr a, t) \<and> calm t))"

lemma returns_ret: "returns (ret a)"
  by (simp add: returns_def ret_def)

lemma returns_getR: "returns (getR f)"
  by (simp add: returns_def getR_def)

lemma returns_bindR: "returns m \<Longrightarrow> (\<And>a. returns (k a)) \<Longrightarrow> returns (bindR m k)"
  unfolding returns_def bindR_def by fastforce

lemma returns_seqR: "returns m \<Longrightarrow> returns k \<Longrightarrow> returns (seqR m k)"
  unfolding seqR_def by (rule returns_bindR)

lemma returns_modR: "(\<And>s. calm s \<Longrightarrow> calm (f s)) \<Longrightarrow> returns (modR f)"
  by (simp add: returns_def modR_def)

lemma returns_forR: "(\<And>x. returns (f x)) \<Longrightarrow> returns (forR f xs)"
  by (induction xs) (simp_all add: returns_ret returns_seqR)

lemma returns_if: "(b \<Longrightarrow> returns m) \<Longrightarrow> (\<not> b \<Longrightarrow> returns k) \<Longrightarrow> returns (if b then m else k)"
  by simp

lemma returns_option: "returns m \<Longrightarrow> (\<And>a. returns (k a)) \<Longrightarrow> returns (case x of None \<Rightarrow> m | Some a \<Rightarrow> k a)"
  by (cases x) simp_all

lemma returns_sum: "(\<And>e. returns (m e)) \<Longrightarrow> (\<And>a. returns (k a)) \<Longrightarrow> returns (case x of Inl e \<Rightarrow> m e | Inr a \<Rightarrow> k a)"
  by (cases x) simp_all

text \<open>The client never changes the deadline.\<close>

definition same_deadline :: "dk_client \<Rightarrow> dk_client \<Rightarrow> bool" where
  "same_deadline s t \<longleftrightarrow> kc_deadline s = kc_deadline t"

interpretation same_deadline: state_order same_deadline
  by unfold_locales (simp_all add: same_deadline_def)

lemma deadline_sleep: "moves same_deadline (dk_sleep d)"
  by (rule movesI) (simp add: dk_sleep_def same_deadline_def split: option.split)

lemma deadline_limiter: "moves same_deadline dk_limiter_wait"
  by (rule movesI)
    (auto simp: dk_limiter_wait_def dk_mark_def dk_sleep_def same_deadline_def seqR_def bindR_def modR_def split: option.splits)

lemma deadline_do: "moves same_deadline (dk_do api rq)"
  by (rule movesI) (auto simp: dk_do_def same_deadline_def Let_def split: prod.splits option.splits)

lemma deadline_post: "moves same_deadline (dk_post_from api rq fails limits b b429)"
proof (induction "fails + limits" arbitrary: fails limits b b429 rule: less_induct)
  case less
  have "moves same_deadline (reaction api rq fails limits b b429 r)" for r
    unfolding reaction_def Let_def
    by (cases r; cases fails; cases limits)
      (auto intro!: same_deadline.seqR same_deadline.bindR same_deadline.getR same_deadline.throw same_deadline.ret
        deadline_sleep less)
  then show ?case
    unfolding post_unfold
    by (intro same_deadline.seqR same_deadline.bindR moves_if same_deadline.throw deadline_limiter deadline_do)
qed

lemma deadline_search: "moves same_deadline (dk_search api ep c)"
  unfolding dk_search_def dk_post_def
  by (intro same_deadline.bindR same_deadline.getR deadline_post)
    (auto split: dk_body.split list.split hit.split intro: same_deadline.throw same_deadline.ret)

lemma returns_lookup: "returns (attemptR (in_http (dk_search api ep c)))"
proof -
  have "kc_deadline (snd (dk_search api ep c x)) = kc_deadline x" for x
    using movesD [OF deadline_search, of x api ep c] by (simp add: same_deadline_def)
  then show ?thesis
    by (auto simp: returns_def attemptR_def in_http_def calm_def split: prod.split) (metis snd_conv)+
qed

lemma calm_not_stopped: "calm s \<Longrightarrow> \<not> stopped s"
  by (simp add: calm_def stopped_def)

lemma returns_unless_stopped: "returns k \<Longrightarrow> returns (bindR (getR stopped) (\<lambda>stop. if stop then throw er else k))"
  using calm_not_stopped by (simp add: returns_def bindR_def getR_def)

lemma read_only_returns:
  assumes "\<not> ko_writes o1" and "\<not> ko_strict o1" shows "returns (run_datajud e o1)"
proof -
  note intros = returns_if returns_seqR returns_bindR returns_sum returns_option returns_ret returns_lookup
    returns_unless_stopped
  have stat: "returns (modR f)" if "\<And>s. dk_http (f s) = dk_http s \<and> faults (f s) = faults s" for f
    using that by (intro returns_modR) (simp add: calm_def)
  have noted: "returns (note_down n)" for n
    unfolding note_down_def by (rule stat) simp
  have "returns list_watcher_cases_for_poll"
    by (simp add: returns_def list_watcher_cases_for_poll_def sql_read_def db_call_def getR_def calm_def)
  moreover have "returns (poll_watch e o1 c)" for c
    unfolding poll_watch_def touch_watch_def record_case_def Let_def
    by (intro intros stat) (use assms in simp_all)
  moreover have "returns (verify_step e o1)"
    unfolding verify_step_def Let_def by (intro intros noted stat) (use assms in simp_all)
  moreover have "returns (probe_step e o1)"
    unfolding probe_step_def by (intro intros noted stat) (use assms in simp_all)
  ultimately show ?thesis
    unfolding run_datajud_def poll_watches_def
    by (intro intros returns_forR stat) (simp_all add: reset_dk_def)
qed

section \<open>Properties\<close>

text \<open>C25: the state machine refines a reference definition: a docket is concluded when some movement ends the
  case; it has a disposition only if its class is criminal, and then the one of the last movement, in
  chronological order, that says anything; it is sentenced when some movement convicts or acquits.\<close>

theorem disposition_is_last_signal:
  "derive_case_state class_name movs =
     \<lparr>cs_phase = (if criminal_class class_name \<and> list_ex judged_by (movements_chronological movs) then ''sentenced'' else ''''),
      cs_disposition = (if criminal_class class_name then last_signal (movements_chronological movs) else ''''),
      cs_concluded = list_ex ends_case (movements_chronological movs)\<rparr>"
  unfolding derive_case_state_def by (rule fold_movements)

text \<open>No disposition is latched: if every movement of a criminal docket has a readable time, the disposition is
  that of the latest movement that says anything, wherever it stands in the list; of several at that
  time the last one listed. A later acquittal clears a conviction, a later extinction clears both.\<close>

theorem latest_movement_decides:
  assumes "criminal_class class_name" and "\<And>x. x \<in> set (as @ m # bs) \<Longrightarrow> movement_time x \<noteq> None" and "signal m = Some d"
    and "\<And>x. x \<in> set as \<Longrightarrow> signal x \<noteq> None \<Longrightarrow> the (movement_time x) \<le> the (movement_time m)"
    and "\<And>x. x \<in> set bs \<Longrightarrow> signal x \<noteq> None \<Longrightarrow> the (movement_time x) < the (movement_time m)"
  shows "cs_disposition (derive_case_state class_name (as @ m # bs)) = d"
  using latest_signal [OF assms(2-5)] assms(1)
  unfolding derive_case_state_def fold_movements by simp

definition movement :: "string \<Rightarrow> string \<Rightarrow> jobj" where
  "movement nome at_time = [(lit ''nome'', JStr (lit nome)), (lit ''dataHora'', JStr (lit at_time))]"

theorem latest_movement_decides_witness:
  "cs_disposition (derive_case_state (lit ''Acao Penal'')
     ([] @ movement ''Absolvicao'' ''2024-05-01T00:00:00Z'' # [movement ''Condenacao'' ''2023-01-02''])) = ''acquittal''"
proof (rule latest_movement_decides)
  have c: "signal (movement ''Condenacao'' ''2023-01-02'') = Some ''conviction''" by code_simp
  have t: "movement_time (movement ''Absolvicao'' ''2024-05-01T00:00:00Z'') = Some 63881740800000000000"
    "movement_time (movement ''Condenacao'' ''2023-01-02'') = Some 63839836800000000000" by code_simp+
  show "criminal_class (lit ''Acao Penal'')" by code_simp
  show "signal (movement ''Absolvicao'' ''2024-05-01T00:00:00Z'') = Some ''acquittal''" by code_simp
  fix x assume "x \<in> set ([] @ movement ''Absolvicao'' ''2024-05-01T00:00:00Z'' # [movement ''Condenacao'' ''2023-01-02''])"
  then show "movement_time x \<noteq> None" using t by auto
next
  fix x assume "x \<in> set [movement ''Condenacao'' ''2023-01-02'']"
  moreover have "movement_time (movement ''Absolvicao'' ''2024-05-01T00:00:00Z'') = Some 63881740800000000000"
    "movement_time (movement ''Condenacao'' ''2023-01-02'') = Some 63839836800000000000" by code_simp+
  ultimately show "the (movement_time x) < the (movement_time (movement ''Absolvicao'' ''2024-05-01T00:00:00Z''))" by simp
qed simp

text \<open>One movement whose time cannot be read is a barrier: up to the twenty movements Go sorts by
  insertion, those listed before it stay before it and those after it after it, whatever their times.\<close>

theorem undated_movement_is_barrier:
  assumes "movement_time u = None" and "length (xs @ u # ys) \<le> 20"
  shows "movements_chronological (xs @ u # ys) = movements_chronological xs @ u # movements_chronological ys"
  using assms by (rule undated_barrier)

theorem undated_movement_is_barrier_witness:
  "cs_disposition (derive_case_state (lit ''Acao Penal'')
     ([movement ''Absolvicao'' ''2024-05-01''] @ movement ''Conclusao'' ''?'' # [movement ''Condenacao'' ''2023-01-02''])) = ''conviction''"
proof -
  have "movement_time (movement ''Conclusao'' ''?'') = None" by code_simp
  from undated_movement_is_barrier [OF this, of "[movement ''Absolvicao'' ''2024-05-01'']" "[movement ''Condenacao'' ''2023-01-02'']"]
  have "movements_chronological ([movement ''Absolvicao'' ''2024-05-01''] @ movement ''Conclusao'' ''?'' # [movement ''Condenacao'' ''2023-01-02'']) =
      [movement ''Absolvicao'' ''2024-05-01'', movement ''Conclusao'' ''?'', movement ''Condenacao'' ''2023-01-02'']"
    by (simp add: movements_chronological_def go_stable_short slice_stable_def)
  moreover have "last_signal [movement ''Absolvicao'' ''2024-05-01'', movement ''Conclusao'' ''?'', movement ''Condenacao'' ''2023-01-02''] = ''conviction''"
    "criminal_class (lit ''Acao Penal'')" by code_simp+
  ultimately show ?thesis
    by (simp only: derive_case_state_def fold_movements) simp
qed

text \<open>With one movement more it is none: the twenty-first movement, if it is earlier than the others, is merged to
  the front and passes the one without a time that was listed before it.\<close>

lemma unsorted_block:
  assumes "\<And>a b. a \<in> set xs \<Longrightarrow> b \<in> set xs \<Longrightarrow> \<not> lt a b" shows "slice_stable lt xs = xs"
proof -
  have "foldl (\<lambda>acc x. sift lt x acc) ys zs = rev zs @ ys" if "set ys \<union> set zs \<subseteq> set xs" for ys zs
    using that
  proof (induction zs arbitrary: ys)
    case (Cons z zs)
    then have "sift lt z ys = z # ys" using assms by (cases ys) auto
    with Cons show ?case by simp
  qed simp
  from this [of "[]" xs] show ?thesis by (simp add: slice_stable_def)
qed

theorem undated_movement_is_passed:
  assumes "movement_time u = None" and "movement_time m = Some t" and "movement_time v = Some r" and "r < t"
  shows "movements_chronological (replicate 19 m @ [u, v]) = v # replicate 19 m @ [u]"
proof -
  let ?us = "replicate 19 m @ [u]"
  have sorted: "slice_stable movement_before ?us = ?us"
    by (rule unsorted_block) (use assms(1,2) in \<open>auto simp: movement_before_def\<close>)
  have blocks: "blocks_of 20 (replicate 19 m @ [u, v]) = [?us, [v]]"
    by (simp add: blocks_of.simps [of 20 "replicate 19 m @ [u, v]"] blocks_of.simps [of 20 "[v]"])
  have P: "\<not> movement_before v (?us ! h) \<longleftrightarrow> False" if "h < 19" for h
    using that assms(2-4) by (simp add: nth_append movement_before_def)
  have "bsearch (\<lambda>h. \<not> movement_before v (?us ! h)) 0 20 = 0"
    by (simp add: bsearch.simps P Let_def del: nth_append)
  then have "sym_merge movement_before ?us [v] = v # ?us" by (simp add: sym_merge.simps Let_def)
  moreover have "slice_stable movement_before [v] = [v]" by (simp add: slice_stable_def)
  ultimately show ?thesis
    by (simp add: movements_chronological_def go_stable_def blocks sorted merge_passes.simps)
qed

theorem undated_movement_is_passed_witness:
  "movements_chronological (replicate 19 (movement ''Condenacao'' ''2023-01-02'') @ [movement ''Conclusao'' ''?'', movement ''Absolvicao'' ''2022-05-01'']) =
     movement ''Absolvicao'' ''2022-05-01'' # replicate 19 (movement ''Condenacao'' ''2023-01-02'') @ [movement ''Conclusao'' ''?'']"
proof (rule undated_movement_is_passed)
  show "movement_time (movement ''Conclusao'' ''?'') = None" by code_simp
  show "movement_time (movement ''Condenacao'' ''2023-01-02'') = Some 63839836800000000000" by code_simp
  show "movement_time (movement ''Absolvicao'' ''2022-05-01'') = Some 63818582400000000000" by code_simp
qed simp

text \<open>How patient a lookup is, whatever the clock: without a deadline it returns a body exactly when the server,
  after at most three failures and at most six 429s in any order, answers 200 with it.\<close>

theorem lookup_patience:
  assumes "kc_deadline s = None" and "dk_url_ok api (dr_url rq)"
  shows "fst (dk_post api rq s) = Inr bd \<longleftrightarrow>
    (\<exists>k. served_after (answer_to api rq) bd (length (kc_log s)) 3 6 k)"
  unfolding dk_post_def post_judge [OF assms] judge_served
  by (simp add: dk_max_retries_def max_retries_429_def)

definition busy_api :: dk_api where
  "busy_api = \<lparr>dk_url_ok = (\<lambda>u. True),
     dk_server = (\<lambda>i rq. (0, if i < 6 then DkAnswered 429 (lit ''1'') DkUnreadable
        else if i < 9 then DkAnswered 503 [] DkUnreadable else DkAnswered 200 [] (DkHits []))),
     dk_http_date = (\<lambda>h. None)\<rparr>"

definition fresh_client :: dk_client where
  "fresh_client = \<lparr>kc_base = [], kc_key = lit ''k'', kc_now = 0, kc_deadline = None, kc_last = None, kc_log = []\<rparr>"

theorem lookup_patience_witness:
  "fst (dk_post busy_api \<lparr>dr_url = [], dr_key = [], dr_case = []\<rparr> fresh_client) = Inr (DkHits [])"
proof -
  let ?rq = "\<lparr>dr_url = [], dr_key = [], dr_case = []\<rparr>"
  have "served_after (answer_to busy_api ?rq) (DkHits []) (length (kc_log fresh_client)) 3 6 9"
    by (simp add: served_after_def answer_to_def busy_api_def fresh_client_def failing_def limited_def serves_def
        upt_rec [of _ 9])
  moreover have "kc_deadline fresh_client = None" "dk_url_ok busy_api (dr_url ?rq)"
    by (simp_all add: fresh_client_def busy_api_def)
  ultimately show ?thesis using lookup_patience by blast
qed

text \<open>And what it costs at most: ten requests, and no wait the server asks for is longer than 90 seconds, however
  large the header (even where the product with a second wraps at 64 bits).\<close>

theorem lookup_cost_bounded:
  "length (kc_log (snd (dk_post api rq s))) \<le> length (kc_log s) + 10 \<and> retry_after api now header \<le> 90 * 1000000000"
proof
  show "length (kc_log (snd (dk_post api rq s))) \<le> length (kc_log s) + 10"
    using post_sends [of api rq 3 6 dk_backoff_initial dk_backoff_initial s]
    by (simp add: dk_post_def dk_max_retries_def max_retries_429_def)
  have "cap_duration d \<le> 90 * 1000000000" for d
    by (auto simp: cap_duration_def backoff_max_429_def second_def)
  then show "retry_after api now header \<le> 90 * 1000000000"
    by (simp add: retry_after_def Let_def split: option.split)
qed

text \<open>The DataJud worker stays at case level: whatever the API answers and wherever a connection breaks, it changes
  nothing but proceedings, their \<^verbatim>\<open>INVESTIGATES\<close> relationships and the poll columns of the watch list. In
  particular it makes no claim about a person.\<close>

theorem datajud_is_case_level: "case_level s (snd (run_datajud e o1 s))"
  by (rule movesD) (rule case_run.run)

text \<open>A run keeps the graph well-formed and brings no purged subject back.\<close>

theorem datajud_keeps_graph: "keeps_wf s (snd (run_datajud e o1 s)) \<and> no_revival s (snd (run_datajud e o1 s))"
  using movesD [OF wf_dk.run] movesD [OF rev_run.run] by blast

text \<open>A run without writes is fully read-only, the watch list included.\<close>

theorem read_only_run:
  assumes "\<not> ko_writes o1" shows "same_stores s (snd (run_datajud e o1 s))"
  by (rule movesD) (rule read_only [OF assms])

definition idle_dk :: dk_state where
  "idle_dk = world.extend empty_world
     \<lparr>dk_http = fresh_client, dk_loaded = 0, dk_polled = 0, dk_restricted = 0, dk_not_found = 0, dk_updated = 0,
      dk_concluded = 0, dk_probe_ok = False, dk_tpu_ok = False, dk_notes = [], dk_fetch_errors = 0\<rparr>"

definition dk_example :: "bool \<Rightarrow> dk_options" where
  "dk_example b = \<lparr>ko_probe_case = [], ko_probe_tribunal = [], ko_verify = False, ko_strict = False, ko_limit = 0,
     ko_writes = b, ko_mg = b\<rparr>"

definition dk_quiet :: dk_env where
  "dk_quiet = \<lparr>ke_api = busy_api, ke_page = (\<lambda>c. Inl HttpError), ke_order = (\<lambda>cs. cs), ke_schedule = (\<lambda>ws. ws)\<rparr>"

theorem read_only_run_witness: "same_stores idle_dk (snd (run_datajud dk_quiet (dk_example False) idle_dk))"
  by (rule read_only_run) (simp add: dk_example_def)

text \<open>No tribunal can end a run: without writes, strictness, a deadline or a database fault a run always returns
  its statistics, whatever the API answers to any lookup.\<close>

theorem run_survives_lookups:
  assumes "\<not> ko_writes o1" and "\<not> ko_strict o1" and "kc_deadline (dk_http s) = None" and "faults s = []"
  shows "fst (run_datajud e o1 s) = Inr ()"
proof -
  obtain u t where "run_datajud e o1 s = (Inr u, t)"
    using read_only_returns [OF assms(1,2), of e] assms(3,4) unfolding returns_def calm_def by blast
  then show ?thesis by simp
qed

theorem run_survives_lookups_witness: "fst (run_datajud dk_quiet (dk_example False) idle_dk) = Inr ()"
  by (rule run_survives_lookups)
    (simp_all add: dk_example_def idle_dk_def fresh_client_def world.extend_def empty_world_def)


definition docket :: case_source where
  "docket = \<lparr>so_numero = lit ''12345678920248260001'', so_sigilo = 0, so_classe = [(lit ''nome'', JStr (lit ''Acao Penal''))],
     so_assuntos = [], so_ajuizamento = [], so_orgao = [],
     so_movimentos = [movement ''Absolvicao'' ''2024-05-01'', movement ''Condenacao'' ''2023-01-02''], so_raw = []\<rparr>"


text \<open>Movement ids that arrive as numbers are read only below a million: from there on the program prints
  them with an exponent, cannot read them back, and takes the movement for one without an id.\<close>

theorem large_numeric_ids_ignored:
  assumes "jget m ''id'' = JNum neg ds pt" and "ds \<noteq> []" and "7 \<le> pt"
  shows "movement_id m = None"
  by (rule large_id_unread [OF assms])

theorem large_numeric_ids_ignored_witness:
  "movement_id [(lit ''id'', JNum False (lit ''12345678'') 8)] = None \<and> movement_id [(lit ''id'', jint 42)] = Some 42"
proof
  show "movement_id [(lit ''id'', JNum False (lit ''12345678'') 8)] = None"
    by (rule large_numeric_ids_ignored [of _ False "lit ''12345678''" 8]) (simp_all add: jget_def)
  show "movement_id [(lit ''id'', jint 42)] = Some 42" by code_simp
qed

text \<open>One stored proceeding whose number is spelled differently from the one the API returns, but has the same
  digits, makes every poll of it fail: the upsert would create a second node of the same id, which the
  uniqueness constraint refuses.\<close>

theorem respelled_number_fails:
  assumes "n \<in> set (g_nodes (graph s))" and "has_label ''LegalProceeding'' n"
    and "n_props n ''id'' = Some (PStr (legal_proceeding_id (pu_case u)))"
    and "match_nodes ''LegalProceeding'' (prop_is ''case_number'' (PStr (pu_case u))) (graph s) = []"
  shows "fst (upsert_legal_proceeding_by_case u s) = Inl DbError"
  by (rule clashing_upsert [OF assms])

definition formatted_case :: node where
  "formatted_case = \<lparr>n_key = 0, n_labels = [''LegalProceeding''],
     n_props = [''id'' \<mapsto> PStr (lit ''lp_12345678920248260001''), ''case_number'' \<mapsto> PStr (lit ''1234567-89.2024.8.26.0001'')]\<rparr>"

theorem respelled_number_fails_witness:
  "fst (upsert_legal_proceeding_by_case (case_upsert docket)
     (idle_dk\<lparr>graph := \<lparr>g_nodes = [formatted_case], g_edges = [], g_next = 1\<rparr>\<rparr>)) = Inl DbError"
proof -
  have "legal_proceeding_id (so_numero docket) = lit ''lp_12345678920248260001''" by code_simp
  then show ?thesis
    by (intro respelled_number_fails [of formatted_case])
      (simp_all add: formatted_case_def case_upsert_def has_label_def match_nodes_def prop_is_def docket_def)
qed

text \<open>The probe takes a reply without a case number for one that has it: \<^verbatim>\<open>%v\<close> of the absent key is not empty.\<close>

theorem probe_accepts_missing_number:
  assumes "map_of (so_raw so) (lit ''numeroProcesso'') = None" and "so_movimentos so \<noteq> []"
  shows "probe_capabilities so"
proof -
  have "trim_space (fmt_v JNull) \<noteq> []" by code_simp
  then show ?thesis
    using assms by (simp add: probe_capabilities_def Let_def jget_def)
qed

theorem probe_accepts_missing_number_witness: "probe_capabilities (docket\<lparr>so_numero := []\<rparr>)"
  by (rule probe_accepts_missing_number) (simp_all add: docket_def)

end
