(* ===== verification/Office_Graph.thy ===== *)
theory Office_Graph
  imports Djen Datajud_Case
begin

text \<open>
  The graph statements of the back office: \<^verbatim>\<open>backend/db/memgraph/backoffice_writer.go\<close> (scandals, the
  provenance and the purge of a node, the edges a human confirms), \<^verbatim>\<open>outcomes.go\<close> (what a court decided
  for one defendant) and \<^verbatim>\<open>org_cnpj.go\<close> (joining two nodes of one company).
\<close>

section \<open>Scandals\<close>

definition upsert_scandal :: "gostr \<Rightarrow> gostr \<Rightarrow> gostr \<Rightarrow> ('z world_scheme, unit) prog" where
  "upsert_scandal i name date_start =
     (let nm = (if trim_space name = [] then i else name) in
      cypher (\<lambda>g. (fst (merge_node ''Scandal'' ''id'' (PStr i)
        [(''name'', Some (PStr nm)), (''search_name'', Some (PStr (fold_query nm))),
         (''date_start'', Some (PStr date_start))] (\<lambda>n. n) g), ())))"

record scandal_seed =
  sd_id :: gostr
  sd_name :: gostr
  sd_description :: gostr
  sd_start :: gostr
  sd_end :: gostr
  sd_status :: gostr
  sd_wikipedia :: gostr

definition scandal_facts :: "scandal_seed \<Rightarrow> node \<Rightarrow> node" where
  "scandal_facts d =
     upd_props
       [(''name'', Some (PStr (sd_name d))), (''search_name'', Some (PStr (fold_query (sd_name d)))),
        (''description'', Some (PStr (sd_description d))), (''date_start'', Some (PStr (sd_start d))),
        (''date_end'', if sd_end d = [] then None else Some (PStr (sd_end d))),
        (''status'', Some (PStr (sd_status d))), (''wikipedia_url'', Some (PStr (sd_wikipedia d))),
        (''source'', Some (PStr (lit ''baseline_seed'')))]"

definition upsert_scandal_seed :: "scandal_seed \<Rightarrow> ('z world_scheme, unit) prog" where
  "upsert_scandal_seed d =
     cypher (\<lambda>g. (fst (merge_node ''Scandal'' ''id'' (PStr (sd_id d)) [] (scandal_facts d) g), ()))"

text \<open>The order of Cypher strings; \<^verbatim>\<open>null\<close> comes last.\<close>

fun lex_less :: "gostr \<Rightarrow> gostr \<Rightarrow> bool" where
  "lex_less xs [] = False"
| "lex_less [] (y # ys) = True"
| "lex_less (x # xs) (y # ys) = (x < y \<or> (x = y \<and> lex_less xs ys))"

fun null_last :: "gostr option \<Rightarrow> gostr option \<Rightarrow> bool" where
  "null_last None y = False"
| "null_last (Some x) None = True"
| "null_last (Some x) (Some y) = lex_less x y"

definition scandal_rank :: "node \<Rightarrow> gostr option" where
  "scandal_rank n = map_option (List.map ascii_lower)
     (case str_or_null n ''name'' of None \<Rightarrow> str_or_null n ''id'' | Some x \<Rightarrow> Some x)"

definition list_scandals :: "('z world_scheme, (gostr \<times> gostr) list) prog" where
  "list_scandals =
     cypher_read (\<lambda>g. filter (\<lambda>(i, _). trim_space i \<noteq> [])
       (List.map (\<lambda>n. (str_prop (n_props n) ''id'', str_prop (n_props n) ''name''))
         (slice_stable (\<lambda>a b. null_last (scandal_rank a) (scandal_rank b)) (match_nodes ''Scandal'' (\<lambda>n. True) g))))"

section \<open>Provenance and purge\<close>

text \<open>\<^verbatim>\<open>strings.EqualFold\<close>; a label is an ASCII identifier.\<close>

definition fold_char :: "char \<Rightarrow> char" where
  "fold_char c = (if 65 \<le> (of_char c :: nat) \<and> (of_char c :: nat) \<le> 90 then char_of ((of_char c :: nat) + 32) else c)"

definition equal_fold :: "string \<Rightarrow> string \<Rightarrow> bool" where
  "equal_fold a b \<longleftrightarrow> List.map fold_char a = List.map fold_char b"

definition primary_label :: "string list \<Rightarrow> string \<times> bool" where
  "primary_label labels =
     (let (primary, is_pol) = foldl (\<lambda>(p, b) l. (if p = [] then l else p, b \<or> equal_fold l ''Politician''))
                                ('''', False) labels
      in if is_pol then (''Politician'', True) else (if primary = [] then ''Node'' else primary, False))"

definition has_purgeable_label :: "string list \<Rightarrow> bool" where
  "has_purgeable_label labels \<longleftrightarrow> list_ex (\<lambda>l. equal_fold l ''Person'' \<or> equal_fold l ''Organization'') labels"

record provenance =
  pv_id :: gostr
  pv_label :: string
  pv_name :: gostr
  pv_politician :: bool
  pv_purgeable :: bool
  pv_cpf :: gostr
  pv_cnpj :: gostr
  pv_source :: gostr
  pv_comunicacao :: gostr
  pv_link :: gostr
  pv_tribunal :: gostr
  pv_reason :: gostr
  pv_edges :: nat

definition creation_reason :: "gostr \<Rightarrow> gostr \<Rightarrow> gostr \<Rightarrow> gostr" where
  "creation_reason source tribunal comunicacao =
     (let parts = (if source \<noteq> [] then [lit ''discovered by '' @ source] else [])
                @ (if tribunal \<noteq> [] then [lit ''tribunal '' @ tribunal] else [])
                @ (if comunicacao \<noteq> [] then [lit ''comunica'' @ [231, 227] @ lit ''o '' @ comunicacao] else [])
      in if parts = [] then lit ''no provenance recorded on this node'' else str_join (lit ''; '') parts)"

text \<open>
  The columns the query groups its rows by. \<^verbatim>\<open>count(r)\<close> counts the relationships of every node in the
  group; the handler reads the first row.
\<close>

definition grouping :: "node \<Rightarrow> string list \<times> pval option list" where
  "grouping n = (n_labels n, List.map (n_props n)
     [''name'', ''cpf'', ''cnpj'', ''provenance_source'', ''provenance_comunicacao_id'', ''provenance_link'',
      ''provenance_tribunal''])"

definition degree :: "graph \<Rightarrow> node \<Rightarrow> nat" where
  "degree g n = length (filter (\<lambda>e. e_from e = n_key n \<or> e_to e = n_key n) (g_edges g))"

definition provenance_of :: "gostr \<Rightarrow> graph \<Rightarrow> provenance option" where
  "provenance_of i g =
     (case filter (prop_is ''id'' (PStr i)) (g_nodes g) of
        [] \<Rightarrow> None
      | n # ns \<Rightarrow>
          (let (label, is_pol) = primary_label (n_labels n); get = rec_string (n_props n);
               source = get ''provenance_source''; tribunal = get ''provenance_tribunal'';
               comunicacao = get ''provenance_comunicacao_id''
           in Some \<lparr>pv_id = i, pv_label = label, pv_name = get ''name'', pv_politician = is_pol,
                    pv_purgeable = has_purgeable_label (n_labels n) \<and> \<not> is_pol,
                    pv_cpf = get ''cpf'', pv_cnpj = get ''cnpj'', pv_source = source, pv_comunicacao = comunicacao,
                    pv_link = get ''provenance_link'', pv_tribunal = tribunal,
                    pv_reason = creation_reason source tribunal comunicacao,
                    pv_edges = sum_list (List.map (degree g) (filter (\<lambda>m. grouping m = grouping n) (n # ns)))\<rparr>))"

definition get_node_provenance :: "gostr \<Rightarrow> ('z world_scheme, provenance option) prog" where
  "get_node_provenance i = cypher_read (provenance_of i)"

definition purge_target :: "gostr \<Rightarrow> node \<Rightarrow> bool" where
  "purge_target i n \<longleftrightarrow>
     prop_is ''id'' (PStr i) n \<and> (has_label ''Person'' n \<or> has_label ''Organization'' n) \<and> \<not> has_label ''Politician'' n"

definition purge_person_node :: "gostr \<Rightarrow> ('z world_scheme, provenance) prog" where
  "purge_person_node i =
     bindR (get_node_provenance i) (\<lambda>np.
       case np of
         None \<Rightarrow> throw (Refused ''node not found'')
       | Some np \<Rightarrow>
           if pv_politician np then throw (Refused ''refusing to purge a Politician node'')
           else if \<not> pv_purgeable np then throw (Refused ''refusing to purge this node'')
           else seqR (cypher (\<lambda>g. (detach_delete (purge_target i) g, ()))) (ret np))"

section \<open>Edges a human confirms\<close>

record confirmed_edge =
  ce_label :: string
  ce_type :: string
  ce_politician :: gostr
  ce_target :: gostr
  ce_extra :: "(string \<times> pval option) list"

definition confirmed_pairs :: "confirmed_edge \<Rightarrow> graph \<Rightarrow> (nat \<times> nat) list" where
  "confirmed_pairs c g =
     node_pairs (match_nodes ''Politician'' (prop_is ''id'' (PStr (trim_space (ce_politician c)))) g)
                (match_nodes (ce_label c) (prop_is ''id'' (PStr (trim_space (ce_target c)))) g)"

definition confirmed_props :: "confirmed_edge \<Rightarrow> props \<Rightarrow> props" where
  "confirmed_props c = set_props (ce_extra c @ [(''source'', Some (PStr (lit ''backoffice_review'')))])"

definition merge_confirmed_politician_edge :: "confirmed_edge \<Rightarrow> ('z world_scheme, unit) prog" where
  "merge_confirmed_politician_edge c =
     (if trim_space (ce_politician c) = [] \<or> trim_space (ce_target c) = []
      then throw (Refused ''politician id and target id are required'')
      else bindR (cypher (\<lambda>g. (merge_edges (confirmed_pairs c g) (ce_type c) [] (confirmed_props c) g, confirmed_pairs c g)))
             (\<lambda>rows. if rows = [] then throw (Refused ''no Politician or target in graph'') else ret ()))"

definition ensure_politician_defendant_edge :: "gostr \<Rightarrow> gostr \<Rightarrow> ('z world_scheme, unit) prog" where
  "ensure_politician_defendant_edge pol lp =
     merge_confirmed_politician_edge
       \<lparr>ce_label = ''LegalProceeding'', ce_type = ''DEFENDANT_IN'', ce_politician = pol, ce_target = lp,
        ce_extra = [(''outcome'', Some (PStr (lit ''confirmed'')))]\<rparr>"

definition ensure_politician_controls_organization :: "gostr \<Rightarrow> gostr \<Rightarrow> ('z world_scheme, unit) prog" where
  "ensure_politician_controls_organization pol org =
     merge_confirmed_politician_edge
       \<lparr>ce_label = ''Organization'', ce_type = ''CONTROLS'', ce_politician = pol, ce_target = org, ce_extra = []\<rparr>"

definition ensure_politician_sanctioned_in_edge :: "gostr \<Rightarrow> gostr \<Rightarrow> ('z world_scheme, unit) prog" where
  "ensure_politician_sanctioned_in_edge pol sanction =
     merge_confirmed_politician_edge
       \<lparr>ce_label = ''Sanction'', ce_type = ''SANCTIONED_IN'', ce_politician = pol, ce_target = sanction, ce_extra = []\<rparr>"

section \<open>Outcomes\<close>

definition defendant_outcome :: "(gostr \<times> gostr) list" where
  "defendant_outcome =
     [(lit ''convicted'', lit ''Condenado''), (lit ''acquitted'', lit ''Absolvido''),
      (lit ''dismissed'', lit ''Processo extinto / arquivado''),
      (lit ''indicted'', lit ''Denunciado (sem julgamento)''), (lit ''cited'', lit ''Apenas citado'')]"

definition valid_outcome :: "gostr \<Rightarrow> bool" where
  "valid_outcome out \<longleftrightarrow> map_of defendant_outcome out \<noteq> None"

text \<open>\<^verbatim>\<open>(x {id: ...})-[d:DEFENDANT_IN]->(lp:LegalProceeding {id: ...})\<close>.\<close>

definition defendant_edge :: "graph \<Rightarrow> gostr \<Rightarrow> gostr \<Rightarrow> edge \<Rightarrow> bool" where
  "defendant_edge g party lp e \<longleftrightarrow>
     e_type e = ''DEFENDANT_IN'' \<and>
     (\<exists>n \<in> set (g_nodes g). n_key n = e_from e \<and> prop_is ''id'' (PStr party) n) \<and>
     (\<exists>n \<in> set (g_nodes g). n_key n = e_to e \<and> has_label ''LegalProceeding'' n \<and> prop_is ''id'' (PStr lp) n)"

definition outcome_props :: "gostr \<Rightarrow> gostr \<Rightarrow> gostr \<Rightarrow> gostr \<Rightarrow> props \<Rightarrow> props" where
  "outcome_props out evidence actor at_time =
     set_props
       [(''outcome'', Some (PStr out)), (''outcome_source'', Some (PStr (lit ''human''))),
        (''outcome_evidence_url'', Some (PStr evidence)), (''outcome_recorded_by'', Some (PStr actor)),
        (''outcome_recorded_at'', Some (PStr at_time))]"

definition map_edges :: "(edge \<Rightarrow> bool) \<Rightarrow> (props \<Rightarrow> props) \<Rightarrow> graph \<Rightarrow> graph" where
  "map_edges P f g = g\<lparr>g_edges := List.map (\<lambda>e. if P e then e\<lparr>e_props := f (e_props e)\<rparr> else e) (g_edges g)\<rparr>"

definition set_defendant_outcome ::
  "gostr \<Rightarrow> gostr \<Rightarrow> gostr \<Rightarrow> gostr \<Rightarrow> gostr \<Rightarrow> ('z world_scheme, unit) prog" where
  "set_defendant_outcome lp party out evidence actor =
     (if \<not> valid_outcome out then throw (Refused ''not a recordable outcome'')
      else if out = lit ''convicted'' \<and> evidence = []
      then throw (Refused ''recording a conviction requires an evidence URL (the decision)'')
      else bindR (getR clock) (\<lambda>now.
        bindR (cypher (\<lambda>g. (map_edges (defendant_edge g party lp) (outcome_props out evidence actor now) g,
                             length (filter (defendant_edge g party lp) (g_edges g))))) (\<lambda>rows.
          if rows = 0 then throw (Refused ''no DEFENDANT_IN edge'') else ret ())))"

record proceeding_summary =
  ps_id :: gostr
  ps_case :: gostr
  ps_class :: gostr
  ps_court :: gostr
  ps_scandal :: gostr
  ps_conviction :: bool
  ps_defendants :: nat
  ps_recorded :: nat

definition defendant_edges :: "graph \<Rightarrow> node \<Rightarrow> edge list" where
  "defendant_edges g lp = filter (\<lambda>e. e_type e = ''DEFENDANT_IN'' \<and> e_to e = n_key lp) (g_edges g)"

text \<open>One row per proceeding and scandal: a scandal linked twice counts its defendants twice.\<close>

definition summary_rows :: "graph \<Rightarrow> node \<Rightarrow> proceeding_summary list" where
  "summary_rows g lp =
     (let ds = defendant_edges g lp; ss = scandals_of g lp; get = rec_string (n_props lp)
      in if ds = [] then []
         else List.map (\<lambda>sc.
           \<lparr>ps_id = get ''id'', ps_case = get ''case_number'', ps_class = get ''class_name'', ps_court = get ''court'',
            ps_scandal = sc, ps_conviction = bool_prop (n_props lp) ''has_conviction'',
            ps_defendants = length ds * count_list ss sc,
            ps_recorded = length (filter (\<lambda>e. e_props e ''outcome_source'' = Some (PStr (lit ''human''))) ds) * count_list ss sc\<rparr>)
           (remdups ss))"

definition outcome_queue_before :: "proceeding_summary \<Rightarrow> proceeding_summary \<Rightarrow> bool" where
  "outcome_queue_before a b \<longleftrightarrow>
     ps_recorded a < ps_recorded b \<or> (ps_recorded a = ps_recorded b \<and> ps_defendants b < ps_defendants a)"

definition list_proceedings_for_outcome :: "('z world_scheme, proceeding_summary list) prog" where
  "list_proceedings_for_outcome =
     cypher_read (\<lambda>g. slice_stable outcome_queue_before
       (concat (List.map (summary_rows g) (match_nodes ''LegalProceeding'' (\<lambda>n. True) g))))"

record defendant =
  df_party :: gostr
  df_label :: string
  df_name :: gostr
  df_outcome :: gostr
  df_evidence :: gostr
  df_recorded_by :: gostr
  df_recorded_at :: gostr

definition defendant_row :: "edge \<Rightarrow> node \<Rightarrow> defendant" where
  "defendant_row e x =
     \<lparr>df_party = rec_string (n_props x) ''id'', df_label = (case n_labels x of [] \<Rightarrow> [] | l # _ \<Rightarrow> l),
      df_name = rec_string (n_props x) ''name'', df_outcome = rec_string (e_props e) ''outcome'',
      df_evidence = rec_string (e_props e) ''outcome_evidence_url'',
      df_recorded_by = rec_string (e_props e) ''outcome_recorded_by'',
      df_recorded_at = rec_string (e_props e) ''outcome_recorded_at''\<rparr>"

definition defendant_matches :: "graph \<Rightarrow> gostr \<Rightarrow> (edge \<times> node) list" where
  "defendant_matches g lp =
     concat (List.map (\<lambda>e. List.map (\<lambda>x. (e, x)) (filter (\<lambda>x. n_key x = e_from e) (g_nodes g)))
       (concat (List.map (defendant_edges g) (match_nodes ''LegalProceeding'' (prop_is ''id'' (PStr lp)) g))))"

definition list_defendants :: "gostr \<Rightarrow> ('z world_scheme, defendant list) prog" where
  "list_defendants lp =
     cypher_read (\<lambda>g. List.map (\<lambda>(e, x). defendant_row e x)
       (slice_stable (\<lambda>(_, a) (_, b). lex_less (str_prop (n_props a) ''name'') (str_prop (n_props b) ''name''))
         (defendant_matches g lp)))"

section \<open>Joining the two nodes of one company\<close>

definition organization_is :: "gostr \<Rightarrow> node \<Rightarrow> bool" where
  "organization_is i n \<longleftrightarrow> has_label ''Organization'' n \<and> prop_is ''id'' (PStr i) n"

definition keys_of :: "(node \<Rightarrow> bool) \<Rightarrow> graph \<Rightarrow> nat list" where
  "keys_of P g = List.map n_key (filter P (g_nodes g))"

text \<open>
  The statements that move relationships: for each one bound and each \<open>dst\<close>, merge the new one, copy the
  properties onto it, delete the old one.
\<close>

definition move_edges ::
  "(edge \<Rightarrow> bool) \<Rightarrow> (edge \<Rightarrow> nat \<Rightarrow> nat \<times> nat) \<Rightarrow> string \<Rightarrow> nat list \<Rightarrow> graph \<Rightarrow> graph" where
  "move_edges moved ends t ds g =
     (let h = foldl (\<lambda>h (e, d). merge_edge (fst (ends e d)) t (snd (ends e d)) [] (\<lambda>p. p ++ e_props e) h) g
                (List.product (filter moved (g_edges g)) ds)
      in h\<lparr>g_edges := filter (\<lambda>e. \<not> moved e) (g_edges h)\<rparr>)"

definition move_out :: "gostr \<Rightarrow> gostr \<Rightarrow> string \<Rightarrow> string \<Rightarrow> graph \<Rightarrow> graph" where
  "move_out src dst t l g =
     (let ss = keys_of (organization_is src) g; ds = keys_of (organization_is dst) g; ls = keys_of (has_label l) g
      in move_edges (\<lambda>e. e_type e = t \<and> e_from e \<in> set ss \<and> e_to e \<in> set ls \<and> ds \<noteq> [])
           (\<lambda>e d. (d, e_to e)) t ds g)"

definition move_in :: "gostr \<Rightarrow> gostr \<Rightarrow> string \<Rightarrow> graph \<Rightarrow> graph" where
  "move_in src dst t g =
     (let ss = keys_of (organization_is src) g; ds = keys_of (organization_is dst) g
      in move_edges (\<lambda>e. e_type e = t \<and> e_to e \<in> set ss \<and> ds \<noteq> []) (\<lambda>e d. (e_from e, d)) t ds g)"

definition adopt_name :: "gostr \<Rightarrow> gostr \<Rightarrow> graph \<Rightarrow> graph" where
  "adopt_name src dst g =
     (case filter (organization_is src) (g_nodes g) of
        [] \<Rightarrow> g
      | s # _ \<Rightarrow> map_nodes (\<lambda>n. organization_is dst n \<and> (n_props n ''name'' = None \<or> n_props n ''name'' = Some (PStr [])))
                  (upd_props [(''name'', n_props s ''name''), (''search_name'', n_props s ''search_name'')]) g)"

text \<open>A \<^verbatim>\<open>DELETE\<close> without \<^verbatim>\<open>DETACH\<close>: it fails while the node still has a relationship.\<close>

definition plain_delete :: "(node \<Rightarrow> bool) \<Rightarrow> ('z world_scheme, unit) prog" where
  "plain_delete P =
     db_call (\<lambda>s.
       if list_ex (\<lambda>n. P n \<and> degree (graph s) n \<noteq> 0) (g_nodes (graph s)) then (Inl DbError, s)
       else run_cypher (\<lambda>g. (g\<lparr>g_nodes := filter (\<lambda>n. \<not> P n) (g_nodes g)\<rparr>, ())) s)"

definition stamp_cnpj :: "gostr \<Rightarrow> gostr \<Rightarrow> (string \<times> pval option) list" where
  "stamp_cnpj actor now =
     [(''cnpj_source'', Some (PStr (lit ''human''))), (''cnpj_recorded_by'', Some (PStr actor)),
      (''cnpj_recorded_at'', Some (PStr now))]"

definition cnpj_holders :: "gostr \<Rightarrow> gostr \<Rightarrow> graph \<Rightarrow> gostr list" where
  "cnpj_holders src d g =
     List.map (\<lambda>n. str_prop (n_props n) ''id'')
       (match_nodes ''Organization''
         (\<lambda>n. prop_is ''cnpj'' (PStr d) n \<and> n_props n ''id'' \<noteq> None \<and> n_props n ''id'' \<noteq> Some (PStr src)) g)"

definition merge_organizations :: "gostr \<Rightarrow> gostr \<Rightarrow> gostr \<Rightarrow> gostr \<Rightarrow> ('z world_scheme, gostr) prog" where
  "merge_organizations src dst actor now =
     seqR (cypher (\<lambda>g. (move_out src dst ''DEFENDANT_IN'' ''LegalProceeding'' g, ())))
    (seqR (cypher (\<lambda>g. (move_out src dst ''IMPLICATED_IN'' ''Scandal'' g, ())))
    (seqR (cypher (\<lambda>g. (move_in src dst ''CONTROLS'' g, ())))
    (seqR (cypher (\<lambda>g. (adopt_name src dst g, ())))
    (seqR (plain_delete (organization_is src))
    (seqR (cypher (\<lambda>g. (map_nodes (organization_is dst) (upd_props (stamp_cnpj actor now)) g, ())))
          (ret dst))))))"

definition attach_organization_cnpj :: "gostr \<Rightarrow> gostr \<Rightarrow> gostr \<Rightarrow> ('z world_scheme, gostr) prog" where
  "attach_organization_cnpj src cnpj actor =
     (let d = digits_only cnpj in
      if length d \<noteq> 14 then throw (Refused ''not a 14-digit CNPJ'')
      else bindR (getR clock) (\<lambda>now.
        bindR (cypher_read (cnpj_holders src d)) (\<lambda>holders.
          let dst = (case holders of [] \<Rightarrow> [] | i # _ \<Rightarrow> i) in
          if dst = [] then
            bindR (cypher (\<lambda>g. (map_nodes (organization_is src)
                    (upd_props ((''cnpj'', Some (PStr d)) # stamp_cnpj actor now)) g,
                    filter (organization_is src) (g_nodes g)))) (\<lambda>rows.
              case rows of [] \<Rightarrow> throw (Refused ''no Organization'')
              | n # _ \<Rightarrow> if src = [] then throw (Refused ''no Organization'') else ret src)
          else merge_organizations src dst actor now)))"

end
