(* ===== verification/Office_Tables.thy ===== *)
theory Office_Tables
  imports Office_Graph
begin

text \<open>
  The tables of the back office: the review queue as the operator sees it and the review an operator
  settles (\<^verbatim>\<open>backend/db/psql/backoffice.go\<close>), the removal requests (\<^verbatim>\<open>removal.go\<close>) and the audit log
  (\<^verbatim>\<open>audit.go\<close>). Rows are listed oldest first; a row's id is the number of the UUID Postgres
  generated for it.
\<close>

record removal =
  rr_id :: nat
  rr_requester :: gostr
  rr_target_type :: gostr
  rr_target :: gostr
  rr_reason :: gostr
  rr_status :: string
  rr_resolution :: gostr
  rr_by :: "gostr option"

record audit_row =
  au_actor :: gostr
  au_action :: string
  au_type :: string
  au_target :: gostr
  au_meta :: props

record office = world +
  removals :: "removal list"
  audits :: "audit_row list"

text \<open>
  What Postgres decides: \<open>oe_uuid\<close> reads a text as a UUID, \<^verbatim>\<open>None\<close> when the cast fails; \<open>oe_text\<close>
  writes one; \<open>oe_upper\<close>, \<open>oe_ci\<close> and \<open>oe_json\<close> are the parameters of \<open>delete_purged_subject_name\<close>.
  \<open>oe_today\<close> is \<^verbatim>\<open>time.Now().Format("2006-01-02")\<close>, \<open>oe_seed\<close> whether \<^verbatim>\<open>SEED_BASELINE\<close> is not \<^verbatim>\<open>"false"\<close>.
\<close>

record office_env =
  oe_uuid :: "gostr \<Rightarrow> nat option"
  oe_text :: "nat \<Rightarrow> gostr"
  oe_upper :: "gostr \<Rightarrow> gostr"
  oe_ci :: "rune \<Rightarrow> rune"
  oe_json :: "props \<Rightarrow> gostr"
  oe_today :: gostr
  oe_seed :: bool

definition uuids_roundtrip :: "office_env \<Rightarrow> bool" where
  "uuids_roundtrip e \<longleftrightarrow> (\<forall>n. oe_uuid e (oe_text e n) = Some n)"

definition with_uuid :: "office_env \<Rightarrow> gostr \<Rightarrow> (nat \<Rightarrow> (office, 'a) prog) \<Rightarrow> (office, 'a) prog" where
  "with_uuid e i f = (case oe_uuid e i of None \<Rightarrow> db_call (throw DbError) | Some n \<Rightarrow> f n)"

text \<open>An \<^verbatim>\<open>UPDATE\<close> and the number of rows it affected.\<close>

definition sql_count :: "(office \<Rightarrow> nat \<times> office) \<Rightarrow> (office, nat) prog" where
  "sql_count f = db_call (\<lambda>s. case f s of (k, t) \<Rightarrow> (Inr k, t))"

section \<open>Reviews\<close>

definition keeps_filter :: "gostr \<Rightarrow> string \<Rightarrow> bool" where
  "keeps_filter wanted x \<longleftrightarrow> wanted = [] \<or> wanted = lit x"

definition list_pending_reviews :: "gostr \<Rightarrow> gostr \<Rightarrow> nat \<Rightarrow> (office, review list) prog" where
  "list_pending_reviews status typ limit =
     sql_read (\<lambda>s. take limit (rev (filter (\<lambda>r.
       keeps_filter (trim_space status) (rv_status r) \<and> keeps_filter (trim_space typ) (rv_type r)) (reviews s))))"

definition backlog_before :: "string \<times> nat \<Rightarrow> string \<times> nat \<Rightarrow> bool" where
  "backlog_before a b \<longleftrightarrow> snd b < snd a \<or> (snd a = snd b \<and> lex_less (lit (fst a)) (lit (fst b)))"

definition count_pending_reviews_by_type :: "(office, (string \<times> nat) list) prog" where
  "count_pending_reviews_by_type =
     sql_read (\<lambda>s. let ts = List.map rv_type (filter (\<lambda>r. rv_status r = ''pending'') (reviews s))
       in slice_stable backlog_before (List.map (\<lambda>t. (t, count_list ts t)) (remdups ts)))"

definition get_pending_review :: "office_env \<Rightarrow> gostr \<Rightarrow> (office, review) prog" where
  "get_pending_review e i =
     with_uuid e i (\<lambda>n. bindR (sql_read (\<lambda>s. find (\<lambda>r. rv_id r = n) (reviews s)))
       (\<lambda>r. case r of None \<Rightarrow> throw DbError | Some r \<Rightarrow> ret r))"

definition settle :: "nat \<Rightarrow> string \<Rightarrow> gostr \<Rightarrow> review list \<Rightarrow> review list" where
  "settle n status by rs =
     List.map (\<lambda>r. if rv_id r = n then r\<lparr>rv_status := status, rv_by := Some by\<rparr> else r) rs"

definition or_backoffice :: "gostr \<Rightarrow> gostr" where
  "or_backoffice by = (if trim_space by = [] then lit ''backoffice'' else by)"

definition update_pending_review_status :: "office_env \<Rightarrow> gostr \<Rightarrow> string \<Rightarrow> gostr \<Rightarrow> (office, unit) prog" where
  "update_pending_review_status e i status by =
     (if status \<notin> {''pending'', ''approved'', ''rejected'', ''deferred''}
      then throw (Refused ''invalid pending review status'')
      else with_uuid e i (\<lambda>n. sql (\<lambda>s. s\<lparr>reviews := settle n status (or_backoffice by) (reviews s)\<rparr>)))"

section \<open>Removal requests\<close>

definition create_removal_request ::
  "office_env \<Rightarrow> gostr \<Rightarrow> gostr \<Rightarrow> gostr \<Rightarrow> gostr \<Rightarrow> (office, gostr) prog" where
  "create_removal_request e requester target_type target_id reason =
     (if trim_space requester = [] \<or> trim_space target_type = [] \<or> trim_space target_id = []
      then throw (Refused ''requester, target_type and target_id are required'')
      else bindR (sql_count (\<lambda>s. (issued s, s\<lparr>removals := removals s @
          [\<lparr>rr_id = issued s, rr_requester = trim_space requester, rr_target_type = trim_space target_type,
            rr_target = trim_space target_id, rr_reason = trim_space reason, rr_status = ''pending'',
            rr_resolution = [], rr_by = None\<rparr>], issued := issued s + 1\<rparr>)))
        (\<lambda>n. ret (oe_text e n)))"

definition list_removal_requests :: "gostr \<Rightarrow> nat \<Rightarrow> (office, removal list) prog" where
  "list_removal_requests status limit =
     sql_read (\<lambda>s. take limit (rev (filter (\<lambda>r. keeps_filter (trim_space status) (rr_status r)) (removals s))))"

definition get_removal_request :: "office_env \<Rightarrow> gostr \<Rightarrow> (office, removal) prog" where
  "get_removal_request e i =
     with_uuid e i (\<lambda>n. bindR (sql_read (\<lambda>s. find (\<lambda>r. rr_id r = n) (removals s)))
       (\<lambda>r. case r of None \<Rightarrow> throw DbError | Some r \<Rightarrow> ret r))"

definition open_request :: "nat \<Rightarrow> removal \<Rightarrow> bool" where
  "open_request n r \<longleftrightarrow> rr_id r = n \<and> rr_status r = ''pending''"

definition close_request :: "nat \<Rightarrow> string \<Rightarrow> gostr \<Rightarrow> gostr \<Rightarrow> removal list \<Rightarrow> removal list" where
  "close_request n status resolution by rs =
     List.map (\<lambda>r. if open_request n r
       then r\<lparr>rr_status := status, rr_resolution := resolution, rr_by := Some by\<rparr> else r) rs"

definition resolve_removal_request ::
  "office_env \<Rightarrow> gostr \<Rightarrow> string \<Rightarrow> gostr \<Rightarrow> gostr \<Rightarrow> (office, unit) prog" where
  "resolve_removal_request e i status resolution by =
     (if status \<notin> {''resolved'', ''rejected''} then throw (Refused ''invalid removal request resolution status'')
      else with_uuid e i (\<lambda>n.
        bindR (sql_count (\<lambda>s. (length (filter (open_request n) (removals s)),
            s\<lparr>removals := close_request n status (trim_space resolution) (or_backoffice by) (removals s)\<rparr>)))
          (\<lambda>k. if k = 0 then throw (Refused ''removal request is not pending'') else ret ())))"

section \<open>The audit log\<close>

definition log_audit :: "gostr \<Rightarrow> string \<Rightarrow> string \<Rightarrow> gostr \<Rightarrow> props \<Rightarrow> (office, unit) prog" where
  "log_audit actor action target_type target meta =
     sql (\<lambda>s. s\<lparr>audits := audits s @
       [\<lparr>au_actor = actor, au_action = action, au_type = target_type, au_target = target, au_meta = meta\<rparr>]\<rparr>)"

definition list_audit_entries :: "gostr \<Rightarrow> gostr \<Rightarrow> gostr \<Rightarrow> nat \<Rightarrow> (office, audit_row list) prog" where
  "list_audit_entries actor action typ limit =
     sql_read (\<lambda>s. take limit (rev (filter (\<lambda>a.
       (actor = [] \<or> au_actor a = actor) \<and> keeps_filter action (au_action a) \<and> keeps_filter typ (au_type a)) (audits s))))"

end
