(* ===== verification/Office.thy ===== *)
theory Office
  imports Office_Tables
begin

text \<open>
  The operator's side of the program: the handlers of \<^verbatim>\<open>backend/api/backoffice.go\<close> and
  \<^verbatim>\<open>backoffice_outcomes.go\<close>, the middleware in front of them (\<^verbatim>\<open>middleware/auth.go\<close>, \<^verbatim>\<open>csrf.go\<close>) and the
  baseline seed (\<^verbatim>\<open>backend/api/seed.go\<close>). A handler maps the request to a reply and the state it leaves;
  of an error banner the constant part is kept, and of a page what it lists. Path and form values are
  \<^verbatim>\<open>Param\<close> and \<^verbatim>\<open>PostForm\<close> as gin hands them over: an absent field is empty.
\<close>

record request =
  qr_id :: gostr
  qr_form :: "string \<Rightarrow> gostr"
  qr_query :: "string \<Rightarrow> gostr"
  qr_user :: gostr

type_synonym shown_removal = "removal \<times> (err + provenance option)"

datatype reply =
    BadRequest
  | ServerError
  | Unauthorized
  | Forbidden
  | SeeOther string
  | DashboardPage "(string \<times> nat) list" nat
  | SeedPage string string
  | ReviewsPage string "review list" "(gostr \<times> gostr) list"
  | RemovalsPage string "shown_removal list"
  | OutcomesPage "proceeding_summary list"
  | CasePage gostr string string "defendant list"

text \<open>\<^verbatim>\<open>x, err := m(); if err != nil { f(err); return }; k(x)\<close>.\<close>

definition rescue :: "(office, 'a) prog \<Rightarrow> (err \<Rightarrow> (office, 'b) prog) \<Rightarrow> ('a \<Rightarrow> (office, 'b) prog) \<Rightarrow> (office, 'b) prog" where
  "rescue m f k = bindR (attemptR m) (\<lambda>r. case r of Inl er \<Rightarrow> f er | Inr x \<Rightarrow> k x)"

definition err_text :: "err \<Rightarrow> string" where
  "err_text er = (case er of Refused m \<Rightarrow> m | _ \<Rightarrow> ''database error'')"

definition form :: "request \<Rightarrow> string \<Rightarrow> gostr" where
  "form q k = trim_space (qr_form q k)"

definition query_param :: "request \<Rightarrow> string \<Rightarrow> gostr" where
  "query_param q k = trim_space (qr_query q k)"

definition current_user :: "request \<Rightarrow> gostr" where
  "current_user q = (if trim_space (qr_user q) = [] then lit ''backoffice'' else qr_user q)"

definition resolve_scandal_id :: "request \<Rightarrow> gostr" where
  "resolve_scandal_id q = (if form q ''new_scandal_id'' \<noteq> [] then form q ''new_scandal_id'' else form q ''scandal_id'')"

text \<open>
  \<^verbatim>\<open>json.Unmarshal\<close> of a payload into a struct of strings: it fails on a field of another type, and an
  absent one is empty.
\<close>

definition unmarshal :: "string list \<Rightarrow> props \<Rightarrow> (string \<Rightarrow> gostr) option" where
  "unmarshal ks p =
     (if list_all (\<lambda>k. case p k of None \<Rightarrow> True | Some (PStr x) \<Rightarrow> True | _ \<Rightarrow> False) ks
      then Some (str_prop p) else None)"

section \<open>Registering a case\<close>

definition resolve_tribunal_endpoint :: "gostr \<Rightarrow> gostr \<Rightarrow> err + gostr" where
  "resolve_tribunal_endpoint endpoint sigla =
     (if trim_space endpoint \<noteq> [] then Inr (trim_space endpoint)
      else if trim_space sigla \<noteq> [] then Inr (lit ''api_publica_'' @ to_lower (trim_space sigla))
      else Inl (Refused ''payload is missing both tribunal_endpoint and tribunal_sigla''))"

definition register_watcher_case ::
  "office_env \<Rightarrow> gostr \<Rightarrow> gostr \<Rightarrow> gostr \<Rightarrow> gostr \<Rightarrow> string \<Rightarrow> (office, unit) prog" where
  "register_watcher_case e case_number endpoint scandal_id scandal_name added_by =
     (let c = digits_only case_number in
      if length c \<noteq> 20 then throw (Refused ''case_number must be 20 digits after stripping formatting'')
      else bindR (upsert_legal_proceeding_by_case (bare_case c)) (\<lambda>lp.
        seqR (upsert_scandal scandal_id scandal_name (oe_today e))
          (seqR (ensure_investigates_edge lp scandal_id)
            (upsert_watcher_case c endpoint scandal_id lp added_by))))"

definition load_scandals :: "(office, (gostr \<times> gostr) list) prog" where
  "load_scandals = rescue list_scandals (\<lambda>_. ret []) ret"

definition dashboard :: "(office, reply) prog" where
  "dashboard =
     bindR (rescue count_pending_reviews_by_type (\<lambda>_. ret []) ret) (\<lambda>counts.
       ret (DashboardPage counts (sum_list (List.map snd counts))))"

definition seed_submit :: "office_env \<Rightarrow> request \<Rightarrow> (office, reply) prog" where
  "seed_submit e q =
     (let c = form q ''case_number''; endpoint = form q ''tribunal_endpoint''; sc = resolve_scandal_id q in
      bindR load_scandals (\<lambda>options.
        if c = [] \<or> endpoint = [] \<or> sc = []
        then ret (SeedPage '''' ''case_number, tribunal_endpoint and scandal_id are required'')
        else rescue (register_watcher_case e c endpoint sc (form q ''scandal_name'') ''backoffice'')
          (\<lambda>er. ret (SeedPage '''' (err_text er)))
          (\<lambda>_. seqR (ignoreR (log_audit (current_user q) ''create'' ''watcher_case'' c
              [''tribunal_endpoint'' \<mapsto> PStr endpoint, ''scandal_id'' \<mapsto> PStr sc, ''via'' \<mapsto> PStr (lit ''backoffice_seed'')]))
            (ret (SeedPage ''case seeded successfully'' '''')))))"

section \<open>The review queue\<close>

definition render_reviews :: "request \<Rightarrow> string \<Rightarrow> (office, reply) prog" where
  "render_reviews q banner =
     rescue (list_pending_reviews (query_param q ''status'') (query_param q ''type'') 200) (\<lambda>_. ret ServerError)
       (\<lambda>items. bindR load_scandals (\<lambda>options. ret (ReviewsPage banner items options)))"

definition to_reviews :: reply where
  "to_reviews = SeeOther ''/backoffice/reviews''"

definition finish_edge_approval ::
  "office_env \<Rightarrow> request \<Rightarrow> review \<Rightarrow> gostr \<Rightarrow> props \<Rightarrow> (office, reply) prog" where
  "finish_edge_approval e q item edge meta =
     (let user = current_user q; i = oe_text e (rv_id item) in
      rescue (update_pending_review_status e i ''approved'' user)
        (\<lambda>er. render_reviews q (''edge created but failed to mark review approved: '' @ err_text er))
        (\<lambda>_. seqR (ignoreR (log_audit user ''create'' ''graph_edge'' i
              ([''resolution'' \<mapsto> PStr (lit ''approved''), ''type'' \<mapsto> PStr (lit (rv_type item)), ''edge'' \<mapsto> PStr edge] ++ meta)))
            (ret to_reviews)))"

definition approve_unknown_cnpj :: "office_env \<Rightarrow> request \<Rightarrow> review \<Rightarrow> (office, reply) prog" where
  "approve_unknown_cnpj e q item =
     (case unmarshal [''organization_id'', ''name''] (rv_payload item) of
        None \<Rightarrow> render_reviews q ''failed to parse review payload''
      | Some p \<Rightarrow>
          (let org = trim_space (p ''organization_id''); cnpj = form q ''cnpj'' in
           if org = [] then render_reviews q ''review payload is missing organization_id''
           else if cnpj = [] then render_reviews q ''approving an unknown_cnpj review requires a cnpj''
           else rescue (attach_organization_cnpj org cnpj (current_user q))
             (\<lambda>er. render_reviews q (''failed to attach CNPJ: '' @ err_text er))
             (\<lambda>survivor. finish_edge_approval e q item (lit ''Organization.cnpj'')
               [''organization_id'' \<mapsto> PStr org, ''survivor_id'' \<mapsto> PStr survivor, ''merged'' \<mapsto> PBool (survivor \<noteq> org),
                ''cnpj'' \<mapsto> PStr cnpj, ''name'' \<mapsto> PStr (trim_space (p ''name''))])))"

definition approve_djen_party_match :: "office_env \<Rightarrow> request \<Rightarrow> review \<Rightarrow> (office, reply) prog" where
  "approve_djen_party_match e q item =
     (case unmarshal [''politician_id'', ''proceeding_id'', ''case_number''] (rv_payload item) of
        None \<Rightarrow> render_reviews q ''failed to parse review payload''
      | Some p \<Rightarrow>
          (let pol = trim_space (p ''politician_id''); lp = trim_space (p ''proceeding_id'') in
           if pol = [] \<or> lp = [] then render_reviews q ''review payload is missing politician_id or proceeding_id''
           else rescue (ensure_politician_defendant_edge pol lp)
             (\<lambda>er. render_reviews q (''failed to create DEFENDANT_IN edge: '' @ err_text er))
             (\<lambda>_. finish_edge_approval e q item (lit ''DEFENDANT_IN'')
               [''politician_id'' \<mapsto> PStr pol, ''proceeding_id'' \<mapsto> PStr lp,
                ''case_number'' \<mapsto> PStr (trim_space (p ''case_number''))])))"

definition approve_politician_in_qsa :: "office_env \<Rightarrow> request \<Rightarrow> review \<Rightarrow> (office, reply) prog" where
  "approve_politician_in_qsa e q item =
     (case unmarshal [''politician_id'', ''organization_id''] (rv_payload item) of
        None \<Rightarrow> render_reviews q ''failed to parse review payload''
      | Some p \<Rightarrow>
          (let pol = (if form q ''politician_id'' = [] then trim_space (p ''politician_id'') else form q ''politician_id'');
               org = trim_space (p ''organization_id'') in
           if pol = [] \<or> org = [] then render_reviews q ''review payload is missing politician_id or organization_id''
           else rescue (ensure_politician_controls_organization pol org)
             (\<lambda>er. render_reviews q (''failed to create CONTROLS edge: '' @ err_text er))
             (\<lambda>_. finish_edge_approval e q item (lit ''CONTROLS'')
               [''politician_id'' \<mapsto> PStr pol, ''organization_id'' \<mapsto> PStr org])))"

definition approve_politician_sanction :: "office_env \<Rightarrow> request \<Rightarrow> review \<Rightarrow> (office, reply) prog" where
  "approve_politician_sanction e q item =
     (case unmarshal [''politician_id'', ''sanction_id''] (rv_payload item) of
        None \<Rightarrow> render_reviews q ''failed to parse review payload''
      | Some p \<Rightarrow>
          (let pol = trim_space (p ''politician_id''); sanction = trim_space (p ''sanction_id'') in
           if pol = [] \<or> sanction = [] then render_reviews q ''review payload is missing politician_id or sanction_id''
           else rescue (ensure_politician_sanctioned_in_edge pol sanction)
             (\<lambda>er. render_reviews q (''failed to create SANCTIONED_IN edge: '' @ err_text er))
             (\<lambda>_. finish_edge_approval e q item (lit ''SANCTIONED_IN'')
               [''politician_id'' \<mapsto> PStr pol, ''sanction_id'' \<mapsto> PStr sanction])))"

definition approve_djen_candidate :: "office_env \<Rightarrow> request \<Rightarrow> review \<Rightarrow> (office, reply) prog" where
  "approve_djen_candidate e q item =
     (let sc = resolve_scandal_id q; user = current_user q; i = oe_text e (rv_id item) in
      if sc = [] then render_reviews q ''scandal id is required to approve a DJEN case candidate''
      else case unmarshal [''case_number'', ''tribunal_sigla'', ''tribunal_endpoint''] (rv_payload item) of
        None \<Rightarrow> render_reviews q ''failed to parse review payload''
      | Some p \<Rightarrow>
          (let c = trim_space (p ''case_number'') in
           if c = [] then render_reviews q ''review payload is missing case_number; cannot approve''
           else case resolve_tribunal_endpoint (p ''tribunal_endpoint'') (p ''tribunal_sigla'') of
             Inl er \<Rightarrow> render_reviews q (err_text er)
           | Inr endpoint \<Rightarrow>
               rescue (register_watcher_case e c endpoint sc [] ''djen'') (\<lambda>er. render_reviews q (err_text er)) (\<lambda>_.
               rescue (update_pending_review_status e i ''approved'' user)
                 (\<lambda>er. render_reviews q (''case registered but failed to mark review approved: '' @ err_text er))
                 (\<lambda>_. seqR (ignoreR (log_audit user ''update'' ''pending_review'' i
                     [''resolution'' \<mapsto> PStr (lit ''approved''), ''type'' \<mapsto> PStr (lit (rv_type item)),
                      ''case_number'' \<mapsto> PStr c, ''scandal_id'' \<mapsto> PStr sc]))
                   (ret to_reviews)))))"

definition update_review :: "office_env \<Rightarrow> request \<Rightarrow> string \<Rightarrow> (office, reply) prog" where
  "update_review e q status =
     (let i = trim_space (qr_id q); user = current_user q; reason = form q ''reason'' in
      if i = [] then ret BadRequest
      else rescue (get_pending_review e i) (\<lambda>_. ret ServerError) (\<lambda>item.
        rescue (update_pending_review_status e i status user) (\<lambda>_. ret ServerError) (\<lambda>_.
          seqR (ignoreR (log_audit user ''update'' ''pending_review'' i
              ([''resolution'' \<mapsto> PStr (lit status), ''type'' \<mapsto> PStr (lit (rv_type item))]
                 ++ (if reason \<noteq> [] then [''reason'' \<mapsto> PStr reason] else Map.empty))))
            (ret to_reviews))))"

definition review_approve :: "office_env \<Rightarrow> request \<Rightarrow> (office, reply) prog" where
  "review_approve e q =
     (let i = trim_space (qr_id q) in
      if i = [] then ret BadRequest
      else rescue (get_pending_review e i) (\<lambda>_. ret ServerError) (\<lambda>item.
        if rv_status item \<noteq> ''pending''
        then render_reviews q (''approval ignored: review is not pending (already '' @ rv_status item @ '')'')
        else if rv_type item = ''djen_case_candidate'' then approve_djen_candidate e q item
        else if rv_type item = ''djen_party_match'' then approve_djen_party_match e q item
        else if rv_type item = ''possible_politician_in_qsa'' then approve_politician_in_qsa e q item
        else if rv_type item = ''possible_politician_sanction'' then approve_politician_sanction e q item
        else if rv_type item = ''unknown_cnpj'' then approve_unknown_cnpj e q item
        else update_review e q ''approved''))"

definition review_reject :: "office_env \<Rightarrow> request \<Rightarrow> (office, reply) prog" where
  "review_reject e q = update_review e q ''rejected''"

section \<open>Removal requests\<close>

definition shown_removal_of :: "removal \<Rightarrow> (office, shown_removal) prog" where
  "shown_removal_of r = bindR (attemptR (get_node_provenance (rr_target r))) (\<lambda>p. ret (r, p))"

fun each :: "('a \<Rightarrow> (office, 'b) prog) \<Rightarrow> 'a list \<Rightarrow> (office, 'b list) prog" where
  "each f [] = ret []"
| "each f (x # xs) = bindR (f x) (\<lambda>y. bindR (each f xs) (\<lambda>ys. ret (y # ys)))"

definition render_removals :: "request \<Rightarrow> string \<Rightarrow> (office, reply) prog" where
  "render_removals q banner =
     rescue (list_removal_requests (query_param q ''status'') 200) (\<lambda>_. ret ServerError)
       (\<lambda>items. bindR (each shown_removal_of items) (\<lambda>rows. ret (RemovalsPage banner rows)))"

definition to_removals :: reply where
  "to_removals = SeeOther ''/backoffice/removals''"

definition removal_create :: "office_env \<Rightarrow> request \<Rightarrow> (office, reply) prog" where
  "removal_create e q =
     (let requester = form q ''requester''; target_type = form q ''target_type''; target_id = form q ''target_id'' in
      if requester = [] \<or> target_type = [] \<or> target_id = []
      then render_removals q ''requester, target_type and target_id are required''
      else rescue (create_removal_request e requester target_type target_id (form q ''reason''))
        (\<lambda>er. render_removals q (err_text er))
        (\<lambda>i. seqR (ignoreR (log_audit (current_user q) ''create'' ''removal_request'' i
            [''requester'' \<mapsto> PStr requester, ''target_type'' \<mapsto> PStr target_type, ''target_id'' \<mapsto> PStr target_id]))
          (ret to_removals)))"

definition purge_tombstone_keys :: "provenance \<Rightarrow> gostr list" where
  "purge_tombstone_keys np =
     (if digits_only (pv_cpf np) \<noteq> [] then [tombstone_key_cpf (digits_only (pv_cpf np))] else [])
     @ (if digits_only (pv_cnpj np) \<noteq> [] then [tombstone_key_cnpj (digits_only (pv_cnpj np))] else [])
     @ (if trim_space (pv_name np) \<noteq> [] then [tombstone_key_name (pv_name np)] else [])"

definition deletion_record :: "removal \<Rightarrow> provenance \<Rightarrow> props" where
  "deletion_record r np =
     [''target_id'' \<mapsto> PStr (rr_target r), ''requester'' \<mapsto> PStr (rr_requester r), ''label'' \<mapsto> PStr (lit (pv_label np)),
      ''name'' \<mapsto> PStr (pv_name np), ''creation_reason'' \<mapsto> PStr (pv_reason np),
      ''edges_deleted'' \<mapsto> PNum (of_nat (pv_edges np))]"

text \<open>The stages of a purge once the node is gone: the tombstones, the name, the request.\<close>

definition close_purge :: "office_env \<Rightarrow> request \<Rightarrow> gostr \<Rightarrow> (office, reply) prog" where
  "close_purge e q i =
     (let resolution = (if form q ''resolution'' = [] then lit ''purged targeted node and all edges from the graph''
                        else form q ''resolution'') in
      rescue (resolve_removal_request e i ''resolved'' resolution (current_user q)) (\<lambda>er. render_removals q (err_text er))
        (\<lambda>_. ret to_removals))"

definition erase_name :: "office_env \<Rightarrow> request \<Rightarrow> gostr \<Rightarrow> removal \<Rightarrow> provenance \<Rightarrow> (office, reply) prog" where
  "erase_name e q i r np =
     (if trim_space (pv_name np) = [] then close_purge e q i
      else rescue (delete_purged_subject_name (oe_upper e) (oe_ci e) (oe_json e) (pv_name np))
        (\<lambda>er. render_removals q (''node purged and tombstoned, but failed to scrub the name from the review tables: '' @ err_text er))
        (\<lambda>n. seqR (if 0 < n then ignoreR (log_audit (current_user q) ''delete'' ''review_substrate'' (rr_target r)
                                    [''name_rows_deleted'' \<mapsto> PNum (of_nat n)])
                   else ret ())
               (close_purge e q i)))"

definition bury :: "office_env \<Rightarrow> request \<Rightarrow> gostr \<Rightarrow> removal \<Rightarrow> provenance \<Rightarrow> (office, reply) prog" where
  "bury e q i r np =
     (if purge_tombstone_keys np = [] then erase_name e q i r np
      else rescue (create_purge_tombstones (purge_tombstone_keys np) (rr_target r) (oe_text e (rr_id r)))
        (\<lambda>er. render_removals q (''node purged but failed to write purge tombstone: '' @ err_text er))
        (\<lambda>_. erase_name e q i r np))"

definition purge_subject :: "office_env \<Rightarrow> request \<Rightarrow> gostr \<Rightarrow> removal \<Rightarrow> (office, reply) prog" where
  "purge_subject e q i r =
     (if rr_status r \<noteq> ''pending''
      then render_removals q (''purge refused: removal request is not pending (already '' @ rr_status r @ '')'')
      else rescue (purge_person_node (rr_target r)) (\<lambda>er. render_removals q (''purge refused: '' @ err_text er)) (\<lambda>np.
        seqR (ignoreR (log_audit (current_user q) ''delete'' ''graph_node'' (rr_target r) (deletion_record r np)))
          (bury e q i r np)))"

definition settle_request ::
  "office_env \<Rightarrow> request \<Rightarrow> gostr \<Rightarrow> string \<Rightarrow> gostr \<Rightarrow> (office, reply) prog" where
  "settle_request e q i status fallback =
     (let resolution = (if form q ''resolution'' = [] then fallback else form q ''resolution'') in
      rescue (resolve_removal_request e i status resolution (current_user q)) (\<lambda>er. render_removals q (err_text er))
        (\<lambda>_. seqR (ignoreR (log_audit (current_user q) ''update'' ''removal_request'' i
            [''resolution'' \<mapsto> PStr (lit status), ''note'' \<mapsto> PStr resolution])) (ret to_removals)))"

definition removal_resolve :: "office_env \<Rightarrow> request \<Rightarrow> (office, reply) prog" where
  "removal_resolve e q =
     (let i = trim_space (qr_id q); action = form q ''action'' in
      if i = [] then ret BadRequest
      else rescue (get_removal_request e i) (\<lambda>er. render_removals q (''failed to load removal request: '' @ err_text er)) (\<lambda>r.
        if action = lit ''purge'' then purge_subject e q i r
        else if action = lit ''reject'' then settle_request e q i ''rejected'' (lit ''request refused'')
        else if action = lit ''manual'' then settle_request e q i ''resolved'' (lit ''resolved manually'')
        else render_removals q ''unknown action''))"

section \<open>Outcomes\<close>

definition outcomes_list :: "(office, reply) prog" where
  "outcomes_list = rescue list_proceedings_for_outcome (\<lambda>_. ret ServerError) (\<lambda>items. ret (OutcomesPage items))"

definition render_outcome_case :: "gostr \<Rightarrow> string \<Rightarrow> string \<Rightarrow> (office, reply) prog" where
  "render_outcome_case lp msg banner =
     rescue (list_defendants lp) (\<lambda>_. ret ServerError) (\<lambda>ds. ret (CasePage lp msg banner ds))"

definition outcome_case :: "request \<Rightarrow> (office, reply) prog" where
  "outcome_case q = (if trim_space (qr_id q) = [] then ret BadRequest else render_outcome_case (trim_space (qr_id q)) '''' '''')"

definition outcome_submit :: "request \<Rightarrow> (office, reply) prog" where
  "outcome_submit q =
     (let lp = trim_space (qr_id q); party = form q ''party_id''; out = form q ''outcome'';
          evidence = form q ''evidence_url'' in
      if lp = [] \<or> party = [] then render_outcome_case lp '''' ''missing proceeding or party id''
      else rescue (set_defendant_outcome lp party out evidence (current_user q))
        (\<lambda>er. render_outcome_case lp '''' (err_text er))
        (\<lambda>_. seqR (ignoreR (log_audit (current_user q) ''update'' ''defendant_outcome'' party
            [''proceeding_id'' \<mapsto> PStr lp, ''party_id'' \<mapsto> PStr party, ''outcome'' \<mapsto> PStr out, ''evidence_url'' \<mapsto> PStr evidence]))
          (render_outcome_case lp ''Outcome recorded'' '''')))"

section \<open>The routes\<close>

definition validate_backoffice_credentials :: "gostr \<Rightarrow> gostr \<Rightarrow> err + unit" where
  "validate_backoffice_credentials dev pass =
     (if dev \<noteq> lit ''true'' \<and> (trim_space pass = [] \<or> trim_space pass = lit ''changeme'')
      then Inl (Refused ''refusing to start with default/weak credentials'') else Inr ())"

text \<open>The one account gin's \<^verbatim>\<open>BasicAuth\<close> lets through, from \<^verbatim>\<open>BACKOFFICE_USER\<close> and \<^verbatim>\<open>BACKOFFICE_PASS\<close>.\<close>

definition backoffice_account :: "gostr \<Rightarrow> gostr \<Rightarrow> gostr \<times> gostr" where
  "backoffice_account user pass =
     (if user = [] then lit ''admin'' else user, if pass = [] then lit ''changeme'' else pass)"

datatype route =
    GetDashboard | GetSeed | GetReviews | GetRemovals | GetOutcomes | GetOutcomeCase
  | PostSeed | PostApprove | PostReject | PostRemoval | PostResolve | PostOutcome

definition is_post :: "route \<Rightarrow> bool" where
  "is_post r \<longleftrightarrow> r \<in> {PostSeed, PostApprove, PostReject, PostRemoval, PostResolve, PostOutcome}"

text \<open>\<open>hr_auth\<close> is the pair in the authorization header, \<open>hr_hx\<close> the header \<^verbatim>\<open>HX-Request\<close>.\<close>

record http_request =
  hr_route :: route
  hr_auth :: "(gostr \<times> gostr) option"
  hr_hx :: gostr
  hr_body :: request

definition handle_route :: "office_env \<Rightarrow> route \<Rightarrow> request \<Rightarrow> (office, reply) prog" where
  "handle_route e r q =
     (case r of
        GetDashboard \<Rightarrow> dashboard
      | GetSeed \<Rightarrow> bindR load_scandals (\<lambda>_. ret (SeedPage '''' ''''))
      | GetReviews \<Rightarrow> render_reviews q ''''
      | GetRemovals \<Rightarrow> render_removals q ''''
      | GetOutcomes \<Rightarrow> outcomes_list
      | GetOutcomeCase \<Rightarrow> outcome_case q
      | PostSeed \<Rightarrow> seed_submit e q
      | PostApprove \<Rightarrow> review_approve e q
      | PostReject \<Rightarrow> review_reject e q
      | PostRemoval \<Rightarrow> removal_create e q
      | PostResolve \<Rightarrow> removal_resolve e q
      | PostOutcome \<Rightarrow> outcome_submit q)"

definition csrf_protection :: "http_request \<Rightarrow> (office, reply) prog \<Rightarrow> (office, reply) prog" where
  "csrf_protection h continue =
     (if \<not> is_post (hr_route h) then continue
      else if hr_hx h \<noteq> lit ''true'' then ret Forbidden else continue)"

definition serve :: "office_env \<Rightarrow> gostr \<times> gostr \<Rightarrow> http_request \<Rightarrow> (office, reply) prog" where
  "serve e account h =
     (if hr_auth h \<noteq> Some account then ret Unauthorized
      else csrf_protection h (handle_route e (hr_route h) ((hr_body h)\<lparr>qr_user := fst account\<rparr>)))"

section \<open>The baseline seed\<close>

definition baseline_scandals :: "(scandal_seed \<times> (gostr \<times> gostr) list) list" where
  "baseline_scandals =
     [(\<lparr>sd_id = lit ''lava-jato'',
        sd_name = lit ''Opera'' @ [231, 227] @ lit ''o Lava Jato'',
        sd_description = lit ''Investiga'' @ [231, 227] @ lit ''o da Pol'' @ [237] @ lit ''cia Federal e do Minist''
            @ [233] @ lit ''rio P'' @ [250] @ lit ''blico Federal, deflagrada em mar'' @ [231]
            @ lit ''o de 2014, sobre um esquema de corrup'' @ [231, 227]
            @ lit ''o e lavagem de dinheiro envolvendo contratos da Petrobras, empreiteiras e agentes p'' @ [250]
            @ lit ''blicos. A for'' @ [231]
            @ lit ''a-tarefa de Curitiba foi encerrada em fevereiro de 2021; recursos e revis'' @ [245]
            @ lit ''es de condena'' @ [231, 245] @ lit ''es seguem em andamento.'',
        sd_start = lit ''2014-03-17'',
        sd_end = [],
        sd_status = lit ''ongoing'',
        sd_wikipedia = lit ''https://pt.wikipedia.org/wiki/Opera%C3%A7%C3%A3o_Lava_Jato''\<rparr>,
       [(lit ''5083376-05.2014.4.04.7000'', lit ''api_publica_trf4''),
        (lit ''5046512-94.2016.4.04.7000'', lit ''api_publica_trf4''),
        (lit ''5021365-32.2017.4.04.7000'', lit ''api_publica_trf4'')]),
      (\<lparr>sd_id = lit ''calicute'',
        sd_name = lit ''Opera'' @ [231, 227] @ lit ''o Calicute'',
        sd_description = lit ''Desdobramento da Lava Jato no Rio de Janeiro, deflagrado em novembro de 2016, sobre ''
            @ lit ''desvios em contratos de obras p'' @ [250] @ lit ''blicas do governo estadual fluminense.'',
        sd_start = lit ''2016-11-17'',
        sd_end = [],
        sd_status = lit ''ongoing'',
        sd_wikipedia = lit ''https://pt.wikipedia.org/wiki/Opera%C3%A7%C3%A3o_Calicute''\<rparr>,
       [(lit ''0509503-57.2016.4.02.5101'', lit ''api_publica_trf2'')]),
      (\<lparr>sd_id = lit ''mensalao'',
        sd_name = lit ''Esc'' @ [226] @ lit ''ndalo do Mensal'' @ [227] @ lit ''o'',
        sd_description = lit ''Esquema de compra de apoio parlamentar revelado em 2005, julgado pelo Supremo ''
            @ lit ''Tribunal Federal na A'' @ [231, 227] @ lit ''o Penal 470, com condena'' @ [231, 245]
            @ lit ''es a partir de 2012. O STF n'' @ [227] @ lit ''o integra a API p'' @ [250]
            @ lit ''blica do DataJud, portanto este caso n'' @ [227] @ lit ''o recebe atualiza'' @ [231, 245]
            @ lit ''es autom'' @ [225] @ lit ''ticas de andamento processual.'',
        sd_start = lit ''2005-06-06'',
        sd_end = lit ''2014-03-15'',
        sd_status = lit ''concluded'',
        sd_wikipedia = lit ''https://pt.wikipedia.org/wiki/Esc%C3%A2ndalo_do_mensal%C3%A3o''\<rparr>,
       [])]"

text \<open>
  \<^verbatim>\<open>SeedBaseline\<close> runs at every start of the API: a scandal that fails is skipped with its cases, a case
  that fails is skipped alone, and neither stops the start.
\<close>

definition seed_scandal :: "office_env \<Rightarrow> scandal_seed \<times> (gostr \<times> gostr) list \<Rightarrow> (office, unit) prog" where
  "seed_scandal e sc =
     (case sc of (d, cases) \<Rightarrow>
        rescue (upsert_scandal_seed d) (\<lambda>_. ret ())
          (\<lambda>_. forR (\<lambda>(c, endpoint).
             ignoreR (register_watcher_case e c endpoint (sd_id d) (sd_name d) ''baseline_seed'')) cases))"

definition seed_baseline :: "office_env \<Rightarrow> (office, unit) prog" where
  "seed_baseline e = (if oe_seed e then forR (seed_scandal e) baseline_scandals else ret ())"

end
