(* ===== verification/Office_Run.thy ===== *)
theory Office_Run
  imports Office Djen_Run
begin

text \<open>
  What the back office keeps, whatever is asked of it and wherever a connection breaks. The contract
  between its handlers and the stores is the locale \<open>office_stores\<close>, interpreted here for the tombstones
  and for the well-formedness of the graph.
\<close>

section \<open>The combinators of the handlers\<close>

context state_order
begin

lemma attempted: "moves R m \<Longrightarrow> (\<And>a. moves R (k a)) \<Longrightarrow> moves R (bindR (attemptR m) k)"
  by (rule bindR) (rule attemptR)

end

locale desk_order = world_order R for R :: "office \<Rightarrow> office \<Rightarrow> bool"
begin

lemma rescue [order_intros]:
  "moves R m \<Longrightarrow> (\<And>er. moves R (f er)) \<Longrightarrow> (\<And>x. moves R (k x)) \<Longrightarrow> moves R (rescue m f k)"
  unfolding rescue_def by (rule attempted) (auto intro: moves_sum)

lemma each [order_intros]: "(\<And>x. moves R (f x)) \<Longrightarrow> moves R (each f xs)"
  by (induction xs) (auto intro!: ret bindR)

lemma sql_count: "(\<And>s. R s (snd (f s))) \<Longrightarrow> moves R (sql_count f)"
  unfolding sql_count_def by (rule db_call) (simp add: moves_def case_prod_beta)

lemma with_uuid [order_intros]: "(\<And>n. moves R (f n)) \<Longrightarrow> moves R (with_uuid e i f)"
  unfolding with_uuid_def by (auto intro: db_call throw split: option.split)

lemma office_reads [order_intros]:
  "moves R (list_pending_reviews st ty n)" "moves R count_pending_reviews_by_type"
  "moves R (get_pending_review e i)" "moves R (list_removal_requests st n)" "moves R (get_removal_request e i)"
  "moves R list_scandals" "moves R (get_node_provenance j)" "moves R list_proceedings_for_outcome"
  "moves R (list_defendants j)"
  unfolding list_pending_reviews_def count_pending_reviews_by_type_def get_pending_review_def
    list_removal_requests_def get_removal_request_def list_scandals_def get_node_provenance_def
    list_proceedings_for_outcome_def list_defendants_def
  by (auto intro!: with_uuid bindR sql_read cypher_read moves_option throw ret)

lemma pages [order_intros]:
  "moves R load_scandals" "moves R (render_reviews q b)" "moves R (render_removals q b)"
  "moves R (render_outcome_case lp m b)" "moves R dashboard" "moves R outcomes_list" "moves R (outcome_case q)"
  unfolding load_scandals_def render_reviews_def render_removals_def render_outcome_case_def dashboard_def
    outcomes_list_def outcome_case_def shown_removal_of_def
  by (intro moves_if rescue bindR attempted each office_reads ret | rule moves_if)+

lemma viewing: "\<not> is_post r \<Longrightarrow> moves R (handle_route e r q)"
  unfolding handle_route_def by (cases r) (auto simp: is_post_def intro!: pages bindR ret)

end

text \<open>A request that is turned away, or only looks, changes no store.\<close>

definition only_faults :: "office \<Rightarrow> office \<Rightarrow> bool" where
  "only_faults s t \<longleftrightarrow> (\<exists>fs. t = s\<lparr>faults := fs\<rparr>)"

interpretation looking: desk_order only_faults
proof unfold_locales
  show "only_faults s s" for s
    unfolding only_faults_def by (rule exI [of _ "faults s"]) simp
qed (auto simp: only_faults_def)

text \<open>An order of the office ignores every table but the tombstones.\<close>

locale office_order = desk_order R for R :: "office \<Rightarrow> office \<Rightarrow> bool" +
  assumes reviews: "R s (s\<lparr>reviews := x\<rparr>)" and snapshots: "R s (s\<lparr>snapshots := y\<rparr>)"
    and aliases: "R s (s\<lparr>aliases := z\<rparr>)" and watches: "R s (s\<lparr>watches := w\<rparr>)"
    and removals: "R s (s\<lparr>removals := v\<rparr>)" and audits: "R s (s\<lparr>audits := u\<rparr>)"
    and issued: "R s (s\<lparr>issued := k\<rparr>)"
begin

lemma audit [order_intros]: "moves R (log_audit a b c d m)"
  unfolding log_audit_def by (rule sql) (rule audits)

lemma settling [order_intros]: "moves R (update_pending_review_status e i st by)"
  unfolding update_pending_review_status_def by (intro moves_if throw with_uuid sql reviews)

lemma removal_tables [order_intros]:
  "moves R (create_removal_request e a b c d)" "moves R (resolve_removal_request e i st x by)"
proof -
  have new: "R s (s\<lparr>removals := v, issued := k\<rparr>)" for s v k by (rule trans [OF removals issued])
  show "moves R (create_removal_request e a b c d)" "moves R (resolve_removal_request e i st x by)"
    unfolding create_removal_request_def resolve_removal_request_def
    by (auto intro!: moves_if throw with_uuid bindR sql_count ret new removals)
qed

lemma erasing [order_intros]: "moves R (delete_purged_subject_name up ci txt raw)"
proof -
  have del: "moves R (sql_delete cnt f)" if "\<And>s. R s (f s)" for cnt f
    unfolding sql_delete_def by (rule db_call) (simp add: moves_def that)
  show ?thesis
    unfolding delete_purged_subject_name_def Let_def
    by (intro moves_if ret bindR del snapshots aliases reviews)
qed

lemma tracking [order_intros]: "moves R (upsert_watcher_case c e sc lp b)"
  unfolding upsert_watcher_case_def by (rule sql) (simp add: watches)

lemma closing [order_intros]: "moves R (close_purge e q i)" "moves R (erase_name e q i r np)"
  unfolding erase_name_def close_purge_def Let_def
  by (intro moves_if rescue pages seqR ignoreR audit erasing removal_tables ret)+

end

text \<open>Closing a purge touches neither the graph nor the tombstones.\<close>

definition same_subjects :: "office \<Rightarrow> office \<Rightarrow> bool" where
  "same_subjects s t \<longleftrightarrow> graph t = graph s \<and> tombs t = tombs s"

interpretation subjects: office_order same_subjects
  by unfold_locales (simp_all add: same_subjects_def)

section \<open>The contract of the stores\<close>

locale office_stores = office_order R for R :: "office \<Rightarrow> office \<Rightarrow> bool" +
  assumes entomb: "moves R (create_purge_tombstones ks j r)"
    and scandal: "moves R (upsert_scandal i n d)"
    and scandal_seed: "moves R (upsert_scandal_seed sd)"
    and proceeding: "moves R (upsert_legal_proceeding_by_case (bare_case c))"
    and investigates: "moves R (ensure_investigates_edge lp i)"
    and defendant: "moves R (ensure_politician_defendant_edge pol lp)"
    and controls: "moves R (ensure_politician_controls_organization pol org)"
    and sanctioned: "moves R (ensure_politician_sanctioned_in_edge pol sid)"
    and purge: "moves R (purge_person_node i)"
    and outcome: "moves R (set_defendant_outcome lp party out ev actor)"
    and attach: "moves R (attach_organization_cnpj i cnpj actor)"
begin

lemma register [order_intros]: "moves R (register_watcher_case e c ep sc n b)"
  unfolding register_watcher_case_def Let_def
  by (intro moves_if throw bindR seqR proceeding scandal investigates tracking)

lemma seeding: "moves R (seed_baseline e)"
proof -
  have "moves R (seed_scandal e x)" for x
    unfolding seed_scandal_def by (intro moves_prod rescue scandal_seed ret forR ignoreR register)
  then show ?thesis unfolding seed_baseline_def by (intro moves_if forR ret)
qed

lemma finish [order_intros]: "moves R (finish_edge_approval e q item edge meta)"
  unfolding finish_edge_approval_def Let_def by (intro rescue settling pages seqR ignoreR audit ret)

lemma reviewing [order_intros]:
  "moves R (approve_unknown_cnpj e q item)" "moves R (approve_djen_party_match e q item)"
  "moves R (approve_politician_in_qsa e q item)" "moves R (approve_politician_sanction e q item)"
  unfolding approve_unknown_cnpj_def approve_djen_party_match_def approve_politician_in_qsa_def
    approve_politician_sanction_def Let_def
  by (intro moves_option moves_if rescue pages attach defendant controls sanctioned finish)+

lemma candidate [order_intros]: "moves R (approve_djen_candidate e q item)"
  unfolding approve_djen_candidate_def Let_def
  by (intro moves_option moves_if moves_sum rescue pages register settling seqR ignoreR audit ret)

lemma updating [order_intros]: "moves R (update_review e q st)"
  unfolding update_review_def Let_def by (intro moves_if rescue office_reads settling seqR ignoreR audit ret)

lemma approving [order_intros]: "moves R (review_approve e q)"
  unfolding review_approve_def Let_def
  by (intro moves_if rescue office_reads pages candidate reviewing updating ret)

lemma purging [order_intros]: "moves R (purge_subject e q i r)"
  unfolding purge_subject_def bury_def erase_name_def close_purge_def Let_def
  by (intro moves_if rescue pages purge seqR ignoreR audit entomb erasing removal_tables ret)

lemma resolving [order_intros]: "moves R (removal_resolve e q)"
  unfolding removal_resolve_def settle_request_def Let_def
  by (intro moves_if rescue office_reads pages purging seqR ignoreR audit removal_tables ret)

lemma forms [order_intros]: "moves R (seed_submit e q)" "moves R (removal_create e q)" "moves R (outcome_submit q)"
  unfolding seed_submit_def removal_create_def outcome_submit_def Let_def
  by (intro moves_if bindR rescue pages register removal_tables seqR ignoreR audit outcome ret)+

lemma routes: "moves R (handle_route e r q)"
  unfolding handle_route_def review_reject_def
  by (cases r) (auto intro!: pages bindR ret forms approving updating resolving)

lemma serving: "moves R (serve e acc h)"
  unfolding serve_def csrf_protection_def by (intro moves_if ret routes)

end

section \<open>Orders of the tables\<close>

text \<open>An order every statement respects says something of the tables only, or something Memgraph checks.\<close>

locale statement_order = office_order R for R :: "office \<Rightarrow> office \<Rightarrow> bool" +
  assumes graphs: "ids_unique g \<Longrightarrow> R s (s\<lparr>graph := g\<rparr>)"
    and tombstones: "moves R (create_purge_tombstones ks j r)"
begin

lemma any_cypher: "moves R (cypher f)"
  by (rule cypher) (rule graphs)

lemma any_delete: "moves R (plain_delete P)"
  unfolding plain_delete_def by (rule db_call) (simp add: moves_def run_cypher_def case_prod_beta graphs)

end

sublocale statement_order \<subseteq> office_stores R
proof unfold_locales
  fix ks j r i n d sd c lp pol org sid party out ev actor cnpj
  show "moves R (create_purge_tombstones ks j r)" by (rule tombstones)
  show "moves R (upsert_scandal i n d)" "moves R (upsert_scandal_seed sd)" "moves R (ensure_investigates_edge lp i)"
    unfolding upsert_scandal_def upsert_scandal_seed_def ensure_investigates_edge_def Let_def by (rule any_cypher)+
  show "moves R (upsert_legal_proceeding_by_case (bare_case c))"
    by (rule upsert_legal_proceeding) (rule any_cypher)
  have "moves R (merge_confirmed_politician_edge ce)" for ce
    unfolding merge_confirmed_politician_edge_def by (intro moves_if throw bindR ret any_cypher)
  then show "moves R (ensure_politician_defendant_edge pol lp)" "moves R (ensure_politician_controls_organization pol org)"
    "moves R (ensure_politician_sanctioned_in_edge pol sid)"
    unfolding ensure_politician_defendant_edge_def ensure_politician_controls_organization_def
      ensure_politician_sanctioned_in_edge_def by simp_all
  show "moves R (purge_person_node i)"
    unfolding purge_person_node_def get_node_provenance_def
    by (intro bindR cypher_read moves_option throw moves_if seqR ret any_cypher)
  show "moves R (set_defendant_outcome lp party out ev actor)"
    unfolding set_defendant_outcome_def by (intro moves_if throw bindR getR ret any_cypher)
  show "moves R (attach_organization_cnpj i cnpj actor)"
    unfolding attach_organization_cnpj_def merge_organizations_def Let_def
    by (auto intro!: moves_if throw bindR seqR getR cypher_read ret any_cypher any_delete split: list.split)
qed

text \<open>Tombstones are never lifted.\<close>

lemma tombs_same: "tombs t = tombs s \<Longrightarrow> tombs_grow s t"
  by (simp add: tombs_grow_def buried_def)

interpretation grow_desk: statement_order tombs_grow
proof unfold_locales
  fix s :: office and x y z w v u k ks j r g
  show "tombs_grow s (s\<lparr>reviews := x\<rparr>)" "tombs_grow s (s\<lparr>snapshots := y\<rparr>)" "tombs_grow s (s\<lparr>aliases := z\<rparr>)"
    "tombs_grow s (s\<lparr>watches := w\<rparr>)" "tombs_grow s (s\<lparr>removals := v\<rparr>)" "tombs_grow s (s\<lparr>audits := u\<rparr>)"
    "tombs_grow s (s\<lparr>issued := k\<rparr>)"
    by (simp_all add: tombs_same)
  show "ids_unique g \<Longrightarrow> tombs_grow s (s\<lparr>graph := g\<rparr>)" by (simp add: tombs_same)
  show "moves tombs_grow (create_purge_tombstones ks j r :: (office, unit) prog)" by (rule grow_create)
qed

text \<open>No statement leaves two nodes of one kind with the same id.\<close>

definition unique :: "'z world_scheme \<Rightarrow> 'z world_scheme \<Rightarrow> bool" where
  "unique s t \<longleftrightarrow> (ids_unique (graph s) \<longrightarrow> ids_unique (graph t))"

interpretation unique: world_order unique
  by unfold_locales (auto simp: unique_def)

interpretation unique_desk: statement_order unique
proof unfold_locales
  fix s :: office and x y z w v u k ks j r g
  show "unique s (s\<lparr>reviews := x\<rparr>)" "unique s (s\<lparr>snapshots := y\<rparr>)" "unique s (s\<lparr>aliases := z\<rparr>)"
    "unique s (s\<lparr>watches := w\<rparr>)" "unique s (s\<lparr>removals := v\<rparr>)" "unique s (s\<lparr>audits := u\<rparr>)"
    "unique s (s\<lparr>issued := k\<rparr>)"
    by (simp_all add: unique_def)
  show "ids_unique g \<Longrightarrow> unique s (s\<lparr>graph := g\<rparr>)" by (simp add: unique_def)
  show "moves unique (create_purge_tombstones ks j r :: (office, unit) prog)"
    unfolding create_purge_tombstones_def
    by (intro unique.forR moves_if unique.sql unique.ret) (simp add: insert_tombstone_def unique_def)
qed

end
