(* ===== verification/Cnpj.thy ===== *)
theory Cnpj
  imports Office_Graph Sanction_Store Datajud_Client "HOL-Library.Multiset"
begin

text \<open>
  The company enricher (\<^verbatim>\<open>backend/workers/cnpj\<close>, \<^verbatim>\<open>backend/db/memgraph/cnpj_writer.go\<close>): it looks every
  company up in the federal register, writes what the register says of it, and follows the partners of the
  partners. The register is the environment \<open>cn_api\<close>: any function of the ordinal of the request and its
  address, giving the time to the answer and the answer; reading the JSON is part of it.
\<close>

section \<open>What the register answers\<close>

record qsa_entry =
  qs_nome :: gostr
  qs_doc :: gostr
  qs_qualificacao :: gostr
  qs_codigo :: int

record cnpj_response =
  cr_cnpj :: gostr
  cr_razao :: gostr
  cr_situacao :: gostr
  cr_natureza :: gostr
  cr_uf :: gostr
  cr_capital :: rat
  cr_cnae :: gostr
  cr_qsa :: "qsa_entry list"

datatype cn_body = CnUnreadable | CnUndecodable | CnDecoded cnpj_response

datatype cn_reply = CnDropped | CnAnswered int cn_body

record cn_api =
  cn_url_ok :: "gostr \<Rightarrow> bool"
  cn_server :: "nat \<Rightarrow> gostr \<Rightarrow> nat \<times> cn_reply"

record cnpj_client =
  nc_base :: gostr
  nc_min :: nat
  nc_now :: nat
  nc_deadline :: "nat option"
  nc_last :: "nat option"
  nc_log :: "(nat \<times> gostr) list"

definition cn_max_retries :: nat where "cn_max_retries = 6"
definition cn_backoff_initial :: nat where "cn_backoff_initial = 1 * second"
definition cn_backoff_max :: nat where "cn_backoff_max = 60 * second"
definition cn_timeout :: nat where "cn_timeout = 45 * second"
definition default_rate_per_min :: int where "default_rate_per_min = 30"

definition new_cnpj_client :: "gostr \<Rightarrow> int \<Rightarrow> nat \<Rightarrow> nat option \<Rightarrow> cnpj_client" where
  "new_cnpj_client base_url rate now deadline =
     (let base = trim_right_slash (trim_space base_url); r = (if rate \<le> 0 then default_rate_per_min else rate) in
      \<lparr>nc_base = (if base = [] then lit ''https://minhareceita.org'' else base), nc_min = 60 * second div nat r,
       nc_now = now, nc_deadline = deadline, nc_last = None, nc_log = []\<rparr>)"

section \<open>One lookup\<close>

definition cn_sleep :: "nat \<Rightarrow> (cnpj_client, unit) prog" where
  "cn_sleep d s =
     (case nc_deadline s of
        None \<Rightarrow> (Inr (), s\<lparr>nc_now := nc_now s + d\<rparr>)
      | Some dl \<Rightarrow> if dl \<le> nc_now s + d then (Inl Cancelled, s\<lparr>nc_now := max (nc_now s) dl\<rparr>)
                  else (Inr (), s\<lparr>nc_now := nc_now s + d\<rparr>))"

definition cn_mark :: "(cnpj_client, unit) prog" where
  "cn_mark = modR (\<lambda>s. s\<lparr>nc_last := Some (nc_now s)\<rparr>)"

definition cn_limiter_wait :: "(cnpj_client, unit) prog" where
  "cn_limiter_wait s =
     (case nc_last s of
        None \<Rightarrow> cn_mark s
      | Some l \<Rightarrow> if nc_now s - l < nc_min s then seqR (cn_sleep (nc_min s - (nc_now s - l))) cn_mark s else cn_mark s)"

definition cn_double :: "nat \<Rightarrow> nat" where
  "cn_double b = (if cn_backoff_max < 2 * b then cn_backoff_max else 2 * b)"

definition cn_do :: "cn_api \<Rightarrow> gostr \<Rightarrow> (cnpj_client, cn_reply) prog" where
  "cn_do api url s =
     (case cn_server api (length (nc_log s)) url of (dt, r) \<Rightarrow>
        let s' = s\<lparr>nc_log := nc_log s @ [(nc_now s, url)]\<rparr>;
            arrival = nc_now s + min dt cn_timeout;
            answer = (if cn_timeout < dt then CnDropped else r)
        in case nc_deadline s of
             None \<Rightarrow> (Inr answer, s'\<lparr>nc_now := arrival\<rparr>)
           | Some dl \<Rightarrow> if dl \<le> arrival then (Inr CnDropped, s'\<lparr>nc_now := max (nc_now s) dl\<rparr>)
                       else (Inr answer, s'\<lparr>nc_now := arrival\<rparr>))"

text \<open>\<open>left\<close> attempts remain, \<open>b\<close> is the next backoff. The result \<open>None\<close> is the status 404.\<close>

fun cn_get_from :: "cn_api \<Rightarrow> gostr \<Rightarrow> nat \<Rightarrow> nat \<Rightarrow> (cnpj_client, cn_body option) prog" where
  "cn_get_from api url 0 b = throw exhausted"
| "cn_get_from api url (Suc left) b =
     seqR cn_limiter_wait
       (if \<not> cn_url_ok api url then throw (Refused ''build request'')
        else bindR (cn_do api url) (\<lambda>r.
          case r of
            CnDropped \<Rightarrow> seqR (cn_sleep b) (cn_get_from api url left (cn_double b))
          | CnAnswered status bd \<Rightarrow>
              if status = 429 \<or> 500 \<le> status then seqR (cn_sleep b) (cn_get_from api url left (cn_double b))
              else if status = 404 then ret None
              else if status \<noteq> 200 then throw HttpError
              else if bd = CnUnreadable then throw HttpError
              else ret (Some bd)))"

definition cn_get :: "cn_api \<Rightarrow> gostr \<Rightarrow> (cnpj_client, cn_body option) prog" where
  "cn_get api url = cn_get_from api url (Suc cn_max_retries) cn_backoff_initial"

definition fetch_cnpj :: "cn_api \<Rightarrow> gostr \<Rightarrow> (cnpj_client, cnpj_response option) prog" where
  "fetch_cnpj api cnpj =
     (let digits = digits_only cnpj in
      if length digits \<noteq> 14 then throw (Refused ''invalid cnpj'')
      else bindR (getR nc_base) (\<lambda>base.
        bindR (cn_get api (base @ [47] @ digits)) (\<lambda>bd.
          case bd of
            None \<Rightarrow> ret None
          | Some (CnDecoded resp) \<Rightarrow> ret (Some resp)
          | Some _ \<Rightarrow> throw DecodeError)))"

section \<open>The writer\<close>

definition unenriched :: "node \<Rightarrow> bool" where
  "unenriched n \<longleftrightarrow> n_props n ''enriched'' = None \<or> n_props n ''enriched'' = Some (PBool False)"

definition needs_enrichment :: "gostr \<Rightarrow> node \<Rightarrow> bool" where
  "needs_enrichment cutoff n \<longleftrightarrow>
     (case str_or_null n ''cnpj'' of None \<Rightarrow> False | Some c \<Rightarrow> length c = 14) \<and>
     (unenriched n \<or> n_props n ''enriched_at'' = None \<or>
      (case str_or_null n ''enriched_at'' of None \<Rightarrow> False | Some t \<Rightarrow> lex_less t cutoff))"

definition enrichment_rank :: "node \<Rightarrow> nat" where
  "enrichment_rank n = (if unenriched n then 0 else if n_props n ''enriched_at'' = None then 1 else 2)"

definition enrich_before :: "node \<Rightarrow> node \<Rightarrow> bool" where
  "enrich_before a b \<longleftrightarrow>
     enrichment_rank a < enrichment_rank b \<or>
     (enrichment_rank a = enrichment_rank b \<and> null_last (str_or_null a ''enriched_at'') (str_or_null b ''enriched_at''))"

definition list_organizations_needing_enrichment ::
  "int \<Rightarrow> gostr \<Rightarrow> ('z world_scheme, (gostr \<times> gostr) list) prog" where
  "list_organizations_needing_enrichment limit cutoff =
     cypher_read (\<lambda>g.
       let ns = slice_stable enrich_before (match_nodes ''Organization'' (needs_enrichment cutoff) g);
           rows = (if 0 < limit then take (nat limit) ns else ns)
       in filter (\<lambda>(i, c). i \<noteq> [] \<and> c \<noteq> [])
            (List.map (\<lambda>n. (str_prop (n_props n) ''id'', str_prop (n_props n) ''cnpj'')) rows))"

record enrichment =
  en_cnpj :: gostr
  en_name :: gostr
  en_active :: bool
  en_type :: gostr
  en_uf :: gostr
  en_capital :: rat
  en_activity :: gostr
  en_url :: gostr

definition enrichment_facts :: "enrichment \<Rightarrow> gostr \<Rightarrow> node \<Rightarrow> node" where
  "enrichment_facts en at_time =
     upd_props
       [(''name'', Some (PStr (trim_space (en_name en)))), (''search_name'', Some (PStr (fold_query (en_name en)))),
        (''active'', Some (PBool (en_active en))), (''type'', Some (PStr (en_type en))),
        (''uf'', Some (PStr (to_upper (trim_space (en_uf en))))), (''share_capital_brl'', Some (PNum (en_capital en))),
        (''main_activity'', Some (PStr (en_activity en))), (''source_url'', Some (PStr (en_url en))),
        (''enriched'', Some (PBool True)), (''enriched_at'', Some (PStr at_time))]"

definition merge_enrichment :: "enrichment \<Rightarrow> gostr \<Rightarrow> graph \<Rightarrow> graph \<times> gostr list" where
  "merge_enrichment en at_time g =
     (let d = digits_only (en_cnpj en) in
      case merge_node ''Organization'' ''cnpj'' (PStr d) [(''id'', Some (PStr (lit ''org_'' @ d)))]
             (enrichment_facts en at_time) g of
        (g', rows, _) \<Rightarrow> (g', List.map (\<lambda>n. str_prop (n_props n) ''id'') rows))"

definition update_organization_enrichment :: "enrichment \<Rightarrow> gostr \<Rightarrow> ('z world_scheme, gostr) prog" where
  "update_organization_enrichment en at_time =
     (if length (digits_only (en_cnpj en)) \<noteq> 14 then throw (Refused ''invalid cnpj'')
      else if trim_space (en_url en) = [] then throw (Refused ''organization missing source_url'')
      else bindR (cypher (merge_enrichment en at_time)) first_row)"

definition qsa_person_id :: "gostr \<Rightarrow> gostr" where
  "qsa_person_id name = lit ''person_qsa_'' @ name_slug name"

record qsa_person =
  qp_name :: gostr
  qp_masked :: gostr
  qp_qualification :: gostr
  qp_cnpj :: gostr
  qp_url :: gostr

definition qsa_edge :: "gostr \<Rightarrow> gostr \<Rightarrow> props \<Rightarrow> props" where
  "qsa_edge qualification url =
     set_props [(''source'', Some (PStr (lit ''cnpj''))), (''qualification'', Some (PStr qualification)),
                (''source_url'', Some (PStr url))]"

definition qsa_person_facts :: "qsa_person \<Rightarrow> node \<Rightarrow> node" where
  "qsa_person_facts p =
     upd_props
       [(''name'', Some (PStr (trim_space (qp_name p)))), (''search_name'', Some (PStr (fold_query (qp_name p)))),
        (''provenance_source'', Some (PStr (lit ''cnpj''))), (''provenance_masked_cpf'', Some (PStr (trim_space (qp_masked p)))),
        (''provenance_source_cnpj'', Some (PStr (digits_only (qp_cnpj p))))]"

text \<open>A \<^verbatim>\<open>MATCH\<close> that finds no company leaves the rest of the statement without rows.\<close>

definition merge_qsa_person :: "gostr \<Rightarrow> qsa_person \<Rightarrow> graph \<Rightarrow> graph \<times> gostr list" where
  "merge_qsa_person org p g =
     (let os = match_nodes ''Organization'' (prop_is ''id'' (PStr org)) g in
      if os = [] then (g, [])
      else case merge_node ''Person'' ''id'' (PStr (qsa_person_id (qp_name p))) [] (qsa_person_facts p) g of
        (g', ps, _) \<Rightarrow>
          (merge_edges (node_pairs ps os) ''CONTROLS'' [] (qsa_edge (qp_qualification p) (qp_url p)) g',
           List.map (\<lambda>n. str_prop (n_props n) ''id'') ps))"

definition upsert_qsa_person :: "gostr \<Rightarrow> qsa_person \<Rightarrow> ('z world_scheme, gostr) prog" where
  "upsert_qsa_person org p =
     (if trim_space (qp_name p) = [] then throw (Refused ''qsa person missing name'')
      else bindR (cypher (merge_qsa_person org p)) first_row)"

definition merge_qsa_organization :: "gostr \<Rightarrow> gostr \<Rightarrow> gostr \<Rightarrow> gostr \<Rightarrow> graph \<Rightarrow> graph \<times> (gostr \<times> bool) list" where
  "merge_qsa_organization owned d qualification url g =
     (let os = match_nodes ''Organization'' (prop_is ''id'' (PStr owned)) g in
      if os = [] then (g, [])
      else case merge_node ''Organization'' ''cnpj'' (PStr d)
             [(''id'', Some (PStr (lit ''org_'' @ d))), (''_cnpj_created'', Some (PBool True))] (\<lambda>n. n) g of
        (g', ps, _) \<Rightarrow>
          (merge_edges (node_pairs os ps) ''OWNED_BY'' [] (qsa_edge qualification url)
             (map_nodes (\<lambda>n. has_label ''Organization'' n \<and> prop_is ''cnpj'' (PStr d) n)
                (upd_props [(''_cnpj_created'', None)]) g'),
           List.map (\<lambda>n. (str_prop (n_props n) ''id'', bool_prop (n_props n) ''_cnpj_created'')) ps))"

definition upsert_qsa_organization ::
  "gostr \<Rightarrow> gostr \<Rightarrow> gostr \<Rightarrow> gostr \<Rightarrow> ('z world_scheme, gostr \<times> bool) prog" where
  "upsert_qsa_organization owned partner qualification url =
     (let d = digits_only partner in
      if length d \<noteq> 14 then throw (Refused ''invalid partner cnpj'')
      else bindR (cypher (merge_qsa_organization owned d qualification url)) first_row)"

section \<open>State and options\<close>

record cn_options =
  co_limit :: int
  co_dry :: bool
  co_single :: gostr
  co_reenrich :: int

text \<open>\<open>ce_cutoff\<close> is the time of the run less so many days, as it is written into the graph.\<close>

record cn_env =
  ce_api :: cn_api
  ce_cutoff :: "int \<Rightarrow> gostr"

record cn_state = world +
  cn_client :: cnpj_client
  cn_enriched :: nat
  cn_not_found :: nat
  cn_individuals :: nat
  cn_companies :: nat
  cn_unknown :: nat
  cn_persons :: nat
  cn_chained :: nat
  cn_queued :: nat
  cn_hits :: nat
  cn_reviews :: nat
  cn_tombstoned :: nat
  cn_fetch_errors :: nat

definition in_register :: "(cnpj_client, 'a) prog \<Rightarrow> (cn_state, 'a) prog" where
  "in_register m s = (case m (cn_client s) of (r, c) \<Rightarrow> (r, s\<lparr>cn_client := c\<rparr>))"

definition cn_stopped :: "cn_state \<Rightarrow> bool" where
  "cn_stopped s = (case nc_deadline (cn_client s) of None \<Rightarrow> False | Some d \<Rightarrow> d \<le> nc_now (cn_client s))"

section \<open>Documents of partners\<close>

datatype doc_kind = DocUnknown | DocIndividual | DocCompany

text \<open>Forty-two is the asterisk of a masked document.\<close>

definition classify_doc :: "gostr \<Rightarrow> doc_kind" where
  "classify_doc raw =
     (let doc = trim_space raw; n = length (digits_only doc) in
      if doc = [] then DocUnknown
      else if contains doc [42] then (if n = 6 then DocIndividual else DocUnknown)
      else if n = 14 then DocCompany
      else if n = 11 then DocIndividual
      else DocUnknown)"

definition masked_cpf_middle_six :: "gostr \<Rightarrow> gostr option" where
  "masked_cpf_middle_six doc =
     (let d = digits_only doc in
      if length d = 6 then Some d else if length d = 11 then Some (slice 3 9 d) else None)"

definition is_active :: "gostr \<Rightarrow> bool" where
  "is_active x \<longleftrightarrow> List.map ascii_lower (trim_space x) = lit ''ativa''"

definition map_enrichment :: "cnpj_response \<Rightarrow> gostr \<Rightarrow> gostr \<Rightarrow> enrichment" where
  "map_enrichment resp cnpj url =
     \<lparr>en_cnpj = cnpj, en_name = trim_space (cr_razao resp), en_active = is_active (cr_situacao resp),
      en_type = trim_space (cr_natureza resp), en_uf = trim_space (cr_uf resp), en_capital = cr_capital resp,
      en_activity = trim_space (cr_cnae resp), en_url = url\<rparr>"

text \<open>The candidates are a list of ids and names, here one after the other.\<close>

definition politician_review_payload ::
  "gostr \<Rightarrow> gostr \<Rightarrow> gostr \<Rightarrow> qsa_entry \<Rightarrow> politician_match list \<Rightarrow> props" where
  "politician_review_payload org cnpj url x cands =
     [''organization_id'' \<mapsto> PStr org, ''organization_cnpj'' \<mapsto> PStr cnpj, ''socio_name'' \<mapsto> PStr (qs_nome x),
      ''masked_cpf'' \<mapsto> PStr (qs_doc x), ''qualification'' \<mapsto> PStr (qs_qualificacao x), ''source'' \<mapsto> PStr (lit ''cnpj''),
      ''source_url'' \<mapsto> PStr url,
      ''candidates'' \<mapsto> PList (concat (List.map (\<lambda>c. [pm_id c, pm_name c]) cands))]
     ++ (case cands of [c] \<Rightarrow> [''politician_id'' \<mapsto> PStr (pm_id c)] | _ \<Rightarrow> Map.empty)"

section \<open>Partners\<close>

definition handle_individual :: "cn_options \<Rightarrow> gostr \<Rightarrow> gostr \<Rightarrow> gostr \<Rightarrow> qsa_entry \<Rightarrow> (cn_state, unit) prog" where
  "handle_individual w org cnpj url x =
     bindR (case masked_cpf_middle_six (qs_doc x) of
              None \<Rightarrow> ret [] | Some middle \<Rightarrow> match_politicians_by_masked_cpf middle) (\<lambda>cands.
       let linked = modR (\<lambda>s. s\<lparr>cn_persons := cn_persons s + 1\<rparr>) in
       if cands \<noteq> [] then
         seqR (modR (\<lambda>s. s\<lparr>cn_hits := cn_hits s + 1\<rparr>))
           (whenR (\<not> co_dry w)
              (seqR (create_pending_review ''possible_politician_in_qsa'' (politician_review_payload org cnpj url x cands) ''cnpj'')
                    (modR (\<lambda>s. s\<lparr>cn_reviews := cn_reviews s + 1\<rparr>))))
       else if co_dry w then linked
       else bindR (is_subject_purged [tombstone_key_name (qs_nome x)]) (\<lambda>purged.
         if purged then modR (\<lambda>s. s\<lparr>cn_tombstoned := cn_tombstoned s + 1\<rparr>)
         else bindR (upsert_qsa_person org
             \<lparr>qp_name = qs_nome x, qp_masked = qs_doc x, qp_qualification = qs_qualificacao x, qp_cnpj = cnpj, qp_url = url\<rparr>)
           (\<lambda>_. linked)))"

record job =
  jb_org :: gostr
  jb_cnpj :: gostr
  jb_depth :: nat

definition handle_company :: "cn_options \<Rightarrow> job \<Rightarrow> gostr \<Rightarrow> gostr \<Rightarrow> qsa_entry \<Rightarrow> (cn_state, job option) prog" where
  "handle_company w parent org url x =
     (if co_dry w then ret None
      else let partner = digits_only (qs_doc x) in
        bindR (is_subject_purged [tombstone_key_cnpj partner]) (\<lambda>purged.
          if purged then seqR (modR (\<lambda>s. s\<lparr>cn_tombstoned := cn_tombstoned s + 1\<rparr>)) (ret None)
          else bindR (upsert_qsa_organization org partner (qs_qualificacao x) url) (\<lambda>(i, created).
            seqR (modR (\<lambda>s. s\<lparr>cn_chained := cn_chained s + 1\<rparr>))
              (ret (if created then Some \<lparr>jb_org = i, jb_cnpj = partner, jb_depth = jb_depth parent + 1\<rparr> else None)))))"

definition handle_partner ::
  "cn_options \<Rightarrow> job \<Rightarrow> gostr \<Rightarrow> gostr \<Rightarrow> qsa_entry \<Rightarrow> (cn_state, job option) prog" where
  "handle_partner w j org url x =
     (case classify_doc (qs_doc x) of
        DocIndividual \<Rightarrow>
          seqR (modR (\<lambda>s. s\<lparr>cn_individuals := cn_individuals s + 1\<rparr>))
            (seqR (handle_individual w org (jb_cnpj j) url x) (ret None))
      | DocCompany \<Rightarrow>
          seqR (modR (\<lambda>s. s\<lparr>cn_companies := cn_companies s + 1\<rparr>)) (handle_company w j org url x)
      | DocUnknown \<Rightarrow> seqR (modR (\<lambda>s. s\<lparr>cn_unknown := cn_unknown s + 1\<rparr>)) (ret None))"

fun handle_partners ::
  "cn_options \<Rightarrow> job \<Rightarrow> gostr \<Rightarrow> gostr \<Rightarrow> qsa_entry list \<Rightarrow> (cn_state, job list) prog" where
  "handle_partners w j org url [] = ret []"
| "handle_partners w j org url (x # xs) =
     bindR (handle_partner w j org url x) (\<lambda>child.
     bindR (handle_partners w j org url xs) (\<lambda>children.
       ret (case child of None \<Rightarrow> children | Some c \<Rightarrow> c # children)))"

definition enrich_one :: "cn_env \<Rightarrow> cn_options \<Rightarrow> job \<Rightarrow> (cn_state, job list) prog" where
  "enrich_one e w j =
     bindR (in_register (fetch_cnpj (ce_api e) (jb_cnpj j))) (\<lambda>resp.
       case resp of
         None \<Rightarrow> seqR (modR (\<lambda>s. s\<lparr>cn_not_found := cn_not_found s + 1\<rparr>)) (ret [])
       | Some resp \<Rightarrow>
           bindR (getR (\<lambda>s. nc_base (cn_client s))) (\<lambda>base.
           let url = base @ [47] @ digits_only (jb_cnpj j); en = map_enrichment resp (jb_cnpj j) url in
           bindR (if co_dry w then ret (jb_org j)
                  else bindR (getR clock) (\<lambda>now. update_organization_enrichment en now)) (\<lambda>org.
           seqR (modR (\<lambda>s. s\<lparr>cn_enriched := cn_enriched s + 1\<rparr>))
             (handle_partners w j org url (cr_qsa resp)))))"

section \<open>The run\<close>

definition max_hops :: nat where "max_hops = 2"

definition root_jobs :: "cn_env \<Rightarrow> cn_options \<Rightarrow> (cn_state, job list) prog" where
  "root_jobs e w =
     (if trim_space (co_single w) \<noteq> [] then
        let d = digits_only (co_single w) in
        if length d \<noteq> 14 then throw (Refused ''invalid --cnpj'')
        else bindR (if co_dry w then ret (lit ''org_'' @ d)
                    else bindR (ensure_organization_by_cnpj d) (\<lambda>(i, _). ret i)) (\<lambda>org.
          ret [\<lparr>jb_org = org, jb_cnpj = d, jb_depth = 0\<rparr>])
      else bindR (list_organizations_needing_enrichment (co_limit w)
                   (if 0 < co_reenrich w then ce_cutoff e (co_reenrich w) else [])) (\<lambda>orgs.
        ret (List.map (\<lambda>(i, c). \<lparr>jb_org = i, jb_cnpj = c, jb_depth = 0\<rparr>) orgs)))"

text \<open>The partners that are followed: not looked up yet, and not too far from where the run began.\<close>

definition followed :: "gostr list \<Rightarrow> job list \<Rightarrow> job list" where
  "followed visited children =
     filter (\<lambda>c. digits_only (jb_cnpj c) \<notin> set visited \<and> jb_depth c \<le> max_hops) children"

text \<open>A partner is one hop further away, so the walk ends: every lookup replaces a job by jobs with fewer
  hops left.\<close>

lemma partner_depth:
  assumes "handle_partner w j org url x s = (Inr (Some c), t)" shows "jb_depth c = jb_depth j + 1"
  using assms
  by (auto simp: handle_partner_def handle_company_def Let_def seqR_Inr bindR_Inr split: doc_kind.splits if_splits prod.splits)

lemma partners_depth:
  "handle_partners w j org url xs s = (Inr children, t) \<Longrightarrow> \<forall>c \<in> set children. jb_depth c = jb_depth j + 1"
proof (induction xs arbitrary: children s)
  case (Cons x xs)
  then show ?case by (fastforce simp: bindR_Inr dest: partner_depth split: option.splits)
qed simp

lemma enrich_depth:
  assumes "enrich_one e w j s = (Inr children, t)" shows "\<forall>c \<in> set children. jb_depth c = jb_depth j + 1"
proof -
  consider "children = []" | u org url xs where "handle_partners w j org url xs u = (Inr children, t)"
    using assms by (auto simp: enrich_one_def Let_def bindR_Inr seqR_Inr split: option.splits)
  then show ?thesis by cases (auto dest: partners_depth)
qed

definition hops_left :: "job \<Rightarrow> nat" where
  "hops_left j = Suc max_hops - jb_depth j"

definition count_fetch_failure :: "(cn_state, unit) prog" where
  "count_fetch_failure = modR (\<lambda>s. s\<lparr>cn_fetch_errors := cn_fetch_errors s + 1\<rparr>)"

function crawl :: "cn_env \<Rightarrow> cn_options \<Rightarrow> gostr list \<Rightarrow> job list \<Rightarrow> (cn_state, unit) prog" where
  "crawl e w visited [] s = (Inr (), s)"
| "crawl e w visited (j # queue) s =
     (let key = digits_only (jb_cnpj j) in
      if key \<in> set visited then crawl e w visited queue s
      else case enrich_one e w j s of
          (Inl er, t) \<Rightarrow>
            if cn_stopped t then (Inl er, t) else crawl e w (key # visited) queue (snd (count_fetch_failure t))
        | (Inr children, t) \<Rightarrow>
            (let new = followed (key # visited) children in
             crawl e w (key # visited) (queue @ new) (t\<lparr>cn_queued := cn_queued t + length new\<rparr>)))"
  by pat_completeness auto
termination
proof (relation "inv_image (mult less_than) (\<lambda>(e, w, visited, queue, s). image_mset hops_left (mset queue))")
  show "wf (inv_image (mult less_than) (\<lambda>(e, w, visited, queue, s). image_mset hops_left (mset queue)))"
    by (intro wf_inv_image wf_mult wf_less_than)
  have drop: "(image_mset hops_left (mset queue), image_mset hops_left (mset (j # queue))) \<in> mult less_than" for j queue
  proof -
    have "(image_mset hops_left (mset queue) + {#}, image_mset hops_left (mset queue) + {#hops_left j#}) \<in> mult less_than"
      by (rule one_step_implies_mult) simp_all
    then show ?thesis by simp
  qed
  show "((e, w, visited, queue, s), e, w, visited, j # queue, s) \<in>
      inv_image (mult less_than) (\<lambda>(e, w, visited, queue, s). image_mset hops_left (mset queue))"
    if "key = digits_only (jb_cnpj j)" "key \<in> set visited" for e w visited j queue s key
    using drop [of queue j] by simp
  show "((e, w, key # visited, queue, snd (count_fetch_failure t)), e, w, visited, j # queue, s) \<in>
      inv_image (mult less_than) (\<lambda>(e, w, visited, queue, s). image_mset hops_left (mset queue))"
    for e w visited j queue s key x t er
    using drop [of queue j] by simp
  show "((e, w, key # visited, queue @ new, t\<lparr>cn_queued := cn_queued t + length new\<rparr>), e, w, visited, j # queue, s) \<in>
      inv_image (mult less_than) (\<lambda>(e, w, visited, queue, s). image_mset hops_left (mset queue))"
    if k: "key = digits_only (jb_cnpj j)" "key \<notin> set visited" and run: "(x, t) = enrich_one e w j s" "x = Inr children"
      and new: "new = followed (key # visited) children"
    for e w visited j queue s key x t children new
  proof -
    have depth: "\<forall>c \<in> set children. jb_depth c = jb_depth j + 1" using enrich_depth [of e w j s children t] run by simp
    have "\<forall>c \<in> set new. hops_left c < hops_left j"
      using depth new by (auto simp: followed_def hops_left_def)
    then have "(image_mset hops_left (mset queue) + image_mset hops_left (mset new),
        image_mset hops_left (mset queue) + {#hops_left j#}) \<in> mult less_than"
      by (intro one_step_implies_mult) auto
    then show ?thesis by simp
  qed
qed

declare crawl.simps(2) [simp del]

definition reset_cn :: "cn_state \<Rightarrow> cn_state" where
  "reset_cn s = s\<lparr>cn_enriched := 0, cn_not_found := 0, cn_individuals := 0, cn_companies := 0, cn_unknown := 0,
     cn_persons := 0, cn_chained := 0, cn_queued := 0, cn_hits := 0, cn_reviews := 0, cn_tombstoned := 0,
     cn_fetch_errors := 0\<rparr>"

definition run_cnpj :: "cn_env \<Rightarrow> cn_options \<Rightarrow> (cn_state, unit) prog" where
  "run_cnpj e w = seqR (modR reset_cn) (bindR (root_jobs e w) (crawl e w []))"

end
