(* ===== verification/Cnpj_Props.thy ===== *)
theory Cnpj_Props
  imports Cnpj Djen_Props
begin

text \<open>
  What the company enricher keeps. Its contract with the stores is the locale \<open>cnpj_stores\<close>; it names the
  two questions the worker asks before it creates anything, and that it only enriches a company the graph
  is known to have.
\<close>

section \<open>The contract of the stores\<close>

locale cnpj_stores = world_order R for R :: "cn_state \<Rightarrow> cn_state \<Rightarrow> bool" +
  fixes known :: "cn_state \<Rightarrow> gostr \<Rightarrow> bool"
  assumes stats: "world.truncate s = world.truncate t \<Longrightarrow> R s t"
    and queue: "R s (s\<lparr>reviews := rs, issued := j\<rparr>)"
    and known_mono: "R s t \<Longrightarrow> known s d \<Longrightarrow> known t d"
    and enrich: "known s (digits_only (en_cnpj en)) \<Longrightarrow> R s (snd (update_organization_enrichment en now s))"
    and person: "\<not> (\<exists>k \<in> set [tombstone_key_name (qp_name p)]. usable_key k \<and> buried s k) \<Longrightarrow>
      R s (snd (upsert_qsa_person org p s))"
    and company: "\<not> (\<exists>k \<in> set [tombstone_key_cnpj (digits_only d)]. usable_key k \<and> buried s k) \<Longrightarrow>
      R s (snd (upsert_qsa_organization org d q u s))"
    and company_known: "upsert_qsa_organization org d q u s = (Inr r, t) \<Longrightarrow> known t (digits_only d)"
    and listed_known: "list_organizations_needing_enrichment l c s = (Inr os, t) \<Longrightarrow> (i, d) \<in> set os \<Longrightarrow>
      length (digits_only d) = 14 \<Longrightarrow> known t (digits_only d)"
begin

lemma stat: "(\<And>s. world.truncate (f s) = world.truncate s) \<Longrightarrow> moves R (modR f)"
  by (rule modR) (rule stats, simp)

lemma count [order_intros]:
  "moves R (modR (\<lambda>s. s\<lparr>cn_persons := a s\<rparr>))" "moves R (modR (\<lambda>s. s\<lparr>cn_hits := a s\<rparr>))"
  "moves R (modR (\<lambda>s. s\<lparr>cn_reviews := a s\<rparr>))" "moves R (modR (\<lambda>s. s\<lparr>cn_tombstoned := a s\<rparr>))"
  "moves R (modR (\<lambda>s. s\<lparr>cn_chained := a s\<rparr>))" "moves R (modR (\<lambda>s. s\<lparr>cn_individuals := a s\<rparr>))"
  "moves R (modR (\<lambda>s. s\<lparr>cn_companies := a s\<rparr>))" "moves R (modR (\<lambda>s. s\<lparr>cn_unknown := a s\<rparr>))"
  "moves R (modR (\<lambda>s. s\<lparr>cn_not_found := a s\<rparr>))" "moves R (modR (\<lambda>s. s\<lparr>cn_enriched := a s\<rparr>))"
  "moves R (modR reset_cn)" "moves R count_fetch_failure"
  unfolding count_fetch_failure_def by (rule stat, simp add: world.truncate_def reset_cn_def)+

lemma in_register [order_intros]: "moves R (in_register m)"
  by (rule movesI, rule stats) (simp add: in_register_def world.truncate_def split: prod.split)

lemma review [order_intros]: "moves R (create_pending_review ty payload wk)"
  unfolding create_pending_review_def by (rule sql) (rule queue)

lemma individual [order_intros]: "moves R (handle_individual w org cnpj url x)"
proof -
  let ?p = "\<lparr>qp_name = qs_nome x, qp_masked = qs_doc x, qp_qualification = qs_qualificacao x, qp_cnpj = cnpj, qp_url = url\<rparr>"
  let ?k = "[tombstone_key_name (qs_nome x)]"
  have "R s (snd (bindR (is_subject_purged ?k) (\<lambda>purged. if purged then modR (\<lambda>s. s\<lparr>cn_tombstoned := cn_tombstoned s + 1\<rparr>)
      else bindR (upsert_qsa_person org ?p) (\<lambda>_. modR (\<lambda>s. s\<lparr>cn_persons := cn_persons s + 1\<rparr>))) s))" for s
  proof (rule tombstones.subject.guarded [where ks = ?k])
    show "R s u" if "R s t" "R t u" for s t u using trans [OF that] .
    show "R s (snd (is_subject_purged ?k s))" for s by (rule movesD [OF is_subject_purged])
    show "R s (snd (modR (\<lambda>s. s\<lparr>cn_tombstoned := cn_tombstoned s + 1\<rparr>) s))" for s by (rule movesD [OF count(4)])
    show "R s (snd (bindR (upsert_qsa_person org ?p) (\<lambda>_. modR (\<lambda>s. s\<lparr>cn_persons := cn_persons s + 1\<rparr>)) s))"
      if "\<not> (\<exists>k \<in> set ?k. usable_key k \<and> buried s k)" for s
      by (rule bindR_at) (use that person [of ?p] movesD [OF count(1)] in auto)
  qed
  then have guarded: "moves R (bindR (is_subject_purged ?k) (\<lambda>purged. if purged then modR (\<lambda>s. s\<lparr>cn_tombstoned := cn_tombstoned s + 1\<rparr>)
      else bindR (upsert_qsa_person org ?p) (\<lambda>_. modR (\<lambda>s. s\<lparr>cn_persons := cn_persons s + 1\<rparr>))))" by (rule movesI)
  show ?thesis
    unfolding handle_individual_def Let_def
  proof (rule bindR)
    show "moves R (case masked_cpf_middle_six (qs_doc x) of None \<Rightarrow> ret [] | Some middle \<Rightarrow> match_politicians_by_masked_cpf middle)"
      by (intro moves_option ret match_politicians_by_masked_cpf)
  qed (intro moves_if guarded seqR whenR count review)
qed

lemma company_partner [order_intros]: "moves R (handle_company w parent org url x)"
proof -
  let ?d = "digits_only (qs_doc x)"
  let ?k = "[tombstone_key_cnpj ?d]"
  let ?then = "\<lambda>(i, created). seqR (modR (\<lambda>s. s\<lparr>cn_chained := cn_chained s + 1\<rparr>))
      (ret (if created then Some \<lparr>jb_org = i, jb_cnpj = ?d, jb_depth = jb_depth parent + 1\<rparr> else None))"
  have later: "moves R (?then r)" for r by (rule moves_prod) (intro seqR count ret)
  have "R s (snd (bindR (is_subject_purged ?k) (\<lambda>purged.
      if purged then seqR (modR (\<lambda>s. s\<lparr>cn_tombstoned := cn_tombstoned s + 1\<rparr>)) (ret None)
      else bindR (upsert_qsa_organization org ?d (qs_qualificacao x) url) ?then) s))" for s
  proof (rule tombstones.subject.guarded [where ks = ?k])
    show "R s u" if "R s t" "R t u" for s t u using trans [OF that] .
    show "R s (snd (is_subject_purged ?k s))" for s by (rule movesD [OF is_subject_purged])
    show "R s (snd (seqR (modR (\<lambda>s. s\<lparr>cn_tombstoned := cn_tombstoned s + 1\<rparr>)) (ret None) s))" for s
      by (rule movesD) (intro seqR count ret)
    show "R s (snd (bindR (upsert_qsa_organization org ?d (qs_qualificacao x) url) ?then s))"
      if "\<not> (\<exists>k \<in> set ?k. usable_key k \<and> buried s k)" for s
      by (rule bindR_at) (use that company [of ?d] movesD [OF later] in auto)
  qed
  then show ?thesis
    unfolding handle_company_def Let_def by (intro moves_if ret movesI)
qed

lemma partner [order_intros]: "moves R (handle_partner w j org url x)"
  unfolding handle_partner_def
  by (cases "classify_doc (qs_doc x)"; simp only: doc_kind.case; intro seqR count individual company_partner ret)

lemma partners [order_intros]: "moves R (handle_partners w j org url xs)"
  by (induction xs) (auto intro!: ret bindR partner)

text \<open>The partners that are to be followed are known.\<close>

definition all_known :: "cn_state \<Rightarrow> job list \<Rightarrow> bool" where
  "all_known s js \<longleftrightarrow> (\<forall>j \<in> set js. length (digits_only (jb_cnpj j)) = 14 \<longrightarrow> known s (digits_only (jb_cnpj j)))"

lemma all_known_mono: "R s t \<Longrightarrow> all_known s js \<Longrightarrow> all_known t js"
  by (auto simp: all_known_def dest: known_mono)

lemma partner_known:
  assumes "handle_partner w j org url x s = (Inr (Some c), t)" shows "known t (digits_only (jb_cnpj c))"
proof -
  let ?d = "digits_only (qs_doc x)"
  obtain u r v where up: "upsert_qsa_organization org ?d (qs_qualificacao x) url u = (Inr r, v)"
    and t: "t = v\<lparr>cn_chained := cn_chained v + 1\<rparr>" and c: "jb_cnpj c = ?d"
    using assms
    by (auto simp: handle_partner_def handle_company_def Let_def seqR_Inr bindR_Inr modR_def
        simp del: is_subject_purged.simps split: doc_kind.splits if_splits prod.splits)
  have "R v t" by (rule stats) (simp add: t world.truncate_def)
  moreover have "digits_only ?d = ?d" by simp
  ultimately show ?thesis using known_mono company_known [OF up] c by simp
qed

lemma partners_known:
  "handle_partners w j org url xs s = (Inr children, t) \<Longrightarrow> all_known t children"
proof (induction xs arbitrary: children s)
  case Nil
  then show ?case by (simp add: all_known_def)
next
  case (Cons x xs)
  then obtain child rest u where c: "handle_partner w j org url x s = (Inr child, u)"
    and r: "handle_partners w j org url xs u = (Inr rest, t)" and
    children: "children = (case child of None \<Rightarrow> rest | Some c \<Rightarrow> c # rest)"
    by (auto simp: bindR_Inr)
  have "R u t" using movesD [OF partners [of w j org url xs], of u] r by simp
  with Cons.IH [OF r] c partner_known known_mono show ?case
    by (cases child) (auto simp: children all_known_def)
qed

text \<open>A dry run enriches nothing.\<close>

definition ready :: "cn_options \<Rightarrow> cn_state \<Rightarrow> job list \<Rightarrow> bool" where
  "ready w s js \<longleftrightarrow> co_dry w \<or> all_known s js"

lemma ready_mono: "R s t \<Longrightarrow> ready w s js \<Longrightarrow> ready w t js"
  by (auto simp: ready_def dest: all_known_mono)

lemma ready_jobs: "ready w s (js @ ks) \<longleftrightarrow> ready w s js \<and> ready w s ks" "ready w s (j # ks) \<longleftrightarrow> ready w s [j] \<and> ready w s ks"
  by (auto simp: ready_def all_known_def)

lemma fetched_14: "in_register (fetch_cnpj api d) s = (Inr r, t) \<Longrightarrow> length (digits_only d) = 14"
  by (auto simp: in_register_def fetch_cnpj_def Let_def throw_def split: prod.splits if_splits)

lemma enrich_at:
  assumes "ready w s [j]" shows "R s (snd (enrich_one e w j s))"
  unfolding enrich_one_def
proof (rule bindR_at)
  show "R s (snd (in_register (fetch_cnpj (ce_api e) (jb_cnpj j)) s))" by (rule movesD [OF in_register])
  fix a t assume f: "in_register (fetch_cnpj (ce_api e) (jb_cnpj j)) s = (Inr a, t)"
  then have "R s t" using movesD [OF in_register [of "fetch_cnpj (ce_api e) (jb_cnpj j)"], of s] by simp
  then have known: "co_dry w \<or> known t (digits_only (jb_cnpj j))"
    using assms fetched_14 [OF f] known_mono by (auto simp: ready_def all_known_def)
  show "R t (snd ((case a of None \<Rightarrow> seqR (modR (\<lambda>s. s\<lparr>cn_not_found := cn_not_found s + 1\<rparr>)) (ret [])
      | Some resp \<Rightarrow> bindR (getR (\<lambda>s. nc_base (cn_client s))) (\<lambda>base.
          let url = base @ [47] @ digits_only (jb_cnpj j); en = map_enrichment resp (jb_cnpj j) url
          in bindR (if co_dry w then ret (jb_org j) else bindR (getR clock) (update_organization_enrichment en)) (\<lambda>org.
             seqR (modR (\<lambda>s. s\<lparr>cn_enriched := cn_enriched s + 1\<rparr>)) (handle_partners w j org url (cr_qsa resp))))) t))"
  proof (cases a)
    case None
    have "moves R (seqR (modR (\<lambda>s. s\<lparr>cn_not_found := cn_not_found s + 1\<rparr>)) (ret []) :: (cn_state, job list) prog)"
      by (intro seqR count ret)
    with None show ?thesis by (simp add: moves_def)
  next
    case (Some resp)
    let ?url = "nc_base (cn_client t) @ [47] @ digits_only (jb_cnpj j)"
    let ?en = "map_enrichment resp (jb_cnpj j) ?url"
    have written: "R t (snd ((if co_dry w then ret (jb_org j) else bindR (getR clock) (update_organization_enrichment ?en)) t))"
      using known enrich [of t ?en] by (auto simp: map_enrichment_def ret_def bindR_def getR_def)
    have rest: "moves R (seqR (modR (\<lambda>s. s\<lparr>cn_enriched := cn_enriched s + 1\<rparr>)) (handle_partners w j org ?url (cr_qsa resp)))" for org
      by (intro seqR count partners)
    have "R t (snd (bindR (if co_dry w then ret (jb_org j) else bindR (getR clock) (update_organization_enrichment ?en)) (\<lambda>org.
             seqR (modR (\<lambda>s. s\<lparr>cn_enriched := cn_enriched s + 1\<rparr>)) (handle_partners w j org ?url (cr_qsa resp))) t))"
      by (rule bindR_at, rule written, rule movesD [OF rest])
    then show ?thesis by (simp only: Some option.case bindR_getR Let_def)
  qed
qed

lemma enriched_known:
  assumes "enrich_one e w j s = (Inr children, t)" shows "all_known t children"
proof -
  consider "children = []" | u org url xs where "handle_partners w j org url xs u = (Inr children, t)"
    using assms by (auto simp: enrich_one_def Let_def bindR_Inr seqR_Inr split: option.splits)
  then show ?thesis by cases (auto simp: all_known_def dest: partners_known [unfolded all_known_def])
qed

lemma crawl_at: "ready w s queue \<Longrightarrow> R s (snd (crawl e w visited queue s))"
proof (induction e w visited queue s rule: crawl.induct)
  case (1 e w visited s)
  then show ?case by simp
next
  case (2 e w visited j queue s)
  let ?key = "digits_only (jb_cnpj j)"
  have q: "ready w s queue" and j: "ready w s [j]" using "2.prems" ready_jobs(2) by blast+
  show ?case
  proof (cases "?key \<in> set visited")
    case True
    with "2.IH"(1) [OF HOL.refl True q] show ?thesis by (simp add: crawl.simps(2) Let_def)
  next
    case False
    obtain x t where run: "enrich_one e w j s = (x, t)" by fastforce
    have t: "R s t" using enrich_at [OF j, of e] run by simp
    then have qt: "ready w t queue" by (rule ready_mono [OF _ q])
    show ?thesis
    proof (cases x)
      case (Inl er)
      have c: "R t (snd (count_fetch_failure t))" by (rule movesD [OF count(12)])
      show ?thesis
      proof (cases "cn_stopped t")
        case True
        with False run Inl t show ?thesis by (simp add: crawl.simps(2) Let_def)
      next
        case go: False
        from "2.IH"(2) [OF HOL.refl False run [symmetric] Inl go ready_mono [OF c qt]] t c trans
        show ?thesis using False run Inl go by (fastforce simp: crawl.simps(2) Let_def)
      qed
    next
      case (Inr children)
      let ?new = "followed (?key # visited) children"
      let ?u = "t\<lparr>cn_queued := cn_queued t + length ?new\<rparr>"
      have u: "R t ?u" by (rule stats) (simp add: world.truncate_def)
      have "ready w t ?new"
        using enriched_known [of e w j s children t] run Inr by (auto simp: ready_def all_known_def followed_def)
      then have "ready w ?u (queue @ ?new)"
        using ready_mono [OF u] qt unfolding ready_jobs(1) by blast
      from "2.IH"(3) [OF HOL.refl False run [symmetric] Inr HOL.refl this] trans [OF trans [OF t u]]
      show ?thesis using False run Inr by (simp add: crawl.simps(2) Let_def)
    qed
  qed
qed

lemma run:
  assumes "trim_space (co_single w) = []" shows "moves R (run_cnpj e w)"
  unfolding run_cnpj_def
proof (rule seqR)
  show "moves R (modR reset_cn)" by (rule count)
  have list: "moves R (list_organizations_needing_enrichment l c)" for l c
    unfolding list_organizations_needing_enrichment_def by (rule cypher_read)
  show "moves R (bindR (root_jobs e w) (crawl e w []))"
  proof (rule movesI, rule bindR_at)
    have "moves R (root_jobs e w)"
      unfolding root_jobs_def by (simp add: assms) (intro conjI impI bindR list ret)
    then show "R s (snd (root_jobs e w s))" for s by (rule movesD)
    show "R t (snd (crawl e w [] js t))" if r: "root_jobs e w s = (Inr js, t)" for s js t
    proof (rule crawl_at)
      obtain orgs where "list_organizations_needing_enrichment (co_limit w)
          (if 0 < co_reenrich w then ce_cutoff e (co_reenrich w) else []) s = (Inr orgs, t)"
        and "js = List.map (\<lambda>(i, c). \<lparr>jb_org = i, jb_cnpj = c, jb_depth = 0\<rparr>) orgs"
        using r assms by (auto simp: root_jobs_def bindR_Inr)
      then show "ready w t js" using listed_known by (fastforce simp: ready_def all_known_def)
    qed
  qed
qed

end

text \<open>The run for one company creates it unasked; an order that allows this holds of every run.\<close>

locale cnpj_any_store = cnpj_stores +
  assumes root: "moves R (ensure_organization_by_cnpj d)"
    and root_known: "ensure_organization_by_cnpj d s = (Inr r, t) \<Longrightarrow> known t (digits_only d)"
begin

lemma run_any: "moves R (run_cnpj e w)"
proof (cases "trim_space (co_single w) = []")
  case True
  then show ?thesis by (rule run)
next
  case False
  let ?d = "digits_only (co_single w)"
  have roots: "moves R (root_jobs e w)"
    using False unfolding root_jobs_def Let_def
    by (auto intro!: moves_if throw bindR ret root split: prod.split)
  show ?thesis
    unfolding run_cnpj_def
  proof (intro seqR movesI bindR_at)
    show "R s (snd (modR reset_cn s))" for s by (rule movesD [OF count(11)])
    show "R s (snd (root_jobs e w s))" for s by (rule movesD [OF roots])
    show "R t (snd (crawl e w [] js t))" if "root_jobs e w s = (Inr js, t)" for s js t
      by (rule crawl_at) (use that False root_known [of ?d, unfolded digits_only_idem] in
        \<open>auto simp: root_jobs_def Let_def bindR_Inr ready_def all_known_def split: if_splits prod.splits\<close>)
  qed
qed

end

text \<open>An order every statement respects, because it looks at the tables only or at what Memgraph checks.\<close>

locale cnpj_any_statement = world_order R for R :: "cn_state \<Rightarrow> cn_state \<Rightarrow> bool" +
  assumes same_world: "world.truncate s = world.truncate t \<Longrightarrow> R s t"
    and reviews: "R s (s\<lparr>reviews := rs, issued := j\<rparr>)"
    and graphs: "ids_unique g \<Longrightarrow> R s (s\<lparr>graph := g\<rparr>)"
begin

lemma any_cypher: "moves R (cypher f)"
  by (rule cypher) (rule graphs)

lemma any_write:
  "moves R (update_organization_enrichment en now)" "moves R (upsert_qsa_person org p)"
  "moves R (upsert_qsa_organization org d q u)" "moves R (ensure_organization_by_cnpj d)"
  unfolding update_organization_enrichment_def upsert_qsa_person_def upsert_qsa_organization_def
    ensure_organization_by_cnpj_def Let_def
  by (intro moves_if throw bindR first_row any_cypher)+

end

sublocale cnpj_any_statement \<subseteq> cnpj_any_store R "\<lambda>_ _. True"
  by unfold_locales (auto intro: same_world reviews movesD any_write)

end
