(* ===== verification/Cnpj_Runs.thy ===== *)
theory Cnpj_Runs
  imports Cnpj_Props
begin

text \<open>
  What a run of the company enricher does and does not do: whom it may bring back, what it writes, and
  what it does when the register fails it.
\<close>

section \<open>The statements\<close>

lemma merge_enrichment_fst:
  "fst (merge_enrichment en now g) =
     fst (merge_node ''Organization'' ''cnpj'' (PStr (digits_only (en_cnpj en)))
       [(''id'', Some (PStr (lit ''org_'' @ digits_only (en_cnpj en))))] (enrichment_facts en now) g)"
  by (simp add: merge_enrichment_def Let_def split: prod.splits)

lemma merge_qsa_person_fst:
  "fst (merge_qsa_person org p g) =
     (if match_nodes ''Organization'' (prop_is ''id'' (PStr org)) g = [] then g
      else merge_edges
        (node_pairs (fst (snd (merge_node ''Person'' ''id'' (PStr (qsa_person_id (qp_name p))) [] (qsa_person_facts p) g)))
                    (match_nodes ''Organization'' (prop_is ''id'' (PStr org)) g))
        ''CONTROLS'' [] (qsa_edge (qp_qualification p) (qp_url p))
        (fst (merge_node ''Person'' ''id'' (PStr (qsa_person_id (qp_name p))) [] (qsa_person_facts p) g)))"
  by (simp add: merge_qsa_person_def Let_def split: prod.splits)

lemma merge_qsa_organization_fst:
  "fst (merge_qsa_organization owned d q u g) =
     (if match_nodes ''Organization'' (prop_is ''id'' (PStr owned)) g = [] then g
      else let c = [(''id'', Some (PStr (lit ''org_'' @ d))), (''_cnpj_created'', Some (PBool True))];
               m = merge_node ''Organization'' ''cnpj'' (PStr d) c (\<lambda>n. n) g in
        merge_edges (node_pairs (match_nodes ''Organization'' (prop_is ''id'' (PStr owned)) g) (fst (snd m)))
          ''OWNED_BY'' [] (qsa_edge q u)
          (map_nodes (\<lambda>n. has_label ''Organization'' n \<and> prop_is ''cnpj'' (PStr d) n)
             (upd_props [(''_cnpj_created'', None)]) (fst m)))"
  by (simp add: merge_qsa_organization_def Let_def split: prod.splits)

lemma enrichment_facts_sel [simp]:
  "n_key (enrichment_facts en now n) = n_key n" "has_label l (enrichment_facts en now n) = has_label l n"
  "n_props (enrichment_facts en now n) ''id'' = n_props n ''id''"
  "n_props (enrichment_facts en now n) ''cpf'' = n_props n ''cpf''"
  "n_props (enrichment_facts en now n) ''cnpj'' = n_props n ''cnpj''"
  by (simp_all add: enrichment_facts_def upd_props_other)

lemma qsa_person_facts_sel [simp]:
  "n_key (qsa_person_facts p n) = n_key n" "has_label l (qsa_person_facts p n) = has_label l n"
  "n_props (qsa_person_facts p n) ''id'' = n_props n ''id''"
  "n_props (qsa_person_facts p n) ''cpf'' = n_props n ''cpf''"
  "n_props (qsa_person_facts p n) ''cnpj'' = n_props n ''cnpj''"
  "n_props (qsa_person_facts p n) ''name'' = Some (PStr (trim_space (qp_name p)))"
  by (simp_all add: qsa_person_facts_def upd_props_other) (simp add: upd_props_lookup)

section \<open>Whom a run brings back\<close>

text \<open>
  A company's name is what the register says it is, and other companies carry it too: it is the number of
  a company that a tombstone is about. \<open>bare\<close> forgets the name of a company.
\<close>

definition bare :: "node \<Rightarrow> node" where
  "bare n = (if has_label ''Organization'' n then n\<lparr>n_props := (n_props n)(''name'' := None)\<rparr> else n)"

definition company_in :: "graph \<Rightarrow> gostr \<Rightarrow> bool" where
  "company_in g d \<longleftrightarrow> match_nodes ''Organization'' (prop_is ''cnpj'' (PStr d)) g \<noteq> []"

definition docs_only :: "graph \<Rightarrow> graph" where
  "docs_only g = g\<lparr>g_nodes := List.map bare (g_nodes g)\<rparr>"

definition enriching :: "'z world_scheme \<Rightarrow> 'z world_scheme \<Rightarrow> bool" where
  "enriching s t \<longleftrightarrow> tombs s = tombs t \<and> revives_none (buried s) (docs_only (graph s)) (docs_only (graph t)) \<and>
     (\<forall>d. company_in (graph s) d \<longrightarrow> company_in (graph t) d)"

interpretation enriching: world_order enriching
proof unfold_locales
  show "enriching s s" for s :: "'z world_scheme" by (simp add: enriching_def)
  show "enriching s u" if "enriching s t" "enriching t u" for s t u :: "'z world_scheme"
    using that buried_tombs [of s t] revives_none_trans by (auto simp: enriching_def)
  show "enriching s (s\<lparr>faults := fs\<rparr>)" for s :: "'z world_scheme" and fs by (simp add: enriching_def)
qed

lemma bare_sel [simp]:
  "n_key (bare n) = n_key n" "has_label l (bare n) = has_label l n" "n_props (bare n) ''cpf'' = n_props n ''cpf''"
  "n_props (bare n) ''cnpj'' = n_props n ''cnpj''"
  "n_props (bare n) ''name'' = (if has_label ''Organization'' n then None else n_props n ''name'')"
  by (simp_all add: bare_def has_label_def)

lemma docs_map:
  assumes "\<And>n. P n \<Longrightarrow> continues b (bare n) (bare (f n))"
  shows "revives_none b (docs_only g) (docs_only (map_nodes P f g))"
  unfolding revives_none_def
proof
  fix n assume "n \<in> set (g_nodes (docs_only (map_nodes P f g)))"
  then obtain m where m: "m \<in> set (g_nodes g)" "n = bare (if P m then f m else m)" by (auto simp: docs_only_def)
  with assms [of m] have "continues b (bare m) n" by auto
  with m(1) show "(\<exists>m \<in> set (g_nodes (docs_only g)). continues b m n) \<or> \<not> covered b (ident n)"
    by (auto simp: docs_only_def)
qed

lemma docs_merge:
  assumes "\<And>n. has_label l n \<Longrightarrow> prop_is k v n \<Longrightarrow> continues b (bare n) (bare (f n))"
    and "match_nodes l (prop_is k v) g = [] \<Longrightarrow> \<not> covered b (ident (bare (f \<lparr>n_key = g_next g, n_labels = [l],
      n_props = set_props c (Map.empty(k := Some v))\<rparr>)))"
  shows "revives_none b (docs_only g) (docs_only (fst (merge_node l k v c f g)))"
proof (cases "match_nodes l (prop_is k v) g = []")
  case True
  with assms(2) show ?thesis
    unfolding revives_none_def by (auto simp: docs_only_def merge_node_def Let_def intro: continues_refl)
next
  case False
  then show ?thesis using docs_map [of "\<lambda>n. has_label l n \<and> prop_is k v n" b f g] assms(1)
    by (simp add: merge_node_def Let_def)
qed

lemma company_in_map:
  assumes "\<And>n. has_label ''Organization'' (f n) = has_label ''Organization'' n" and "\<And>n. n_props (f n) ''cnpj'' = n_props n ''cnpj''"
  shows "company_in (map_nodes P f g) d = company_in g d"
proof -
  let ?h = "\<lambda>n. if P n then f n else n" and ?Q = "\<lambda>n. has_label ''Organization'' n \<and> prop_is ''cnpj'' (PStr d) n"
  have "?Q \<circ> ?h = ?Q" using assms by (auto simp: fun_eq_iff prop_is_def)
  then have "filter ?Q (List.map ?h (g_nodes g)) = List.map ?h (filter ?Q (g_nodes g))" by (simp only: filter_map)
  then show ?thesis by (simp add: company_in_def match_nodes_def)
qed

lemma company_in_merge:
  assumes "\<And>n. has_label ''Organization'' (f n) = has_label ''Organization'' n" and "\<And>n. n_props (f n) ''cnpj'' = n_props n ''cnpj''"
    and "company_in g d"
  shows "company_in (fst (merge_node l k v c f g)) d"
  using assms(3) company_in_map [OF assms(1,2), of "\<lambda>n. has_label l n \<and> prop_is k v n" g d]
  by (auto simp: merge_node_def Let_def company_in_def match_nodes_def)

lemma company_in_edges [simp]: "company_in (merge_edges ps t c f g) d = company_in g d"
  by (simp add: company_in_def match_nodes_def)

lemma docs_edges [simp]: "revives_none b g (docs_only (merge_edges ps t c f h)) = revives_none b g (docs_only h)"
  by (simp add: revives_none_def docs_only_def)

lemma enriching_cypher:
  assumes "revives_none (buried s) (docs_only (graph s)) (docs_only (fst (f (graph s))))"
    and "\<And>d. company_in (graph s) d \<Longrightarrow> company_in (fst (f (graph s))) d"
  shows "enriching s (snd (cypher f s))"
proof (rule enriching.cypher_at)
  fix fs
  have "buried (s\<lparr>faults := fs\<rparr>) = buried s" by (rule ext) simp
  with assms show "enriching (s\<lparr>faults := fs\<rparr>) (s\<lparr>faults := fs, graph := fst (f (graph s))\<rparr>)"
    by (simp add: enriching_def)
qed

lemma enriching_first_row: "enriching s (snd (cypher f s)) \<Longrightarrow> enriching s (snd (bindR (cypher f) first_row s))"
  by (rule enriching.bindR_at) (auto intro: movesD [OF enriching.first_row])

lemma enriching_enrichment:
  assumes "company_in (graph s) (digits_only (en_cnpj en))"
  shows "enriching s (snd (update_organization_enrichment en now s))"
proof -
  have "enriching s (snd (cypher (merge_enrichment en now) s))"
  proof (rule enriching_cypher; unfold merge_enrichment_fst)
    show "revives_none (buried s) (docs_only (graph s)) (docs_only (fst (merge_node ''Organization'' ''cnpj''
        (PStr (digits_only (en_cnpj en))) [(''id'', Some (PStr (lit ''org_'' @ digits_only (en_cnpj en))))] (enrichment_facts en now) (graph s))))"
      by (rule docs_merge) (use assms in \<open>simp_all add: continues_def company_in_def\<close>)
  qed (rule company_in_merge, simp_all)
  then show ?thesis
    unfolding update_organization_enrichment_def
    using enriching_first_row [of s "merge_enrichment en now"] by (auto simp: throw_def)
qed

lemma enriching_person:
  assumes "\<not> (\<exists>k \<in> set [tombstone_key_name (qp_name p)]. usable_key k \<and> buried s k)"
  shows "enriching s (snd (upsert_qsa_person org p s))"
proof -
  have uncovered: "\<not> covers (buried s) tombstone_key_name (Some (PStr (trim_space (qp_name p))))"
    using assms by (simp add: covers_def)
  let ?m = "fst (merge_node ''Person'' ''id'' (PStr (qsa_person_id (qp_name p))) [] (qsa_person_facts p) (graph s))"
  have "revives_none (buried s) (docs_only (graph s)) (docs_only ?m)"
    by (rule docs_merge) (use uncovered in \<open>auto simp: continues_def covered_def ident_def covers_def has_label_def\<close>)
  moreover have "company_in ?m d" if "company_in (graph s) d" for d
    by (rule company_in_merge) (use that in simp_all)
  ultimately have "enriching s (snd (cypher (merge_qsa_person org p) s))"
    by (intro enriching_cypher) (simp_all add: merge_qsa_person_fst)
  then show ?thesis
    unfolding upsert_qsa_person_def using enriching_first_row [of s "merge_qsa_person org p"] by (auto simp: throw_def)
qed

lemma enriching_company:
  assumes "\<not> (\<exists>k \<in> set [tombstone_key_cnpj (digits_only d)]. usable_key k \<and> buried s k)"
  shows "enriching s (snd (upsert_qsa_organization org d q u s))"
proof -
  let ?d = "digits_only d"
  let ?c = "[(''id'', Some (PStr (lit ''org_'' @ ?d))), (''_cnpj_created'', Some (PBool True))]"
  let ?m = "fst (merge_node ''Organization'' ''cnpj'' (PStr ?d) ?c (\<lambda>n. n) (graph s))"
  let ?h = "map_nodes (\<lambda>n. has_label ''Organization'' n \<and> prop_is ''cnpj'' (PStr ?d) n) (upd_props [(''_cnpj_created'', None)]) ?m"
  have "revives_none (buried s) (docs_only (graph s)) (docs_only ?m)"
    by (rule docs_merge) (use assms in \<open>auto simp: continues_def covered_def ident_def covers_def has_label_def\<close>)
  moreover have "revives_none (buried s) (docs_only ?m) (docs_only ?h)"
    by (rule docs_map) (simp add: continues_def upd_props_other)
  ultimately have "revives_none (buried s) (docs_only (graph s)) (docs_only ?h)" by (rule revives_none_trans)
  moreover have "company_in ?h x" if "company_in (graph s) x" for x
    using company_in_merge [of "\<lambda>n. n", OF _ _ that] by (subst company_in_map) (simp_all add: upd_props_other)
  ultimately have "enriching s (snd (cypher (merge_qsa_organization org ?d q u) s))"
    by (intro enriching_cypher) (simp_all add: merge_qsa_organization_fst Let_def)
  then show ?thesis
    unfolding upsert_qsa_organization_def Let_def
    using enriching_first_row [of s "merge_qsa_organization org ?d q u"] by (auto simp: throw_def)
qed

lemma digits_all: "length (digits_only d) = length d \<Longrightarrow> digits_only d = d"
  unfolding digits_only_def by (metis filter_True length_filter_less less_irrefl)

lemma listed_company:
  assumes "list_organizations_needing_enrichment l c s = (Inr os, t)" and "(i, d) \<in> set os" and "length (digits_only d) = 14"
  shows "company_in (graph t) (digits_only d)"
proof -
  let ?ns = "slice_stable enrich_before (match_nodes ''Organization'' (needs_enrichment c) (graph s))"
  obtain fs where t: "t = s\<lparr>faults := fs\<rparr>" and os: "os = filter (\<lambda>(i, c). i \<noteq> [] \<and> c \<noteq> [])
      (List.map (\<lambda>n. (str_prop (n_props n) ''id'', str_prop (n_props n) ''cnpj'')) (if 0 < l then take (nat l) ?ns else ?ns))"
    using cypher_read_ok [OF assms(1) [unfolded list_organizations_needing_enrichment_def Let_def]] by blast
  have "set (if 0 < l then take (nat l) ?ns else ?ns) \<subseteq> set ?ns" by (auto dest: in_set_takeD)
  then obtain n where n: "n \<in> set (match_nodes ''Organization'' (needs_enrichment c) (graph s))" "str_prop (n_props n) ''cnpj'' = d"
    using assms(2) unfolding os by (auto simp: set_slice)
  then obtain x where x: "n_props n ''cnpj'' = Some (PStr x)" "length x = 14"
    by (auto simp: match_nodes_def needs_enrichment_def str_or_null_def split: option.splits pval.splits)
  with n(2) have "x = d" by (simp add: str_prop_def)
  with x assms(3) digits_all [of d] have "n_props n ''cnpj'' = Some (PStr (digits_only d))" by simp
  with n(1) show ?thesis by (auto simp: t company_in_def match_nodes_def prop_is_def filter_empty_conv)
qed

lemma merged_company: "company_in (fst (merge_node ''Organization'' ''cnpj'' (PStr d) c (\<lambda>n. n) g)) d"
  if "''cnpj'' \<notin> fst ` set c"
  using that
  by (auto simp: merge_node_def Let_def company_in_def match_nodes_def map_nodes_def prop_is_def has_label_def set_props_other)

lemma first_row_ok: "first_row rows s = (Inr r, t) \<Longrightarrow> rows \<noteq> [] \<and> t = s"
  by (cases rows) (simp_all add: first_row_def)

lemma partner_company:
  assumes "upsert_qsa_organization org d q u s = (Inr r, t)" shows "company_in (graph t) (digits_only d)"
proof -
  obtain rows where c: "cypher (merge_qsa_organization org (digits_only d) q u) s = (Inr rows, t)" and "rows \<noteq> []"
    using assms by (auto simp: upsert_qsa_organization_def Let_def bindR_Inr dest: first_row_ok split: if_splits)
  from cypher_result [OF c] this have "match_nodes ''Organization'' (prop_is ''id'' (PStr org)) (graph s) \<noteq> []"
    by (auto simp: merge_qsa_organization_def Let_def split: if_splits)
  then have t: "graph t = (let c = [(''id'', Some (PStr (lit ''org_'' @ digits_only d))), (''_cnpj_created'', Some (PBool True))];
               m = merge_node ''Organization'' ''cnpj'' (PStr (digits_only d)) c (\<lambda>n. n) (graph s) in
        merge_edges (node_pairs (match_nodes ''Organization'' (prop_is ''id'' (PStr org)) (graph s)) (fst (snd m)))
          ''OWNED_BY'' [] (qsa_edge q u)
          (map_nodes (\<lambda>n. has_label ''Organization'' n \<and> prop_is ''cnpj'' (PStr (digits_only d)) n)
             (upd_props [(''_cnpj_created'', None)]) (fst m)))"
    using cypher_result [OF c] merge_qsa_organization_fst [of org "digits_only d" q u "graph s"] by simp
  show ?thesis
    unfolding t Let_def by (simp add: company_in_map upd_props_other merged_company)
qed

interpretation enriching: cnpj_stores enriching "\<lambda>s. company_in (graph s)"
proof unfold_locales
  fix s t :: cn_state and rs j d en now p org q u r l c os i
  show "world.truncate s = world.truncate t \<Longrightarrow> enriching s t"
    using truncate_watch [of s t] buried_tombs [of s t] by (simp add: enriching_def)
  show "enriching s (s\<lparr>reviews := rs, issued := j\<rparr>)" by (simp add: enriching_def)
  show "enriching s t \<Longrightarrow> company_in (graph s) d \<Longrightarrow> company_in (graph t) d" by (simp add: enriching_def)
  show "company_in (graph s) (digits_only (en_cnpj en)) \<Longrightarrow> enriching s (snd (update_organization_enrichment en now s))"
    by (rule enriching_enrichment)
  show "\<not> (\<exists>k \<in> set [tombstone_key_name (qp_name p)]. usable_key k \<and> buried s k) \<Longrightarrow> enriching s (snd (upsert_qsa_person org p s))"
    by (rule enriching_person)
  show "\<not> (\<exists>k \<in> set [tombstone_key_cnpj (digits_only d)]. usable_key k \<and> buried s k) \<Longrightarrow>
      enriching s (snd (upsert_qsa_organization org d q u s))"
    by (rule enriching_company)
  show "upsert_qsa_organization org d q u s = (Inr r, t) \<Longrightarrow> company_in (graph t) (digits_only d)"
    by (rule partner_company)
  show "list_organizations_needing_enrichment l c s = (Inr os, t) \<Longrightarrow> (i, d) \<in> set os \<Longrightarrow> length (digits_only d) = 14 \<Longrightarrow>
      company_in (graph t) (digits_only d)"
    by (rule listed_company)
qed

section \<open>What a run writes\<close>

definition is_subject :: "node \<Rightarrow> bool" where
  "is_subject n \<longleftrightarrow> has_label ''Person'' n \<or> has_label ''Organization'' n"

definition company_edge :: "edge \<Rightarrow> bool" where
  "company_edge e \<longleftrightarrow> e_type e = ''CONTROLS'' \<or> e_type e = ''OWNED_BY''"

definition company_level :: "'z world_scheme \<Rightarrow> 'z world_scheme \<Rightarrow> bool" where
  "company_level s t \<longleftrightarrow>
     filter (\<lambda>n. \<not> is_subject n) (g_nodes (graph s)) = filter (\<lambda>n. \<not> is_subject n) (g_nodes (graph t)) \<and>
     filter (\<lambda>e. \<not> company_edge e) (g_edges (graph s)) = filter (\<lambda>e. \<not> company_edge e) (g_edges (graph t)) \<and>
     tombs s = tombs t \<and> watches s = watches t \<and> snapshots s = snapshots t \<and> aliases s = aliases t \<and>
     import_states s = import_states t"

interpretation company_level: world_order company_level
  by unfold_locales (simp_all add: company_level_def)

lemma is_subject_simps [simp]:
  "is_subject (upd_props kvs n) = is_subject n" "is_subject (enrichment_facts en now n) = is_subject n"
  "is_subject (qsa_person_facts p n) = is_subject n"
  by (simp_all add: is_subject_def)

lemma subject_label: "has_label ''Organization'' n \<Longrightarrow> is_subject n"
  by (simp add: is_subject_def)

lemma others_map:
  assumes "\<And>n. is_subject (f n) = is_subject n" and "\<And>n. P n \<Longrightarrow> is_subject n"
  shows "filter (\<lambda>n. \<not> is_subject n) (List.map (\<lambda>n. if P n then f n else n) ns) = filter (\<lambda>n. \<not> is_subject n) ns"
  by (induction ns) (use assms in auto)

lemma others_merge:
  assumes "\<And>n. is_subject (f n) = is_subject n" and "l = ''Person'' \<or> l = ''Organization''"
  shows "filter (\<lambda>n. \<not> is_subject n) (g_nodes (fst (merge_node l k v c f g))) = filter (\<lambda>n. \<not> is_subject n) (g_nodes g)"
proof (cases "match_nodes l (prop_is k v) g = []")
  case True
  have "is_subject \<lparr>n_key = g_next g, n_labels = [l], n_props = p\<rparr>" for p
    using assms(2) by (auto simp: is_subject_def has_label_def)
  with True show ?thesis by (simp add: merge_node_def Let_def assms(1))
next
  case False
  have "\<And>n. has_label l n \<and> prop_is k v n \<Longrightarrow> is_subject n" using assms(2) by (auto simp: is_subject_def)
  from others_map [OF assms(1) this] False show ?thesis by (simp add: merge_node_def Let_def)
qed

lemma others_edge:
  assumes "t = ''CONTROLS'' \<or> t = ''OWNED_BY''"
  shows "filter (\<lambda>e. \<not> company_edge e) (g_edges (merge_edge a t b c f g)) = filter (\<lambda>e. \<not> company_edge e) (g_edges g)"
proof (cases "has_edge a t b g")
  case True
  have "edge_is a t b e \<Longrightarrow> company_edge e" for e using assms by (auto simp: edge_is_def company_edge_def)
  moreover have "company_edge (e\<lparr>e_props := p\<rparr>) = company_edge e" for e p by (simp add: company_edge_def)
  ultimately have "filter (\<lambda>e. \<not> company_edge e) (List.map (\<lambda>e. if edge_is a t b e then e\<lparr>e_props := f (e_props e)\<rparr> else e) es) =
      filter (\<lambda>e. \<not> company_edge e) es" for es
    by (induction es) simp_all
  with True show ?thesis by (simp add: merge_edge_def)
next
  case False
  with assms show ?thesis by (simp add: merge_edge_def company_edge_def)
qed

lemma others_edges:
  assumes "t = ''CONTROLS'' \<or> t = ''OWNED_BY''"
  shows "filter (\<lambda>e. \<not> company_edge e) (g_edges (merge_edges ps t c f g)) = filter (\<lambda>e. \<not> company_edge e) (g_edges g)"
proof (induction ps arbitrary: g)
  case (Cons p ps)
  obtain a b where "p = (a, b)" by fastforce
  with Cons.IH show ?case by (simp add: others_edge [OF assms])
qed simp

lemma others_flag:
  "filter (\<lambda>n. \<not> is_subject n) (List.map (\<lambda>n. if has_label ''Organization'' n \<and> P n then upd_props kvs n else n) ns) =
     filter (\<lambda>n. \<not> is_subject n) ns"
  by (rule others_map) (auto simp: subject_label)

lemma company_cypher:
  assumes "\<And>g. filter (\<lambda>n. \<not> is_subject n) (g_nodes (fst (f g))) = filter (\<lambda>n. \<not> is_subject n) (g_nodes g)"
    and "\<And>g. filter (\<lambda>e. \<not> company_edge e) (g_edges (fst (f g))) = filter (\<lambda>e. \<not> company_edge e) (g_edges g)"
  shows "moves company_level (cypher f)"
  by (rule company_level.cypher) (simp add: company_level_def assms)

lemma company_level_any:
  "moves company_level (update_organization_enrichment en now)" "moves company_level (upsert_qsa_person org p)"
  "moves company_level (upsert_qsa_organization org d q u)" "moves company_level (ensure_organization_by_cnpj d)"
proof -
  have "moves company_level (cypher (merge_enrichment en now))"
    by (rule company_cypher; unfold merge_enrichment_fst) (rule others_merge, simp_all)
  then show "moves company_level (update_organization_enrichment en now)"
    unfolding update_organization_enrichment_def
    by (intro moves_if company_level.throw company_level.bindR company_level.first_row)
  have "moves company_level (cypher (merge_qsa_person org p))"
    by (rule company_cypher) (simp_all add: merge_qsa_person_fst others_edges others_merge)
  then show "moves company_level (upsert_qsa_person org p)"
    unfolding upsert_qsa_person_def
    by (intro moves_if company_level.throw company_level.bindR company_level.first_row)
  have "moves company_level (cypher (merge_qsa_organization org x q u))" for x
    by (rule company_cypher)
      (simp_all add: merge_qsa_organization_fst Let_def others_edges others_merge others_flag)
  then show "moves company_level (upsert_qsa_organization org d q u)"
    unfolding upsert_qsa_organization_def Let_def
    by (intro moves_if company_level.throw company_level.bindR company_level.first_row)
  show "moves company_level (ensure_organization_by_cnpj d)"
    by (rule company_level.ensure_organization_by_cnpj, rule company_cypher)
      (simp_all add: merge_flagged_nodes others_merge others_flag)
qed

interpretation company_level: cnpj_any_store company_level "\<lambda>_ _. True"
proof unfold_locales
  fix s t :: cn_state and rs j
  show "world.truncate s = world.truncate t \<Longrightarrow> company_level s t"
    using truncate_watch [of s t] by (simp add: company_level_def)
  show "company_level s (s\<lparr>reviews := rs, issued := j\<rparr>)" by (simp add: company_level_def)
qed (auto intro: movesD company_level_any)

section \<open>A run whose context is never cancelled\<close>

definition same_patience :: "cnpj_client \<Rightarrow> cnpj_client \<Rightarrow> bool" where
  "same_patience s t \<longleftrightarrow> nc_deadline s = nc_deadline t"

interpretation same_patience: state_order same_patience
  by unfold_locales (simp_all add: same_patience_def)

lemma patience_wait: "moves same_patience (cn_sleep d)" "moves same_patience cn_limiter_wait" "moves same_patience (cn_do api url)"
proof -
  show s: "moves same_patience (cn_sleep d)" for d
    by (rule movesI) (auto simp: cn_sleep_def same_patience_def split: option.split)
  have m: "moves same_patience cn_mark"
    unfolding cn_mark_def by (rule same_patience.modR) (simp add: same_patience_def)
  show "moves same_patience cn_limiter_wait"
    by (rule movesI) (use movesD [OF m] movesD [OF same_patience.seqR [OF s m]] in
      \<open>auto simp: cn_limiter_wait_def split: option.split\<close>)
  show "moves same_patience (cn_do api url)"
    by (rule movesI) (auto simp: cn_do_def same_patience_def Let_def split: option.split prod.split)
qed

lemma moves_reply: "moves R m \<Longrightarrow> (\<And>st bd. moves R (k st bd)) \<Longrightarrow> moves R (case x of CnDropped \<Rightarrow> m | CnAnswered st bd \<Rightarrow> k st bd)"
  by (cases x) simp_all

lemma patience_get: "moves same_patience (cn_get_from api url left b)"
proof (induction left arbitrary: b)
  case 0
  show ?case by (simp add: same_patience.throw)
next
  case (Suc left)
  show ?case
    unfolding cn_get_from.simps
    by (intro same_patience.seqR patience_wait moves_if same_patience.throw same_patience.bindR moves_reply
        same_patience.ret Suc.IH)
qed

lemma patience_fetch: "moves same_patience (fetch_cnpj api d)"
proof -
  have "moves same_patience (case bd of None \<Rightarrow> ret None | Some (CnDecoded r) \<Rightarrow> ret (Some r) | Some _ \<Rightarrow> throw DecodeError)" for bd
    by (auto simp: same_patience.ret same_patience.throw split: option.split cn_body.split)
  then show ?thesis
    unfolding fetch_cnpj_def Let_def cn_get_def
    by (intro moves_if same_patience.throw same_patience.bindR same_patience.getR patience_get)
qed

definition patient :: "cn_state \<Rightarrow> cn_state \<Rightarrow> bool" where
  "patient s t \<longleftrightarrow> same_patience (cn_client s) (cn_client t)"

interpretation patient: world_order patient
  by unfold_locales (simp_all add: patient_def same_patience_def)

lemma patient_cypher: "moves patient (cypher f)"
  by (rule patient.cypher) (simp add: patient_def)

lemma patient_count: "(\<And>s. cn_client (f s) = cn_client s) \<Longrightarrow> moves patient (modR f)"
  by (rule patient.modR) (simp add: patient_def)

lemma patient_writes:
  "moves patient (update_organization_enrichment en now)" "moves patient (upsert_qsa_person org p)"
  "moves patient (upsert_qsa_organization org d q u)" "moves patient (ensure_organization_by_cnpj d)"
  "moves patient (create_pending_review ty pl wk)"
  unfolding update_organization_enrichment_def upsert_qsa_person_def upsert_qsa_organization_def
    ensure_organization_by_cnpj_def create_pending_review_def Let_def
  by (intro moves_if patient.throw patient.bindR patient.first_row patient_cypher patient.sql | simp add: patient_def same_patience_def)+

lemma patient_enrich: "moves patient (enrich_one e w j)"
proof -
  have reg: "moves patient (in_register (fetch_cnpj (ce_api e) d))" for d
    by (rule movesI) (use movesD [OF patience_fetch [of "ce_api e" d]] in
      \<open>auto simp: in_register_def patient_def split: prod.split; metis snd_conv\<close>)
  have pair: "moves patient (case r of (i, created) \<Rightarrow> seqR (modR (\<lambda>s. s\<lparr>cn_chained := cn_chained s + 1\<rparr>)) (ret (h i created)))"
    for r :: "gostr \<times> bool" and h :: "gostr \<Rightarrow> bool \<Rightarrow> job option"
    by (intro moves_prod patient.seqR patient.ret patient_count) simp
  have individual: "moves patient (handle_individual w org c url x)" for org c url x
    unfolding handle_individual_def Let_def
    by (intro patient.bindR moves_option patient.ret patient.match_politicians_by_masked_cpf moves_if patient.seqR
        patient.whenR patient_writes patient.is_subject_purged patient_count; simp)
  have company: "moves patient (handle_company w j org url x)" for org url x
    unfolding handle_company_def Let_def
    by (intro moves_if patient.ret patient.bindR patient.is_subject_purged patient.seqR patient_writes pair patient_count) simp
  have partner: "moves patient (handle_partner w j org url x)" for org url x
    unfolding handle_partner_def
    by (cases "classify_doc (qs_doc x)"; simp only: doc_kind.case;
        intro patient.seqR individual company patient.ret patient_count; simp)
  have partners: "moves patient (handle_partners w j org url xs)" for org url xs
    by (induction xs) (auto intro!: patient.ret patient.bindR partner)
  show ?thesis
    unfolding enrich_one_def Let_def
    by (intro patient.bindR reg moves_option patient.seqR patient.ret patient.getR moves_if patient_writes partners patient_count; simp)
qed

lemma crawl_survives: "nc_deadline (cn_client s) = None \<Longrightarrow> fst (crawl e w visited queue s) = Inr ()"
proof (induction e w visited queue s rule: crawl.induct)
  case (1 e w visited s)
  show ?case by simp
next
  case (2 e w visited j queue s)
  obtain x t where run: "enrich_one e w j s = (x, t)" by fastforce
  have t: "nc_deadline (cn_client t) = None"
    using movesD [OF patient_enrich [of e w j], of s] run "2.prems" by (simp add: patient_def same_patience_def)
  then have go: "\<not> cn_stopped t" by (simp add: cn_stopped_def)
  have f: "nc_deadline (cn_client (snd (count_fetch_failure t))) = None" using t by (simp add: count_fetch_failure_def modR_def)
  show ?case
  proof (cases "digits_only (jb_cnpj j) \<in> set visited")
    case True
    with "2.IH"(1) [OF refl True "2.prems"] show ?thesis by (simp add: crawl.simps(2) Let_def)
  next
    case False
    with run go "2.IH"(2) [OF refl False run [symmetric] _ go f] "2.IH"(3) [OF refl False run [symmetric] _ refl] t
    show ?thesis by (cases x) (simp_all add: crawl.simps(2) Let_def)
  qed
qed

section \<open>A dry run\<close>

lemma dry_enrich:
  assumes "co_dry w" shows "moves same_stores (enrich_one e w j)"
proof -
  have reg: "moves same_stores (in_register m)" for m :: "(cnpj_client, 'a) prog"
    by (rule movesI) (simp add: in_register_def same_stores_def split: prod.split)
  have count: "moves same_stores (modR f)" if "\<And>s. world.truncate (f s) = world.truncate s" for f :: "cn_state \<Rightarrow> cn_state"
    using same_stores_stat [OF that] .
  have individual: "moves same_stores (handle_individual w org c url x)" for org c url x
    unfolding handle_individual_def Let_def using assms
    by (simp, intro same_stores.bindR moves_option same_stores.ret world_order.match_politicians_by_masked_cpf [OF same_stores.world_order_axioms] moves_if
        same_stores.seqR count; simp add: whenR_def same_stores.ret world.truncate_def)
  have partner: "moves same_stores (handle_partner w j org url x)" for org url x
    unfolding handle_partner_def handle_company_def using assms
    by (cases "classify_doc (qs_doc x)"; simp only: doc_kind.case if_True;
        intro same_stores.seqR individual same_stores.ret count; simp add: world.truncate_def)
  have partners: "moves same_stores (handle_partners w j org url xs)" for org url xs
    by (induction xs) (auto intro!: same_stores.ret same_stores.bindR partner)
  show ?thesis
    unfolding enrich_one_def Let_def using assms
    by (simp only: if_True, intro same_stores.bindR reg moves_option same_stores.seqR same_stores.ret same_stores.getR partners count;
        simp add: world.truncate_def)
qed

lemma dry_crawl: "co_dry w \<Longrightarrow> same_stores s (snd (crawl e w visited queue s))"
proof (induction e w visited queue s rule: crawl.induct)
  case (1 e w visited s)
  show ?case by simp
next
  case (2 e w visited j queue s)
  obtain x t where run: "enrich_one e w j s = (x, t)" by fastforce
  have t: "same_stores s t" using movesD [OF dry_enrich [OF "2.prems", of e j], of s] run by simp
  have c: "same_stores t (snd (count_fetch_failure t))" by (simp add: count_fetch_failure_def modR_def same_stores_def)
  have q: "same_stores t (t\<lparr>cn_queued := k\<rparr>)" for k by (simp add: same_stores_def)
  show ?case
  proof (cases "digits_only (jb_cnpj j) \<in> set visited")
    case True
    with "2.IH"(1) [OF refl True "2.prems"] show ?thesis by (simp add: crawl.simps(2) Let_def)
  next
    case False
    note err = "2.IH"(2) [OF refl False run [symmetric] _ _ "2.prems"] and ok = "2.IH"(3) [OF refl False run [symmetric] _ refl "2.prems"]
    show ?thesis
      using False run err ok t same_stores.trans [OF t] same_stores.trans [OF c] same_stores.trans [OF q]
      by (cases x) (auto simp: crawl.simps(2) Let_def)
  qed
qed

section \<open>A register to try it on\<close>

text \<open>
  Two companies; the first is owned by the second and by a person whose name is buried. The register
  knows the first one only.
\<close>

definition demo_register :: cn_env where
  "demo_register = \<lparr>ce_api = \<lparr>cn_url_ok = (\<lambda>_. True),
       cn_server = (\<lambda>_ url. (0, if has_suffix url (lit ''/12345678000195'') then CnAnswered 200 (CnDecoded
         \<lparr>cr_cnpj = lit ''12345678000195'', cr_razao = lit ''ACME LTDA'', cr_situacao = lit ''ATIVA'', cr_natureza = [],
          cr_uf = lit ''SP'', cr_capital = 1000, cr_cnae = [],
          cr_qsa = [\<lparr>qs_nome = lit ''Ana'', qs_doc = lit ''***641988**'', qs_qualificacao = lit ''Diretor'', qs_codigo = 10\<rparr>,
                    \<lparr>qs_nome = lit ''HOLDING'', qs_doc = lit ''98765432000110'', qs_qualificacao = [], qs_codigo = 22\<rparr>]\<rparr>)
         else CnAnswered 404 CnUnreadable))\<rparr>, ce_cutoff = (\<lambda>_. [])\<rparr>"

definition demo_queue :: cn_options where
  "demo_queue = \<lparr>co_limit = 0, co_dry = False, co_single = [], co_reenrich = 0\<rparr>"

definition demo_companies_world :: cn_state where
  "demo_companies_world =
     \<lparr>graph = \<lparr>g_nodes = [\<lparr>n_key = 0, n_labels = [''Organization''],
         n_props = [''id'' \<mapsto> PStr (lit ''org_12345678000195''), ''cnpj'' \<mapsto> PStr (lit ''12345678000195'')]\<rparr>], g_edges = [], g_next = 1\<rparr>,
      tombs = [\<lparr>tb_key = tombstone_key_name (lit ''ANA''), tb_node = [], tb_removal = None\<rparr>], reviews = [],
      import_states = [], snapshots = [], watches = [], aliases = [], clock = lit ''2025-01-01T00:00:00Z'', faults = [],
      wall = 0, issued = 0,
      cn_client = new_cnpj_client [] 30 0 None, cn_enriched = 0, cn_not_found = 0, cn_individuals = 0, cn_companies = 0,
      cn_unknown = 0, cn_persons = 0, cn_chained = 0, cn_queued = 0, cn_hits = 0, cn_reviews = 0, cn_tombstoned = 0,
      cn_fetch_errors = 0\<rparr>"

section \<open>Properties\<close>



text \<open>The enricher writes companies, persons and their ownership, and reviews for everything about a
  politician: whatever fails, it leaves every other node and relationship, the tombstones, the watch
  list, the snapshots and the aliases as they were.\<close>

theorem enricher_is_company_level:
  "filter (\<lambda>n. \<not> is_subject n) (g_nodes (graph (snd (run_cnpj e w s)))) = filter (\<lambda>n. \<not> is_subject n) (g_nodes (graph s)) \<and>
   filter (\<lambda>e. \<not> company_edge e) (g_edges (graph (snd (run_cnpj e w s)))) = filter (\<lambda>e. \<not> company_edge e) (g_edges (graph s)) \<and>
   tombs (snd (run_cnpj e w s)) = tombs s \<and> watches (snd (run_cnpj e w s)) = watches s \<and>
   snapshots (snd (run_cnpj e w s)) = snapshots s \<and> aliases (snd (run_cnpj e w s)) = aliases s"
  using movesD [OF company_level.run_any [of e w], of s] by (simp add: company_level_def)

text \<open>One company cannot end a run: unless the context is cancelled, whatever the register answers and
  whatever database call fails on the way, the walk over the companies and their partners ends, and the
  run returns no error but that of listing its roots.\<close>

theorem enricher_survives_companies:
  assumes "nc_deadline (cn_client s) = None"
  shows "fst (run_cnpj e w s) = (case fst (root_jobs e w (reset_cn s)) of Inl er \<Rightarrow> Inl er | Inr _ \<Rightarrow> Inr ())"
proof -
  have roots: "moves patient (root_jobs e w)"
    unfolding root_jobs_def list_organizations_needing_enrichment_def Let_def
    by (intro moves_if patient.throw patient.bindR patient.ret patient.cypher_read patient_writes moves_prod)
  obtain x t where r: "root_jobs e w (reset_cn s) = (x, t)" by fastforce
  have "nc_deadline (cn_client t) = None"
    using movesD [OF roots, of "reset_cn s"] r assms by (simp add: patient_def same_patience_def reset_cn_def)
  with r crawl_survives [of t e w "[]"] show ?thesis
    by (cases x) (simp_all add: run_cnpj_def seqR_def bindR_def modR_def)
qed

theorem enricher_survives_companies_witness: "fst (run_cnpj demo_register demo_queue demo_companies_world) = Inr ()"
proof -
  have "nc_deadline (cn_client demo_companies_world) = None" by (simp add: demo_companies_world_def new_cnpj_client_def Let_def)
  moreover have "\<not> isl (fst (root_jobs demo_register demo_queue (reset_cn demo_companies_world)))"
    by (simp add: root_jobs_def demo_queue_def list_organizations_needing_enrichment_def cypher_read_def db_call_def
        reset_cn_def demo_companies_world_def bindR_def getR_def trim_space_def trim_left_space_def trim_right_space_def ret_def Let_def)
  ultimately show ?thesis using enricher_survives_companies by (auto split: sum.splits)
qed

text \<open>A dry run writes nothing.\<close>

theorem enricher_dry_run:
  assumes "co_dry w" shows "same_stores s (snd (run_cnpj e w s))"
proof -
  have "moves same_stores (root_jobs e w)"
    unfolding root_jobs_def list_organizations_needing_enrichment_def Let_def
    by (simp only: assms if_True, intro moves_if same_stores.throw same_stores.bindR same_stores.ret same_stores.cypher_read)
  moreover have "moves same_stores (crawl e w [] js)" for js by (rule movesI) (rule dry_crawl [OF assms])
  moreover have "moves same_stores (modR reset_cn)"
    by (rule same_stores_stat) (simp add: reset_cn_def world.truncate_def)
  ultimately show ?thesis
    unfolding run_cnpj_def by (intro movesD [of same_stores] same_stores.seqR same_stores.bindR)
qed

theorem enricher_dry_run_witness:
  "graph (snd (run_cnpj demo_register (demo_queue\<lparr>co_dry := True\<rparr>) demo_companies_world)) = graph demo_companies_world"
  using enricher_dry_run [of "demo_queue\<lparr>co_dry := True\<rparr>" demo_companies_world demo_register] by (simp add: same_stores_def)

end
