(* ===== verification/Election.thy ===== *)
theory Election
  imports GoValue "HOL-Library.Word" "HOL-Library.List_Lexorder"
begin

text \<open>
  The importer of the electoral court's candidate files (\<^verbatim>\<open>backend/workers/tse/importer.go\<close>,
  \<^verbatim>\<open>backend/workers/tse/photo.go\<close>): from the rows of a year's files to one record per elected candidate.
  A file is what \<^verbatim>\<open>encoding/csv\<close> hands out over the decoded bytes, each row or an error; unzipping, the
  disk, \<^verbatim>\<open>/proc/meminfo\<close> and the answer of the court's server are given by an environment. Go ranges over
  the map of winners in an order of its own, given by the environment too.
\<close>

type_synonym csv_doc = "(err + gostr list) list"

section \<open>Elected candidates\<close>

text \<open>Whom the files call elected; 201 is the letter E with an acute accent.\<close>

definition allowed_cargos :: "gostr list" where
  "allowed_cargos = List.map lit [''DEPUTADO FEDERAL'', ''SENADOR'', ''PRESIDENTE'', ''VICE-PRESIDENTE'',
     ''GOVERNADOR'', ''VICE-GOVERNADOR'', ''DEPUTADO ESTADUAL'', ''DEPUTADO DISTRITAL'']"

definition allowed_status :: "gostr list" where
  "allowed_status = [lit ''ELEITO'', lit ''ELEITO POR QP'', lit ''ELEITO POR M'' @ 201 # lit ''DIA'', lit ''ELEITO POR MEDIA'',
     lit ''M'' @ 201 # lit ''DIA'', lit ''MEDIA'', lit ''QP'']"

record winner =
  wr_sq :: gostr
  wr_cpf :: gostr
  wr_year :: gostr
  wr_turn :: int
  wr_uf :: gostr
  wr_party :: gostr
  wr_name :: gostr
  wr_urna :: gostr
  wr_social :: gostr

record import_stats =
  is_read :: nat
  is_winning :: nat
  is_no_cpf :: nat
  is_by_cargo :: nat
  is_by_status :: nat
  is_invalid :: nat
  is_files :: nat
  is_deleted :: nat

definition no_stats :: import_stats where
  "no_stats = \<lparr>is_read = 0, is_winning = 0, is_no_cpf = 0, is_by_cargo = 0, is_by_status = 0, is_invalid = 0,
     is_files = 0, is_deleted = 0\<rparr>"

definition candidate_key :: "gostr \<Rightarrow> gostr \<Rightarrow> gostr" where
  "candidate_key uf sq = to_upper (trim_space uf) @ [124] @ trim_space sq"

definition row_to_index :: "gostr list \<Rightarrow> gostr \<Rightarrow> nat option" where
  "row_to_index header = foldl (\<lambda>m (i, h). m(trim_space h := Some i)) Map.empty (enumerate 0 header)"

text \<open>A column that is not in the header reads as column zero; \<open>ensure_headers\<close> rules it out.\<close>

definition cell :: "gostr list \<Rightarrow> (gostr \<Rightarrow> nat option) \<Rightarrow> gostr \<Rightarrow> gostr" where
  "cell row idx key =
     (let i = (case idx key of None \<Rightarrow> 0 | Some i \<Rightarrow> i) in if length row \<le> i then [] else row ! i)"

definition consulta_headers :: "gostr list" where
  "consulta_headers = List.map lit [''SQ_CANDIDATO'', ''NR_CPF_CANDIDATO'', ''NR_TURNO'', ''DS_CARGO'', ''DS_SIT_TOT_TURNO'',
     ''ANO_ELEICAO'', ''SG_UF'', ''SG_PARTIDO'', ''NM_CANDIDATO'', ''NM_URNA_CANDIDATO'', ''NM_SOCIAL_CANDIDATO'']"

definition ensure_headers :: "(gostr \<Rightarrow> nat option) \<Rightarrow> gostr list \<Rightarrow> bool" where
  "ensure_headers idx required = list_all (\<lambda>k. idx k \<noteq> None) required"

definition scan_consulta_row ::
  "gostr list \<Rightarrow> (gostr \<Rightarrow> nat option) \<Rightarrow> import_stats \<Rightarrow> (gostr \<times> winner) option \<times> import_stats" where
  "scan_consulta_row row idx st =
     (let field = (\<lambda>k. trim_space (cell row idx (lit k)));
          sq = field ''SQ_CANDIDATO'' in
      if to_upper (field ''DS_SIT_TOT_TURNO'') \<notin> set allowed_status then (None, st\<lparr>is_by_status := is_by_status st + 1\<rparr>)
      else if to_upper (field ''DS_CARGO'') \<notin> set allowed_cargos then (None, st\<lparr>is_by_cargo := is_by_cargo st + 1\<rparr>)
      else case parse_int64 (field ''NR_TURNO'') of
          None \<Rightarrow> (None, st\<lparr>is_invalid := is_invalid st + 1\<rparr>)
        | Some turn \<Rightarrow>
            if sq = [] then (None, st\<lparr>is_invalid := is_invalid st + 1\<rparr>)
            else (Some (candidate_key (field ''SG_UF'') sq,
                    \<lparr>wr_sq = sq, wr_cpf = field ''NR_CPF_CANDIDATO'', wr_year = field ''ANO_ELEICAO'', wr_turn = turn,
                     wr_uf = field ''SG_UF'', wr_party = field ''SG_PARTIDO'', wr_name = field ''NM_CANDIDATO'',
                     wr_urna = field ''NM_URNA_CANDIDATO'', wr_social = field ''NM_SOCIAL_CANDIDATO''\<rparr>), st))"

type_synonym winners = "(gostr \<times> winner) list"

definition keep_latest_turn :: "winners \<Rightarrow> gostr \<times> winner \<Rightarrow> winners" where
  "keep_latest_turn ws = (\<lambda>(k, w).
     case map_of ws k of
       None \<Rightarrow> ws @ [(k, w)]
     | Some old \<Rightarrow> if wr_turn old < wr_turn w then List.map (\<lambda>(j, x). if j = k then (k, w) else (j, x)) ws else ws)"

fun scan_rows :: "(gostr \<Rightarrow> nat option) \<Rightarrow> csv_doc \<Rightarrow> winners \<Rightarrow> import_stats \<Rightarrow> err + winners \<times> import_stats" where
  "scan_rows idx [] ws st = Inr (ws, st)"
| "scan_rows idx (Inl e # rows) ws st = Inl e"
| "scan_rows idx (Inr row # rows) ws st =
     (case scan_consulta_row row idx (st\<lparr>is_read := is_read st + 1\<rparr>) of
        (None, st') \<Rightarrow> scan_rows idx rows ws st'
      | (Some kw, st') \<Rightarrow> scan_rows idx rows (keep_latest_turn ws kw) st')"

definition read_consulta :: "csv_doc \<Rightarrow> winners \<Rightarrow> import_stats \<Rightarrow> err + winners \<times> import_stats" where
  "read_consulta doc ws st =
     (case doc of
        [] \<Rightarrow> Inl (Refused ''empty csv'')
      | Inl e # _ \<Rightarrow> Inl e
      | Inr header # rows \<Rightarrow>
          let idx = row_to_index header in
          if ensure_headers idx consulta_headers then scan_rows idx rows ws st else Inl (Refused ''missing required header''))"

section \<open>Records\<close>

record politician_record =
  po_cpf :: gostr
  po_name :: gostr
  po_aliases :: "gostr list"
  po_party :: gostr
  po_state :: gostr
  po_urls :: "gostr list"
  po_year :: int
  po_sq :: gostr
  po_photo :: gostr
  po_active :: bool

record import_result =
  ir_records :: "politician_record list"
  ir_stats :: import_stats

definition normalize_null :: "gostr \<Rightarrow> gostr" where
  "normalize_null v0 =
     (let v = trim_space v0 in if v = [] \<or> has_prefix v (lit ''#'') \<or> v = lit ''-1'' \<or> v = lit ''-3'' then [] else v)"

text \<open>
  \<^verbatim>\<open>strings.EqualFold\<close>: equality under simple case folding. Folding is upper case, then lower case, but
  for the two Turkish letters, which fold to themselves.
\<close>

definition simple_fold :: "rune \<Rightarrow> rune" where
  "simple_fold r = (if r = 304 \<or> r = 305 then r else lower_rune (upper_rune r))"

definition same_fold :: "gostr \<Rightarrow> gostr \<Rightarrow> bool" where
  "same_fold a b \<longleftrightarrow> List.map simple_fold a = List.map simple_fold b"

definition add_alias :: "gostr list \<Rightarrow> gostr \<Rightarrow> gostr \<Rightarrow> gostr list" where
  "add_alias as raw legal =
     (let a = normalize_null raw in
      if a = [] \<or> same_fold a (trim_space legal) \<or> list_ex (\<lambda>b. same_fold b a) as then as else as @ [a])"

definition build_profile_url :: "gostr \<Rightarrow> gostr \<Rightarrow> gostr" where
  "build_profile_url year sq =
     lit ''https://divulgacandcontas.tse.jus.br/divulga/#/candidato/'' @ year @ [47] @ sq"

definition photo_base_url :: gostr where
  "photo_base_url = lit ''https://divulgacandcontas.tse.jus.br/divulga/rest/arquivo/img''"

definition build_photo_url :: "gostr \<Rightarrow> gostr \<Rightarrow> gostr \<Rightarrow> gostr" where
  "build_photo_url election sq uf =
     (let e = trim_space election; q = trim_space sq; u = to_upper (trim_space uf) in
      if e = [] \<or> q = [] \<or> u = [] then [] else photo_base_url @ [47] @ e @ [47] @ q @ [47] @ u)"

text \<open>\<^verbatim>\<open>year, _ := strconv.Atoi(...)\<close>: a year that does not parse is 0, one that is out of range the nearest bound.\<close>

definition atoi_or_bound :: "gostr \<Rightarrow> int" where
  "atoi_or_bound s =
     (case parse_int64 s of
        Some n \<Rightarrow> n
      | None \<Rightarrow>
          let body = (case s of r # t \<Rightarrow> if r = 43 \<or> r = 45 then t else s | [] \<Rightarrow> []) in
          if body = [] \<or> \<not> list_all is_digit body then 0 else if has_prefix s [45] then - (2 ^ 63) else 2 ^ 63 - 1)"

definition build_record :: "gostr \<Rightarrow> winner \<Rightarrow> politician_record" where
  "build_record election w =
     \<lparr>po_cpf = normalize_null (wr_cpf w), po_name = wr_name w,
      po_aliases = add_alias (add_alias [] (wr_urna w) (wr_name w)) (wr_social w) (wr_name w),
      po_party = wr_party w, po_state = wr_uf w, po_urls = [build_profile_url (wr_year w) (wr_sq w)],
      po_year = atoi_or_bound (wr_year w), po_sq = wr_sq w, po_photo = build_photo_url election (wr_sq w) (wr_uf w),
      po_active = False\<rparr>"

definition build_result :: "winners \<Rightarrow> import_stats \<Rightarrow> gostr \<Rightarrow> import_result" where
  "build_result ws st election =
     (let known = filter (\<lambda>(k, w). normalize_null (wr_cpf w) \<noteq> []) ws in
      \<lparr>ir_records = List.map (\<lambda>(k, w). build_record election w) known,
       ir_stats = st\<lparr>is_no_cpf := is_no_cpf st + (length ws - length known)\<rparr>\<rparr>)"

definition import_year :: "(winners \<Rightarrow> winners) \<Rightarrow> csv_doc \<Rightarrow> gostr \<Rightarrow> err + import_result" where
  "import_year order doc election =
     (case read_consulta doc [] no_stats of
        Inl e \<Rightarrow> Inl e
      | Inr (ws, st) \<Rightarrow> Inr (build_result (order ws) (st\<lparr>is_winning := length ws\<rparr>) election))"

section \<open>Resources\<close>

text \<open>Sizes are unsigned 64-bit numbers, so the products wrap around.\<close>

fun split_on :: "rune \<Rightarrow> gostr \<Rightarrow> gostr list" where
  "split_on sep [] = [[]]"
| "split_on sep (r # rs) =
     (if r = sep then [] # split_on sep rs else case split_on sep rs of [] \<Rightarrow> [[r]] | w # ws \<Rightarrow> (r # w) # ws)"

definition parse_uint64 :: "gostr \<Rightarrow> 64 word option" where
  "parse_uint64 s =
     (if s = [] \<or> \<not> list_all is_digit s \<or> 2 ^ 64 \<le> decimal s then None else Some (word_of_int (decimal s)))"

fun mem_available_in :: "gostr list \<Rightarrow> 64 word option" where
  "mem_available_in [] = None"
| "mem_available_in (l # ls) =
     (let line = trim_space l in
      if \<not> has_prefix line (lit ''MemAvailable:'') then mem_available_in ls
      else case str_fields line of
          _ # kb # _ \<Rightarrow> map_option (\<lambda>n. n * 1024) (parse_uint64 kb)
        | _ \<Rightarrow> None)"

definition read_mem_available :: "gostr option \<Rightarrow> 64 word option" where
  "read_mem_available meminfo = (case meminfo of None \<Rightarrow> None | Some text \<Rightarrow> mem_available_in (split_on 10 text))"

definition check_memory :: "gostr option \<Rightarrow> 64 word \<Rightarrow> bool" where
  "check_memory meminfo minimum = (case read_mem_available meminfo of None \<Rightarrow> True | Some n \<Rightarrow> minimum \<le> n)"

definition check_disk :: "(64 word \<times> int) option \<Rightarrow> 64 word \<Rightarrow> bool" where
  "check_disk statfs minimum =
     (case statfs of None \<Rightarrow> False | Some (blocks, bsize) \<Rightarrow> minimum \<le> blocks * word_of_int bsize)"

section \<open>A year's files\<close>

record zip_entry =
  ze_name :: gostr
  ze_dir :: bool
  ze_file :: "err + csv_doc"

text \<open>The machine: what the directories, the \<open>n\<close>-th look at the disk and at the memory, and a deletion answer.\<close>

record tse_host =
  th_dirs :: bool
  th_disk :: "nat \<Rightarrow> (64 word \<times> int) option"
  th_mem :: "nat \<Rightarrow> gostr option"
  th_removes :: "gostr \<Rightarrow> bool"
  th_order :: "winners \<Rightarrow> winners"

record import_options =
  io_disk :: "64 word"
  io_mem :: "64 word"
  io_election :: gostr

definition default_min_disk :: "64 word" where "default_min_disk = 512 * 1024 * 1024"
definition default_min_mem :: "64 word" where "default_min_mem = 256 * 1024 * 1024"

definition ensure_system_resources :: "tse_host \<Rightarrow> import_options \<Rightarrow> nat \<Rightarrow> bool" where
  "ensure_system_resources h o' n \<longleftrightarrow> check_disk (th_disk h n) (io_disk o') \<and> check_memory (th_mem h n) (io_mem o')"

text \<open>\<^verbatim>\<open>filepath.Base\<close>; 47 is the slash.\<close>

definition path_base :: "gostr \<Rightarrow> gostr" where
  "path_base p =
     (if p = [] then lit ''.''
      else let q = rev (dropWhile (\<lambda>r. r = 47) (rev p)) in if q = [] then [47] else rev (takeWhile (\<lambda>r. r \<noteq> 47) (rev q)))"

type_synonym files = "(gostr \<times> csv_doc) list"

text \<open>An entry of the same base name as an earlier one replaces it.\<close>

fun unzip_and_prune :: "zip_entry list \<Rightarrow> files \<Rightarrow> err + files" where
  "unzip_and_prune [] fs = Inr fs"
| "unzip_and_prune (z # zs) fs =
     (let name = path_base (ze_name z) in
      if ze_dir z \<or> has_suffix (to_upper name) (lit ''_BRASIL.CSV'') then unzip_and_prune zs fs
      else case ze_file z of
          Inl e \<Rightarrow> Inl e
        | Inr doc \<Rightarrow> unzip_and_prune zs (filter (\<lambda>(n, _). n \<noteq> name) fs @ [(name, doc)]))"

text \<open>\<^verbatim>\<open>os.ReadDir\<close> lists a directory by name.\<close>

definition collect_consulta_files :: "int \<Rightarrow> files \<Rightarrow> files" where
  "collect_consulta_files year fs =
     filter (\<lambda>(n, _). has_prefix (to_upper n) (lit ''CONSULTA_CAND_'' @ itoa year @ lit ''_'') \<and> has_suffix (to_upper n) (lit ''.CSV''))
       (sort_key fst fs)"

fun process_files :: "tse_host \<Rightarrow> import_options \<Rightarrow> files \<Rightarrow> winners \<Rightarrow> import_stats \<Rightarrow> err + winners \<times> import_stats" where
  "process_files h o' [] ws st = Inr (ws, st)"
| "process_files h o' ((name, doc) # fs) ws st =
     (case read_consulta doc ws st of
        Inl e \<Rightarrow> Inl e
      | Inr (ws', st') \<Rightarrow>
          let n = is_files st' + 1; st2 = st'\<lparr>is_files := n, is_deleted := is_deleted st' + 1\<rparr> in
          if \<not> th_removes h name then Inl (Refused ''delete processed file'')
          else if n mod 3 = 0 \<and> \<not> ensure_system_resources h o' (n div 3) then Inl (Refused ''insufficient resources'')
          else process_files h o' fs ws' st2)"

definition import_year_from_zip :: "tse_host \<Rightarrow> int \<Rightarrow> err + zip_entry list \<Rightarrow> import_options \<Rightarrow> err + import_result" where
  "import_year_from_zip h year archive o0 =
     (let o' = o0\<lparr>io_disk := (if io_disk o0 = 0 then default_min_disk else io_disk o0),
                  io_mem := (if io_mem o0 = 0 then default_min_mem else io_mem o0)\<rparr> in
      if \<not> th_dirs h then Inl (Refused ''create workdir'')
      else if \<not> ensure_system_resources h o' 0 then Inl (Refused ''insufficient resources'')
      else case archive of
          Inl e \<Rightarrow> Inl e
        | Inr entries \<Rightarrow>
            case unzip_and_prune entries [] of
              Inl e \<Rightarrow> Inl e
            | Inr fs \<Rightarrow>
                case process_files h o' (collect_consulta_files year fs) [] no_stats of
                  Inl e \<Rightarrow> Inl e
                | Inr (ws, st) \<Rightarrow> Inr (build_result (th_order h ws) (st\<lparr>is_winning := length ws\<rparr>) (io_election o')))"

section \<open>The court's number of an election\<close>

text \<open>
  The answer as \<^verbatim>\<open>encoding/json\<close> reads it: one value is \<^verbatim>\<open>null\<close>, an object with or without an \<^verbatim>\<open>id\<close> (its
  text), or something else; a body is blank, broken, one value or an array.
\<close>

datatype election_json = ElNull | ElObject "gostr option" | ElOther

datatype election_body = ElBlank | ElBroken | ElOne election_json | ElMany "election_json list"

datatype election_reply = ElNoRequest | ElDropped | ElAnswered int "election_body option"

definition unmarshal_election :: "election_json \<Rightarrow> gostr option" where
  "unmarshal_election v =
     (case v of
        ElOther \<Rightarrow> None
      | ElNull \<Rightarrow> Some []
      | ElObject raw \<Rightarrow>
          let i = (let t = trim_space (case raw of None \<Rightarrow> [] | Some t \<Rightarrow> t) in
                   rev (dropWhile (\<lambda>r. r = 34) (rev (dropWhile (\<lambda>r. r = 34) t)))) in
          if i = [] \<or> i = lit ''null'' then Some [] else if parse_int64 i = None then None else Some i)"

definition decode_election :: "election_body \<Rightarrow> err + gostr" where
  "decode_election body =
     (case body of
        ElBlank \<Rightarrow> Inr []
      | ElBroken \<Rightarrow> Inl DecodeError
      | ElOne ElNull \<Rightarrow> Inr []
      | ElOne v \<Rightarrow> (case unmarshal_election v of
          Some i \<Rightarrow> if i = [] then Inl DecodeError else Inr i
        | None \<Rightarrow> Inl DecodeError)
      | ElMany vs \<Rightarrow>
          if list_ex (\<lambda>v. unmarshal_election v = None) vs then Inl DecodeError
          else Inr (case vs of [] \<Rightarrow> [] | v # _ \<Rightarrow> (case unmarshal_election v of Some i \<Rightarrow> i | None \<Rightarrow> [])))"

definition resolve_election_id :: "(int \<Rightarrow> election_reply) \<Rightarrow> int \<Rightarrow> err + gostr" where
  "resolve_election_id server year =
     (case server year of
        ElNoRequest \<Rightarrow> Inl (Refused ''build election request'')
      | ElDropped \<Rightarrow> Inl HttpError
      | ElAnswered status body \<Rightarrow>
          if status \<noteq> 200 then Inl HttpError else (case body of None \<Rightarrow> Inl HttpError | Some b \<Rightarrow> decode_election b))"

end
