(* ===== verification/Politicians.thy ===== *)
theory Politicians
  imports Election Sanction_Store
begin

text \<open>
  Who the politicians of the graph are: the statements that write them
  (\<^verbatim>\<open>backend/db/memgraph/{tse,camara,senado}_writer.go\<close>), the syncers of the two houses
  (\<^verbatim>\<open>backend/workers/{camara,senado}/syncer.go\<close>) and the tables that log their runs
  (\<^verbatim>\<open>backend/db/psql/{tse_import,scrapper,camara_sync,senado_sync}.go\<close>).
\<close>

section \<open>The importer's statement\<close>

definition deterministic_politician_id :: "gostr \<Rightarrow> gostr" where
  "deterministic_politician_id cpf = lit ''pol_'' @ trim_space cpf"

text \<open>\<^verbatim>\<open>reduce(acc = old, x IN new | CASE WHEN x IN acc THEN acc ELSE acc + x END)\<close>\<close>

definition add_missing :: "gostr list \<Rightarrow> gostr list \<Rightarrow> gostr list" where
  "add_missing = foldl (\<lambda>acc x. if x \<in> set acc then acc else acc @ [x])"

text \<open>A list grows, an absent one counts as empty. What is not a list is left alone.\<close>

definition grown :: "node \<Rightarrow> string \<Rightarrow> gostr list \<Rightarrow> pval option" where
  "grown n k xs =
     (case n_props n k of
        None \<Rightarrow> Some (PList (add_missing [] xs))
      | Some (PList l) \<Rightarrow> Some (PList (add_missing l xs))
      | Some v \<Rightarrow> Some v)"

definition photo_source_tse :: gostr where "photo_source_tse = lit ''tse''"

text \<open>8212 is the dash.\<close>

definition photo_attribution_tse :: gostr where
  "photo_attribution_tse = lit ''Tribunal Superior Eleitoral '' @ 8212 # lit '' divulgacandcontas''"

text \<open>A photo is taken where there is none, or where it replaces an older one of the court's own.\<close>

definition take_photo :: "politician_record \<Rightarrow> node \<Rightarrow> bool" where
  "take_photo r n \<longleftrightarrow>
     po_photo r \<noteq> [] \<and>
     (n_props n ''photo_url'' = None \<or> n_props n ''photo_url'' = Some (PStr []) \<or>
      (n_props n ''photo_source'' = Some (PStr photo_source_tse) \<and>
       (case n_props n ''photo_year'' of
          None \<Rightarrow> 0 < po_year r | Some (PNum y) \<Rightarrow> y < of_int (po_year r) | Some _ \<Rightarrow> False)))"

definition tse_names :: "politician_record \<Rightarrow> node \<Rightarrow> node" where
  "tse_names r =
     upd_props [(''name'', Some (PStr (po_name r))), (''search_name'', Some (PStr (fold_query (po_name r)))),
                (''party_current'', Some (PStr (po_party r))), (''state'', Some (PStr (po_state r)))]"

definition tse_lists :: "politician_record \<Rightarrow> node \<Rightarrow> node" where
  "tse_lists r n =
     upd_props [(''name_aliases'', grown n ''name_aliases'' (po_aliases r)),
                (''tse_profile_urls'', grown n ''tse_profile_urls'' (po_urls r))] n"

definition tse_photo :: "politician_record \<Rightarrow> node \<Rightarrow> node" where
  "tse_photo r n =
     (if take_photo r n
      then upd_props [(''photo_url'', Some (PStr (po_photo r))), (''photo_source'', Some (PStr photo_source_tse)),
                      (''photo_attribution'', Some (PStr photo_attribution_tse)), (''photo_year'', Some (PNum (of_int (po_year r))))] n
      else n)"

definition tse_facts :: "politician_record \<Rightarrow> node \<Rightarrow> node" where
  "tse_facts r n = tse_photo r (tse_lists r (tse_names r n))"

text \<open>
  One row of \<^verbatim>\<open>UNWIND\<close>. Each \<^verbatim>\<open>SET\<close> passes over the rows in turn; the three of them touch different
  properties, so a row may as well be finished before the next one begins.
\<close>

definition merge_tse_row :: "politician_record \<Rightarrow> graph \<Rightarrow> graph \<times> nat" where
  "merge_tse_row r g =
     (case merge_node ''Politician'' ''cpf'' (PStr (po_cpf r))
             [(''id'', Some (PStr (deterministic_politician_id (po_cpf r)))), (''active'', Some (PBool False))] (tse_facts r) g of
        (g', rows, _) \<Rightarrow> (g', length rows))"

definition merge_rows :: "('r \<Rightarrow> graph \<Rightarrow> graph \<times> nat) \<Rightarrow> 'r list \<Rightarrow> graph \<Rightarrow> graph \<times> nat" where
  "merge_rows f rs g = foldl (\<lambda>(g, n) r. case f r g of (g', k) \<Rightarrow> (g', n + k)) (g, 0) rs"

text \<open>The batches, each a statement of its own; the total counts the rows touched.\<close>

function batches :: "nat \<Rightarrow> 'r list \<Rightarrow> 'r list list" where
  "batches n rs = (if n = 0 \<or> rs = [] then [] else take n rs # batches n (drop n rs))"
  by pat_completeness auto
termination by (relation "measure (\<lambda>(n, rs). length rs)") auto

declare batches.simps [simp del]

definition batch_size :: "int \<Rightarrow> nat" where
  "batch_size b = (if b \<le> 0 then 500 else nat b)"

fun upsert_batches :: "('r \<Rightarrow> graph \<Rightarrow> graph \<times> nat) \<Rightarrow> 'r list list \<Rightarrow> nat \<Rightarrow> ('z world_scheme, nat) prog" where
  "upsert_batches f [] n = ret n"
| "upsert_batches f (b # bs) n = bindR (cypher (merge_rows f b)) (\<lambda>k. upsert_batches f bs (n + k))"

definition upsert_politicians_from_tse :: "politician_record list \<Rightarrow> int \<Rightarrow> ('z world_scheme, nat) prog" where
  "upsert_politicians_from_tse records size_limit =
     upsert_batches merge_tse_row (batches (batch_size size_limit) records) 0"

section \<open>The chamber of deputies\<close>

record deputy_record =
  dr_camara :: int
  dr_cpf :: gostr
  dr_name :: gostr
  dr_party :: gostr
  dr_role :: gostr
  dr_state :: gostr
  dr_photo :: gostr
  dr_active :: bool

definition camara_facts :: "deputy_record \<Rightarrow> node \<Rightarrow> node" where
  "camara_facts r n =
     upd_props
       [(''name'', Some (PStr (dr_name r))), (''search_name'', Some (PStr (fold_query (dr_name r)))),
        (''party_current'', Some (PStr (dr_party r))), (''role_current'', Some (PStr (dr_role r))),
        (''photo_url'', if dr_photo r \<noteq> [] then Some (PStr (dr_photo r)) else n_props n ''photo_url''),
        (''photo_source'', if dr_photo r \<noteq> [] then Some (PStr (lit ''camara'')) else n_props n ''photo_source''),
        (''state'', Some (PStr (dr_state r))), (''active'', Some (PBool True)), (''camara_id'', Some (PNum (of_int (dr_camara r))))] n"

definition merge_camara_row :: "deputy_record \<Rightarrow> graph \<Rightarrow> graph \<times> nat" where
  "merge_camara_row r g =
     (case merge_node ''Politician'' ''cpf'' (PStr (dr_cpf r))
             [(''id'', Some (PStr (deterministic_politician_id (dr_cpf r)))), (''name_aliases'', Some (PList [])),
              (''tse_profile_urls'', Some (PList []))] (camara_facts r) g of
        (g', rows, _) \<Rightarrow> (g', length rows))"

definition upsert_politicians_from_camara :: "deputy_record list \<Rightarrow> int \<Rightarrow> ('z world_scheme, nat) prog" where
  "upsert_politicians_from_camara records size_limit =
     upsert_batches merge_camara_row (batches (batch_size size_limit) records) 0"

record listed_deputy =
  ld_id :: int
  ld_nome :: gostr
  ld_partido :: gostr
  ld_uf :: gostr
  ld_foto :: gostr

record deputy_detail =
  dd_nome :: gostr
  dd_cpf :: gostr
  dd_uf :: gostr
  dd_last_partido :: gostr
  dd_last_uf :: gostr
  dd_last_foto :: gostr
  dd_status :: gostr

record camara_stats =
  cs_pages :: nat
  cs_listed :: nat
  cs_details :: nat
  cs_active :: nat
  cs_no_cpf :: nat
  cs_not_active :: nat

definition no_camara_stats :: camara_stats where
  "no_camara_stats = \<lparr>cs_pages = 0, cs_listed = 0, cs_details = 0, cs_active = 0, cs_no_cpf = 0, cs_not_active = 0\<rparr>"

text \<open>The service: a page of the list, and the detail asked for at a place of a page. Anything but a
  decoded answer of status 200 is an error.\<close>

record camara_api =
  ka_page :: "int \<Rightarrow> nat \<Rightarrow> err + listed_deputy list"
  ka_detail :: "int \<Rightarrow> nat \<Rightarrow> int \<Rightarrow> err + deputy_detail"

definition is_active_detail :: "deputy_detail \<Rightarrow> bool" where
  "is_active_detail d =
     (let status = to_lower (trim_space (dd_status d)) in status = [] \<or> contains status (lit ''exerc''))"

definition first_set :: "gostr list \<Rightarrow> gostr" where
  "first_set xs = (case filter (\<lambda>x. x \<noteq> []) (List.map trim_space xs) of [] \<Rightarrow> [] | x # _ \<Rightarrow> x)"

definition deputy_of :: "listed_deputy \<Rightarrow> deputy_detail \<Rightarrow> deputy_record" where
  "deputy_of dep d =
     \<lparr>dr_camara = ld_id dep, dr_cpf = trim_space (dd_cpf d), dr_name = first_set [dd_nome d, ld_nome dep],
      dr_party = first_set [dd_last_partido d, ld_partido dep], dr_role = lit ''Deputado Federal'',
      dr_state = first_set [dd_last_uf d, dd_uf d, ld_uf dep], dr_photo = first_set [dd_last_foto d, ld_foto dep],
      dr_active = True\<rparr>"

fun fetch_details ::
  "camara_api \<Rightarrow> int \<Rightarrow> nat \<Rightarrow> listed_deputy list \<Rightarrow> deputy_record list \<times> camara_stats
     \<Rightarrow> err + deputy_record list \<times> camara_stats" where
  "fetch_details api page i [] (out, st) = Inr (out, st)"
| "fetch_details api page i (dep # deps) (out, st) =
     (case ka_detail api page i (ld_id dep) of
        Inl e \<Rightarrow> Inl e
      | Inr d \<Rightarrow>
          let st' = st\<lparr>cs_details := cs_details st + 1\<rparr> in
          fetch_details api page (i + 1) deps
            (if \<not> is_active_detail d then (out, st'\<lparr>cs_not_active := cs_not_active st' + 1\<rparr>)
             else if trim_space (dd_cpf d) = [] then (out, st'\<lparr>cs_no_cpf := cs_no_cpf st' + 1\<rparr>)
             else (out @ [deputy_of dep d], st'\<lparr>cs_active := cs_active st' + 1\<rparr>)))"

text \<open>The pages have no bound of their own when \<open>limit\<close> is 0: \<open>None\<close> is running out of fuel.\<close>

fun deputies_from ::
  "camara_api \<Rightarrow> nat \<Rightarrow> int \<Rightarrow> nat \<Rightarrow> int \<Rightarrow> deputy_record list \<times> camara_stats
     \<Rightarrow> (err + deputy_record list \<times> camara_stats) option" where
  "deputies_from api items limit 0 page acc = None"
| "deputies_from api items limit (Suc fuel) page (out, st) =
     (if 0 < limit \<and> limit < page then Some (Inr (out, st))
      else case ka_page api page items of
          Inl e \<Rightarrow> Some (Inl e)
        | Inr listed \<Rightarrow>
            if listed = [] then Some (Inr (out, st))
            else case fetch_details api page 0 listed
                   (out, st\<lparr>cs_pages := cs_pages st + 1, cs_listed := cs_listed st + length listed\<rparr>) of
                Inl e \<Rightarrow> Some (Inl e)
              | Inr acc \<Rightarrow>
                  if length listed < items then Some (Inr acc) else deputies_from api items limit fuel (page + 1) acc)"

definition page_items :: "int \<Rightarrow> nat" where
  "page_items n = (if n \<le> 0 \<or> 100 < n then 100 else nat n)"

definition sync_current_deputies ::
  "camara_api \<Rightarrow> nat \<Rightarrow> int \<Rightarrow> int \<Rightarrow> (err + deputy_record list \<times> camara_stats) option" where
  "sync_current_deputies api fuel items limit = deputies_from api (page_items items) limit fuel 1 ([], no_camara_stats)"

section \<open>The senate\<close>

record senator_record =
  sn_senado :: gostr
  sn_name :: gostr
  sn_party :: gostr
  sn_role :: gostr
  sn_state :: gostr
  sn_photo :: gostr
  sn_active :: bool

text \<open>Memgraph's \<^verbatim>\<open>trim\<close> and \<^verbatim>\<open>toLower\<close>.\<close>

record cypher_text =
  ct_trim :: "gostr \<Rightarrow> gostr"
  ct_lower :: "gostr \<Rightarrow> gostr"

definition senator_is :: "cypher_text \<Rightarrow> senator_record \<Rightarrow> node \<Rightarrow> bool" where
  "senator_is ct r n \<longleftrightarrow>
     n_props n ''state'' = Some (PStr (sn_state r)) \<and>
     (case n_props n ''name'' of
        Some (PStr x) \<Rightarrow> ct_lower ct (ct_trim ct x) = ct_lower ct (ct_trim ct (sn_name r)) | _ \<Rightarrow> False)"

definition senado_facts :: "senator_record \<Rightarrow> node \<Rightarrow> node" where
  "senado_facts r n =
     upd_props
       [(''party_current'', Some (PStr (sn_party r))), (''role_current'', Some (PStr (sn_role r))),
        (''photo_url'', if sn_photo r \<noteq> [] then Some (PStr (sn_photo r)) else n_props n ''photo_url''),
        (''photo_source'', if sn_photo r \<noteq> [] then Some (PStr (lit ''senado'')) else n_props n ''photo_source''),
        (''active'', Some (PBool True)), (''senado_id'', Some (PStr (sn_senado r)))] n"

definition match_senado_row :: "cypher_text \<Rightarrow> senator_record \<Rightarrow> graph \<Rightarrow> graph \<times> nat" where
  "match_senado_row ct r g =
     (map_nodes (\<lambda>n. has_label ''Politician'' n \<and> senator_is ct r n) (senado_facts r) g,
      length (match_nodes ''Politician'' (senator_is ct r) g))"

definition upsert_politicians_from_senado :: "cypher_text \<Rightarrow> senator_record list \<Rightarrow> int \<Rightarrow> ('z world_scheme, nat) prog" where
  "upsert_politicians_from_senado ct records size_limit =
     upsert_batches (match_senado_row ct) (batches (batch_size size_limit) records) 0"

text \<open>A field whose JSON is kept as text: absent or blank, \<^verbatim>\<open>null\<close>, an array of so many values, another value.\<close>

datatype raw_json = RawBlank | RawNull | RawArray nat | RawOther

record senator_payload =
  sp_codigo :: gostr
  sp_nome :: gostr
  sp_nome_completo :: gostr
  sp_partido :: gostr
  sp_uf :: gostr
  sp_foto :: gostr
  sp_participacao :: gostr
  sp_exercicio :: raw_json

text \<open>The \<^verbatim>\<open>Parlamentar\<close> field: absent, an array or an object that decodes, or anything else.\<close>

datatype parlamentar = ParlNone | ParlMany "senator_payload list" | ParlOne senator_payload | ParlBad

record senado_stats =
  ss_listed :: nat
  ss_active :: nat
  ss_not_active :: nat
  ss_invalid :: nat

definition parse_parlamentar :: "parlamentar \<Rightarrow> err + senator_payload list" where
  "parse_parlamentar raw =
     (case raw of ParlNone \<Rightarrow> Inr [] | ParlMany xs \<Rightarrow> Inr xs | ParlOne x \<Rightarrow> Inr [x]
      | ParlBad \<Rightarrow> Inl (Refused ''invalid Parlamentar payload''))"

definition is_active_senator :: "senator_payload \<Rightarrow> bool" where
  "is_active_senator x \<longleftrightarrow>
     same_fold (trim_space (sp_participacao x)) (lit ''Titular'') \<and>
     (case sp_exercicio x of RawBlank \<Rightarrow> False | RawNull \<Rightarrow> False | RawArray n \<Rightarrow> 0 < n | RawOther \<Rightarrow> True)"

definition senator_of :: "senator_payload \<Rightarrow> senator_record" where
  "senator_of x =
     \<lparr>sn_senado = trim_space (sp_codigo x), sn_name = first_set [sp_nome_completo x, sp_nome x],
      sn_party = trim_space (sp_partido x), sn_role = lit ''Senador'', sn_state = trim_space (sp_uf x),
      sn_photo = trim_space (sp_foto x), sn_active = True\<rparr>"

definition valid_senator :: "senator_record \<Rightarrow> bool" where
  "valid_senator r \<longleftrightarrow> sn_senado r \<noteq> [] \<and> sn_name r \<noteq> [] \<and> sn_state r \<noteq> [] \<and> sn_party r \<noteq> []"

fun take_senators :: "senator_payload list \<Rightarrow> senator_record list \<times> senado_stats \<Rightarrow> senator_record list \<times> senado_stats" where
  "take_senators [] (out, st) = (out, st)"
| "take_senators (x # xs) (out, st) =
     take_senators xs
       (if \<not> is_active_senator x then (out, st\<lparr>ss_not_active := ss_not_active st + 1\<rparr>)
        else if \<not> valid_senator (senator_of x) then (out, st\<lparr>ss_invalid := ss_invalid st + 1\<rparr>)
        else (out @ [senator_of x], st\<lparr>ss_active := ss_active st + 1\<rparr>))"

text \<open>The answer of the service, or what went wrong before it was decoded.\<close>

definition sync_current_senators :: "err + parlamentar \<Rightarrow> err + senator_record list \<times> senado_stats" where
  "sync_current_senators answer =
     (case answer of
        Inl e \<Rightarrow> Inl e
      | Inr raw \<Rightarrow> (case parse_parlamentar raw of
          Inl e \<Rightarrow> Inl e
        | Inr xs \<Rightarrow> Inr (take_senators xs ([], \<lparr>ss_listed = length xs, ss_active = 0, ss_not_active = 0, ss_invalid = 0\<rparr>))))"

end
