(* ===== verification/Registers.thy ===== *)
theory Registers
  imports Politicians
begin

text \<open>
  The command that imports elections and refreshes the two houses (\<^verbatim>\<open>backend/workers/tse/cmd/main.go\<close>, and
  the commands of \<^verbatim>\<open>backend/workers/{camara,senado}\<close>): which years, where their archives come from, the
  logs of a run and what is written when. A non-zero exit is an error. Paths are kept clean by whoever
  gives them; a file is its bytes.
\<close>

section \<open>State and environment\<close>

record tse_log_row =
  tl_year :: int
  tl_status :: string
  tl_records :: nat
  tl_error :: "err option"

record scraper_job =
  sj_id :: nat
  sj_worker :: string
  sj_status :: string
  sj_records :: nat
  sj_error :: "err option"

record 'st house_run =
  hr_id :: nat
  hr_status :: string
  hr_stats :: "'st option"
  hr_records :: nat
  hr_error :: "err option"

record registrar = world +
  rg_tse_log :: "tse_log_row list"
  rg_jobs :: "scraper_job list"
  rg_camara :: "camara_stats house_run list"
  rg_senado :: "senado_stats house_run list"
  rg_files :: "gostr \<Rightarrow> gostr option"
  rg_requests :: nat

text \<open>The download server: nothing came back, or a status, the bytes that reached the file and whether
  they are all there were to come.\<close>

datatype cdn_reply = CdnDown | CdnAnswer int gostr bool

record register_env =
  te_cdn :: "nat \<Rightarrow> gostr \<Rightarrow> nat \<Rightarrow> cdn_reply"
  te_mkdir :: bool
  te_renames :: bool
  te_unzip :: "gostr \<Rightarrow> err + zip_entry list"
  te_election :: "int \<Rightarrow> election_reply"
  te_host :: "int \<Rightarrow> tse_host"
  te_this_year :: int
  te_camara :: camara_api
  te_fuel :: nat
  te_senado :: "err + parlamentar"
  te_text :: cypher_text

record register_options =
  ro_year :: int
  ro_from :: int
  ro_to :: int
  ro_all :: bool
  ro_consulta :: gostr
  ro_zip_dir :: gostr
  ro_work_dir :: gostr
  ro_min_disk :: "64 word"
  ro_min_mem :: "64 word"
  ro_persist :: bool
  ro_skip :: bool
  ro_batch :: int
  ro_do_camara :: bool
  ro_do_senado :: bool

section \<open>The logs\<close>

definition is_tse_year_successful :: "int \<Rightarrow> (registrar, bool) prog" where
  "is_tse_year_successful year =
     sql_read (\<lambda>s. list_ex (\<lambda>l. tl_year l = year \<and> tl_status l = ''success'') (rg_tse_log s))"

text \<open>One row per year: the second write of a year replaces the first.\<close>

definition log_year :: "int \<Rightarrow> string \<Rightarrow> nat \<Rightarrow> err option \<Rightarrow> tse_log_row list \<Rightarrow> tse_log_row list" where
  "log_year year status n er ls =
     (let new = \<lparr>tl_year = year, tl_status = status, tl_records = n, tl_error = er\<rparr> in
      if list_ex (\<lambda>l. tl_year l = year) ls then List.map (\<lambda>l. if tl_year l = year then new else l) ls else ls @ [new])"

definition upsert_tse_import_log :: "int \<Rightarrow> string \<Rightarrow> nat \<Rightarrow> err option \<Rightarrow> (registrar, unit) prog" where
  "upsert_tse_import_log year status n er = sql (\<lambda>s. s\<lparr>rg_tse_log := log_year year status n er (rg_tse_log s)\<rparr>)"

definition create_job :: "string \<Rightarrow> (registrar, nat) prog" where
  "create_job worker =
     db_call (\<lambda>s. (Inr (issued s),
       s\<lparr>issued := issued s + 1, rg_jobs := rg_jobs s @ [\<lparr>sj_id = issued s, sj_worker = worker, sj_status = ''running'',
         sj_records = 0, sj_error = None\<rparr>]\<rparr>))"

definition update_job :: "nat \<Rightarrow> string \<Rightarrow> nat \<Rightarrow> err option \<Rightarrow> (registrar, unit) prog" where
  "update_job i status n er =
     sql (\<lambda>s. s\<lparr>rg_jobs := List.map (\<lambda>j. if sj_id j = i then j\<lparr>sj_status := status, sj_records := n, sj_error := er\<rparr> else j) (rg_jobs s)\<rparr>)"

definition new_house_run :: "nat \<Rightarrow> 'st house_run" where
  "new_house_run i = \<lparr>hr_id = i, hr_status = ''running'', hr_stats = None, hr_records = 0, hr_error = None\<rparr>"

definition close_house_run :: "nat \<Rightarrow> string \<Rightarrow> 'st \<Rightarrow> nat \<Rightarrow> err option \<Rightarrow> 'st house_run list \<Rightarrow> 'st house_run list" where
  "close_house_run i status st n er =
     List.map (\<lambda>r. if hr_id r = i then r\<lparr>hr_status := status, hr_stats := Some st, hr_records := n, hr_error := er\<rparr> else r)"

definition create_camara_sync_run :: "(registrar, nat) prog" where
  "create_camara_sync_run =
     db_call (\<lambda>s. (Inr (issued s), s\<lparr>issued := issued s + 1, rg_camara := rg_camara s @ [new_house_run (issued s)]\<rparr>))"

definition finalize_camara_sync_run :: "nat \<Rightarrow> string \<Rightarrow> camara_stats \<Rightarrow> nat \<Rightarrow> err option \<Rightarrow> (registrar, unit) prog" where
  "finalize_camara_sync_run i status st n er = sql (\<lambda>s. s\<lparr>rg_camara := close_house_run i status st n er (rg_camara s)\<rparr>)"

definition create_senado_sync_run :: "(registrar, nat) prog" where
  "create_senado_sync_run =
     db_call (\<lambda>s. (Inr (issued s), s\<lparr>issued := issued s + 1, rg_senado := rg_senado s @ [new_house_run (issued s)]\<rparr>))"

definition finalize_senado_sync_run :: "nat \<Rightarrow> string \<Rightarrow> senado_stats \<Rightarrow> nat \<Rightarrow> err option \<Rightarrow> (registrar, unit) prog" where
  "finalize_senado_sync_run i status st n er = sql (\<lambda>s. s\<lparr>rg_senado := close_house_run i status st n er (rg_senado s)\<rparr>)"

section \<open>Downloads\<close>

definition put_file :: "gostr \<Rightarrow> gostr option \<Rightarrow> (registrar, unit) prog" where
  "put_file path b = modR (\<lambda>s. s\<lparr>rg_files := (rg_files s)(path := b)\<rparr>)"

text \<open>A second attempt asks for what is missing; 206 means the server took that up, 200 that it starts over.\<close>

definition resume_download :: "register_env \<Rightarrow> gostr \<Rightarrow> gostr \<Rightarrow> (registrar, unit) prog" where
  "resume_download e url tmp s =
     (let have = (case rg_files s tmp of None \<Rightarrow> [] | Some b \<Rightarrow> b); t = s\<lparr>rg_requests := rg_requests s + 1\<rparr> in
      case te_cdn e (rg_requests s) url (length have) of
        CdnDown \<Rightarrow> (Inl HttpError, t)
      | CdnAnswer status body whole \<Rightarrow>
          if status \<noteq> 206 \<and> status \<noteq> 200 then (Inl HttpError, t)
          else (if whole then Inr () else Inl HttpError,
                t\<lparr>rg_files := (rg_files t)(tmp \<mapsto> (if status = 206 then have else []) @ body)\<rparr>))"

definition download_retries :: nat where "download_retries = 6"

fun download_from :: "register_env \<Rightarrow> gostr \<Rightarrow> gostr \<Rightarrow> gostr \<Rightarrow> nat \<Rightarrow> (registrar, unit) prog" where
  "download_from e url dest tmp 0 = seqR (put_file tmp None) (throw (Refused ''download: giving up''))"
| "download_from e url dest tmp (Suc left) =
     bindR (attemptR (resume_download e url tmp)) (\<lambda>r.
       case r of
         Inl _ \<Rightarrow> download_from e url dest tmp left
       | Inr _ \<Rightarrow>
           if te_renames e then bindR (getR (\<lambda>s. rg_files s tmp)) (\<lambda>b. seqR (put_file dest b) (put_file tmp None))
           else seqR (put_file tmp None) (throw (Refused ''rename'')))"

definition download_file_if_missing :: "register_env \<Rightarrow> gostr \<Rightarrow> gostr \<Rightarrow> (registrar, unit) prog" where
  "download_file_if_missing e url dest =
     bindR (getR (\<lambda>s. rg_files s dest)) (\<lambda>b.
       if b \<noteq> None \<and> b \<noteq> Some [] then ret () else download_from e url dest (dest @ lit ''.tmp'') download_retries)"

definition archive_name :: "int \<Rightarrow> gostr" where
  "archive_name year = lit ''consulta_cand_'' @ itoa year @ lit ''.zip''"

definition file_join :: "gostr \<Rightarrow> gostr \<Rightarrow> gostr" where
  "file_join dir name = (if dir = [] then name else dir @ [47] @ name)"

definition download_consulta_zip :: "register_env \<Rightarrow> int \<Rightarrow> gostr \<Rightarrow> (registrar, gostr) prog" where
  "download_consulta_zip e year dir =
     (let path = file_join dir (archive_name year) in
      seqR (download_file_if_missing e
              (lit ''https://cdn.tse.jus.br/estatistica/sead/odsele/consulta_cand/'' @ archive_name year) path)
        (ret path))"

definition resolve_zip_path :: "int \<Rightarrow> gostr \<Rightarrow> gostr \<Rightarrow> (registrar, gostr) prog" where
  "resolve_zip_path year zip_dir single =
     (if zip_dir = [] then ret single
      else let c = file_join zip_dir (archive_name year) in
        bindR (getR (\<lambda>s. rg_files s c)) (\<lambda>b. ret (if b = None then [] else c)))"

section \<open>Years\<close>

definition even_years :: "int \<Rightarrow> int \<Rightarrow> int list" where
  "even_years a b = (if b < a then [] else List.map (\<lambda>k. a + 2 * int k) [0..<nat ((b - a) div 2 + 1)])"

definition resolve_years :: "int \<Rightarrow> register_options \<Rightarrow> err + int list" where
  "resolve_years this_year w =
     (let latest = (if this_year mod 2 \<noteq> 0 then this_year - 1 else this_year);
          modes = (if 0 < ro_year w then 1 else 0) + (if 0 < ro_from w \<or> 0 < ro_to w then 1 else 0) + (if ro_all w then 1 else 0 :: nat)
      in
      if modes \<noteq> 1 then Inl (Refused ''choose exactly one mode'')
      else if 0 < ro_year w then
        if ro_year w < 2002 \<or> latest < ro_year w \<or> ro_year w mod 2 \<noteq> 0 then Inl (Refused ''--year out of range'')
        else Inr [ro_year w]
      else if ro_all w then Inr (even_years 2002 latest)
      else if ro_from w \<le> 0 \<or> ro_to w \<le> 0 \<or> ro_to w < ro_from w then Inl (Refused ''invalid range'')
      else if ro_from w mod 2 \<noteq> 0 \<or> ro_to w mod 2 \<noteq> 0 then Inl (Refused ''range mode expects even election years'')
      else if ro_from w < 2002 \<or> latest < ro_to w then Inl (Refused ''range out of range'')
      else Inr (even_years (ro_from w) (ro_to w)))"

section \<open>One year\<close>

definition record_failure :: "register_options \<Rightarrow> nat \<Rightarrow> int \<Rightarrow> err \<Rightarrow> (registrar, unit) prog" where
  "record_failure w job year er =
     whenR (ro_persist w)
       (seqR (ignoreR (update_job job ''failed'' 0 (Some er))) (ignoreR (upsert_tse_import_log year ''failed'' 0 (Some er))))"

definition begin_year :: "register_options \<Rightarrow> int \<Rightarrow> (registrar, nat) prog" where
  "begin_year w year =
     (if ro_persist w
      then bindR (create_job ''tse_csv_import'') (\<lambda>job. seqR (upsert_tse_import_log year ''running'' 0 None) (ret job))
      else ret 0)"

definition persist_year :: "register_options \<Rightarrow> nat \<Rightarrow> int \<Rightarrow> politician_record list \<Rightarrow> (registrar, unit) prog" where
  "persist_year w job year records =
     whenR (ro_persist w)
       (bindR (attemptR (upsert_politicians_from_tse records (ro_batch w))) (\<lambda>r.
          case r of
            Inl er \<Rightarrow> seqR (record_failure w job year er) (throw er)
          | Inr n \<Rightarrow> seqR (update_job job ''success'' n None) (upsert_tse_import_log year ''success'' n None)))"

definition downloads_dir :: "register_options \<Rightarrow> gostr" where
  "downloads_dir w = file_join (ro_work_dir w) (lit ''tse-downloads'')"

definition year_result :: "register_env \<Rightarrow> register_options \<Rightarrow> int \<Rightarrow> gostr option \<Rightarrow> err + import_result" where
  "year_result e w year content =
     import_year_from_zip (te_host e year) year
       (case content of None \<Rightarrow> Inl (Refused ''open zip'') | Some b \<Rightarrow> te_unzip e b)
       \<lparr>io_disk = ro_min_disk w * 1024 * 1024, io_mem = ro_min_mem w * 1024 * 1024,
        io_election = (case resolve_election_id (te_election e) year of Inl _ \<Rightarrow> [] | Inr i \<Rightarrow> i)\<rparr>"

definition import_archive :: "register_env \<Rightarrow> register_options \<Rightarrow> int \<Rightarrow> nat \<Rightarrow> gostr \<Rightarrow> (registrar, unit) prog" where
  "import_archive e w year job path =
     bindR (getR (\<lambda>s. rg_files s path)) (\<lambda>content.
       case year_result e w year content of
         Inl er \<Rightarrow> seqR (record_failure w job year er) (throw er)
       | Inr res \<Rightarrow>
           seqR (whenR (contains path (lit ''tse-downloads'')) (put_file path None))
             (persist_year w job year (ir_records res)))"

text \<open>The directory for downloads is the one failure of a year under way that is not recorded.\<close>

definition year_under_way :: "register_env \<Rightarrow> register_options \<Rightarrow> int \<Rightarrow> nat \<Rightarrow> (registrar, unit) prog" where
  "year_under_way e w year job =
     bindR (resolve_zip_path year (ro_zip_dir w) (ro_consulta w)) (\<lambda>given.
       if given = [] \<and> \<not> te_mkdir e then throw (Refused ''create download dir'')
       else bindR (attemptR (if given = [] then download_consulta_zip e year (downloads_dir w) else ret given)) (\<lambda>r.
         case r of
           Inl er \<Rightarrow> seqR (record_failure w job year er) (throw er)
         | Inr path \<Rightarrow> import_archive e w year job path))"

definition run_year :: "register_env \<Rightarrow> register_options \<Rightarrow> int \<Rightarrow> (registrar, unit) prog" where
  "run_year e w year =
     bindR (if ro_persist w \<and> ro_skip w then is_tse_year_successful year else ret False) (\<lambda>already.
       if already then ret () else bindR (begin_year w year) (year_under_way e w year))"

section \<open>The houses\<close>

text \<open>\<open>None\<close>: the pages of the chamber did not end within the fuel.\<close>

definition camara_sync :: "register_env \<Rightarrow> int \<Rightarrow> int \<Rightarrow> (registrar, unit option) prog" where
  "camara_sync e limit batch =
     (case sync_current_deputies (te_camara e) (te_fuel e) 100 limit of
        None \<Rightarrow> ret None
      | Some (Inl er) \<Rightarrow> throw er
      | Some (Inr (records, st)) \<Rightarrow>
          bindR create_camara_sync_run (\<lambda>run.
          bindR (attemptR (upsert_politicians_from_camara records batch)) (\<lambda>r.
            case r of
              Inl er \<Rightarrow> seqR (ignoreR (finalize_camara_sync_run run ''failed'' st 0 (Some er))) (throw er)
            | Inr n \<Rightarrow> seqR (finalize_camara_sync_run run ''success'' st n None) (ret (Some ())))))"

definition senado_sync :: "register_env \<Rightarrow> int \<Rightarrow> (registrar, unit option) prog" where
  "senado_sync e batch =
     (case sync_current_senators (te_senado e) of
        Inl er \<Rightarrow> throw er
      | Inr (records, st) \<Rightarrow>
          bindR create_senado_sync_run (\<lambda>run.
          bindR (attemptR (upsert_politicians_from_senado (te_text e) records batch)) (\<lambda>r.
            case r of
              Inl er \<Rightarrow> seqR (ignoreR (finalize_senado_sync_run run ''failed'' st 0 (Some er))) (throw er)
            | Inr n \<Rightarrow> seqR (finalize_senado_sync_run run ''success'' st n None) (ret (Some ())))))"

text \<open>The command of either house on its own: without \<open>persist\<close> it only prints what it fetched.\<close>

definition camara_main :: "register_env \<Rightarrow> bool \<Rightarrow> int \<Rightarrow> int \<Rightarrow> (registrar, unit option) prog" where
  "camara_main e persist limit batch =
     (if persist then camara_sync e limit batch
      else case sync_current_deputies (te_camara e) (te_fuel e) 100 limit of
          None \<Rightarrow> ret None | Some (Inl er) \<Rightarrow> throw er | Some (Inr _) \<Rightarrow> ret (Some ()))"

definition senado_main :: "register_env \<Rightarrow> bool \<Rightarrow> int \<Rightarrow> (registrar, unit option) prog" where
  "senado_main e persist batch =
     (if persist then senado_sync e batch
      else case sync_current_senators (te_senado e) of Inl er \<Rightarrow> throw er | Inr _ \<Rightarrow> ret (Some ()))"

definition tse_main :: "register_env \<Rightarrow> register_options \<Rightarrow> (registrar, unit option) prog" where
  "tse_main e w =
     (if (ro_do_camara w \<or> ro_do_senado w) \<and> \<not> ro_persist w then throw (Refused ''invalid flags'')
      else case resolve_years (te_this_year e) w of
          Inl er \<Rightarrow> throw er
        | Inr years \<Rightarrow>
            seqR (forR (run_year e w) years)
              (bindR (if ro_persist w \<and> ro_do_camara w then camara_sync e 0 (ro_batch w) else ret (Some ())) (\<lambda>r.
                 case r of
                   None \<Rightarrow> ret None
                 | Some _ \<Rightarrow> if ro_persist w \<and> ro_do_senado w then senado_sync e (ro_batch w) else ret (Some ()))))"

end
