(* ===== verification/Election_Props.thy ===== *)
theory Election_Props
  imports Election "HOL-Library.Multiset"
begin

text \<open>
  Whom an import of a year's files returns: of every candidate, the row of the latest round that calls
  them elected, and that row's document only.
\<close>

section \<open>The rows that count\<close>

definition elected_row :: "(gostr \<Rightarrow> nat option) \<Rightarrow> err + gostr list \<Rightarrow> winners" where
  "elected_row idx r =
     (case r of Inl _ \<Rightarrow> []
      | Inr row \<Rightarrow> (case fst (scan_consulta_row row idx no_stats) of None \<Rightarrow> [] | Some kw \<Rightarrow> [kw]))"

definition elected_in :: "csv_doc \<Rightarrow> winners" where
  "elected_in doc =
     (case doc of Inr header # rows \<Rightarrow> concat (List.map (elected_row (row_to_index header)) rows) | _ \<Rightarrow> [])"

definition elected :: "files \<Rightarrow> winners" where
  "elected fs = concat (List.map (\<lambda>(_, doc). elected_in doc) fs)"

text \<open>The first of the rows of the latest round of a candidate.\<close>

definition wins :: "winners \<Rightarrow> gostr \<Rightarrow> winner \<Rightarrow> bool" where
  "wins es k w \<longleftrightarrow>
     (\<exists>before after. es = before @ (k, w) # after \<and>
       (\<forall>x. (k, x) \<in> set before \<longrightarrow> wr_turn x < wr_turn w) \<and> (\<forall>x. (k, x) \<in> set after \<longrightarrow> wr_turn x \<le> wr_turn w))"

lemma scan_any_stats: "fst (scan_consulta_row row idx st) = fst (scan_consulta_row row idx no_stats)"
  by (simp add: scan_consulta_row_def Let_def split: option.split)

lemma scan_rows_elected:
  "scan_rows idx rows ws st = Inr (ws', st') \<Longrightarrow> ws' = foldl keep_latest_turn ws (concat (List.map (elected_row idx) rows))"
proof (induction idx rows ws st rule: scan_rows.induct)
  case (3 idx row rows ws st)
  then show ?case
    using scan_any_stats [of row idx "st\<lparr>is_read := is_read st + 1\<rparr>"]
    by (auto simp: elected_row_def split: prod.splits option.splits)
qed simp_all

lemma read_consulta_elected:
  "read_consulta doc ws st = Inr (ws', st') \<Longrightarrow> ws' = foldl keep_latest_turn ws (elected_in doc)"
  by (auto simp: read_consulta_def elected_in_def Let_def dest: scan_rows_elected split: list.splits sum.splits if_splits)

lemma process_files_elected:
  "process_files h o' fs ws st = Inr (ws', st') \<Longrightarrow> ws' = foldl keep_latest_turn ws (elected fs)"
proof (induction h o' fs ws st rule: process_files.induct)
  case (2 h o' name doc fs ws st)
  then obtain ws1 st1 where r: "read_consulta doc ws st = Inr (ws1, st1)"
    by (auto split: sum.splits)
  from 2 r have "ws' = foldl keep_latest_turn ws1 (elected fs)" by (auto simp: Let_def split: if_splits)
  with read_consulta_elected [OF r] show ?case by (simp add: elected_def)
qed (simp add: elected_def)

section \<open>The latest round\<close>

lemma keep_latest_lookup:
  "map_of (keep_latest_turn ws (k, w)) = (map_of ws)(k \<mapsto>
     (case map_of ws k of None \<Rightarrow> w | Some old \<Rightarrow> if wr_turn old < wr_turn w then w else old))"
proof -
  have put: "map_of (List.map (\<lambda>(j, x). if j = k then (k, w) else (j, x)) ws) =
      (\<lambda>j. if j = k then map_option (\<lambda>_. w) (map_of ws k) else map_of ws j)"
    by (induction ws) auto
  show ?thesis
    by (cases "map_of ws k") (auto simp: keep_latest_turn_def put map_add_def fun_eq_iff split: option.splits)
qed

lemma keep_latest_keys:
  "List.map fst (keep_latest_turn ws (k, w)) = List.map fst ws @ (if map_of ws k = None then [k] else [])"
proof -
  have "List.map fst (List.map (\<lambda>(j, x). if j = k then (k, w) else (j, x)) ws) = List.map fst ws"
    by (induction ws) auto
  then show ?thesis by (simp add: keep_latest_turn_def split: option.split del: List.map_map)
qed

lemma keep_latest_distinct:
  assumes "distinct (List.map fst ws)" shows "distinct (List.map fst (foldl keep_latest_turn ws es))"
  using assms
proof (induction es arbitrary: ws)
  case (Cons e es)
  obtain k w where e: "e = (k, w)" by fastforce
  have "distinct (List.map fst (keep_latest_turn ws (k, w)))"
    using Cons.prems by (simp add: keep_latest_keys map_of_eq_None_iff)
  with Cons.IH e show ?case by simp
qed simp

lemma wins_unique:
  assumes "wins es k v" and "wins es k w" shows "v = w"
proof -
  obtain a b where 1: "es = a @ (k, v) # b" "\<And>x. (k, x) \<in> set a \<Longrightarrow> wr_turn x < wr_turn v" "\<And>x. (k, x) \<in> set b \<Longrightarrow> wr_turn x \<le> wr_turn v"
    using assms(1) by (auto simp: wins_def)
  obtain c d where 2: "es = c @ (k, w) # d" "\<And>x. (k, x) \<in> set c \<Longrightarrow> wr_turn x < wr_turn w" "\<And>x. (k, x) \<in> set d \<Longrightarrow> wr_turn x \<le> wr_turn w"
    using assms(2) by (auto simp: wins_def)
  from 1(1) 2(1) have "a @ (k, v) # b = c @ (k, w) # d" by simp
  then consider "a = c" "v = w" | "(k, w) \<in> set b" "(k, v) \<in> set c" | "(k, v) \<in> set d" "(k, w) \<in> set a"
    by (auto simp: append_eq_append_conv2 append_eq_Cons_conv Cons_eq_append_conv)
  then show ?thesis using 1(2,3) 2(2,3) by cases (fastforce dest: leD)+
qed

lemma latest_wins:
  "case map_of (foldl keep_latest_turn [] es) k of None \<Rightarrow> k \<notin> fst ` set es | Some w \<Rightarrow> wins es k w"
proof (induction es rule: rev_induct)
  case (snoc e es)
  obtain j x where e: "e = (j, x)" by fastforce
  let ?ws = "foldl keep_latest_turn [] es"
  show ?case
  proof (cases "j = k")
    case False
    then have same: "map_of (foldl keep_latest_turn [] (es @ [e])) k = map_of ?ws k" by (simp add: e keep_latest_lookup)
    have "wins (es @ [e]) k w" if "wins es k w" for w
    proof -
      from that obtain a b where "es = a @ (k, w) # b" "\<forall>x. (k, x) \<in> set a \<longrightarrow> wr_turn x < wr_turn w" "\<forall>x. (k, x) \<in> set b \<longrightarrow> wr_turn x \<le> wr_turn w"
        by (auto simp: wins_def)
      then show ?thesis unfolding wins_def using False by (intro exI [of _ a] exI [of _ "b @ [e]"]) (auto simp: e)
    qed
    with snoc.IH same False show ?thesis by (auto simp: e split: option.splits)
  next
    case True
    show ?thesis
    proof (cases "map_of ?ws k")
      case None
      with snoc.IH have "k \<notin> fst ` set es" by simp
      then have "wins (es @ [e]) k x"
        unfolding wins_def using True by (intro exI [of _ es] exI [of _ "[]"]) (force simp: e)
      with None True show ?thesis by (simp add: e keep_latest_lookup)
    next
      case (Some old)
      with snoc.IH have "wins es k old" by simp
      then obtain a b where ab: "es = a @ (k, old) # b" "\<forall>x. (k, x) \<in> set a \<longrightarrow> wr_turn x < wr_turn old"
        "\<forall>x. (k, x) \<in> set b \<longrightarrow> wr_turn x \<le> wr_turn old" by (auto simp: wins_def)
      show ?thesis
      proof (cases "wr_turn old < wr_turn x")
        case later: True
        have "\<forall>y. (k, y) \<in> set es \<longrightarrow> wr_turn y < wr_turn x" using ab later by fastforce
        then have "wins (es @ [e]) k x" unfolding wins_def using True by (intro exI [of _ es] exI [of _ "[]"]) (simp add: e)
        with Some True later show ?thesis by (simp add: e keep_latest_lookup)
      next
        case False
        then have "wins (es @ [e]) k old"
          unfolding wins_def using ab True by (intro exI [of _ a] exI [of _ "b @ [e]"]) (auto simp: e)
        with Some True False show ?thesis by (simp add: e keep_latest_lookup)
      qed
    qed
  qed
qed simp

lemma latest_iff: "map_of (foldl keep_latest_turn [] es) k = Some w \<longleftrightarrow> wins es k w"
proof
  show "map_of (foldl keep_latest_turn [] es) k = Some w \<Longrightarrow> wins es k w" using latest_wins [where es = es and k = k] by simp
next
  assume w: "wins es k w"
  then have "k \<in> fst ` set es" by (force simp: wins_def)
  with latest_wins [where es = es and k = k] w wins_unique show "map_of (foldl keep_latest_turn [] es) k = Some w"
    by (auto split: option.splits)
qed

lemma latest_set: "(k, w) \<in> set (foldl keep_latest_turn [] es) \<longleftrightarrow> wins es k w"
proof -
  have "distinct (List.map fst (foldl keep_latest_turn [] es))" by (rule keep_latest_distinct) simp
  then show ?thesis using latest_iff [where es = es and k = k and w = w] by (simp add: map_of_eq_Some_iff)
qed

section \<open>Properties\<close>

text \<open>An import that succeeds returns one record for each candidate (one number within one state) whom
  some row of the year's files calls elected to a tracked office, and who shows a CPF: the record of the
  first row of their latest round, with the document of that very row. Nobody else is returned.\<close>

theorem import_returns_winners:
  assumes "import_year_from_zip h year archive o' = Inr res" and "\<And>ws. mset (th_order h ws) = mset ws"
  shows "\<exists>entries fs. archive = Inr entries \<and> unzip_and_prune entries [] = Inr fs \<and>
    set (ir_records res) = {r. \<exists>k w. wins (elected (collect_consulta_files year fs)) k w \<and> normalize_null (wr_cpf w) \<noteq> [] \<and>
      r = build_record (io_election o') w}"
proof -
  obtain entries fs ws st where z: "archive = Inr entries" "unzip_and_prune entries [] = Inr fs"
    and p: "ws = foldl keep_latest_turn [] (elected (collect_consulta_files year fs))"
    and res: "res = build_result (th_order h ws) (st\<lparr>is_winning := length ws\<rparr>) (io_election o')"
    using assms(1) by (auto simp: import_year_from_zip_def Let_def dest: process_files_elected split: if_splits sum.splits)
  have "set (th_order h ws) = set ws" using assms(2) [of ws] by (metis set_mset_mset)
  then have "set (ir_records res) = {r. \<exists>k w. (k, w) \<in> set ws \<and> normalize_null (wr_cpf w) \<noteq> [] \<and> r = build_record (io_election o') w}"
    unfolding res build_result_def Let_def by force
  with z show ?thesis unfolding p latest_set by blast
qed

definition demo_row :: "string \<Rightarrow> string \<Rightarrow> string \<Rightarrow> string \<Rightarrow> err + gostr list" where
  "demo_row sq cpf turn result =
     Inr (List.map lit [sq, cpf, turn, ''SENADOR'', result, ''2022'', ''BA'', ''ABC'', ''ANA LIMA'', ''ANA'', ''#NULO#''])"

definition demo_entry :: zip_entry where
  "demo_entry = \<lparr>ze_name = lit ''x/consulta_cand_2022_BA.csv'', ze_dir = False,
     ze_file = Inr [Inr consulta_headers, demo_row ''7'' ''12345678901'' ''1'' ''QP'',
                    demo_row ''7'' ''12345678901'' ''2'' ''ELEITO'', demo_row ''8'' ''98765432100'' ''1'' ''SUPLENTE'',
                    demo_row ''9'' ''-1'' ''1'' ''ELEITO'']\<rparr>"

definition demo_host :: tse_host where
  "demo_host = \<lparr>th_dirs = True, th_disk = (\<lambda>_. Some (1048576, 4096)), th_mem = (\<lambda>_. None), th_removes = (\<lambda>_. True),
     th_order = rev\<rparr>"

definition demo_import :: import_options where
  "demo_import = \<lparr>io_disk = 0, io_mem = 0, io_election = lit ''2040602022''\<rparr>"

theorem import_returns_winners_witness:
  "\<exists>res fs. import_year_from_zip demo_host 2022 (Inr [demo_entry]) demo_import = Inr res \<and>
     unzip_and_prune [demo_entry] [] = Inr fs \<and> List.map po_cpf (ir_records res) = [lit ''12345678901''] \<and>
     set (ir_records res) = {r. \<exists>k w. wins (elected (collect_consulta_files 2022 fs)) k w \<and> normalize_null (wr_cpf w) \<noteq> [] \<and>
       r = build_record (lit ''2040602022'') w}"
proof -
  have "(case import_year_from_zip demo_host 2022 (Inr [demo_entry]) demo_import of
      Inl _ \<Rightarrow> False | Inr res \<Rightarrow> List.map po_cpf (ir_records res) = [lit ''12345678901''])" by code_simp
  then obtain res where r: "import_year_from_zip demo_host 2022 (Inr [demo_entry]) demo_import = Inr res"
    "List.map po_cpf (ir_records res) = [lit ''12345678901'']" by (auto split: sum.splits)
  have "mset (th_order demo_host ws) = mset ws" for ws by (simp add: demo_host_def)
  from import_returns_winners [OF r(1) this] r show ?thesis by (auto simp: demo_import_def)
qed

end
