(* ===== verification/Politicians_Props.thy ===== *)
theory Politicians_Props
  imports Politicians Election_Props
begin

text \<open>
  What the statements on politicians keep and reach: an import is settled after one pass, a portrait from
  elsewhere is never replaced by the court's, names and addresses only accumulate.
\<close>

section \<open>One node and the rows that match it\<close>

definition row_step :: "politician_record \<Rightarrow> node \<Rightarrow> node" where
  "row_step r n = (if has_label ''Politician'' n \<and> prop_is ''cpf'' (PStr (po_cpf r)) n then tse_facts r n else n)"

definition rows_on :: "politician_record list \<Rightarrow> node \<Rightarrow> node" where
  "rows_on rs n = foldl (\<lambda>n r. row_step r n) n rs"

lemma tse_facts_sel [simp]:
  "n_key (tse_facts r n) = n_key n" "n_labels (tse_facts r n) = n_labels n" "has_label l (tse_facts r n) = has_label l n"
  "n_props (tse_facts r n) ''id'' = n_props n ''id''" "n_props (tse_facts r n) ''cpf'' = n_props n ''cpf''"
  "prop_is ''cpf'' v (tse_facts r n) = prop_is ''cpf'' v n"
  by (simp_all add: tse_facts_def tse_photo_def tse_lists_def tse_names_def upd_props_other has_label_def prop_is_def)

lemma row_step_sel [simp]:
  "n_key (row_step r n) = n_key n" "has_label l (row_step r n) = has_label l n"
  "n_props (row_step r n) ''id'' = n_props n ''id''" "prop_is ''cpf'' v (row_step r n) = prop_is ''cpf'' v n"
  by (simp_all add: row_step_def prop_is_def)

lemma rows_on_sel [simp]:
  "n_key (rows_on rs n) = n_key n" "has_label l (rows_on rs n) = has_label l n"
  "n_props (rows_on rs n) ''id'' = n_props n ''id''" "prop_is ''cpf'' v (rows_on rs n) = prop_is ''cpf'' v n"
  unfolding rows_on_def by (induction rs arbitrary: n) simp_all

lemma rows_on_simps [simp]: "rows_on [] n = n" "rows_on (r # rs) n = rows_on rs (row_step r n)"
  by (simp_all add: rows_on_def)

section \<open>One pass settles a node\<close>

definition listed :: "pval option \<Rightarrow> gostr list \<Rightarrow> bool" where
  "listed v xs = (case v of Some (PList l) \<Rightarrow> set xs \<subseteq> set l | None \<Rightarrow> False | Some _ \<Rightarrow> True)"

definition settled :: "politician_record \<Rightarrow> node \<Rightarrow> bool" where
  "settled r n \<longleftrightarrow> listed (n_props n ''name_aliases'') (po_aliases r) \<and> listed (n_props n ''tse_profile_urls'') (po_urls r) \<and>
     \<not> take_photo r n"

lemma add_missing_set: "set (add_missing l xs) = set l \<union> set xs"
  unfolding add_missing_def by (induction xs arbitrary: l) auto

lemma add_missing_present: "set xs \<subseteq> set l \<Longrightarrow> add_missing l xs = l"
  unfolding add_missing_def by (induction xs) auto

lemma listed_grown: "listed (grown n k xs) xs"
  by (auto simp: listed_def grown_def add_missing_set split: option.split pval.split)

lemma listed_mono: "listed (n_props n k) xs \<Longrightarrow> listed (grown n k ys) xs"
  by (auto simp: listed_def grown_def add_missing_set split: option.splits pval.splits)

lemma grown_listed: "listed (n_props n k) xs \<Longrightarrow> grown n k xs = n_props n k"
  by (auto simp: listed_def grown_def add_missing_present split: option.splits pval.splits)

lemma tse_facts_lists:
  "n_props (tse_facts r n) ''name_aliases'' = grown n ''name_aliases'' (po_aliases r)"
  "n_props (tse_facts r n) ''tse_profile_urls'' = grown n ''tse_profile_urls'' (po_urls r)"
  by (simp_all add: tse_facts_def tse_photo_def tse_lists_def tse_names_def grown_def upd_props_def)

lemma take_photo_cong:
  "n_props m ''photo_url'' = n_props n ''photo_url'' \<Longrightarrow> n_props m ''photo_source'' = n_props n ''photo_source'' \<Longrightarrow>
     n_props m ''photo_year'' = n_props n ''photo_year'' \<Longrightarrow> take_photo r m = take_photo r n"
  by (simp add: take_photo_def)

lemma take_photo_lists: "take_photo r (tse_lists q (tse_names q n)) = take_photo r n"
  by (rule take_photo_cong) (simp_all add: tse_lists_def tse_names_def upd_props_other)

lemma photo_taken:
  assumes "take_photo q n"
  shows "n_props (tse_facts q n) ''photo_url'' = Some (PStr (po_photo q))"
    "n_props (tse_facts q n) ''photo_source'' = Some (PStr photo_source_tse)"
    "n_props (tse_facts q n) ''photo_year'' = Some (PNum (of_int (po_year q)))"
  using assms by (simp_all add: tse_facts_def tse_photo_def take_photo_lists upd_props_def)

lemma photo_left:
  assumes "\<not> take_photo q n" and "k \<in> {''photo_url'', ''photo_source'', ''photo_year'', ''photo_attribution''}"
  shows "n_props (tse_facts q n) k = n_props n k"
proof -
  have "tse_facts q n = tse_lists q (tse_names q n)"
    using assms(1) by (simp add: tse_facts_def tse_photo_def take_photo_lists)
  with assms(2) show ?thesis by (auto simp: tse_lists_def tse_names_def upd_props_other)
qed

lemma settled_row: "settled r (tse_facts r n)"
proof -
  have "\<not> take_photo r (tse_facts r n)"
  proof (cases "take_photo r n")
    case True
    with photo_taken [OF True] show ?thesis by (simp add: take_photo_def)
  next
    case False
    then have "take_photo r (tse_facts r n) = take_photo r n" by (intro take_photo_cong) (simp_all add: photo_left)
    with False show ?thesis by simp
  qed
  then show ?thesis by (simp add: settled_def tse_facts_lists listed_grown)
qed

lemma settled_mono:
  assumes "settled r n" shows "settled r (tse_facts q n)"
proof -
  have "\<not> take_photo r (tse_facts q n)"
  proof (cases "take_photo q n")
    case True
    from assms have r: "\<not> take_photo r n" by (simp add: settled_def)
    from True have q: "po_photo q \<noteq> []" by (simp add: take_photo_def)
    show ?thesis
    proof
      assume t: "take_photo r (tse_facts q n)"
      with photo_taken [OF True] q have "po_photo r \<noteq> []" "po_year q < po_year r" by (auto simp: take_photo_def)
      with True r show False by (auto simp: take_photo_def split: option.splits pval.splits)
    qed
  next
    case False
    then have "take_photo r (tse_facts q n) = take_photo r n" by (intro take_photo_cong) (simp_all add: photo_left)
    with assms show ?thesis by (simp add: settled_def)
  qed
  with assms show ?thesis by (simp add: settled_def tse_facts_lists listed_mono)
qed

lemma settled_names: "settled r (tse_names q n) = settled r n"
  using take_photo_cong [of "tse_names q n" n r] by (simp add: settled_def tse_names_def upd_props_other)

lemma upd_same: "(\<And>k v. (k, v) \<in> set kvs \<Longrightarrow> n_props n k = v) \<Longrightarrow> upd_props kvs n = n"
proof -
  have "(\<And>k v. (k, v) \<in> set kvs \<Longrightarrow> p k = v) \<Longrightarrow> set_props kvs p = p" for p
  proof (induction kvs arbitrary: p)
    case (Cons kv kvs)
    obtain k v where kv: "kv = (k, v)" by fastforce
    with Cons.prems have "p(k := v) = p" by (auto simp: fun_eq_iff)
    moreover have "set_props kvs p = p" using Cons by auto
    ultimately show ?case by (simp add: kv)
  qed simp
  then show "(\<And>k v. (k, v) \<in> set kvs \<Longrightarrow> n_props n k = v) \<Longrightarrow> upd_props kvs n = n" by (simp add: upd_props_def)
qed

lemma settled_facts:
  assumes "settled r n" shows "tse_facts r n = tse_names r n"
proof -
  have "settled r (tse_names r n)" using assms by (simp add: settled_names)
  then have "tse_lists r (tse_names r n) = tse_names r n" "\<not> take_photo r (tse_names r n)"
    unfolding tse_lists_def settled_def by (auto intro!: upd_same simp: grown_listed)
  then show ?thesis by (simp add: tse_facts_def tse_photo_def)
qed

lemma names_last: "tse_names q (tse_names r n) = tse_names q n"
  by (simp add: tse_names_def upd_props_def fun_upd_twist)

lemma names_kept: "tse_names r (tse_facts r n) = tse_facts r n"
  unfolding tse_names_def
  by (rule upd_same) (auto simp: tse_facts_def tse_photo_def tse_lists_def tse_names_def upd_props_def)

definition matching :: "node \<Rightarrow> politician_record list \<Rightarrow> politician_record list" where
  "matching n rs = (if has_label ''Politician'' n then filter (\<lambda>r. prop_is ''cpf'' (PStr (po_cpf r)) n) rs else [])"

lemma matching_step [simp]: "matching (row_step r n) rs = matching n rs"
  by (simp add: matching_def)

lemma rows_on_matching: "rows_on rs n = foldl (\<lambda>n r. tse_facts r n) n (matching n rs)"
proof (induction rs arbitrary: n)
  case (Cons r rs)
  have "matching (tse_facts r n) rs = matching n rs" by (simp add: matching_def)
  with Cons.IH [of n] Cons.IH [of "tse_facts r n"] show ?case by (auto simp: row_step_def matching_def)
qed (simp add: matching_def)

lemma facts_settle:
  assumes "r \<in> set ms \<or> settled r n" shows "settled r (foldl (\<lambda>n r. tse_facts r n) n ms)"
  using assms
proof (induction ms arbitrary: n)
  case (Cons q ms)
  then show ?case using settled_row settled_mono by auto
qed simp

lemma facts_again:
  assumes "\<And>r. r \<in> set ms \<Longrightarrow> settled r n" shows "foldl (\<lambda>n r. tse_facts r n) n ms = (if ms = [] then n else tse_names (last ms) n)"
  using assms
proof (induction ms arbitrary: n)
  case (Cons q ms)
  have "tse_facts q n = tse_names q n" by (rule settled_facts) (use Cons.prems in simp)
  moreover have "settled r (tse_names q n)" if "r \<in> set ms" for r using Cons.prems that by (simp add: settled_names)
  ultimately show ?case using Cons.IH [of "tse_names q n"] by (simp add: names_last)
qed simp

lemma facts_names:
  assumes "ms \<noteq> []" shows "tse_names (last ms) (foldl (\<lambda>n r. tse_facts r n) n ms) = foldl (\<lambda>n r. tse_facts r n) n ms"
  using assms by (cases ms rule: rev_cases) (simp_all add: names_kept)

lemma rows_on_twice: "rows_on rs (rows_on rs n) = rows_on rs n"
proof -
  let ?ms = "matching n rs" and ?f = "foldl (\<lambda>n r. tse_facts r n)"
  have "matching (rows_on rs n) rs = ?ms" by (simp add: matching_def)
  then have "rows_on rs (rows_on rs n) = ?f (?f n ?ms) ?ms" using rows_on_matching by simp
  also have "\<dots> = (if ?ms = [] then ?f n ?ms else tse_names (last ?ms) (?f n ?ms))"
    by (rule facts_again) (simp add: facts_settle)
  also have "\<dots> = ?f n ?ms" by (simp add: facts_names)
  finally show ?thesis by (simp add: rows_on_matching [of rs n])
qed

section \<open>A pass over the graph\<close>

definition politician_in :: "graph \<Rightarrow> gostr \<Rightarrow> bool" where
  "politician_in g c \<longleftrightarrow> match_nodes ''Politician'' (prop_is ''cpf'' (PStr c)) g \<noteq> []"

definition pass :: "('r \<Rightarrow> graph \<Rightarrow> graph \<times> nat) \<Rightarrow> 'r list \<Rightarrow> graph \<Rightarrow> graph" where
  "pass f rs g = foldl (\<lambda>g r. fst (f r g)) g rs"

lemma merge_rows_pass: "fst (merge_rows f rs g) = pass f rs g"
proof -
  have "fst (foldl (\<lambda>(g, n) r. case f r g of (g', k) \<Rightarrow> (g', n + k)) (g, n) rs) = foldl (\<lambda>g r. fst (f r g)) g rs" for n
    by (induction rs arbitrary: g n) (simp_all split: prod.split)
  then show ?thesis by (simp add: merge_rows_def pass_def)
qed

lemma pass_simps [simp]: "pass f [] g = g" "pass f (r # rs) g = pass f rs (fst (f r g))" "pass f (rs @ qs) g = pass f qs (pass f rs g)"
  by (simp_all add: pass_def)

definition base_node :: "politician_record \<Rightarrow> graph \<Rightarrow> node" where
  "base_node r g =
     \<lparr>n_key = g_next g, n_labels = [''Politician''],
      n_props = set_props [(''id'', Some (PStr (deterministic_politician_id (po_cpf r)))), (''active'', Some (PBool False))]
        (Map.empty(''cpf'' := Some (PStr (po_cpf r))))\<rparr>"

lemma merge_tse_row_fst:
  "fst (merge_tse_row r g) =
     (if politician_in g (po_cpf r) then g\<lparr>g_nodes := List.map (row_step r) (g_nodes g)\<rparr>
      else g\<lparr>g_nodes := List.map (row_step r) (g_nodes g @ [base_node r g]), g_next := g_next g + 1\<rparr>)"
proof (cases "politician_in g (po_cpf r)")
  case True
  then show ?thesis
    by (simp add: merge_tse_row_def merge_node_def politician_in_def map_nodes_def row_step_def [abs_def])
next
  case False
  then have none: "n \<in> set (g_nodes g) \<Longrightarrow> row_step r n = n" for n
    by (auto simp: politician_in_def match_nodes_def filter_empty_conv row_step_def)
  have "row_step r (base_node r g) = tse_facts r (base_node r g)"
    by (simp add: row_step_def base_node_def has_label_def prop_is_def)
  with False show ?thesis
    by (simp add: merge_tse_row_def merge_node_def politician_in_def Let_def base_node_def map_idI none)
qed

lemma politician_in_iff:
  "politician_in g c \<longleftrightarrow> (\<exists>n \<in> set (g_nodes g). has_label ''Politician'' n \<and> prop_is ''cpf'' (PStr c) n)"
  by (auto simp: politician_in_def match_nodes_def filter_empty_conv)

lemma row_kept: "politician_in (fst (merge_tse_row r g)) (po_cpf r)"
proof (cases "politician_in g (po_cpf r)")
  case True
  then obtain n where n: "n \<in> set (g_nodes g)" "has_label ''Politician'' n \<and> prop_is ''cpf'' (PStr (po_cpf r)) n"
    by (auto simp: politician_in_iff)
  then have "has_label ''Politician'' (row_step r n) \<and> prop_is ''cpf'' (PStr (po_cpf r)) (row_step r n)" by simp
  with n(1) True show ?thesis unfolding merge_tse_row_fst politician_in_iff by auto
next
  case False
  have "has_label ''Politician'' (base_node r g)" "prop_is ''cpf'' (PStr (po_cpf r)) (base_node r g)"
    by (simp_all add: base_node_def has_label_def prop_is_def)
  with False show ?thesis by (simp add: merge_tse_row_fst politician_in_iff)
qed

text \<open>The nodes after a pass: the old ones and the new ones, each with all the rows that match it.\<close>

lemma pass_nodes:
  "\<exists>ms. pass merge_tse_row rs g = g\<lparr>g_nodes := List.map (rows_on rs) (g_nodes g @ ms), g_next := g_next g + length ms\<rparr> \<and>
     (\<forall>m \<in> set ms. \<exists>r \<in> set rs. prop_is ''cpf'' (PStr (po_cpf r)) m \<and> \<not> politician_in g (po_cpf r))"
proof (induction rs arbitrary: g)
  case Nil
  show ?case by (intro exI [of _ "[]"]) simp
next
  case (Cons r rs)
  let ?h = "fst (merge_tse_row r g)"
  obtain ms where ms: "pass merge_tse_row rs ?h = ?h\<lparr>g_nodes := List.map (rows_on rs) (g_nodes ?h @ ms), g_next := g_next ?h + length ms\<rparr>"
    and new: "\<forall>m \<in> set ms. \<exists>q \<in> set rs. prop_is ''cpf'' (PStr (po_cpf q)) m \<and> \<not> politician_in ?h (po_cpf q)"
    using Cons.IH by blast
  have kept: "politician_in ?h c" if "politician_in g c" for c
  proof -
    have "\<exists>n \<in> set (g_nodes g). has_label ''Politician'' n \<and> prop_is ''cpf'' (PStr c) n"
      using that by (auto simp: politician_in_def match_nodes_def filter_empty_conv)
    then have "\<exists>n \<in> set (g_nodes ?h). has_label ''Politician'' n \<and> prop_is ''cpf'' (PStr c) n"
      unfolding merge_tse_row_fst by auto
    then show ?thesis by (auto simp: politician_in_def match_nodes_def filter_empty_conv)
  qed
  have own: "politician_in ?h (po_cpf r)" by (rule row_kept)
  have still: "row_step r m = m" if "m \<in> set ms" for m
    using new that own by (auto simp: row_step_def prop_is_def)
  then have same: "List.map (rows_on rs) ms = List.map (rows_on (r # rs)) ms" by simp
  have fresh: "\<forall>m \<in> set ms. \<exists>q \<in> set (r # rs). prop_is ''cpf'' (PStr (po_cpf q)) m \<and> \<not> politician_in g (po_cpf q)"
    using new kept by fastforce
  show ?case
  proof (cases "politician_in g (po_cpf r)")
    case True
    have "pass merge_tse_row (r # rs) g =
        g\<lparr>g_nodes := List.map (rows_on (r # rs)) (g_nodes g @ ms), g_next := g_next g + length ms\<rparr>"
      using ms True same by (simp add: merge_tse_row_fst)
    with fresh show ?thesis by blast
  next
    case False
    let ?b = "base_node r g"
    have "pass merge_tse_row (r # rs) g =
        g\<lparr>g_nodes := List.map (rows_on (r # rs)) (g_nodes g @ ?b # ms), g_next := g_next g + length (?b # ms)\<rparr>"
      using ms False same by (simp add: merge_tse_row_fst)
    moreover have "prop_is ''cpf'' (PStr (po_cpf r)) ?b" by (simp add: base_node_def prop_is_def)
    with False fresh have "\<forall>m \<in> set (?b # ms). \<exists>q \<in> set (r # rs). prop_is ''cpf'' (PStr (po_cpf q)) m \<and> \<not> politician_in g (po_cpf q)"
      by simp
    ultimately show ?thesis by blast
  qed
qed

lemma pass_keeps: "politician_in g c \<Longrightarrow> politician_in (pass merge_tse_row rs g) c"
proof -
  assume "politician_in g c"
  then obtain n where n: "n \<in> set (g_nodes g)" "has_label ''Politician'' n \<and> prop_is ''cpf'' (PStr c) n"
    by (auto simp: politician_in_iff)
  then have "rows_on rs n \<in> set (g_nodes (pass merge_tse_row rs g))" using pass_nodes [of rs g] by auto
  moreover have "has_label ''Politician'' (rows_on rs n) \<and> prop_is ''cpf'' (PStr c) (rows_on rs n)" using n(2) by simp
  ultimately show ?thesis unfolding politician_in_iff by blast
qed

lemma pass_reaches: "r \<in> set rs \<Longrightarrow> politician_in (pass merge_tse_row rs g) (po_cpf r)"
proof (induction rs arbitrary: g)
  case (Cons q rs)
  then show ?case using pass_keeps [OF row_kept [of r g], of rs] by auto
qed simp

lemma pass_twice: "pass merge_tse_row rs (pass merge_tse_row rs g) = pass merge_tse_row rs g"
proof -
  let ?h = "pass merge_tse_row rs g"
  obtain ms where ms: "?h = g\<lparr>g_nodes := List.map (rows_on rs) (g_nodes g @ ms), g_next := g_next g + length ms\<rparr>"
    using pass_nodes [of rs g] by blast
  obtain ns where ns: "pass merge_tse_row rs ?h = ?h\<lparr>g_nodes := List.map (rows_on rs) (g_nodes ?h @ ns), g_next := g_next ?h + length ns\<rparr>"
    and new: "\<forall>m \<in> set ns. \<exists>r \<in> set rs. prop_is ''cpf'' (PStr (po_cpf r)) m \<and> \<not> politician_in ?h (po_cpf r)"
    using pass_nodes [of rs ?h] by blast
  have "ns = []" using new pass_reaches [of _ rs g] by (cases ns) auto
  moreover have "List.map (rows_on rs) (g_nodes ?h) = g_nodes ?h" by (simp add: ms rows_on_twice)
  ultimately show ?thesis using ns by simp
qed

section \<open>The batches\<close>

lemma concat_batches: "0 < n \<Longrightarrow> concat (batches n rs) = rs"
  by (induction n rs rule: batches.induct) (simp add: batches.simps)

lemma batch_size_pos: "0 < batch_size b"
  by (simp add: batch_size_def)

lemma upsert_batches_ok: "upsert_batches f bs n s = (Inr k, t) \<Longrightarrow> graph t = pass f (concat bs) (graph s)"
proof (induction bs arbitrary: n s)
  case (Cons b bs)
  then obtain a u where u: "cypher (merge_rows f b) s = (Inr a, u)" and t: "upsert_batches f bs (n + a) u = (Inr k, t)"
    by (auto simp: bindR_Inr)
  have "graph u = pass f b (graph s)" using cypher_result [OF u] merge_rows_pass [of f b "graph s"] by simp
  with Cons.IH [OF t] show ?case by simp
qed simp

lemma upsert_tse_ok: "upsert_politicians_from_tse rs b s = (Inr k, t) \<Longrightarrow> graph t = pass merge_tse_row rs (graph s)"
  unfolding upsert_politicians_from_tse_def
  by (drule upsert_batches_ok) (simp add: concat_batches batch_size_pos)

section \<open>What an import leaves of a politician\<close>

text \<open>A portrait: a photo that is not the court's.\<close>

definition portrait :: "node \<Rightarrow> bool" where
  "portrait n \<longleftrightarrow> n_props n ''photo_url'' \<noteq> None \<and> n_props n ''photo_url'' \<noteq> Some (PStr []) \<and>
     n_props n ''photo_source'' \<noteq> Some (PStr photo_source_tse)"

definition same_photo :: "node \<Rightarrow> node \<Rightarrow> bool" where
  "same_photo n m \<longleftrightarrow> n_props m ''photo_url'' = n_props n ''photo_url'' \<and> n_props m ''photo_source'' = n_props n ''photo_source'' \<and>
     n_props m ''photo_attribution'' = n_props n ''photo_attribution'' \<and> n_props m ''photo_year'' = n_props n ''photo_year''"

definition grows :: "node \<Rightarrow> node \<Rightarrow> bool" where
  "grows n m \<longleftrightarrow> n_key m = n_key n \<and> n_props m ''id'' = n_props n ''id'' \<and> n_props m ''cpf'' = n_props n ''cpf'' \<and>
     set (list_prop (n_props n) ''name_aliases'') \<subseteq> set (list_prop (n_props m) ''name_aliases'') \<and>
     set (list_prop (n_props n) ''tse_profile_urls'') \<subseteq> set (list_prop (n_props m) ''tse_profile_urls'') \<and>
     (portrait n \<longrightarrow> same_photo n m)"

definition accumulates :: "graph \<Rightarrow> graph \<Rightarrow> bool" where
  "accumulates g h \<longleftrightarrow> (\<forall>n \<in> set (g_nodes g). \<exists>m \<in> set (g_nodes h). grows n m)"

lemma grows_refl [simp]: "grows n n"
  by (simp add: grows_def same_photo_def)

lemma grows_trans: "grows l m \<Longrightarrow> grows m n \<Longrightarrow> grows l n"
  by (auto simp: grows_def same_photo_def portrait_def)

lemma accumulates_refl [simp]: "accumulates g g"
  unfolding accumulates_def using grows_refl by blast

lemma accumulates_trans: "accumulates g h \<Longrightarrow> accumulates h k \<Longrightarrow> accumulates g k"
  unfolding accumulates_def using grows_trans by meson

lemma list_prop_grown: "set (list_prop p k) \<subseteq> set (list_prop (p(k := grown n k xs)) k)" if "p k = n_props n k"
  using that by (auto simp: list_prop_def grown_def add_missing_set split: option.split pval.split)

lemma grows_step: "grows n (row_step r n)"
proof -
  have "grows n (tse_facts r n)"
  proof -
    have l: "set (list_prop (n_props n) k) \<subseteq> set (list_prop (n_props (tse_facts r n)) k)"
      if "k = ''name_aliases'' \<or> k = ''tse_profile_urls''" for k
      using that by (auto simp: list_prop_def tse_facts_lists grown_def add_missing_set split: option.splits pval.splits)
    have "same_photo n (tse_facts r n)" if "portrait n"
    proof -
      have "\<not> take_photo r n" using that by (auto simp: portrait_def take_photo_def)
      then show ?thesis by (simp add: same_photo_def photo_left)
    qed
    with l show ?thesis by (simp add: grows_def)
  qed
  then show ?thesis by (simp add: row_step_def)
qed

lemma accumulates_row: "accumulates g (fst (merge_tse_row r g))"
  using grows_step by (auto simp: accumulates_def merge_tse_row_fst)

lemma accumulates_pass: "accumulates g (pass merge_tse_row rs g)"
  by (induction rs arbitrary: g) (auto intro: accumulates_trans [OF accumulates_row])

section \<open>Only politicians\<close>

definition others :: "graph \<Rightarrow> node list" where
  "others g = filter (\<lambda>n. \<not> has_label ''Politician'' n) (g_nodes g)"

definition politicians_only :: "graph \<Rightarrow> graph \<Rightarrow> bool" where
  "politicians_only g h \<longleftrightarrow> others h = others g \<and> g_edges h = g_edges g"

lemma politicians_only_refl [simp]: "politicians_only g g"
  by (simp add: politicians_only_def)

lemma politicians_only_trans: "politicians_only g h \<Longrightarrow> politicians_only h k \<Longrightarrow> politicians_only g k"
  by (simp add: politicians_only_def)

lemma others_update:
  assumes "\<And>n. has_label ''Politician'' (f n) = has_label ''Politician'' n" and "\<And>n. P n \<Longrightarrow> has_label ''Politician'' n"
  shows "filter (\<lambda>n. \<not> has_label ''Politician'' n) (List.map (\<lambda>n. if P n then f n else n) ns) =
    filter (\<lambda>n. \<not> has_label ''Politician'' n) ns"
  by (induction ns) (use assms in auto)

lemma politicians_only_merge:
  assumes f: "\<And>n. has_label ''Politician'' (f n) = has_label ''Politician'' n"
  shows "politicians_only g (fst (merge_node ''Politician'' k v c f g))"
proof (cases "match_nodes ''Politician'' (prop_is k v) g = []")
  case True
  then show ?thesis using f by (simp add: politicians_only_def others_def merge_node_def Let_def) (simp add: has_label_def)
next
  case False
  then show ?thesis
    using others_update [of f "\<lambda>n. has_label ''Politician'' n \<and> prop_is k v n" "g_nodes g"] f
    by (simp add: politicians_only_def others_def merge_node_def Let_def)
qed

lemma house_facts_sel [simp]:
  "n_key (camara_facts r n) = n_key n" "has_label l (camara_facts r n) = has_label l n" "n_props (camara_facts r n) ''id'' = n_props n ''id''"
  "n_key (senado_facts q n) = n_key n" "has_label l (senado_facts q n) = has_label l n" "n_props (senado_facts q n) ''id'' = n_props n ''id''"
  by (simp_all add: camara_facts_def senado_facts_def upd_props_other)

lemma row_shapes:
  "fst (merge_tse_row r g) = fst (merge_node ''Politician'' ''cpf'' (PStr (po_cpf r))
     [(''id'', Some (PStr (deterministic_politician_id (po_cpf r)))), (''active'', Some (PBool False))] (tse_facts r) g)"
  "fst (merge_camara_row d g) = fst (merge_node ''Politician'' ''cpf'' (PStr (dr_cpf d))
     [(''id'', Some (PStr (deterministic_politician_id (dr_cpf d)))), (''name_aliases'', Some (PList [])),
      (''tse_profile_urls'', Some (PList []))] (camara_facts d) g)"
  by (simp_all add: merge_tse_row_def merge_camara_row_def split: prod.split)

lemma politicians_only_rows:
  "politicians_only g (fst (merge_tse_row r g))" "politicians_only g (fst (merge_camara_row d g))"
  "politicians_only g (fst (match_senado_row ct q g))"
proof -
  show "politicians_only g (fst (merge_tse_row r g))" "politicians_only g (fst (merge_camara_row d g))"
    unfolding row_shapes by (rule politicians_only_merge, simp)+
  show "politicians_only g (fst (match_senado_row ct q g))"
    using others_update [of "senado_facts q" "\<lambda>n. has_label ''Politician'' n \<and> senator_is ct q n" "g_nodes g"]
    by (simp add: match_senado_row_def politicians_only_def others_def)
qed

text \<open>An order every row respects is respected by a pass.\<close>

lemma pass_order:
  assumes "\<And>g. R g g" and "\<And>g h k. R g h \<Longrightarrow> R h k \<Longrightarrow> R g k" and "\<And>r g. R g (fst (f r g))"
  shows "R g (pass f rs g)"
proof (induction rs arbitrary: g)
  case (Cons r rs)
  show ?case using assms(2) [OF assms(3) Cons.IH] by simp
qed (simp add: assms(1))

context world_order
begin

lemma upsert_batches:
  assumes "\<And>b. moves R (cypher (merge_rows f b))" shows "moves R (upsert_batches f bs n)"
  by (induction bs arbitrary: n) (simp_all add: ret bindR assms)

end

section \<open>Senators and accents\<close>

text \<open>The court writes names in capitals. Memgraph lower-cases ASCII letters only, so a senator whose name has
  an accented letter is not found under it.\<close>

lemma accented_name_differs:
  assumes "ct_lower ct = List.map ascii_lower" and "\<And>x. ct_trim ct x = trim_space x"
  shows "\<not> senator_is ct \<lparr>sn_senado = lit ''1'', sn_name = lit ''Jos'' @ [233], sn_party = lit ''X'', sn_role = lit ''Senador'',
      sn_state = lit ''SP'', sn_photo = [], sn_active = True\<rparr>
    \<lparr>n_key = 0, n_labels = [''Politician''], n_props = [''state'' \<mapsto> PStr (lit ''SP''), ''name'' \<mapsto> PStr (lit ''JOS'' @ [201])]\<rparr>"
proof -
  have "trim_space (lit ''JOS'' @ [201]) = lit ''JOS'' @ [201]" "trim_space (lit ''Jos'' @ [233]) = lit ''Jos'' @ [233]" by code_simp+
  then show ?thesis using assms by (simp add: senator_is_def ascii_lower_def)
qed

end
