(* ===== verification/Registers_Props.thy ===== *)
theory Registers_Props
  imports Registers Politicians_Props
begin

text \<open>
  What the command promises: a download that survives interruptions, a year that is marked done only when
  its politicians are in the graph, and a graph in which nothing but politicians changes.
\<close>

section \<open>Downloads\<close>

text \<open>A server that keeps serving the same file: 200 begins it, 206 continues it where it was asked to.\<close>

definition serves_file :: "register_env \<Rightarrow> gostr \<Rightarrow> gostr \<Rightarrow> bool" where
  "serves_file e url b \<longleftrightarrow>
     (\<forall>k n status body whole. te_cdn e k url n = CdnAnswer status body whole \<longrightarrow>
       (status = 200 \<longrightarrow> has_prefix b body \<and> (whole \<longrightarrow> body = b)) \<and>
       (status = 206 \<longrightarrow> has_prefix (drop n b) body \<and> (whole \<longrightarrow> body = drop n b)))"

definition partial_file :: "gostr \<Rightarrow> gostr option \<Rightarrow> bool" where
  "partial_file b f = (case f of None \<Rightarrow> True | Some c \<Rightarrow> has_prefix b c)"

lemma resume_keeps:
  assumes "serves_file e url b" and "partial_file b (rg_files s tmp)" and "resume_download e url tmp s = (r, t)"
  shows "partial_file b (rg_files t tmp) \<and> (r = Inr () \<longrightarrow> rg_files t tmp = Some b) \<and>
    rg_requests t = rg_requests s + 1 \<and> (p \<noteq> tmp \<longrightarrow> rg_files t p = rg_files s p)"
proof -
  let ?have = "case rg_files s tmp of None \<Rightarrow> [] | Some c \<Rightarrow> c"
  have got: "has_prefix b ?have" using assms(2) by (cases "rg_files s tmp") (simp_all add: partial_file_def)
  then obtain rest where b: "b = ?have @ rest" by (auto simp: has_prefix_iff)
  show ?thesis
  proof (cases "te_cdn e (rg_requests s) url (length ?have)")
    case CdnDown
    with assms(2,3) show ?thesis by (auto simp: resume_download_def)
  next
    case (CdnAnswer status body whole)
    have ok: "status = 200 \<Longrightarrow> has_prefix b body \<and> (whole \<longrightarrow> body = b)"
      "status = 206 \<Longrightarrow> has_prefix (drop (length ?have) b) body \<and> (whole \<longrightarrow> body = drop (length ?have) b)"
      using assms(1) CdnAnswer unfolding serves_file_def by blast+
    have rest: "drop (length ?have) b = rest" using arg_cong [OF b, of "drop (length ?have)"] by simp
    have "has_prefix b (?have @ body)" if "status = 206"
      using ok(2) that b by (auto simp: rest has_prefix_iff)
    moreover have "?have @ body = b" if "status = 206" "whole"
      using ok(2) that b by (simp add: rest)
    ultimately show ?thesis
      using assms(2,3) ok(1) CdnAnswer by (auto simp: resume_download_def Let_def partial_file_def split: if_splits)
  qed
qed

lemma download_from_result:
  assumes "serves_file e url b" and "dest \<noteq> tmp"
  shows "partial_file b (rg_files s tmp) \<Longrightarrow> download_from e url dest tmp left s = (r, t) \<Longrightarrow>
    rg_files t dest = (if r = Inr () then Some b else rg_files s dest) \<and> rg_files t tmp = None \<and>
    rg_requests t \<le> rg_requests s + left"
proof (induction left arbitrary: s)
  case 0
  then show ?case using assms(2) by (auto simp: seqR_def bindR_def put_file_def modR_def throw_def)
next
  case (Suc left)
  obtain x u where x: "resume_download e url tmp s = (x, u)" by fastforce
  note keep = resume_keeps [OF assms(1) Suc.prems(1) x]
  show ?case
  proof (cases x)
    case (Inl er)
    with x Suc.prems(2) have "download_from e url dest tmp left u = (r, t)" by (simp add: bindR_def attemptR_def)
    with Suc.IH [of u] keep [of dest] assms(2) show ?thesis by auto
  next
    case (Inr ok)
    with keep [of dest] assms(2) have "rg_files u tmp = Some b" "rg_files u dest = rg_files s dest" "rg_requests u = rg_requests s + 1" by auto
    with x Inr Suc.prems(2) assms(2) show ?thesis
      by (auto simp: bindR_def attemptR_def seqR_def put_file_def modR_def getR_def throw_def split: if_splits)
  qed
qed

section \<open>What a run leaves alone\<close>

definition civic :: "'z world_scheme \<Rightarrow> 'z world_scheme \<Rightarrow> bool" where
  "civic s t \<longleftrightarrow> politicians_only (graph s) (graph t) \<and> tombs t = tombs s \<and> reviews t = reviews s \<and>
     import_states t = import_states s \<and> snapshots t = snapshots s \<and> watches t = watches s \<and> aliases t = aliases s"

interpretation civic: world_order civic
  by unfold_locales (auto simp: civic_def intro: politicians_only_trans)

text \<open>The contract of an import with the stores: it writes its own tables, files and counters, and rows of
  politicians. The refresh of the houses writes theirs.\<close>

locale import_stores = world_order R for R :: "registrar \<Rightarrow> registrar \<Rightarrow> bool" +
  assumes own: "R s (s\<lparr>issued := i, rg_jobs := js\<rparr>)" and files: "R s (s\<lparr>rg_files := fs\<rparr>)" "R s (s\<lparr>rg_requests := k\<rparr>)"
    and log: "R s (s\<lparr>rg_tse_log := log_year y st n er (rg_tse_log s)\<rparr>)"
    and rows: "moves R (cypher (merge_rows merge_tse_row rs))"
begin

lemma update_job [order_intros]: "moves R (update_job i status n er)"
  unfolding update_job_def
proof (rule sql)
  show "R s (s\<lparr>rg_jobs := f (rg_jobs s)\<rparr>)" for s f using own [where s = s and i = "issued s"] by simp
qed

lemma tables [order_intros]: "moves R (upsert_tse_import_log y st n er)" "moves R (create_job w)"
  unfolding upsert_tse_import_log_def create_job_def
  by (rule sql, rule log) (rule db_call, rule movesI, simp add: own)

lemma put_file [order_intros]: "moves R (put_file p b)"
  unfolding put_file_def by (rule modR) (rule files)

lemma resume [order_intros]: "moves R (resume_download e url tmp)"
proof (rule movesI)
  fix s
  have "R s (s\<lparr>rg_requests := k, rg_files := fs\<rparr>)" for k fs using trans [OF files(2) files(1)] by simp
  then show "R s (snd (resume_download e url tmp s))"
    using files(2) by (auto simp: resume_download_def Let_def split: cdn_reply.split)
qed

lemma download [order_intros]: "moves R (download_from e url dest tmp left)"
proof (induction left)
  case 0
  show ?case by (simp, intro seqR put_file throw)
next
  case (Suc left)
  show ?case
    unfolding download_from.simps
    by (intro bindR attemptR resume moves_sum Suc.IH moves_if getR seqR put_file throw)
qed

lemma fetch [order_intros]: "moves R (download_consulta_zip e y dir)"
  unfolding download_consulta_zip_def download_file_if_missing_def Let_def
  by (intro seqR bindR getR moves_if ret download)

lemma failure [order_intros]: "moves R (record_failure w job y er)"
  unfolding record_failure_def by (intro whenR seqR ignoreR update_job tables)

lemma upsert_tse [order_intros]: "moves R (upsert_politicians_from_tse rs b)"
  unfolding upsert_politicians_from_tse_def by (intro upsert_batches rows)

lemma persist [order_intros]: "moves R (persist_year w job y rs)"
  unfolding persist_year_def by (intro whenR bindR attemptR upsert_tse moves_sum seqR failure throw update_job tables)

lemma before [order_intros]:
  "moves R (begin_year w y)" "moves R (is_tse_year_successful y)" "moves R (resolve_zip_path y zd c)"
  unfolding begin_year_def is_tse_year_successful_def resolve_zip_path_def Let_def
  by (intro moves_if bindR tables seqR ret sql_read getR)+

lemma archive [order_intros]: "moves R (import_archive e w y job path)"
  unfolding import_archive_def by (intro bindR getR moves_sum seqR failure throw whenR put_file persist)

lemma run_year [order_intros]: "moves R (run_year e w y)"
  unfolding run_year_def year_under_way_def
  by (intro bindR moves_if before ret throw attemptR fetch moves_sum seqR failure archive)

end

locale register_stores = import_stores +
  assumes houses: "R s (s\<lparr>issued := i, rg_camara := cs\<rparr>)" "R s (s\<lparr>issued := i, rg_senado := ss\<rparr>)"
    and house_rows: "moves R (cypher (merge_rows merge_camara_row ds))" "moves R (cypher (merge_rows (match_senado_row ct) qs))"
begin

lemma opened [order_intros]: "moves R create_camara_sync_run" "moves R create_senado_sync_run"
  unfolding create_camara_sync_run_def create_senado_sync_run_def
  by (rule db_call, rule movesI, simp add: houses)+

lemma closing [order_intros]:
  "moves R (finalize_camara_sync_run i st cs n er)" "moves R (finalize_senado_sync_run i st ss n er)"
proof -
  have "R s (s\<lparr>rg_camara := xs\<rparr>)" "R s (s\<lparr>rg_senado := ys\<rparr>)" for s xs ys
    using houses(1) [where s = s and i = "issued s"] houses(2) [where s = s and i = "issued s"] by simp_all
  then show "moves R (finalize_camara_sync_run i st cs n er)" "moves R (finalize_senado_sync_run i st ss n er)"
    unfolding finalize_camara_sync_run_def finalize_senado_sync_run_def by (auto intro!: sql)
qed

lemma upserts [order_intros]:
  "moves R (upsert_politicians_from_camara ds b)" "moves R (upsert_politicians_from_senado ct qs b)"
  unfolding upsert_politicians_from_camara_def upsert_politicians_from_senado_def
  by (intro upsert_batches house_rows)+

lemma camara [order_intros]: "moves R (camara_sync e limit batch)"
  unfolding camara_sync_def
  by (intro moves_option moves_sum moves_prod ret throw bindR opened attemptR upserts seqR ignoreR closing)

lemma senado [order_intros]: "moves R (senado_sync e batch)"
  unfolding senado_sync_def
  by (intro moves_sum moves_prod ret throw bindR opened attemptR upserts seqR ignoreR closing)

lemma mains: "moves R (tse_main e w)" "moves R (camara_main e p limit batch)" "moves R (senado_main e p batch)"
  unfolding tse_main_def camara_main_def senado_main_def
  by (intro moves_if throw moves_sum seqR forR run_year bindR camara senado ret moves_option moves_prod)+

end

lemma civic_rows:
  assumes "\<And>r g. politicians_only g (fst (f r g))" shows "moves civic (cypher (merge_rows f rs))"
  by (rule civic.cypher)
    (simp add: civic_def merge_rows_pass pass_order [where R = politicians_only and f = f] politicians_only_trans assms)

interpretation civic: register_stores civic
proof unfold_locales
  show "moves civic (cypher (merge_rows merge_tse_row rs) :: (registrar, nat) prog)"
    "moves civic (cypher (merge_rows merge_camara_row ds) :: (registrar, nat) prog)"
    "moves civic (cypher (merge_rows (match_senado_row ct) qs) :: (registrar, nat) prog)" for rs ds ct qs
    by (rule civic_rows, rule politicians_only_rows)+
qed (simp_all add: civic_def)

section \<open>A year that is done\<close>

definition marked :: "registrar \<Rightarrow> int \<Rightarrow> bool" where
  "marked s y = list_ex (\<lambda>l. tl_year l = y \<and> tl_status l = ''success'') (rg_tse_log s)"

lemma marked_log:
  "list_ex (\<lambda>l. tl_year l = x \<and> tl_status l = ''success'') (log_year y st n er ls) =
     (if x = y then st = ''success'' else list_ex (\<lambda>l. tl_year l = x \<and> tl_status l = ''success'') ls)"
  by (induction ls) (auto simp: log_year_def Let_def list_ex_iff split: if_splits)

text \<open>Nothing marks the year but the last write of a year that came through.\<close>

definition unmarking :: "int \<Rightarrow> registrar \<Rightarrow> registrar \<Rightarrow> bool" where
  "unmarking y s t \<longleftrightarrow> (marked t y \<longrightarrow> marked s y)"

interpretation unmarking: world_order "unmarking y"
  by unfold_locales (auto simp: unmarking_def marked_def)

lemma unmarking_state: "rg_tse_log t = rg_tse_log s \<Longrightarrow> unmarking y s t"
  by (simp add: unmarking_def marked_def)

definition same_log :: "registrar \<Rightarrow> registrar \<Rightarrow> bool" where
  "same_log s t \<longleftrightarrow> rg_tse_log t = rg_tse_log s"

interpretation same_log: world_order same_log
  by unfold_locales (simp_all add: same_log_def)

lemma same_log_steps:
  "moves same_log (create_job w)" "moves same_log (update_job i st n er)" "moves same_log (put_file p b)"
  "moves same_log (resume_download e url tmp)" "moves same_log (is_tse_year_successful y)"
  "moves same_log (resolve_zip_path y zd c)" "moves same_log (upsert_politicians_from_tse rs k)"
proof -
  show "moves same_log (create_job w)"
    unfolding create_job_def by (rule same_log.db_call, rule movesI) (simp add: same_log_def)
  show "moves same_log (update_job i st n er)" unfolding update_job_def by (rule same_log.sql) (simp add: same_log_def)
  show "moves same_log (put_file p b)" unfolding put_file_def by (rule same_log.modR) (simp add: same_log_def)
  show "moves same_log (resume_download e url tmp)"
    by (rule movesI) (simp add: resume_download_def Let_def same_log_def split: cdn_reply.split)
  show "moves same_log (is_tse_year_successful y)" unfolding is_tse_year_successful_def by (rule same_log.sql_read)
  show "moves same_log (resolve_zip_path y zd c)"
    unfolding resolve_zip_path_def Let_def by (intro moves_if same_log.ret same_log.bindR same_log.getR)
  show "moves same_log (upsert_politicians_from_tse rs k)"
    unfolding upsert_politicians_from_tse_def
    by (rule same_log.upsert_batches, rule same_log.cypher) (simp add: same_log_def)
qed

lemma same_log_fetch: "moves same_log (download_consulta_zip e y dir)"
proof -
  have "moves same_log (download_from e url dest tmp left)" for url dest tmp left
  proof (induction left)
    case 0
    show ?case by (simp, intro same_log.seqR same_log_steps same_log.throw)
  next
    case (Suc left)
    show ?case
      unfolding download_from.simps
      by (intro same_log.bindR same_log.attemptR same_log_steps moves_sum Suc.IH moves_if same_log.getR same_log.seqR same_log.throw)
  qed
  then show ?thesis
    unfolding download_consulta_zip_def download_file_if_missing_def Let_def
    by (intro same_log.seqR same_log.bindR same_log.getR moves_if same_log.ret)
qed

lemma unmarking_log: "moves same_log m \<Longrightarrow> moves (unmarking y) m"
  by (auto simp: moves_def same_log_def intro: unmarking_state)

lemma unmarking_upsert:
  assumes "st \<noteq> ''success''" shows "moves (unmarking y) (upsert_tse_import_log x st n er)"
  unfolding upsert_tse_import_log_def
  by (rule unmarking.sql) (use assms in \<open>auto simp: unmarking_def marked_def marked_log split: if_splits\<close>)

lemma unmarking_steps:
  "moves (unmarking y) (begin_year w x)" "moves (unmarking y) (record_failure w job x er)"
  unfolding begin_year_def record_failure_def
  by (intro moves_if unmarking.bindR unmarking.seqR unmarking.ret unmarking.whenR unmarking.ignoreR
      unmarking_upsert unmarking_log same_log_steps; simp)+

lemma bindR_cases:
  "bindR m k s = (r, u) \<Longrightarrow> (\<exists>er. m s = (Inl er, u) \<and> r = Inl er) \<or> (\<exists>a t. m s = (Inr a, t) \<and> k a t = (r, u))"
  by (auto simp: bindR_def split: prod.splits sum.splits)

lemma attemptR_cases:
  "bindR (attemptR m) k s = (r, u) \<Longrightarrow> \<exists>x t. m s = (x, t) \<and> k x t = (r, u)"
  by (cases "m s") (simp add: bindR_def attemptR_def)

lemma unmarked_after: "moves (unmarking y) m \<Longrightarrow> m s = (r, t) \<Longrightarrow> \<not> marked s y \<Longrightarrow> \<not> marked t y"
  using movesD [of "unmarking y" m s] by (auto simp: unmarking_def)

lemma persist_marks:
  assumes run: "persist_year w job y rs s = (r, t)" and m: "marked t y" and u: "\<not> marked s y"
  shows "\<forall>p \<in> set rs. politician_in (graph t) (po_cpf p)"
proof -
  have "ro_persist w" using assms by (cases "ro_persist w") (auto simp: persist_year_def whenR_def ret_def)
  then obtain x v where x: "upsert_politicians_from_tse rs (ro_batch w) s = (x, v)"
    and k: "(case x of Inl er \<Rightarrow> seqR (record_failure w job y er) (throw er)
      | Inr n \<Rightarrow> seqR (update_job job ''success'' n None) (upsert_tse_import_log y ''success'' n None)) v = (r, t)"
    using run by (auto simp: persist_year_def whenR_def dest: attemptR_cases)
  have v: "\<not> marked v y" by (rule unmarked_after [OF unmarking_log [OF same_log_steps(7)] x u])
  show ?thesis
  proof (cases x)
    case (Inl er)
    have "moves (unmarking y) (seqR (record_failure w job y er) (throw er :: (registrar, unit) prog))"
      by (intro unmarking.seqR unmarking_steps unmarking.throw)
    from unmarked_after [OF this _ v] k Inl m show ?thesis by simp
  next
    case (Inr n)
    have g: "graph v = pass merge_tse_row rs (graph s)" using x Inr by (auto dest: upsert_tse_ok)
    have "moves same_graph (seqR (update_job job ''success'' n None) (upsert_tse_import_log y ''success'' n None) :: (registrar, unit) prog)"
      unfolding update_job_def upsert_tse_import_log_def
      by (intro same_graph.seqR same_graph.sql) (simp_all add: same_graph_def)
    with k Inr have "graph t = graph v" by (auto simp: same_graph_def dest: movesD [where s = v])
    with g show ?thesis by (simp add: pass_reaches)
  qed
qed

lemma marking_bind:
  assumes "bindR m k s = (r, t)" and "moves (unmarking y) m" and "marked t y" and "\<not> marked s y"
  shows "\<exists>a u. k a u = (r, t) \<and> m s = (Inr a, u) \<and> \<not> marked u y"
  using bindR_cases [OF assms(1)] unmarked_after [OF assms(2) _ assms(4)] assms(3) by blast

lemma archive_marks:
  assumes run: "import_archive e w y job path s = (r, t)" and m: "marked t y" and u: "\<not> marked s y"
  shows "\<exists>res. year_result e w y (rg_files s path) = Inr res \<and> (\<forall>p \<in> set (ir_records res). politician_in (graph t) (po_cpf p))"
proof (cases "year_result e w y (rg_files s path)")
  case (Inl er)
  have "moves (unmarking y) (seqR (record_failure w job y er) (throw er :: (registrar, unit) prog))"
    by (intro unmarking.seqR unmarking_steps unmarking.throw)
  from unmarked_after [OF this _ u] run Inl m show ?thesis by (simp add: import_archive_def bindR_getR)
next
  case (Inr res)
  let ?clean = "whenR (contains path (lit ''tse-downloads'')) (put_file path None)"
  from run Inr have "bindR ?clean (\<lambda>_. persist_year w job y (ir_records res)) s = (r, t)"
    by (simp add: import_archive_def bindR_getR seqR_def)
  moreover have "moves (unmarking y) ?clean" by (intro unmarking.whenR unmarking_log same_log_steps)
  ultimately obtain v where "persist_year w job y (ir_records res) v = (r, t)" "\<not> marked v y" using marking_bind m u by blast
  with Inr persist_marks m show ?thesis by blast
qed

lemma under_way_marks:
  assumes run: "year_under_way e w y job s = (r, t)" and m: "marked t y" and u: "\<not> marked s y"
  shows "\<exists>content res. year_result e w y content = Inr res \<and> (\<forall>p \<in> set (ir_records res). politician_in (graph t) (po_cpf p))"
proof -
  let ?fetch = "\<lambda>given. if given = [] then download_consulta_zip e y (downloads_dir w) else ret given"
  let ?then = "\<lambda>x. case x of Inl er \<Rightarrow> seqR (record_failure w job y er) (throw er) | Inr path \<Rightarrow> import_archive e w y job path"
  from marking_bind [OF run [unfolded year_under_way_def] unmarking_log [OF same_log_steps(6)] m u] obtain given s1
    where 1: "(if given = [] \<and> \<not> te_mkdir e then throw (Refused ''create download dir'')
        else bindR (attemptR (?fetch given)) ?then) s1 = (r, t)" and u1: "\<not> marked s1 y" by blast
  have "\<not> (given = [] \<and> \<not> te_mkdir e)"
  proof
    assume b: "given = [] \<and> \<not> te_mkdir e"
    from 1 u1 m show False unfolding if_P [OF b] by (auto simp: throw_def)
  qed
  with 1 have 2: "bindR (attemptR (?fetch given)) ?then s1 = (r, t)" by (simp only: if_False)
  have "moves (unmarking y) (attemptR (?fetch given))"
    by (intro unmarking.attemptR moves_if unmarking_log [OF same_log_fetch] unmarking.ret)
  from marking_bind [OF 2 this m u1] obtain x s2 where 3: "?then x s2 = (r, t)" and u2: "\<not> marked s2 y" by blast
  have failing: "moves (unmarking y) (seqR (record_failure w job y er) (throw er :: (registrar, unit) prog))" for er
    by (intro unmarking.seqR unmarking_steps unmarking.throw)
  show ?thesis
  proof (cases x)
    case (Inl er)
    with 3 unmarked_after [OF failing _ u2] m show ?thesis by auto
  next
    case (Inr path)
    with 3 have "import_archive e w y job path s2 = (r, t)" by simp
    from archive_marks [OF this m u2] show ?thesis by blast
  qed
qed

definition accumulating :: "'z world_scheme \<Rightarrow> 'z world_scheme \<Rightarrow> bool" where
  "accumulating s t \<longleftrightarrow> accumulates (graph s) (graph t)"

interpretation accumulating: world_order accumulating
  by unfold_locales (auto simp: accumulating_def intro: accumulates_trans)

interpretation accumulating: import_stores accumulating
proof unfold_locales
  show "moves accumulating (cypher (merge_rows merge_tse_row rs) :: (registrar, nat) prog)" for rs
    by (rule accumulating.cypher) (simp add: accumulating_def merge_rows_pass accumulates_pass)
qed (simp_all add: accumulating_def)

section \<open>A run to try it on\<close>

text \<open>The server breaks off after two bytes and takes the file up again when asked. The archive of the
  election has one senator.\<close>

definition demo_file :: gostr where "demo_file = lit ''zip''"

definition demo_registers :: register_env where
  "demo_registers = \<lparr>te_cdn = (\<lambda>k url n. if n = 0 then CdnAnswer 200 (take 2 demo_file) False else CdnAnswer 206 (drop n demo_file) True),
     te_mkdir = True, te_renames = True, te_unzip = (\<lambda>b. if b = demo_file then Inr [demo_entry] else Inl DecodeError),
     te_election = (\<lambda>_. ElDropped), te_host = (\<lambda>_. demo_host), te_this_year = 2025,
     te_camara = \<lparr>ka_page = (\<lambda>_ _. Inr []), ka_detail = (\<lambda>_ _ _. Inl HttpError)\<rparr>, te_fuel = 1, te_senado = Inr ParlNone,
     te_text = \<lparr>ct_trim = (\<lambda>x. x), ct_lower = (\<lambda>x. x)\<rparr>\<rparr>"

definition demo_year :: register_options where
  "demo_year = \<lparr>ro_year = 2022, ro_from = 0, ro_to = 0, ro_all = False, ro_consulta = [], ro_zip_dir = [],
     ro_work_dir = lit ''w'', ro_min_disk = 1, ro_min_mem = 1, ro_persist = True, ro_skip = True, ro_batch = 0,
     ro_do_camara = False, ro_do_senado = False\<rparr>"

definition demo_registrar :: registrar where
  "demo_registrar = world.extend empty_world \<lparr>rg_tse_log = [], rg_jobs = [], rg_camara = [], rg_senado = [],
     rg_files = (\<lambda>_. None), rg_requests = 0\<rparr>"

definition demo_pick :: politician_record where
  "demo_pick = build_record [] (snd (hd (elected_in [Inr consulta_headers, demo_row ''7'' ''12345678901'' ''1'' ''QP''])))"

lemma demo_serves: "serves_file demo_registers url demo_file"
  by (auto simp: serves_file_def demo_registers_def demo_file_def lit_def has_prefix_iff split: if_splits)

section \<open>Properties\<close>

text \<open>C40: a download that succeeds leaves exactly the file the server has, however often it was interrupted and
  taken up again; one that fails leaves no file under the final name that was not there. It costs at most
  six requests, and the partial file is gone either way.\<close>

theorem download_resumes:
  assumes "serves_file e url b" and "rg_files s dest = None \<or> rg_files s dest = Some []"
    and "partial_file b (rg_files s (dest @ lit ''.tmp''))"
    and "download_file_if_missing e url dest s = (r, t)"
  shows "rg_files t dest = (if r = Inr () then Some b else rg_files s dest) \<and> rg_files t (dest @ lit ''.tmp'') = None \<and>
    rg_requests t \<le> rg_requests s + 6"
proof -
  have "download_from e url dest (dest @ lit ''.tmp'') download_retries s = (r, t)"
    using assms(2,4) by (auto simp: download_file_if_missing_def bindR_getR)
  from download_from_result [OF assms(1) _ assms(3) this] show ?thesis by (simp add: download_retries_def)
qed

theorem download_resumes_witness:
  "\<exists>t. download_file_if_missing demo_registers (lit ''u'') (lit ''f'') demo_registrar = (Inr (), t) \<and>
     rg_files t (lit ''f'') = Some demo_file \<and> rg_requests t = 2"
proof -
  let ?run = "download_file_if_missing demo_registers (lit ''u'') (lit ''f'') demo_registrar"
  have "fst ?run = Inr () \<and> rg_requests (snd ?run) = 2" by code_simp
  then obtain t where r: "?run = (Inr (), t)" "rg_requests t = 2" by (cases ?run) auto
  have "rg_files demo_registrar p = None" for p by (simp add: demo_registrar_def world.extend_def empty_world_def)
  with download_resumes [OF demo_serves _ _ r(1)] r show ?thesis by (simp add: partial_file_def)
qed

text \<open>C37: a year is only marked as done when the archive of the run could be read to the end and every record
  of it has its politician in the graph; whatever fails on the way, the year is left to be imported again.\<close>

theorem year_done_means_imported:
  assumes "marked (snd (run_year e w y s)) y" and "\<not> marked s y"
  shows "\<exists>content res. year_result e w y content = Inr res \<and>
    (\<forall>p \<in> set (ir_records res). politician_in (graph (snd (run_year e w y s))) (po_cpf p))"
proof -
  obtain r t where run: "run_year e w y s = (r, t)" by fastforce
  with assms(1) have m: "marked t y" by simp
  have skip: "moves (unmarking y) (if ro_persist w \<and> ro_skip w then is_tse_year_successful y else ret False)"
    by (intro moves_if unmarking_log [OF same_log_steps(5)] unmarking.ret)
  from marking_bind [OF run [unfolded run_year_def] skip m assms(2)] obtain already s1
    where 1: "(if already then ret () else bindR (begin_year w y) (year_under_way e w y)) s1 = (r, t)" and u1: "\<not> marked s1 y"
    by blast
  from 1 u1 m have "bindR (begin_year w y) (year_under_way e w y) s1 = (r, t)" by (cases already) (auto simp: ret_def)
  from marking_bind [OF this unmarking_steps(1) m u1] under_way_marks [OF _ m] run show ?thesis by auto
qed

theorem year_done_means_imported_witness:
  "\<exists>content res. year_result demo_registers demo_year 2022 content = Inr res \<and>
     filter (\<lambda>p. \<not> politician_in (graph (snd (run_year demo_registers demo_year 2022 demo_registrar))) (po_cpf p)) (ir_records res) = []"
proof -
  have "marked (snd (run_year demo_registers demo_year 2022 demo_registrar)) 2022" by code_simp
  moreover have "\<not> marked demo_registrar 2022" by code_simp
  ultimately show ?thesis unfolding filter_empty_conv using year_done_means_imported by blast
qed

text \<open>C38: importing a year again, over anything, changes nothing more: one pass settles the graph, and every
  record has its politician in it.\<close>

theorem import_settles:
  assumes "upsert_politicians_from_tse rs b s = (Inr m, t)" and "upsert_politicians_from_tse rs c t = (Inr n, u)"
  shows "graph u = graph t \<and> (\<forall>r \<in> set rs. politician_in (graph t) (po_cpf r))"
  using upsert_tse_ok [OF assms(1)] upsert_tse_ok [OF assms(2)] by (simp add: pass_twice pass_reaches)

theorem import_settles_witness:
  "\<exists>t u. upsert_politicians_from_tse [demo_pick] 0 demo_registrar = (Inr 1, t) \<and>
     upsert_politicians_from_tse [demo_pick] 7 t = (Inr 1, u) \<and> graph u = graph t \<and> politician_in (graph t) (po_cpf demo_pick)"
proof -
  let ?a = "upsert_politicians_from_tse [demo_pick] 0 demo_registrar"
  have "fst ?a = Inr 1" "fst (upsert_politicians_from_tse [demo_pick] 7 (snd ?a)) = Inr 1" by code_simp+
  then obtain t u where "?a = (Inr 1, t)" "upsert_politicians_from_tse [demo_pick] 7 t = (Inr 1, u)"
    by (metis prod.collapse)
  with import_settles [OF this] show ?thesis by simp
qed

text \<open>C39: whatever an import of a year does and wherever it stops, every node keeps its key, its id and its CPF,
  no alias and no profile address is lost, and a photo that is not the court's stays as it was, with its
  source, its credit and its year.\<close>

theorem imports_accumulate: "accumulates (graph s) (graph (snd (run_year e w y s)))"
  using movesD [OF accumulating.run_year [of e w y], of s] by (simp add: accumulating_def)

text \<open>Importing elections and refreshing the houses changes politicians only: every other node, every
  relationship, the tombstones, the review queue, the watch list and the other tables stay as they are.\<close>

theorem registers_touch_politicians_only:
  "civic s (snd (tse_main e w s)) \<and> civic s (snd (camara_main e p limit batch s)) \<and> civic s (snd (senado_main e p batch s))"
  by (intro conjI; rule movesD [where R = civic]; rule civic.mains)

text \<open>The pages of the chamber end: with a bound, or where some page is short, as many units of fuel as the
  number of the last page fetched, and one more, are enough.\<close>

theorem deputies_end:
  assumes "1 \<le> p" and "0 < limit \<and> limit < p \<or> (case ka_page api p (page_items items) of Inl _ \<Rightarrow> True | Inr ds \<Rightarrow> length ds < page_items items)"
    and "nat p \<le> fuel"
  shows "sync_current_deputies api fuel items limit \<noteq> None"
proof -
  let ?k = "page_items items"
  have "q \<le> p \<Longrightarrow> nat (p - q) < f \<Longrightarrow> deputies_from api ?k limit f q acc \<noteq> None" for f q acc
  proof (induction f arbitrary: q acc)
    case (Suc f)
    obtain out st where acc: "acc = (out, st)" by fastforce
    show ?case
    proof (cases "q = p")
      case True
      have "0 < ?k" by (simp add: page_items_def)
      with True assms(2) show ?thesis by (auto simp: acc split: sum.split)
    next
      case False
      with Suc.prems have "q + 1 \<le> p" "nat (p - (q + 1)) < f" by auto
      from Suc.IH [OF this] show ?thesis by (simp add: acc split: sum.split)
    qed
  qed simp
  from this [of 1 fuel] assms(1,3) show ?thesis by (auto simp: sync_current_deputies_def)
qed

theorem deputies_end_witness:
  "sync_current_deputies \<lparr>ka_page = (\<lambda>_ _. Inr []), ka_detail = (\<lambda>_ _ _. Inl HttpError)\<rparr> 1 100 0 \<noteq> None"
  by (rule deputies_end [where p = 1]) (simp_all add: page_items_def)

end
