(* ===== verification/GoUrl.thy ===== *)
theory GoUrl
  imports GoText
begin

text \<open>
  What the code uses of \<^verbatim>\<open>net/url\<close>: the escaping of a path segment. It works on the bytes of a string, so the
  UTF-8 encoding of runes and its decoding, with U+FFFD for every byte that is not part of a rune, come first.
\<close>

section \<open>UTF-8\<close>

definition utf8_rune :: "rune \<Rightarrow> int list" where
  "utf8_rune r =
     (if r < 128 then [r]
      else if r < 2048 then [192 + r div 64, 128 + r mod 64]
      else if r < 65536 then [224 + r div 4096, 128 + r div 64 mod 64, 128 + r mod 64]
      else [240 + r div 262144, 128 + r div 4096 mod 64, 128 + r div 64 mod 64, 128 + r mod 64])"

definition utf8 :: "gostr \<Rightarrow> int list" where
  "utf8 s = concat (List.map utf8_rune s)"

definition cont_byte :: "int \<Rightarrow> int \<Rightarrow> int \<Rightarrow> bool" where
  "cont_byte lo hi b \<longleftrightarrow> lo \<le> b \<and> b \<le> hi"

text \<open>The bounds of the second byte rule out overlong forms, surrogates and what is above U+10FFFF.\<close>

fun long_rune :: "int list \<Rightarrow> (rune \<times> nat) option" where
  "long_rune (a # b # bs) =
     (if 194 \<le> a \<and> a \<le> 223 \<and> cont_byte 128 191 b then Some (64 * (a - 192) + (b - 128), 2)
      else case bs of
          [] \<Rightarrow> None
        | c # cs \<Rightarrow>
            if 224 \<le> a \<and> a \<le> 239 \<and> cont_byte (if a = 224 then 160 else 128) (if a = 237 then 159 else 191) b \<and> cont_byte 128 191 c
            then Some (4096 * (a - 224) + 64 * (b - 128) + (c - 128), 3)
            else case cs of
                [] \<Rightarrow> None
              | d # _ \<Rightarrow>
                  if 240 \<le> a \<and> a \<le> 244 \<and> cont_byte (if a = 240 then 144 else 128) (if a = 244 then 143 else 191) b \<and>
                     cont_byte 128 191 c \<and> cont_byte 128 191 d
                  then Some (262144 * (a - 240) + 4096 * (b - 128) + 64 * (c - 128) + (d - 128), 4)
                  else None)"
| "long_rune _ = None"

function utf8_decode :: "int list \<Rightarrow> gostr" where
  "utf8_decode [] = []"
| "utf8_decode (b # bs) =
     (if b < 128 then b # utf8_decode bs
      else case long_rune (b # bs) of
          None \<Rightarrow> 65533 # utf8_decode bs
        | Some (r, n) \<Rightarrow> r # utf8_decode (drop (n - 1) bs))"
  by pat_completeness auto
termination by (relation "measure length") auto

definition real_rune :: "rune \<Rightarrow> bool" where
  "real_rune r \<longleftrightarrow> (0 \<le> r \<and> r < 55296) \<or> (57344 \<le> r \<and> r < 1114112)"

text \<open>The digits of a number to base 64.\<close>

lemma base64:
  fixes r :: int
  shows "r = 64 * (r div 64) + r mod 64" "r div 64 = 64 * (r div 4096) + r div 64 mod 64"
    "r div 4096 = 64 * (r div 262144) + r div 4096 mod 64"
  using zdiv_zmult2_eq [of 64 r 64] zdiv_zmult2_eq [of 64 r 4096] by simp_all

lemma digit64: "0 \<le> r mod 64" "r mod 64 \<le> 63" for r :: int
  by (simp, use pos_mod_bound [of 64 r] in linarith)

lemma long_rune_utf8:
  assumes "real_rune r" and "128 \<le> r"
  shows "long_rune (utf8_rune r @ bs) = Some (r, length (utf8_rune r))"
proof -
  define a b c d e f where "a = r div 64" and "b = r mod 64" and "c = r div 4096" and "d = r div 64 mod 64"
    and "e = r div 262144" and "f = r div 4096 mod 64"
  note defs = a_def b_def c_def d_def e_def f_def
  have eq: "r = 64 * a + b" "a = 64 * c + d" "c = 64 * e + f" unfolding defs by (rule base64)+
  have d: "0 \<le> b" "b \<le> 63" "0 \<le> d" "d \<le> 63" "0 \<le> f" "f \<le> 63" unfolding defs by (rule digit64)+
  have u: "utf8_rune r = (if r < 128 then [r] else if r < 2048 then [192 + a, 128 + b]
      else if r < 65536 then [224 + c, 128 + d, 128 + b] else [240 + e, 128 + f, 128 + d, 128 + b])"
    unfolding utf8_rune_def defs ..
  consider "r < 2048" | "2048 \<le> r" "r < 65536" | "65536 \<le> r" by linarith
  then show ?thesis
  proof cases
    case 1
    then have "2 \<le> a" "a \<le> 31" using assms(2) eq d by linarith+
    then have "long_rune ([192 + a, 128 + b] @ bs) = Some (64 * a + b, 2)" using d by (simp add: cont_byte_def)
    moreover have "utf8_rune r = [192 + a, 128 + b]" using 1 assms(2) by (simp add: u)
    ultimately show ?thesis using eq(1) by simp
  next
    case 2
    have "0 \<le> c" "c \<le> 15" using 2 eq d by linarith+
    moreover have "c = 0 \<Longrightarrow> 32 \<le> d" using 2 eq d by linarith
    moreover have "c = 13 \<Longrightarrow> d \<le> 31" using assms(1) eq d unfolding real_rune_def by linarith
    ultimately have "long_rune ([224 + c, 128 + d, 128 + b] @ bs) = Some (4096 * c + 64 * d + b, 3)"
      using d by (simp add: cont_byte_def)
    moreover have "utf8_rune r = [224 + c, 128 + d, 128 + b]" using 2 by (simp add: u)
    moreover have "r = 4096 * c + 64 * d + b" using eq(1,2) by simp
    ultimately show ?thesis by simp
  next
    case 3
    have "0 \<le> e" "e \<le> 4" using 3 assms(1) eq d unfolding real_rune_def by linarith+
    moreover have "e = 0 \<Longrightarrow> 16 \<le> f" using 3 eq d by linarith
    moreover have "e = 4 \<Longrightarrow> f \<le> 15" using assms(1) eq d unfolding real_rune_def by linarith
    ultimately have "long_rune ([240 + e, 128 + f, 128 + d, 128 + b] @ bs) = Some (262144 * e + 4096 * f + 64 * d + b, 4)"
      using d by (simp add: cont_byte_def)
    moreover have "utf8_rune r = [240 + e, 128 + f, 128 + d, 128 + b]" using 3 by (simp add: u)
    moreover have "r = 262144 * e + 4096 * f + 64 * d + b" using eq by simp
    ultimately show ?thesis by simp
  qed
qed

lemma utf8_decode_rune: "real_rune r \<Longrightarrow> utf8_decode (utf8_rune r @ bs) = r # utf8_decode bs"
proof (cases "r < 128")
  case False
  assume "real_rune r"
  from long_rune_utf8 [OF this, of bs] False have l: "long_rune (utf8_rune r @ bs) = Some (r, length (utf8_rune r))" by simp
  have "0 \<le> r div 64" "0 \<le> r div 4096" "0 \<le> r div 262144" using False by (simp_all add: pos_imp_zdiv_nonneg_iff)
  with False have "utf8_rune r \<noteq> [] \<and> 128 \<le> hd (utf8_rune r)" by (simp add: utf8_rune_def)
  then obtain a as where u: "utf8_rune r = a # as" "128 \<le> a" by (cases "utf8_rune r") auto
  with l show ?thesis by (simp del: long_rune.simps)
qed (simp add: utf8_rune_def)

lemma utf8_decode_utf8: "list_all real_rune s \<Longrightarrow> utf8_decode (utf8 s) = s"
  by (induction s) (simp_all add: utf8_def utf8_decode_rune)

section \<open>Path segments\<close>

definition path_byte :: "int \<Rightarrow> bool" where
  "path_byte b \<longleftrightarrow>
     (48 \<le> b \<and> b \<le> 57) \<or> (65 \<le> b \<and> b \<le> 90) \<or> (97 \<le> b \<and> b \<le> 122) \<or> b \<in> set [45, 95, 46, 126, 36, 38, 43, 58, 61, 64]"

definition hex_rune :: "int \<Rightarrow> rune" where
  "hex_rune d = (if d < 10 then 48 + d else 55 + d)"

definition escape_byte :: "int \<Rightarrow> gostr" where
  "escape_byte b = (if path_byte b then [b] else [37, hex_rune (b div 16), hex_rune (b mod 16)])"

definition path_escape :: "gostr \<Rightarrow> gostr" where
  "path_escape s = concat (List.map escape_byte (utf8 s))"

definition hex_value :: "rune \<Rightarrow> int option" where
  "hex_value r =
     (if 48 \<le> r \<and> r \<le> 57 then Some (r - 48) else if 65 \<le> r \<and> r \<le> 70 then Some (r - 55)
      else if 97 \<le> r \<and> r \<le> 102 then Some (r - 87) else None)"

fun unescape_bytes :: "gostr \<Rightarrow> int list option" where
  "unescape_bytes [] = Some []"
| "unescape_bytes (r # rs) =
     (if r \<noteq> 37 then map_option ((@) (utf8_rune r)) (unescape_bytes rs)
      else case rs of
          a # b # rest \<Rightarrow>
            (case (hex_value a, hex_value b) of
               (Some x, Some y) \<Rightarrow> map_option ((#) (16 * x + y)) (unescape_bytes rest)
             | _ \<Rightarrow> None)
        | _ \<Rightarrow> None)"

definition path_unescape :: "gostr \<Rightarrow> gostr option" where
  "path_unescape s = map_option utf8_decode (unescape_bytes s)"

lemma hex_value_rune: "0 \<le> d \<Longrightarrow> d < 16 \<Longrightarrow> hex_value (hex_rune d) = Some d"
  by (simp add: hex_value_def hex_rune_def)

lemma unescape_byte:
  assumes "0 \<le> b \<and> b < 256" shows "unescape_bytes (escape_byte b @ s) = map_option ((#) b) (unescape_bytes s)"
proof (cases "path_byte b")
  case True
  then have "b < 128" "b \<noteq> 37" by (auto simp: path_byte_def)
  moreover have "(@) [b] = (#) b" by (simp add: fun_eq_iff)
  ultimately show ?thesis using True by (simp add: escape_byte_def utf8_rune_def)
next
  case False
  have "0 \<le> b div 16" "b div 16 < 16" "0 \<le> b mod 16" "b mod 16 < 16" using assms by auto
  with False show ?thesis by (simp add: escape_byte_def hex_value_rune)
qed

lemma unescape_escape: "list_all (\<lambda>b. 0 \<le> b \<and> b < 256) bs \<Longrightarrow> unescape_bytes (concat (List.map escape_byte bs)) = Some bs"
  by (induction bs) (simp_all add: unescape_byte)

lemma utf8_bytes: "list_all real_rune s \<Longrightarrow> list_all (\<lambda>b. 0 \<le> b \<and> b < 256) (utf8 s)"
proof (induction s)
  case (Cons r s)
  then have r: "0 \<le> r" "r < 1114112" by (auto simp: real_rune_def)
  then have "0 \<le> r div 64" "0 \<le> r div 4096" "0 \<le> r div 262144" "r div 262144 \<le> 4" by (simp_all add: pos_imp_zdiv_nonneg_iff)
  moreover have "r < 2048 \<Longrightarrow> r div 64 \<le> 31" "r < 65536 \<Longrightarrow> r div 4096 \<le> 15" by simp_all
  ultimately have "list_all (\<lambda>b. 0 \<le> b \<and> b < 256) (utf8_rune r)"
    using r digit64 by (force simp: utf8_rune_def)
  with Cons show ?case by (simp add: utf8_def)
qed (simp add: utf8_def)

lemma path_roundtrip: "list_all real_rune s \<Longrightarrow> path_unescape (path_escape s) = Some s"
  by (simp add: path_unescape_def path_escape_def unescape_escape utf8_bytes utf8_decode_utf8)

lemma escape_byte_clean:
  assumes "0 \<le> b \<and> b < 256" and "r \<in> set (escape_byte b)" shows "path_byte r \<or> r = 37"
proof -
  have "path_byte (hex_rune d)" if "0 \<le> d" "d < 16" for d
    using that by (simp add: path_byte_def hex_rune_def)
  moreover have "0 \<le> b div 16" "b div 16 < 16" "0 \<le> b mod 16" "b mod 16 < 16" using assms(1) by auto
  ultimately show ?thesis using assms(2) by (auto simp: escape_byte_def split: if_splits)
qed

lemma path_escape_clean: "list_all real_rune s \<Longrightarrow> r \<in> set (path_escape s) \<Longrightarrow> path_byte r \<or> r = 37"
  using utf8_bytes [of s] by (auto simp: path_escape_def list_all_iff dest: escape_byte_clean [rotated])

end
