(* ===== verification/Photos.thy ===== *)
theory Photos
  imports Election GoUrl Sanction_Store Datajud_Client
begin

text \<open>
  The photo worker (\<^verbatim>\<open>backend/workers/photos\<close>, \<^verbatim>\<open>backend/db/memgraph/photos_writer.go\<close>): addresses of portraits
  for politicians and images for companies that have none. The servers are the environment: the court's as a
  function of the ordinal of the look and the address, the wiki's of the ordinal of the request and the
  request, with the time to the answer. Decoding JSON is a function of the body; objects come as lists with
  distinct keys. Addresses of the endpoints are taken to be ones \<^verbatim>\<open>url.Parse\<close> reads.
\<close>

section \<open>The court's photos\<close>

definition default_tse_template :: gostr where
  "default_tse_template = lit ''https://divulgacandcontas.tse.jus.br/divulga/rest/arquivo/img/{year}/{sq}''"

definition default_probe_year :: int where "default_probe_year = 2022"
definition default_probe_uf :: gostr where "default_probe_uf = lit ''RR''"
definition default_probe_sq :: gostr where "default_probe_sq = lit ''230002529954''"

definition fill_template :: "gostr \<Rightarrow> int \<Rightarrow> gostr \<Rightarrow> gostr \<Rightarrow> gostr" where
  "fill_template template year uf sq =
     replacer [(lit ''{year}'', itoa year), (lit ''{uf}'', to_upper (trim_space uf)), (lit ''{sq}'', trim_space sq)] template"

text \<open>A picture by its declared type or by its first bytes.\<close>

definition looks_like_image :: "gostr \<Rightarrow> nat list \<Rightarrow> bool" where
  "looks_like_image ct b \<longleftrightarrow>
     has_prefix (to_lower (trim_space ct)) (lit ''image/'') \<or>
     has_prefix b [255, 216, 255] \<or>
     (8 \<le> length b \<and> has_prefix b [137, 80, 78, 71]) \<or>
     has_prefix b [71, 73, 70, 56, 57, 97] \<or>
     (12 \<le> length b \<and> has_prefix b [82, 73, 70, 70] \<and> has_prefix (drop 8 b) [87, 69, 66, 80])"

definition fold_letter :: "rune \<Rightarrow> bool" where
  "fold_letter r \<longleftrightarrow> (65 \<le> r \<and> r \<le> 90) \<or> (97 \<le> r \<and> r \<le> 122) \<or> r = 383 \<or> r = 8490"

text \<open>The names in a photo bundle: \<^verbatim>\<open>F\<close>, the state, the number, \<^verbatim>\<open>_div.jpg\<close> or \<^verbatim>\<open>_div.jpeg\<close>, in any case.\<close>

definition parse_photo_filename :: "gostr \<Rightarrow> (gostr \<times> gostr) option" where
  "parse_photo_filename name =
     (case trim_space (path_base name) of
        f # a # b # rest \<Rightarrow>
          let sq = takeWhile is_digit rest; tail = List.map ascii_lower (dropWhile is_digit rest) in
          if (f = 70 \<or> f = 102) \<and> fold_letter a \<and> fold_letter b \<and> sq \<noteq> [] \<and>
             (tail = lit ''_div.jpg'' \<or> tail = lit ''_div.jpeg'')
          then Some (to_upper [a, b], sq) else None
      | _ \<Rightarrow> None)"

definition normalize_cpf :: "gostr \<Rightarrow> gostr" where
  "normalize_cpf raw =
     (let d = digits_only raw; p = replicate (11 - length d) 48 @ d in
      if d = [] \<or> 11 < length d \<or> p = replicate 11 48 then [] else p)"

fun consulta_rows :: "nat \<Rightarrow> nat \<Rightarrow> csv_doc \<Rightarrow> (gostr \<times> gostr) list \<Rightarrow> err + (gostr \<times> gostr) list" where
  "consulta_rows i j [] out = Inr out"
| "consulta_rows i j (Inl e # rows) out = Inl e"
| "consulta_rows i j (Inr row # rows) out =
     (if length row \<le> i \<or> length row \<le> j then consulta_rows i j rows out
      else let cpf = normalize_cpf (row ! i); sq = trim_space (row ! j) in
        consulta_rows i j rows (if cpf = [] \<or> sq = [] \<or> map_of out cpf \<noteq> None then out else out @ [(cpf, sq)]))"

definition parse_consulta_cpf_to_sq :: "csv_doc \<Rightarrow> err + (gostr \<times> gostr) list" where
  "parse_consulta_cpf_to_sq doc =
     (case doc of
        [] \<Rightarrow> Inl (Refused ''empty consulta csv'')
      | Inl e # _ \<Rightarrow> Inl e
      | Inr header # rows \<Rightarrow>
          (case (row_to_index header (lit ''NR_CPF_CANDIDATO''), row_to_index header (lit ''SQ_CANDIDATO'')) of
             (Some i, Some j) \<Rightarrow> consulta_rows i j rows []
           | _ \<Rightarrow> Inl (Refused ''consulta csv missing columns'')))"

definition is_consulta_of :: "gostr \<Rightarrow> gostr \<Rightarrow> bool" where
  "is_consulta_of uf entry =
     (let name = to_upper (path_base entry) in
      has_prefix name (lit ''CONSULTA_CAND_'') \<and> has_suffix name (lit ''.CSV'') \<and> \<not> contains name (lit ''_BRASIL'') \<and>
      (uf = [] \<or> has_suffix (take (length name - 4) name) ([95] @ uf)))"

fun merge_consultas :: "gostr \<Rightarrow> zip_entry list \<Rightarrow> (gostr \<times> gostr) list \<Rightarrow> err + (gostr \<times> gostr) list" where
  "merge_consultas uf [] out = Inr out"
| "merge_consultas uf (z # zs) out =
     (if \<not> is_consulta_of uf (ze_name z) then merge_consultas uf zs out
      else case ze_file z of
          Inl e \<Rightarrow> Inl e
        | Inr doc \<Rightarrow>
            (case parse_consulta_cpf_to_sq doc of
               Inl e \<Rightarrow> Inl e
             | Inr m \<Rightarrow> merge_consultas uf zs (out @ filter (\<lambda>(k, _). map_of out k = None) m)))"

definition build_cpf_to_sq :: "err + zip_entry list \<Rightarrow> gostr \<Rightarrow> err + (gostr \<times> gostr) list" where
  "build_cpf_to_sq archive uf =
     (case archive of Inl e \<Rightarrow> Inl e | Inr zs \<Rightarrow> merge_consultas (to_upper (trim_space uf)) zs [])"

section \<open>The wikis\<close>

datatype wk_request = SparqlQuery gostr gostr | TitleQuery gostr | EntityQuery gostr

datatype wk_reply = WkDropped | WkAnswered int "gostr option"

record wiki_page =
  wp_missing :: bool
  wp_item :: gostr

text \<open>The value of a claim is a text, something else, or not there.\<close>

datatype snak = SnakText gostr | SnakOther | SnakNone

type_synonym wiki_entity = "gostr \<times> (gostr \<times> snak list) list"

record wk_api =
  wk_url_ok :: "wk_request \<Rightarrow> bool"
  wk_server :: "nat \<Rightarrow> wk_request \<Rightarrow> nat \<times> wk_reply"
  js_sparql :: "gostr \<Rightarrow> gostr option list option"
  js_pages :: "gostr \<Rightarrow> wiki_page list option"
  js_entities :: "gostr \<Rightarrow> wiki_entity list option"

record wiki_client =
  wk_endpoint :: gostr
  wk_now :: nat
  wk_deadline :: "nat option"
  wk_last :: "nat option"
  wk_log :: "(nat \<times> wk_request) list"

definition default_sparql_endpoint :: gostr where
  "default_sparql_endpoint = lit ''https://query.wikidata.org/sparql''"

definition wk_interval :: nat where "wk_interval = 1 * second"
definition wk_timeout :: nat where "wk_timeout = 45 * second"
definition wk_attempts :: nat where "wk_attempts = 5"

definition new_wiki_client :: "gostr \<Rightarrow> nat \<Rightarrow> nat option \<Rightarrow> wiki_client" where
  "new_wiki_client endpoint now deadline =
     \<lparr>wk_endpoint = (if trim_space endpoint = [] then default_sparql_endpoint else trim_space endpoint),
      wk_now = now, wk_deadline = deadline, wk_last = None, wk_log = []\<rparr>"

definition wk_sleep :: "nat \<Rightarrow> (wiki_client, unit) prog" where
  "wk_sleep d s =
     (case wk_deadline s of
        None \<Rightarrow> (Inr (), s\<lparr>wk_now := wk_now s + d\<rparr>)
      | Some dl \<Rightarrow> if dl \<le> wk_now s + d then (Inl HttpError, s\<lparr>wk_now := max (wk_now s) dl\<rparr>)
                  else (Inr (), s\<lparr>wk_now := wk_now s + d\<rparr>))"

text \<open>A cancelled wait is not an error here; the request that follows is what fails.\<close>

definition wk_throttle :: "(wiki_client, unit) prog" where
  "wk_throttle =
     bindR (getR (\<lambda>s. case wk_last s of None \<Rightarrow> 0 | Some l \<Rightarrow> wk_interval - (wk_now s - l))) (\<lambda>wait.
       seqR (whenR (0 < wait) (ignoreR (wk_sleep wait))) (modR (\<lambda>s. s\<lparr>wk_last := Some (wk_now s)\<rparr>)))"

definition wk_double :: "nat \<Rightarrow> nat" where
  "wk_double b = (if 30 * second < 2 * b then 30 * second else 2 * b)"

text \<open>A context that is cancelled already sends no request.\<close>

definition wk_do :: "wk_api \<Rightarrow> wk_request \<Rightarrow> (wiki_client, wk_reply) prog" where
  "wk_do api rq s =
     (if (case wk_deadline s of None \<Rightarrow> False | Some dl \<Rightarrow> dl \<le> wk_now s) then (Inr WkDropped, s)
      else case wk_server api (length (wk_log s)) rq of (dt, r) \<Rightarrow>
        let s' = s\<lparr>wk_log := wk_log s @ [(wk_now s, rq)]\<rparr>;
            arrival = wk_now s + min dt wk_timeout;
            answer = (if wk_timeout < dt then WkDropped else r)
        in case wk_deadline s of
             None \<Rightarrow> (Inr answer, s'\<lparr>wk_now := arrival\<rparr>)
           | Some dl \<Rightarrow> if dl \<le> arrival then (Inr WkDropped, s'\<lparr>wk_now := dl\<rparr>) else (Inr answer, s'\<lparr>wk_now := arrival\<rparr>))"

fun wk_get_from :: "wk_api \<Rightarrow> wk_request \<Rightarrow> nat \<Rightarrow> nat \<Rightarrow> (wiki_client, gostr) prog" where
  "wk_get_from api rq 0 b = throw HttpError"
| "wk_get_from api rq (Suc left) b =
     seqR wk_throttle
       (if \<not> wk_url_ok api rq then throw (Refused ''build request'')
        else bindR (wk_do api rq) (\<lambda>r.
          case r of
            WkDropped \<Rightarrow> seqR (wk_sleep b) (wk_get_from api rq left (wk_double b))
          | WkAnswered status bd \<Rightarrow>
              if status = 200 then (case bd of None \<Rightarrow> throw HttpError | Some t \<Rightarrow> ret t)
              else if status = 429 \<or> 500 \<le> status then seqR (wk_sleep b) (wk_get_from api rq left (wk_double b))
              else throw HttpError))"

definition wk_get :: "wk_api \<Rightarrow> wk_request \<Rightarrow> (wiki_client, gostr) prog" where
  "wk_get api rq = wk_get_from api rq wk_attempts (1 * second)"

section \<open>Companies\<close>

definition format_cnpj :: "gostr \<Rightarrow> gostr" where
  "format_cnpj d =
     (if go_len d \<noteq> 14 then d
      else take 2 d @ lit ''.'' @ take 3 (drop 2 d) @ lit ''.'' @ take 3 (drop 5 d) @ lit ''/'' @ take 4 (drop 8 d) @ lit ''-'' @ drop 12 d)"

text \<open>34 is the quotation mark, 10 the end of a line.\<close>

definition org_image_sparql :: "gostr \<Rightarrow> gostr" where
  "org_image_sparql cnpj =
     lit ''SELECT ?image WHERE {'' @ [10] @
     lit ''  VALUES ?cnpj { '' @ [34] @ format_cnpj cnpj @ [34, 32, 34] @ cnpj @ [34] @ lit '' }'' @ [10] @
     lit ''  ?item wdt:P6204 ?cnpj .'' @ [10] @
     lit ''  ?item wdt:P18 ?image .'' @ [10] @ lit ''} LIMIT 1''"

definition parse_sparql_image :: "wk_api \<Rightarrow> gostr \<Rightarrow> gostr option" where
  "parse_sparql_image api body =
     (case js_sparql api body of
        None \<Rightarrow> None
      | Some bs \<Rightarrow> (case List.find (\<lambda>b. case b of None \<Rightarrow> False | Some v \<Rightarrow> trim_space v \<noteq> []) bs of
          Some (Some v) \<Rightarrow> Some v | _ \<Rightarrow> None))"

text \<open>What follows the last occurrence of a text.\<close>

fun after_last :: "gostr \<Rightarrow> gostr \<Rightarrow> gostr option" where
  "after_last p [] = None"
| "after_last p (r # rs) =
     (case after_last p rs of
        Some t \<Rightarrow> Some t
      | None \<Rightarrow> if has_prefix (r # rs) p then Some (drop (length p) (r # rs)) else None)"

definition commons_filename_from_p18 :: "gostr \<Rightarrow> gostr" where
  "commons_filename_from_p18 value =
     (let v = trim_space value;
          v = (case after_last (lit ''Special:FilePath/'') v of None \<Rightarrow> v | Some t \<Rightarrow> t);
          v = (case path_unescape v of None \<Rightarrow> v | Some t \<Rightarrow> t)
      in trim_space (replace_all v [95] [32]))"

definition commons_page_name :: "gostr \<Rightarrow> gostr" where
  "commons_page_name file = path_escape (replace_all (trim_space file) [32] [95])"

definition build_commons_thumb_url :: "gostr \<Rightarrow> gostr" where
  "build_commons_thumb_url file =
     lit ''https://commons.wikimedia.org/wiki/Special:FilePath/'' @ commons_page_name file @ lit ''?width=512''"

definition build_commons_attribution :: "gostr \<Rightarrow> gostr" where
  "build_commons_attribution file =
     trim_space file @ lit '': Wikimedia Commons ('' @ lit ''https://commons.wikimedia.org/wiki/File:'' @ commons_page_name file @ lit '')''"

definition find_org_image_by_cnpj :: "wk_api \<Rightarrow> gostr \<Rightarrow> (wiki_client, gostr option) prog" where
  "find_org_image_by_cnpj api cnpj =
     bindR (getR wk_endpoint) (\<lambda>ep.
     bindR (wk_get api (SparqlQuery ep (org_image_sparql cnpj))) (\<lambda>body.
       ret (map_option commons_filename_from_p18 (parse_sparql_image api body))))"

section \<open>Politicians\<close>

text \<open>Exactly one page that is there and has an item; Go's order of the pages makes no difference.\<close>

definition parse_wikibase_item :: "wk_api \<Rightarrow> gostr \<Rightarrow> err + gostr option" where
  "parse_wikibase_item api body =
     (case js_pages api body of
        None \<Rightarrow> Inl DecodeError
      | Some ps \<Rightarrow>
          (case filter (\<lambda>p. \<not> wp_missing p \<and> trim_space (wp_item p) \<noteq> []) ps of
             [p] \<Rightarrow> Inr (Some (trim_space (wp_item p)))
           | _ \<Rightarrow> Inr None))"

text \<open>
  \<^verbatim>\<open>json.Unmarshal\<close> decodes every claim of every entity of the document before one is looked up, and a value
  that is not a text is an error.
\<close>

definition unmarshal_entities :: "wk_api \<Rightarrow> gostr \<Rightarrow> wiki_entity list option" where
  "unmarshal_entities api body =
     (case js_entities api body of
        None \<Rightarrow> None
      | Some es \<Rightarrow> if list_ex (\<lambda>(_, claims). list_ex (\<lambda>(_, vs). SnakOther \<in> set vs) claims) es then None else Some es)"

definition parse_entity_data_p18 :: "wk_api \<Rightarrow> gostr \<Rightarrow> gostr \<Rightarrow> err + gostr option" where
  "parse_entity_data_p18 api body qid =
     (case unmarshal_entities api body of
        None \<Rightarrow> Inl DecodeError
      | Some es \<Rightarrow>
          (case map_of es qid of
             None \<Rightarrow> Inr None
           | Some claims \<Rightarrow>
               (case map_of claims (lit ''P18'') of
                  Some (SnakText t # _) \<Rightarrow> Inr (if trim_space t = [] then None else Some (trim_space t))
                | _ \<Rightarrow> Inr None)))"

definition lift_result :: "err + 'a \<Rightarrow> ('s, 'a) prog" where
  "lift_result r = (case r of Inl e \<Rightarrow> throw e | Inr a \<Rightarrow> ret a)"

definition wikibase_item_for_title :: "wk_api \<Rightarrow> gostr \<Rightarrow> (wiki_client, gostr option) prog" where
  "wikibase_item_for_title api title = bindR (wk_get api (TitleQuery title)) (\<lambda>body. lift_result (parse_wikibase_item api body))"

definition entity_image :: "wk_api \<Rightarrow> gostr \<Rightarrow> (wiki_client, gostr option) prog" where
  "entity_image api qid = bindR (wk_get api (EntityQuery qid)) (\<lambda>body. lift_result (parse_entity_data_p18 api body qid))"

fun images_by_qid :: "wk_api \<Rightarrow> gostr list \<Rightarrow> (gostr \<times> gostr) list \<Rightarrow> (wiki_client, (gostr \<times> gostr) list) prog" where
  "images_by_qid api [] seen = ret seen"
| "images_by_qid api (n # ns) seen =
     (if trim_space n = [] then images_by_qid api ns seen
      else bindR (wikibase_item_for_title api (trim_space n)) (\<lambda>item.
        case item of
          None \<Rightarrow> images_by_qid api ns seen
        | Some qid \<Rightarrow>
            if map_of seen qid \<noteq> None then images_by_qid api ns seen
            else bindR (entity_image api qid) (\<lambda>img.
              images_by_qid api ns (seen @ [(qid, case img of None \<Rightarrow> [] | Some f \<Rightarrow> f)]))))"

definition find_politician_image :: "wk_api \<Rightarrow> gostr list \<Rightarrow> (wiki_client, gostr option) prog" where
  "find_politician_image api names =
     bindR (images_by_qid api names []) (\<lambda>seen.
       ret (case seen of [(_, img)] \<Rightarrow> if trim_space img = [] then None else Some img | _ \<Rightarrow> None))"

section \<open>The graph\<close>

definition blank_prop :: "string \<Rightarrow> node \<Rightarrow> bool" where
  "blank_prop k n \<longleftrightarrow> n_props n k = None \<or> n_props n k = Some (PStr [])"

record politician_target =
  pg_id :: gostr
  pg_cpf :: gostr
  pg_name :: gostr
  pg_state :: gostr
  pg_aliases :: "gostr list"
  pg_photo :: gostr

text \<open>The limit of the query counts the rows without a CPF too.\<close>

definition list_politicians_needing_photo :: "gostr \<Rightarrow> int \<Rightarrow> ('z world_scheme, politician_target list) prog" where
  "list_politicians_needing_photo uf0 limit =
     cypher_read (\<lambda>g.
       let uf = to_upper (trim_space uf0);
           ns = match_nodes ''Politician'' (\<lambda>n. blank_prop ''photo_url'' n \<and> (uf = [] \<or> prop_is ''state'' (PStr uf) n)) g;
           rows = (if 0 < limit then take (nat limit) ns else ns)
       in List.map (\<lambda>n. \<lparr>pg_id = str_prop (n_props n) ''id'', pg_cpf = str_prop (n_props n) ''cpf'',
              pg_name = str_prop (n_props n) ''name'', pg_state = str_prop (n_props n) ''state'',
              pg_aliases = filter (\<lambda>a. trim_space a \<noteq> []) (list_prop (n_props n) ''name_aliases''), pg_photo = []\<rparr>)
            (filter (\<lambda>n. trim_space (str_prop (n_props n) ''cpf'') \<noteq> []) rows))"

definition portrait_facts :: "gostr \<Rightarrow> gostr \<Rightarrow> gostr \<Rightarrow> node \<Rightarrow> node" where
  "portrait_facts url source credit =
     upd_props [(''photo_url'', Some (PStr url)), (''photo_source'', Some (PStr source)), (''photo_attribution'', Some (PStr credit))]"

definition unpictured_politician :: "gostr \<Rightarrow> node \<Rightarrow> bool" where
  "unpictured_politician cpf n \<longleftrightarrow> has_label ''Politician'' n \<and> prop_is ''cpf'' (PStr cpf) n \<and> blank_prop ''photo_url'' n"

definition set_politician_photo_by_cpf :: "gostr \<Rightarrow> gostr \<Rightarrow> gostr \<Rightarrow> gostr \<Rightarrow> ('z world_scheme, bool) prog" where
  "set_politician_photo_by_cpf cpf url source credit =
     cypher (\<lambda>g. (map_nodes (unpictured_politician cpf) (portrait_facts url source credit) g,
       list_ex (unpictured_politician cpf) (g_nodes g)))"

record organization_target =
  og_id :: gostr
  og_cnpj :: gostr
  og_name :: gostr

definition unpictured_company :: "node \<Rightarrow> bool" where
  "unpictured_company n \<longleftrightarrow>
     (case n_props n ''cnpj'' of Some (PStr c) \<Rightarrow> length c = 14 | _ \<Rightarrow> False) \<and> blank_prop ''image_url'' n"

definition list_organizations_needing_photo :: "int \<Rightarrow> ('z world_scheme, organization_target list) prog" where
  "list_organizations_needing_photo limit =
     cypher_read (\<lambda>g.
       let ns = match_nodes ''Organization'' unpictured_company g; rows = (if 0 < limit then take (nat limit) ns else ns)
       in List.map (\<lambda>n. \<lparr>og_id = str_prop (n_props n) ''id'', og_cnpj = str_prop (n_props n) ''cnpj'', og_name = str_prop (n_props n) ''name''\<rparr>)
            (filter (\<lambda>n. trim_space (str_prop (n_props n) ''cnpj'') \<noteq> []) rows))"

definition image_facts :: "gostr \<Rightarrow> gostr \<Rightarrow> gostr \<Rightarrow> node \<Rightarrow> node" where
  "image_facts url source credit =
     upd_props [(''image_url'', Some (PStr url)), (''photo_url'', Some (PStr url)), (''photo_source'', Some (PStr source)),
       (''photo_attribution'', Some (PStr credit))]"

definition unpictured_organization :: "gostr \<Rightarrow> node \<Rightarrow> bool" where
  "unpictured_organization cnpj n \<longleftrightarrow> has_label ''Organization'' n \<and> prop_is ''cnpj'' (PStr cnpj) n \<and> blank_prop ''image_url'' n"

definition set_organization_photo_by_cnpj :: "gostr \<Rightarrow> gostr \<Rightarrow> gostr \<Rightarrow> gostr \<Rightarrow> ('z world_scheme, bool) prog" where
  "set_organization_photo_by_cnpj cnpj url source credit =
     cypher (\<lambda>g. (map_nodes (unpictured_organization cnpj) (image_facts url source credit) g,
       list_ex (unpictured_organization cnpj) (g_nodes g)))"

section \<open>The worker\<close>

datatype image_reply = ImageDropped | ImageAnswer int gostr "nat list"

text \<open>The archive of candidates: it does not come, it comes with another status, or it is there to be opened.\<close>

datatype archive_reply = ArchiveDropped | ArchiveStatus int | ArchiveUnwritten | ArchiveSaved "err + zip_entry list"

record photo_env =
  pe_image :: "nat \<Rightarrow> gostr \<Rightarrow> image_reply"
  pe_mkdir :: bool
  pe_archive :: "int \<Rightarrow> archive_reply"
  pe_wiki :: wk_api

record photo_options =
  px_modes :: "gostr list"
  px_year :: int
  px_uf :: gostr
  px_limit :: int
  px_dry :: bool
  px_template :: gostr
  px_endpoint :: gostr
  px_probe_uf :: gostr
  px_probe_sq :: gostr

record photo_stats =
  pt_scanned :: nat
  pt_tse :: nat
  pt_no_sq :: nat
  pt_unverified :: nat
  pt_orgs :: nat
  pt_orgs_set :: nat
  pt_orgs_none :: nat
  pt_wiki :: nat
  pt_wiki_set :: nat
  pt_wiki_none :: nat

definition no_photo_stats :: photo_stats where
  "no_photo_stats = \<lparr>pt_scanned = 0, pt_tse = 0, pt_no_sq = 0, pt_unverified = 0, pt_orgs = 0, pt_orgs_set = 0,
     pt_orgs_none = 0, pt_wiki = 0, pt_wiki_set = 0, pt_wiki_none = 0\<rparr>"

text \<open>\<open>ph_looks\<close> counts the looks at pictures; the code keeps no such number.\<close>

record photo_state = world +
  ph_wiki :: wiki_client
  ph_looks :: nat
  ph_stats :: photo_stats

definition in_wiki :: "(wiki_client, 'a) prog \<Rightarrow> (photo_state, 'a) prog" where
  "in_wiki m s = (case m (ph_wiki s) of (r, c) \<Rightarrow> (r, s\<lparr>ph_wiki := c\<rparr>))"

definition tally :: "(photo_stats \<Rightarrow> photo_stats) \<Rightarrow> (photo_state, unit) prog" where
  "tally f = modR (\<lambda>s. s\<lparr>ph_stats := f (ph_stats s)\<rparr>)"

definition verify_image_url :: "photo_env \<Rightarrow> gostr \<Rightarrow> (photo_state, bool) prog" where
  "verify_image_url e url s =
     (let t = s\<lparr>ph_looks := ph_looks s + 1\<rparr> in
      case pe_image e (ph_looks s) url of
        ImageDropped \<Rightarrow> (Inl HttpError, t)
      | ImageAnswer status ct prefix \<Rightarrow>
          (Inr (status = 200 \<and> looks_like_image ct prefix), t))"

definition download_candidates :: "photo_env \<Rightarrow> int \<Rightarrow> err + (err + zip_entry list)" where
  "download_candidates e year =
     (if \<not> pe_mkdir e then Inl (Refused ''create consulta dir'')
      else case pe_archive e year of
          ArchiveDropped \<Rightarrow> Inl HttpError
        | ArchiveStatus _ \<Rightarrow> Inl HttpError
        | ArchiveUnwritten \<Rightarrow> Inl (Refused ''write consulta zip'')
        | ArchiveSaved z \<Rightarrow> Inr z)"

definition selected_modes :: "gostr list \<Rightarrow> gostr list" where
  "selected_modes requested =
     (if requested = [] then [lit ''tse'', lit ''wikidata'']
      else dedup_by (\<lambda>m. m) {} (filter (\<lambda>m. m \<noteq> []) (List.map (\<lambda>m. to_lower (trim_space m)) requested)))"

definition needs_photo :: "gostr \<Rightarrow> bool" where
  "needs_photo url \<longleftrightarrow> trim_space url = []"

fun first_non_blank :: "gostr list \<Rightarrow> gostr" where
  "first_non_blank [] = []"
| "first_non_blank (v # vs) = (if trim_space v \<noteq> [] then trim_space v else first_non_blank vs)"

text \<open>231 and 227 are the letters c with a cedilla and a with a tilde.\<close>

definition photo_source_of_year :: "int \<Rightarrow> gostr" where
  "photo_source_of_year year = lit ''TSE Divulga'' @ [231, 227] @ lit ''o de Candidaturas '' @ itoa year"

definition photo_source_commons :: gostr where "photo_source_commons = lit ''Wikimedia Commons''"

definition tse_target ::
  "photo_env \<Rightarrow> photo_options \<Rightarrow> gostr \<Rightarrow> int \<Rightarrow> (gostr \<times> gostr) list \<Rightarrow> politician_target \<Rightarrow> (photo_state, unit) prog" where
  "tse_target e w template year sqs t =
     seqR (tally (\<lambda>x. x\<lparr>pt_scanned := pt_scanned x + 1\<rparr>))
       (if \<not> needs_photo (pg_photo t) then ret ()
        else case map_of sqs (normalize_cpf (pg_cpf t)) of
            None \<Rightarrow> tally (\<lambda>x. x\<lparr>pt_no_sq := pt_no_sq x + 1\<rparr>)
          | Some sq \<Rightarrow>
              let url = fill_template template year (first_non_blank [px_uf w, pg_state t]) sq in
              bindR (verify_image_url e url) (\<lambda>ok.
                if \<not> ok then tally (\<lambda>x. x\<lparr>pt_unverified := pt_unverified x + 1\<rparr>)
                else if px_dry w then tally (\<lambda>x. x\<lparr>pt_tse := pt_tse x + 1\<rparr>)
                else bindR (set_politician_photo_by_cpf (pg_cpf t) url (photo_source_of_year year) []) (\<lambda>done.
                  whenR done (tally (\<lambda>x. x\<lparr>pt_tse := pt_tse x + 1\<rparr>)))))"

definition probe_url :: "photo_options \<Rightarrow> gostr \<Rightarrow> int \<Rightarrow> gostr" where
  "probe_url w template year =
     (let sq = first_non_blank [px_probe_sq w, default_probe_sq];
          y = (if sq = default_probe_sq \<and> year \<noteq> default_probe_year then default_probe_year else year)
      in fill_template template y (first_non_blank [px_probe_uf w, default_probe_uf]) sq)"

definition run_tse :: "photo_env \<Rightarrow> photo_options \<Rightarrow> (photo_state, unit) prog" where
  "run_tse e w =
     (let year = (if px_year w = 0 then default_probe_year else px_year w);
          template = (if trim_space (px_template w) = [] then default_tse_template else trim_space (px_template w)) in
      bindR (verify_image_url e (probe_url w template year)) (\<lambda>ok.
        if \<not> ok then throw (Refused ''no stable TSE photo hotlink'')
        else case download_candidates e year of
            Inl er \<Rightarrow> throw er
          | Inr archive \<Rightarrow>
              (case build_cpf_to_sq archive (px_uf w) of
                 Inl er \<Rightarrow> throw er
               | Inr sqs \<Rightarrow>
                   bindR (list_politicians_needing_photo (px_uf w) (px_limit w)) (forR (tse_target e w template year sqs)))))"

definition company_target :: "photo_env \<Rightarrow> photo_options \<Rightarrow> organization_target \<Rightarrow> (photo_state, unit) prog" where
  "company_target e w o' =
     seqR (tally (\<lambda>x. x\<lparr>pt_orgs := pt_orgs x + 1\<rparr>))
       (bindR (in_wiki (find_org_image_by_cnpj (pe_wiki e) (og_cnpj o'))) (\<lambda>img.
          case img of
            None \<Rightarrow> tally (\<lambda>x. x\<lparr>pt_orgs_none := pt_orgs_none x + 1\<rparr>)
          | Some file \<Rightarrow>
              if px_dry w then tally (\<lambda>x. x\<lparr>pt_orgs_set := pt_orgs_set x + 1\<rparr>)
              else bindR (set_organization_photo_by_cnpj (og_cnpj o') (build_commons_thumb_url file) photo_source_commons
                     (build_commons_attribution file)) (\<lambda>done.
                whenR done (tally (\<lambda>x. x\<lparr>pt_orgs_set := pt_orgs_set x + 1\<rparr>)))))"

definition wiki_target :: "photo_env \<Rightarrow> photo_options \<Rightarrow> politician_target \<Rightarrow> (photo_state, unit) prog" where
  "wiki_target e w t =
     seqR (tally (\<lambda>x. x\<lparr>pt_wiki := pt_wiki x + 1\<rparr>))
       (if \<not> needs_photo (pg_photo t) then ret ()
        else bindR (in_wiki (find_politician_image (pe_wiki e) (pg_name t # pg_aliases t))) (\<lambda>img.
          case img of
            None \<Rightarrow> tally (\<lambda>x. x\<lparr>pt_wiki_none := pt_wiki_none x + 1\<rparr>)
          | Some file \<Rightarrow>
              if px_dry w then tally (\<lambda>x. x\<lparr>pt_wiki_set := pt_wiki_set x + 1\<rparr>)
              else bindR (set_politician_photo_by_cpf (pg_cpf t) (build_commons_thumb_url file) photo_source_commons
                     (build_commons_attribution file)) (\<lambda>done.
                if done then tally (\<lambda>x. x\<lparr>pt_wiki_set := pt_wiki_set x + 1\<rparr>)
                else tally (\<lambda>x. x\<lparr>pt_wiki_none := pt_wiki_none x + 1\<rparr>))))"

definition run_wikidata :: "photo_env \<Rightarrow> photo_options \<Rightarrow> (photo_state, unit) prog" where
  "run_wikidata e w =
     seqR (modR (\<lambda>s. s\<lparr>ph_wiki := new_wiki_client (px_endpoint w) (wk_now (ph_wiki s)) (wk_deadline (ph_wiki s))\<rparr>))
    (seqR (bindR (list_organizations_needing_photo (px_limit w)) (forR (company_target e w)))
          (bindR (list_politicians_needing_photo (px_uf w) (px_limit w)) (forR (wiki_target e w))))"

definition run_photo_mode :: "photo_env \<Rightarrow> photo_options \<Rightarrow> gostr \<Rightarrow> (photo_state, unit) prog" where
  "run_photo_mode e w mode =
     (if mode = lit ''tse'' then run_tse e w
      else if mode = lit ''wikidata'' then run_wikidata e w
      else throw (Refused ''unknown mode''))"

definition run_photos :: "photo_env \<Rightarrow> photo_options \<Rightarrow> (photo_state, unit) prog" where
  "run_photos e w = seqR (tally (\<lambda>_. no_photo_stats)) (forR (run_photo_mode e w) (selected_modes (px_modes w)))"

definition split_csv :: "gostr \<Rightarrow> gostr list" where
  "split_csv s = filter (\<lambda>p. p \<noteq> []) (List.map trim_space (split_on 44 s))"

definition photos_main :: "photo_env \<Rightarrow> photo_options \<Rightarrow> gostr \<Rightarrow> (photo_state, unit) prog" where
  "photos_main e w modes = run_photos e (w\<lparr>px_modes := split_csv modes\<rparr>)"

end
