(* ===== verification/Photos_Props.thy ===== *)
theory Photos_Props
  imports Photos
begin

text \<open>
  What the photo worker promises: a picture that is there stays, a picture of the court was looked at first,
  a politician is only given the picture of the one entity all names lead to, and the wikis are asked once
  a second.
\<close>

section \<open>The contract of the stores\<close>

locale photo_stores = world_order R for R :: "photo_state \<Rightarrow> photo_state \<Rightarrow> bool" +
  assumes same_world: "world.truncate s = world.truncate t \<Longrightarrow> R s t"
    and portrait: "moves R (set_politician_photo_by_cpf cpf url source credit)"
    and image: "moves R (set_organization_photo_by_cnpj cnpj url source credit)"
begin

lemma own [order_intros]:
  "moves R (tally f)" "moves R (in_wiki m)" "moves R (verify_image_url e url)"
  "moves R (modR (\<lambda>s. s\<lparr>ph_wiki := c s\<rparr>))"
  by (rule movesI, rule same_world,
      simp add: tally_def modR_def in_wiki_def verify_image_url_def Let_def world.truncate_def split: prod.split image_reply.split)+

lemma listing [order_intros]:
  "moves R (list_politicians_needing_photo uf l)" "moves R (list_organizations_needing_photo l)"
  unfolding list_politicians_needing_photo_def list_organizations_needing_photo_def by (rule cypher_read)+

lemma tse: "moves R (run_tse e w)"
  unfolding run_tse_def tse_target_def Let_def
  by (intro bindR own moves_if throw moves_sum listing forR seqR ret moves_option portrait whenR)

lemma wikidata: "moves R (run_wikidata e w)"
  unfolding run_wikidata_def company_target_def wiki_target_def
  by (intro bindR own moves_if moves_option listing forR seqR ret portrait image whenR)

lemma run: "moves R (photos_main e w modes)"
  unfolding photos_main_def run_photos_def run_photo_mode_def
  by (intro seqR own forR moves_if tse wikidata throw)

end

section \<open>Pictures stay\<close>

definition picture_props :: "string set" where
  "picture_props = {''photo_url'', ''photo_source'', ''photo_attribution'', ''image_url''}"

definition lacks_picture :: "node \<Rightarrow> bool" where
  "lacks_picture n \<longleftrightarrow>
     (has_label ''Politician'' n \<and> blank_prop ''photo_url'' n) \<or> (has_label ''Organization'' n \<and> blank_prop ''image_url'' n)"

definition pictured_only :: "node \<Rightarrow> node \<Rightarrow> bool" where
  "pictured_only m n \<longleftrightarrow>
     n = m \<or> (lacks_picture m \<and> n_key n = n_key m \<and> n_labels n = n_labels m \<and>
       (\<forall>k. k \<notin> picture_props \<longrightarrow> n_props n k = n_props m k))"

definition pictures_only :: "graph \<Rightarrow> graph \<Rightarrow> bool" where
  "pictures_only g h \<longleftrightarrow> g_edges h = g_edges g \<and> list_all2 pictured_only (g_nodes g) (g_nodes h)"

lemma pictured_trans: "pictured_only l m \<Longrightarrow> pictured_only m n \<Longrightarrow> pictured_only l n"
  by (auto simp: pictured_only_def)

lemma pictures_refl [simp]: "pictures_only g g"
  by (simp add: pictures_only_def pictured_only_def list_all2_refl)

lemma pictures_trans:
  assumes "pictures_only g h" and "pictures_only h k" shows "pictures_only g k"
proof -
  have "list_all2 pictured_only (g_nodes g) (g_nodes k)"
    by (rule list_all2_trans [of pictured_only pictured_only pictured_only "g_nodes g" "g_nodes h"])
      (use assms pictured_trans in \<open>auto simp: pictures_only_def\<close>)
  with assms show ?thesis by (simp add: pictures_only_def)
qed

lemma pictures_map:
  assumes "\<And>n. P n \<Longrightarrow> pictured_only n (f n)" shows "pictures_only g (map_nodes P f g)"
  using assms by (auto simp: pictures_only_def map_nodes_def list_all2_map2 pictured_only_def intro!: list_all2_refl)

lemma facts_sel [simp]:
  "n_key (portrait_facts u a c n) = n_key n" "n_labels (portrait_facts u a c n) = n_labels n"
  "n_key (image_facts u a c n) = n_key n" "n_labels (image_facts u a c n) = n_labels n"
  "k \<notin> picture_props \<Longrightarrow> n_props (portrait_facts u a c n) k = n_props n k"
  "k \<notin> picture_props \<Longrightarrow> n_props (image_facts u a c n) k = n_props n k"
  by (auto simp: portrait_facts_def image_facts_def picture_props_def upd_props_other)

definition album :: "'z world_scheme \<Rightarrow> 'z world_scheme \<Rightarrow> bool" where
  "album s t \<longleftrightarrow> pictures_only (graph s) (graph t) \<and> tombs t = tombs s"

interpretation album: world_order album
  by unfold_locales (auto simp: album_def intro: pictures_trans)

interpretation album: photo_stores album
proof unfold_locales
  show "world.truncate s = world.truncate t \<Longrightarrow> album s t" for s t :: photo_state
    using arg_cong [of "world.truncate s" "world.truncate t" graph] arg_cong [of "world.truncate s" "world.truncate t" tombs]
    by (simp add: album_def world.truncate_def)
  show "moves album (set_politician_photo_by_cpf cpf url source credit :: (photo_state, bool) prog)" for cpf url source credit
    unfolding set_politician_photo_by_cpf_def
    by (rule album.cypher)
      (auto simp: album_def unpictured_politician_def pictured_only_def lacks_picture_def intro!: pictures_map)
  show "moves album (set_organization_photo_by_cnpj cnpj url source credit :: (photo_state, bool) prog)" for cnpj url source credit
    unfolding set_organization_photo_by_cnpj_def
    by (rule album.cypher)
      (auto simp: album_def unpictured_organization_def pictured_only_def lacks_picture_def intro!: pictures_map)
qed

section \<open>Pictures are looked at\<close>

definition picture_at :: "photo_env \<Rightarrow> gostr \<Rightarrow> bool" where
  "picture_at e url \<longleftrightarrow> (\<exists>k ct b. pe_image e k url = ImageAnswer 200 ct b \<and> looks_like_image ct b)"

definition shown_node :: "photo_env \<Rightarrow> node \<Rightarrow> node \<Rightarrow> bool" where
  "shown_node e m n \<longleftrightarrow>
     n_props n ''photo_url'' = n_props m ''photo_url'' \<or> (\<exists>u. n_props n ''photo_url'' = Some (PStr u) \<and> picture_at e u)"

definition shown :: "photo_env \<Rightarrow> 'z world_scheme \<Rightarrow> 'z world_scheme \<Rightarrow> bool" where
  "shown e s t \<longleftrightarrow> list_all2 (shown_node e) (g_nodes (graph s)) (g_nodes (graph t))"

lemma shown_node_trans: "shown_node e l m \<Longrightarrow> shown_node e m n \<Longrightarrow> shown_node e l n"
  by (auto simp: shown_node_def)

lemma shown_refl: "list_all2 (shown_node e) ns ns"
  by (rule list_all2_refl) (simp add: shown_node_def)

interpretation shown: world_order "shown e"
proof unfold_locales
  fix s t u :: "'z world_scheme" and fs
  show "shown e s t \<Longrightarrow> shown e t u \<Longrightarrow> shown e s u"
    unfolding shown_def by (rule list_all2_trans [OF shown_node_trans])
qed (simp_all add: shown_def shown_refl)

lemma shown_same: "graph t = graph s \<Longrightarrow> shown e s t"
  by (simp add: shown_def shown_refl)

lemma shown_own:
  "moves (shown e) (tally f)" "moves (shown e) (verify_image_url e url)"
  "moves (shown e) (list_politicians_needing_photo uf l :: (photo_state, politician_target list) prog)"
proof -
  show "moves (shown e) (tally f)" "moves (shown e) (verify_image_url e url)"
    by (rule movesI, rule shown_same, simp add: tally_def modR_def verify_image_url_def Let_def split: image_reply.split)+
  show "moves (shown e) (list_politicians_needing_photo uf l :: (photo_state, politician_target list) prog)"
    unfolding list_politicians_needing_photo_def by (rule shown.cypher_read)
qed

lemma shown_portrait:
  assumes "picture_at e url" shows "moves (shown e) (set_politician_photo_by_cpf cpf url source credit)"
proof -
  have "n_props (portrait_facts url source credit n) ''photo_url'' = Some (PStr url)" for n
    by (simp add: portrait_facts_def upd_props_def)
  then show ?thesis
    unfolding set_politician_photo_by_cpf_def using assms
    by (intro shown.cypher) (auto simp: shown_def map_nodes_def list_all2_map2 shown_node_def intro!: list_all2_refl)
qed

lemma verified_picture: "verify_image_url e url s = (Inr True, t) \<Longrightarrow> picture_at e url"
  unfolding picture_at_def by (auto simp: verify_image_url_def Let_def split: image_reply.splits)

lemma shown_target: "moves (shown e) (tse_target e w template year sqs t)"
proof -
  let ?rest = "\<lambda>url ok. if \<not> ok then tally (\<lambda>x. x\<lparr>pt_unverified := pt_unverified x + 1\<rparr>)
    else if px_dry w then tally (\<lambda>x. x\<lparr>pt_tse := pt_tse x + 1\<rparr>)
    else bindR (set_politician_photo_by_cpf (pg_cpf t) url (photo_source_of_year year) []) (\<lambda>done.
      whenR done (tally (\<lambda>x. x\<lparr>pt_tse := pt_tse x + 1\<rparr>)))"
  have rest: "moves (shown e) (?rest url ok)" if "ok \<longrightarrow> picture_at e url" for url ok
    using that by (cases ok) (auto intro!: shown_own moves_if shown.bindR shown.whenR shown_portrait)
  have "shown e s (snd (bindR (verify_image_url e url) (?rest url) s))" for url s
  proof (rule shown.bindR_at [OF movesD [OF shown_own(2)]])
    fix ok u assume "verify_image_url e url s = (Inr ok, u)"
    then have "ok \<longrightarrow> picture_at e url" using verified_picture by (cases ok) auto
    from movesD [OF rest [OF this]] show "shown e u (snd (?rest url ok u))" .
  qed
  then have "moves (shown e) (bindR (verify_image_url e url) (?rest url))" for url by (rule movesI)
  then show ?thesis
    unfolding tse_target_def Let_def
    by (intro shown.seqR shown_own moves_if shown.ret moves_option)
qed

lemma shown_tse: "moves (shown e) (run_tse e w)"
  unfolding run_tse_def Let_def
  by (intro shown.bindR shown_own moves_if shown.throw moves_sum shown.forR shown_target)

section \<open>Pace\<close>

text \<open>Requests are apart by an interval, the last of them is not after the mark, and time has reached it.\<close>

definition wk_paced :: "wiki_client \<Rightarrow> bool" where
  "wk_paced c \<longleftrightarrow>
     successively (\<lambda>a b. fst a + wk_interval \<le> fst b) (wk_log c) \<and>
     (wk_log c \<noteq> [] \<longrightarrow> (\<exists>l. wk_last c = Some l \<and> fst (last (wk_log c)) \<le> l \<and> l \<le> wk_now c)) \<and>
     (\<forall>l. wk_last c = Some l \<longrightarrow> l \<le> wk_now c)"

definition wk_over :: "wiki_client \<Rightarrow> bool" where
  "wk_over c \<longleftrightarrow> (case wk_deadline c of None \<Rightarrow> False | Some dl \<Rightarrow> dl \<le> wk_now c)"

lemma wk_sleep_effect:
  assumes "wk_sleep d s = (r, t)"
  shows "wk_log t = wk_log s \<and> wk_last t = wk_last s \<and> wk_now s \<le> wk_now t \<and> wk_deadline t = wk_deadline s \<and>
    (wk_now s + d \<le> wk_now t \<or> wk_over t)"
  using assms by (auto simp: wk_sleep_def wk_over_def split: option.splits if_splits)

lemma wk_sleep_paced: "wk_paced s \<Longrightarrow> wk_sleep d s = (r, t) \<Longrightarrow> wk_paced t"
  using wk_sleep_effect [of d s r t] by (fastforce simp: wk_paced_def)

lemma wk_throttle_effect:
  assumes "wk_paced s" and "wk_throttle s = (r, t)"
  shows "r = Inr () \<and> wk_paced t \<and> (wk_over t \<or> (wk_log t \<noteq> [] \<longrightarrow> fst (last (wk_log t)) + wk_interval \<le> wk_now t)) \<and>
    wk_last t = Some (wk_now t)"
proof -
  define wait where "wait = (case wk_last s of None \<Rightarrow> 0 | Some l \<Rightarrow> wk_interval - (wk_now s - l))"
  obtain u where u: "whenR (0 < wait) (ignoreR (wk_sleep wait)) s = (Inr (), u)"
    by (cases "0 < wait"; cases "wk_sleep wait s") (auto simp: whenR_def ignoreR_def ret_def)
  have t: "r = Inr ()" "t = u\<lparr>wk_last := Some (wk_now u)\<rparr>"
    using assms(2) u by (simp_all add: wk_throttle_def bindR_getR flip: wait_def) (simp_all add: seqR_def bindR_def modR_def)
  have e: "wk_log u = wk_log s \<and> wk_now s \<le> wk_now u \<and> (wk_now s + wait \<le> wk_now u \<or> wk_over u)"
  proof (cases "0 < wait")
    case True
    then obtain r' where "wk_sleep wait s = (r', u)"
      using u by (cases "wk_sleep wait s") (auto simp: whenR_def ignoreR_def)
    from wk_sleep_effect [OF this] show ?thesis by blast
  next
    case False
    with u show ?thesis by (simp add: whenR_def ret_def)
  qed
  have "wk_over u \<or> fst (last (wk_log s)) + wk_interval \<le> wk_now u" if log: "wk_log s \<noteq> []"
  proof -
    obtain l where "wk_last s = Some l" "fst (last (wk_log s)) \<le> l" "l \<le> wk_now s"
      using assms(1) log unfolding wk_paced_def by blast
    with e show ?thesis by (auto simp: wait_def)
  qed
  moreover have "wk_paced t"
    using assms(1) e by (fastforce simp: t wk_paced_def)
  moreover have "wk_over t = wk_over u" by (simp add: t wk_over_def split: option.split)
  ultimately show ?thesis using t e by auto
qed

lemma wk_do_paced:
  assumes "wk_paced s" and "wk_over s \<or> (wk_log s \<noteq> [] \<longrightarrow> fst (last (wk_log s)) + wk_interval \<le> wk_now s)"
    and "wk_last s = Some (wk_now s)" and "wk_do api rq s = (r, t)"
  shows "wk_paced t"
proof (cases "wk_over s")
  case True
  then have "t = s" using assms(4) by (auto simp: wk_do_def wk_over_def split: option.splits)
  with assms(1) show ?thesis by simp
next
  case False
  then have log: "wk_log s \<noteq> [] \<Longrightarrow> fst (last (wk_log s)) + wk_interval \<le> wk_now s" using assms(2) by blast
  from False have "wk_log t = wk_log s @ [(wk_now s, rq)] \<and> wk_last t = wk_last s \<and> wk_now s \<le> wk_now t"
    using assms(4) by (auto simp: wk_do_def wk_over_def Let_def split: option.splits prod.splits if_splits)
  with assms(1,3) log show ?thesis by (auto simp: wk_paced_def successively_append_iff)
qed

definition keeps_pace :: "wiki_client \<Rightarrow> wiki_client \<Rightarrow> bool" where
  "keeps_pace s t \<longleftrightarrow> (wk_paced s \<longrightarrow> wk_paced t)"

interpretation wiki_pace: state_order keeps_pace
  by unfold_locales (auto simp: keeps_pace_def)

lemma wk_step_paced:
  assumes "\<And>r. moves keeps_pace (k r)"
  shows "moves keeps_pace (seqR wk_throttle (if c then throw e else bindR (wk_do api rq) k))"
proof (rule movesI)
  fix s
  obtain r t where th: "wk_throttle s = (r, t)" by fastforce
  show "keeps_pace s (snd (seqR wk_throttle (if c then throw e else bindR (wk_do api rq) k) s))"
    unfolding keeps_pace_def
  proof
    assume "wk_paced s"
    from wk_throttle_effect [OF this th] have t: "r = Inr ()" "wk_paced t"
      "wk_over t \<or> (wk_log t \<noteq> [] \<longrightarrow> fst (last (wk_log t)) + wk_interval \<le> wk_now t)" "wk_last t = Some (wk_now t)" by blast+
    obtain x u where d: "wk_do api rq t = (x, u)" by fastforce
    have u: "wk_paced u" by (rule wk_do_paced [OF t(2-4) d])
    show "wk_paced (snd (seqR wk_throttle (if c then throw e else bindR (wk_do api rq) k) s))"
      using th t u d movesD [OF assms, of u] by (cases x) (auto simp: seqR_def bindR_def throw_def keeps_pace_def)
  qed
qed

lemma wk_get_paced: "moves keeps_pace (wk_get api rq)"
proof -
  have "moves keeps_pace (wk_sleep d)" for d
    by (rule movesI) (auto simp: keeps_pace_def intro: wk_sleep_paced [OF _ surjective_pairing])
  then have "moves keeps_pace (wk_get_from api rq n b)" for n b
  proof (induction n arbitrary: b)
    case (Suc n)
    then show ?case
      unfolding wk_get_from.simps
      by (intro wk_step_paced) (auto intro!: wiki_pace.seqR wiki_pace.throw wiki_pace.ret split: wk_reply.split option.split)
  qed (simp add: wiki_pace.throw)
  then show ?thesis by (simp add: wk_get_def)
qed

lemma wiki_lookups_paced:
  "moves keeps_pace (find_org_image_by_cnpj api cnpj)" "moves keeps_pace (find_politician_image api names)"
proof -
  have lift: "moves keeps_pace (lift_result r)" for r :: "err + 'a"
    by (cases r) (simp_all add: lift_result_def wiki_pace.throw wiki_pace.ret)
  have "moves keeps_pace (images_by_qid api ns seen)" for ns seen
  proof (induction ns arbitrary: seen)
    case (Cons n ns)
    then show ?case
      unfolding images_by_qid.simps wikibase_item_for_title_def entity_image_def
      by (intro moves_if wiki_pace.bindR wk_get_paced lift moves_option)
  qed (simp add: wiki_pace.ret)
  then show "moves keeps_pace (find_politician_image api names)"
    unfolding find_politician_image_def by (intro wiki_pace.bindR wiki_pace.ret)
  show "moves keeps_pace (find_org_image_by_cnpj api cnpj)"
    unfolding find_org_image_by_cnpj_def by (intro wiki_pace.bindR wiki_pace.getR wiki_pace.ret wk_get_paced)
qed

text \<open>The same of the worker's state.\<close>

definition strolling :: "photo_state \<Rightarrow> photo_state \<Rightarrow> bool" where
  "strolling s t \<longleftrightarrow> (wk_paced (ph_wiki s) \<longrightarrow> wk_paced (ph_wiki t))"

interpretation strolling: world_order strolling
  by unfold_locales (auto simp: strolling_def)

lemma strolling_wiki: "moves keeps_pace m \<Longrightarrow> moves strolling (in_wiki m)"
  by (auto simp: moves_def strolling_def keeps_pace_def in_wiki_def split: prod.split)

lemma strolling_own:
  "moves strolling (tally f)" "moves strolling (list_politicians_needing_photo uf l)"
  "moves strolling (list_organizations_needing_photo l)" "moves strolling (set_politician_photo_by_cpf cpf url source credit)"
  "moves strolling (set_organization_photo_by_cnpj cnpj url source credit)"
proof -
  show "moves strolling (tally f)" unfolding tally_def by (rule strolling.modR) (simp add: strolling_def)
  show "moves strolling (list_politicians_needing_photo uf l)" "moves strolling (list_organizations_needing_photo l)"
    unfolding list_politicians_needing_photo_def list_organizations_needing_photo_def by (rule strolling.cypher_read)+
  show "moves strolling (set_politician_photo_by_cpf cpf url source credit)"
    "moves strolling (set_organization_photo_by_cnpj cnpj url source credit)"
    unfolding set_politician_photo_by_cpf_def set_organization_photo_by_cnpj_def
    by (rule strolling.cypher, simp add: strolling_def)+
qed

lemma strolling_rest:
  "moves strolling (seqR (bindR (list_organizations_needing_photo (px_limit w)) (forR (company_target e w)))
    (bindR (list_politicians_needing_photo (px_uf w) (px_limit w)) (forR (wiki_target e w))))"
  unfolding company_target_def wiki_target_def
  by (intro strolling.seqR strolling.bindR strolling_own strolling.forR strolling_wiki wiki_lookups_paced moves_option moves_if
      strolling.ret strolling.whenR)

section \<open>Steady servers\<close>

text \<open>Servers that answer every request at once, the same each time.\<close>

definition steady :: "wk_api \<Rightarrow> (wk_request \<Rightarrow> gostr) \<Rightarrow> bool" where
  "steady api f \<longleftrightarrow> (\<forall>k rq. wk_server api k rq = (0, WkAnswered 200 (Some (f rq)))) \<and> (\<forall>rq. wk_url_ok api rq)"

lemma steady_get:
  assumes "steady api f" and "wk_deadline s = None"
  shows "\<exists>t. wk_get api rq s = (Inr (f rq), t) \<and> wk_deadline t = None"
proof -
  obtain r u where th: "wk_throttle s = (r, u)" by fastforce
  then have "r = Inr () \<and> wk_deadline u = None"
    using assms(2) by (auto simp: wk_throttle_def wk_sleep_def prog_defs split: if_splits option.splits)
  with th assms(1) show ?thesis
    by (simp add: wk_get_def wk_attempts_def eval_nat_numeral steady_def wk_do_def Let_def seqR_def bindR_def ret_def)
qed

definition item_of :: "wk_api \<Rightarrow> (wk_request \<Rightarrow> gostr) \<Rightarrow> gostr \<Rightarrow> err + gostr option" where
  "item_of api f n = (if trim_space n = [] then Inr None else parse_wikibase_item api (f (TitleQuery (trim_space n))))"

definition picture_of :: "wk_api \<Rightarrow> (wk_request \<Rightarrow> gostr) \<Rightarrow> gostr \<Rightarrow> err + gostr option" where
  "picture_of api f q = parse_entity_data_p18 api (f (EntityQuery q)) q"

text \<open>The entities the names lead to, each with its picture or a blank.\<close>

lemma steady_images:
  assumes "steady api f" and "wk_deadline s = None"
    and "\<And>q img. (q, img) \<in> set seen \<Longrightarrow> picture_of api f q = Inr (if img = [] then None else Some img)"
    and "images_by_qid api names seen s = (Inr out, t)"
  shows "fst ` set out = fst ` set seen \<union> {q. \<exists>n \<in> set names. item_of api f n = Inr (Some q)} \<and>
    (\<forall>(q, img) \<in> set out. picture_of api f q = Inr (if img = [] then None else Some img)) \<and>
    (distinct (List.map fst seen) \<longrightarrow> distinct (List.map fst out))"
  using assms(2-4)
proof (induction names arbitrary: seen s)
  case Nil
  then show ?case by (auto simp: ret_def)
next
  case (Cons n ns)
  show ?case
  proof (cases "trim_space n = []")
    case True
    with Cons.prems(3) have "images_by_qid api ns seen s = (Inr out, t)" by simp
    moreover have "item_of api f n = Inr None" using True by (simp add: item_of_def)
    ultimately show ?thesis using Cons.IH [OF Cons.prems(1,2)] by simp
  next
    case False
    obtain u where u: "wk_get api (TitleQuery (trim_space n)) s = (Inr (f (TitleQuery (trim_space n))), u)" "wk_deadline u = None"
      using steady_get [OF assms(1) Cons.prems(1)] by blast
    have it: "item_of api f n = parse_wikibase_item api (f (TitleQuery (trim_space n)))" using False by (simp add: item_of_def)
    let ?p = "parse_wikibase_item api (f (TitleQuery (trim_space n)))"
    consider e where "?p = Inl e" | "?p = Inr None" | q where "?p = Inr (Some q)"
      by (metis option.exhaust sum.exhaust)
    then show ?thesis
    proof cases
      case (1 e)
      with False u Cons.prems(3) show ?thesis by (simp add: wikibase_item_for_title_def lift_result_def prog_defs)
    next
      case 2
      with False u Cons.prems(3) have "images_by_qid api ns seen u = (Inr out, t)"
        by (simp add: wikibase_item_for_title_def lift_result_def prog_defs)
      from Cons.IH [OF u(2) Cons.prems(2) this] 2 it show ?thesis by simp
    next
      case (3 q)
      show ?thesis
      proof (cases "map_of seen q = None")
        case True
        then have new: "q \<notin> fst ` set seen" by (simp add: map_of_eq_None_iff)
        obtain v where v: "wk_get api (EntityQuery q) u = (Inr (f (EntityQuery q)), v)" "wk_deadline v = None"
          using steady_get [OF assms(1) u(2)] by blast
        from 3 True False u v Cons.prems(3) obtain img where img: "picture_of api f q = Inr img"
          by (cases "picture_of api f q")
            (simp_all add: wikibase_item_for_title_def entity_image_def lift_result_def picture_of_def prog_defs)
        let ?seen = "seen @ [(q, case img of None \<Rightarrow> [] | Some x \<Rightarrow> x)]"
        have rest: "images_by_qid api ns ?seen v = (Inr out, t)"
          using 3 True False u v img Cons.prems(3)
          by (simp add: wikibase_item_for_title_def entity_image_def lift_result_def picture_of_def prog_defs)
        have "img \<noteq> Some []"
          using img by (auto simp: picture_of_def parse_entity_data_p18_def split: option.splits list.splits snak.splits if_splits)
        then have "picture_of api f q' = Inr (if i = [] then None else Some i)" if "(q', i) \<in> set ?seen" for q' i
          using that img Cons.prems(2) by (auto split: option.splits)
        from Cons.IH [OF v(2) this rest] 3 it new show ?thesis by auto
      next
        case False
        then have old: "q \<in> fst ` set seen" by (simp add: map_of_eq_None_iff)
        have "images_by_qid api ns seen u = (Inr out, t)"
          using 3 False \<open>trim_space n \<noteq> []\<close> u Cons.prems(3)
          by (simp add: wikibase_item_for_title_def lift_result_def prog_defs)
        from Cons.IH [OF u(2) Cons.prems(2) this] 3 it old show ?thesis by auto
      qed
    qed
  qed
qed

section \<open>Names of files\<close>

lemma swap_rune: "replace_all s [a] [b] = List.map (\<lambda>r. if r = a then b else r) s"
proof -
  have "replace_all s [a] [b] = concat (List.map (rune_subst [(a, [b])]) s)"
    using replacer_single [of "[(a, [b])]" s] by (simp add: replace_all_def)
  also have "\<dots> = List.map (\<lambda>r. if r = a then b else r) s" by (induction s) (simp_all add: rune_subst_def)
  finally show ?thesis .
qed

lemma after_last_None:
  assumes "p \<noteq> []" and "last p \<notin> set (drop (length p - 1) s)" shows "after_last p s = None"
  using assms(2)
proof (induction s)
  case (Cons r rs)
  have "\<not> has_prefix (r # rs) p"
  proof
    assume "has_prefix (r # rs) p"
    then obtain t where "r # rs = p @ t" by (auto simp: has_prefix_iff)
    moreover have "drop (length p - 1) (p @ t) = last p # t"
      using assms(1) by (cases p rule: rev_cases) simp_all
    ultimately show False using Cons.prems by simp
  qed
  moreover have "set (drop (length p - 1) rs) \<subseteq> set (drop (length p - 1) (r # rs))"
    using set_drop_subset_set_drop [of "length p - 1" "Suc (length p - 1)" "r # rs"] by simp
  moreover from this have "after_last p rs = None" using Cons by blast
  ultimately show ?case by simp
qed simp

lemma after_last_found:
  assumes "p \<noteq> []" and "last p \<notin> set n" shows "after_last p (u @ p @ n) = Some n"
proof (induction u)
  case Nil
  obtain c cs where p: "p = c # cs" using assms(1) by (cases p) auto
  have "after_last p (cs @ n) = None" by (rule after_last_None [OF assms(1)]) (use assms(2) p in simp)
  then show ?case by (simp add: p)
qed simp

lemma page_name_clean:
  assumes "list_all real_rune file" and "r \<in> set (commons_page_name file)"
  shows "\<not> is_space r \<and> r \<noteq> 47 \<and> r \<noteq> 63"
proof -
  have "list_all real_rune (trim_space file)"
    using assms(1) by (auto simp: trim_space_def trim_left_space_def trim_right_space_def list_all_iff dest!: set_dropWhileD)
  then have "list_all real_rune (replace_all (trim_space file) [32] [95])"
    by (auto simp: swap_rune list_all_iff real_rune_def)
  from path_escape_clean [OF this] assms(2) have "path_byte r \<or> r = 37" by (simp add: commons_page_name_def)
  then show ?thesis by (auto simp: path_byte_def is_space_def)
qed

text \<open>A wiki to try it on: two names of a person lead to one entity, which has a picture; a third leads to one
  that, like the entities of Wikidata, says what it is an instance of.\<close>

definition demo_wiki :: wk_api where
  "demo_wiki = \<lparr>wk_url_ok = (\<lambda>_. True),
     wk_server = (\<lambda>_ rq. (0, WkAnswered 200 (Some (case rq of TitleQuery t \<Rightarrow> t | EntityQuery q \<Rightarrow> q | SparqlQuery _ _ \<Rightarrow> [])))),
     js_sparql = (\<lambda>_. None),
     js_pages = (\<lambda>b. Some [\<lparr>wp_missing = False, wp_item = (if b = lit ''Bia'' then lit ''Q2'' else lit ''Q1'')\<rparr>]),
     js_entities = (\<lambda>b. Some [(b, if b = lit ''Q1'' then [(lit ''P18'', [SnakText (lit ''ana.jpg'')])] else [(lit ''P31'', [SnakOther])])])\<rparr>"

definition demo_bodies :: "wk_request \<Rightarrow> gostr" where
  "demo_bodies rq = (case rq of TitleQuery t \<Rightarrow> t | EntityQuery q \<Rightarrow> q | SparqlQuery _ _ \<Rightarrow> [])"

lemma demo_steady: "steady demo_wiki demo_bodies"
  by (simp add: steady_def demo_wiki_def demo_bodies_def)

definition demo_album :: photo_state where
  "demo_album = world.extend empty_world \<lparr>ph_wiki = new_wiki_client [] 0 None, ph_looks = 0, ph_stats = no_photo_stats\<rparr>"

definition demo_camera :: photo_env where
  "demo_camera = \<lparr>pe_image = (\<lambda>_ _. ImageDropped), pe_mkdir = True, pe_archive = (\<lambda>_. ArchiveDropped), pe_wiki = demo_wiki\<rparr>"

definition demo_sitter :: "gostr \<Rightarrow> politician_target" where
  "demo_sitter name = \<lparr>pg_id = lit ''p'', pg_cpf = lit ''1'', pg_name = name, pg_state = [], pg_aliases = [], pg_photo = []\<rparr>"

definition demo_photo_options :: photo_options where
  "demo_photo_options = \<lparr>px_modes = [], px_year = 0, px_uf = [], px_limit = 0, px_dry = False, px_template = [], px_endpoint = [],
     px_probe_uf = [], px_probe_sq = []\<rparr>"

section \<open>Properties\<close>

text \<open>C34: Whatever the servers answer and wherever it stops, a run of the photo worker writes nothing but
  the picture of a politician or a company that had none: whoever has a picture keeps it, with its source and
  its credit, and no relationship, tombstone or other property changes.\<close>

theorem pictures_stay: "album s (snd (photos_main e w modes s))"
  by (rule movesD [where R = album], rule album.run)

text \<open>Every address the court's mode writes had been looked at and showed a picture.\<close>

theorem court_pictures_seen: "shown e s (snd (run_tse e w s))"
  by (rule movesD [OF shown_tse])

text \<open>A politician is only given a picture if the names lead to exactly one entity, and it is that
  entity's picture: names that lead to two entities, or an entity without one, give none.\<close>

theorem one_entity_only:
  assumes "steady api f" and "wk_deadline s = None" and "find_politician_image api names s = (Inr (Some file), t)"
  shows "\<exists>q. {i. \<exists>n \<in> set names. item_of api f n = Inr (Some i)} = {q} \<and> picture_of api f q = Inr (Some file)"
proof -
  from assms(3) obtain out u where "images_by_qid api names [] s = (Inr out, u)"
    "(case out of [(_, img)] \<Rightarrow> if trim_space img = [] then None else Some img | _ \<Rightarrow> None) = Some file"
    by (auto simp: find_politician_image_def prog_defs split: prod.splits sum.splits)
  moreover from this(2) obtain q where "out = [(q, file)]" "trim_space file \<noteq> []"
    by (auto split: list.splits if_splits)
  moreover from this have "file \<noteq> []" by (auto simp: trim_space_none)
  ultimately have "fst ` set [(q, file)] = {i. \<exists>n \<in> set names. item_of api f n = Inr (Some i)}" "picture_of api f q = Inr (Some file)"
    using steady_images [OF assms(1,2), of "[]" names out u] by simp_all
  then show ?thesis by (intro exI [of _ q]) simp
qed

theorem one_entity_only_witness:
  "\<exists>q. {i. \<exists>n \<in> set [lit ''Ana'', lit ''Ana M'']. item_of demo_wiki demo_bodies n = Inr (Some i)} = {q} \<and>
     picture_of demo_wiki demo_bodies q = Inr (Some (lit ''ana.jpg''))"
proof -
  let ?c = "new_wiki_client [] 0 None"
  note get = steady_get [OF demo_steady]
  have "wk_deadline ?c = None" by (simp add: new_wiki_client_def)
  then obtain t where t: "wk_get demo_wiki (TitleQuery (lit ''Ana'')) ?c = (Inr (lit ''Ana''), t)" "wk_deadline t = None"
    using get [of ?c "TitleQuery (lit ''Ana'')"] by (auto simp: demo_bodies_def)
  obtain u where u: "wk_get demo_wiki (EntityQuery (lit ''Q1'')) t = (Inr (lit ''Q1''), u)" "wk_deadline u = None"
    using get [OF t(2), of "EntityQuery (lit ''Q1'')"] by (auto simp: demo_bodies_def)
  obtain v where v: "wk_get demo_wiki (TitleQuery (lit ''Ana M'')) u = (Inr (lit ''Ana M''), v)"
    using get [OF u(2), of "TitleQuery (lit ''Ana M'')"] by (auto simp: demo_bodies_def)
  have "trim_space (lit ''Ana'') = lit ''Ana''" "trim_space (lit ''Ana M'') = lit ''Ana M''" "lit ''Ana'' \<noteq> []" "lit ''Ana M'' \<noteq> []"
    "trim_space (lit ''ana.jpg'') = lit ''ana.jpg''" "lit ''ana.jpg'' \<noteq> []"
    "parse_wikibase_item demo_wiki (lit ''Ana'') = Inr (Some (lit ''Q1''))"
    "parse_wikibase_item demo_wiki (lit ''Ana M'') = Inr (Some (lit ''Q1''))"
    "parse_entity_data_p18 demo_wiki (lit ''Q1'') (lit ''Q1'') = Inr (Some (lit ''ana.jpg''))" by code_simp+
  with t u v have "find_politician_image demo_wiki [lit ''Ana'', lit ''Ana M''] ?c = (Inr (Some (lit ''ana.jpg'')), v)"
    by (simp add: find_politician_image_def wikibase_item_for_title_def entity_image_def lift_result_def prog_defs)
  from one_entity_only [OF demo_steady _ this] show ?thesis by (simp add: new_wiki_client_def)
qed

text \<open>C32: A picture that is a file of the commons is found again from its address: the file name in the
  address of the thumbnail reads back as the name it was made from.\<close>

theorem commons_name_roundtrip:
  assumes "list_all real_rune file" and "trim_space file = file" and "95 \<notin> set file"
  shows "commons_filename_from_p18 (takeWhile (\<lambda>r. r \<noteq> 63) (build_commons_thumb_url file)) = file"
proof -
  let ?host = "lit ''https://commons.wikimedia.org/wiki/''" and ?path = "lit ''Special:FilePath/''" and ?n = "commons_page_name file"
  let ?u = "replace_all file [32] [95]"
  note clean = page_name_clean [OF assms(1)]
  have host: "lit ''https://commons.wikimedia.org/wiki/Special:FilePath/'' = ?host @ ?path" by code_simp
  have none: "list_all (\<lambda>r. \<not> is_space r \<and> r \<noteq> 63) (?host @ ?path)" by code_simp
  have "takeWhile (\<lambda>r. r \<noteq> 63) (build_commons_thumb_url file) = ?host @ ?path @ ?n"
  proof -
    have "takeWhile (\<lambda>r. r \<noteq> 63) ((?host @ ?path @ ?n) @ lit ''?width=512'') = (?host @ ?path @ ?n) @ takeWhile (\<lambda>r. r \<noteq> 63) (lit ''?width=512'')"
      by (rule takeWhile_append2) (use none clean in \<open>auto simp: list_all_iff\<close>)
    moreover have "takeWhile (\<lambda>r. r \<noteq> 63) (lit ''?width=512'') = []" by code_simp
    ultimately show ?thesis unfolding build_commons_thumb_url_def host by simp
  qed
  moreover have "trim_space (?host @ ?path @ ?n) = ?host @ ?path @ ?n"
    by (rule trim_space_none) (use none clean in \<open>auto simp: list_all_iff\<close>)
  moreover have "after_last ?path (?host @ ?path @ ?n) = Some ?n"
  proof (rule after_last_found)
    have "last ?path = 47" by code_simp
    with clean show "last ?path \<notin> set ?n" by auto
  qed (simp add: lit_def)
  moreover have "path_unescape ?n = Some ?u"
  proof -
    have "list_all real_rune ?u" using assms(1) by (auto simp: swap_rune list_all_iff real_rune_def)
    then show ?thesis by (simp add: commons_page_name_def assms(2) path_roundtrip)
  qed
  moreover have "replace_all ?u [95] [32] = file"
    using assms(3) by (simp add: swap_rune) (rule map_idI, auto)
  ultimately show ?thesis using assms(2) by (simp add: commons_filename_from_p18_def)
qed

theorem commons_name_roundtrip_witness:
  "commons_filename_from_p18 (takeWhile (\<lambda>r. r \<noteq> 63) (build_commons_thumb_url (lit ''S'' @ [227] @ lit ''o Paulo? 100%.jpg''))) =
     lit ''S'' @ [227] @ lit ''o Paulo? 100%.jpg''"
  by (rule commons_name_roundtrip) code_simp+

text \<open>Over a whole run of the wiki mode, with all its retries, two requests are at least a second apart.\<close>

theorem wiki_requests_paced:
  "successively (\<lambda>a b. fst a + wk_interval \<le> fst b) (wk_log (ph_wiki (snd (run_wikidata e w s))))"
proof -
  let ?reset = "\<lambda>s. s\<lparr>ph_wiki := new_wiki_client (px_endpoint w) (wk_now (ph_wiki s)) (wk_deadline (ph_wiki s))\<rparr>"
  let ?rest = "seqR (bindR (list_organizations_needing_photo (px_limit w)) (forR (company_target e w)))
    (bindR (list_politicians_needing_photo (px_uf w) (px_limit w)) (forR (wiki_target e w)))"
  have "wk_paced (ph_wiki (?reset s))" by (simp add: new_wiki_client_def wk_paced_def)
  moreover have "run_wikidata e w s = ?rest (?reset s)" by (simp add: run_wikidata_def seqR_def bindR_def modR_def)
  ultimately show ?thesis using movesD [OF strolling_rest, of "?reset s" w e] by (simp add: strolling_def wk_paced_def)
qed

text \<open>C28: An entity with any claim whose value is not a text ends the run: the names of a politician lead to
  it and the lookup fails with a decoding error instead of a picture.\<close>

theorem real_entities_end_run:
  assumes "steady (pe_wiki e) f" and "wk_deadline (ph_wiki s) = None" and "item_of (pe_wiki e) f (pg_name p) = Inr (Some q)"
    and "unmarshal_entities (pe_wiki e) (f (EntityQuery q)) = None" and "pg_photo p = []"
  shows "fst (wiki_target e w p s) = Inl DecodeError"
proof -
  let ?api = "pe_wiki e" and ?n = "pg_name p"
  have n: "trim_space ?n \<noteq> []" "parse_wikibase_item ?api (f (TitleQuery (trim_space ?n))) = Inr (Some q)"
    using assms(3) by (auto simp: item_of_def split: if_splits)
  obtain u where u: "wk_get ?api (TitleQuery (trim_space ?n)) (ph_wiki s) = (Inr (f (TitleQuery (trim_space ?n))), u)" "wk_deadline u = None"
    using steady_get [OF assms(1,2)] by blast
  obtain v where v: "wk_get ?api (EntityQuery q) u = (Inr (f (EntityQuery q)), v)" using steady_get [OF assms(1) u(2)] by blast
  have "find_politician_image ?api (?n # pg_aliases p) (ph_wiki s) = (Inl DecodeError, v)"
    using n u v assms(4)
    by (simp add: find_politician_image_def wikibase_item_for_title_def entity_image_def lift_result_def parse_entity_data_p18_def
        prog_defs)
  with assms(5) show ?thesis
    by (simp add: wiki_target_def tally_def in_wiki_def needs_photo_def trim_space_def trim_left_space_def trim_right_space_def prog_defs)
qed

theorem real_entities_end_run_witness:
  "fst (wiki_target demo_camera demo_photo_options (demo_sitter (lit ''Bia'')) demo_album) = Inl DecodeError"
proof (rule real_entities_end_run [where f = demo_bodies and q = "lit ''Q2''"])
  show "steady (pe_wiki demo_camera) demo_bodies" by (simp add: demo_camera_def demo_steady)
  show "wk_deadline (ph_wiki demo_album) = None" by (simp add: demo_album_def world.extend_def new_wiki_client_def)
qed code_simp+

end
