(* ===== verification/Graph_Orders.thy ===== *)
theory Graph_Orders
  imports Office_Run Sanctions Datajud_Props Cnpj_Runs Registers_Props Photos_Props
begin

text \<open>
  One contract for all who write the graph. What the workers and the import
  command do to it is a handful of statement shapes, named in the locale \<open>graph_order\<close>; an order on graphs that respects them is respected by every
  run of each of them, by the sublocales below. \<open>office_graph_order\<close> adds the statements of the back
  office. So an invariant of the whole system costs one interpretation.
\<close>

section \<open>Statement shapes\<close>

text \<open>An update of nodes that leaves alone who a node is: its key, its id and what kind it is.\<close>

definition keeps_identity :: "(node \<Rightarrow> node) \<Rightarrow> bool" where
  "keeps_identity f \<longleftrightarrow>
     (\<forall>n. n_key (f n) = n_key n \<and> n_props (f n) ''id'' = n_props n ''id'' \<and>
       (\<forall>l \<in> {''Politician'', ''Person'', ''Organization''}. has_label l (f n) = has_label l n))"

text \<open>The only claim about a defendant a program writes: an outcome other than a conviction, and its source.\<close>

definition cites :: "(props \<Rightarrow> props) \<Rightarrow> bool" where
  "cites f \<longleftrightarrow> (\<exists>out src. out \<noteq> lit ''convicted'' \<and> f = set_props [(''outcome'', Some (PStr out)), (''source'', src)])"

definition linkable :: "(nat \<times> nat) list \<Rightarrow> graph \<Rightarrow> bool" where
  "linkable ps g \<longleftrightarrow> (\<forall>(a, b) \<in> set ps. a \<in> n_key ` set (g_nodes g) \<and> b \<in> n_key ` set (g_nodes g))"

lemma linkable_pairs: "set as \<subseteq> set (g_nodes g) \<Longrightarrow> set bs \<subseteq> set (g_nodes g) \<Longrightarrow> linkable (node_pairs as bs) g"
  by (fastforce simp: linkable_def node_pairs_iff)

lemma linkable_matches: "linkable (node_pairs (match_nodes l P g) (match_nodes m Q g)) g"
  by (rule linkable_pairs) (rule match_nodes_subset)+

definition on_graph :: "(graph \<Rightarrow> graph \<Rightarrow> bool) \<Rightarrow> 'z world_scheme \<Rightarrow> 'z world_scheme \<Rightarrow> bool" where
  "on_graph G s t \<longleftrightarrow> G (graph s) (graph t)"

lemma identity_publish: "keeps_identity (publish_sanction u now)"
  by (auto simp: keeps_identity_def publish_sanction_def Let_def upd_props_other)

lemma identity_retract: "keeps_identity (retract_node now)"
  by (auto simp: keeps_identity_def retract_node_def upd_props_other)

lemma identity_upd: "''id'' \<notin> fst ` set kvs \<Longrightarrow> keeps_identity (upd_props kvs)"
  by (simp add: keeps_identity_def upd_props_other)

lemma identity_party: "keeps_identity (party_facts u)"
  by (simp add: keeps_identity_def)

lemma identity_proceeding: "keeps_identity (proceeding_facts u)"
  by (simp add: keeps_identity_def)

lemma identity_state: "keeps_identity (case_state_props ph d b)"
  by (simp add: keeps_identity_def)

lemma identity_enrich: "keeps_identity (enrichment_facts en now)"
  by (auto simp: keeps_identity_def)

lemma identity_qsa: "keeps_identity (qsa_person_facts p)"
  by (auto simp: keeps_identity_def)

text \<open>A node a statement has merged is there to be linked, as is every node that was there before.\<close>

lemma linkable_merged:
  assumes "keeps_identity f"
  shows "linkable (node_pairs (fst (snd (merge_node l k v c f g))) (match_nodes m Q g)) (fst (merge_node l k v c f g))"
    and "linkable (node_pairs (match_nodes m Q g) (fst (snd (merge_node l k v c f g)))) (fst (merge_node l k v c f g))"
proof -
  have key: "n_key (f n) = n_key n" for n using assms by (simp add: keeps_identity_def)
  have "set (fst (snd (merge_node l k v c f g))) \<subseteq> set (g_nodes (fst (merge_node l k v c f g)))"
    by (auto simp: merge_node_def Let_def match_nodes_def)
  then have rows: "n_key n \<in> n_key ` set (g_nodes (fst (merge_node l k v c f g)))" if "n \<in> set (fst (snd (merge_node l k v c f g)))" for n
    using that by blast
  have "n_key n \<in> n_key ` set (g_nodes (fst (merge_node l k v c f g)))" if "n \<in> set (g_nodes g)" for n
  proof (cases "match_nodes l (prop_is k v) g = []")
    case True
    with that show ?thesis by (simp add: merge_node_def Let_def)
  next
    case False
    then have "(if has_label l n \<and> prop_is k v n then f n else n) \<in> set (g_nodes (fst (merge_node l k v c f g)))"
      using that by (auto simp: merge_node_def Let_def)
    then show ?thesis by (rule rev_image_eqI) (simp add: key)
  qed
  then have old: "n_key n \<in> n_key ` set (g_nodes (fst (merge_node l k v c f g)))" if "n \<in> set (match_nodes m Q g)" for n
    using that match_nodes_subset [of m Q g] by blast
  show "linkable (node_pairs (fst (snd (merge_node l k v c f g))) (match_nodes m Q g)) (fst (merge_node l k v c f g))"
    and "linkable (node_pairs (match_nodes m Q g) (fst (snd (merge_node l k v c f g)))) (fst (merge_node l k v c f g))"
    using rows old unfolding linkable_def by (auto simp: node_pairs_iff)
qed

lemma linkable_map:
  assumes "keeps_identity f" shows "linkable ps (map_nodes P f g) = linkable ps g"
proof -
  have "List.map n_key (g_nodes (map_nodes P f g)) = List.map n_key (g_nodes g)"
    using assms by (simp add: keeps_identity_def map_nodes_def)
  then have "n_key ` set (g_nodes (map_nodes P f g)) = n_key ` set (g_nodes g)" by (simp only: list.set_map [symmetric])
  then show ?thesis by (simp add: linkable_def)
qed

lemma identity_rolls: "keeps_identity (tse_facts r)" "keeps_identity (camara_facts d)" "keeps_identity (senado_facts q)"
  by (auto simp: keeps_identity_def)

lemma identity_picture: "keeps_identity (portrait_facts u a c)" "keeps_identity (image_facts u a c)"
  unfolding portrait_facts_def image_facts_def by (rule identity_upd, simp)+

lemma identity_id: "keeps_identity (\<lambda>n. n)"
  by (simp add: keeps_identity_def)

section \<open>The contract\<close>

locale graph_order =
  fixes G :: "graph \<Rightarrow> graph \<Rightarrow> bool"
  assumes refl [simp]: "G g g" and trans: "G g g2 \<Longrightarrow> G g2 g3 \<Longrightarrow> G g g3"
    and map: "keeps_identity f \<Longrightarrow> G g (map_nodes P f g)"
    and merge: "keeps_identity f \<Longrightarrow> G g (fst (merge_node l k v c f g))"
    and link: "linkable ps g \<Longrightarrow> (t = ''DEFENDANT_IN'' \<longrightarrow> cites h) \<Longrightarrow> G g (merge_edges ps t [] h g)"
begin

end

sublocale graph_order \<subseteq> on: world_order "on_graph G"
  by unfold_locales (auto simp: on_graph_def intro: trans)

context graph_order
begin

lemma statement: "(\<And>g. G g (fst (f g))) \<Longrightarrow> moves (on_graph G) (cypher f)"
  by (rule on.cypher) (simp add: on_graph_def)

lemma tables: "graph t = graph s \<Longrightarrow> on_graph G s t"
  by (simp add: on_graph_def)

lemma rows:
  assumes "moves (on_graph G) (cypher f :: ('z world_scheme, gostr list) prog)"
  shows "on_graph G s (snd (bindR (cypher f) (\<lambda>ids. case ids of [] \<Rightarrow> throw e | i # _ \<Rightarrow> ret i) (s :: 'z world_scheme)))"
  by (rule bindR_rows, erule (1) on.trans) (simp_all add: movesD [OF assms])

lemma flagged: "moves (on_graph G) (cypher (merge_flagged l key v c))"
proof (rule statement)
  fix g
  let ?m = "merge_node l key (PStr v) (c @ [(''_sanctions_created'', Some (PBool True))]) (\<lambda>n. n) g"
  have "keeps_identity (upd_props [(''_sanctions_created'', None)])" by (rule identity_upd) simp
  from trans [OF merge [OF identity_id] map [OF this]]
  show "G g (fst (merge_flagged l key v c g))"
    unfolding merge_flagged_def by (simp add: case_prod_beta)
qed

end

context graph_order
begin

lemma upsert: "moves (on_graph G) (upsert_sanction u)"
  by (rule on.upsert_sanction, rule statement) (simp add: case_prod_beta merge identity_publish)

lemma sweep: "moves (on_graph G) (sweep_retracted_sanctions registry run gd)"
  by (rule on.sweep_retracted_sanctions, rule statement) (simp add: retract_unseen_def map identity_retract)

lemma sanctioned: "moves (on_graph G) (ensure_sanctioned_in_edge nt nid sid conf signals)"
  by (rule on.ensure_sanctioned_in_edge, rule statement) (simp add: sanctioned_pairs_def link linkable_matches)

lemma party: "moves (on_graph G) (cypher (merge_party l i u))"
  by (rule statement) (simp add: merge_party_fst merge identity_party)

lemma proceeding: "moves (on_graph G) (upsert_legal_proceeding_by_case u)"
  by (rule on.upsert_legal_proceeding, rule statement) (simp add: merge_proceeding_fst merge identity_proceeding)

lemma investigates: "moves (on_graph G) (ensure_investigates_edge lp sc)"
  unfolding ensure_investigates_edge_def by (rule statement) (simp add: link linkable_matches)

lemma case_state: "moves (on_graph G) (update_proceeding_case_state pid ph d b)"
  unfolding update_proceeding_case_state_def by (rule statement) (simp add: map identity_state)

lemma cited: "moves (on_graph G) (ensure_djen_defendant_edge nt nid lp (lit ''cited''))"
proof -
  have "cites (set_props [(''outcome'', Some (PStr (lit ''cited''))), (''source'', Some (PStr (lit ''djen'')))])"
    unfolding cites_def by (intro exI conjI) (simp_all add: lit_inj)
  then show ?thesis
    unfolding ensure_djen_defendant_edge_def defendant_pairs_def
    by (intro statement) (simp add: link linkable_matches)
qed

end

sublocale graph_order \<subseteq> sync: sanction_stores "on_graph G"
proof unfold_locales
  fix s t :: sync_state and u nt nid sid pid conf signals d n rec pname registry run gd page seen now
  show "world.truncate s = world.truncate t \<Longrightarrow> on_graph G s t"
    using truncate_watch [of s t] by (simp add: tables)
  show "moves (on_graph G) (upsert_sanction u :: (sync_state, gostr) prog)" by (rule upsert)
  show "moves (on_graph G) (ensure_sanctioned_in_edge nt nid sid conf signals :: (sync_state, unit) prog)"
    by (rule sanctioned)
  show "on_graph G s (snd (ensure_organization_by_cnpj d s))"
    by (rule movesD, rule on.ensure_organization_by_cnpj, rule flagged)
  show "on_graph G s (snd (upsert_person_by_cpf n d s))"
    by (rule movesD, rule on.upsert_person_by_cpf, rule flagged)
  show "on_graph G s (snd (create_pending_review ''possible_politician_sanction''
      (review_payload rec sid pid pname conf signals) ''sanctions_sync'' s))"
    by (rule review_moves [OF _ on.sql]) (simp_all add: tables)
  show "moves (on_graph G) (sweep_retracted_sanctions registry run gd :: (sync_state, sweep_result) prog)" by (rule sweep)
  show "moves (on_graph G) (upsert_sanction_import_state registry page seen now :: (sync_state, unit) prog)"
    by (rule import_moves [OF _ on.sql]) (simp_all add: tables)
qed

sublocale graph_order \<subseteq> gazette: djen_stores "on_graph G"
proof unfold_locales
  fix s t :: djen_state and ws ps rs u n lp c j
  show "on_graph G s (s\<lparr>watches := ws\<rparr>)" "on_graph G s (s\<lparr>snapshots := ps\<rparr>)"
    "on_graph G s (s\<lparr>reviews := rs, issued := j\<rparr>)"
    by (simp_all add: tables)
  show "world.truncate s = world.truncate t \<Longrightarrow> on_graph G s t"
    using truncate_watch [of s t] by (simp add: tables)
  show "on_graph G s (snd (upsert_djen_person u s))"
    unfolding upsert_djen_person_def by (rule rows) (rule party)
  show "on_graph G s (snd (upsert_djen_organization u s))"
    unfolding upsert_djen_organization_def by (rule rows) (rule party)
  show "moves (on_graph G) (ensure_djen_defendant_edge ''Person'' (djen_person_id n) lp (lit ''cited'') :: (djen_state, unit) prog)"
    "moves (on_graph G) (ensure_djen_defendant_edge ''Organization'' (djen_organization_id n) lp (lit ''cited'') :: (djen_state, unit) prog)"
    by (rule cited)+
  show "moves (on_graph G) (upsert_legal_proceeding_by_case (bare_case c) :: (djen_state, gostr) prog)" by (rule proceeding)
qed

sublocale graph_order \<subseteq> dockets: datajud_stores "on_graph G"
proof unfold_locales
  fix s t :: dk_state and c mv st now u pid sc ph d b
  show "world.truncate s = world.truncate t \<Longrightarrow> on_graph G s t"
    using truncate_watch [of s t] by (simp add: tables)
  show "moves (on_graph G) (update_watcher_tracking_poll c mv st now :: (dk_state, unit) prog)"
    by (rule poll_row_watches, unfold_locales) (simp add: tables)
  show "moves (on_graph G) (upsert_legal_proceeding_by_case u :: (dk_state, gostr) prog)" by (rule proceeding)
  show "moves (on_graph G) (ensure_investigates_edge pid sc :: (dk_state, unit) prog)" by (rule investigates)
  show "moves (on_graph G) (update_proceeding_case_state pid ph d b :: (dk_state, unit) prog)" by (rule case_state)
qed

text \<open>The statements of the company enricher.\<close>

context graph_order
begin

lemma enrichment: "moves (on_graph G) (update_organization_enrichment en now)"
proof -
  have "moves (on_graph G) (cypher (merge_enrichment en now))"
    by (rule statement) (simp add: merge_enrichment_fst merge identity_enrich)
  then show ?thesis
    unfolding update_organization_enrichment_def by (intro moves_if on.throw on.bindR on.first_row)
qed

lemma partner: "moves (on_graph G) (upsert_qsa_person org p)"
proof -
  have "moves (on_graph G) (cypher (merge_qsa_person org p))"
  proof (rule statement)
    fix g
    let ?m = "merge_node ''Person'' ''id'' (PStr (qsa_person_id (qp_name p))) [] (qsa_person_facts p) g"
    let ?ps = "node_pairs (fst (snd ?m)) (match_nodes ''Organization'' (prop_is ''id'' (PStr org)) g)"
    have "G (fst ?m) (merge_edges ?ps ''CONTROLS'' [] (qsa_edge (qp_qualification p) (qp_url p)) (fst ?m))"
      by (rule link, rule linkable_merged(1) [OF identity_qsa]) simp
    then show "G g (fst (merge_qsa_person org p g))"
      using trans [OF merge [OF identity_qsa]] by (simp add: merge_qsa_person_fst)
  qed
  then show ?thesis
    unfolding upsert_qsa_person_def by (intro moves_if on.throw on.bindR on.first_row)
qed

lemma owner: "moves (on_graph G) (upsert_qsa_organization org d q u)"
proof -
  have "moves (on_graph G) (cypher (merge_qsa_organization org x q u))" for x
  proof (rule statement)
    fix g
    let ?c = "[(''id'', Some (PStr (lit ''org_'' @ x))), (''_cnpj_created'', Some (PBool True))]"
    let ?m = "merge_node ''Organization'' ''cnpj'' (PStr x) ?c (\<lambda>n. n) g"
    let ?h = "map_nodes (\<lambda>n. has_label ''Organization'' n \<and> prop_is ''cnpj'' (PStr x) n) (upd_props [(''_cnpj_created'', None)]) (fst ?m)"
    let ?ps = "node_pairs (match_nodes ''Organization'' (prop_is ''id'' (PStr org)) g) (fst (snd ?m))"
    have flag: "keeps_identity (upd_props [(''_cnpj_created'', None)])" by (rule identity_upd) simp
    have "G g ?h" by (rule trans [OF merge [OF identity_id] map [OF flag]])
    moreover have "linkable ?ps ?h" unfolding linkable_map [OF flag] by (rule linkable_merged(2) [OF identity_id])
    then have "G ?h (merge_edges ?ps ''OWNED_BY'' [] (qsa_edge q u) ?h)" by (rule link) simp
    ultimately show "G g (fst (merge_qsa_organization org x q u g))"
      by (simp add: merge_qsa_organization_fst Let_def trans [of g ?h])
  qed
  then show ?thesis
    unfolding upsert_qsa_organization_def Let_def by (intro moves_if on.throw on.bindR on.first_row)
qed

lemma companies: "cnpj_any_store (on_graph G) (\<lambda>_ _. True)"
proof (rule cnpj_any_store.intro [OF cnpj_stores.intro [OF on.world_order_axioms cnpj_stores_axioms.intro] cnpj_any_store_axioms.intro])
  fix s t :: cn_state and rs j d
  show "world.truncate s = world.truncate t \<Longrightarrow> on_graph G s t"
    using truncate_watch [of s t] by (simp add: tables)
  show "on_graph G s (s\<lparr>reviews := rs, issued := j\<rparr>)" by (simp add: tables)
  show "moves (on_graph G) (ensure_organization_by_cnpj d :: (cn_state, gostr \<times> bool) prog)"
    by (rule on.ensure_organization_by_cnpj, rule flagged)
qed (rule TrueI | rule movesD, rule enrichment partner owner)+

end

sublocale graph_order \<subseteq> company: cnpj_any_store "on_graph G" "\<lambda>_ _. True"
  by (rule companies)

text \<open>The rows of the registers of politicians.\<close>

context graph_order
begin

lemma politician_rows:
  assumes "\<And>r g. G g (fst (f r g))" shows "moves (on_graph G) (cypher (merge_rows f rs))"
  by (rule statement) (simp add: merge_rows_pass pass_order [of G f, OF refl trans assms])

lemma rolls: "register_stores (on_graph G)"
proof (rule register_stores.intro [OF import_stores.intro [OF on.world_order_axioms import_stores_axioms.intro]
      register_stores_axioms.intro])
  fix s :: registrar and rs ds ct qs
  show "moves (on_graph G) (cypher (merge_rows merge_tse_row rs) :: (registrar, nat) prog)"
    "moves (on_graph G) (cypher (merge_rows merge_camara_row ds) :: (registrar, nat) prog)"
    by (rule politician_rows, unfold row_shapes, rule merge, rule identity_rolls)+
  show "moves (on_graph G) (cypher (merge_rows (match_senado_row ct) qs) :: (registrar, nat) prog)"
    by (rule politician_rows) (simp add: match_senado_row_def map identity_rolls)
qed (simp_all add: tables)

end

sublocale graph_order \<subseteq> rolls: register_stores "on_graph G"
  by (rule rolls)

text \<open>The pictures.\<close>

context graph_order
begin

lemma pictures: "photo_stores (on_graph G)"
proof (rule photo_stores.intro [OF on.world_order_axioms photo_stores_axioms.intro])
  fix s t :: photo_state and cpf url source credit
  show "world.truncate s = world.truncate t \<Longrightarrow> on_graph G s t"
    using truncate_watch [of s t] by (simp add: tables)
  show "moves (on_graph G) (set_politician_photo_by_cpf cpf url source credit :: (photo_state, bool) prog)"
    "moves (on_graph G) (set_organization_photo_by_cnpj cpf url source credit :: (photo_state, bool) prog)"
    unfolding set_politician_photo_by_cpf_def set_organization_photo_by_cnpj_def
    by (rule statement, simp add: map identity_picture)+
qed

end

sublocale graph_order \<subseteq> pictures: photo_stores "on_graph G"
  by (rule pictures)

section \<open>The statements of the back office\<close>

lemma cites_confirmed:
  "cites (confirmed_props \<lparr>ce_label = l, ce_type = t, ce_politician = p, ce_target = i,
     ce_extra = [(''outcome'', Some (PStr (lit ''confirmed'')))]\<rparr>)"
  unfolding cites_def confirmed_props_def by (intro exI conjI) (simp_all add: lit_inj)

lemma identity_stamp: "keeps_identity (upd_props (stamp_cnpj actor now))"
  "keeps_identity (upd_props ((''cnpj'', v) # stamp_cnpj actor now))"
  by (rule identity_upd, simp add: stamp_cnpj_def)+

locale office_graph_order = graph_order +
  assumes purge: "G g (detach_delete (purge_target i) g)"
    and outcome: "(out = lit ''convicted'' \<Longrightarrow> ev \<noteq> []) \<Longrightarrow>
      G g (map_edges (defendant_edge g party lp) (outcome_props out ev actor now) g)"
    and move_out: "G g (move_out src dst ty lb g)" and move_in: "G g (move_in src dst tz g)"
    and drop: "(\<And>n. n \<in> set (g_nodes g) \<Longrightarrow> organization_is src n \<Longrightarrow> degree g n = 0) \<Longrightarrow>
      G g (g\<lparr>g_nodes := filter (\<lambda>n. \<not> organization_is src n) (g_nodes g)\<rparr>)"
begin

lemma confirming:
  assumes "ce_type c = ''DEFENDANT_IN'' \<Longrightarrow> cites (confirmed_props c)"
  shows "moves (on_graph G) (merge_confirmed_politician_edge c)"
proof -
  have "moves (on_graph G) (cypher (\<lambda>g.
      (merge_edges (confirmed_pairs c g) (ce_type c) [] (confirmed_props c) g, confirmed_pairs c g)))"
    by (rule statement) (simp add: confirmed_pairs_def link linkable_matches assms)
  then show ?thesis
    unfolding merge_confirmed_politician_edge_def by (intro moves_if on.throw on.bindR on.ret)
qed

lemma deciding: "moves (on_graph G) (set_defendant_outcome lp party out ev actor)"
proof (cases "valid_outcome out \<and> \<not> (out = lit ''convicted'' \<and> ev = [])")
  case True
  then have "moves (on_graph G) (cypher (\<lambda>g. (map_edges (defendant_edge g party lp) (outcome_props out ev actor now) g,
      length (filter (defendant_edge g party lp) (g_edges g)))))" for now
    by (intro statement) (auto intro: outcome)
  with True show ?thesis
    unfolding set_defendant_outcome_def by (auto intro!: on.bindR on.getR moves_if on.throw on.ret)
next
  case False
  then show ?thesis unfolding set_defendant_outcome_def by (auto intro: on.throw)
qed

lemma dropping: "moves (on_graph G) (plain_delete (organization_is src))"
  unfolding plain_delete_def
proof (rule on.db_call, rule movesI)
  show "on_graph G s (snd (if list_ex (\<lambda>n. organization_is src n \<and> degree (graph s) n \<noteq> 0) (g_nodes (graph s))
      then (Inl DbError, s)
      else run_cypher (\<lambda>g. (g\<lparr>g_nodes := filter (\<lambda>n. \<not> organization_is src n) (g_nodes g)\<rparr>, ())) s))" for s :: "'z world_scheme"
    using drop [of "graph s" src] by (auto simp: list_ex_iff run_cypher_def on_graph_def)
qed

lemma attaching: "moves (on_graph G) (attach_organization_cnpj src cnpj actor)"
proof -
  have "moves (on_graph G) (merge_organizations src dst actor now)" for dst now
    unfolding merge_organizations_def
    by (intro on.seqR on.ret dropping statement)
      (simp_all add: move_out move_in map identity_stamp adopt_name_def identity_upd split: list.split)
  moreover have "moves (on_graph G) (cypher (\<lambda>g. (map_nodes (organization_is src)
      (upd_props ((''cnpj'', Some (PStr d)) # stamp_cnpj actor now)) g, filter (organization_is src) (g_nodes g))))" for d now
    by (rule statement) (simp add: map identity_stamp)
  ultimately show ?thesis
    unfolding attach_organization_cnpj_def Let_def
    by (auto intro!: moves_if on.throw on.bindR on.getR on.cypher_read on.ret split: list.split)
qed

lemma purging: "moves (on_graph G) (purge_person_node i)"
proof -
  have "moves (on_graph G) (cypher (\<lambda>g. (detach_delete (purge_target i) g, ())))"
    by (rule statement) (simp add: purge)
  then show ?thesis
    unfolding purge_person_node_def get_node_provenance_def
    by (intro on.bindR on.cypher_read moves_option on.throw moves_if on.seqR on.ret)
qed

lemma entombing: "moves (on_graph G) (create_purge_tombstones ks j r)"
  unfolding create_purge_tombstones_def
  by (intro on.forR moves_if on.sql on.ret) (simp add: insert_tombstone_def tables)

end

sublocale office_graph_order \<subseteq> desk: office_stores "on_graph G"
proof unfold_locales
  fix s :: office and x y z w v u k ks j r i n d sd c lp pol org sid party out ev actor cnpj
  show "on_graph G s (s\<lparr>reviews := x\<rparr>)" "on_graph G s (s\<lparr>snapshots := y\<rparr>)" "on_graph G s (s\<lparr>aliases := z\<rparr>)"
    "on_graph G s (s\<lparr>watches := w\<rparr>)" "on_graph G s (s\<lparr>removals := v\<rparr>)" "on_graph G s (s\<lparr>audits := u\<rparr>)"
    "on_graph G s (s\<lparr>issued := k\<rparr>)"
    by (simp_all add: tables)
  show "moves (on_graph G) (create_purge_tombstones ks j r :: (office, unit) prog)" by (rule entombing)
  show "moves (on_graph G) (upsert_scandal i n d :: (office, unit) prog)"
    unfolding upsert_scandal_def Let_def by (rule statement) (simp add: merge identity_id)
  show "moves (on_graph G) (upsert_scandal_seed sd :: (office, unit) prog)"
    unfolding upsert_scandal_seed_def scandal_facts_def by (rule statement) (simp add: merge identity_upd)
  show "moves (on_graph G) (upsert_legal_proceeding_by_case (bare_case c) :: (office, gostr) prog)" by (rule proceeding)
  show "moves (on_graph G) (ensure_investigates_edge lp i :: (office, unit) prog)" by (rule investigates)
  show "moves (on_graph G) (ensure_politician_defendant_edge pol lp :: (office, unit) prog)"
    unfolding ensure_politician_defendant_edge_def by (rule confirming) (rule cites_confirmed)
  show "moves (on_graph G) (ensure_politician_controls_organization pol org :: (office, unit) prog)"
    unfolding ensure_politician_controls_organization_def by (rule confirming) simp
  show "moves (on_graph G) (ensure_politician_sanctioned_in_edge pol sid :: (office, unit) prog)"
    unfolding ensure_politician_sanctioned_in_edge_def by (rule confirming) simp
  show "moves (on_graph G) (purge_person_node i :: (office, provenance) prog)" by (rule purging)
  show "moves (on_graph G) (set_defendant_outcome lp party out ev actor :: (office, unit) prog)" by (rule deciding)
  show "moves (on_graph G) (attach_organization_cnpj i cnpj actor :: (office, gostr) prog)" by (rule attaching)
qed

end
