(* ===== verification/System.thy ===== *)
theory System
  imports Graph_Orders Djen_Props
begin

text \<open>
  The whole system: the workers and the back office on the shared stores, in any order, and what
  no sequence of their runs undoes.
\<close>

section \<open>A conviction has a decision behind it\<close>

definition claim_sourced :: "props \<Rightarrow> bool" where
  "claim_sourced p \<longleftrightarrow>
     (p ''outcome'' = Some (PStr (lit ''convicted'')) \<longrightarrow>
        (\<exists>u. p ''outcome_evidence_url'' = Some (PStr u) \<and> u \<noteq> [])) \<and>
     (p ''outcome_evidence_url'' \<noteq> None \<longrightarrow> p ''outcome'' \<noteq> None)"

definition sourced :: "graph \<Rightarrow> bool" where
  "sourced g \<longleftrightarrow> (\<forall>e \<in> set (g_edges g). e_type e = ''DEFENDANT_IN'' \<longrightarrow> claim_sourced (e_props e))"

definition sourcing :: "graph \<Rightarrow> graph \<Rightarrow> bool" where
  "sourcing g h \<longleftrightarrow> (sourced g \<longrightarrow> sourced h)"

lemma sourced_empty: "claim_sourced Map.empty"
  by (simp add: claim_sourced_def)

lemma sourced_cites: "cites f \<Longrightarrow> claim_sourced p \<Longrightarrow> claim_sourced (f p)"
  by (auto simp: cites_def claim_sourced_def)

lemma sourced_outcome:
  "(out = lit ''convicted'' \<Longrightarrow> ev \<noteq> []) \<Longrightarrow> claim_sourced (outcome_props out ev actor now p)"
  by (simp add: outcome_props_def claim_sourced_def)

lemma sourced_overlay: "claim_sourced p \<Longrightarrow> claim_sourced q \<Longrightarrow> claim_sourced (p ++ q)"
  by (auto simp: claim_sourced_def map_add_def split: option.splits)

lemma sourced_same: "g_edges h = g_edges g \<Longrightarrow> sourcing g h"
  by (simp add: sourcing_def sourced_def)

lemma sourced_subset: "set (g_edges h) \<subseteq> set (g_edges g) \<Longrightarrow> sourcing g h"
  by (auto simp: sourcing_def sourced_def)

lemma sourced_merge:
  assumes "t = ''DEFENDANT_IN'' \<Longrightarrow> (\<And>p. claim_sourced p \<Longrightarrow> claim_sourced (f p))" and "sourced g"
  shows "sourced (merge_edge a t b [] f g)"
  using assms sourced_empty by (auto simp: sourced_def merge_edge_def edge_is_def)

lemma sourced_merges:
  assumes "t = ''DEFENDANT_IN'' \<Longrightarrow> (\<And>p. claim_sourced p \<Longrightarrow> claim_sourced (f p))"
  shows "sourcing g (merge_edges ps t [] f g)"
proof -
  have "sourced g \<Longrightarrow> sourced (merge_edges ps t [] f g)" for g
  proof (induction ps arbitrary: g)
    case (Cons p ps)
    obtain a b where "p = (a, b)" by fastforce
    with Cons sourced_merge [OF assms] show ?case by simp
  qed simp
  then show ?thesis by (simp add: sourcing_def)
qed

text \<open>Moving a relationship overlays its properties on those of the one it is merged into.\<close>

lemma sourced_moves:
  assumes "\<forall>(e, d) \<in> set xs. t = ''DEFENDANT_IN'' \<longrightarrow> claim_sourced (e_props e)" and "sourced g"
  shows "sourced (foldl (\<lambda>h (e, d). merge_edge (fst (ends e d)) t (snd (ends e d)) [] (\<lambda>p. p ++ e_props e) h) g xs)"
  using assms
proof (induction xs arbitrary: g)
  case (Cons x xs)
  obtain e d where x: "x = (e, d)" by fastforce
  have "sourced (merge_edge (fst (ends e d)) t (snd (ends e d)) [] (\<lambda>p. p ++ e_props e) g)"
    by (rule sourced_merge) (use Cons.prems x sourced_overlay in auto)
  with Cons x show ?case by simp
qed simp

lemma sourced_move_edges:
  assumes "\<And>e. moved e \<Longrightarrow> e_type e = t"
  shows "sourcing g (move_edges moved ends t ds g)"
proof -
  have "sourced (foldl (\<lambda>h (e, d). merge_edge (fst (ends e d)) t (snd (ends e d)) [] (\<lambda>p. p ++ e_props e) h) g
      (List.product (filter moved (g_edges g)) ds))" if "sourced g"
    by (rule sourced_moves) (use that assms in \<open>auto simp: sourced_def\<close>)
  then show ?thesis by (auto simp: sourcing_def move_edges_def Let_def sourced_def)
qed

interpretation sourcing: office_graph_order sourcing
proof unfold_locales
  fix g g2 g3 f P l key v c ps t h i out ev actor now party lp src dst ty lb tz
  show "sourcing g g" by (simp add: sourcing_def)
  show "sourcing g g2 \<Longrightarrow> sourcing g2 g3 \<Longrightarrow> sourcing g g3" by (simp add: sourcing_def)
  show "sourcing g (map_nodes P f g)" by (rule sourced_same) simp
  show "sourcing g (fst (merge_node l key v c f g))" by (rule sourced_same) simp
  show "t = ''DEFENDANT_IN'' \<longrightarrow> cites h \<Longrightarrow> sourcing g (merge_edges ps t [] h g)"
    by (rule sourced_merges) (blast intro: sourced_cites)
  show "sourcing g (detach_delete (purge_target i) g)"
    by (rule sourced_subset) (auto simp: detach_delete_def Let_def)
  show "(out = lit ''convicted'' \<Longrightarrow> ev \<noteq> []) \<Longrightarrow>
      sourcing g (map_edges (defendant_edge g party lp) (outcome_props out ev actor now) g)"
    using sourced_outcome [of out ev actor now] by (auto simp: sourcing_def sourced_def map_edges_def)
  show "sourcing g (move_out src dst ty lb g)" "sourcing g (move_in src dst tz g)"
    unfolding move_out_def move_in_def Let_def by (rule sourced_move_edges, simp)+
  show "sourcing g (g\<lparr>g_nodes := filter (\<lambda>n. \<not> organization_is src n) (g_nodes g)\<rparr>)"
    by (rule sourced_same) simp
qed

section \<open>The public record survives\<close>

text \<open>
  What nobody may remove: every node but those of persons and organizations, and every relationship
  between two such nodes. A politician stays one of them whatever other label the node has.
\<close>

definition record_node :: "node \<Rightarrow> bool" where
  "record_node n \<longleftrightarrow> \<not> has_label ''Organization'' n \<and> (\<not> has_label ''Person'' n \<or> has_label ''Politician'' n)"

definition same_record :: "node \<Rightarrow> node \<Rightarrow> bool" where
  "same_record m n \<longleftrightarrow>
     n_key m = n_key n \<and> n_props m ''id'' = n_props n ''id'' \<and>
     (\<forall>l \<in> {''Politician'', ''Person'', ''Organization''}. has_label l m = has_label l n)"

definition record_key :: "graph \<Rightarrow> nat \<Rightarrow> bool" where
  "record_key g k \<longleftrightarrow> (\<exists>n \<in> set (g_nodes g). n_key n = k \<and> record_node n)"

definition records_kept :: "graph \<Rightarrow> graph \<Rightarrow> bool" where
  "records_kept g h \<longleftrightarrow>
     (wf_graph g \<longrightarrow> wf_graph h \<and>
        (\<forall>n \<in> set (g_nodes g). record_node n \<longrightarrow> (\<exists>m \<in> set (g_nodes h). same_record n m)) \<and>
        (\<forall>e \<in> set (g_edges g). record_key g (e_from e) \<and> record_key g (e_to e) \<longrightarrow> triple e \<in> triple ` set (g_edges h)))"

lemma same_record_refl [simp]: "same_record n n"
  by (simp add: same_record_def)

lemma same_record_node: "same_record n m \<Longrightarrow> record_node m = record_node n"
  by (simp add: same_record_def record_node_def)

lemma record_key_kept: "\<forall>n \<in> set (g_nodes g). record_node n \<longrightarrow> (\<exists>m \<in> set (g_nodes h). same_record n m) \<Longrightarrow>
    record_key g k \<Longrightarrow> record_key h k"
  unfolding record_key_def by (metis same_record_def same_record_node)

lemma records_kept_trans:
  assumes "records_kept g h" and "records_kept h k" shows "records_kept g k"
  unfolding records_kept_def
proof (intro impI conjI ballI)
  assume wf: "wf_graph g"
  with assms have h: "wf_graph h" and n: "\<forall>n \<in> set (g_nodes g). record_node n \<longrightarrow> (\<exists>m \<in> set (g_nodes h). same_record n m)"
    unfolding records_kept_def by blast+
  with assms show "wf_graph k" unfolding records_kept_def by blast
  show "\<exists>m \<in> set (g_nodes k). same_record x m" if x: "x \<in> set (g_nodes g)" "record_node x" for x
  proof -
    obtain m where m: "m \<in> set (g_nodes h)" "same_record x m" using n x by blast
    with x same_record_node obtain m' where "m' \<in> set (g_nodes k)" "same_record m m'"
      using assms(2) h unfolding records_kept_def by blast
    with m show ?thesis unfolding same_record_def by metis
  qed
  show "triple e \<in> triple ` set (g_edges k)"
    if e: "e \<in> set (g_edges g)" "record_key g (e_from e) \<and> record_key g (e_to e)" for e
  proof -
    obtain e' where e': "e' \<in> set (g_edges h)" "triple e' = triple e"
      using assms(1) wf e unfolding records_kept_def by force
    then have "record_key h (e_from e')" "record_key h (e_to e')"
      using record_key_kept [OF n] e(2) by (auto simp: triple_def)
    with e' assms(2) h show ?thesis unfolding records_kept_def by metis
  qed
qed

text \<open>A step that touches relationships only.\<close>

lemma records_edges:
  assumes "g_nodes h = g_nodes g" and "g_next h = g_next g"
    and "wf_graph g \<Longrightarrow> \<forall>e \<in> set (g_edges h). e_from e \<in> n_key ` set (g_nodes g) \<and> e_to e \<in> n_key ` set (g_nodes g)"
    and "wf_graph g \<Longrightarrow> \<forall>e \<in> set (g_edges g). record_key g (e_from e) \<and> record_key g (e_to e) \<longrightarrow> triple e \<in> triple ` set (g_edges h)"
  shows "records_kept g h"
proof -
  have "wf_graph h" if g: "wf_graph g"
  proof -
    have "distinct (List.map n_key (g_nodes g))" "\<forall>n \<in> set (g_nodes g). n_key n < g_next g"
      using g unfolding wf_graph_def by blast+
    with assms(3) [OF g] show ?thesis unfolding wf_graph_def assms(1,2) by blast
  qed
  moreover have "\<forall>n \<in> set (g_nodes g). \<exists>m \<in> set (g_nodes g). same_record n m"
    using same_record_refl by blast
  ultimately show ?thesis
    unfolding records_kept_def assms(1) using assms(4) by blast
qed

lemma records_map:
  assumes "keeps_identity f" shows "records_kept g (map_nodes P f g)"
proof -
  have "same_record n (f n)" for n using assms by (simp add: keeps_identity_def same_record_def)
  moreover have "wf_graph g \<Longrightarrow> wf_graph (map_nodes P f g)"
    by (rule wf_map_nodes) (use assms in \<open>simp_all add: keeps_identity_def\<close>)
  ultimately show ?thesis
    unfolding records_kept_def by (auto intro!: imageI intro: same_record_refl)
qed

lemma records_merge:
  assumes f: "keeps_identity f" shows "records_kept g (fst (merge_node l k v c f g))"
proof (cases "match_nodes l (prop_is k v) g = []")
  case True
  have "wf_graph g \<Longrightarrow> wf_graph (fst (merge_node l k v c f g))"
    by (rule wf_merge_node) (use f in \<open>simp_all add: keeps_identity_def\<close>)
  then show ?thesis
    unfolding records_kept_def using True
    by (auto simp: merge_node_def Let_def intro: same_record_refl)
next
  case False
  then show ?thesis using records_map [OF f] by (simp add: merge_node_def Let_def)
qed

lemma triple_edges: "(a, t, b) \<in> triple ` set (g_edges g) \<longleftrightarrow> has_edge a t b g"
  by (auto simp: has_edge_triple)

lemma edge_has: "e \<in> set (g_edges g) \<Longrightarrow> has_edge (e_from e) (e_type e) (e_to e) g"
  by (auto simp: has_edge_def edge_is_def)

lemma triple_has: "triple e \<in> triple ` set (g_edges g) \<longleftrightarrow> has_edge (e_from e) (e_type e) (e_to e) g"
  using triple_edges [of "e_from e" "e_type e" "e_to e" g] by (simp add: triple_def)

lemma records_link:
  assumes "linkable ps g" shows "records_kept g (merge_edges ps t [] f g)"
proof (rule records_edges)
  assume "wf_graph g"
  with assms have "wf_graph (merge_edges ps t [] f g)" by (intro wf_merge_edges) (simp_all add: linkable_def)
  then show "\<forall>e \<in> set (g_edges (merge_edges ps t [] f g)). e_from e \<in> n_key ` set (g_nodes g) \<and> e_to e \<in> n_key ` set (g_nodes g)"
    by (simp add: wf_graph_def)
  show "\<forall>e \<in> set (g_edges g). record_key g (e_from e) \<and> record_key g (e_to e) \<longrightarrow>
      triple e \<in> triple ` set (g_edges (merge_edges ps t [] f g))"
    by (simp add: triple_has has_edge_merge_edges edge_has)
qed simp_all

text \<open>A key under which only persons and organizations are found is no key of a record.\<close>

lemma not_record_key:
  assumes "wf_graph g" and "k \<in> n_key ` set (filter P (g_nodes g))" and "\<And>n. P n \<Longrightarrow> \<not> record_node n"
  shows "\<not> record_key g k"
proof
  assume "record_key g k"
  then obtain n where n: "n \<in> set (g_nodes g)" "n_key n = k" "record_node n" unfolding record_key_def by blast
  obtain m where m: "m \<in> set (g_nodes g)" "n_key m = k" "P m" using assms(2) by auto
  have "n = m" using assms(1) n m unfolding wf_graph_def by (metis distinct_map inj_onD)
  with n m assms(3) show False by blast
qed

lemma records_delete:
  assumes P: "\<And>n. P n \<Longrightarrow> \<not> record_node n" shows "records_kept g (detach_delete P g)"
  unfolding records_kept_def
proof (intro impI conjI ballI)
  assume wf: "wf_graph g"
  then show "wf_graph (detach_delete P g)" by (rule wf_detach_delete)
  show "\<exists>m \<in> set (g_nodes (detach_delete P g)). same_record n m" if "n \<in> set (g_nodes g)" "record_node n" for n
    using that P by (intro bexI [of _ n]) (auto simp: detach_delete_def Let_def)
  show "triple e \<in> triple ` set (g_edges (detach_delete P g))"
    if "e \<in> set (g_edges g)" "record_key g (e_from e) \<and> record_key g (e_to e)" for e
    using that not_record_key [OF wf _ P] by (intro imageI) (auto simp: detach_delete_def Let_def)
qed

lemma records_same_edges:
  assumes "g_nodes h = g_nodes g" "g_next h = g_next g" and "List.map triple (g_edges h) = List.map triple (g_edges g)"
  shows "records_kept g h"
proof (rule records_edges)
  have t: "triple ` set (g_edges h) = triple ` set (g_edges g)" using arg_cong [OF assms(3), of set] by simp
  then show "\<forall>e \<in> set (g_edges g). record_key g (e_from e) \<and> record_key g (e_to e) \<longrightarrow> triple e \<in> triple ` set (g_edges h)"
    by simp
  assume g: "wf_graph g"
  show "\<forall>e \<in> set (g_edges h). e_from e \<in> n_key ` set (g_nodes g) \<and> e_to e \<in> n_key ` set (g_nodes g)"
  proof
    fix e assume "e \<in> set (g_edges h)"
    then have "triple e \<in> triple ` set (g_edges g)" using t by blast
    then obtain e' where "e' \<in> set (g_edges g)" "triple e = triple e'" by blast
    with g show "e_from e \<in> n_key ` set (g_nodes g) \<and> e_to e \<in> n_key ` set (g_nodes g)"
      by (auto simp: wf_graph_def triple_def)
  qed
qed (rule assms)+

text \<open>Moving relationships off a node that is no record.\<close>

lemma moved_merge:
  fixes ends :: "edge \<Rightarrow> nat \<Rightarrow> nat \<times> nat"
  defines "step \<equiv> \<lambda>t h (e, d). merge_edge (fst (ends e d)) t (snd (ends e d)) [] (\<lambda>p. p ++ e_props e) h"
  shows "foldl (step t) g xs = h \<Longrightarrow> g_nodes h = g_nodes g \<and> g_next h = g_next g \<and>
     (\<forall>a u b. has_edge a u b g \<longrightarrow> has_edge a u b h) \<and>
     (wf_graph g \<longrightarrow> (\<forall>(e, d) \<in> set xs. {fst (ends e d), snd (ends e d)} \<subseteq> n_key ` set (g_nodes g)) \<longrightarrow> wf_graph h)"
proof (induction xs arbitrary: g)
  case Nil
  then show ?case by simp
next
  case (Cons x xs)
  obtain e d where x: "x = (e, d)" by fastforce
  let ?m = "merge_edge (fst (ends e d)) t (snd (ends e d)) [] (\<lambda>p. p ++ e_props e) g"
  have "foldl (step t) ?m xs = h" using Cons.prems by (simp add: x step_def)
  from Cons.IH [OF this] show ?case by (auto simp: x intro!: wf_merge_edge)
qed

lemma records_move_edges:
  assumes moved: "\<And>e. wf_graph g \<Longrightarrow> moved e \<Longrightarrow> \<not> (record_key g (e_from e) \<and> record_key g (e_to e))"
    and ends: "\<And>e d. wf_graph g \<Longrightarrow> e \<in> set (g_edges g) \<Longrightarrow> d \<in> set ds \<Longrightarrow>
      {fst (ends e d), snd (ends e d)} \<subseteq> n_key ` set (g_nodes g)"
    and only: "\<And>e e'. triple e = triple e' \<Longrightarrow> moved e = moved e'"
  shows "records_kept g (move_edges moved ends t ds g)"
proof -
  obtain h where h: "foldl (\<lambda>h (e, d). merge_edge (fst (ends e d)) t (snd (ends e d)) [] (\<lambda>p. p ++ e_props e) h) g
      (List.product (filter moved (g_edges g)) ds) = h" by blast
  note m = moved_merge [OF h]
  have move: "move_edges moved ends t ds g = h\<lparr>g_edges := filter (\<lambda>e. \<not> moved e) (g_edges h)\<rparr>"
    by (simp add: move_edges_def Let_def h)
  show ?thesis
    unfolding move
  proof (rule records_edges)
    assume g: "wf_graph g"
    with m ends have "wf_graph h" by fastforce
    with m show "\<forall>e \<in> set (g_edges (h\<lparr>g_edges := filter (\<lambda>e. \<not> moved e) (g_edges h)\<rparr>)).
        e_from e \<in> n_key ` set (g_nodes g) \<and> e_to e \<in> n_key ` set (g_nodes g)"
      by (simp add: wf_graph_def)
    show "\<forall>e \<in> set (g_edges g). record_key g (e_from e) \<and> record_key g (e_to e) \<longrightarrow>
        triple e \<in> triple ` set (g_edges (h\<lparr>g_edges := filter (\<lambda>e. \<not> moved e) (g_edges h)\<rparr>))"
    proof (intro ballI impI)
      fix e assume e: "e \<in> set (g_edges g)" "record_key g (e_from e) \<and> record_key g (e_to e)"
      then have "triple e \<in> triple ` set (g_edges h)" using m edge_has triple_has by blast
      then obtain e' where e': "e' \<in> set (g_edges h)" "triple e' = triple e" by (metis imageE)
      with only [OF e'(2)] moved [OF g] e(2) show "triple e \<in> triple ` set (g_edges (h\<lparr>g_edges := filter (\<lambda>e. \<not> moved e) (g_edges h)\<rparr>))"
        by (intro image_eqI [of _ _ e']) auto
    qed
  qed (simp_all add: m)
qed

lemma company_no_record: "organization_is i n \<Longrightarrow> \<not> record_node n"
  by (simp add: organization_is_def record_node_def)

lemma company_key: "wf_graph g \<Longrightarrow> k \<in> set (keys_of (organization_is i) g) \<Longrightarrow> \<not> record_key g k"
  using not_record_key [of g k "organization_is i"] company_no_record [of i] by (auto simp: keys_of_def)

lemma keys_of_nodes: "k \<in> set (keys_of P g) \<Longrightarrow> k \<in> n_key ` set (g_nodes g)"
  by (auto simp: keys_of_def)

interpretation records: office_graph_order records_kept
proof unfold_locales
  fix g g2 g3 f P l key v c ps t h i out ev actor now party lp src dst ty lb tz
  show "records_kept g g" unfolding records_kept_def using same_record_refl by blast
  show "records_kept g g2 \<Longrightarrow> records_kept g2 g3 \<Longrightarrow> records_kept g g3" by (rule records_kept_trans)
  show "keeps_identity f \<Longrightarrow> records_kept g (map_nodes P f g)" by (rule records_map)
  show "keeps_identity f \<Longrightarrow> records_kept g (fst (merge_node l key v c f g))" by (rule records_merge)
  show "linkable ps g \<Longrightarrow> records_kept g (merge_edges ps t [] h g)" by (rule records_link)
  show "records_kept g (detach_delete (purge_target i) g)"
    by (rule records_delete) (auto simp: purge_target_def record_node_def)
  show "records_kept g (map_edges (defendant_edge g party lp) (outcome_props out ev actor now) g)"
    by (rule records_same_edges) (simp_all add: map_edges_def triple_def)
  show "records_kept g (move_out src dst ty lb g)"
    unfolding move_out_def Let_def
    by (rule records_move_edges) (auto simp: triple_def wf_graph_def dest: company_key [rotated] keys_of_nodes)
  show "records_kept g (move_in src dst tz g)"
    unfolding move_in_def Let_def
    by (rule records_move_edges) (auto simp: triple_def wf_graph_def dest: company_key [rotated] keys_of_nodes)
  show "records_kept g (g\<lparr>g_nodes := filter (\<lambda>n. \<not> organization_is src n) (g_nodes g)\<rparr>)"
    if "\<And>n. n \<in> set (g_nodes g) \<Longrightarrow> organization_is src n \<Longrightarrow> degree g n = 0"
  proof -
    have "g\<lparr>g_nodes := filter (\<lambda>n. \<not> organization_is src n) (g_nodes g)\<rparr> = detach_delete (organization_is src) g"
    proof -
      have "\<forall>e \<in> set (g_edges g). e_from e \<notin> n_key ` set (filter (organization_is src) (g_nodes g)) \<and>
          e_to e \<notin> n_key ` set (filter (organization_is src) (g_nodes g))"
        using that by (fastforce simp: degree_def filter_empty_conv)
      then have "filter (\<lambda>e. e_from e \<notin> n_key ` set (filter (organization_is src) (g_nodes g)) \<and>
          e_to e \<notin> n_key ` set (filter (organization_is src) (g_nodes g))) (g_edges g) = g_edges g"
        by (simp only: filter_True)
      then show ?thesis by (simp add: detach_delete_def Let_def)
    qed
    then show ?thesis using records_delete [of "organization_is src" g] company_no_record by simp
  qed
qed

end
