(* ===== verification/System_Run.thy ===== *)
theory System_Run
  imports System
begin

text \<open>
  Runs of the whole system, and the invariants that hold after any of them by rule induction.
\<close>

section \<open>Steps\<close>

text \<open>A worker has its own counters and clients; with the office it shares the stores.\<close>

definition same_world_as :: "'y world_scheme \<Rightarrow> 'z world_scheme \<Rightarrow> bool" where
  "same_world_as d s \<longleftrightarrow> world.truncate d = world.truncate s"

definition share :: "'y world_scheme \<Rightarrow> office \<Rightarrow> office" where
  "share d s = world.extend (world.truncate d) (world.more s)"

text \<open>
  A request is served, the API starts, a worker runs, or time passes and connections come and go; each
  with any result, error and point of failure. The company enricher stands beside the other workers: asked
  for one company it creates it unasked, so what \<open>worker_run_no_revival\<close> states of them is not true of it.
  So do the commands that import elections and refresh the houses: they write politicians, whom no
  tombstone keeps out; and the photo worker, which touches no name or number.
\<close>

inductive worker_step :: "office \<Rightarrow> office \<Rightarrow> bool" where
  sync: "same_world_as d s \<Longrightarrow> run_sync fuel w api stamp d = (r, d') \<Longrightarrow> worker_step s (share d' s)"
| gazette: "same_world_as d s \<Longrightarrow> run_djen de dw d = (r, d') \<Longrightarrow> worker_step s (share d' s)"
| dockets: "same_world_as d s \<Longrightarrow> run_datajud ke kw d = (r, d') \<Longrightarrow> worker_step s (share d' s)"
| time: "worker_step s (s\<lparr>clock := c, wall := n, faults := fs\<rparr>)"

inductive system_step :: "office_env \<Rightarrow> gostr \<times> gostr \<Rightarrow> office \<Rightarrow> office \<Rightarrow> bool" for e acc where
  request: "serve e acc h s = (r, t) \<Longrightarrow> system_step e acc s t"
| boot: "seed_baseline e s = (r, t) \<Longrightarrow> system_step e acc s t"
| worker: "worker_step s t \<Longrightarrow> system_step e acc s t"
| enrichment: "same_world_as d s \<Longrightarrow> run_cnpj ce cw d = (r, d') \<Longrightarrow> system_step e acc s (share d' s)"
| elections: "same_world_as d s \<Longrightarrow> tse_main te tw d = (ro, d') \<Longrightarrow> system_step e acc s (share d' s)"
| chamber: "same_world_as d s \<Longrightarrow> camara_main te p limit batch d = (ro, d') \<Longrightarrow> system_step e acc s (share d' s)"
| photos: "same_world_as d s \<Longrightarrow> photos_main pe pw modes d = (r, d') \<Longrightarrow> system_step e acc s (share d' s)"
| senate: "same_world_as d s \<Longrightarrow> senado_main te p batch d = (ro, d') \<Longrightarrow> system_step e acc s (share d' s)"

inductive worker_run :: "office \<Rightarrow> office \<Rightarrow> bool" where
  none: "worker_run s s"
| next_step: "worker_run s t \<Longrightarrow> worker_step t u \<Longrightarrow> worker_run s u"

inductive system_run :: "office_env \<Rightarrow> gostr \<times> gostr \<Rightarrow> office \<Rightarrow> office \<Rightarrow> bool" for e acc where
  none: "system_run e acc s s"
| next_step: "system_run e acc s t \<Longrightarrow> system_step e acc t u \<Longrightarrow> system_run e acc s u"

inductive_cases worker_stepE: "worker_step s t"
inductive_cases system_stepE: "system_step e acc s t"

lemma share_sel [simp]:
  "graph (share d s) = graph d" "tombs (share d s) = tombs d" "reviews (share d s) = reviews d"
  "snapshots (share d s) = snapshots d" "aliases (share d s) = aliases d" "watches (share d s) = watches d"
  "removals (share d s) = removals s" "audits (share d s) = audits s"
  by (cases s, simp add: share_def world.extend_def world.truncate_def)+

lemma same_world_sel:
  assumes "same_world_as d s" shows "graph d = graph s \<and> tombs d = tombs s"
  using assms arg_cong [of "world.truncate d" "world.truncate s" graph]
    arg_cong [of "world.truncate d" "world.truncate s" tombs]
  by (simp_all add: same_world_as_def world.truncate_def)

section \<open>Orders and runs\<close>

text \<open>An order that no step violates is violated by no run.\<close>

lemma worker_run_order:
  assumes "worker_run s t" and "\<And>s. R s s" and "\<And>s t u. R s t \<Longrightarrow> R t u \<Longrightarrow> R s u"
    and "\<And>s t. worker_step s t \<Longrightarrow> R s t"
  shows "R s t"
  using assms(1) by induction (use assms in blast)+

lemma system_run_order:
  assumes "system_run e acc s t" and "\<And>s. R s s" and "\<And>s t u. R s t \<Longrightarrow> R t u \<Longrightarrow> R s u"
    and "\<And>s t. system_step e acc s t \<Longrightarrow> R s t"
  shows "R s t"
  using assms(1) by induction (use assms in blast)+

lemma moved: "moves R m \<Longrightarrow> m s = (r, t) \<Longrightarrow> R s t"
  by (drule movesD [of R m s]) simp

context office_graph_order
begin

lemma worker_step: "worker_step s t \<Longrightarrow> G (graph s) (graph t)"
  by (erule worker_stepE)
    (auto dest!: same_world_sel moved [OF sync.run_sync] moved [OF gazette.run] moved [OF dockets.run] simp: on_graph_def)

lemma system_step: "system_step e acc s t \<Longrightarrow> G (graph s) (graph t)"
  by (erule system_stepE)
    (auto dest!: same_world_sel moved [OF desk.serving] moved [OF desk.seeding] moved [OF company.run_any]
        moved [OF rolls.mains(1)] moved [OF rolls.mains(2)] moved [OF rolls.mains(3)] moved [OF pictures.run] worker_step
      simp: on_graph_def)

lemma system_run: "system_run e acc s t \<Longrightarrow> G (graph s) (graph t)"
  by (erule system_run_order [where R = "\<lambda>s t. G (graph s) (graph t)"]) (auto intro: trans system_step)

end

lemma no_resurrection_revival: "no_resurrection s t \<Longrightarrow> no_revival s t"
  unfolding no_resurrection_def no_revival_def revives_none_def adds_only_def continues_def
  by (fastforce simp: ident_def)

lemma no_revival_share:
  assumes "same_world_as d s" and "no_revival d d'" shows "no_revival s (share d' s)"
  using assms(2) same_world_sel [OF assms(1)] buried_tombs [of d s] by (simp add: no_revival_def)

lemma no_revival_time: "no_revival s (s\<lparr>clock := c, wall := n, faults := fs\<rparr>)"
  by (simp add: no_revival_def)

lemma worker_no_revival: "worker_step s t \<Longrightarrow> no_revival s t"
  by (erule worker_stepE)
    (blast intro: no_revival_share no_revival_time no_resurrection_revival
      dest: moved [OF res.run_sync] moved [OF rev.run] moved [OF rev_run.run])+

lemma worker_run_no_revival: "worker_run s t \<Longrightarrow> no_revival s t"
  by (erule worker_run_order) (auto intro: no_revival.trans worker_no_revival)

lemma worker_unique: "worker_step s t \<Longrightarrow> keeps_wf s t"
  by (erule worker_stepE)
    (auto dest!: same_world_sel moved [OF wf.run_sync] moved [OF wf_run.run] moved [OF wf_dk.run] simp: keeps_wf_def)

interpretation unique_cn: cnpj_any_statement unique
proof unfold_locales
  show "unique s t" if "world.truncate s = world.truncate t" for s t :: cn_state
    using truncate_watch [OF that] by (simp add: unique_def)
qed (simp_all add: unique_def)

lemma unique_cypher: "moves unique (cypher f)"
  unfolding cypher_def by (rule unique.db_call) (auto simp: moves_def run_cypher_def case_prod_beta unique_def)

interpretation unique_rolls: register_stores unique
proof (rule register_stores.intro [OF import_stores.intro [OF unique.world_order_axioms import_stores_axioms.intro]
      register_stores_axioms.intro])
  fix s :: registrar
  show "moves unique (cypher (merge_rows merge_tse_row rs) :: (registrar, nat) prog)"
    "moves unique (cypher (merge_rows merge_camara_row ds) :: (registrar, nat) prog)"
    "moves unique (cypher (merge_rows (match_senado_row ct) qs) :: (registrar, nat) prog)" for rs ds ct qs
    by (rule unique_cypher)+
qed (simp_all add: unique_def)

interpretation unique_pictures: photo_stores unique
proof (rule photo_stores.intro [OF unique.world_order_axioms photo_stores_axioms.intro])
  fix s t :: photo_state and cpf url source credit
  show "unique s t" if "world.truncate s = world.truncate t"
    using truncate_watch [OF that] by (simp add: unique_def)
  show "moves unique (set_politician_photo_by_cpf cpf url source credit :: (photo_state, bool) prog)"
    "moves unique (set_organization_photo_by_cnpj cpf url source credit :: (photo_state, bool) prog)"
    unfolding set_politician_photo_by_cpf_def set_organization_photo_by_cnpj_def by (rule unique_cypher)+
qed

lemma system_wf: "system_step e acc s t \<Longrightarrow> keeps_wf s t"
proof -
  assume st: "system_step e acc s t"
  have "records_kept (graph s) (graph t)" by (rule records.system_step [OF st])
  moreover have "wf_graph (graph s) \<and> ids_unique (graph s) \<Longrightarrow> ids_unique (graph t)"
    using st by (rule system_stepE)
      (auto dest!: moved [OF unique_desk.serving] moved [OF unique_desk.seeding] worker_unique
        same_world_sel moved [OF unique_cn.run_any]
        moved [OF unique_rolls.mains(1)] moved [OF unique_rolls.mains(2)] moved [OF unique_rolls.mains(3)]
        moved [OF unique_pictures.run] simp: unique_def keeps_wf_def)
  ultimately show ?thesis by (auto simp: keeps_wf_def records_kept_def)
qed

lemma system_tombs: "system_step e acc s t \<Longrightarrow> tombs_grow s t"
  by (erule system_stepE)
    (auto dest!: moved [OF grow_desk.serving] moved [OF grow_desk.seeding] worker_no_revival
        same_world_sel moved [OF company_level.run_any]
        moved [OF civic.mains(1)] moved [OF civic.mains(2)] moved [OF civic.mains(3)] moved [OF album.run]
      simp: no_revival_def company_level_def civic_def album_def intro: tombs_same)

end
