(* ===== verification/Office_Props.thy ===== *)
theory Office_Props
  imports Office_Run
begin

text \<open>
  What an operator's request does: who may write, what an approval needs and confirms, what a completed
  purge leaves, what registering a case and joining two companies achieve.
\<close>

section \<open>Reading a handler backwards\<close>

lemma rescue_Inr:
  "rescue m f k s = (Inr x, t) \<longleftrightarrow>
     (\<exists>er u. m s = (Inl er, u) \<and> f er u = (Inr x, t)) \<or> (\<exists>a u. m s = (Inr a, u) \<and> k a u = (Inr x, t))"
  by (auto simp: rescue_def bindR_def attemptR_def split: sum.splits) (metis prod.collapse sum.exhaust_sel)+

definition redirects :: "reply \<Rightarrow> bool" where
  "redirects r \<longleftrightarrow> (case r of SeeOther _ \<Rightarrow> True | _ \<Rightarrow> False)"

text \<open>A handler that did what was asked redirects; every other reply shows a page or an error.\<close>

definition accepted :: "(err + reply) \<times> office \<Rightarrow> bool" where
  "accepted x \<longleftrightarrow> (case fst x of Inl _ \<Rightarrow> False | Inr r \<Rightarrow> redirects r)"

lemma acceptedE:
  assumes "accepted (m s)" obtains rep where "m s = (Inr rep, snd (m s))" and "redirects rep"
  using assms by (cases "m s") (auto simp: accepted_def split: sum.splits)

lemma no_redirect_reviews: "render_reviews q b s = (Inr r, t) \<Longrightarrow> \<not> redirects r"
  by (auto simp: render_reviews_def rescue_Inr bindR_Inr redirects_def)

lemma no_redirect_removals: "render_removals q b s = (Inr r, t) \<Longrightarrow> \<not> redirects r"
  by (auto simp: render_removals_def rescue_Inr bindR_Inr redirects_def)

lemma with_uuid_Inr:
  "with_uuid e i f s = (Inr x, t) \<longleftrightarrow> (\<exists>n. oe_uuid e i = Some n \<and> f n s = (Inr x, t))"
  by (auto simp: with_uuid_def db_call_def throw_def split: option.splits list.splits fault.splits)

lemma find_row:
  assumes "bindR (sql_read f) (\<lambda>r. case r of None \<Rightarrow> throw DbError | Some r \<Rightarrow> ret r) s = (Inr r, t)"
  shows "\<exists>fs. t = s\<lparr>faults := fs\<rparr> \<and> f t = Some r"
proof -
  obtain a u where a: "sql_read f s = (Inr a, u)" and k: "(case a of None \<Rightarrow> throw DbError | Some r \<Rightarrow> ret r) u = (Inr r, t)"
    using assms unfolding bindR_Inr by blast
  from k have "a = Some r" "u = t" by (cases a; simp)+
  with sql_read_ok [OF a] show ?thesis by metis
qed

lemma get_review_ok:
  assumes "get_pending_review e i s = (Inr r, t)"
  shows "\<exists>n fs. oe_uuid e i = Some n \<and> find (\<lambda>r. rv_id r = n) (reviews s) = Some r \<and> t = s\<lparr>faults := fs\<rparr>"
proof -
  obtain n where n: "oe_uuid e i = Some n"
    and f: "bindR (sql_read (\<lambda>s. find (\<lambda>r. rv_id r = n) (reviews s))) (\<lambda>r. case r of None \<Rightarrow> throw DbError | Some r \<Rightarrow> ret r) s = (Inr r, t)"
    using assms unfolding get_pending_review_def with_uuid_Inr by blast
  from find_row [OF f] obtain fs where "t = s\<lparr>faults := fs\<rparr>" "find (\<lambda>r. rv_id r = n) (reviews t) = Some r" by blast
  then show ?thesis using n by (intro exI [of _ n] exI [of _ fs]) simp
qed

lemma get_removal_ok:
  assumes "get_removal_request e i s = (Inr r, t)"
  shows "\<exists>n fs. oe_uuid e i = Some n \<and> find (\<lambda>r. rr_id r = n) (removals s) = Some r \<and> t = s\<lparr>faults := fs\<rparr>"
proof -
  obtain n where n: "oe_uuid e i = Some n"
    and f: "bindR (sql_read (\<lambda>s. find (\<lambda>r. rr_id r = n) (removals s))) (\<lambda>r. case r of None \<Rightarrow> throw DbError | Some r \<Rightarrow> ret r) s = (Inr r, t)"
    using assms unfolding get_removal_request_def with_uuid_Inr by blast
  from find_row [OF f] obtain fs where "t = s\<lparr>faults := fs\<rparr>" "find (\<lambda>r. rr_id r = n) (removals t) = Some r" by blast
  then show ?thesis using n by (intro exI [of _ n] exI [of _ fs]) simp
qed

lemma settle_ok:
  assumes "update_pending_review_status e i st by s = (Inr x, t)"
  shows "\<exists>n fs. oe_uuid e i = Some n \<and> t = s\<lparr>faults := fs, reviews := settle n st (or_backoffice by) (reviews s)\<rparr>"
proof -
  obtain n where n: "oe_uuid e i = Some n"
    and run: "sql (\<lambda>s. s\<lparr>reviews := settle n st (or_backoffice by) (reviews s)\<rparr>) s = (Inr x, t)"
    using assms by (auto simp: update_pending_review_status_def with_uuid_Inr split: if_splits)
  from sql_ok [of "\<lambda>s. s\<lparr>reviews := settle n st (or_backoffice by) (reviews s)\<rparr>" s x] run
  obtain fs where "t = s\<lparr>faults := fs, reviews := settle n st (or_backoffice by) (reviews s)\<rparr>" by auto
  with n show ?thesis by blast
qed

text \<open>The audit record is best effort: it changes nothing else, written or not.\<close>

lemma sql_cases: "\<exists>fs. snd (sql f s) = f (s\<lparr>faults := fs\<rparr>) \<or> snd (sql f s) = s\<lparr>faults := fs\<rparr>"
proof (cases "faults s")
  case Nil
  then have "snd (sql f s) = f (s\<lparr>faults := faults s\<rparr>)" 
    using faults_self [OF Nil, of f] by (simp add: sql_def db_call_def modR_def)
  then show ?thesis by blast
next
  case (Cons x fs)
  then show ?thesis by (intro exI [of _ fs]) (cases x; simp add: sql_def db_call_def modR_def)
qed

definition audited :: "office \<Rightarrow> office \<Rightarrow> bool" where
  "audited s t \<longleftrightarrow> (\<exists>us fs. t = s\<lparr>faults := fs, audits := us\<rparr>)"

lemma audit_only: "audited s (snd (log_audit a b c d m s))"
proof -
  have "audited s (s\<lparr>faults := fs, audits := us\<rparr>)" for fs us unfolding audited_def by blast
  note this this [of "audits s"]
  then show ?thesis
    unfolding log_audit_def
    using sql_cases [of "\<lambda>s. s\<lparr>audits := audits s @ [\<lparr>au_actor = a, au_action = b, au_type = c, au_target = d, au_meta = m\<rparr>]\<rparr>" s]
    by auto
qed

lemma audited_sel:
  assumes "audited s t"
  shows "graph t = graph s" "tombs t = tombs s" "reviews t = reviews s" "snapshots t = snapshots s"
    "aliases t = aliases s" "watches t = watches s" "removals t = removals s"
  using assms by (auto simp: audited_def)

lemma after_audit: "seqR (ignoreR (log_audit a b c d m)) k s = (Inr r, t) \<longleftrightarrow> k (snd (log_audit a b c d m s)) = (Inr r, t)"
  by (simp add: seqR_def bindR_def ignoreR_def)

section \<open>What a confirmation leaves\<close>

lemma confirmation_ok:
  assumes "merge_confirmed_politician_edge c s = (Inr x, t)"
  shows "\<exists>fs. t = s\<lparr>faults := fs, graph := merge_edges (confirmed_pairs c (graph s)) (ce_type c) [] (confirmed_props c) (graph s)\<rparr>
    \<and> confirmed_pairs c (graph s) \<noteq> []"
proof -
  obtain rows where "cypher (\<lambda>g. (merge_edges (confirmed_pairs c g) (ce_type c) [] (confirmed_props c) g, confirmed_pairs c g)) s
      = (Inr rows, t)" and "rows \<noteq> []"
    using assms by (auto simp: merge_confirmed_politician_edge_def bindR_Inr split: if_splits)
  from cypher_ok [OF this(1)] this(2) show ?thesis by auto
qed

text \<open>One relationship of the confirmed kind, with the stamp of the review on it.\<close>

definition confirmed_between :: "confirmed_edge \<Rightarrow> graph \<Rightarrow> bool" where
  "confirmed_between c g \<longleftrightarrow>
     (\<exists>e \<in> set (g_edges g). e_type e = ce_type c \<and> e_props e ''source'' = Some (PStr (lit ''backoffice_review'')) \<and>
        (\<forall>(k, v) \<in> set (ce_extra c). e_props e k = v) \<and>
        (\<exists>p \<in> set (g_nodes g). n_key p = e_from e \<and> has_label ''Politician'' p \<and> n_props p ''id'' = Some (PStr (trim_space (ce_politician c)))) \<and>
        (\<exists>n \<in> set (g_nodes g). n_key n = e_to e \<and> has_label (ce_label c) n \<and> n_props n ''id'' = Some (PStr (trim_space (ce_target c)))))"

lemma confirmed_graph:
  assumes "confirmed_pairs c g \<noteq> []" and "ce_extra c = [] \<or> (\<exists>v. ce_extra c = [(''outcome'', v)])"
  shows "confirmed_between c (merge_edges (confirmed_pairs c g) (ce_type c) [] (confirmed_props c) g)"
proof -
  let ?h = "merge_edges (confirmed_pairs c g) (ce_type c) [] (confirmed_props c) g"
  obtain a b where ab: "(a, b) \<in> set (confirmed_pairs c g)" using assms(1) by (cases "confirmed_pairs c g") auto
  then have "has_edge a (ce_type c) b ?h" by (simp add: has_edge_merge_edges)
  then obtain e where e: "e \<in> set (g_edges ?h)" "e_from e = a" "e_type e = ce_type c" "e_to e = b"
    unfolding has_edge_def edge_is_def by blast
  with merge_edges_stamped [of g "ce_type c" "{}" "confirmed_props c" "confirmed_pairs c g" "[]"] ab
  obtain p where p: "e_props e = confirmed_props c p" by fastforce
  have "e_props e ''source'' = Some (PStr (lit ''backoffice_review''))" "\<forall>(k, v) \<in> set (ce_extra c). e_props e k = v"
    using assms(2) by (auto simp: p confirmed_props_def)
  moreover have "(\<exists>p \<in> set (g_nodes ?h). n_key p = e_from e \<and> has_label ''Politician'' p \<and> n_props p ''id'' = Some (PStr (trim_space (ce_politician c))))"
    "(\<exists>n \<in> set (g_nodes ?h). n_key n = e_to e \<and> has_label (ce_label c) n \<and> n_props n ''id'' = Some (PStr (trim_space (ce_target c))))"
    using ab e by (auto simp: confirmed_pairs_def node_pairs_iff match_nodes_def prop_is_def)
  ultimately show ?thesis unfolding confirmed_between_def using e by blast
qed

section \<open>A settled review\<close>

definition row_of :: "office_env \<Rightarrow> request \<Rightarrow> office \<Rightarrow> review option" where
  "row_of e q s = (case oe_uuid e (trim_space (qr_id q)) of None \<Rightarrow> None | Some n \<Rightarrow> find (\<lambda>r. rv_id r = n) (reviews s))"

lemma finish_ok:
  assumes "finish_edge_approval e q item edge meta s = (Inr rep, t)" and "redirects rep" and "uuids_roundtrip e"
  shows "graph t = graph s \<and> reviews t = settle (rv_id item) ''approved'' (or_backoffice (current_user q)) (reviews s)"
proof -
  obtain x u where u: "update_pending_review_status e (oe_text e (rv_id item)) ''approved'' (current_user q) s = (Inr x, u)"
    and t: "t = snd (log_audit (current_user q) ''create'' ''graph_edge'' (oe_text e (rv_id item))
      ([''resolution'' \<mapsto> PStr (lit ''approved''), ''type'' \<mapsto> PStr (lit (rv_type item)), ''edge'' \<mapsto> PStr edge] ++ meta) u)"
    using assms(1,2) no_redirect_reviews by (auto simp: finish_edge_approval_def Let_def rescue_Inr after_audit)
  from settle_ok [OF u] assms(3) obtain fs where
    "u = s\<lparr>faults := fs, reviews := settle (rv_id item) ''approved'' (or_backoffice (current_user q)) (reviews s)\<rparr>"
    by (auto simp: uuids_roundtrip_def)
  with audited_sel [OF audit_only] show ?thesis unfolding t by simp
qed

lemma approve_row:
  assumes "review_approve e q s = (Inr rep, t)" and "redirects rep"
  shows "\<exists>r fs. row_of e q s = Some r \<and> rv_status r = ''pending'' \<and>
    (if rv_type r = ''djen_case_candidate'' then approve_djen_candidate e q r
     else if rv_type r = ''djen_party_match'' then approve_djen_party_match e q r
     else if rv_type r = ''possible_politician_in_qsa'' then approve_politician_in_qsa e q r
     else if rv_type r = ''possible_politician_sanction'' then approve_politician_sanction e q r
     else if rv_type r = ''unknown_cnpj'' then approve_unknown_cnpj e q r
     else update_review e q ''approved'') (s\<lparr>faults := fs\<rparr>) = (Inr rep, t)"
proof -
  have "trim_space (qr_id q) \<noteq> []" using assms by (auto simp: review_approve_def redirects_def)
  then obtain r u where r: "get_pending_review e (trim_space (qr_id q)) s = (Inr r, u)"
    and k: "(if rv_status r \<noteq> ''pending'' then render_reviews q (''approval ignored: review is not pending (already '' @ rv_status r @ '')'')
      else if rv_type r = ''djen_case_candidate'' then approve_djen_candidate e q r
      else if rv_type r = ''djen_party_match'' then approve_djen_party_match e q r
      else if rv_type r = ''possible_politician_in_qsa'' then approve_politician_in_qsa e q r
      else if rv_type r = ''possible_politician_sanction'' then approve_politician_sanction e q r
      else if rv_type r = ''unknown_cnpj'' then approve_unknown_cnpj e q r
      else update_review e q ''approved'') u = (Inr rep, t)"
    using assms by (auto simp: review_approve_def Let_def rescue_Inr redirects_def)
  from get_review_ok [OF r] obtain fs where "row_of e q s = Some r" "u = s\<lparr>faults := fs\<rparr>"
    by (auto simp: row_of_def)
  with k no_redirect_reviews assms(2) show ?thesis by (cases "rv_status r = ''pending''") auto
qed

text \<open>The relationship a review proposes: what its payload says, with the politician the operator chose.\<close>

definition proposed :: "request \<Rightarrow> review \<Rightarrow> confirmed_edge option" where
  "proposed q r =
     (let get = str_prop (rv_payload r); chosen = form q ''politician_id'' in
      if rv_type r = ''djen_party_match'' then
        Some \<lparr>ce_label = ''LegalProceeding'', ce_type = ''DEFENDANT_IN'', ce_politician = get ''politician_id'',
              ce_target = get ''proceeding_id'', ce_extra = [(''outcome'', Some (PStr (lit ''confirmed'')))]\<rparr>
      else if rv_type r = ''possible_politician_in_qsa'' then
        Some \<lparr>ce_label = ''Organization'', ce_type = ''CONTROLS'',
              ce_politician = (if chosen = [] then get ''politician_id'' else chosen),
              ce_target = get ''organization_id'', ce_extra = []\<rparr>
      else if rv_type r = ''possible_politician_sanction'' then
        Some \<lparr>ce_label = ''Sanction'', ce_type = ''SANCTIONED_IN'', ce_politician = get ''politician_id'',
              ce_target = get ''sanction_id'', ce_extra = []\<rparr>
      else None)"

lemma unmarshal_Some: "unmarshal ks p = Some f \<Longrightarrow> f = str_prop p"
  by (simp add: unmarshal_def split: if_splits)

text \<open>The handlers of the three kinds confirm that relationship before they settle the review.\<close>

lemma confirming_run:
  assumes "rescue m (\<lambda>er. render_reviews q (msg er)) (\<lambda>_. finish_edge_approval e q r edge meta) s = (Inr rep, t)"
    and "redirects rep" and "uuids_roundtrip e" and "m = merge_confirmed_politician_edge c"
    and "ce_extra c = [] \<or> (\<exists>v. ce_extra c = [(''outcome'', v)])"
  shows "confirmed_between c (graph t) \<and> reviews t = settle (rv_id r) ''approved'' (or_backoffice (current_user q)) (reviews s)"
proof -
  obtain x u where u: "merge_confirmed_politician_edge c s = (Inr x, u)" and f: "finish_edge_approval e q r edge meta u = (Inr rep, t)"
    using assms(1,2,4) no_redirect_reviews by (auto simp: rescue_Inr)
  from confirmation_ok [OF u] obtain fs where
    u: "u = s\<lparr>faults := fs, graph := merge_edges (confirmed_pairs c (graph s)) (ce_type c) [] (confirmed_props c) (graph s)\<rparr>"
    and rows: "confirmed_pairs c (graph s) \<noteq> []" by blast
  from finish_ok [OF f assms(2,3)] confirmed_graph [OF rows assms(5)] show ?thesis unfolding u by simp
qed

lemma confirmed_trim [simp]:
  "confirmed_between \<lparr>ce_label = l, ce_type = ty, ce_politician = trim_space p, ce_target = trim_space i, ce_extra = x\<rparr> g =
   confirmed_between \<lparr>ce_label = l, ce_type = ty, ce_politician = p, ce_target = i, ce_extra = x\<rparr> g"
  by (simp add: confirmed_between_def)

lemma form_trim: "form q k = trim_space (qr_form q k)"
  by (simp add: form_def)

lemma confirmed_choice:
  "confirmed_between \<lparr>ce_label = l, ce_type = ty,
     ce_politician = (if form q k = [] then trim_space p else form q k), ce_target = trim_space i, ce_extra = x\<rparr> g =
   confirmed_between \<lparr>ce_label = l, ce_type = ty,
     ce_politician = (if form q k = [] then p else form q k), ce_target = i, ce_extra = x\<rparr> g"
  by (simp add: confirmed_between_def form_trim)

lemma proposal_confirmed:
  assumes "review_approve e q s = (Inr rep, t)" and "redirects rep" and "uuids_roundtrip e"
    and "row_of e q s = Some r" and "proposed q r = Some c"
  shows "rv_status r = ''pending'' \<and> confirmed_between c (graph t) \<and>
    reviews t = settle (rv_id r) ''approved'' (or_backoffice (current_user q)) (reviews s)"
proof -
  obtain fs where p: "rv_status r = ''pending''" and h: "(if rv_type r = ''djen_case_candidate'' then approve_djen_candidate e q r
     else if rv_type r = ''djen_party_match'' then approve_djen_party_match e q r
     else if rv_type r = ''possible_politician_in_qsa'' then approve_politician_in_qsa e q r
     else if rv_type r = ''possible_politician_sanction'' then approve_politician_sanction e q r
     else if rv_type r = ''unknown_cnpj'' then approve_unknown_cnpj e q r
     else update_review e q ''approved'') (s\<lparr>faults := fs\<rparr>) = (Inr rep, t)"
    using approve_row [OF assms(1,2)] assms(4) by auto
  consider "rv_type r = ''djen_party_match''" | "rv_type r = ''possible_politician_in_qsa''"
    | "rv_type r = ''possible_politician_sanction''"
    using assms(5) by (auto simp: proposed_def Let_def split: if_splits)
  then have "confirmed_between c (graph t) \<and>
      reviews t = settle (rv_id r) ''approved'' (or_backoffice (current_user q)) (reviews (s\<lparr>faults := fs\<rparr>))"
  proof cases
    case 1
    with h assms(2) no_redirect_reviews obtain edge meta msg where
      "rescue (ensure_politician_defendant_edge (trim_space (str_prop (rv_payload r) ''politician_id''))
          (trim_space (str_prop (rv_payload r) ''proceeding_id'')))
        (\<lambda>er. render_reviews q (msg er)) (\<lambda>_. finish_edge_approval e q r edge meta) (s\<lparr>faults := fs\<rparr>) = (Inr rep, t)"
      by (auto simp: approve_djen_party_match_def Let_def split: option.splits if_splits dest!: unmarshal_Some)
    from confirming_run [OF this assms(2,3) ensure_politician_defendant_edge_def] 1 assms(5)
    show ?thesis by (simp add: proposed_def Let_def confirmed_choice split: if_splits)
  next
    case 2
    let ?pol = "if form q ''politician_id'' = [] then trim_space (str_prop (rv_payload r) ''politician_id'') else form q ''politician_id''"
    from 2 h assms(2) no_redirect_reviews obtain edge meta msg where
      "rescue (ensure_politician_controls_organization ?pol (trim_space (str_prop (rv_payload r) ''organization_id'')))
        (\<lambda>er. render_reviews q (msg er)) (\<lambda>_. finish_edge_approval e q r edge meta) (s\<lparr>faults := fs\<rparr>) = (Inr rep, t)"
      by (auto simp: approve_politician_in_qsa_def Let_def split: option.splits if_splits dest!: unmarshal_Some)
    from confirming_run [OF this assms(2,3) ensure_politician_controls_organization_def] 2 assms(5)
    show ?thesis by (simp add: proposed_def Let_def confirmed_choice split: if_splits)
  next
    case 3
    with h assms(2) no_redirect_reviews obtain edge meta msg where
      "rescue (ensure_politician_sanctioned_in_edge (trim_space (str_prop (rv_payload r) ''politician_id''))
          (trim_space (str_prop (rv_payload r) ''sanction_id'')))
        (\<lambda>er. render_reviews q (msg er)) (\<lambda>_. finish_edge_approval e q r edge meta) (s\<lparr>faults := fs\<rparr>) = (Inr rep, t)"
      by (auto simp: approve_politician_sanction_def Let_def split: option.splits if_splits dest!: unmarshal_Some)
    from confirming_run [OF this assms(2,3) ensure_politician_sanctioned_in_edge_def] 3 assms(5)
    show ?thesis by (simp add: proposed_def Let_def confirmed_choice split: if_splits)
  qed
  then show ?thesis using p by auto
qed

section \<open>A completed purge\<close>

definition request_of :: "office_env \<Rightarrow> request \<Rightarrow> office \<Rightarrow> removal option" where
  "request_of e q s = (case oe_uuid e (trim_space (qr_id q)) of None \<Rightarrow> None | Some n \<Rightarrow> find (\<lambda>r. rr_id r = n) (removals s))"

text \<open>The name is in no snapshot, no pending alias and (backslashes apart) no review payload.\<close>

definition forgotten :: "office_env \<Rightarrow> gostr \<Rightarrow> office \<Rightarrow> bool" where
  "forgotten e name s \<longleftrightarrow>
     (\<forall>x \<in> set (snapshots s). \<not> same_text (oe_upper e) (sn_nome x) name) \<and>
     (\<forall>x \<in> set (aliases s). \<not> same_text (oe_upper e) (al_alias x) name) \<and>
     (92 \<notin> set name \<longrightarrow> (\<forall>x \<in> set (reviews s). \<not> contains (oe_json e (rv_payload x)) name))"

definition resolved_by :: "request \<Rightarrow> nat \<Rightarrow> removal list \<Rightarrow> removal list \<Rightarrow> bool" where
  "resolved_by q n rs rs' \<longleftrightarrow>
     (\<exists>resolution. rs' = close_request n ''resolved'' resolution (or_backoffice (current_user q)) rs) \<and>
     (\<exists>r \<in> set rs. open_request n r)"

lemma resolve_ok:
  assumes "resolve_removal_request e i st x by s = (Inr a, t)"
  shows "\<exists>n fs. oe_uuid e i = Some n \<and> (\<exists>r \<in> set (removals s). open_request n r) \<and>
    t = s\<lparr>faults := fs, removals := close_request n st (trim_space x) (or_backoffice by) (removals s)\<rparr>"
proof -
  let ?f = "\<lambda>n s. (length (filter (open_request n) (removals s)),
    s\<lparr>removals := close_request n st (trim_space x) (or_backoffice by) (removals s)\<rparr>)"
  obtain n k where n: "oe_uuid e i = Some n" and run: "sql_count (?f n) s = (Inr k, t)" and k: "k \<noteq> 0"
    using assms by (auto simp: resolve_removal_request_def with_uuid_Inr bindR_Inr split: if_splits)
  from db_call_ok [OF run [unfolded sql_count_def]] obtain fs where
    "t = s\<lparr>faults := fs, removals := close_request n st (trim_space x) (or_backoffice by) (removals s)\<rparr>"
    "k = length (filter (open_request n) (removals s))" by auto
  with n k show ?thesis by (metis filter_False length_0_conv)
qed

lemma close_ok:
  assumes "close_purge e q i s = (Inr rep, t)" and "redirects rep" and "oe_uuid e i = Some n"
  shows "resolved_by q n (removals s) (removals t) \<and> same_subjects s t \<and>
    snapshots t = snapshots s \<and> aliases t = aliases s \<and> reviews t = reviews s"
proof -
  obtain x a where "resolve_removal_request e i ''resolved'' x (current_user q) s = (Inr a, t)"
    using assms(1,2) no_redirect_removals by (auto simp: close_purge_def Let_def rescue_Inr)
  from resolve_ok [OF this] assms(3) show ?thesis by (auto simp: resolved_by_def same_subjects_def)
qed

lemma erase_ok:
  assumes "erase_name e q i r np s = (Inr rep, t)" and "redirects rep" and "oe_uuid e i = Some n"
  shows "resolved_by q n (removals s) (removals t) \<and> same_subjects s t \<and>
    (trim_space (pv_name np) \<noteq> [] \<longrightarrow> forgotten e (trim_space (pv_name np)) t)"
proof (cases "trim_space (pv_name np) = []")
  case True
  with close_ok [OF _ assms(2,3)] assms(1) show ?thesis by (auto simp: erase_name_def)
next
  case False
  with assms(1,2) no_redirect_removals obtain k u where
    del: "delete_purged_subject_name (oe_upper e) (oe_ci e) (oe_json e) (pv_name np) s = (Inr k, u)"
    and rest: "seqR (if 0 < k then ignoreR (log_audit (current_user q) ''delete'' ''review_substrate'' (rr_target r)
        [''name_rows_deleted'' \<mapsto> PNum (of_nat k)]) else ret ()) (close_purge e q i) u = (Inr rep, t)"
    by (auto simp: erase_name_def rescue_Inr)
  obtain v where v: "audited u v" and close: "close_purge e q i v = (Inr rep, t)"
  proof (cases "0 < k")
    case True
    with rest show ?thesis by (intro that [OF audit_only]) (simp add: after_audit)
  next
    case False
    have "u = u\<lparr>faults := faults u, audits := audits u\<rparr>" by simp
    then have "audited u u" unfolding audited_def by blast
    with False rest that show ?thesis by (simp add: seqR_def)
  qed
  have "removals u = removals s"
    using del by (auto simp: delete_purged_subject_name_def Let_def bindR_Inr dest!: sql_delete_ok split: if_splits)
  with delete_erases [OF del False] close_ok [OF close assms(2,3)] audited_sel [OF v]
  show ?thesis by (auto simp: forgotten_def same_subjects_def)
qed

definition entombs :: "office \<Rightarrow> office \<Rightarrow> bool" where
  "entombs s t \<longleftrightarrow> graph t = graph s \<and> removals t = removals s"

interpretation entombs: world_order entombs
  by unfold_locales (auto simp: entombs_def)

lemma entombed_frame: "moves entombs (create_purge_tombstones ks j r)"
  unfolding create_purge_tombstones_def
  by (intro entombs.forR moves_if entombs.sql entombs.ret) (simp add: insert_tombstone_def entombs_def)

lemma bury_ok:
  assumes "bury e q i r np s = (Inr rep, t)" and "redirects rep" and "oe_uuid e i = Some n"
  shows "resolved_by q n (removals s) (removals t) \<and> graph t = graph s \<and>
    (\<forall>k \<in> set (purge_tombstone_keys np). usable_key k \<longrightarrow> buried t k) \<and>
    (trim_space (pv_name np) \<noteq> [] \<longrightarrow> forgotten e (trim_space (pv_name np)) t)"
proof (cases "purge_tombstone_keys np = []")
  case True
  with erase_ok [OF _ assms(2,3)] assms(1) show ?thesis by (auto simp: bury_def same_subjects_def)
next
  case False
  let ?c = "create_purge_tombstones (purge_tombstone_keys np) (rr_target r) (oe_text e (rr_id r))"
  obtain u where c: "?c s = (Inr (), u)" and er: "erase_name e q i r np u = (Inr rep, t)"
    using assms(1,2) False no_redirect_removals by (auto simp: bury_def rescue_Inr)
  have "graph u = graph s \<and> removals u = removals s"
  proof -
    have "entombs s (snd (?c s))" by (rule movesD [OF entombed_frame])
    with c show ?thesis by (simp add: entombs_def)
  qed
  moreover have "\<forall>k \<in> set (purge_tombstone_keys np). usable_key k \<longrightarrow> buried u k"
    using create_buries [of "purge_tombstone_keys np" "rr_target r" "oe_text e (rr_id r)" s] c by simp
  ultimately show ?thesis
    using erase_ok [OF er assms(2,3)] by (simp add: same_subjects_def buried_def)
qed

lemma purge_node_ok:
  assumes "purge_person_node i s = (Inr np, t)"
  shows "\<exists>fs. provenance_of i (graph s) = Some np \<and> pv_purgeable np \<and>
    t = s\<lparr>faults := fs, graph := detach_delete (purge_target i) (graph s)\<rparr>"
proof -
  obtain a u where "get_node_provenance i s = (Inr a, u)" and k: "(case a of None \<Rightarrow> throw (Refused ''node not found'')
      | Some np \<Rightarrow> if pv_politician np then throw (Refused ''refusing to purge a Politician node'')
          else if \<not> pv_purgeable np then throw (Refused ''refusing to purge this node'')
          else seqR (cypher (\<lambda>g. (detach_delete (purge_target i) g, ()))) (ret np)) u = (Inr np, t)"
    using assms unfolding purge_person_node_def bindR_Inr by blast
  then obtain fs where u: "u = s\<lparr>faults := fs\<rparr>" "a = provenance_of i (graph s)"
    using cypher_read_ok [of "provenance_of i" s a u] by (auto simp: get_node_provenance_def)
  with k show ?thesis
    by (auto simp: seqR_Inr dest!: cypher_ok split: option.splits if_splits)
qed

lemma resolve_row:
  assumes "removal_resolve e q s = (Inr rep, t)" and "redirects rep" and "form q ''action'' = lit ''purge''"
  shows "\<exists>r n fs. request_of e q s = Some r \<and> oe_uuid e (trim_space (qr_id q)) = Some n \<and> rr_id r = n \<and>
    purge_subject e q (trim_space (qr_id q)) r (s\<lparr>faults := fs\<rparr>) = (Inr rep, t)"
proof -
  have "trim_space (qr_id q) \<noteq> []" using assms by (auto simp: removal_resolve_def redirects_def)
  then obtain r u where r: "get_removal_request e (trim_space (qr_id q)) s = (Inr r, u)"
    and k: "purge_subject e q (trim_space (qr_id q)) r u = (Inr rep, t)"
    using assms no_redirect_removals by (auto simp: removal_resolve_def Let_def rescue_Inr)
  from get_removal_ok [OF r] k show ?thesis by (auto simp: request_of_def dest: find_SomeD)
qed

lemma purge_effect:
  assumes "removal_resolve e q s = (Inr rep, t)" and "redirects rep" and "form q ''action'' = lit ''purge''"
    and "request_of e q s = Some r"
  shows "\<exists>np. rr_status r = ''pending'' \<and> provenance_of (rr_target r) (graph s) = Some np \<and> pv_purgeable np \<and>
    graph t = detach_delete (purge_target (rr_target r)) (graph s) \<and>
    (\<forall>k \<in> set (purge_tombstone_keys np). usable_key k \<longrightarrow> buried t k) \<and>
    (trim_space (pv_name np) \<noteq> [] \<longrightarrow> forgotten e (trim_space (pv_name np)) t) \<and>
    resolved_by q (rr_id r) (removals s) (removals t)"
proof -
  let ?i = "trim_space (qr_id q)"
  obtain fs where uuid: "oe_uuid e ?i = Some (rr_id r)"
    and run: "purge_subject e q ?i r (s\<lparr>faults := fs\<rparr>) = (Inr rep, t)"
    using resolve_row [OF assms(1-3)] assms(4) by auto
  obtain np u where p: "rr_status r = ''pending''" and node: "purge_person_node (rr_target r) (s\<lparr>faults := fs\<rparr>) = (Inr np, u)"
    and rest: "bury e q ?i r np (snd (log_audit (current_user q) ''delete'' ''graph_node'' (rr_target r) (deletion_record r np) u)) = (Inr rep, t)"
    using run assms(2) no_redirect_removals by (auto simp: purge_subject_def rescue_Inr after_audit split: if_splits)
  from bury_ok [OF rest assms(2) uuid] audited_sel [OF audit_only] purge_node_ok [OF node] p
  show ?thesis by auto
qed

lemma refused_purge:
  assumes "provenance_of (rr_target r) (graph s) = None"
  shows "only_faults s (snd (purge_subject e q i r s))"
proof -
  have "only_faults s (snd (rescue (purge_person_node (rr_target r)) f k s))"
    if f: "\<And>er. moves only_faults (f er)" for f and k :: "provenance \<Rightarrow> (office, reply) prog"
  proof (cases "get_node_provenance (rr_target r) s")
    case (Pair x u)
    with movesD [OF looking.office_reads(7) [of "rr_target r"], of s] have u: "only_faults s u" by simp
    have "x = Inl er \<or> x = Inr None" if "\<forall>er'. x = Inl er' \<longrightarrow> er' = er" for er
      using that Pair assms cypher_read_ok [of "provenance_of (rr_target r)" s "projr x" u]
      by (cases x) (auto simp: get_node_provenance_def)
    then have "(\<exists>er. x = Inl er) \<or> x = Inr None" by (cases x) auto
    with Pair looking.trans [OF u movesD [OF f]] show ?thesis
      by (auto simp: rescue_def purge_person_node_def bindR_def attemptR_def throw_def)
  qed
  then show ?thesis
    using movesD [OF looking.pages(3)] looking.pages(3) unfolding purge_subject_def by auto
qed

lemma reject_effect:
  assumes "review_reject e q s = (Inr rep, t)" and "redirects rep" and "row_of e q s = Some r"
  shows "reviews t = settle (rv_id r) ''rejected'' (or_backoffice (current_user q)) (reviews s) \<and> graph t = graph s"
proof -
  let ?i = "trim_space (qr_id q)"
  have "?i \<noteq> []" using assms by (auto simp: review_reject_def update_review_def redirects_def)
  then obtain item u x v where g: "get_pending_review e ?i s = (Inr item, u)"
    and up: "update_pending_review_status e ?i ''rejected'' (current_user q) u = (Inr x, v)" and t: "audited v t"
    using assms(1,2) audit_only
    by (auto simp: review_reject_def update_review_def Let_def rescue_Inr after_audit redirects_def)
  from settle_ok [OF up] get_review_ok [OF g] assms(3) audited_sel [OF t]
  show ?thesis by (auto simp: row_of_def dest: find_SomeD)
qed

section \<open>An office to try it on\<close>

text \<open>
  A politician, a proceeding with one person in it, two reviews of the same match, one of them settled,
  and two removal requests, one for a node that is no longer there. A UUID is a run of ones.
\<close>

definition demo_env :: office_env where
  "demo_env = \<lparr>oe_uuid = (\<lambda>x. Some (length x)), oe_text = (\<lambda>n. replicate n 49), oe_upper = (\<lambda>x. x), oe_ci = (\<lambda>x. x),
     oe_json = (\<lambda>_. []), oe_today = lit ''2025-01-01'', oe_seed = True\<rparr>"

definition demo_graph :: graph where
  "demo_graph = \<lparr>g_nodes =
      [\<lparr>n_key = 0, n_labels = [''Politician''], n_props = [''id'' \<mapsto> PStr (lit ''p1'')]\<rparr>,
       \<lparr>n_key = 1, n_labels = [''LegalProceeding''], n_props = [''id'' \<mapsto> PStr (lit ''lp1'')]\<rparr>,
       \<lparr>n_key = 2, n_labels = [''Person''], n_props = [''id'' \<mapsto> PStr (lit ''x1''), ''name'' \<mapsto> PStr (lit ''ANA'')]\<rparr>],
     g_edges = [\<lparr>e_from = 2, e_type = ''DEFENDANT_IN'', e_to = 1, e_props = Map.empty\<rparr>], g_next = 3\<rparr>"

definition demo_review :: "nat \<Rightarrow> string \<Rightarrow> review" where
  "demo_review n st = \<lparr>rv_id = n, rv_type = ''djen_party_match'',
     rv_payload = [''politician_id'' \<mapsto> PStr (lit ''p1''), ''proceeding_id'' \<mapsto> PStr (lit ''lp1'')], rv_worker = ''djen'',
     rv_status = st, rv_by = None\<rparr>"

definition demo_removal :: "nat \<Rightarrow> string \<Rightarrow> removal" where
  "demo_removal n i = \<lparr>rr_id = n, rr_requester = lit ''ana'', rr_target_type = lit ''person'', rr_target = lit i,
     rr_reason = [], rr_status = ''pending'', rr_resolution = [], rr_by = None\<rparr>"

definition demo_office :: office where
  "demo_office = \<lparr>graph = demo_graph, tombs = [], reviews = [demo_review 1 ''pending'', demo_review 2 ''approved''],
     import_states = [], snapshots = [], watches = [], aliases = [], clock = lit ''2025-01-01T00:00:00Z'', faults = [],
     wall = 0, issued = 3, removals = [demo_removal 1 ''x1'', demo_removal 2 ''gone''], audits = []\<rparr>"

definition demo_request :: "nat \<Rightarrow> string \<Rightarrow> request" where
  "demo_request n action = \<lparr>qr_id = replicate n 49, qr_form = (\<lambda>k. if k = ''action'' then lit action else []),
     qr_query = (\<lambda>_. []), qr_user = lit ''op''\<rparr>"

lemma demo_uuids: "uuids_roundtrip demo_env"
  by (simp add: uuids_roundtrip_def demo_env_def)

lemma demo_ids [simp]: "oe_uuid demo_env (trim_space (qr_id (demo_request 1 a))) = Some 1"
  "oe_uuid demo_env (trim_space (qr_id (demo_request 2 a))) = Some 2"
proof -
  have "length (trim_space (replicate 1 49)) = 1" "length (trim_space (replicate 2 49)) = 2" by code_simp+
  then show "oe_uuid demo_env (trim_space (qr_id (demo_request 1 a))) = Some 1"
    "oe_uuid demo_env (trim_space (qr_id (demo_request 2 a))) = Some 2"
    by (simp_all add: demo_env_def demo_request_def)
qed

lemma demo_rows: "row_of demo_env (demo_request 1 a) demo_office = Some (demo_review 1 ''pending'')"
  "row_of demo_env (demo_request 2 a) demo_office = Some (demo_review 2 ''approved'')"
  by (simp_all only: row_of_def demo_ids) (simp_all add: demo_office_def demo_review_def)

lemma demo_requests: "request_of demo_env (demo_request 1 a) demo_office = Some (demo_removal 1 ''x1'')"
  "request_of demo_env (demo_request 2 a) demo_office = Some (demo_removal 2 ''gone'')"
  by (simp_all only: request_of_def demo_ids) (simp_all add: demo_office_def demo_removal_def)

lemma demo_approved: "accepted (review_approve demo_env (demo_request 1 ''approve'') demo_office)"
  by code_simp

lemma demo_rejected: "accepted (review_reject demo_env (demo_request 2 ''reject'') demo_office)"
  by code_simp

lemma demo_purged: "accepted (removal_resolve demo_env (demo_request 1 ''purge'') demo_office)"
  by code_simp

section \<open>Properties\<close>

text \<open>C5: Only the operator, and only from a page of the back office, changes a store: without the account's
  credentials a request is refused before its handler runs, a post without the header of the pages' own
  scripts is refused too, and a get changes nothing.\<close>

theorem operators_only:
  "if hr_auth h \<noteq> Some acc then serve e acc h s = (Inr Unauthorized, s)
   else if is_post (hr_route h) then hr_hx h = lit ''true'' \<or> serve e acc h s = (Inr Forbidden, s)
   else \<exists>fs. snd (serve e acc h s) = s\<lparr>faults := fs\<rparr>"
  using movesD [OF looking.viewing [of "hr_route h" e "(hr_body h)\<lparr>qr_user := fst acc\<rparr>"], of s]
  by (simp add: serve_def csrf_protection_def ret_def only_faults_def)

text \<open>C30: Approving a review that was settled before changes nothing.\<close>

theorem approval_needs_pending:
  assumes "row_of e q s = Some r" and "rv_status r \<noteq> ''pending''"
  shows "\<not> accepted (review_approve e q s) \<and> (\<exists>fs. snd (review_approve e q s) = s\<lparr>faults := fs\<rparr>)"
proof -
  have "only_faults s (snd (review_approve e q s))"
  proof (cases "get_pending_review e (trim_space (qr_id q)) s")
    case (Pair x u)
    with movesD [OF looking.office_reads(3) [of e "trim_space (qr_id q)"], of s] have u: "only_faults s u" by simp
    show ?thesis
    proof (cases x)
      case (Inl er)
      with Pair u show ?thesis
        by (simp add: review_approve_def Let_def rescue_def bindR_def attemptR_def ret_def)
    next
      case (Inr item)
      with get_review_ok [of e "trim_space (qr_id q)" s item u] Pair assms have "item = r" by (auto simp: row_of_def)
      with assms Inr Pair looking.trans [OF u movesD [OF looking.pages(2)]] u show ?thesis
        by (simp add: review_approve_def Let_def rescue_def bindR_def attemptR_def ret_def)
    qed
  qed
  moreover have "\<not> accepted (review_approve e q s)"
    using approve_row assms by (fastforce elim: acceptedE)
  ultimately show ?thesis by (simp add: only_faults_def)
qed

theorem approval_needs_pending_witness:
  "\<not> accepted (review_approve demo_env (demo_request 2 ''approve'') demo_office)"
proof -
  have "rv_status (demo_review 2 ''approved'') \<noteq> ''pending''" by code_simp
  with approval_needs_pending [OF demo_rows(2)] show ?thesis by blast
qed

text \<open>C6: An approval that redirects confirmed what the review proposes: the review was pending, the graph has
  the relationship of its kind between the politician and the target of its payload (or the politician
  the operator chose instead), stamped as confirmed in the back office, and the review is settled in the
  name of the operator.\<close>

theorem approval_confirms_proposal:
  assumes "accepted (review_approve e q s)" and "uuids_roundtrip e"
    and "row_of e q s = Some r" and "proposed q r = Some c"
  shows "rv_status r = ''pending'' \<and> confirmed_between c (graph (snd (review_approve e q s))) \<and>
    reviews (snd (review_approve e q s)) =
      settle (rv_id r) ''approved'' (or_backoffice (current_user q)) (reviews s)"
  using assms(1) by (rule acceptedE) (rule proposal_confirmed [OF _ _ assms(2-4)])

theorem approval_confirms_proposal_witness:
  "confirmed_between
     \<lparr>ce_label = ''LegalProceeding'', ce_type = ''DEFENDANT_IN'', ce_politician = lit ''p1'', ce_target = lit ''lp1'',
      ce_extra = [(''outcome'', Some (PStr (lit ''confirmed'')))]\<rparr>
     (graph (snd (review_approve demo_env (demo_request 1 ''approve'') demo_office)))"
proof -
  have "proposed (demo_request 1 ''approve'') (demo_review 1 ''pending'') = Some
     \<lparr>ce_label = ''LegalProceeding'', ce_type = ''DEFENDANT_IN'', ce_politician = lit ''p1'', ce_target = lit ''lp1'',
      ce_extra = [(''outcome'', Some (PStr (lit ''confirmed'')))]\<rparr>"
    by (simp add: proposed_def demo_review_def str_prop_def Let_def)
  from approval_confirms_proposal [OF demo_approved demo_uuids demo_rows(1) this] show ?thesis by blast
qed



text \<open>C36: A purge whose node is no longer in the graph is refused, and changes nothing: a purge that removed
  the node but broke off before its tombstones were written cannot be completed by asking again.\<close>

theorem interrupted_purge_stays_open:
  assumes "form q ''action'' = lit ''purge''" and "request_of e q s = Some r"
    and "provenance_of (rr_target r) (graph s) = None"
  shows "\<not> accepted (removal_resolve e q s) \<and> (\<exists>fs. snd (removal_resolve e q s) = s\<lparr>faults := fs\<rparr>)"
proof -
  let ?i = "trim_space (qr_id q)"
  have "\<not> accepted (removal_resolve e q s)"
    using assms purge_effect by (fastforce elim: acceptedE)
  moreover have "only_faults s (snd (removal_resolve e q s))"
  proof (cases "get_removal_request e ?i s")
    case (Pair x u)
    with movesD [OF looking.office_reads(5) [of e ?i], of s] have u: "only_faults s u" by simp
    then have gone: "provenance_of (rr_target r) (graph u) = None" using assms(3) by (auto simp: only_faults_def)
    show ?thesis
    proof (cases x)
      case (Inl er)
      with assms(1) Pair u looking.trans [OF u movesD [OF looking.pages(3)]] show ?thesis
        by (simp add: removal_resolve_def Let_def rescue_def bindR_def attemptR_def ret_def)
    next
      case (Inr item)
      with get_removal_ok [of e ?i s item u] Pair assms(2) have "item = r" by (auto simp: request_of_def)
      with assms(1) Inr Pair u looking.trans [OF u refused_purge [OF gone]] show ?thesis
        by (simp add: removal_resolve_def Let_def rescue_def bindR_def attemptR_def ret_def)
    qed
  qed
  ultimately show ?thesis by (simp add: only_faults_def)
qed

theorem interrupted_purge_stays_open_witness:
  "\<not> accepted (removal_resolve demo_env (demo_request 2 ''purge'') demo_office)"
proof -
  have "form (demo_request 2 ''purge'') ''action'' = lit ''purge''" by code_simp
  moreover have "provenance_of (rr_target (demo_removal 2 ''gone'')) (graph demo_office) = None" by code_simp
  ultimately show ?thesis using interrupted_purge_stays_open [OF _ demo_requests(2)] by blast
qed

text \<open>A rejection does not look at the status: it settles a review that was approved before as rejected,
  in the name of whoever rejected it last, and leaves the relationship the approval confirmed.\<close>

theorem rejection_ignores_status:
  assumes "accepted (review_reject e q s)" and "row_of e q s = Some r"
  shows "reviews (snd (review_reject e q s)) =
      settle (rv_id r) ''rejected'' (or_backoffice (current_user q)) (reviews s) \<and>
    graph (snd (review_reject e q s)) = graph s"
  using assms(1) by (rule acceptedE) (rule reject_effect [OF _ _ assms(2)])

theorem rejection_ignores_status_witness:
  "list_ex (\<lambda>r. rv_id r = 2 \<and> rv_status r = ''rejected'')
     (reviews (snd (review_reject demo_env (demo_request 2 ''reject'') demo_office)))"
proof -
  have "reviews demo_office = [demo_review 1 ''pending'', demo_review 2 ''approved'']" by (simp add: demo_office_def)
  with rejection_ignores_status [OF demo_rejected demo_rows(2)] show ?thesis
    by (simp add: settle_def demo_review_def)
qed

end
