(* ===== verification/Office_Writes.thy ===== *)
theory Office_Writes
  imports Office_Props Datajud_Props
begin

text \<open>
  Two of the back office's larger writes: registering a case, which touches both databases, and joining
  the two nodes of one company, a sequence of graph statements.
\<close>

section \<open>Registering a case\<close>

lemma scandal_ok:
  assumes "upsert_scandal i nm d s = (Inr u, t)"
  shows "(\<forall>n \<in> set (g_nodes (graph s)). n \<in> set (g_nodes (graph t))) \<and>
    (\<exists>n \<in> set (g_nodes (graph t)). has_label ''Scandal'' n \<and> n_props n ''id'' = Some (PStr i)) \<and> watches t = watches s"
proof -
  let ?nm = "if trim_space nm = [] then i else nm"
  let ?m = "merge_node ''Scandal'' ''id'' (PStr i) [(''name'', Some (PStr ?nm)),
    (''search_name'', Some (PStr (fold_query ?nm))), (''date_start'', Some (PStr d))] (\<lambda>n. n) (graph s)"
  from cypher_ok [OF assms [unfolded upsert_scandal_def Let_def]]
  obtain fs where t: "t = s\<lparr>faults := fs, graph := fst ?m\<rparr>" by auto
  have "(\<forall>n \<in> set (g_nodes (graph s)). n \<in> set (g_nodes (fst ?m))) \<and>
    (\<exists>n \<in> set (g_nodes (fst ?m)). has_label ''Scandal'' n \<and> n_props n ''id'' = Some (PStr i))"
  proof (cases "match_nodes ''Scandal'' (prop_is ''id'' (PStr i)) (graph s) = []")
    case True
    then show ?thesis by (simp add: merge_node_def Let_def has_label_def)
  next
    case False
    then obtain n where "n \<in> set (match_nodes ''Scandal'' (prop_is ''id'' (PStr i)) (graph s))"
      by (cases "match_nodes ''Scandal'' (prop_is ''id'' (PStr i)) (graph s)") auto
    then show ?thesis
      by (auto simp: merge_node_def Let_def map_nodes_def match_nodes_def prop_is_def)
  qed
  then show ?thesis by (simp add: t)
qed

lemma investigates_ok:
  assumes "ensure_investigates_edge lp sc s = (Inr u, t)"
    and "p \<in> set (g_nodes (graph s))" "has_label ''LegalProceeding'' p" "n_props p ''id'' = Some (PStr lp)"
    and "d \<in> set (g_nodes (graph s))" "has_label ''Scandal'' d" "n_props d ''id'' = Some (PStr sc)"
  shows "g_nodes (graph t) = g_nodes (graph s) \<and> has_edge (n_key p) ''INVESTIGATES'' (n_key d) (graph t) \<and> watches t = watches s"
  using cypher_ok [OF assms(1) [unfolded ensure_investigates_edge_def]] assms(2-)
  by (auto simp: has_edge_merge_edges node_pairs_iff match_nodes_def prop_is_def)

definition seeded_watch :: "gostr \<Rightarrow> gostr \<Rightarrow> gostr \<Rightarrow> gostr \<Rightarrow> string \<Rightarrow> watch list \<Rightarrow> watch list" where
  "seeded_watch c endpoint sc lp by ws =
     (if \<exists>w \<in> set ws. wt_case w = c then ws
      else ws @ [\<lparr>wt_case = c, wt_endpoint = endpoint, wt_scandal = sc, wt_proceeding = lp, wt_movement = None,
                  wt_status = ''active'', wt_added_by = by, wt_polled = None, wt_djen_polled = None\<rparr>])"

lemma watching_ok:
  assumes "upsert_watcher_case c ep sc lp by s = (Inr u, t)"
  shows "graph t = graph s \<and> watches t = seeded_watch c ep sc lp by (watches s)"
proof -
  let ?w = "\<lparr>wt_case = c, wt_endpoint = ep, wt_scandal = sc, wt_proceeding = lp, wt_movement = None,
    wt_status = ''active'', wt_added_by = by, wt_polled = None, wt_djen_polled = None\<rparr>"
  let ?f = "\<lambda>s. if \<exists>w \<in> set (watches s). wt_case w = c then s else s\<lparr>watches := watches s @ [?w]\<rparr>"
  have "sql ?f s = (Inr u, t)" using assms unfolding upsert_watcher_case_def .
  then obtain fs where t: "t = ?f (s\<lparr>faults := fs\<rparr>)" using sql_ok [of ?f s u] by auto
  show ?thesis unfolding t by (simp add: seeded_watch_def)
qed

definition linked_case :: "gostr \<Rightarrow> gostr \<Rightarrow> gostr \<Rightarrow> graph \<Rightarrow> bool" where
  "linked_case c lp sc g \<longleftrightarrow>
     (\<exists>p \<in> set (g_nodes g). \<exists>d \<in> set (g_nodes g).
        is_case p \<and> n_props p ''case_number'' = Some (PStr c) \<and> n_props p ''id'' = Some (PStr lp) \<and>
        has_label ''Scandal'' d \<and> n_props d ''id'' = Some (PStr sc) \<and>
        has_edge (n_key p) ''INVESTIGATES'' (n_key d) g)"

lemma registered:
  assumes "register_watcher_case e c ep sc nm by s = (Inr u, t)"
    and ids: "\<forall>n \<in> set (g_nodes (graph s)). is_case n \<longrightarrow> (\<exists>x. n_props n ''id'' = Some (PStr x))"
  shows "length (digits_only c) = 20 \<and>
    (\<exists>lp. linked_case (digits_only c) lp sc (graph t) \<and> watches t = seeded_watch (digits_only c) ep sc lp by (watches s))"
proof -
  let ?c = "digits_only c"
  obtain lp s1 s2 s3 where 1: "upsert_legal_proceeding_by_case (bare_case ?c) s = (Inr lp, s1)"
    and 2: "upsert_scandal sc nm (oe_today e) s1 = (Inr (), s2)"
    and 3: "ensure_investigates_edge lp sc s2 = (Inr (), s3)"
    and 4: "upsert_watcher_case ?c ep sc lp by s3 = (Inr u, t)" and len: "length ?c = 20"
    using assms(1) by (auto simp: register_watcher_case_def Let_def bindR_Inr seqR_Inr split: if_splits)
  obtain p where p: "p \<in> set (g_nodes (graph s1))" "is_case p" "n_props p ''case_number'' = Some (PStr ?c)"
    "str_prop (n_props p) ''id'' = lp"
    using upsert_ok [OF 1] by (auto simp: bare_case_def is_case_def)
  then have pid: "n_props p ''id'' = Some (PStr lp)"
    using upsert_ids [OF 1 _ p(1,2)] ids by (auto simp: str_prop_def)
  from scandal_ok [OF 2] p(1) obtain d where d: "p \<in> set (g_nodes (graph s2))" "d \<in> set (g_nodes (graph s2))"
    "has_label ''Scandal'' d" "n_props d ''id'' = Some (PStr sc)" "watches s2 = watches s1" by blast
  from investigates_ok [OF 3 d(1) _ pid d(2-4)] p(2) d p(3) pid
  have "linked_case ?c lp sc (graph s3)" "watches s3 = watches s1"
    unfolding linked_case_def by (auto simp: is_case_def)
  moreover have "graph t = graph s3 \<and> watches t = seeded_watch ?c ep sc lp by (watches s3)"
    by (rule watching_ok [OF 4])
  moreover have "watches s1 = watches s" using upsert_proceeding_watches [of "bare_case ?c" s] 1 by simp
  ultimately show ?thesis using len by auto
qed

section \<open>Joining two companies\<close>

lemma nodes_move_edges: "g_nodes (move_edges moved ends t ds g) = g_nodes g"
proof -
  have "g_nodes (foldl (\<lambda>h (e, d). merge_edge (fst (ends e d)) t (snd (ends e d)) [] (\<lambda>p. p ++ e_props e) h) g xs) = g_nodes g" for xs
    by (induction xs arbitrary: g) auto
  then show ?thesis unfolding move_edges_def Let_def by simp
qed

lemma nodes_move [simp]: "g_nodes (move_out src dst t l g) = g_nodes g" "g_nodes (move_in src dst t g) = g_nodes g"
  unfolding move_out_def move_in_def Let_def by (rule nodes_move_edges)+

lemma keys_of_move [simp]: "keys_of P (move_out src dst t l g) = keys_of P g" "keys_of P (move_in src dst t g) = keys_of P g"
  by (simp_all add: keys_of_def)

lemma adopt_edges [simp]: "g_edges (adopt_name src dst g) = g_edges g"
  by (simp add: adopt_name_def split: list.split)

lemma holder_other: "i \<in> set (cnpj_holders src d g) \<Longrightarrow> i \<noteq> [] \<Longrightarrow> i \<noteq> src"
  by (auto simp: cnpj_holders_def match_nodes_def str_prop_def split: option.splits pval.splits)

text \<open>
  A relationship as it stands once \<open>src\<close> is replaced by the node \<open>d\<close>, and one graph carrying the relationships of
  another: none is lost, none is invented, none loses a property, and every property it has in the end is
  one of a relationship it stands for.
\<close>

definition sent :: "(nat \<Rightarrow> nat) \<Rightarrow> edge \<Rightarrow> nat \<times> string \<times> nat" where
  "sent r e = (r (e_from e), e_type e, r (e_to e))"

definition origin :: "(nat \<Rightarrow> nat) \<Rightarrow> graph \<Rightarrow> edge \<Rightarrow> bool" where
  "origin r g f \<longleftrightarrow> (\<exists>e \<in> set (g_edges g). sent r e = sent r f) \<and>
     (\<forall>k \<in> dom (e_props f). \<exists>e \<in> set (g_edges g). sent r e = sent r f \<and> e_props e k = e_props f k)"

definition carried :: "(nat \<Rightarrow> nat) \<Rightarrow> graph \<Rightarrow> graph \<Rightarrow> bool" where
  "carried r g h \<longleftrightarrow>
     (\<forall>e \<in> set (g_edges g). \<exists>f \<in> set (g_edges h). sent r f = sent r e \<and> dom (e_props e) \<subseteq> dom (e_props f)) \<and>
     (\<forall>f \<in> set (g_edges h). origin r g f)"

definition redirected :: "gostr \<Rightarrow> nat \<Rightarrow> graph \<Rightarrow> nat \<Rightarrow> nat" where
  "redirected src d g k = (if k \<in> set (keys_of (organization_is src) g) then d else k)"

definition inherits :: "gostr \<Rightarrow> gostr \<Rightarrow> graph \<Rightarrow> graph \<Rightarrow> bool" where
  "inherits src dst g h \<longleftrightarrow>
     (\<exists>d. keys_of (organization_is dst) g = [d] \<and>
        (let r = redirected src d g in
           (\<forall>e \<in> set (g_edges g). \<exists>f \<in> set (g_edges h). triple f = sent r e \<and> dom (e_props e) \<subseteq> dom (e_props f)) \<and>
           (\<forall>f \<in> set (g_edges h). (\<exists>e \<in> set (g_edges g). sent r e = triple f) \<and>
              (\<forall>k \<in> dom (e_props f). \<exists>e \<in> set (g_edges g). sent r e = triple f \<and> e_props e k = e_props f k))))"

lemma origin_self: "e \<in> set (g_edges g) \<Longrightarrow> origin r g e"
  by (auto simp: origin_def)

lemma carried_refl: "carried r g g"
  by (auto simp: carried_def origin_self)

lemma carried_trans:
  assumes "carried r g h" and "carried r h i" shows "carried r g i"
  unfolding carried_def
proof (intro conjI ballI)
  fix e assume "e \<in> set (g_edges g)"
  with assms(1) obtain f where f: "f \<in> set (g_edges h)" "sent r f = sent r e" "dom (e_props e) \<subseteq> dom (e_props f)"
    unfolding carried_def by blast
  from assms(2) f(1) obtain x where "x \<in> set (g_edges i)" "sent r x = sent r f" "dom (e_props f) \<subseteq> dom (e_props x)"
    unfolding carried_def by blast
  with f show "\<exists>x \<in> set (g_edges i). sent r x = sent r e \<and> dom (e_props e) \<subseteq> dom (e_props x)"
    by (intro bexI [of _ x]) auto
next
  fix x assume "x \<in> set (g_edges i)"
  with assms(2) have x: "origin r h x" unfolding carried_def by blast
  have h: "origin r g f" if "f \<in> set (g_edges h)" for f using assms(1) that unfolding carried_def by blast
  show "origin r g x"
    unfolding origin_def
  proof (intro conjI ballI)
    show "\<exists>e \<in> set (g_edges g). sent r e = sent r x" using x h unfolding origin_def by metis
    fix k assume "k \<in> dom (e_props x)"
    then obtain f where f: "f \<in> set (g_edges h)" "sent r f = sent r x" "e_props f k = e_props x k" "k \<in> dom (e_props f)"
      using x unfolding origin_def by (metis domIff)
    with h show "\<exists>e \<in> set (g_edges g). sent r e = sent r x \<and> e_props e k = e_props x k"
      unfolding origin_def by metis
  qed
qed

text \<open>One \<^verbatim>\<open>MERGE\<close> with \<^verbatim>\<open>SET n += properties(r)\<close>.\<close>

abbreviation merge_copy :: "nat \<Rightarrow> string \<Rightarrow> nat \<Rightarrow> edge \<Rightarrow> graph \<Rightarrow> graph" where
  "merge_copy a t b e h \<equiv> merge_edge a t b [] (\<lambda>p. p ++ e_props e) h"

lemma merge_copy_keeps:
  assumes "f \<in> set (g_edges h)"
  shows "\<exists>x \<in> set (g_edges (merge_copy a t b e h)). triple x = triple f \<and> dom (e_props f) \<subseteq> dom (e_props x)"
proof (cases "has_edge a t b h")
  case True
  let ?x = "if edge_is a t b f then f\<lparr>e_props := e_props f ++ e_props e\<rparr> else f"
  have "?x \<in> set (g_edges (merge_copy a t b e h))" using assms True by (auto simp: merge_edge_def)
  moreover have "triple ?x = triple f" "dom (e_props f) \<subseteq> dom (e_props ?x)" by (auto simp: triple_def)
  ultimately show ?thesis by blast
next
  case False
  with assms show ?thesis by (auto simp: merge_edge_def intro!: bexI [of _ f])
qed

lemma merge_copy_there:
  "\<exists>x \<in> set (g_edges (merge_copy a t b e h)). triple x = (a, t, b) \<and> dom (e_props e) \<subseteq> dom (e_props x)"
proof (cases "has_edge a t b h")
  case True
  then obtain f where f: "f \<in> set (g_edges h)" "edge_is a t b f" by (auto simp: has_edge_def)
  have "f\<lparr>e_props := e_props f ++ e_props e\<rparr> \<in> set (g_edges (merge_copy a t b e h))"
    using f True by (auto simp: merge_edge_def)
  moreover have "triple (f\<lparr>e_props := e_props f ++ e_props e\<rparr>) = (a, t, b)" using f(2) by (simp add: triple_def edge_is_def)
  ultimately show ?thesis by (intro bexI [of _ "f\<lparr>e_props := e_props f ++ e_props e\<rparr>"]) auto
next
  case False
  then show ?thesis by (simp add: merge_edge_def triple_def)
qed

lemma merge_copy_origin:
  assumes "e \<in> set (g_edges g)" and "sent r e = (r a, t, r b)" and "\<And>f. f \<in> set (g_edges h) \<Longrightarrow> origin r g f"
    and "x \<in> set (g_edges (merge_copy a t b e h))"
  shows "origin r g x"
proof -
  consider "x \<in> set (g_edges h)"
    | f where "f \<in> set (g_edges h)" "edge_is a t b f" "x = f\<lparr>e_props := e_props f ++ e_props e\<rparr>"
    | "x = \<lparr>e_from = a, e_type = t, e_to = b, e_props = e_props e\<rparr>"
    using assms(4) by (auto simp: merge_edge_def split: if_splits)
  then show ?thesis
  proof cases
    case 1
    with assms(3) show ?thesis by blast
  next
    case 2
    have f: "origin r g f" by (rule assms(3) [OF 2(1)])
    have s: "sent r x = sent r f" "sent r x = sent r e" using 2 assms(2) by (simp_all add: sent_def edge_is_def)
    have "\<exists>e' \<in> set (g_edges g). sent r e' = sent r x \<and> e_props e' k = e_props x k" if "k \<in> dom (e_props x)" for k
    proof (cases "e_props e k")
      case None
      then have "e_props x k = e_props f k" using 2(3) by (simp add: map_add_def)
      with f that s(1) show ?thesis unfolding origin_def by (metis domIff)
    next
      case (Some v)
      then have "e_props x k = e_props e k" using 2(3) by simp
      with assms(1) s(2) show ?thesis by metis
    qed
    with assms(1) s(2) show ?thesis unfolding origin_def by metis
  next
    case 3
    then have "sent r e = sent r x" "e_props x = e_props e" using assms(2) by (simp_all add: sent_def)
    with assms(1) show ?thesis unfolding origin_def by metis
  qed
qed

text \<open>A statement that moves relationships carries them, when each goes where the redirection sends it.\<close>

abbreviation copies :: "(edge \<Rightarrow> nat \<Rightarrow> nat \<times> nat) \<Rightarrow> string \<Rightarrow> nat \<Rightarrow> edge list \<Rightarrow> graph \<Rightarrow> graph" where
  "copies ends t d es g \<equiv> foldl (\<lambda>h e. merge_copy (fst (ends e d)) t (snd (ends e d)) e h) g es"

lemma copies_keep:
  "f \<in> set (g_edges h) \<Longrightarrow> \<exists>x \<in> set (g_edges (copies ends t d es h)). triple x = triple f \<and> dom (e_props f) \<subseteq> dom (e_props x)"
proof (induction es arbitrary: h f)
  case (Cons e es)
  from merge_copy_keeps [OF Cons.prems, of "fst (ends e d)" t "snd (ends e d)" e] obtain x where
    x: "x \<in> set (g_edges (merge_copy (fst (ends e d)) t (snd (ends e d)) e h))" "triple x = triple f" "dom (e_props f) \<subseteq> dom (e_props x)"
    by blast
  from Cons.IH [OF x(1)] obtain y where
    "y \<in> set (g_edges (copies ends t d es (merge_copy (fst (ends e d)) t (snd (ends e d)) e h)))"
    "triple y = triple x" "dom (e_props x) \<subseteq> dom (e_props y)" by blast
  with x(2,3) show ?case unfolding foldl.simps by (intro bexI [of _ y]) auto
qed auto

lemma copies_there:
  "e \<in> set es \<Longrightarrow> \<exists>x \<in> set (g_edges (copies ends t d es h)). triple x = (fst (ends e d), t, snd (ends e d)) \<and> dom (e_props e) \<subseteq> dom (e_props x)"
proof (induction es arbitrary: h)
  case (Cons e' es)
  show ?case
  proof (cases "e = e'")
    case True
    from merge_copy_there [of "fst (ends e d)" t "snd (ends e d)" e h] obtain x where
      x: "x \<in> set (g_edges (merge_copy (fst (ends e d)) t (snd (ends e d)) e h))"
        "triple x = (fst (ends e d), t, snd (ends e d))" "dom (e_props e) \<subseteq> dom (e_props x)" by blast
    from copies_keep [OF x(1), where ends = ends and t = t and d = d and es = es] obtain y where
      "y \<in> set (g_edges (copies ends t d es (merge_copy (fst (ends e d)) t (snd (ends e d)) e h)))"
      "triple y = triple x" "dom (e_props x) \<subseteq> dom (e_props y)" by blast
    with x(2,3) True show ?thesis unfolding foldl.simps by (intro bexI [of _ y]) auto
  next
    case False
    with Cons show ?thesis by simp
  qed
qed simp

lemma copies_origin:
  assumes "\<And>e. e \<in> set es \<Longrightarrow> e \<in> set (g_edges g) \<and> sent r e = (r (fst (ends e d)), t, r (snd (ends e d)))"
    and "\<And>f. f \<in> set (g_edges h) \<Longrightarrow> origin r g f" and "x \<in> set (g_edges (copies ends t d es h))"
  shows "origin r g x"
  using assms
proof (induction es arbitrary: h)
  case (Cons e es)
  have "origin r g f" if "f \<in> set (g_edges (merge_copy (fst (ends e d)) t (snd (ends e d)) e h))" for f
    using merge_copy_origin [OF _ _ Cons.prems(2) that] Cons.prems(1) [of e] by simp
  with Cons.IH [of "merge_copy (fst (ends e d)) t (snd (ends e d)) e h"] Cons.prems(1,3) show ?case by simp
qed simp

lemma move_edges_carries:
  assumes "\<And>e. moved e \<Longrightarrow> sent r e = (r (fst (ends e d)), t, r (snd (ends e d)))"
    and "\<And>e f. moved e \<Longrightarrow> triple f = (fst (ends e d), t, snd (ends e d)) \<Longrightarrow> \<not> moved f"
    and "\<And>e f. triple e = triple f \<Longrightarrow> moved e = moved f"
  shows "carried r g (move_edges moved ends t [d] g)"
proof -
  let ?h = "copies ends t d (filter moved (g_edges g)) g"
  have "foldl (\<lambda>h (e, d). merge_copy (fst (ends e d)) t (snd (ends e d)) e h) g (List.product es [d]) = copies ends t d es g" for es and g
    by (induction es arbitrary: g) simp_all
  then have m: "move_edges moved ends t [d] g = ?h\<lparr>g_edges := filter (\<lambda>e. \<not> moved e) (g_edges ?h)\<rparr>"
    by (simp add: move_edges_def Let_def)
  have s: "triple x = triple f \<Longrightarrow> sent r x = sent r f" for x f by (simp add: triple_def sent_def)
  have "\<exists>f \<in> set (g_edges ?h). \<not> moved f \<and> sent r f = sent r e \<and> dom (e_props e) \<subseteq> dom (e_props f)"
    if e: "e \<in> set (g_edges g)" for e
  proof (cases "moved e")
    case True
    with e copies_there [of e "filter moved (g_edges g)" ends d t g] obtain x where
      x: "x \<in> set (g_edges ?h)" "triple x = (fst (ends e d), t, snd (ends e d))" "dom (e_props e) \<subseteq> dom (e_props x)" by auto
    have "sent r x = sent r e" using x(2) assms(1) [OF True] by (simp add: sent_def triple_def)
    with x assms(2) [OF True x(2)] show ?thesis by blast
  next
    case False
    from copies_keep [OF e] obtain x where
      "x \<in> set (g_edges ?h)" "triple x = triple e" "dom (e_props e) \<subseteq> dom (e_props x)" by blast
    with False assms(3) [of x e] s [of x e] show ?thesis by blast
  qed
  moreover have "origin r g f" if "f \<in> set (g_edges ?h)" for f
    by (rule copies_origin [where ends = ends and d = d and t = t and h = g and es = "filter moved (g_edges g)"])
      (use that in \<open>auto simp: assms(1) origin_self\<close>)
  ultimately show ?thesis unfolding carried_def m by fastforce
qed

lemma one_holder:
  assumes "ids_unique g" and "keys_of (organization_is i) g \<noteq> []"
  shows "\<exists>d. keys_of (organization_is i) g = [d]"
proof -
  have u: "sorted_wrt (\<lambda>a b. \<not> id_clash a b) (filter (organization_is i) (g_nodes g))"
    using assms(1) unfolding ids_unique_def by (rule sorted_wrt_filter)
  have "id_clash a b" if "organization_is i a" "organization_is i b" for a b
    using that by (auto simp: organization_is_def prop_is_def id_clash_def unique_labels_def)
  moreover obtain n ns where ns: "filter (organization_is i) (g_nodes g) = n # ns"
    using assms(2) by (cases "filter (organization_is i) (g_nodes g)") (auto simp: keys_of_def)
  moreover have "\<forall>m \<in> set (n # ns). organization_is i m" unfolding ns [symmetric] by simp
  ultimately have "ns = []" using u by (cases ns) auto
  with ns show ?thesis by (simp add: keys_of_def)
qed

lemma redirect_same [simp]:
  "redirected src d (move_out s t u l g) = redirected src d g" "redirected src d (move_in s t u g) = redirected src d g"
  by (simp_all add: redirected_def fun_eq_iff)

lemma move_out_carries:
  assumes "keys_of (organization_is dst) g = [d]" and "d \<notin> set (keys_of (organization_is src) g)"
  shows "carried (redirected src d g) g (move_out src dst t l g)"
  unfolding move_out_def Let_def assms(1)
  by (rule move_edges_carries) (use assms(2) in \<open>auto simp: sent_def redirected_def triple_def\<close>)

lemma move_in_carries:
  assumes "keys_of (organization_is dst) g = [d]" and "d \<notin> set (keys_of (organization_is src) g)"
  shows "carried (redirected src d g) g (move_in src dst t g)"
  unfolding move_in_def Let_def assms(1)
  by (rule move_edges_carries) (use assms(2) in \<open>auto simp: sent_def redirected_def triple_def\<close>)

lemma companies_apart:
  assumes "wf_graph g" and "src \<noteq> dst" and "d \<in> set (keys_of (organization_is dst) g)"
  shows "d \<notin> set (keys_of (organization_is src) g)"
proof
  assume "d \<in> set (keys_of (organization_is src) g)"
  then obtain m n where "m \<in> set (g_nodes g)" "n \<in> set (g_nodes g)" "n_key m = n_key n"
    "organization_is src m" "organization_is dst n"
    using assms(3) by (auto simp: keys_of_def)
  moreover from this assms(1) have "m = n" unfolding wf_graph_def by (metis distinct_map inj_onD)
  ultimately show False using assms(2) by (simp add: organization_is_def prop_is_def)
qed

lemma plain_delete_ok:
  assumes "plain_delete P s = (Inr u, t)"
  shows "(\<exists>fs. t = s\<lparr>faults := fs, graph := (graph s)\<lparr>g_nodes := filter (\<lambda>n. \<not> P n) (g_nodes (graph s))\<rparr>\<rparr>) \<and>
    (\<forall>n \<in> set (g_nodes (graph s)). P n \<longrightarrow> degree (graph s) n = 0)"
  using db_call_ok [OF assms [unfolded plain_delete_def]] by (auto simp: run_cypher_def list_ex_iff split: if_splits)

lemma stamp_keeps: "organization_is i (upd_props (stamp_cnpj actor now) n) = organization_is i n"
  by (simp add: organization_is_def prop_is_def stamp_cnpj_def upd_props_lookup)

lemma adopt_keeps: "List.map (\<lambda>n. (n_key n, organization_is i n)) (g_nodes (adopt_name src dst g)) =
    List.map (\<lambda>n. (n_key n, organization_is i n)) (g_nodes g)"
  by (auto simp: adopt_name_def map_nodes_def organization_is_def prop_is_def upd_props_lookup split: list.split)

lemma kept_keys:
  assumes "List.map (\<lambda>n. (n_key n, P n)) ns = List.map (\<lambda>n. (n_key n, P n)) ms"
  shows "List.map n_key (filter P ns) = List.map n_key (filter P ms)"
    and "List.map n_key (filter (\<lambda>n. \<not> P n) ns) = List.map n_key (filter (\<lambda>n. \<not> P n) ms)"
  using arg_cong [OF assms, of "\<lambda>xs. List.map fst (filter snd xs)"]
    arg_cong [OF assms, of "\<lambda>xs. List.map fst (filter (\<lambda>x. \<not> snd x) xs)"]
  by (simp_all add: filter_map comp_def)

text \<open>The node left without a relationship: what was carried has arrived.\<close>

lemma arrived:
  assumes "carried (redirected src d g) g h" and "keys_of (organization_is dst) g = [d]"
    and "\<And>f. f \<in> set (g_edges h) \<Longrightarrow> e_from f \<notin> set (keys_of (organization_is src) g) \<and> e_to f \<notin> set (keys_of (organization_is src) g)"
  shows "inherits src dst g h"
proof -
  let ?r = "redirected src d g"
  have t: "sent ?r f = triple f" if "f \<in> set (g_edges h)" for f
    using assms(3) [OF that] by (simp add: sent_def triple_def redirected_def)
  have "\<exists>f \<in> set (g_edges h). triple f = sent ?r e \<and> dom (e_props e) \<subseteq> dom (e_props f)" if "e \<in> set (g_edges g)" for e
  proof -
    from assms(1) that obtain f where "f \<in> set (g_edges h)" "sent ?r f = sent ?r e" "dom (e_props e) \<subseteq> dom (e_props f)"
      unfolding carried_def by blast
    with t [of f] show ?thesis by (intro bexI [of _ f]) auto
  qed
  moreover have "(\<exists>e \<in> set (g_edges g). sent ?r e = triple f) \<and>
      (\<forall>k \<in> dom (e_props f). \<exists>e \<in> set (g_edges g). sent ?r e = triple f \<and> e_props e k = e_props f k)"
    if "f \<in> set (g_edges h)" for f
    using assms(1) that unfolding carried_def origin_def t [OF that, symmetric] by blast
  ultimately show ?thesis unfolding inherits_def Let_def using assms(2) by blast
qed

lemma joined:
  assumes "merge_organizations src dst actor now s = (Inr x, t)" and "wf_graph (graph s)" and "src \<noteq> dst"
    and "keys_of (organization_is dst) (graph s) \<noteq> []"
  shows "x = dst \<and> inherits src dst (graph s) (graph t) \<and>
    List.map n_key (g_nodes (graph t)) = List.map n_key (filter (\<lambda>n. \<not> organization_is src n) (g_nodes (graph s)))"
proof -
  let ?m = "move_in src dst ''CONTROLS'' (move_out src dst ''IMPLICATED_IN'' ''Scandal''
      (move_out src dst ''DEFENDANT_IN'' ''LegalProceeding'' (graph s)))"
  obtain s1 s2 s3 s4 s5 where 1: "cypher (\<lambda>g. (move_out src dst ''DEFENDANT_IN'' ''LegalProceeding'' g, ())) s = (Inr (), s1)"
    and 2: "cypher (\<lambda>g. (move_out src dst ''IMPLICATED_IN'' ''Scandal'' g, ())) s1 = (Inr (), s2)"
    and 3: "cypher (\<lambda>g. (move_in src dst ''CONTROLS'' g, ())) s2 = (Inr (), s3)"
    and 4: "cypher (\<lambda>g. (adopt_name src dst g, ())) s3 = (Inr (), s4)"
    and 5: "plain_delete (organization_is src) s4 = (Inr (), s5)"
    and 6: "cypher (\<lambda>g. (map_nodes (organization_is dst) (upd_props (stamp_cnpj actor now)) g, ())) s5 = (Inr (), t)"
    and x: "x = dst"
    using assms(1) unfolding merge_organizations_def by (auto simp: seqR_Inr)
  have m: "graph s3 = ?m" using cypher_result [OF 1] cypher_result [OF 2] cypher_result [OF 3] by simp
  have s4: "graph s4 = adopt_name src dst ?m" using cypher_result [OF 4] m by simp
  note del = plain_delete_ok [OF 5]
  have t: "graph t = map_nodes (organization_is dst) (upd_props (stamp_cnpj actor now)) (graph s5)"
    using cypher_result [OF 6] by simp
  have edges: "g_edges (graph t) = g_edges ?m" using del by (auto simp: t s4)
  have "ids_unique (graph s1)" using cypher_ok [OF 1] by blast
  then have "ids_unique (graph s)"
    using cypher_result [OF 1] unfolding ids_unique_def by (metis nodes_move(1) prod.inject)
  from one_holder [OF this assms(4)] obtain d where d: "keys_of (organization_is dst) (graph s) = [d]" by blast
  with companies_apart [OF assms(2,3)] have apart: "d \<notin> set (keys_of (organization_is src) (graph s))" by simp
  let ?r = "redirected src d (graph s)"
  have "carried ?r (graph s) ?m"
    using move_out_carries [OF d apart, of "''DEFENDANT_IN''" "''LegalProceeding''"]
      move_out_carries [of dst "move_out src dst ''DEFENDANT_IN'' ''LegalProceeding'' (graph s)" d src "''IMPLICATED_IN''" "''Scandal''"]
      move_in_carries [of dst "move_out src dst ''IMPLICATED_IN'' ''Scandal'' (move_out src dst ''DEFENDANT_IN'' ''LegalProceeding'' (graph s))" d src "''CONTROLS''"]
      d apart by (auto intro: carried_trans)
  then have carried: "carried ?r (graph s) (graph t)" unfolding carried_def edges .
  have keys: "keys_of (organization_is src) (graph s4) = keys_of (organization_is src) (graph s)"
    unfolding s4 keys_of_def using kept_keys(1) [OF adopt_keeps [of src src dst ?m]] by simp
  have "e_from f \<notin> set (keys_of (organization_is src) (graph s)) \<and> e_to f \<notin> set (keys_of (organization_is src) (graph s))"
    if "f \<in> set (g_edges (graph t))" for f
  proof -
    have "f \<in> set (g_edges (graph s4))" using that by (simp add: edges s4)
    with del have "e_from f \<noteq> n_key n \<and> e_to f \<noteq> n_key n"
      if "n \<in> set (g_nodes (graph s4))" "organization_is src n" for n
      using that by (fastforce simp: degree_def filter_empty_conv)
    then show ?thesis unfolding keys [symmetric] by (auto simp: keys_of_def)
  qed
  from arrived [OF carried d this] have "inherits src dst (graph s) (graph t)" .
  moreover have "List.map n_key (g_nodes (graph t)) = List.map n_key (filter (\<lambda>n. \<not> organization_is src n) (g_nodes (graph s4)))"
    using del by (auto simp: t map_nodes_def comp_def if_distrib cong: if_cong)
  moreover have "\<dots> = List.map n_key (filter (\<lambda>n. \<not> organization_is src n) (g_nodes (graph s)))"
    unfolding s4 using kept_keys(2) [OF adopt_keeps [of src src dst ?m]] by simp
  ultimately show ?thesis using x by simp
qed

lemma holder_there:
  assumes "i \<in> set (cnpj_holders src d g)" and "i \<noteq> []" shows "keys_of (organization_is i) g \<noteq> []"
proof -
  obtain n where "n \<in> set (g_nodes g)" "has_label ''Organization'' n" "i = str_prop (n_props n) ''id''"
    using assms(1) by (auto simp: cnpj_holders_def match_nodes_def)
  with assms(2) have "organization_is i n"
    by (auto simp: organization_is_def prop_is_def str_prop_def split: option.splits pval.splits)
  with \<open>n \<in> set (g_nodes g)\<close> show ?thesis by (auto simp: keys_of_def filter_empty_conv)
qed

lemma attached:
  assumes "attach_organization_cnpj src cnpj actor s = (Inr dst, t)" and "dst \<noteq> src" and "wf_graph (graph s)"
  shows "length (digits_only cnpj) = 14 \<and> dst \<in> set (cnpj_holders src (digits_only cnpj) (graph s)) \<and>
    inherits src dst (graph s) (graph t) \<and>
    List.map n_key (g_nodes (graph t)) = List.map n_key (filter (\<lambda>n. \<not> organization_is src n) (g_nodes (graph s)))"
proof -
  let ?d = "digits_only cnpj"
  let ?dst = "case cnpj_holders src ?d (graph s) of [] \<Rightarrow> [] | i # _ \<Rightarrow> i"
  obtain hs u where h: "cypher_read (cnpj_holders src ?d) s = (Inr hs, u)" and len: "length ?d = 14"
    and k: "(let dst = (case hs of [] \<Rightarrow> [] | i # _ \<Rightarrow> i) in
          if dst = [] then
            bindR (cypher (\<lambda>g. (map_nodes (organization_is src)
                    (upd_props ((''cnpj'', Some (PStr ?d)) # stamp_cnpj actor (clock s))) g,
                    filter (organization_is src) (g_nodes g)))) (\<lambda>rows.
              case rows of [] \<Rightarrow> throw (Refused ''no Organization'')
              | n # _ \<Rightarrow> if src = [] then throw (Refused ''no Organization'') else ret src)
          else merge_organizations src dst actor (clock s)) u = (Inr dst, t)"
    using assms(1) by (auto simp: attach_organization_cnpj_def Let_def bindR_Inr getR_Inr split: if_splits)
  obtain fs where u: "u = s\<lparr>faults := fs\<rparr>" and hs: "hs = cnpj_holders src ?d (graph s)"
    using cypher_read_ok [OF h] by blast
  have ne: "?dst \<noteq> []" and run: "merge_organizations src ?dst actor (clock s) u = (Inr dst, t)"
    using k assms(2) by (auto simp: hs Let_def bindR_Inr split: if_splits list.splits)
  have mem: "?dst \<in> set (cnpj_holders src ?d (graph s))"
    using ne by (cases "cnpj_holders src ?d (graph s)") auto
  moreover have "src \<noteq> ?dst" using holder_other [OF mem ne] by simp
  moreover have "keys_of (organization_is ?dst) (graph s) \<noteq> []" by (rule holder_there [OF mem ne])
  ultimately show ?thesis using joined [OF run] assms(3) u len by auto
qed

section \<open>Properties\<close>

text \<open>A case is registered whole or not at all as far as success is concerned: when registering it reports
  success, its number has twenty digits, the proceeding and the scandal exist and are linked, and the
  watch list tracks the case. A case that was tracked already keeps its old row, endpoint and scandal
  included.\<close>

theorem registered_cases_are_tracked:
  assumes "register_watcher_case e c ep sc nm by s = (Inr u, t)"
    and "\<forall>n \<in> set (g_nodes (graph s)). is_case n \<longrightarrow> (\<exists>x. n_props n ''id'' = Some (PStr x))"
  shows "length (digits_only c) = 20 \<and>
    (\<exists>lp. linked_case (digits_only c) lp sc (graph t) \<and> watches t = seeded_watch (digits_only c) ep sc lp by (watches s))"
  by (rule registered [OF assms])

definition demo_seeded :: office where
  "demo_seeded = snd (register_watcher_case demo_env (lit ''5083376-05.2014.4.04.7000'') (lit ''api_publica_trf4'')
     (lit ''lava-jato'') [] ''backoffice'' demo_office)"

theorem registered_cases_are_tracked_witness:
  "\<exists>w \<in> set (watches demo_seeded). wt_case w = digits_only (lit ''5083376-05.2014.4.04.7000'')"
proof -
  let ?run = "register_watcher_case demo_env (lit ''5083376-05.2014.4.04.7000'') (lit ''api_publica_trf4'')
    (lit ''lava-jato'') [] ''backoffice'' demo_office"
  have "fst ?run = Inr ()" by code_simp
  then have run: "?run = (Inr (), demo_seeded)" by (simp add: demo_seeded_def prod_eq_iff)
  have "\<forall>n \<in> set (g_nodes (graph demo_office)). is_case n \<longrightarrow> (\<exists>x. n_props n ''id'' = Some (PStr x))"
    by (simp add: demo_office_def demo_graph_def)
  from registered_cases_are_tracked [OF run this] show ?thesis
    by (auto simp: seeded_watch_def demo_office_def)
qed

text \<open>C31: Attaching a number another node carries joins the two. The number is a whole one; one node of the graph
  holds the other id, and every relationship of the graph, of whatever type, is there afterwards with that
  node in the old one's place: none is lost, none is invented, each keeps every property it had, and a
  value is always that of a relationship it stands for, so a relationship that meets no other one
  arrives as it was. Of the nodes only the old one is gone.\<close>

theorem companies_are_joined:
  assumes "attach_organization_cnpj src cnpj actor s = (Inr dst, t)" and "dst \<noteq> src" and "wf_graph (graph s)"
  shows "length (digits_only cnpj) = 14 \<and> dst \<in> set (cnpj_holders src (digits_only cnpj) (graph s)) \<and>
    inherits src dst (graph s) (graph t) \<and>
    List.map n_key (g_nodes (graph t)) = List.map n_key (filter (\<lambda>n. \<not> organization_is src n) (g_nodes (graph s)))"
  by (rule attached [OF assms])

definition demo_companies :: office where
  "demo_companies = demo_office\<lparr>graph := \<lparr>g_nodes =
      [\<lparr>n_key = 0, n_labels = [''Organization''], n_props = [''id'' \<mapsto> PStr (lit ''old''), ''name'' \<mapsto> PStr (lit ''ACME'')]\<rparr>,
       \<lparr>n_key = 1, n_labels = [''Organization''],
        n_props = [''id'' \<mapsto> PStr (lit ''new''), ''cnpj'' \<mapsto> PStr (lit ''12345678000195'')]\<rparr>,
       \<lparr>n_key = 2, n_labels = [''LegalProceeding''], n_props = [''id'' \<mapsto> PStr (lit ''lp1'')]\<rparr>],
     g_edges = [\<lparr>e_from = 0, e_type = ''DEFENDANT_IN'', e_to = 2, e_props = [''role'' \<mapsto> PStr (lit ''lead'')]\<rparr>], g_next = 3\<rparr>\<rparr>"

theorem companies_are_joined_witness:
  "\<exists>f \<in> set (g_edges (graph (snd (attach_organization_cnpj (lit ''old'') (lit ''12.345.678/0001-95'') (lit ''op'') demo_companies)))).
     triple f = (1, ''DEFENDANT_IN'', 2) \<and> e_props f ''role'' = Some (PStr (lit ''lead''))"
proof -
  let ?run = "attach_organization_cnpj (lit ''old'') (lit ''12.345.678/0001-95'') (lit ''op'') demo_companies"
  let ?e = "\<lparr>e_from = 0, e_type = ''DEFENDANT_IN'', e_to = 2, e_props = [''role'' \<mapsto> PStr (lit ''lead'')]\<rparr>"
  have "fst ?run = Inr (lit ''new'')" by code_simp
  then have run: "?run = (Inr (lit ''new''), snd ?run)" by (simp add: prod_eq_iff)
  have "lit ''new'' \<noteq> lit ''old''" by (simp add: lit_inj)
  moreover have "wf_graph (graph demo_companies)" by (simp add: wf_graph_def demo_companies_def)
  ultimately have i: "inherits (lit ''old'') (lit ''new'') (graph demo_companies) (graph (snd ?run))"
    using companies_are_joined [OF run] by blast
  have keys: "keys_of (organization_is (lit ''old'')) (graph demo_companies) = [0]"
    "keys_of (organization_is (lit ''new'')) (graph demo_companies) = [1]"
    by code_simp+
  have es: "g_edges (graph demo_companies) = [?e]" by (simp add: demo_companies_def)
  have r: "sent (redirected (lit ''old'') 1 (graph demo_companies)) ?e = (1, ''DEFENDANT_IN'', 2)"
    by (simp add: sent_def redirected_def keys)
  from i r obtain f where f: "f \<in> set (g_edges (graph (snd ?run)))" "triple f = (1, ''DEFENDANT_IN'', 2)"
    "''role'' \<in> dom (e_props f)" "\<forall>k \<in> dom (e_props f). \<exists>e \<in> set [?e]. e_props e k = e_props f k"
    unfolding inherits_def keys es Let_def by auto
  from f(4) [rule_format, OF f(3)] have "e_props f ''role'' = Some (PStr (lit ''lead''))" by simp
  with f(1,2) show ?thesis by (intro bexI [of _ f] conjI)
qed

end
