(* ===== verification/System_Props.thy ===== *)
theory System_Props
  imports System_Run Office_Writes
begin

text \<open>
  What holds of the whole system after any run: requests, starts and worker runs in any order, each
  breaking off at any database call.
\<close>

section \<open>Who answers to a key\<close>

definition answers :: "gostr \<Rightarrow> node \<Rightarrow> bool" where
  "answers k n \<longleftrightarrow> covered (\<lambda>x. x = k) (ident n)"

lemma answers_iff:
  "answers k n \<longleftrightarrow> usable_key k \<and>
     (\<exists>x. (n_props n ''cpf'' = Some (PStr x) \<and> tombstone_key_cpf x = k) \<or>
          (n_props n ''cnpj'' = Some (PStr x) \<and> tombstone_key_cnpj x = k) \<or>
          (n_props n ''name'' = Some (PStr x) \<and> tombstone_key_name x = k))"
  by (auto simp: answers_def covered_def covers_def ident_def)

lemma answers_covered: "answers k n \<Longrightarrow> b k \<Longrightarrow> covered b (ident n)"
  by (auto simp: answers_def covered_def covers_def ident_def)

lemma continues_answers: "continues b m n \<Longrightarrow> answers k n \<Longrightarrow> b k \<Longrightarrow> answers k m"
  unfolding answers_iff continues_def covers_def by auto

lemma nobody_back:
  assumes "worker_run s t" and "buried s k" and "n \<in> set (g_nodes (graph t))" and "answers k n"
  shows "\<exists>m \<in> set (g_nodes (graph s)). n_key m = n_key n \<and> answers k m"
proof -
  have "revives_none (buried s) (graph s) (graph t)"
    using worker_run_no_revival [OF assms(1)] by (simp add: no_revival_def)
  with assms(2-4) answers_covered obtain m where m: "m \<in> set (g_nodes (graph s))" "continues (buried s) m n"
    unfolding revives_none_def by blast
  moreover have "n_key m = n_key n" using m(2) by (simp add: continues_def)
  ultimately show ?thesis using continues_answers [OF m(2) assms(4,2)] by blast
qed

section \<open>Properties\<close>



text \<open>C11: No tombstone is ever lifted, by whatever the system does.\<close>

theorem tombstones_never_lifted:
  assumes "system_run e acc s t" and "buried s k" shows "buried t k"
proof -
  have "tombs_grow s t"
    by (rule system_run_order [OF assms(1)]) (auto intro: tombs_grow.trans system_tombs)
  with assms(2) show ?thesis by (simp add: tombs_grow_def)
qed

lemma booted: "system_run e acc s (snd (seed_baseline e s))"
  by (rule system_run.next_step [OF system_run.none system_step.boot [OF surjective_pairing]])

theorem tombstones_never_lifted_witness:
  "buried (snd (seed_baseline demo_env (snd (removal_resolve demo_env (demo_request 1 ''purge'') demo_office))))
     (tombstone_key_name (lit ''ANA''))"
proof (rule tombstones_never_lifted [OF booted])
  show "buried (snd (removal_resolve demo_env (demo_request 1 ''purge'') demo_office)) (tombstone_key_name (lit ''ANA''))"
    by code_simp
qed

text \<open>C10: Every run of the system keeps the graph well-formed: no relationship dangles, and no two nodes of
  one kind share an id.\<close>

theorem system_keeps_graph:
  assumes "system_run e acc s t" and "wf_graph (graph s)" and "ids_unique (graph s)"
  shows "wf_graph (graph t) \<and> ids_unique (graph t)"
proof -
  have "keeps_wf s t"
    by (rule system_run_order [OF assms(1)]) (auto intro: keeps_wf.trans system_wf)
  with assms(2,3) show ?thesis by (simp add: keeps_wf_def)
qed

lemma demo_wf: "wf_graph (graph demo_office)" "ids_unique (graph demo_office)"
  by (simp_all add: wf_graph_def ids_unique_def id_clash_def has_label_def unique_labels_def demo_office_def demo_graph_def)

theorem system_keeps_graph_witness:
  "wf_graph (graph (snd (seed_baseline demo_env demo_office))) \<and> ids_unique (graph (snd (seed_baseline demo_env demo_office)))"
  by (rule system_keeps_graph [OF booted demo_wf])

text \<open>C1: Nobody is ever shown as convicted without the decision: whatever runs, an accused party's
  relationship to a proceeding says convicted only if it names the address of the evidence.\<close>

theorem no_conviction_without_decision:
  assumes "system_run e acc s t" and "sourced (graph s)" and "x \<in> set (g_edges (graph t))"
    and "e_type x = ''DEFENDANT_IN''" and "e_props x ''outcome'' = Some (PStr (lit ''convicted''))"
  shows "\<exists>u. e_props x ''outcome_evidence_url'' = Some (PStr u) \<and> u \<noteq> []"
proof -
  have "sourced (graph t)" using sourcing.system_run [OF assms(1)] assms(2) by (simp add: sourcing_def)
  with assms(3-5) show ?thesis unfolding sourced_def claim_sourced_def by blast
qed

definition demo_decision :: http_request where
  "demo_decision = \<lparr>hr_route = PostOutcome, hr_auth = Some (lit ''op'', lit ''pw''), hr_hx = lit ''true'',
     hr_body = \<lparr>qr_id = lit ''lp1'',
       qr_form = (\<lambda>k. if k = ''party_id'' then lit ''x1'' else if k = ''outcome'' then lit ''convicted''
                      else if k = ''evidence_url'' then lit ''https://tj'' else []),
       qr_query = (\<lambda>_. []), qr_user = []\<rparr>\<rparr>"

theorem no_conviction_without_decision_witness:
  "\<exists>x \<in> set (g_edges (graph (snd (serve demo_env (lit ''op'', lit ''pw'') demo_decision demo_office)))).
     \<exists>u. e_props x ''outcome_evidence_url'' = Some (PStr u) \<and> u \<noteq> []"
proof -
  let ?t = "snd (serve demo_env (lit ''op'', lit ''pw'') demo_decision demo_office)"
  have run: "system_run demo_env (lit ''op'', lit ''pw'') demo_office ?t"
    by (rule system_run.next_step [OF system_run.none system_step.request [OF surjective_pairing]])
  have "list_ex (\<lambda>x. e_type x = ''DEFENDANT_IN'' \<and> e_props x ''outcome'' = Some (PStr (lit ''convicted''))) (g_edges (graph ?t))"
    by code_simp
  then obtain x where "x \<in> set (g_edges (graph ?t))" "e_type x = ''DEFENDANT_IN''"
    "e_props x ''outcome'' = Some (PStr (lit ''convicted''))" by (auto simp: list_ex_iff)
  moreover have "sourced (graph demo_office)"
    by (simp add: sourced_def claim_sourced_def demo_office_def demo_graph_def)
  ultimately show ?thesis using no_conviction_without_decision [OF run] by blast
qed

text \<open>C4: No record of the state is lost: whatever runs, a node that is neither an organization nor a mere
  person stays with its id and kind, and so does every relationship between two such nodes.\<close>

theorem records_survive:
  assumes "system_run e acc s t" and "wf_graph (graph s)"
  shows "(\<forall>n \<in> set (g_nodes (graph s)). record_node n \<longrightarrow> (\<exists>m \<in> set (g_nodes (graph t)). same_record n m)) \<and>
    (\<forall>x \<in> set (g_edges (graph s)). record_key (graph s) (e_from x) \<and> record_key (graph s) (e_to x) \<longrightarrow>
       has_edge (e_from x) (e_type x) (e_to x) (graph t))"
proof -
  have "records_kept (graph s) (graph t)" by (rule records.system_run [OF assms(1)])
  with assms(2) show ?thesis unfolding records_kept_def triple_has by blast
qed

theorem records_survive_witness:
  "\<exists>m \<in> set (g_nodes (graph (snd (seed_baseline demo_env demo_office)))).
     has_label ''Politician'' m \<and> n_props m ''id'' = Some (PStr (lit ''p1''))"
proof -
  let ?n = "\<lparr>n_key = 0, n_labels = [''Politician''], n_props = [''id'' \<mapsto> PStr (lit ''p1'')]\<rparr>"
  have "?n \<in> set (g_nodes (graph demo_office))" "record_node ?n"
    by (simp_all add: demo_office_def demo_graph_def record_node_def has_label_def)
  with records_survive [OF booted demo_wf(1), of demo_env] obtain m where
    "m \<in> set (g_nodes (graph (snd (seed_baseline demo_env demo_office))))" "same_record ?n m" by blast
  then show ?thesis by (intro bexI [of _ m]) (auto simp: same_record_def has_label_def)
qed

end
