(* ===== verification/Paging.thy ===== *)
theory Paging
  imports Office_Graph
begin

text \<open>
  The pages of the public lists: clamping of what the caller asks for (\<^verbatim>\<open>clampPaging\<close> in
  \<^verbatim>\<open>backend/db/memgraph/scandals.go\<close>), \<^verbatim>\<open>ORDER BY\<close>, \<^verbatim>\<open>SKIP\<close> and \<^verbatim>\<open>LIMIT\<close>. Integers of the program have 64
  bits. The database hands rows to \<^verbatim>\<open>ORDER BY\<close> in an order of its own; the sort is stable here, so rows
  that tie keep that order, which may be another one for the next request.
\<close>

section \<open>Clamping\<close>

definition wrap64 :: "int \<Rightarrow> int" where
  "wrap64 n = (n + 2 ^ 63) mod 2 ^ 64 - 2 ^ 63"

definition clamp_paging :: "int \<Rightarrow> int \<Rightarrow> int \<Rightarrow> int \<times> int \<times> int" where
  "clamp_paging page page_size default_size =
     (let page = (if page < 1 then 1 else page);
          page_size = (if page_size < 1 then default_size else page_size);
          page_size = (if 100 < page_size then 100 else page_size)
      in (page, page_size, wrap64 ((page - 1) * page_size)))"

text \<open>Memgraph refuses a negative \<^verbatim>\<open>SKIP\<close>.\<close>

definition skip_limit :: "int \<Rightarrow> int \<Rightarrow> 'a list \<Rightarrow> err + 'a list" where
  "skip_limit skip limit rows =
     (if skip < 0 then Inl DbError else Inr (take (nat limit) (drop (nat skip) rows)))"

section \<open>Orders\<close>

text \<open>\<^verbatim>\<open>ORDER BY k1, k2, ...\<close>: a later key decides when the earlier ones tie.\<close>

fun order_by :: "('a \<Rightarrow> 'a \<Rightarrow> bool) list \<Rightarrow> 'a \<Rightarrow> 'a \<Rightarrow> bool" where
  "order_by [] a b = False"
| "order_by (lt # lts) a b = (lt a b \<or> (\<not> lt b a \<and> order_by lts a b))"

definition ascending :: "('a \<Rightarrow> gostr option) \<Rightarrow> 'a \<Rightarrow> 'a \<Rightarrow> bool" where
  "ascending key a b = null_last (key a) (key b)"

definition descending :: "('a \<Rightarrow> gostr option) \<Rightarrow> 'a \<Rightarrow> 'a \<Rightarrow> bool" where
  "descending key a b = null_last (key b) (key a)"

definition least_first :: "('a \<Rightarrow> nat) \<Rightarrow> 'a \<Rightarrow> 'a \<Rightarrow> bool" where
  "least_first key a b = (key a < key b)"

definition most_first :: "('a \<Rightarrow> nat) \<Rightarrow> 'a \<Rightarrow> 'a \<Rightarrow> bool" where
  "most_first key a b = (key b < key a)"

text \<open>What a sort needs of an order: a strict weak order.\<close>

locale ranking =
  fixes lt :: "'a \<Rightarrow> 'a \<Rightarrow> bool"
  assumes asym: "lt a b \<Longrightarrow> \<not> lt b a"
    and split: "lt a c \<Longrightarrow> lt a b \<or> lt b c"
begin

lemma sift_ranked: "sorted_wrt (\<lambda>a b. \<not> lt a b) ys \<Longrightarrow> sorted_wrt (\<lambda>a b. \<not> lt a b) (sift lt x ys)"
proof (induction ys)
  case (Cons y ys)
  have "\<not> lt x z" if "\<not> lt x y" "z \<in> set ys" for z
    using split [of x z y] Cons.prems that by auto
  with Cons show ?case by (auto simp: set_sift dest: asym)
qed simp

lemma slice_ranked: "sorted_wrt (\<lambda>a b. \<not> lt b a) (slice_stable lt xs)"
proof -
  have "sorted_wrt (\<lambda>a b. \<not> lt a b) (foldl (\<lambda>acc x. sift lt x acc) ys xs)"
    if "sorted_wrt (\<lambda>a b. \<not> lt a b) ys" for ys
    using that by (induction xs arbitrary: ys) (simp_all add: sift_ranked)
  from this [of "[]"] show ?thesis by (simp add: slice_stable_def sorted_wrt_rev)
qed

lemma ranked_unique:
  assumes "sorted_wrt (\<lambda>a b. \<not> lt b a) xs" and "sorted_wrt (\<lambda>a b. \<not> lt b a) ys" and "mset xs = mset ys"
    and "\<And>a b. a \<in> set xs \<Longrightarrow> b \<in> set xs \<Longrightarrow> a \<noteq> b \<Longrightarrow> lt a b \<or> lt b a"
  shows "xs = ys"
  using assms
proof (induction xs arbitrary: ys)
  case (Cons x xs)
  then obtain y zs where ys: "ys = y # zs" by (cases ys) auto
  have sets: "set (x # xs) = set ys" using Cons.prems(3) by (metis set_mset_mset)
  have "x = y"
  proof (rule ccontr)
    assume ne: "x \<noteq> y"
    with sets ys have "y \<in> set xs" "x \<in> set zs" by auto
    with Cons.prems(1,2) ys have "\<not> lt y x" "\<not> lt x y" by auto
    moreover have "lt x y \<or> lt y x" using sets ys by (intro Cons.prems(4) ne) auto
    ultimately show False by blast
  qed
  with Cons ys show ?case by auto
qed simp

text \<open>Without ties the sorted list does not depend on the order the rows came in.\<close>

lemma slice_unique:
  assumes "mset xs = mset ys"
    and "\<And>a b. a \<in> set xs \<Longrightarrow> b \<in> set xs \<Longrightarrow> a \<noteq> b \<Longrightarrow> lt a b \<or> lt b a"
  shows "slice_stable lt xs = slice_stable lt ys"
  by (rule ranked_unique [OF slice_ranked slice_ranked]) (use assms in \<open>auto simp: mset_slice\<close>)

end

lemma lex_less_asym: "lex_less a b \<Longrightarrow> \<not> lex_less b a"
  by (induction a b rule: lex_less.induct) auto

lemma lex_less_split: "lex_less a c \<Longrightarrow> lex_less a b \<or> lex_less b c"
proof (induction a c arbitrary: b rule: lex_less.induct)
  case (2 y ys)
  then show ?case by (cases b) auto
next
  case (3 x xs y ys)
  show ?case
  proof (cases b)
    case (Cons z zs)
    with 3 show ?thesis by (cases x z rule: linorder_cases) auto
  qed auto
qed simp

lemma lex_less_total: "a \<noteq> b \<Longrightarrow> lex_less a b \<or> lex_less b a"
  by (induction a b rule: lex_less.induct) (auto simp: neq_Nil_conv)

lemma null_last_asym: "null_last a b \<Longrightarrow> \<not> null_last b a"
  by (cases "(a, b)" rule: null_last.cases) (auto dest: lex_less_asym)

lemma null_last_split: "null_last a c \<Longrightarrow> null_last a b \<or> null_last b c"
  by (cases a; cases b; cases c) (auto dest: lex_less_split)

lemma ranking_ascending: "ranking (ascending key)"
  by unfold_locales (auto simp: ascending_def dest: null_last_asym null_last_split)

lemma ranking_descending: "ranking (descending key)"
  by unfold_locales (auto simp: descending_def dest: null_last_asym null_last_split)

lemma ranking_most_first: "ranking (most_first key)"
  by unfold_locales (auto simp: most_first_def)

lemma ranking_least_first: "ranking (least_first key)"
  by unfold_locales (auto simp: least_first_def)

lemma ranking_order_by: "\<forall>lt \<in> set lts. ranking lt \<Longrightarrow> ranking (order_by lts)"
proof (induction lts)
  case Nil
  show ?case by unfold_locales simp_all
next
  case (Cons lt lts)
  then have hd: "ranking lt" and tl: "ranking (order_by lts)" by simp_all
  show ?case
  proof
    fix a b c
    show "order_by (lt # lts) a b \<Longrightarrow> \<not> order_by (lt # lts) b a"
      using ranking.asym [OF hd] ranking.asym [OF tl] by auto
    show "order_by (lt # lts) a c \<Longrightarrow> order_by (lt # lts) a b \<or> order_by (lt # lts) b c"
      using ranking.split [OF hd] ranking.split [OF tl] by auto blast+
  qed
qed

lemmas ranking_rules = ranking_ascending ranking_descending ranking_most_first ranking_least_first
  ranking_order_by

section \<open>Walking the pages\<close>

lemma pages_concat: "concat (List.map (\<lambda>p. take n (drop (p * n) xs)) [0..<k]) = take (k * n) xs"
proof (induction k)
  case (Suc k)
  have "take (k * n) xs @ take n (drop (k * n) xs) = take (k * n + n) xs" by (simp add: take_add)
  with Suc show ?case by (simp add: add.commute)
qed simp

end
