(* ===== verification/Browse.thy ===== *)
theory Browse
  imports Paging Election
begin

text \<open>
  The public lists and records (\<^verbatim>\<open>backend/db/memgraph/politicians.go\<close>, \<^verbatim>\<open>scandals.go\<close>, \<^verbatim>\<open>proceedings.go\<close>,
  \<^verbatim>\<open>sanctions_read.go\<close> and the property readers of \<^verbatim>\<open>graph.go\<close>). A query takes its rows in the order the
  engine finds them, which is the parameter \<open>arr\<close>; every statement about a list holds for each of them.
  Memgraph's \<^verbatim>\<open>toLower\<close> is the parameter \<open>lw\<close>. A list is two statements, the count and the page, in a
  session that reads; each may fail on its own.
\<close>

section \<open>Reading properties\<close>

text \<open>
  The graph holds dates as strings: that is what every writer stores. The branches of \<^verbatim>\<open>toTime\<close> for values
  of the driver's date types have no counterpart.
\<close>

definition to_time :: "pval \<Rightarrow> stamp option" where
  "to_time v =
     (case v of
        PStr s \<Rightarrow> first_stamp [layout_iso, layout_iso @ [Char 84, Hour24, Char 58, Minute2, Char 58, Second2, Zone]] s
      | _ \<Rightarrow> None)"

definition zero_time :: stamp where
  "zero_time = no_stamp\<lparr>dp_year := lit ''0001'', dp_month := 1, dp_day := 1\<rparr>"

definition time_prop :: "props \<Rightarrow> string \<Rightarrow> stamp" where
  "time_prop p k =
     (case p k of None \<Rightarrow> zero_time | Some v \<Rightarrow> (case to_time v of Some t \<Rightarrow> t | None \<Rightarrow> zero_time))"

definition time_ptr_prop :: "props \<Rightarrow> string \<Rightarrow> stamp option" where
  "time_ptr_prop p k = (case p k of None \<Rightarrow> None | Some v \<Rightarrow> to_time v)"

definition num_ptr_prop :: "props \<Rightarrow> string \<Rightarrow> rat option" where
  "num_ptr_prop p k = (case p k of Some (PNum x) \<Rightarrow> Some x | _ \<Rightarrow> None)"

section \<open>Pages\<close>

record 'i listing =
  ls_items :: "'i list"
  ls_page :: int
  ls_page_size :: int
  ls_total :: nat

text \<open>\<^verbatim>\<open>RETURN ... ORDER BY ... SKIP $skip LIMIT $limit\<close>, each row as an item.\<close>

definition page_of :: "('r \<Rightarrow> 'r \<Rightarrow> bool) \<Rightarrow> ('r \<Rightarrow> 'i) \<Rightarrow> int \<Rightarrow> int \<Rightarrow> 'r list \<Rightarrow> err + 'i list" where
  "page_of lt item skip limit rows =
     map_sum (\<lambda>e. e) (List.map item) (skip_limit skip limit (slice_stable lt rows))"

text \<open>The two statements of a list: \<^verbatim>\<open>count\<close>, then the page.\<close>

definition counted_page ::
  "(graph \<Rightarrow> nat) \<Rightarrow> (graph \<Rightarrow> err + 'i list) \<Rightarrow> int \<Rightarrow> int \<Rightarrow> ('z world_scheme, 'i listing) prog" where
  "counted_page counting items page page_size =
     bindR (cypher_read counting) (\<lambda>n.
     bindR (cypher_read items) (\<lambda>r. case r of
         Inl e \<Rightarrow> throw e
       | Inr is \<Rightarrow> ret \<lparr>ls_items = is, ls_page = page, ls_page_size = page_size, ls_total = n\<rparr>))"

text \<open>\<^verbatim>\<open>(x:l)-[:t]->(n)\<close> and \<^verbatim>\<open>(n)-[:t]->(x:l)\<close>: the distinct nodes at the far end.\<close>

definition linked_from :: "graph \<Rightarrow> string \<Rightarrow> string \<Rightarrow> node \<Rightarrow> node list" where
  "linked_from g l t n = match_nodes l (\<lambda>x. has_edge (n_key x) t (n_key n) g) g"

definition linked_to :: "graph \<Rightarrow> string \<Rightarrow> string \<Rightarrow> node \<Rightarrow> node list" where
  "linked_to g t l n = match_nodes l (\<lambda>x. has_edge (n_key n) t (n_key x) g) g"

section \<open>Politicians\<close>

definition default_politician_page_size :: int where
  "default_politician_page_size = 24"

record ranked_politician =
  pw_node :: node
  pw_sanctions :: nat
  pw_proceedings :: nat
  pw_connections :: nat

record politician_item =
  pl_id :: gostr
  pl_name :: gostr
  pl_party :: gostr
  pl_role :: gostr
  pl_state :: gostr
  pl_photo :: gostr
  pl_attribution :: gostr
  pl_sanctions :: nat
  pl_proceedings :: nat
  pl_connections :: nat

definition politician_keeps :: "(gostr \<Rightarrow> gostr) \<Rightarrow> gostr \<Rightarrow> gostr \<Rightarrow> gostr \<Rightarrow> node \<Rightarrow> bool" where
  "politician_keeps lw flt party uf n \<longleftrightarrow>
     (flt = [] \<or> contains_null (map_option lw (str_or_null n ''name'')) (lw flt)) \<and>
     (party = [] \<or> n_props n ''party_current'' = Some (PStr party)) \<and>
     (uf = [] \<or> n_props n ''state'' = Some (PStr uf))"

definition rank_politician :: "graph \<Rightarrow> node \<Rightarrow> ranked_politician" where
  "rank_politician g n =
     \<lparr>pw_node = n, pw_sanctions = length (linked_to g ''SANCTIONED_IN'' ''Sanction'' n),
      pw_proceedings = length (linked_to g ''DEFENDANT_IN'' ''LegalProceeding'' n), pw_connections = degree g n\<rparr>"

definition name_of_row :: "ranked_politician \<Rightarrow> gostr option" where
  "name_of_row r = str_or_null (pw_node r) ''name''"

definition politician_order :: "gostr \<Rightarrow> ranked_politician \<Rightarrow> ranked_politician \<Rightarrow> bool" where
  "politician_order mode =
     order_by (if mode = lit ''name'' then [ascending name_of_row]
               else [most_first pw_connections, ascending name_of_row])"

definition politician_list_item :: "ranked_politician \<Rightarrow> politician_item" where
  "politician_list_item r =
     (let p = n_props (pw_node r) in
      \<lparr>pl_id = str_prop p ''id'', pl_name = str_prop p ''name'', pl_party = str_prop p ''party_current'',
       pl_role = str_prop p ''role_current'', pl_state = str_prop p ''state'', pl_photo = str_prop p ''photo_url'',
       pl_attribution = str_prop p ''photo_attribution'', pl_sanctions = pw_sanctions r,
       pl_proceedings = pw_proceedings r, pl_connections = pw_connections r\<rparr>)"

definition query_politicians ::
  "(gostr \<Rightarrow> gostr) \<Rightarrow> (node list \<Rightarrow> node list) \<Rightarrow> gostr \<Rightarrow> gostr \<Rightarrow> gostr \<Rightarrow> gostr \<Rightarrow> int \<Rightarrow> int
     \<Rightarrow> ('z world_scheme, politician_item listing) prog" where
  "query_politicians lw arr flt party uf mode page page_size =
     (let (page, page_size, skip) = clamp_paging page page_size default_politician_page_size;
          rows = match_nodes ''Politician'' (politician_keeps lw flt party uf)
      in counted_page (\<lambda>g. length (rows g))
           (\<lambda>g. page_of (politician_order mode) politician_list_item skip page_size
                  (List.map (rank_politician g) (arr (rows g))))
           page page_size)"

section \<open>Scandals\<close>

definition default_scandal_page_size :: int where
  "default_scandal_page_size = 24"

record scandal_row =
  sw_node :: node
  sw_politicians :: nat
  sw_proceedings :: nat

record scandal_item =
  si_id :: gostr
  si_name :: gostr
  si_description :: gostr
  si_start :: stamp
  si_end :: "stamp option"
  si_status :: gostr
  si_politicians :: nat
  si_proceedings :: nat

text \<open>
  \<^verbatim>\<open>direct\<close> and \<^verbatim>\<open>via_cases\<close> are collected without duplicates; the size of the one followed by what the
  other adds is the count.
\<close>

definition direct_politicians :: "graph \<Rightarrow> node \<Rightarrow> node list" where
  "direct_politicians g n = linked_from g ''Politician'' ''INVOLVED_IN'' n"

definition politicians_via_cases :: "graph \<Rightarrow> node \<Rightarrow> node list" where
  "politicians_via_cases g n =
     remdups (concat (List.map (linked_from g ''Politician'' ''DEFENDANT_IN'')
                               (linked_from g ''LegalProceeding'' ''INVESTIGATES'' n)))"

definition politician_count :: "graph \<Rightarrow> node \<Rightarrow> nat" where
  "politician_count g n =
     (let direct = direct_politicians g n
      in length (direct @ filter (\<lambda>x. x \<notin> set direct) (politicians_via_cases g n)))"

definition scandal_row_of :: "graph \<Rightarrow> node \<Rightarrow> scandal_row" where
  "scandal_row_of g n =
     \<lparr>sw_node = n, sw_politicians = politician_count g n,
      sw_proceedings = length (linked_from g ''LegalProceeding'' ''INVESTIGATES'' n)\<rparr>"

definition scandal_order_by :: "gostr \<Rightarrow> scandal_row \<Rightarrow> scandal_row \<Rightarrow> bool" where
  "scandal_order_by mode =
     order_by (if mode = lit ''name'' then [ascending (\<lambda>r. str_or_null (sw_node r) ''name'')]
               else [descending (\<lambda>r. str_or_null (sw_node r) ''date_start''),
                     ascending (\<lambda>r. str_or_null (sw_node r) ''name'')])"

definition scandal_list_item_from_props :: "props \<Rightarrow> nat \<Rightarrow> nat \<Rightarrow> scandal_item" where
  "scandal_list_item_from_props p politicians proceedings =
     \<lparr>si_id = str_prop p ''id'', si_name = str_prop p ''name'', si_description = str_prop p ''description'',
      si_start = time_prop p ''date_start'', si_end = time_ptr_prop p ''date_end'', si_status = str_prop p ''status'',
      si_politicians = politicians, si_proceedings = proceedings\<rparr>"

definition scandal_list_item :: "scandal_row \<Rightarrow> scandal_item" where
  "scandal_list_item r = scandal_list_item_from_props (n_props (sw_node r)) (sw_politicians r) (sw_proceedings r)"

definition query_scandals ::
  "(node list \<Rightarrow> node list) \<Rightarrow> gostr \<Rightarrow> int \<Rightarrow> int \<Rightarrow> ('z world_scheme, scandal_item listing) prog" where
  "query_scandals arr mode page page_size =
     (let (page, page_size, skip) = clamp_paging page page_size default_scandal_page_size;
          rows = match_nodes ''Scandal'' (\<lambda>n. True)
      in counted_page (\<lambda>g. length (rows g))
           (\<lambda>g. page_of (scandal_order_by mode) scandal_list_item skip page_size
                  (List.map (scandal_row_of g) (arr (rows g))))
           page page_size)"

section \<open>Proceedings\<close>

definition default_proceeding_page_size :: int where
  "default_proceeding_page_size = 24"

definition proceeding_order_by :: "gostr \<Rightarrow> node \<Rightarrow> node \<Rightarrow> bool" where
  "proceeding_order_by mode =
     order_by (if mode = lit ''court'' then [ascending (\<lambda>n. str_or_null n ''court''), ascending (\<lambda>n. str_or_null n ''case_number'')]
               else [ascending (\<lambda>n. str_or_null n ''case_number'')])"

record proceeding_item =
  pi_id :: gostr
  pi_case :: gostr
  pi_court :: gostr
  pi_status :: gostr
  pi_phase :: gostr
  pi_conviction :: bool
  pi_type :: gostr
  pi_polled :: bool

definition proceeding_list_item_from_props :: "props \<Rightarrow> proceeding_item" where
  "proceeding_list_item_from_props p =
     \<lparr>pi_id = str_prop p ''id'', pi_case = str_prop p ''case_number'', pi_court = str_prop p ''court'',
      pi_status = str_prop p ''status'', pi_phase = str_prop p ''phase'',
      pi_conviction = bool_prop p ''has_conviction'', pi_type = str_prop p ''type'',
      pi_polled = (p ''has_conviction'' \<noteq> None)\<rparr>"

text \<open>The conviction filter: an unknown value filters nothing.\<close>

definition conviction_keeps :: "gostr \<Rightarrow> node \<Rightarrow> bool" where
  "conviction_keeps c n =
     (if c = lit ''true'' then n_props n ''has_conviction'' = Some (PBool True)
      else if c = lit ''false'' then n_props n ''has_conviction'' = Some (PBool False)
      else if c = lit ''unknown'' then n_props n ''has_conviction'' = None
      else True)"

definition proceeding_keeps :: "(gostr \<Rightarrow> gostr) \<Rightarrow> gostr \<Rightarrow> gostr \<Rightarrow> gostr \<Rightarrow> node \<Rightarrow> bool" where
  "proceeding_keeps lw court conviction q n \<longleftrightarrow>
     (court = [] \<or> n_props n ''court'' = Some (PStr court)) \<and>
     conviction_keeps conviction n \<and>
     (q = [] \<or> contains_null (map_option (cypher_fold lw) (str_or_null n ''case_number'')) (fold_query q)
             \<or> contains_null (map_option (cypher_fold lw) (str_or_null n ''class_name'')) (fold_query q))"

definition query_proceedings ::
  "(gostr \<Rightarrow> gostr) \<Rightarrow> (node list \<Rightarrow> node list) \<Rightarrow> gostr \<Rightarrow> gostr \<Rightarrow> gostr \<Rightarrow> gostr \<Rightarrow> int \<Rightarrow> int
     \<Rightarrow> ('z world_scheme, proceeding_item listing) prog" where
  "query_proceedings lw arr court conviction q mode page page_size =
     (let (page, page_size, skip) = clamp_paging page page_size default_proceeding_page_size;
          rows = match_nodes ''LegalProceeding'' (proceeding_keeps lw court conviction q)
      in counted_page (\<lambda>g. length (rows g))
           (\<lambda>g. page_of (proceeding_order_by mode) (\<lambda>n. proceeding_list_item_from_props (n_props n)) skip page_size
                  (arr (rows g)))
           page page_size)"

text \<open>One proceeding: a row per defendant, the first one also gives the case and its scandal.\<close>

record proceeding_defendant =
  pd_id :: gostr
  pd_name :: gostr
  pd_type :: string
  pd_outcome :: gostr
  pd_source :: gostr
  pd_confidence :: "rat option"
  pd_signals :: "gostr list"
  pd_props :: props

record proceeding_detail =
  pt_item :: proceeding_item
  pt_assuntos :: "gostr list"
  pt_url :: gostr
  pt_scandal :: "(gostr \<times> gostr) option"
  pt_defendants :: "proceeding_defendant list"

definition defendant_from_node :: "string list \<Rightarrow> props \<Rightarrow> props \<Rightarrow> proceeding_defendant" where
  "defendant_from_node labels p ep =
     \<lparr>pd_id = str_prop p ''id'', pd_name = str_prop p ''name'', pd_type = fst (primary_label labels),
      pd_outcome = str_prop ep ''outcome'', pd_source = str_prop ep ''source'',
      pd_confidence = num_ptr_prop ep ''confidence'', pd_signals = list_prop ep ''confidence_signals'',
      pd_props = sanitize_properties ep\<rparr>"

text \<open>\<^verbatim>\<open>OPTIONAL MATCH\<close>: one row without the variable when nothing matches.\<close>

definition optional :: "'a list \<Rightarrow> 'a option list" where
  "optional xs = (if xs = [] then [None] else List.map Some xs)"

definition edges_into :: "graph \<Rightarrow> string \<Rightarrow> node \<Rightarrow> (node \<times> edge) list" where
  "edges_into g t n =
     concat (List.map (\<lambda>e. List.map (\<lambda>x. (x, e)) (filter (\<lambda>x. n_key x = e_from e) (g_nodes g)))
       (filter (\<lambda>e. e_type e = t \<and> e_to e = n_key n) (g_edges g)))"

definition proceeding_rows :: "gostr \<Rightarrow> graph \<Rightarrow> (node \<times> node option \<times> (node \<times> edge) option) list" where
  "proceeding_rows i g =
     concat (List.map (\<lambda>lp. concat (List.map (\<lambda>s. List.map (\<lambda>d. (lp, s, d)) (optional (edges_into g ''DEFENDANT_IN'' lp)))
         (optional (linked_to g ''INVESTIGATES'' ''Scandal'' lp))))
       (match_nodes ''LegalProceeding'' (prop_is ''id'' (PStr i)) g))"

definition proceeding_head :: "node \<Rightarrow> node option \<Rightarrow> proceeding_detail" where
  "proceeding_head lp s =
     (let p = n_props lp in
      \<lparr>pt_item = proceeding_list_item_from_props p, pt_assuntos = list_prop p ''assuntos'', pt_url = str_prop p ''url'',
       pt_scandal = map_option (\<lambda>s. (str_prop (n_props s) ''id'', str_prop (n_props s) ''name'')) s,
       pt_defendants = []\<rparr>)"

definition proceeding_step ::
  "node \<times> node option \<times> (node \<times> edge) option \<Rightarrow> proceeding_detail option \<times> gostr set
     \<Rightarrow> proceeding_detail option \<times> gostr set" where
  "proceeding_step row acc =
     (let (lp, s, d) = row;
          out = (case fst acc of None \<Rightarrow> proceeding_head lp s | Some out \<Rightarrow> out)
      in case d of
           None \<Rightarrow> (Some out, snd acc)
         | Some (x, e) \<Rightarrow>
             (let def = defendant_from_node (n_labels x) (n_props x) (e_props e)
              in if pd_id def = [] \<or> pd_id def \<in> snd acc then (Some out, snd acc)
                 else (Some (out\<lparr>pt_defendants := pt_defendants out @ [def]\<rparr>), insert (pd_id def) (snd acc))))"

definition proceeding_of_rows ::
  "(node \<times> node option \<times> (node \<times> edge) option) list \<Rightarrow> proceeding_detail option" where
  "proceeding_of_rows rows = fst (fold proceeding_step rows (None, {}))"

definition query_proceeding ::
  "((node \<times> node option \<times> (node \<times> edge) option) list \<Rightarrow> (node \<times> node option \<times> (node \<times> edge) option) list)
     \<Rightarrow> gostr \<Rightarrow> ('z world_scheme, proceeding_detail option) prog" where
  "query_proceeding arr i = cypher_read (\<lambda>g. proceeding_of_rows (arr (proceeding_rows i g)))"

end
