(* ===== verification/Sanction_Reads.thy ===== *)
theory Sanction_Reads
  imports Browse
begin

text \<open>
  The public reading of sanctions: \<^verbatim>\<open>backend/db/memgraph/sanctions_read.go\<close>. The list folds the parties of
  a sanction into its row, column by column: \<^verbatim>\<open>head(collect(x))\<close> is the first party that has an \<open>x\<close>, in the
  order the engine finds the parties, the parameter \<open>parr\<close>.
\<close>

definition default_sanction_page_size :: int where
  "default_sanction_page_size = 24"

record sanction_row =
  sx_node :: node
  sx_id :: "gostr option"
  sx_name :: "gostr option"
  sx_search :: "gostr option"
  sx_document :: "gostr option"
  sx_type :: "gostr option"

text \<open>The parties: the far end of every \<^verbatim>\<open>SANCTIONED_IN\<close> relationship, whatever its label.\<close>

definition sanction_parties :: "graph \<Rightarrow> node \<Rightarrow> node list" where
  "sanction_parties g n = List.map fst (edges_into g ''SANCTIONED_IN'' n)"

definition head_collect :: "(node \<Rightarrow> gostr option) \<Rightarrow> node list \<Rightarrow> gostr option" where
  "head_collect f ns = (case List.map_filter f ns of [] \<Rightarrow> None | x # _ \<Rightarrow> Some x)"

definition document_of :: "node \<Rightarrow> gostr option" where
  "document_of n = (case str_or_null n ''cnpj'' of None \<Rightarrow> str_or_null n ''cpf'' | Some d \<Rightarrow> Some d)"

definition first_label :: "node \<Rightarrow> gostr option" where
  "first_label n = (case n_labels n of [] \<Rightarrow> None | l # _ \<Rightarrow> Some (lit l))"

definition sanction_row_of :: "(node list \<Rightarrow> node list) \<Rightarrow> graph \<Rightarrow> node \<Rightarrow> sanction_row" where
  "sanction_row_of parr g n =
     (let ps = parr (sanction_parties g n) in
      \<lparr>sx_node = n, sx_id = head_collect (\<lambda>p. str_or_null p ''id'') ps,
       sx_name = head_collect (\<lambda>p. str_or_null p ''name'') ps,
       sx_search = head_collect (\<lambda>p. str_or_null p ''search_name'') ps,
       sx_document = head_collect document_of ps, sx_type = head_collect first_label ps\<rparr>)"

definition coalesce_empty :: "gostr option \<Rightarrow> gostr" where
  "coalesce_empty x = (case x of None \<Rightarrow> [] | Some s \<Rightarrow> s)"

definition sanction_keeps :: "gostr \<Rightarrow> gostr \<Rightarrow> gostr \<Rightarrow> sanction_row \<Rightarrow> bool" where
  "sanction_keeps registry organ q r \<longleftrightarrow>
     (registry = [] \<or> n_props (sx_node r) ''registry'' = Some (PStr registry)) \<and>
     (organ = [] \<or> n_props (sx_node r) ''organ'' = Some (PStr organ)) \<and>
     (q = [] \<or> contains (coalesce_empty (sx_search r)) (fold_query q)
             \<or> contains (coalesce_empty (str_or_null (sx_node r) ''search_text'')) (fold_query q))"

definition undated :: "sanction_row \<Rightarrow> nat" where
  "undated r = (if str_or_null (sx_node r) ''date_start'' \<in> {None, Some []} then 1 else 0)"

definition sanction_order_by :: "gostr \<Rightarrow> sanction_row \<Rightarrow> sanction_row \<Rightarrow> bool" where
  "sanction_order_by mode =
     order_by (if mode = lit ''registry'' then [ascending (\<lambda>r. str_or_null (sx_node r) ''registry'')]
               else [least_first undated, descending (\<lambda>r. str_or_null (sx_node r) ''date_start''),
                     ascending (\<lambda>r. str_or_null (sx_node r) ''registry'')])"

record sanction_facts =
  sf_id :: gostr
  sf_registry :: gostr
  sf_type :: gostr
  sf_organ :: gostr
  sf_start :: "stamp option"
  sf_end :: "stamp option"
  sf_process :: gostr
  sf_url :: gostr

record sanction_item = sanction_facts +
  sf_party_id :: gostr
  sf_party_name :: gostr
  sf_party_document :: gostr
  sf_party_type :: gostr

definition sanction_list_item_from_props :: "props \<Rightarrow> gostr \<Rightarrow> gostr \<Rightarrow> gostr \<Rightarrow> gostr \<Rightarrow> sanction_item" where
  "sanction_list_item_from_props p party_id party_name party_document party_type =
     \<lparr>sf_id = str_prop p ''id'', sf_registry = str_prop p ''registry'', sf_type = str_prop p ''sanction_type'',
      sf_organ = str_prop p ''organ'', sf_start = time_ptr_prop p ''date_start'', sf_end = time_ptr_prop p ''date_end'',
      sf_process = str_prop p ''process_ref'', sf_url = str_prop p ''source_url'',
      sf_party_id = party_id, sf_party_name = party_name, sf_party_document = party_document,
      sf_party_type = party_type\<rparr>"

text \<open>\<^verbatim>\<open>recString\<close> trims what it reads.\<close>

definition sanction_list_item :: "sanction_row \<Rightarrow> sanction_item" where
  "sanction_list_item r =
     sanction_list_item_from_props (n_props (sx_node r))
       (trim_space (coalesce_empty (sx_id r))) (trim_space (coalesce_empty (sx_name r)))
       (trim_space (coalesce_empty (sx_document r))) (trim_space (coalesce_empty (sx_type r)))"

definition sanction_base ::
  "(node list \<Rightarrow> node list) \<Rightarrow> (node list \<Rightarrow> node list) \<Rightarrow> gostr \<Rightarrow> gostr \<Rightarrow> gostr \<Rightarrow> graph \<Rightarrow> sanction_row list" where
  "sanction_base arr parr registry organ q g =
     filter (sanction_keeps registry organ q)
       (List.map (sanction_row_of parr g) (arr (match_nodes ''Sanction'' (\<lambda>n. True) g)))"

definition query_sanctions ::
  "(node list \<Rightarrow> node list) \<Rightarrow> (node list \<Rightarrow> node list) \<Rightarrow> gostr \<Rightarrow> gostr \<Rightarrow> gostr \<Rightarrow> gostr \<Rightarrow> int \<Rightarrow> int
     \<Rightarrow> ('z world_scheme, sanction_item listing) prog" where
  "query_sanctions arr parr registry organ q mode page page_size =
     (let (page, page_size, skip) = clamp_paging page page_size default_sanction_page_size;
          rows = sanction_base arr parr registry organ q
      in counted_page (\<lambda>g. length (rows g))
           (\<lambda>g. page_of (sanction_order_by mode) sanction_list_item skip page_size (rows g))
           page page_size)"

section \<open>One sanction\<close>

record sanctioned_party =
  sp_id :: gostr
  sp_name :: gostr
  sp_type :: string

definition sanction_rows :: "gostr \<Rightarrow> graph \<Rightarrow> (node \<times> node option) list" where
  "sanction_rows i g =
     concat (List.map (\<lambda>sa. List.map (Pair sa) (optional (sanction_parties g sa)))
       (match_nodes ''Sanction'' (prop_is ''id'' (PStr i)) g))"

definition sanction_from_node :: "node \<Rightarrow> sanction_facts" where
  "sanction_from_node n =
     (let p = n_props n in
      \<lparr>sf_id = str_prop p ''id'', sf_registry = str_prop p ''registry'', sf_type = str_prop p ''sanction_type'',
       sf_organ = str_prop p ''organ'', sf_start = time_ptr_prop p ''date_start'', sf_end = time_ptr_prop p ''date_end'',
       sf_process = str_prop p ''process_ref'', sf_url = str_prop p ''source_url''\<rparr>)"

definition party_from_node :: "node \<Rightarrow> sanctioned_party" where
  "party_from_node n =
     \<lparr>sp_id = str_prop (n_props n) ''id'', sp_name = str_prop (n_props n) ''name'', sp_type = fst (primary_label (n_labels n))\<rparr>"

definition sanction_step ::
  "node \<times> node option \<Rightarrow> sanction_facts option \<times> sanctioned_party list \<times> gostr set
     \<Rightarrow> sanction_facts option \<times> sanctioned_party list \<times> gostr set" where
  "sanction_step row acc =
     (let (sa, party) = row; (sanction, parties, seen) = acc;
          sanction = (case sanction of None \<Rightarrow> Some (sanction_from_node sa) | Some s \<Rightarrow> Some s)
      in case party of
           None \<Rightarrow> (sanction, parties, seen)
         | Some n \<Rightarrow>
             (let pid = str_prop (n_props n) ''id''
              in if pid = [] \<or> pid \<in> seen then (sanction, parties, seen)
                 else (sanction, parties @ [party_from_node n], insert pid seen)))"

definition sanction_of_rows :: "(node \<times> node option) list \<Rightarrow> (sanction_facts \<times> sanctioned_party list) option" where
  "sanction_of_rows rows =
     (case fold sanction_step rows (None, [], {}) of
        (None, _) \<Rightarrow> None | (Some s, parties, _) \<Rightarrow> Some (s, parties))"

definition query_sanction ::
  "((node \<times> node option) list \<Rightarrow> (node \<times> node option) list) \<Rightarrow> gostr
     \<Rightarrow> ('z world_scheme, (sanction_facts \<times> sanctioned_party list) option) prog" where
  "query_sanction arr i = cypher_read (\<lambda>g. sanction_of_rows (arr (sanction_rows i g)))"

section \<open>Registries\<close>

text \<open>
  \<^verbatim>\<open>RETURN sa.registry, count(sa)\<close> groups by the registry, absent ones together; the loop asserts that
  each group has a string and panics on the group that has none.
\<close>

definition registry_groups :: "node list \<Rightarrow> (gostr option \<times> nat) list" where
  "registry_groups ns =
     List.map (\<lambda>r. (r, length (filter (\<lambda>n. str_or_null n ''registry'' = r) ns)))
       (remdups (List.map (\<lambda>n. str_or_null n ''registry'') ns))"

definition registry_items :: "(gostr option \<times> nat) list \<Rightarrow> err + (gostr \<times> nat) list" where
  "registry_items gs =
     (if None \<in> fst ` set gs then Inl Panic else Inr (List.map (\<lambda>(r, c). (the r, c)) gs))"

definition query_sanction_registries ::
  "(node list \<Rightarrow> node list) \<Rightarrow> ('z world_scheme, (gostr \<times> nat) list) prog" where
  "query_sanction_registries arr =
     bindR (cypher_read (\<lambda>g. registry_items
         (slice_stable (order_by [most_first snd, ascending fst])
            (registry_groups (arr (match_nodes ''Sanction'' (\<lambda>n. True) g))))))
       (\<lambda>r. case r of Inl e \<Rightarrow> throw e | Inr rs \<Rightarrow> ret rs)"

end
