(* ===== verification/Graph_Views.thy ===== *)
theory Graph_Views
  imports Browse
begin

text \<open>
  The graph responses of the public API (\<^verbatim>\<open>backend/db/memgraph/graph.go\<close> and the two graph queries of
  \<^verbatim>\<open>entities_read.go\<close>): the rows each Cypher query returns, in any order the engine likes, and what
  \<^verbatim>\<open>collectGraph\<close> makes of them. A node is known to the driver by its key, a relationship by its place.
\<close>

section \<open>Nodes and relationships as the driver returns them\<close>

type_synonym rel = "nat \<times> edge"

definition rels :: "graph \<Rightarrow> rel list" where
  "rels g = zip [0..<length (g_edges g)] (g_edges g)"

definition node_value :: "node \<Rightarrow> neo_value" where
  "node_value n = VNode \<lparr>nn_elem = itoa (int (n_key n)), nn_labels = n_labels n, nn_props = n_props n\<rparr>"

definition rel_value :: "rel \<Rightarrow> neo_value" where
  "rel_value r =
     VRel \<lparr>nr_elem = itoa (int (fst r)), nr_start = itoa (int (e_from (snd r))), nr_end = itoa (int (e_to (snd r))),
       nr_type = e_type (snd r), nr_props = e_props (snd r)\<rparr>"

text \<open>One relationship of a pattern with the node at its far end; \<^verbatim>\<open>null\<close> leaves both unbound.\<close>

type_synonym hop = "(rel \<times> node) option"

definition hop_values :: "hop \<Rightarrow> neo_value list" where
  "hop_values h = (case h of None \<Rightarrow> [VOther, VOther] | Some (r, n) \<Rightarrow> [node_value n, rel_value r])"

definition hops_in :: "graph \<Rightarrow> string \<Rightarrow> (node \<Rightarrow> bool) \<Rightarrow> node \<Rightarrow> (rel \<times> node) list" where
  "hops_in g t P n =
     [((k, e), m). (k, e) \<leftarrow> rels g, e_type e = t, e_to e = n_key n, m \<leftarrow> g_nodes g, n_key m = e_from e, P m]"

definition hops_out :: "graph \<Rightarrow> string \<Rightarrow> (node \<Rightarrow> bool) \<Rightarrow> node \<Rightarrow> (rel \<times> node) list" where
  "hops_out g t P n =
     [((k, e), m). (k, e) \<leftarrow> rels g, e_type e = t, e_from e = n_key n, m \<leftarrow> g_nodes g, n_key m = e_to e, P m]"

definition hops_both :: "graph \<Rightarrow> string \<Rightarrow> (node \<Rightarrow> bool) \<Rightarrow> node \<Rightarrow> (rel \<times> node) list" where
  "hops_both g t P n = hops_out g t P n @ filter (\<lambda>((k, e), m). e_from e \<noteq> e_to e) (hops_in g t P n)"

definition from_hop :: "(node \<Rightarrow> (rel \<times> node) list) \<Rightarrow> hop \<Rightarrow> (rel \<times> node) list" where
  "from_hop f h = (case h of None \<Rightarrow> [] | Some (r, n) \<Rightarrow> f n)"

section \<open>The queries\<close>

definition scandal_graph_rows :: "gostr \<Rightarrow> graph \<Rightarrow> neo_value list list" where
  "scandal_graph_rows i g =
     [node_value s # concat (List.map hop_values [p, person, o1, s2, lp, p2, person2, o2, src]).
        s \<leftarrow> match_nodes ''Scandal'' (prop_is ''id'' (PStr i)) g,
        p \<leftarrow> optional (hops_in g ''INVOLVED_IN'' (has_label ''Politician'') s),
        person \<leftarrow> optional (hops_in g ''INVOLVED_IN'' (has_label ''Person'') s),
        o1 \<leftarrow> optional (hops_in g ''IMPLICATED_IN'' (has_label ''Organization'') s),
        s2 \<leftarrow> optional (hops_both g ''RELATED_TO'' (has_label ''Scandal'') s),
        lp \<leftarrow> optional (hops_in g ''INVESTIGATES'' (has_label ''LegalProceeding'') s),
        p2 \<leftarrow> optional (from_hop (hops_in g ''DEFENDANT_IN'' (has_label ''Politician'')) lp),
        person2 \<leftarrow> optional (from_hop (hops_in g ''DEFENDANT_IN'' (has_label ''Person'')) lp),
        o2 \<leftarrow> optional (from_hop (hops_in g ''DEFENDANT_IN'' (has_label ''Organization'')) lp),
        src \<leftarrow> optional (hops_in g ''SUPPORTS'' (has_label ''Source'') s)]"

definition politician_graph_rows :: "gostr \<Rightarrow> graph \<Rightarrow> neo_value list list" where
  "politician_graph_rows i g =
     [node_value p # concat (List.map hop_values [s, lp, o1, o2, san]).
        p \<leftarrow> match_nodes ''Politician'' (prop_is ''id'' (PStr i)) g,
        s \<leftarrow> optional (hops_out g ''INVOLVED_IN'' (has_label ''Scandal'') p),
        lp \<leftarrow> optional (hops_out g ''DEFENDANT_IN'' (has_label ''LegalProceeding'') p),
        o1 \<leftarrow> optional (hops_out g ''MEMBER_OF'' (has_label ''Organization'') p),
        o2 \<leftarrow> optional (hops_out g ''CONTROLS'' (has_label ''Organization'') p),
        san \<leftarrow> optional (hops_out g ''SANCTIONED_IN'' (has_label ''Sanction'') p)]"

definition person_graph_rows :: "gostr \<Rightarrow> graph \<Rightarrow> neo_value list list" where
  "person_graph_rows i g =
     [node_value p # concat (List.map hop_values [lp, sa]).
        p \<leftarrow> match_nodes ''Person'' (prop_is ''id'' (PStr i)) g,
        lp \<leftarrow> optional (hops_out g ''DEFENDANT_IN'' (has_label ''LegalProceeding'') p),
        sa \<leftarrow> optional (hops_out g ''SANCTIONED_IN'' (has_label ''Sanction'') p)]"

definition organization_graph_rows :: "gostr \<Rightarrow> graph \<Rightarrow> neo_value list list" where
  "organization_graph_rows i g =
     [node_value n # concat (List.map hop_values [ctrl, cby, lp, sa]).
        n \<leftarrow> match_nodes ''Organization'' (prop_is ''id'' (PStr i)) g,
        ctrl \<leftarrow> optional (hops_out g ''CONTROLS'' (\<lambda>m. True) n),
        cby \<leftarrow> optional (hops_in g ''CONTROLS'' (\<lambda>m. True) n),
        lp \<leftarrow> optional (hops_out g ''DEFENDANT_IN'' (has_label ''LegalProceeding'') n),
        sa \<leftarrow> optional (hops_out g ''SANCTIONED_IN'' (has_label ''Sanction'') n)]"

text \<open>A comparison with \<^verbatim>\<open>null\<close> is not true. Dates compare as the strings they are.\<close>

definition at_most :: "gostr option \<Rightarrow> gostr \<Rightarrow> bool" where
  "at_most x y = (case x of None \<Rightarrow> False | Some s \<Rightarrow> \<not> lex_less y s)"

definition open_or_at_least :: "gostr option \<Rightarrow> gostr \<Rightarrow> bool" where
  "open_or_at_least x y = (case x of None \<Rightarrow> True | Some s \<Rightarrow> \<not> lex_less s y)"

definition str_of :: "props \<Rightarrow> string \<Rightarrow> gostr option" where
  "str_of p k = (case p k of Some (PStr s) \<Rightarrow> Some s | _ \<Rightarrow> None)"

definition timeline_rows :: "gostr \<Rightarrow> gostr \<Rightarrow> graph \<Rightarrow> neo_value list list" where
  "timeline_rows dfrom dto g =
     [node_value s # concat (List.map hop_values [p, person, o1, lp, party, san]).
        s \<leftarrow> match_nodes ''Scandal''
               (\<lambda>n. at_most (str_of (n_props n) ''date_start'') dto \<and> open_or_at_least (str_of (n_props n) ''date_end'') dfrom) g,
        p \<leftarrow> optional (filter (\<lambda>((k, e), m). at_most (str_of (e_props e) ''date_from'') dto
                                          \<and> open_or_at_least (str_of (e_props e) ''date_to'') dfrom)
                 (hops_in g ''INVOLVED_IN'' (has_label ''Politician'') s)),
        person \<leftarrow> optional (hops_in g ''INVOLVED_IN'' (has_label ''Person'') s),
        o1 \<leftarrow> optional (hops_in g ''IMPLICATED_IN'' (has_label ''Organization'') s),
        lp \<leftarrow> optional (hops_in g ''INVESTIGATES'' (has_label ''LegalProceeding'') s),
        party \<leftarrow> optional (from_hop (hops_in g ''DEFENDANT_IN'' (\<lambda>m. True)) lp),
        san \<leftarrow> optional (from_hop (hops_out g ''SANCTIONED_IN'' (has_label ''Sanction'')) party)]"

section \<open>Expanding a node\<close>

text \<open>
  The paths of a variable-length pattern: no relationship twice. A path is the list of its steps, each
  a relationship and the node it leads to.
\<close>

definition steps_from :: "graph \<Rightarrow> nat set \<Rightarrow> node \<Rightarrow> (rel \<times> node) list" where
  "steps_from g used n =
     [((k, e), m). (k, e) \<leftarrow> rels g, k \<notin> used, m \<leftarrow> g_nodes g,
        (e_from e = n_key n \<and> e_to e = n_key m) \<or> (e_to e = n_key n \<and> e_from e = n_key m)]"

fun trails :: "graph \<Rightarrow> nat \<Rightarrow> nat set \<Rightarrow> node \<Rightarrow> (rel \<times> node) list list" where
  "trails g 0 used n = []"
| "trails g (Suc h) used n =
     concat (List.map (\<lambda>(r, m). [(r, m)] # List.map ((#) (r, m)) (trails g h (insert (fst r) used) m)) (steps_from g used n))"

definition path_rows :: "node \<Rightarrow> (rel \<times> node) list \<Rightarrow> (node \<times> rel) list" where
  "path_rows n path = [(x, r). x \<leftarrow> n # List.map snd path, r \<leftarrow> List.map fst path]"

definition clamp_hops :: "int \<Rightarrow> int" where
  "clamp_hops hops = (let hops = (if hops < 1 then 1 else hops) in if 3 < hops then 3 else hops)"

definition expand_pairs :: "gostr \<Rightarrow> int \<Rightarrow> graph \<Rightarrow> (node \<times> rel) list" where
  "expand_pairs i hops g =
     concat (List.map (\<lambda>n. concat (List.map (path_rows n) (trails g (nat (clamp_hops hops)) {} n)))
       (filter (prop_is ''id'' (PStr i)) (g_nodes g)))"

text \<open>\<^verbatim>\<open>RETURN DISTINCT\<close>: each pair of a node and a relationship once.\<close>

fun distinct_by :: "('a \<Rightarrow> 'k) \<Rightarrow> 'k list \<Rightarrow> 'a list \<Rightarrow> 'a list" where
  "distinct_by f seen [] = []"
| "distinct_by f seen (x # xs) =
     (if f x \<in> set seen then distinct_by f seen xs else x # distinct_by f (f x # seen) xs)"

definition pair_key :: "node \<times> rel \<Rightarrow> nat \<times> nat" where
  "pair_key p = (n_key (fst p), fst (snd p))"

definition pair_values :: "node \<times> rel \<Rightarrow> neo_value list" where
  "pair_values p = [node_value (fst p), rel_value (snd p)]"

definition expand_rows :: "gostr \<Rightarrow> int \<Rightarrow> graph \<Rightarrow> neo_value list list" where
  "expand_rows i hops g = List.map pair_values (distinct_by pair_key [] (expand_pairs i hops g))"

section \<open>The responses\<close>

text \<open>The driver hands the rows over in the order of the engine and \<^verbatim>\<open>collectGraph\<close> reads them.\<close>

type_synonym graph_response = "(gostr \<Rightarrow> api_node option) \<times> (gostr \<Rightarrow> api_edge option)"

type_synonym row_order = "neo_value list list \<Rightarrow> neo_value list list"

definition query_graph :: "row_order \<Rightarrow> (graph \<Rightarrow> neo_value list list) \<Rightarrow> ('z world_scheme, graph_response) prog" where
  "query_graph arr rows =
     bindR (cypher_read (\<lambda>g. collect_graph False (arr (rows g))))
       (\<lambda>r. case r of Inl e \<Rightarrow> throw e | Inr v \<Rightarrow> ret v)"

definition query_scandal_graph :: "row_order \<Rightarrow> gostr \<Rightarrow> ('z world_scheme, graph_response) prog" where
  "query_scandal_graph arr i = query_graph arr (scandal_graph_rows i)"

definition query_politician_graph :: "row_order \<Rightarrow> gostr \<Rightarrow> ('z world_scheme, graph_response) prog" where
  "query_politician_graph arr i = query_graph arr (politician_graph_rows i)"

definition query_person_graph :: "row_order \<Rightarrow> gostr \<Rightarrow> ('z world_scheme, graph_response) prog" where
  "query_person_graph arr i = query_graph arr (person_graph_rows i)"

definition query_organization_graph :: "row_order \<Rightarrow> gostr \<Rightarrow> ('z world_scheme, graph_response) prog" where
  "query_organization_graph arr i = query_graph arr (organization_graph_rows i)"

definition query_expand_node :: "row_order \<Rightarrow> gostr \<Rightarrow> int \<Rightarrow> ('z world_scheme, graph_response) prog" where
  "query_expand_node arr i hops = query_graph arr (expand_rows i hops)"

definition query_timeline :: "row_order \<Rightarrow> stamp \<Rightarrow> stamp \<Rightarrow> ('z world_scheme, graph_response) prog" where
  "query_timeline arr dfrom dto =
     query_graph arr (timeline_rows (format_date (date_parts.truncate dfrom)) (format_date (date_parts.truncate dto)))"

text \<open>The search returns nodes alone.\<close>

definition query_search_graph :: "row_order \<Rightarrow> (gostr \<Rightarrow> gostr) \<Rightarrow> gostr \<Rightarrow> gostr \<Rightarrow> ('z world_scheme, graph_response) prog" where
  "query_search_graph arr lw q node_type = query_graph arr (\<lambda>g. List.map (\<lambda>n. [node_value n]) (query_search lw q node_type g))"

end
