(* ===== verification/Public_Api.thy ===== *)
theory Public_Api
  imports Sanction_Reads Graph_Views GoUrl
begin

text \<open>
  The public API (\<^verbatim>\<open>backend/api/handlers/\<close>, the routes of \<^verbatim>\<open>backend/api/main.go\<close>) and the profiles it
  serves (\<^verbatim>\<open>QueryPolitician\<close>, \<^verbatim>\<open>QueryScandal\<close>, \<^verbatim>\<open>QueryPerson\<close>, \<^verbatim>\<open>QueryOrganization\<close>). A request is its route
  with its parameters; an answer is the status with what is serialised. Texts of errors, headers and JSON
  are not part of it.
\<close>

section \<open>Profiles\<close>

record politician =
  pn_id :: gostr
  pn_name :: gostr
  pn_cpf :: gostr
  pn_aliases :: "gostr list"
  pn_party :: gostr
  pn_role :: gostr
  pn_state :: gostr
  pn_profile_urls :: "gostr list"
  pn_photo :: gostr
  pn_photo_source :: gostr
  pn_attribution :: gostr
  pn_active :: bool

definition node_to_polit :: "node \<Rightarrow> politician" where
  "node_to_polit n =
     (let p = n_props n in
      \<lparr>pn_id = str_prop p ''id'', pn_name = str_prop p ''name'', pn_cpf = mask_cpf (str_prop p ''cpf''),
       pn_aliases = list_prop p ''name_aliases'', pn_party = str_prop p ''party_current'',
       pn_role = str_prop p ''role_current'', pn_state = str_prop p ''state'',
       pn_profile_urls = list_prop p ''tse_profile_urls'', pn_photo = str_prop p ''photo_url'',
       pn_photo_source = str_prop p ''photo_source'', pn_attribution = str_prop p ''photo_attribution'',
       pn_active = bool_prop p ''active''\<rparr>)"

record scandal =
  sc_id :: gostr
  sc_name :: gostr
  sc_aliases :: "gostr list"
  sc_description :: gostr
  sc_start :: stamp
  sc_end :: "stamp option"
  sc_amount :: rat
  sc_status :: gostr
  sc_wikipedia :: gostr

definition node_to_scandal :: "node \<Rightarrow> scandal" where
  "node_to_scandal n =
     (let p = n_props n in
      \<lparr>sc_id = str_prop p ''id'', sc_name = str_prop p ''name'', sc_aliases = list_prop p ''aliases'',
       sc_description = str_prop p ''description'', sc_start = time_prop p ''date_start'',
       sc_end = time_ptr_prop p ''date_end'', sc_amount = num_prop p ''total_amount_brl'',
       sc_status = str_prop p ''status'', sc_wikipedia = str_prop p ''wikipedia_url''\<rparr>)"

record person =
  pe_id :: gostr
  pe_name :: gostr
  pe_cpf :: gostr
  pe_source :: gostr
  pe_link :: gostr
  pe_tribunal :: gostr
  pe_comunicacao :: gostr
  pe_ambiguous :: bool

definition node_to_person :: "node \<Rightarrow> person" where
  "node_to_person n =
     (let p = n_props n in
      \<lparr>pe_id = str_prop p ''id'', pe_name = str_prop p ''name'', pe_cpf = mask_cpf (str_prop p ''cpf''),
       pe_source = str_prop p ''provenance_source'', pe_link = str_prop p ''provenance_link'',
       pe_tribunal = str_prop p ''provenance_tribunal'', pe_comunicacao = str_prop p ''provenance_comunicacao_id'',
       pe_ambiguous = (str_prop p ''cpf'' = [])\<rparr>)"

record organization =
  og_id :: gostr
  og_cnpj :: gostr
  og_name :: gostr
  og_active :: bool
  og_type :: gostr
  og_uf :: gostr
  og_capital :: rat
  og_activity :: gostr
  og_url :: gostr
  og_enriched :: bool
  og_photo :: gostr
  og_attribution :: gostr

definition node_to_organization :: "node \<Rightarrow> organization" where
  "node_to_organization n =
     (let p = n_props n in
      \<lparr>og_id = str_prop p ''id'', og_cnpj = str_prop p ''cnpj'', og_name = str_prop p ''name'',
       og_active = bool_prop p ''active'', og_type = str_prop p ''type'', og_uf = str_prop p ''uf'',
       og_capital = num_prop p ''share_capital_brl'', og_activity = str_prop p ''main_activity'',
       og_url = str_prop p ''source_url'', og_enriched = bool_prop p ''enriched'',
       og_photo = str_prop p ''photo_url'', og_attribution = str_prop p ''photo_attribution''\<rparr>)"

text \<open>\<^verbatim>\<open>MATCH (n:l {id: $id}) RETURN n\<close>, read with one \<^verbatim>\<open>result.Next\<close>.\<close>

definition lookup :: "(node list \<Rightarrow> node list) \<Rightarrow> string \<Rightarrow> gostr \<Rightarrow> graph \<Rightarrow> node option" where
  "lookup arr l i g = (case arr (match_nodes l (prop_is ''id'' (PStr i)) g) of [] \<Rightarrow> None | n # _ \<Rightarrow> Some n)"

text \<open>
  \<^verbatim>\<open>QueryPolitician\<close> and \<^verbatim>\<open>QueryScandal\<close> never ask \<^verbatim>\<open>result.Err\<close>: a failure the driver reports with the
  rows rather than with the statement reads as no row.
\<close>

definition query_politician ::
  "(node list \<Rightarrow> node list) \<Rightarrow> gostr \<Rightarrow> ('z world_scheme, politician option) prog" where
  "query_politician arr i =
     cypher_read_unchecked None (\<lambda>g. map_option node_to_polit (lookup arr ''Politician'' i g))"

definition query_scandal ::
  "(node list \<Rightarrow> node list) \<Rightarrow> gostr \<Rightarrow> ('z world_scheme, scandal option) prog" where
  "query_scandal arr i =
     cypher_read_unchecked None (\<lambda>g. map_option node_to_scandal (lookup arr ''Scandal'' i g))"

definition query_person ::
  "(node list \<Rightarrow> node list) \<Rightarrow> row_order \<Rightarrow> gostr \<Rightarrow> ('z world_scheme, (person \<times> graph_response) option) prog" where
  "query_person arr rows i =
     bindR (cypher_read (\<lambda>g. map_option node_to_person (lookup arr ''Person'' i g))) (\<lambda>p. case p of
         None \<Rightarrow> ret None
       | Some p \<Rightarrow> bindR (query_person_graph rows i) (\<lambda>c. ret (Some (p, c))))"

definition query_organization ::
  "(node list \<Rightarrow> node list) \<Rightarrow> row_order \<Rightarrow> gostr \<Rightarrow> ('z world_scheme, (organization \<times> graph_response) option) prog" where
  "query_organization arr rows i =
     bindR (cypher_read (\<lambda>g. map_option node_to_organization (lookup arr ''Organization'' i g))) (\<lambda>p. case p of
         None \<Rightarrow> ret None
       | Some p \<Rightarrow> bindR (query_organization_graph rows i) (\<lambda>c. ret (Some (p, c))))"

section \<open>Requests and answers\<close>

datatype payload =
    Alive
  | GraphResponse graph_response
  | PoliticianList "politician_item listing"
  | PoliticianProfile politician graph_response
  | ScandalList "scandal_item listing"
  | ScandalProfile scandal graph_response
  | SanctionList "sanction_item listing"
  | SanctionDetail sanction_facts "sanctioned_party list"
  | SanctionRegistries "(gostr \<times> nat) list"
  | ProceedingList "proceeding_item listing"
  | ProceedingDetail proceeding_detail
  | PersonProfile person graph_response
  | OrganizationProfile organization graph_response

datatype answer = Ok200 payload | Bad400 | Missing404 | Error500

text \<open>What the engine and the driver decide.\<close>

record engine =
  en_lower :: "gostr \<Rightarrow> gostr"
  en_nodes :: "node list \<Rightarrow> node list"
  en_parties :: "node list \<Rightarrow> node list"
  en_rows :: row_order
  en_case :: "(node \<times> node option \<times> (node \<times> edge) option) list \<Rightarrow> (node \<times> node option \<times> (node \<times> edge) option) list"
  en_sanction :: "(node \<times> node option) list \<Rightarrow> (node \<times> node option) list"

text \<open>
  Every error becomes a 500: the handler writes it, and a panic ends in the recovery of \<^verbatim>\<open>gin.Default\<close>.
\<close>

definition answering :: "('z world_scheme, 'a) prog \<Rightarrow> ('a \<Rightarrow> ('z world_scheme, answer) prog) \<Rightarrow> ('z world_scheme, answer) prog" where
  "answering m k s = (case m s of (Inl e, t) \<Rightarrow> (Inr Error500, t) | (Inr x, t) \<Rightarrow> k x t)"

definition show_as :: "('a \<Rightarrow> payload) \<Rightarrow> 'a \<Rightarrow> ('z world_scheme, answer) prog" where
  "show_as f x = ret (Ok200 (f x))"

definition found :: "('a \<Rightarrow> ('z world_scheme, answer) prog) \<Rightarrow> 'a option \<Rightarrow> ('z world_scheme, answer) prog" where
  "found k x = (case x of None \<Rightarrow> ret Missing404 | Some y \<Rightarrow> k y)"

section \<open>Handlers\<close>

definition get_scandal_graph :: "engine \<Rightarrow> gostr \<Rightarrow> ('z world_scheme, answer) prog" where
  "get_scandal_graph e i = answering (query_scandal_graph (en_rows e) i) (show_as GraphResponse)"

definition get_politician_graph :: "engine \<Rightarrow> gostr \<Rightarrow> ('z world_scheme, answer) prog" where
  "get_politician_graph e i = answering (query_politician_graph (en_rows e) i) (show_as GraphResponse)"

definition expand_node :: "engine \<Rightarrow> gostr \<Rightarrow> gostr \<Rightarrow> ('z world_scheme, answer) prog" where
  "expand_node e i raw =
     (let hops = (if raw = [] then Some 2
                  else case parse_int64 raw of None \<Rightarrow> None | Some n \<Rightarrow> if n < 1 \<or> 5 < n then None else Some n)
      in case hops of None \<Rightarrow> ret Bad400
         | Some n \<Rightarrow> answering (query_expand_node (en_rows e) i n) (show_as GraphResponse))"

definition search_handler :: "engine \<Rightarrow> gostr \<Rightarrow> gostr \<Rightarrow> ('z world_scheme, answer) prog" where
  "search_handler e q node_type =
     (if q = [] then ret Bad400
      else answering (query_search_graph (en_rows e) (en_lower e) q node_type) (show_as GraphResponse))"

definition list_politicians :: "engine \<Rightarrow> (string \<Rightarrow> gostr) \<Rightarrow> ('z world_scheme, answer) prog" where
  "list_politicians e q =
     (let mode = (if q ''sort'' \<noteq> lit ''name'' then lit ''connections'' else q ''sort'')
      in answering (query_politicians (en_lower e) (en_nodes e) (q ''filter'') (q ''party'') (q ''uf'') mode
           (atoi_or_bound (q ''page'')) (atoi_or_bound (q ''page_size''))) (show_as PoliticianList))"

definition get_politician :: "engine \<Rightarrow> gostr \<Rightarrow> ('z world_scheme, answer) prog" where
  "get_politician e i =
     answering (query_politician (en_nodes e) i) (found (\<lambda>p.
       answering (query_politician_graph (en_rows e) i) (show_as (PoliticianProfile p))))"

definition list_scandals_handler :: "engine \<Rightarrow> (string \<Rightarrow> gostr) \<Rightarrow> ('z world_scheme, answer) prog" where
  "list_scandals_handler e q =
     (let mode = (if q ''sort'' \<noteq> lit ''name'' then lit ''date'' else q ''sort'')
      in answering (query_scandals (en_nodes e) mode (atoi_or_bound (q ''page'')) (atoi_or_bound (q ''page_size'')))
           (show_as ScandalList))"

definition get_scandal :: "engine \<Rightarrow> gostr \<Rightarrow> ('z world_scheme, answer) prog" where
  "get_scandal e i =
     answering (query_scandal (en_nodes e) i) (found (\<lambda>p.
       answering (query_scandal_graph (en_rows e) i) (show_as (ScandalProfile p))))"

definition list_sanctions :: "engine \<Rightarrow> (string \<Rightarrow> gostr) \<Rightarrow> ('z world_scheme, answer) prog" where
  "list_sanctions e q =
     (let mode = (if q ''sort'' \<noteq> lit ''registry'' then lit ''date'' else q ''sort'')
      in answering (query_sanctions (en_nodes e) (en_parties e) (q ''registry'') (q ''organ'') (q ''q'') mode
           (atoi_or_bound (q ''page'')) (atoi_or_bound (q ''page_size''))) (show_as SanctionList))"

definition get_sanction :: "engine \<Rightarrow> gostr \<Rightarrow> ('z world_scheme, answer) prog" where
  "get_sanction e raw =
     (let i = (case path_unescape raw of None \<Rightarrow> raw | Some d \<Rightarrow> d)
      in answering (query_sanction (en_sanction e) i) (found (\<lambda>(s, ps). ret (Ok200 (SanctionDetail s ps)))))"

definition get_sanction_registries :: "engine \<Rightarrow> ('z world_scheme, answer) prog" where
  "get_sanction_registries e = answering (query_sanction_registries (en_nodes e)) (show_as SanctionRegistries)"

definition list_proceedings :: "engine \<Rightarrow> (string \<Rightarrow> gostr) \<Rightarrow> ('z world_scheme, answer) prog" where
  "list_proceedings e q =
     (let mode = (if q ''sort'' \<noteq> lit ''court'' then lit ''case_number'' else q ''sort'')
      in answering (query_proceedings (en_lower e) (en_nodes e) (q ''court'') (q ''has_conviction'') (q ''q'') mode
           (atoi_or_bound (q ''page'')) (atoi_or_bound (q ''page_size''))) (show_as ProceedingList))"

definition get_proceeding :: "engine \<Rightarrow> gostr \<Rightarrow> ('z world_scheme, answer) prog" where
  "get_proceeding e i = answering (query_proceeding (en_case e) i) (found (show_as ProceedingDetail))"

definition get_person :: "engine \<Rightarrow> gostr \<Rightarrow> ('z world_scheme, answer) prog" where
  "get_person e i =
     answering (query_person (en_nodes e) (en_rows e) i) (found (\<lambda>(p, c). ret (Ok200 (PersonProfile p c))))"

definition get_organization :: "engine \<Rightarrow> gostr \<Rightarrow> ('z world_scheme, answer) prog" where
  "get_organization e i =
     answering (query_organization (en_nodes e) (en_rows e) i) (found (\<lambda>(p, c). ret (Ok200 (OrganizationProfile p c))))"

definition get_timeline :: "engine \<Rightarrow> gostr \<Rightarrow> gostr \<Rightarrow> ('z world_scheme, answer) prog" where
  "get_timeline e from_raw to_raw =
     (if from_raw = [] \<or> to_raw = [] then ret Bad400
      else case stamp_parse layout_iso from_raw of
          None \<Rightarrow> ret Bad400
        | Some dfrom \<Rightarrow>
            (case stamp_parse layout_iso to_raw of
               None \<Rightarrow> ret Bad400
             | Some dto \<Rightarrow>
                 if instant dto < instant dfrom then ret Bad400
                 else answering (query_timeline (en_rows e) dfrom dto) (show_as GraphResponse)))"

section \<open>Routes\<close>

datatype public_request =
    Health
  | ScandalGraphOf gostr
  | PoliticianGraphOf gostr
  | Expand gostr gostr
  | SearchFor gostr gostr
  | Politicians "string \<Rightarrow> gostr"
  | PoliticianOf gostr
  | Scandals "string \<Rightarrow> gostr"
  | ScandalOf gostr
  | Sanctions "string \<Rightarrow> gostr"
  | SanctionOf gostr
  | Registries
  | Proceedings "string \<Rightarrow> gostr"
  | ProceedingOf gostr
  | PersonOf gostr
  | OrganizationOf gostr
  | TimelineOf gostr gostr

fun serve_public :: "engine \<Rightarrow> public_request \<Rightarrow> ('z world_scheme, answer) prog" where
  "serve_public e Health = ret (Ok200 Alive)"
| "serve_public e (ScandalGraphOf i) = get_scandal_graph e i"
| "serve_public e (PoliticianGraphOf i) = get_politician_graph e i"
| "serve_public e (Expand i hops) = expand_node e i hops"
| "serve_public e (SearchFor q t) = search_handler e q t"
| "serve_public e (Politicians q) = list_politicians e q"
| "serve_public e (PoliticianOf i) = get_politician e i"
| "serve_public e (Scandals q) = list_scandals_handler e q"
| "serve_public e (ScandalOf i) = get_scandal e i"
| "serve_public e (Sanctions q) = list_sanctions e q"
| "serve_public e (SanctionOf i) = get_sanction e i"
| "serve_public e Registries = get_sanction_registries e"
| "serve_public e (Proceedings q) = list_proceedings e q"
| "serve_public e (ProceedingOf i) = get_proceeding e i"
| "serve_public e (PersonOf i) = get_person e i"
| "serve_public e (OrganizationOf i) = get_organization e i"
| "serve_public e (TimelineOf a b) = get_timeline e a b"

end
