(* ===== verification/Graph_Views_Props.thy ===== *)
theory Graph_Views_Props
  imports Graph_Views
begin

text \<open>
  What the graph responses contain. The first part is about \<^verbatim>\<open>collectGraph\<close> on any records made of one
  graph's nodes and relationships, in any order; the second about the rows of each query; the third about
  the paths of an expansion.
\<close>

section \<open>Collecting records\<close>

lemma node_value_inj [simp]: "node_value a = node_value b \<longleftrightarrow> n_key a = n_key b \<and> n_labels a = n_labels b \<and> n_props a = n_props b"
  by (simp add: node_value_def)

lemma node_value_eq: "node_value a = node_value b \<longleftrightarrow> a = (b :: node)"
  by (cases a; cases b) simp

lemma rels_key: "p \<in> set (rels g) \<Longrightarrow> q \<in> set (rels g) \<Longrightarrow> fst p = fst q \<Longrightarrow> p = q"
  by (auto simp: rels_def set_zip)

lemma rels_edges: "p \<in> set (rels g) \<Longrightarrow> snd p \<in> set (g_edges g)"
  by (cases p) (auto simp: rels_def dest: set_zip_rightD)

lemma edges_rels: "e \<in> set (g_edges g) \<Longrightarrow> \<exists>k. (k, e) \<in> set (rels g)"
  by (auto simp: rels_def set_zip in_set_conv_nth)

lemma wf_keys: "wf_graph g \<Longrightarrow> a \<in> set (g_nodes g) \<Longrightarrow> b \<in> set (g_nodes g) \<Longrightarrow> n_key a = n_key b \<Longrightarrow> a = b"
  by (auto simp: wf_graph_def distinct_map dest: inj_onD)

text \<open>What a record may hold, and what the records together must: both ends of a relationship beside it.\<close>

definition values_of :: "graph \<Rightarrow> neo_value set" where
  "values_of g = insert VOther (node_value ` set (g_nodes g) \<union> rel_value ` set (rels g))"

definition seen_in :: "neo_value list list \<Rightarrow> neo_value \<Rightarrow> bool" where
  "seen_in recs v \<longleftrightarrow> (\<exists>R \<in> set recs. v \<in> set R)"

definition seen_beside :: "neo_value list list \<Rightarrow> neo_value \<Rightarrow> neo_value \<Rightarrow> bool" where
  "seen_beside recs r v \<longleftrightarrow> (\<exists>R \<in> set recs. r \<in> set R \<and> v \<in> set R)"

definition joined :: "graph \<Rightarrow> neo_value list list \<Rightarrow> bool" where
  "joined g recs \<longleftrightarrow>
     (\<forall>R \<in> set recs. set R \<subseteq> values_of g) \<and>
     (\<forall>p \<in> set (rels g). seen_in recs (rel_value p) \<longrightarrow>
        (\<forall>a \<in> set (g_nodes g). n_key a = e_from (snd p) \<or> n_key a = e_to (snd p) \<longrightarrow> seen_beside recs (rel_value p) (node_value a)))"

lemma joined_cong: "set recs = set recs' \<Longrightarrow> joined g recs = joined g recs'"
  by (simp add: joined_def seen_in_def seen_beside_def)

lemma collect_node_simps [simp]:
  "c_edges (collect_node v c) = c_edges c"
  "c_nodes (collect_node (VNode n) c) = (c_nodes c)(str_prop (nn_props n) ''id'' \<mapsto> neo_node_to_model n)"
  "c_ids (collect_node (VNode n) c) = (c_ids c)(nn_elem n \<mapsto> str_prop (nn_props n) ''id'')"
  "collect_node (VRel r) c = c" "collect_node VOther c = c"
  by (simp_all add: collect_node_def neo_node_to_model_def Let_def split: neo_value.split)

lemma collect_rel_simps [simp]:
  "c_nodes (collect_rel v c) = c_nodes c" "c_ids (collect_rel v c) = c_ids c"
  "c_edges (collect_rel (VRel r) c) = (c_edges c)(nr_elem r \<mapsto> neo_rel_to_model r (c_ids c))"
  "collect_rel (VNode n) c = c" "collect_rel VOther c = c"
  by (simp_all add: collect_rel_def neo_rel_to_model_def Let_def split: neo_value.split)

lemma nodes_fold_edges [simp]: "c_edges (fold collect_node vs c) = c_edges c"
  by (induction vs arbitrary: c) simp_all

lemma nodes_fold:
  "c_nodes (fold collect_node vs c) i \<noteq> None \<longleftrightarrow>
     c_nodes c i \<noteq> None \<or> (\<exists>n. VNode n \<in> set vs \<and> str_prop (nn_props n) ''id'' = i)"
proof (induction vs arbitrary: c)
  case (Cons v vs)
  then show ?case by (cases v) auto
qed simp

lemma ids_fold:
  "c_ids (fold collect_node vs c) el = c_ids c el \<and> (\<forall>n. VNode n \<in> set vs \<longrightarrow> nn_elem n \<noteq> el) \<or>
   (\<exists>n. VNode n \<in> set vs \<and> nn_elem n = el \<and> c_ids (fold collect_node vs c) el = Some (str_prop (nn_props n) ''id''))"
proof (induction vs arbitrary: c)
  case (Cons v vs)
  from Cons [of "collect_node v c"] show ?case by (cases v) (auto split: if_splits)
qed simp

lemma rels_fold_nodes [simp]:
  "c_nodes (fold collect_rel vs c) = c_nodes c" "c_ids (fold collect_rel vs c) = c_ids c"
  by (induction vs arbitrary: c) simp_all

lemma rels_fold:
  "c_edges (fold collect_rel vs c) i = c_edges c i \<and> (\<forall>r. VRel r \<in> set vs \<longrightarrow> nr_elem r \<noteq> i) \<or>
   (\<exists>r. VRel r \<in> set vs \<and> nr_elem r = i \<and> c_edges (fold collect_rel vs c) i = Some (neo_rel_to_model r (c_ids c)))"
proof (induction vs arbitrary: c)
  case (Cons v vs)
  from Cons [of "collect_rel v c"] show ?case by (cases v) (auto split: if_splits)
qed simp

lemma values_node: "VNode n \<in> values_of g \<Longrightarrow> \<exists>a \<in> set (g_nodes g). VNode n = node_value a"
  by (auto simp: values_of_def node_value_def rel_value_def)

lemma values_rel: "VRel r \<in> values_of g \<Longrightarrow> \<exists>p \<in> set (rels g). VRel r = rel_value p"
  by (auto simp: values_of_def node_value_def rel_value_def)

text \<open>The three maps after some records.\<close>

definition gathered :: "graph \<Rightarrow> neo_value list list \<Rightarrow> collected \<Rightarrow> bool" where
  "gathered g recs c \<longleftrightarrow>
     (\<forall>i. c_nodes c i \<noteq> None \<longleftrightarrow> (\<exists>n \<in> set (g_nodes g). seen_in recs (node_value n) \<and> node_id n = i)) \<and>
     (\<forall>n \<in> set (g_nodes g). seen_in recs (node_value n) \<longrightarrow> c_ids c (itoa (int (n_key n))) = Some (node_id n)) \<and>
     (\<forall>i. c_edges c i \<noteq> None \<longleftrightarrow> (\<exists>p \<in> set (rels g). seen_in recs (rel_value p) \<and> itoa (int (fst p)) = i)) \<and>
     (\<forall>p \<in> set (rels g). \<forall>x. c_edges c (itoa (int (fst p))) = Some x \<longrightarrow> ae_type x = e_type (snd p) \<and>
        (\<forall>n \<in> set (g_nodes g). seen_beside recs (rel_value p) (node_value n) \<longrightarrow>
           (n_key n = e_from (snd p) \<longrightarrow> ae_from x = node_id n) \<and> (n_key n = e_to (snd p) \<longrightarrow> ae_to x = node_id n)))"

lemma seen_append: "seen_in (recs @ [R]) v \<longleftrightarrow> seen_in recs v \<or> v \<in> set R"
  "seen_beside (recs @ [R]) r v \<longleftrightarrow> seen_beside recs r v \<or> r \<in> set R \<and> v \<in> set R"
  by (auto simp: seen_in_def seen_beside_def)

lemma gathered_step:
  assumes wf: "wf_graph g" and R: "set R \<subseteq> values_of g" and c: "gathered g recs c"
  shows "gathered g (recs @ [R]) (collect_record R c)"
proof -
  let ?d = "fold collect_node R c"
  note rf = rels_fold [of R ?d]
  note nf = nodes_fold [of R c]
  have node_in: "VNode n \<in> set R \<Longrightarrow> \<exists>a \<in> set (g_nodes g). VNode n = node_value a" for n
    using R values_node by blast
  have rel_in: "VRel r \<in> set R \<Longrightarrow> \<exists>p \<in> set (rels g). VRel r = rel_value p" for r
    using R values_rel by blast
  have ids: "c_ids ?d (itoa (int (n_key n))) = Some (node_id n)"
    if n: "n \<in> set (g_nodes g)" "seen_in (recs @ [R]) (node_value n)" for n
  proof (cases "c_ids ?d (itoa (int (n_key n))) = c_ids c (itoa (int (n_key n))) \<and> (\<forall>m. VNode m \<in> set R \<longrightarrow> nn_elem m \<noteq> itoa (int (n_key n)))")
    case True
    then have "node_value n \<notin> set R" by (auto simp: node_value_def)
    with True n c show ?thesis by (auto simp: gathered_def seen_append)
  next
    case False
    with ids_fold [of R c "itoa (int (n_key n))"] obtain m where m: "VNode m \<in> set R" "nn_elem m = itoa (int (n_key n))"
      "c_ids ?d (itoa (int (n_key n))) = Some (str_prop (nn_props m) ''id'')" by blast
    from node_in [OF m(1)] obtain a where a: "a \<in> set (g_nodes g)" "VNode m = node_value a" by blast
    then have "n_key a = n_key n" using m(2) by (simp add: node_value_def)
    then have "a = n" using wf_keys [OF wf a(1) n(1)] by simp
    then show ?thesis using m(3) a(2) by (simp add: node_value_def node_id_def)
  qed
  have nodes: "c_nodes ?d i \<noteq> None \<longleftrightarrow> (\<exists>n \<in> set (g_nodes g). seen_in (recs @ [R]) (node_value n) \<and> node_id n = i)" for i
  proof -
    have "(\<exists>n. VNode n \<in> set R \<and> str_prop (nn_props n) ''id'' = i) \<longleftrightarrow> (\<exists>n \<in> set (g_nodes g). node_value n \<in> set R \<and> node_id n = i)"
    proof
      assume "\<exists>n. VNode n \<in> set R \<and> str_prop (nn_props n) ''id'' = i"
      then obtain n where n: "VNode n \<in> set R" "str_prop (nn_props n) ''id'' = i" by blast
      from node_in [OF n(1)] obtain a where "a \<in> set (g_nodes g)" "VNode n = node_value a" by blast
      with n show "\<exists>n \<in> set (g_nodes g). node_value n \<in> set R \<and> node_id n = i"
        by (intro bexI [of _ a]) (auto simp: node_value_def node_id_def)
    qed (auto simp: node_value_def node_id_def)
    with nf [of i] c show ?thesis by (auto simp: gathered_def seen_append)
  qed
  have edges: "c_edges (fold collect_rel R ?d) i \<noteq> None \<longleftrightarrow>
      (\<exists>p \<in> set (rels g). seen_in (recs @ [R]) (rel_value p) \<and> itoa (int (fst p)) = i)" for i
  proof -
    have "(\<exists>r. VRel r \<in> set R \<and> nr_elem r = i) \<longleftrightarrow> (\<exists>p \<in> set (rels g). rel_value p \<in> set R \<and> itoa (int (fst p)) = i)"
    proof
      assume "\<exists>r. VRel r \<in> set R \<and> nr_elem r = i"
      then obtain r where r: "VRel r \<in> set R" "nr_elem r = i" by blast
      from rel_in [OF r(1)] obtain p where "p \<in> set (rels g)" "VRel r = rel_value p" by blast
      with r show "\<exists>p \<in> set (rels g). rel_value p \<in> set R \<and> itoa (int (fst p)) = i"
        by (intro bexI [of _ p]) (auto simp: rel_value_def)
    qed (auto simp: rel_value_def)
    with rf [of i] have "c_edges (fold collect_rel R ?d) i \<noteq> None \<longleftrightarrow>
        c_edges c i \<noteq> None \<or> (\<exists>p \<in> set (rels g). rel_value p \<in> set R \<and> itoa (int (fst p)) = i)" by auto
    moreover have "c_edges c i \<noteq> None \<longleftrightarrow> (\<exists>p \<in> set (rels g). seen_in recs (rel_value p) \<and> itoa (int (fst p)) = i)"
      using c unfolding gathered_def by blast
    ultimately show ?thesis unfolding seen_append by blast
  qed
  have ends: "ae_type x = e_type (snd p) \<and>
      (\<forall>n \<in> set (g_nodes g). seen_beside (recs @ [R]) (rel_value p) (node_value n) \<longrightarrow>
           (n_key n = e_from (snd p) \<longrightarrow> ae_from x = node_id n) \<and> (n_key n = e_to (snd p) \<longrightarrow> ae_to x = node_id n))"
    if ke: "p \<in> set (rels g)" and x: "c_edges (fold collect_rel R ?d) (itoa (int (fst p))) = Some x" for p x
  proof (cases "\<forall>r. VRel r \<in> set R \<longrightarrow> nr_elem r \<noteq> itoa (int (fst p))")
    case True
    then have "rel_value p \<notin> set R" by (auto simp: rel_value_def)
    moreover have "c_edges c (itoa (int (fst p))) = Some x" using True rf [of "itoa (int (fst p))"] x by auto
    ultimately show ?thesis using c ke by (fastforce simp: gathered_def seen_append)
  next
    case False
    with rf [of "itoa (int (fst p))"] x obtain r where r: "VRel r \<in> set R" "nr_elem r = itoa (int (fst p))"
      "x = neo_rel_to_model r (c_ids ?d)" by auto
    from rel_in [OF r(1)] obtain q where q: "q \<in> set (rels g)" "VRel r = rel_value q" by blast
    with r(2) have "fst q = fst p" by (simp add: rel_value_def)
    with q ke have "q = p" by (blast dest: rels_key)
    with q have rr: "nr_start r = itoa (int (e_from (snd p)))" "nr_end r = itoa (int (e_to (snd p)))" "nr_type r = e_type (snd p)"
      by (simp_all add: rel_value_def)
    have "seen_beside (recs @ [R]) v w \<Longrightarrow> seen_in (recs @ [R]) w" for v w by (auto simp: seen_beside_def seen_in_def)
    then show ?thesis
      using ids rr r(3) by (fastforce simp: neo_rel_to_model_def)
  qed
  show ?thesis
    unfolding collect_record_def gathered_def using nodes ids edges ends by simp
qed

lemma gathered_all:
  assumes wf: "wf_graph g"
  shows "\<forall>R \<in> set recs. set R \<subseteq> values_of g \<Longrightarrow>
    gathered g recs (fold collect_record recs \<lparr>c_nodes = Map.empty, c_edges = Map.empty, c_ids = Map.empty\<rparr>)"
proof (induction recs rule: rev_induct)
  case Nil
  show ?case by (simp add: gathered_def seen_in_def)
next
  case (snoc R recs)
  then show ?case using gathered_step [OF wf, of R recs] by simp
qed

text \<open>Both ends of every edge of a response are nodes of the response.\<close>

lemma collect_joined:
  assumes wf: "wf_graph g" and j: "joined g recs" and r: "collect_graph failed recs = Inr (ns, es)"
  shows "(ns i \<noteq> None \<longleftrightarrow> (\<exists>n \<in> set (g_nodes g). seen_in recs (node_value n) \<and> node_id n = i)) \<and>
    (es i = Some x \<longrightarrow> (\<exists>e \<in> set (g_edges g). \<exists>a \<in> set (g_nodes g). \<exists>b \<in> set (g_nodes g).
       e_from e = n_key a \<and> e_to e = n_key b \<and> ae_type x = e_type e \<and> ae_from x = node_id a \<and> ae_to x = node_id b
       \<and> ns (node_id a) \<noteq> None \<and> ns (node_id b) \<noteq> None))"
proof -
  let ?c = "fold collect_record recs \<lparr>c_nodes = Map.empty, c_edges = Map.empty, c_ids = Map.empty\<rparr>"
  have g: "gathered g recs ?c" using j by (intro gathered_all [OF wf]) (simp add: joined_def)
  have ns: "ns = c_nodes ?c" "es = c_edges ?c" using r by (auto simp: collect_graph_def Let_def split: if_splits)
  have nodes: "ns i \<noteq> None \<longleftrightarrow> (\<exists>n \<in> set (g_nodes g). seen_in recs (node_value n) \<and> node_id n = i)" for i
    using g unfolding ns gathered_def by blast
  have "\<exists>e \<in> set (g_edges g). \<exists>a \<in> set (g_nodes g). \<exists>b \<in> set (g_nodes g).
       e_from e = n_key a \<and> e_to e = n_key b \<and> ae_type x = e_type e \<and> ae_from x = node_id a \<and> ae_to x = node_id b
       \<and> ns (node_id a) \<noteq> None \<and> ns (node_id b) \<noteq> None" if x: "es i = Some x"
  proof -
    have "c_edges ?c i \<noteq> None" using x ns by simp
    then obtain p where p: "p \<in> set (rels g)" "seen_in recs (rel_value p)" "itoa (int (fst p)) = i"
      using g unfolding gathered_def by blast
    have e: "snd p \<in> set (g_edges g)" by (rule rels_edges [OF p(1)])
    then obtain a b where ab: "a \<in> set (g_nodes g)" "b \<in> set (g_nodes g)" "e_from (snd p) = n_key a" "e_to (snd p) = n_key b"
      using wf by (fastforce simp: wf_graph_def)
    then have s: "seen_beside recs (rel_value p) (node_value a)" "seen_beside recs (rel_value p) (node_value b)"
      using j p(1,2) by (simp_all add: joined_def)
    have "c_edges ?c (itoa (int (fst p))) = Some x" using x ns p(3) by simp
    then have "ae_type x = e_type (snd p) \<and> (\<forall>n \<in> set (g_nodes g). seen_beside recs (rel_value p) (node_value n) \<longrightarrow>
           (n_key n = e_from (snd p) \<longrightarrow> ae_from x = node_id n) \<and> (n_key n = e_to (snd p) \<longrightarrow> ae_to x = node_id n))"
      using g p(1) unfolding gathered_def by blast
    then have "ae_type x = e_type (snd p)" "ae_from x = node_id a" "ae_to x = node_id b" using ab s by auto
    moreover have "ns (node_id a) \<noteq> None" "ns (node_id b) \<noteq> None"
      unfolding nodes using ab s by (auto simp: seen_beside_def seen_in_def)
    ultimately show ?thesis using e ab by blast
  qed
  with nodes show ?thesis by blast
qed


section \<open>The rows of the queries\<close>

definition row_closed :: "graph \<Rightarrow> neo_value list \<Rightarrow> bool" where
  "row_closed g R \<longleftrightarrow> set R \<subseteq> values_of g \<and>
     (\<forall>p \<in> set (rels g). rel_value p \<in> set R \<longrightarrow>
        (\<forall>a \<in> set (g_nodes g). n_key a = e_from (snd p) \<or> n_key a = e_to (snd p) \<longrightarrow> node_value a \<in> set R))"

lemma joined_rows: "(\<And>R. R \<in> set recs \<Longrightarrow> row_closed g R) \<Longrightarrow> joined g recs"
  by (fastforce simp: joined_def row_closed_def seen_in_def seen_beside_def)

text \<open>A step of a pattern that starts from one of the nodes \<open>N\<close>.\<close>

definition hop_ok :: "graph \<Rightarrow> node set \<Rightarrow> hop \<Rightarrow> bool" where
  "hop_ok g N h \<longleftrightarrow>
     (case h of None \<Rightarrow> True
      | Some (p, m) \<Rightarrow> p \<in> set (rels g) \<and> m \<in> set (g_nodes g) \<and>
          (\<exists>n \<in> N. {e_from (snd p), e_to (snd p)} = {n_key n, n_key m}))"

definition row_nodes :: "node \<Rightarrow> hop list \<Rightarrow> node set" where
  "row_nodes n hs = insert n {m. \<exists>p. Some (p, m) \<in> set hs}"

lemma hop_values_set:
  "node_value n \<in> set (hop_values h) \<longleftrightarrow> (\<exists>p. h = Some (p, n))"
  "rel_value r \<in> set (hop_values h) \<longleftrightarrow> (\<exists>p m. h = Some (p, m) \<and> rel_value r = rel_value p)"
  by (auto simp: hop_values_def rel_value_def node_value_eq split: option.splits) (simp_all add: node_value_def)

lemma row_closedI:
  assumes wf: "wf_graph g" and n: "n \<in> set (g_nodes g)" and hs: "\<forall>h \<in> set hs. hop_ok g (row_nodes n hs) h"
  shows "row_closed g (node_value n # concat (List.map hop_values hs))"
proof -
  let ?R = "node_value n # concat (List.map hop_values hs)"
  have N: "row_nodes n hs \<subseteq> set (g_nodes g)"
    using n hs by (fastforce simp: row_nodes_def hop_ok_def)
  have V: "node_value m \<in> set ?R" if "m \<in> row_nodes n hs" for m
    using that by (fastforce simp: row_nodes_def hop_values_set)
  have "set (hop_values h) \<subseteq> values_of g" if "h \<in> set hs" for h
    using hs that by (fastforce simp: hop_values_def values_of_def hop_ok_def split: option.splits)
  then have "set ?R \<subseteq> values_of g" using n by (auto simp: values_of_def)
  moreover have "node_value a \<in> set ?R"
    if p: "p \<in> set (rels g)" "rel_value p \<in> set ?R" and a: "a \<in> set (g_nodes g)" "n_key a = e_from (snd p) \<or> n_key a = e_to (snd p)" for p a
  proof -
    from p(2) obtain h q m where h: "h \<in> set hs" "h = Some (q, m)" "rel_value p = rel_value q"
      by (auto simp: hop_values_set) (auto simp: node_value_def rel_value_def)
    with hs have q: "q \<in> set (rels g)" "hop_ok g (row_nodes n hs) (Some (q, m))" by (auto simp: hop_ok_def)
    then have "p = q" using h(3) p(1) by (auto simp: rel_value_def dest: rels_key)
    with q(2) obtain k where k: "k \<in> row_nodes n hs" "{e_from (snd p), e_to (snd p)} = {n_key k, n_key m}"
      by (auto simp: hop_ok_def)
    have m: "m \<in> row_nodes n hs" using h(1,2) unfolding row_nodes_def by blast
    have "n_key a \<in> {n_key k, n_key m}" using a(2) k(2) by blast
    then have "a = k \<or> a = m" using wf_keys [OF wf a(1)] k(1) m N by blast
    then have "a \<in> row_nodes n hs" using k(1) m by blast
    then show ?thesis by (rule V)
  qed
  ultimately show ?thesis by (simp add: row_closed_def)
qed

lemma hops_in_iff: "(p, m) \<in> set (hops_in g t P n) \<longleftrightarrow>
    p \<in> set (rels g) \<and> e_type (snd p) = t \<and> e_to (snd p) = n_key n \<and> m \<in> set (g_nodes g) \<and> n_key m = e_from (snd p) \<and> P m"
  by (cases p) (auto simp: hops_in_def)

lemma hops_out_iff: "(p, m) \<in> set (hops_out g t P n) \<longleftrightarrow>
    p \<in> set (rels g) \<and> e_type (snd p) = t \<and> e_from (snd p) = n_key n \<and> m \<in> set (g_nodes g) \<and> n_key m = e_to (snd p) \<and> P m"
  by (cases p) (auto simp: hops_out_def)

lemma optional_iff: "h \<in> set (optional xs) \<longleftrightarrow> (h = None \<and> xs = []) \<or> (\<exists>x \<in> set xs. h = Some x)"
  by (auto simp: optional_def)

lemma hop_okI:
  "h \<in> set (optional (hops_in g t P n)) \<Longrightarrow> n \<in> N \<Longrightarrow> hop_ok g N h"
  "h \<in> set (optional (hops_out g t P n)) \<Longrightarrow> n \<in> N \<Longrightarrow> hop_ok g N h"
  "h \<in> set (optional (hops_both g t P n)) \<Longrightarrow> n \<in> N \<Longrightarrow> hop_ok g N h"
  "h \<in> set (optional (filter Q (hops_in g t P n))) \<Longrightarrow> n \<in> N \<Longrightarrow> hop_ok g N h"
  unfolding optional_iff hop_ok_def hops_both_def by (auto simp: hops_in_iff hops_out_iff)

lemma from_hop_okI:
  assumes "k \<in> set hs"
  shows "h \<in> set (optional (from_hop (hops_in g t P) k)) \<Longrightarrow> hop_ok g (row_nodes n hs) h"
    and "h \<in> set (optional (from_hop (hops_out g t P) k)) \<Longrightarrow> hop_ok g (row_nodes n hs) h"
proof -
  have "m \<in> row_nodes n hs" if "k = Some (p, m)" for p m using assms that unfolding row_nodes_def by blast
  then show "h \<in> set (optional (from_hop (hops_in g t P) k)) \<Longrightarrow> hop_ok g (row_nodes n hs) h"
    "h \<in> set (optional (from_hop (hops_out g t P) k)) \<Longrightarrow> hop_ok g (row_nodes n hs) h"
    by (cases k; fastforce simp: from_hop_def optional_def hop_ok_def intro: hop_okI)+
qed

lemma first_in_row: "n \<in> row_nodes n hs"
  by (simp add: row_nodes_def)

lemmas hop_rules = hop_okI [OF _ first_in_row] from_hop_okI [rotated]

lemma scandal_rows_ok:
  assumes wf: "wf_graph g" and R: "R \<in> set (scandal_graph_rows i g)"
  shows "row_closed g R"
proof -
  from R obtain s p person o1 s2 lp p2 person2 o2 src where
    "s \<in> set (g_nodes g)" "R = node_value s # concat (List.map hop_values [p, person, o1, s2, lp, p2, person2, o2, src])"
    "p \<in> set (optional (hops_in g ''INVOLVED_IN'' (has_label ''Politician'') s))"
    "person \<in> set (optional (hops_in g ''INVOLVED_IN'' (has_label ''Person'') s))"
    "o1 \<in> set (optional (hops_in g ''IMPLICATED_IN'' (has_label ''Organization'') s))"
    "s2 \<in> set (optional (hops_both g ''RELATED_TO'' (has_label ''Scandal'') s))"
    "lp \<in> set (optional (hops_in g ''INVESTIGATES'' (has_label ''LegalProceeding'') s))"
    "p2 \<in> set (optional (from_hop (hops_in g ''DEFENDANT_IN'' (has_label ''Politician'')) lp))"
    "person2 \<in> set (optional (from_hop (hops_in g ''DEFENDANT_IN'' (has_label ''Person'')) lp))"
    "o2 \<in> set (optional (from_hop (hops_in g ''DEFENDANT_IN'' (has_label ''Organization'')) lp))"
    "src \<in> set (optional (hops_in g ''SUPPORTS'' (has_label ''Source'') s))"
    unfolding scandal_graph_rows_def match_nodes_def set_concat set_map UN_iff by (auto simp del: concat.simps List.list.map)
  then show ?thesis
    by (simp only:) (rule row_closedI [OF wf], assumption, auto intro: hop_rules)
qed

lemma politician_rows_ok:
  assumes wf: "wf_graph g" and R: "R \<in> set (politician_graph_rows i g)"
  shows "row_closed g R"
proof -
  from R obtain p s lp o1 o2 san where
    "p \<in> set (g_nodes g)" "R = node_value p # concat (List.map hop_values [s, lp, o1, o2, san])"
    "s \<in> set (optional (hops_out g ''INVOLVED_IN'' (has_label ''Scandal'') p))"
    "lp \<in> set (optional (hops_out g ''DEFENDANT_IN'' (has_label ''LegalProceeding'') p))"
    "o1 \<in> set (optional (hops_out g ''MEMBER_OF'' (has_label ''Organization'') p))"
    "o2 \<in> set (optional (hops_out g ''CONTROLS'' (has_label ''Organization'') p))"
    "san \<in> set (optional (hops_out g ''SANCTIONED_IN'' (has_label ''Sanction'') p))"
    unfolding politician_graph_rows_def match_nodes_def set_concat set_map UN_iff by (auto simp del: concat.simps List.list.map)
  then show ?thesis
    by (simp only:) (rule row_closedI [OF wf], assumption, auto intro: hop_rules)
qed

lemma person_rows_ok:
  assumes wf: "wf_graph g" and R: "R \<in> set (person_graph_rows i g)"
  shows "row_closed g R"
proof -
  from R obtain p lp sa where
    "p \<in> set (g_nodes g)" "R = node_value p # concat (List.map hop_values [lp, sa])"
    "lp \<in> set (optional (hops_out g ''DEFENDANT_IN'' (has_label ''LegalProceeding'') p))"
    "sa \<in> set (optional (hops_out g ''SANCTIONED_IN'' (has_label ''Sanction'') p))"
    unfolding person_graph_rows_def match_nodes_def set_concat set_map UN_iff by (auto simp del: concat.simps List.list.map)
  then show ?thesis
    by (simp only:) (rule row_closedI [OF wf], assumption, auto intro: hop_rules)
qed

lemma organization_rows_ok:
  assumes wf: "wf_graph g" and R: "R \<in> set (organization_graph_rows i g)"
  shows "row_closed g R"
proof -
  from R obtain n ctrl cby lp sa where
    "n \<in> set (g_nodes g)" "R = node_value n # concat (List.map hop_values [ctrl, cby, lp, sa])"
    "ctrl \<in> set (optional (hops_out g ''CONTROLS'' (\<lambda>m. True) n))"
    "cby \<in> set (optional (hops_in g ''CONTROLS'' (\<lambda>m. True) n))"
    "lp \<in> set (optional (hops_out g ''DEFENDANT_IN'' (has_label ''LegalProceeding'') n))"
    "sa \<in> set (optional (hops_out g ''SANCTIONED_IN'' (has_label ''Sanction'') n))"
    unfolding organization_graph_rows_def match_nodes_def set_concat set_map UN_iff by (auto simp del: concat.simps List.list.map)
  then show ?thesis
    by (simp only:) (rule row_closedI [OF wf], assumption, auto intro: hop_rules)
qed

lemma timeline_rows_ok:
  assumes wf: "wf_graph g" and R: "R \<in> set (timeline_rows dfrom dto g)"
  shows "row_closed g R"
proof -
  from R obtain s p person o1 lp party san where
    "s \<in> set (g_nodes g)" "R = node_value s # concat (List.map hop_values [p, person, o1, lp, party, san])"
    "p \<in> set (optional (filter (\<lambda>((k, e), m). at_most (str_of (e_props e) ''date_from'') dto \<and> open_or_at_least (str_of (e_props e) ''date_to'') dfrom) (hops_in g ''INVOLVED_IN'' (has_label ''Politician'') s)))"
    "person \<in> set (optional (hops_in g ''INVOLVED_IN'' (has_label ''Person'') s))"
    "o1 \<in> set (optional (hops_in g ''IMPLICATED_IN'' (has_label ''Organization'') s))"
    "lp \<in> set (optional (hops_in g ''INVESTIGATES'' (has_label ''LegalProceeding'') s))"
    "party \<in> set (optional (from_hop (hops_in g ''DEFENDANT_IN'' (\<lambda>m. True)) lp))"
    "san \<in> set (optional (from_hop (hops_out g ''SANCTIONED_IN'' (has_label ''Sanction'')) party))"
    unfolding timeline_rows_def match_nodes_def set_concat set_map UN_iff by (auto simp del: concat.simps List.list.map)
  then show ?thesis
    by (simp only:) (rule row_closedI [OF wf], assumption, auto intro: hop_rules)
qed

section \<open>Expansion\<close>

lemma steps_iff: "(p, m) \<in> set (steps_from g used n) \<longleftrightarrow>
    p \<in> set (rels g) \<and> fst p \<notin> used \<and> m \<in> set (g_nodes g) \<and>
    ((e_from (snd p) = n_key n \<and> e_to (snd p) = n_key m) \<or> (e_to (snd p) = n_key n \<and> e_from (snd p) = n_key m))"
  by (cases p) (auto simp: steps_from_def)

fun walk :: "graph \<Rightarrow> node \<Rightarrow> (rel \<times> node) list \<Rightarrow> bool" where
  "walk g n [] = True"
| "walk g n ((p, m) # w) = ((p, m) \<in> set (steps_from g {} n) \<and> walk g m w)"

definition last_node :: "node \<Rightarrow> (rel \<times> node) list \<Rightarrow> node" where
  "last_node n w = last (n # List.map snd w)"

definition places :: "(rel \<times> node) list \<Rightarrow> nat list" where
  "places w = List.map (\<lambda>s. fst (fst s)) w"

lemma last_node_simps [simp]: "last_node n [] = n" "last_node n (s # w) = last_node (snd s) w"
  "last_node n (u @ v) = last_node (last_node n u) v"
  by (auto simp: last_node_def)

lemma walk_append: "walk g n (u @ v) \<longleftrightarrow> walk g n u \<and> walk g (last_node n u) v"
  by (induction g n u rule: walk.induct) auto

lemma walk_nodes: "walk g n w \<Longrightarrow> n \<in> set (g_nodes g) \<Longrightarrow> set (List.map snd w) \<subseteq> set (g_nodes g) \<and> last_node n w \<in> set (g_nodes g)"
  by (induction g n w rule: walk.induct) (auto simp: steps_iff)

lemma trails_Cons: "s # v \<in> set (trails g (Suc h) used n) \<longleftrightarrow>
    s \<in> set (steps_from g used n) \<and> (v = [] \<or> v \<in> set (trails g h (insert (fst (fst s)) used) (snd s)))"
  by (simp add: case_prod_beta image_iff) blast

lemma trails_iff:
  "w \<in> set (trails g h used n) \<longleftrightarrow>
     w \<noteq> [] \<and> length w \<le> h \<and> walk g n w \<and> distinct (places w) \<and> set (places w) \<inter> used = {}"
proof (induction h arbitrary: used n w)
  case (Suc h)
  show ?case
  proof (cases w)
    case (Cons s v)
    obtain p m where s: "s = (p, m)" by fastforce
    show ?thesis
      unfolding Cons s trails_Cons Suc.IH by (cases v) (auto simp: places_def steps_iff)
  qed auto
qed auto

text \<open>A walk that uses a relationship twice can be cut short.\<close>

lemma cut_walk:
  assumes wf: "wf_graph g" and n: "n \<in> set (g_nodes g)" and w: "walk g n w" and d: "\<not> distinct (places w)"
  shows "\<exists>v. walk g n v \<and> last_node n v = last_node n w \<and> length v < length w"
proof -
  from d obtain xs y ys zs where "places w = xs @ [y] @ ys @ [y] @ zs" using not_distinct_decomp by blast
  then obtain u w1 where w1: "w = u @ w1" "places w1 = y # ys @ y # zs"
    unfolding places_def by (auto simp: map_eq_append_conv)
  then obtain s w2 where w2: "w1 = s # w2" "fst (fst s) = y" "places w2 = ys @ y # zs"
    unfolding places_def by (auto simp: map_eq_Cons_conv)
  then obtain v w3 where w3: "w2 = v @ w3" "places w3 = y # zs"
    unfolding places_def by (auto simp: map_eq_append_conv)
  then obtain r t where "w3 = r # t" "fst (fst r) = y" unfolding places_def by (auto simp: map_eq_Cons_conv)
  with w1 w2 w3 have "w = u @ s # v @ r # t" "fst (fst s) = fst (fst r)" by simp_all
  then obtain p m q l where e: "w = u @ (p, m) # v @ (q, l) # t" and y: "fst p = fst q" by (cases s; cases r) auto
  let ?a = "last_node n u" and ?b = "last_node m v"
  have pq: "(p, m) \<in> set (steps_from g {} ?a)" "(q, l) \<in> set (steps_from g {} ?b)" "walk g n u" "walk g l t"
    using w unfolding e by (simp_all add: walk_append)
  then have "p = q" using y by (auto simp: steps_iff dest: rels_key)
  have a: "?a \<in> set (g_nodes g)" using walk_nodes [OF pq(3) n] by blast
  have "n_key l = n_key m \<or> n_key l = n_key ?a" using pq(1,2) \<open>p = q\<close> by (auto simp: steps_iff)
  then have "l = m \<or> l = ?a" using wf_keys [OF wf] a pq(1,2) by (auto simp: steps_iff)
  then show ?thesis
  proof
    assume "l = m"
    then show ?thesis using pq unfolding e by (intro exI [of _ "u @ (p, m) # t"]) (simp add: walk_append)
  next
    assume "l = ?a"
    then show ?thesis using pq unfolding e by (intro exI [of _ "u @ t"]) (simp add: walk_append)
  qed
qed

lemma short_walk:
  assumes wf: "wf_graph g" and n: "n \<in> set (g_nodes g)"
  shows "walk g n w \<Longrightarrow> \<exists>v. walk g n v \<and> last_node n v = last_node n w \<and> length v \<le> length w \<and> distinct (places v)"
proof (induction "length w" arbitrary: w rule: less_induct)
  case less
  show ?case
  proof (cases "distinct (places w)")
    case False
    from cut_walk [OF wf n less.prems False] obtain v where
      v: "walk g n v" "last_node n v = last_node n w" "length v < length w" by blast
    from less.hyps [OF v(3,1)] v(2,3) show ?thesis by (metis le_trans less_imp_le_nat)
  qed (use less.prems in blast)
qed

text \<open>The reference: so many steps along relationships, in either direction.\<close>

definition adjacent :: "graph \<Rightarrow> (nat \<times> nat) set" where
  "adjacent g = {(a, b). \<exists>e \<in> set (g_edges g). (e_from e = a \<and> e_to e = b) \<or> (e_to e = a \<and> e_from e = b)}"

lemma walk_relpow: "walk g n w \<Longrightarrow> (n_key n, n_key (last_node n w)) \<in> adjacent g ^^ length w"
proof (induction g n w rule: walk.induct)
  case (2 g n p m w)
  then have "(n_key n, n_key m) \<in> adjacent g" by (auto simp: adjacent_def steps_iff dest: rels_edges)
  from relpow_Suc_I2 [OF this] 2 show ?case by simp
qed simp

lemma relpow_walk:
  assumes wf: "wf_graph g"
  shows "(n_key n, b) \<in> adjacent g ^^ k \<Longrightarrow> n \<in> set (g_nodes g) \<Longrightarrow> \<exists>w. walk g n w \<and> length w = k \<and> n_key (last_node n w) = b"
proof (induction k arbitrary: n)
  case (Suc k)
  from Suc.prems(1) obtain c where c: "(n_key n, c) \<in> adjacent g" "(c, b) \<in> adjacent g ^^ k" by (rule relpow_Suc_E2)
  from c(1) obtain e where e: "e \<in> set (g_edges g)" "(e_from e = n_key n \<and> e_to e = c) \<or> (e_to e = n_key n \<and> e_from e = c)"
    by (auto simp: adjacent_def)
  then obtain m where m: "m \<in> set (g_nodes g)" "n_key m = c" using wf by (fastforce simp: wf_graph_def)
  from edges_rels [OF e(1)] obtain j where "(j, e) \<in> set (rels g)" by blast
  with e m have s: "((j, e), m) \<in> set (steps_from g {} n)" by (auto simp: steps_iff)
  from Suc.IH [of m] c(2) m obtain w where "walk g m w" "length w = k" "n_key (last_node m w) = b" by auto
  with s show ?case by (intro exI [of _ "((j, e), m) # w"]) simp
qed simp

lemma expand_reach:
  assumes wf: "wf_graph g" and n: "n \<in> set (g_nodes g)" and x: "x \<in> set (g_nodes g)" and h: "0 < h"
  shows "(\<exists>w \<in> set (trails g h {} n). x \<in> set (n # List.map snd w)) \<longleftrightarrow>
    steps_from g {} n \<noteq> [] \<and> (\<exists>k \<le> h. (n_key n, n_key x) \<in> adjacent g ^^ k)"
proof
  assume "\<exists>w \<in> set (trails g h {} n). x \<in> set (n # List.map snd w)"
  then obtain w where "w \<in> set (trails g h {} n)" "x \<in> set (n # List.map snd w)" by blast
  then have w: "w \<noteq> []" "length w \<le> h" "walk g n w" "x \<in> set (n # List.map snd w)" unfolding trails_iff by blast+
  from w(1,3) have s: "steps_from g {} n \<noteq> []" by (cases w) auto
  show "steps_from g {} n \<noteq> [] \<and> (\<exists>k \<le> h. (n_key n, n_key x) \<in> adjacent g ^^ k)"
  proof (cases "x = n")
    case True
    then show ?thesis using s by (intro conjI exI [of _ 0]) auto
  next
    case False
    with w(4) obtain p where "(p, x) \<in> set w" by auto
    then obtain u v where "w = u @ (p, x) # v" by (meson split_list)
    then have "walk g n (u @ [(p, x)])" "length (u @ [(p, x)]) \<le> h" using w by (auto simp: walk_append)
    with walk_relpow [of g n "u @ [(p, x)]"] show ?thesis using s by (auto intro!: exI [of _ "Suc (length u)"])
  qed
next
  assume r: "steps_from g {} n \<noteq> [] \<and> (\<exists>k \<le> h. (n_key n, n_key x) \<in> adjacent g ^^ k)"
  then obtain k where k: "k \<le> h" "(n_key n, n_key x) \<in> adjacent g ^^ k" by blast
  from relpow_walk [OF wf k(2) n] obtain w where "walk g n w" "length w = k" "n_key (last_node n w) = n_key x" by blast
  with short_walk [OF wf n] obtain v where v: "walk g n v" "last_node n v = last_node n w" "length v \<le> k" "distinct (places v)"
    by blast
  with wf_keys [OF wf _ x] walk_nodes [OF v(1) n] have l: "last_node n v = x" using \<open>n_key (last_node n w) = n_key x\<close> by metis
  show "\<exists>w \<in> set (trails g h {} n). x \<in> set (n # List.map snd w)"
  proof (cases "v = []")
    case True
    obtain p m where pm: "(p, m) \<in> set (steps_from g {} n)" using r by (cases "steps_from g {} n") auto
    then have "[(p, m)] \<in> set (trails g h {} n)" using h by (simp add: trails_iff places_def)
    then show ?thesis using True l by (intro bexI) auto
  next
    case False
    then have "v \<in> set (trails g h {} n)" using v k by (simp add: trails_iff)
    moreover have "x \<in> set (n # List.map snd v)" using l unfolding last_node_def by (metis last_in_set list.distinct(1))
    ultimately show ?thesis by blast
  qed
qed

end
