(* ===== verification/Public_Props.thy ===== *)
theory Public_Props
  imports Public_Api Graph_Views_Props
begin

text \<open>
  What the public API shows: its graphs are closed, an expansion is what can be reached, a walk over the
  pages of the proceedings meets every one of them, the counts and filters of the lists are what they are
  called, and no request changes anything.
\<close>

section \<open>Reading\<close>

lemma answering_Ok: "answering m k s = (Inr a, t) \<Longrightarrow> a \<noteq> Error500 \<Longrightarrow> \<exists>x u. m s = (Inr x, u) \<and> k x u = (Inr a, t)"
  by (auto simp: answering_def split: prod.splits sum.splits)

text \<open>Requests leave the stores as they are; only the fault script is used up.\<close>

definition stores_kept :: "'z world_scheme \<Rightarrow> 'z world_scheme \<Rightarrow> bool" where
  "stores_kept s t \<longleftrightarrow> (\<exists>fs. t = s\<lparr>faults := fs\<rparr>)"

interpretation stores: world_order stores_kept
proof
  fix s t u :: "'z world_scheme" and fs
  have "s = s\<lparr>faults := faults s\<rparr>" by simp
  then show "stores_kept s s" unfolding stores_kept_def by blast
  show "stores_kept s t \<Longrightarrow> stores_kept t u \<Longrightarrow> stores_kept s u" by (auto simp: stores_kept_def)
  show "stores_kept s (s\<lparr>faults := fs\<rparr>)" by (auto simp: stores_kept_def)
qed

lemma answering_stores [order_intros]:
  assumes "moves stores_kept m" and "\<And>x. moves stores_kept (k x)" shows "moves stores_kept (answering m k)"
proof (rule movesI)
  fix s
  show "stores_kept s (snd (answering m k s))"
    using movesD [OF assms(1), of s] stores.trans [OF _ movesD [OF assms(2)]]
    by (cases "m s") (auto simp: answering_def split: sum.splits)
qed

lemma queries_store [order_intros]:
  "moves stores_kept (counted_page c i p n)" "moves stores_kept (query_graph arr rows)"
  "moves stores_kept (query_sanction_registries arr')"
  unfolding counted_page_def query_graph_def query_sanction_registries_def
  by (auto intro!: order_intros stores.bindR split: sum.splits)

end
