(* ===== verification/Public_Graph.thy ===== *)
theory Public_Graph
  imports Public_Props
begin

text \<open>
  The graph responses of the public API: an edge is never show_as without the nodes it joins, and an
  expansion is the neighbourhood of the node.
\<close>

section \<open>The rows of an expansion\<close>

lemma distinct_by_set: "inj_on f (set xs) \<Longrightarrow> set (distinct_by f seen xs) = {x \<in> set xs. f x \<notin> set seen}"
proof (induction f seen xs rule: distinct_by.induct)
  case (2 f seen x xs)
  then show ?case by (auto simp: inj_on_def)
qed simp

lemma expand_pairs_iff: "(x, p) \<in> set (expand_pairs i hops g) \<longleftrightarrow>
    (\<exists>n \<in> set (g_nodes g). prop_is ''id'' (PStr i) n \<and>
       (\<exists>w \<in> set (trails g (nat (clamp_hops hops)) {} n). x \<in> set (n # List.map snd w) \<and> p \<in> set (List.map fst w)))"
  by (simp add: expand_pairs_def path_rows_def) blast

lemma walk_rels: "walk g n w \<Longrightarrow> p \<in> set (List.map fst w) \<Longrightarrow> p \<in> set (rels g) \<and>
    (\<exists>a \<in> set (n # List.map snd w). \<exists>b \<in> set (n # List.map snd w). e_from (snd p) = n_key a \<and> e_to (snd p) = n_key b)"
  by (induction g n w rule: walk.induct) (auto simp: steps_iff)

lemma expand_pair_walk:
  assumes "(x, p) \<in> set (expand_pairs i hops g)"
  obtains n w where "n \<in> set (g_nodes g)" "walk g n w" "x \<in> set (n # List.map snd w)" "p \<in> set (List.map fst w)"
proof -
  from assms obtain n w where "n \<in> set (g_nodes g)" "w \<in> set (trails g (nat (clamp_hops hops)) {} n)"
    "x \<in> set (n # List.map snd w)" "p \<in> set (List.map fst w)"
    unfolding expand_pairs_iff by blast
  with that [of n w] trails_iff show thesis by blast
qed

lemma expand_values:
  assumes wf: "wf_graph g"
  shows "set (expand_rows i hops g) = pair_values ` set (expand_pairs i hops g)"
proof -
  have "x \<in> set (g_nodes g) \<and> p \<in> set (rels g)" if xp: "(x, p) \<in> set (expand_pairs i hops g)" for x p
  proof -
    from xp obtain n w where n: "n \<in> set (g_nodes g)" and w: "walk g n w" "x \<in> set (n # List.map snd w)" "p \<in> set (List.map fst w)"
      by (rule expand_pair_walk)
    then show ?thesis using walk_nodes [OF w(1) n] walk_rels [OF w(1,3)] by auto
  qed
  note inside = this
  have "inj_on pair_key (set (expand_pairs i hops g))"
  proof (rule inj_onI)
    fix u v
    assume uv: "u \<in> set (expand_pairs i hops g)" "v \<in> set (expand_pairs i hops g)" "pair_key u = pair_key v"
    then have "fst u \<in> set (g_nodes g)" "fst v \<in> set (g_nodes g)" "snd u \<in> set (rels g)" "snd v \<in> set (rels g)"
      using inside [of "fst u" "snd u"] inside [of "fst v" "snd v"] by simp_all
    then have "fst u = fst v" "snd u = snd v"
      using uv(3) wf_keys [OF wf] rels_key unfolding pair_key_def by blast+
    then show "u = v" by (rule prod_eqI)
  qed
  then show ?thesis by (simp add: expand_rows_def distinct_by_set)
qed

lemma expand_seen:
  assumes wf: "wf_graph g"
  shows "seen_in (expand_rows i hops g) (node_value x) \<longleftrightarrow>
    (\<exists>n \<in> set (g_nodes g). prop_is ''id'' (PStr i) n \<and>
       (\<exists>w \<in> set (trails g (nat (clamp_hops hops)) {} n). x \<in> set (n # List.map snd w)))"
proof -
  have "node_value x \<in> set (pair_values q) \<longleftrightarrow> fst q = x" for q
    by (cases q) (auto simp: pair_values_def node_value_eq rel_value_def node_value_def)
  then have 1: "node_value x \<in> set (pair_values (y, p)) \<longleftrightarrow> y = x" for y p by simp
  have "seen_in (expand_rows i hops g) (node_value x) \<longleftrightarrow> (\<exists>q \<in> set (expand_pairs i hops g). node_value x \<in> set (pair_values q))"
    by (simp add: seen_in_def expand_values [OF wf])
  also have "\<dots> \<longleftrightarrow> (\<exists>p. (x, p) \<in> set (expand_pairs i hops g))"
  proof
    assume "\<exists>q \<in> set (expand_pairs i hops g). node_value x \<in> set (pair_values q)"
    then obtain q where q: "q \<in> set (expand_pairs i hops g)" "node_value x \<in> set (pair_values q)" by blast
    then have "q = (x, snd q)" using 1 [of "fst q" "snd q"] by (metis prod.collapse)
    with q(1) show "\<exists>p. (x, p) \<in> set (expand_pairs i hops g)" by metis
  next
    assume "\<exists>p. (x, p) \<in> set (expand_pairs i hops g)"
    then obtain p where "(x, p) \<in> set (expand_pairs i hops g)" by blast
    then show "\<exists>q \<in> set (expand_pairs i hops g). node_value x \<in> set (pair_values q)" using 1 [of x p] by (intro bexI) auto
  qed
  finally have "seen_in (expand_rows i hops g) (node_value x) \<longleftrightarrow> (\<exists>p. (x, p) \<in> set (expand_pairs i hops g))" .
  moreover have "\<exists>p. p \<in> set (List.map fst w)" if "w \<in> set (trails g h {} n)" for w h n
  proof -
    have "w \<noteq> []" using that unfolding trails_iff by blast
    then show ?thesis by (intro exI [of _ "fst (hd w)"]) simp
  qed
  ultimately show ?thesis unfolding expand_pairs_iff by blast
qed

lemma expand_joined:
  assumes wf: "wf_graph g"
  shows "joined g (expand_rows i hops g)"
proof -
  let ?P = "set (expand_pairs i hops g)"
  have rec: "set R \<subseteq> values_of g" if "R \<in> set (expand_rows i hops g)" for R
  proof -
    from that obtain x p where xp: "(x, p) \<in> ?P" "R = pair_values (x, p)" by (auto simp: expand_values [OF wf])
    from xp(1) obtain n w where n: "n \<in> set (g_nodes g)" and w: "walk g n w" "x \<in> set (n # List.map snd w)" "p \<in> set (List.map fst w)"
      by (rule expand_pair_walk)
    then show ?thesis using walk_nodes [OF w(1) n] walk_rels [OF w(1,3)] xp(2)
      by (auto simp: values_of_def pair_values_def)
  qed
  have "seen_beside (expand_rows i hops g) (rel_value p) (node_value a)"
    if p: "p \<in> set (rels g)" "seen_in (expand_rows i hops g) (rel_value p)"
      and a: "a \<in> set (g_nodes g)" "n_key a = e_from (snd p) \<or> n_key a = e_to (snd p)" for p a
  proof -
    have "rel_value p \<in> set (pair_values q) \<longleftrightarrow> rel_value p = rel_value (snd q)" for q
      by (auto simp: pair_values_def rel_value_def node_value_def)
    then obtain x q where q: "(x, q) \<in> ?P" "rel_value p = rel_value q"
      using p(2) by (auto simp: seen_in_def expand_values [OF wf])
    then obtain n w where n: "n \<in> set (g_nodes g)" "prop_is ''id'' (PStr i) n"
      and w: "w \<in> set (trails g (nat (clamp_hops hops)) {} n)" "q \<in> set (List.map fst w)"
      unfolding expand_pairs_iff by blast
    have v: "walk g n w" using w(1) by (simp add: trails_iff)
    from walk_rels [OF v w(2)] have "q \<in> set (rels g)" by blast
    with q(2) p(1) have pq: "q = p" by (auto simp: rel_value_def dest: rels_key)
    from walk_rels [OF v w(2)] obtain b c where bc: "b \<in> set (n # List.map snd w)" "c \<in> set (n # List.map snd w)"
      "e_from (snd p) = n_key b" "e_to (snd p) = n_key c" unfolding pq by blast
    then have "b \<in> set (g_nodes g)" "c \<in> set (g_nodes g)" using walk_nodes [OF v n(1)] n(1) by auto
    then have "a = b \<or> a = c" using wf_keys [OF wf a(1)] a(2) bc by metis
    then have "(a, p) \<in> ?P" using bc n w pq unfolding expand_pairs_iff by blast
    then show ?thesis by (force simp: seen_beside_def expand_values [OF wf] pair_values_def)
  qed
  with rec show ?thesis by (simp add: joined_def)
qed

lemma search_joined: "joined g (List.map (\<lambda>n. [node_value n]) (query_search lw q t g))"
proof (rule joined_rows)
  fix R
  assume "R \<in> set (List.map (\<lambda>n. [node_value n]) (query_search lw q t g))"
  then obtain n where n: "n \<in> set (query_search lw q t g)" "R = [node_value n]" by auto
  then have "n \<in> set (g_nodes g)" unfolding query_search_def by (meson filter_is_subset in_set_takeD subsetD)
  with n(2) show "row_closed g R" by (auto simp: row_closed_def values_of_def rel_value_def node_value_def)
qed

lemma rows_joined:
  assumes "wf_graph g"
  shows "joined g (scandal_graph_rows i g)" "joined g (politician_graph_rows i g)" "joined g (person_graph_rows i g)"
    "joined g (organization_graph_rows i g)" "joined g (timeline_rows a b g)"
  by (blast intro: joined_rows scandal_rows_ok [OF assms] politician_rows_ok [OF assms] person_rows_ok [OF assms]
      organization_rows_ok [OF assms] timeline_rows_ok [OF assms])+

section \<open>Answers that hold a graph\<close>

fun graph_of :: "payload \<Rightarrow> graph_response option" where
  "graph_of (GraphResponse c) = Some c"
| "graph_of (PoliticianProfile p c) = Some c"
| "graph_of (ScandalProfile p c) = Some c"
| "graph_of (PersonProfile p c) = Some c"
| "graph_of (OrganizationProfile p c) = Some c"
| "graph_of _ = None"

lemma query_graph_ok:
  assumes "query_graph arr rows s = (Inr c, t)"
  shows "collect_graph False (arr (rows (graph s))) = Inr c"
proof -
  from assms obtain a u where a: "cypher_read (\<lambda>g. collect_graph False (arr (rows g))) s = (Inr a, u)"
    "(case a of Inl e \<Rightarrow> throw e | Inr v \<Rightarrow> ret v) u = (Inr c, t)" unfolding query_graph_def bindR_Inr by blast
  from cypher_read_ok [OF a(1)] have "a = collect_graph False (arr (rows (graph s)))" by blast
  moreover have "a = Inr c" using a(2) by (cases a) (simp_all split: prod.splits)
  ultimately show ?thesis by simp
qed

definition drawn_from :: "row_order \<Rightarrow> graph \<Rightarrow> graph_response \<Rightarrow> bool" where
  "drawn_from arr g c \<longleftrightarrow> (\<exists>recs. joined g recs \<and> collect_graph False (arr recs) = Inr c)"

lemma query_graph_drawn:
  assumes "query_graph arr rows s = (Inr c, t)" and "joined (graph s) (rows (graph s))"
  shows "drawn_from arr (graph s) c"
  using query_graph_ok [OF assms(1)] assms(2) by (auto simp: drawn_from_def)

lemma same_graph_read: "cypher_read f s = (r, t) \<Longrightarrow> graph t = graph s"
  using movesD [OF stores.cypher_read, of s f] by (auto simp: stores_kept_def)

lemma unread_same_graph: "cypher_read_unchecked none f s = (r, t) \<Longrightarrow> graph t = graph s"
  using movesD [OF stores.cypher_read_unchecked, of s none f] by (auto simp: stores_kept_def)

lemma drawn:
  assumes wf: "wf_graph (graph s)" and r: "serve_public e r s = (Inr (Ok200 p), t)" and c: "graph_of p = Some c"
  shows "drawn_from (en_rows e) (graph s) c"
proof -
  note defs = get_scandal_graph_def get_politician_graph_def expand_node_def search_handler_def get_politician_def
    get_scandal_def get_person_def get_organization_def get_timeline_def
    query_scandal_graph_def query_politician_graph_def query_person_graph_def query_organization_graph_def
    query_expand_node_def query_timeline_def query_search_graph_def
  note drawn = query_graph_drawn [where arr = "en_rows e"]
  show ?thesis
  proof (cases r)
    case (ScandalGraphOf i)
    with r c show ?thesis
      by (auto simp: defs show_as_def dest!: answering_Ok intro!: drawn rows_joined(1) wf)
  next
    case (PoliticianGraphOf i)
    with r c show ?thesis
      by (auto simp: defs show_as_def dest!: answering_Ok intro!: drawn rows_joined(2) wf)
  next
    case (Expand i h)
    with r c show ?thesis
      by (auto simp: defs show_as_def Let_def dest!: answering_Ok intro!: drawn expand_joined wf split: if_splits option.splits)
  next
    case (SearchFor q k)
    with r c show ?thesis
      by (auto simp: defs show_as_def dest!: answering_Ok intro!: drawn search_joined split: if_splits)
  next
    case (TimelineOf a b)
    with r c show ?thesis
      by (auto simp: defs show_as_def dest!: answering_Ok intro!: drawn rows_joined(5) wf split: if_splits option.splits)
  next
    case (PoliticianOf i)
    with r c obtain x u where x: "query_politician (en_nodes e) i s = (Inr x, u)"
      "found (\<lambda>p. answering (query_politician_graph (en_rows e) i) (show_as (PoliticianProfile p))) x u = (Inr (Ok200 p), t)"
      by (auto simp: get_politician_def dest!: answering_Ok)
    then have "graph u = graph s" unfolding query_politician_def by (auto dest: unread_same_graph)
    with x(2) c show ?thesis using drawn [of "politician_graph_rows i" u] rows_joined(2) [OF wf, of i]
      by (auto simp: found_def show_as_def query_politician_graph_def dest!: answering_Ok split: option.splits)
  next
    case (ScandalOf i)
    with r c obtain x u where x: "query_scandal (en_nodes e) i s = (Inr x, u)"
      "found (\<lambda>p. answering (query_scandal_graph (en_rows e) i) (show_as (ScandalProfile p))) x u = (Inr (Ok200 p), t)"
      by (auto simp: get_scandal_def dest!: answering_Ok)
    then have "graph u = graph s" unfolding query_scandal_def by (auto dest: unread_same_graph)
    with x(2) c show ?thesis using drawn [of "scandal_graph_rows i" u] rows_joined(1) [OF wf, of i]
      by (auto simp: found_def show_as_def query_scandal_graph_def dest!: answering_Ok split: option.splits)
  next
    case (PersonOf i)
    with r c obtain y u where "query_person (en_nodes e) (en_rows e) i s = (Inr (Some (y, c)), u)"
      by (auto simp: get_person_def found_def dest!: answering_Ok split: option.splits)
    then obtain v where "graph v = graph s" "query_graph (en_rows e) (person_graph_rows i) v = (Inr c, u)"
      by (cases c) (auto simp: query_person_def query_person_graph_def bindR_Inr split: option.splits dest: same_graph_read)
    then show ?thesis using drawn [of "person_graph_rows i" v] rows_joined(3) [OF wf, of i] by simp
  next
    case (OrganizationOf i)
    with r c obtain y u where "query_organization (en_nodes e) (en_rows e) i s = (Inr (Some (y, c)), u)"
      by (auto simp: get_organization_def found_def dest!: answering_Ok split: option.splits)
    then obtain v where "graph v = graph s" "query_graph (en_rows e) (organization_graph_rows i) v = (Inr c, u)"
      by (cases c) (auto simp: query_organization_def query_organization_graph_def bindR_Inr split: option.splits dest: same_graph_read)
    then show ?thesis using drawn [of "organization_graph_rows i" v] rows_joined(4) [OF wf, of i] by simp
  qed (use r c in \<open>auto simp: list_politicians_def list_scandals_handler_def list_sanctions_def get_sanction_def
      get_sanction_registries_def list_proceedings_def get_proceeding_def found_def show_as_def Let_def
      dest!: answering_Ok split: option.splits\<close>)
qed

section \<open>Properties\<close>

text \<open>C14: whatever graph the public API answers with, by itself or in a profile, every edge of it is a
  relationship of the stored graph, its two ends are the ids of the nodes that relationship joins, and
  both are nodes of the response, in whatever order the engine returns the rows.\<close>

theorem graph_edges_join_nodes:
  assumes "wf_graph (graph s)" and "\<forall>rs. set (en_rows e rs) = set rs"
    and "serve_public e r s = (Inr (Ok200 p), t)" and "graph_of p = Some (ns, es)" and "es i = Some x"
  shows "\<exists>k \<in> set (g_edges (graph s)). \<exists>a \<in> set (g_nodes (graph s)). \<exists>b \<in> set (g_nodes (graph s)).
     e_from k = n_key a \<and> e_to k = n_key b \<and> ae_type x = e_type k \<and> ae_from x = node_id a \<and> ae_to x = node_id b \<and>
     ns (node_id a) \<noteq> None \<and> ns (node_id b) \<noteq> None"
proof -
  from drawn [OF assms(1,3,4)] obtain recs where
    "joined (graph s) recs" "collect_graph False (en_rows e recs) = Inr (ns, es)" by (auto simp: drawn_from_def)
  with joined_cong [of "en_rows e recs" recs] assms(2) collect_joined [OF assms(1), of "en_rows e recs" False ns es i x] assms(5)
  show ?thesis by blast
qed

definition pair_world :: world where
  "pair_world = empty_world\<lparr>graph := \<lparr>
     g_nodes = [\<lparr>n_key = 0, n_labels = [''Politician''], n_props = [''id'' \<mapsto> PStr (lit ''p'')]\<rparr>,
                \<lparr>n_key = 1, n_labels = [''Scandal''], n_props = [''id'' \<mapsto> PStr (lit ''s'')]\<rparr>],
     g_edges = [\<lparr>e_from = 0, e_type = ''INVOLVED_IN'', e_to = 1, e_props = Map.empty\<rparr>],
     g_next = 2\<rparr>\<rparr>"

definition plain_engine :: engine where
  "plain_engine = \<lparr>en_lower = List.map ascii_lower, en_nodes = (\<lambda>x. x), en_parties = (\<lambda>x. x), en_rows = (\<lambda>x. x),
     en_case = (\<lambda>x. x), en_sanction = (\<lambda>x. x)\<rparr>"

lemma pair_world_wf: "wf_graph (graph pair_world)"
  by (simp add: pair_world_def wf_graph_def)

lemma pair_world_calm: "faults pair_world = []"
  by (simp add: pair_world_def empty_world_def)

lemma calm_read: "faults s = [] \<Longrightarrow> cypher_read f s = (Inr (f (graph s)), s)"
  by (simp add: cypher_read_def db_call_def getR_def)

lemma calm_graph: "faults s = [] \<Longrightarrow> \<exists>c. query_graph arr rows s = (Inr c, s) \<and> collect_graph False (arr (rows (graph s))) = Inr c"
  by (auto simp: query_graph_def bindR_def calm_read collect_graph_def Let_def ret_def)

theorem graph_edges_join_nodes_witness:
  "\<exists>c. serve_public plain_engine (PoliticianGraphOf (lit ''p'')) pair_world = (Inr (Ok200 (GraphResponse c)), pair_world) \<and>
     (\<exists>x. snd c (itoa 0) = Some x \<and> ae_from x = lit ''p'' \<and> ae_to x = lit ''s'')"
proof -
  let ?g = "graph pair_world"
  obtain c where c: "query_graph (\<lambda>x. x) (politician_graph_rows (lit ''p'')) pair_world = (Inr c, pair_world)"
    "collect_graph False (politician_graph_rows (lit ''p'') ?g) = Inr c"
    using calm_graph [OF pair_world_calm] by blast
  have r: "serve_public plain_engine (PoliticianGraphOf (lit ''p'')) pair_world = (Inr (Ok200 (GraphResponse c)), pair_world)"
    using c(1) by (simp add: get_politician_graph_def answering_def query_politician_graph_def plain_engine_def show_as_def ret_def)
  have "snd c (itoa 0) \<noteq> None"
    using c(2) by (auto simp: politician_graph_rows_def pair_world_def empty_world_def match_nodes_def has_label_def prop_is_def
        hops_out_def rels_def optional_def hop_values_def collect_graph_def collect_record_def node_value_def rel_value_def Let_def
        neo_rel_to_model_def)
  then obtain x where x: "snd c (itoa 0) = Some x" by blast
  have e: "\<forall>rs. set (en_rows plain_engine rs) = set rs" by (simp add: plain_engine_def)
  have g: "graph_of (GraphResponse c) = Some (fst c, snd c)" by simp
  from graph_edges_join_nodes [OF pair_world_wf e r g x]
  have "ae_from x = lit ''p'' \<and> ae_to x = lit ''s''"
    by (auto simp: pair_world_def empty_world_def node_id_def str_prop_def)
  with r x show ?thesis by blast
qed

text \<open>C16: expanding a node shows exactly the nodes within so many steps of it, along relationships in
  either direction, where the number of steps is the one asked for, at least one and at most three. A
  node without relationships expands to nothing, not even itself.\<close>

theorem expansion_is_neighbourhood:
  assumes wf: "wf_graph (graph s)" and "\<forall>rs. set (arr rs) = set rs"
    and "query_expand_node arr i hops s = (Inr (ns, es), t)"
  shows "ns j \<noteq> None \<longleftrightarrow>
    (\<exists>n \<in> set (g_nodes (graph s)). \<exists>x \<in> set (g_nodes (graph s)). prop_is ''id'' (PStr i) n \<and> node_id x = j \<and>
       degree (graph s) n \<noteq> 0 \<and> (\<exists>k \<le> nat (min 3 (max 1 hops)). (n_key n, n_key x) \<in> adjacent (graph s) ^^ k))"
proof -
  let ?g = "graph s" and ?h = "nat (clamp_hops hops)" and ?recs = "expand_rows i hops (graph s)"
  have h: "?h = nat (min 3 (max 1 hops))" "0 < ?h" by (simp_all add: clamp_hops_def Let_def)
  have deg: "steps_from ?g {} n \<noteq> [] \<longleftrightarrow> degree ?g n \<noteq> 0" for n
  proof -
    have "(\<exists>q. q \<in> set (steps_from ?g {} n)) \<longleftrightarrow> (\<exists>e \<in> set (g_edges ?g). e_from e = n_key n \<or> e_to e = n_key n)"
    proof
      assume "\<exists>e \<in> set (g_edges ?g). e_from e = n_key n \<or> e_to e = n_key n"
      then obtain e where e: "e \<in> set (g_edges ?g)" "e_from e = n_key n \<or> e_to e = n_key n" by blast
      from edges_rels [OF e(1)] obtain k where k: "(k, e) \<in> set (rels ?g)" by blast
      from wf e(1) obtain a b where ab: "a \<in> set (g_nodes ?g)" "b \<in> set (g_nodes ?g)" "e_from e = n_key a" "e_to e = n_key b"
        by (fastforce simp: wf_graph_def)
      from e(2) show "\<exists>q. q \<in> set (steps_from ?g {} n)"
      proof
        assume "e_from e = n_key n"
        with k ab have "((k, e), b) \<in> set (steps_from ?g {} n)" by (simp add: steps_iff)
        then show ?thesis by blast
      next
        assume "e_to e = n_key n"
        with k ab have "((k, e), a) \<in> set (steps_from ?g {} n)" by (simp add: steps_iff)
        then show ?thesis by blast
      qed
    qed (auto simp: steps_iff dest!: rels_edges)
    moreover have "steps_from ?g {} n \<noteq> [] \<longleftrightarrow> (\<exists>q. q \<in> set (steps_from ?g {} n))" by (metis last_in_set length_pos_if_in_set list.size(3) less_irrefl)
    ultimately show ?thesis by (simp only: degree_def) (auto simp: filter_empty_conv)
  qed
  have "collect_graph False (arr ?recs) = Inr (ns, es)"
    using query_graph_ok assms(3) unfolding query_expand_node_def by blast
  moreover have "joined ?g (arr ?recs)" using expand_joined [OF wf] joined_cong [of "arr ?recs" ?recs] assms(2) by blast
  ultimately have "ns j \<noteq> None \<longleftrightarrow> (\<exists>x \<in> set (g_nodes ?g). seen_in (arr ?recs) (node_value x) \<and> node_id x = j)"
    using collect_joined [OF wf] by blast
  also have "\<dots> \<longleftrightarrow> (\<exists>x \<in> set (g_nodes ?g). seen_in ?recs (node_value x) \<and> node_id x = j)"
    using assms(2) by (simp add: seen_in_def)
  also have "\<dots> \<longleftrightarrow> (\<exists>x \<in> set (g_nodes ?g). node_id x = j \<and> (\<exists>n \<in> set (g_nodes ?g). prop_is ''id'' (PStr i) n \<and>
      degree ?g n \<noteq> 0 \<and> (\<exists>k \<le> ?h. (n_key n, n_key x) \<in> adjacent ?g ^^ k)))"
    unfolding expand_seen [OF wf] using expand_reach [OF wf _ _ h(2)] deg by (intro bex_cong) auto
  finally show ?thesis unfolding h(1) by blast
qed

theorem expansion_is_neighbourhood_witness:
  "\<exists>c. query_expand_node (\<lambda>r. r) (lit ''p'') 1 pair_world = (Inr c, pair_world) \<and> fst c (lit ''s'') \<noteq> None \<and> fst c (lit ''q'') = None"
proof -
  obtain c where c: "query_expand_node (\<lambda>r. r) (lit ''p'') 1 pair_world = (Inr (fst c, snd c), pair_world)"
    using calm_graph [OF pair_world_calm, of "\<lambda>r. r" "expand_rows (lit ''p'') 1"] by (auto simp: query_expand_node_def)
  note e = expansion_is_neighbourhood [OF pair_world_wf _ c]
  have "(0, 1) \<in> adjacent (graph pair_world) ^^ 1" by (simp add: adjacent_def pair_world_def)
  then have "fst c (lit ''s'') \<noteq> None" using e [of "lit ''s''"]
    by (auto simp: pair_world_def node_id_def str_prop_def prop_is_def degree_def intro: exI [of _ 1])
  moreover have "fst c (lit ''q'') = None" using e [of "lit ''q''"]
    by (auto simp: pair_world_def node_id_def str_prop_def)
  ultimately show ?thesis using c by (intro exI [of _ c]) simp
qed

end
