(* ===== verification/Public_Lists.thy ===== *)
theory Public_Lists
  imports Public_Graph
begin

text \<open>
  The lists of the public API: the pages of the proceedings meet every proceeding, those of the scandals
  need not; what the counts count; the conviction filter; the parties of one record.
\<close>

section \<open>Orders of the lists\<close>

interpretation politician_rank: ranking "politician_order mode" for mode
  by (auto simp: politician_order_def intro!: ranking_rules ranking_order_by)

interpretation scandal_rank: ranking "scandal_order_by mode" for mode
  by (auto simp: scandal_order_by_def intro!: ranking_rules ranking_order_by)

interpretation proceeding_rank: ranking "proceeding_order_by mode" for mode
  by (auto simp: proceeding_order_by_def intro!: ranking_rules ranking_order_by)

interpretation sanction_rank: ranking "sanction_order_by mode" for mode
  by (auto simp: sanction_order_by_def intro!: ranking_rules ranking_order_by)

section \<open>Pages\<close>

lemma wrap64_small: "- (2 ^ 63) \<le> n \<Longrightarrow> n < 2 ^ 63 \<Longrightarrow> wrap64 n = n"
  unfolding wrap64_def by (subst mod_pos_pos_trivial) auto

lemma clamp_in_range:
  assumes "1 \<le> page" "1 \<le> sz" "sz \<le> 100" "(page - 1) * sz < 2 ^ 63"
  shows "clamp_paging page sz d = (page, sz, (page - 1) * sz)"
proof -
  have "0 \<le> (page - 1) * sz" using assms by (intro mult_nonneg_nonneg) auto
  then have "wrap64 ((page - 1) * sz) = (page - 1) * sz" using assms(4) by (intro wrap64_small) auto
  with assms show ?thesis by (simp add: clamp_paging_def Let_def)
qed

lemma page_of_calm: "0 \<le> skip \<Longrightarrow> page_of lt item skip n rows = Inr (List.map item (take (nat n) (drop (nat skip) (slice_stable lt rows))))"
  by (simp add: page_of_def skip_limit_def)

lemma counted_page_calm:
  "faults s = [] \<Longrightarrow> items (graph s) = Inr is \<Longrightarrow>
     counted_page counting items p n s = (Inr \<lparr>ls_items = is, ls_page = p, ls_page_size = n, ls_total = counting (graph s)\<rparr>, s)"
  by (simp add: counted_page_def bindR_def calm_read ret_def)

text \<open>A page number near the bound of an int makes the skip wrap around, and the database refuses it.\<close>

lemma huge_page_fails:
  assumes "faults s = []"
  shows "query_scandals arr mode (2 ^ 63 - 1) 0 s = (Inl DbError, s)"
proof -
  have c: "clamp_paging (2 ^ 63 - 1) 0 default_scandal_page_size = (2 ^ 63 - 1, 24, - 48)"
    by (simp add: clamp_paging_def wrap64_def default_scandal_page_size_def)
  show ?thesis
    unfolding query_scandals_def c prod.case Let_def
    by (simp add: counted_page_def bindR_def calm_read [OF assms] page_of_def skip_limit_def throw_def)
qed

context ranking
begin

text \<open>
  Pages cut from a sorted list without ties fit together, whatever order the rows came in for each.
\<close>

lemma walk_pages:
  assumes "\<And>a b. a \<in> set xs \<Longrightarrow> b \<in> set xs \<Longrightarrow> a \<noteq> b \<Longrightarrow> lt a b \<or> lt b a"
    and "\<And>p. mset (f p) = mset xs" and "length xs \<le> k * n"
  shows "concat (List.map (\<lambda>p. List.map item (take n (drop (p * n) (slice_stable lt (f p))))) [0..<k])
    = List.map item (slice_stable lt xs)"
proof -
  have "slice_stable lt (f p) = slice_stable lt xs" for p
    by (rule slice_unique [symmetric]) (use assms(1,2) in auto)
  then have "concat (List.map (\<lambda>p. List.map item (take n (drop (p * n) (slice_stable lt (f p))))) [0..<k])
      = List.map item (concat (List.map (\<lambda>p. take n (drop (p * n) (slice_stable lt xs))) [0..<k]))"
    by (simp add: map_concat o_def)
  also have "\<dots> = List.map item (slice_stable lt xs)"
    using assms(3) mset_slice [of lt xs] by (simp add: pages_concat) (metis size_mset take_all)
  finally show ?thesis .
qed

text \<open>Two rows that tie stand next to each other when they came first, in the order they came.\<close>

lemma sift_tied:
  assumes "lt x a \<longleftrightarrow> lt x b"
  shows "\<exists>p' q'. sift lt x (p @ b # a # q) = p' @ b # a # q' \<and> sift lt x (p @ a # b # q) = p' @ a # b # q'"
proof (induction p)
  case Nil
  show ?case
  proof (cases "lt x a")
    case True
    with assms show ?thesis by (intro exI [of _ "[]"] exI [of _ "sift lt x q"]) simp
  next
    case False
    with assms show ?thesis by (intro exI [of _ "[x]"] exI [of _ q]) simp
  qed
next
  case (Cons y p)
  then obtain p' q' where ih: "sift lt x (p @ b # a # q) = p' @ b # a # q'" "sift lt x (p @ a # b # q) = p' @ a # b # q'"
    by blast
  show ?case
  proof (cases "lt x y")
    case True
    with ih show ?thesis by (intro exI [of _ "y # p'"] exI [of _ q']) simp
  next
    case False
    then show ?thesis by (intro exI [of _ "x # y # p"] exI [of _ q]) simp
  qed
qed

lemma tied_rows:
  assumes "\<not> lt a b" and "\<not> lt b a"
  shows "\<exists>u v. slice_stable lt (a # b # rest) = u @ a # b # v \<and> slice_stable lt (b # a # rest) = u @ b # a # v"
proof -
  have same: "lt x a \<longleftrightarrow> lt x b" for x using assms split by blast
  have "\<exists>p' q'. foldl (\<lambda>acc x. sift lt x acc) (p @ b # a # q) xs = p' @ b # a # q' \<and>
      foldl (\<lambda>acc x. sift lt x acc) (p @ a # b # q) xs = p' @ a # b # q'" for p q xs
  proof (induction xs arbitrary: p q)
    case (Cons x xs)
    from sift_tied [OF same] obtain p' q' where
      "sift lt x (p @ b # a # q) = p' @ b # a # q'" "sift lt x (p @ a # b # q) = p' @ a # b # q'" by blast
    with Cons.IH [of p' q'] show ?case by simp
  qed auto
  from this [of "[]" "[]" rest] obtain p q where
    "foldl (\<lambda>acc x. sift lt x acc) [b, a] rest = p @ b # a # q" "foldl (\<lambda>acc x. sift lt x acc) [a, b] rest = p @ a # b # q"
    by auto
  then show ?thesis
    using assms by (intro exI [of _ "rev q"] exI [of _ "rev p"]) (simp add: slice_stable_def)
qed

text \<open>
  Then a walk in pages of one row can meet \<open>a\<close> twice and never \<open>b\<close>: \<open>b\<close> comes first for the page after that of
  \<open>a\<close>, and last for every other.
\<close>

lemma tied_walk:
  assumes "slice_stable lt (a # b # rest) = u @ a # b # v" and "slice_stable lt (b # a # rest) = u @ b # a # v"
  shows "\<exists>i. concat (List.map (\<lambda>p. List.map item (take 1 (drop p (slice_stable lt
      (if p = i then b # a # rest else a # b # rest))))) [0..<length rest + 2]) = List.map item (u @ a # a # v) \<and>
    mset (u @ v) = mset rest"
proof (intro exI conjI)
  have m: "mset (u @ a # b # v) = mset (a # b # rest)" using mset_slice [of lt "a # b # rest"] assms(1) by simp
  then show "mset (u @ v) = mset rest" by simp
  have n: "length rest + 2 = length (u @ a # b # v)" using arg_cong [OF m, of size] by simp
  have take1: "take 1 (drop p xs) = [xs ! p]" if "p < length xs" for p and xs :: "'a list"
    using that by (simp add: Cons_nth_drop_Suc [symmetric])
  let ?i = "length u + 1"
  have nth: "(if p = ?i then u @ b # a # v else u @ a # b # v) ! p = (u @ a # a # v) ! p" for p
    by (auto simp: nth_append nth_Cons split: nat.split)
  have "concat (List.map (\<lambda>p. List.map item (take 1 (drop p (slice_stable lt
      (if p = ?i then b # a # rest else a # b # rest))))) [0..<length rest + 2]) =
    concat (List.map (\<lambda>p. [item ((u @ a # a # v) ! p)]) [0..<length (u @ a # a # v)])"
  proof (rule arg_cong [where f = concat], rule map_cong)
    fix p assume p: "p \<in> set [0..<length (u @ a # a # v)]"
    let ?L = "if p = ?i then u @ b # a # v else u @ a # b # v"
    have eq: "slice_stable lt (if p = ?i then b # a # rest else a # b # rest) = ?L" using assms by simp
    have "p < length ?L" using p by auto
    then have "take 1 (drop p ?L) = [?L ! p]" by (rule take1)
    then show "List.map item (take 1 (drop p (slice_stable lt (if p = ?i then b # a # rest else a # b # rest)))) = [item ((u @ a # a # v) ! p)]"
      by (simp only: eq nth list.map)
  qed (use n in simp)
  also have "\<dots> = List.map item (u @ a # a # v)"
    by (simp only: concat_map_singleton, subst (3) map_nth [symmetric], simp add: comp_def)
  finally show "concat (List.map (\<lambda>p. List.map item (take 1 (drop p (slice_stable lt
      (if p = ?i then b # a # rest else a # b # rest))))) [0..<length rest + 2]) = List.map item (u @ a # a # v)" .
qed

end

lemma null_last_total: "a \<noteq> b \<Longrightarrow> null_last a b \<or> null_last b a"
  by (cases a; cases b) (auto dest: lex_less_total)

lemma numbers_never_tie:
  "str_or_null a ''case_number'' \<noteq> str_or_null b ''case_number'' \<Longrightarrow>
     proceeding_order_by mode a b \<or> proceeding_order_by mode b a"
  using null_last_total by (auto simp: proceeding_order_by_def ascending_def)

section \<open>Properties\<close>

text \<open>No request to the public API changes a store: the graph, the review queue, the watch list and
  the tombstones are afterwards what they were.\<close>

theorem public_reads_only: "\<exists>fs. snd (serve_public e r s) = s\<lparr>faults := fs\<rparr>"
proof -
  note defs = get_scandal_graph_def get_politician_graph_def expand_node_def search_handler_def get_politician_def
    get_scandal_def get_person_def get_organization_def get_timeline_def list_politicians_def list_scandals_handler_def
    list_sanctions_def get_sanction_def get_sanction_registries_def list_proceedings_def get_proceeding_def
    query_scandal_graph_def query_politician_graph_def query_person_graph_def query_organization_graph_def
    query_expand_node_def query_timeline_def query_search_graph_def query_politicians_def query_scandals_def
    query_sanctions_def query_sanction_def query_proceedings_def query_proceeding_def query_politician_def query_scandal_def
    query_person_def query_organization_def found_def show_as_def Let_def
  have "moves stores_kept (serve_public e r)"
    by (cases r) (auto simp: defs split_beta intro!: order_intros stores.bindR stores.ret stores.cypher_read split: option.splits)
  from movesD [OF this, of s] show ?thesis by (simp add: stores_kept_def)
qed

text \<open>C15: walking the pages of the proceedings under any filter and either order, one request per page,
  lists every matching proceeding exactly once, whatever order the engine finds them in for each request.
  Case numbers that are all different, which they are as the key every writer merges on, a page size from
  one to a hundred and enough pages are all it takes.\<close>

theorem proceeding_pages_cover:
  fixes s :: "'z world_scheme" and lw court conviction q
  defines "rows \<equiv> match_nodes ''LegalProceeding'' (proceeding_keeps lw court conviction q) (graph s)"
  assumes "faults s = []" and "1 \<le> sz" "sz \<le> 100" "int k * sz < 2 ^ 63"
    and "\<forall>p xs. mset (arr p xs) = mset xs"
    and "inj_on (\<lambda>n. str_or_null n ''case_number'') (set rows)" and "length rows \<le> k * nat sz"
  shows "\<exists>L. (\<forall>p < k. query_proceedings lw (arr p) court conviction q mode (int p + 1) sz s = (Inr (L p), s)
                \<and> ls_total (L p) = length rows) \<and>
     mset (concat (List.map (\<lambda>p. ls_items (L p)) [0..<k])) = mset (List.map (\<lambda>n. proceeding_list_item_from_props (n_props n)) rows)"
proof -
  let ?item = "\<lambda>n. proceeding_list_item_from_props (n_props n)" and ?lt = "proceeding_order_by mode"
  let ?page = "\<lambda>p. List.map ?item (take (nat sz) (drop (p * nat sz) (slice_stable ?lt (arr p rows))))"
  define L where "L p = \<lparr>ls_items = ?page p, ls_page = int p + 1, ls_page_size = sz, ls_total = length rows\<rparr>" for p
  have "query_proceedings lw (arr p) court conviction q mode (int p + 1) sz s = (Inr (L p), s)" if "p < k" for p
  proof -
    have "int p * sz \<le> int k * sz" using that assms(3) by (intro mult_right_mono) auto
    then have "int p * sz < 2 ^ 63" using assms(5) by (rule le_less_trans)
    then have c: "clamp_paging (int p + 1) sz default_proceeding_page_size = (int p + 1, sz, int p * sz)"
      using assms(3,4) by (subst clamp_in_range) auto
    have "nat (int p * sz) = p * nat sz" "0 \<le> int p * sz" using assms(3) by (simp_all add: nat_mult_distrib)
    then show ?thesis
      unfolding query_proceedings_def c prod.case Let_def rows_def [symmetric]
      by (subst counted_page_calm [OF assms(2)]) (simp_all add: page_of_calm L_def rows_def)
  qed
  moreover have "concat (List.map (\<lambda>p. ls_items (L p)) [0..<k]) = List.map ?item (slice_stable ?lt rows)"
    unfolding L_def listing.simps
  proof (rule proceeding_rank.walk_pages)
    fix a b
    assume "a \<in> set rows" "b \<in> set rows" "a \<noteq> b"
    then show "?lt a b \<or> ?lt b a" using inj_onD [OF assms(7), of a b] by (intro numbers_never_tie) blast
  qed (use assms(6,8) in simp_all)
  ultimately show ?thesis using mset_slice [of ?lt rows] by (intro exI [of _ L]) (auto simp: L_def)
qed

definition case_node :: "nat \<Rightarrow> gostr \<Rightarrow> gostr \<Rightarrow> node" where
  "case_node k l c = \<lparr>n_key = k, n_labels = [''LegalProceeding''], n_props = [''id'' \<mapsto> PStr l, ''case_number'' \<mapsto> PStr c]\<rparr>"

definition numbered_world :: world where
  "numbered_world = empty_world\<lparr>graph := \<lparr>g_nodes = [case_node 0 [97] [49], case_node 1 [98] [50]], g_edges = [], g_next = 2\<rparr>\<rparr>"

theorem proceeding_pages_cover_witness:
  "\<exists>L. query_proceedings (\<lambda>s. s) (\<lambda>x. x) [] [] [] [] 1 1 numbered_world = (Inr (L 0), numbered_world) \<and>
       query_proceedings (\<lambda>s. s) rev [] [] [] [] 2 1 numbered_world = (Inr (L (Suc 0)), numbered_world) \<and>
       mset (concat (List.map (\<lambda>p. ls_items (L p)) [0..<2])) =
         mset (List.map (\<lambda>n. proceeding_list_item_from_props (n_props n)) [case_node 0 [97] [49], case_node 1 [98] [50]])"
proof -
  let ?arr = "\<lambda>p. if p = 0 then (\<lambda>x. x) else rev :: node list \<Rightarrow> node list"
  have calm: "faults numbered_world = []" by (simp add: numbered_world_def empty_world_def)
  have rows: "match_nodes ''LegalProceeding'' (proceeding_keeps (\<lambda>s. s) [] [] []) (graph numbered_world)
      = [case_node 0 [97] [49], case_node 1 [98] [50]]"
    by (simp add: match_nodes_def proceeding_keeps_def conviction_keeps_def has_label_def case_node_def numbered_world_def lit_def)
  have "\<forall>p xs. mset (?arr p xs) = mset xs" by simp
  moreover have "inj_on (\<lambda>n. str_or_null n ''case_number'') (set [case_node 0 [97] [49], case_node 1 [98] [50]])"
    by (simp add: str_or_null_def case_node_def)
  ultimately obtain L where L: "\<forall>p < 2. query_proceedings (\<lambda>s. s) (?arr p) [] [] [] [] (int p + 1) 1 numbered_world
      = (Inr (L p), numbered_world) \<and> ls_total (L p) = length [case_node 0 [97] [49], case_node 1 [98] [50]]"
    "mset (concat (List.map (\<lambda>p. ls_items (L p)) [0..<2])) = mset (List.map (\<lambda>n. proceeding_list_item_from_props (n_props n))
       [case_node 0 [97] [49], case_node 1 [98] [50]])"
    using proceeding_pages_cover [where s = numbered_world and sz = 1 and k = 2 and arr = ?arr and lw = "\<lambda>s. s" and court = "[]"
        and conviction = "[]" and q = "[]" and mode = "[]", unfolded rows, OF calm] by auto
  have "query_proceedings (\<lambda>s. s) (\<lambda>x. x) [] [] [] [] 1 1 numbered_world = (Inr (L 0), numbered_world)"
    using L(1) [rule_format, of 0] by simp
  moreover have "query_proceedings (\<lambda>s. s) rev [] [] [] [] 2 1 numbered_world = (Inr (L (Suc 0)), numbered_world)"
    using L(1) [rule_format, of "Suc 0"] by simp
  ultimately show ?thesis using L(2) by blast
qed

text \<open>The scandals as they are listed, and what a walk over all pages of a size has to show.\<close>

definition listed_scandals :: "graph \<Rightarrow> node list" where
  "listed_scandals g = match_nodes ''Scandal'' (\<lambda>n. True) g"

definition scandal_shown :: "graph \<Rightarrow> node \<Rightarrow> scandal_item" where
  "scandal_shown g n = scandal_list_item (scandal_row_of g n)"

definition walk_covers :: "gostr \<Rightarrow> int \<Rightarrow> 'z world_scheme \<Rightarrow> bool" where
  "walk_covers mode sz s \<longleftrightarrow>
     (let rows = listed_scandals (graph s) in
      \<forall>arr. (\<forall>p xs. mset (arr p xs) = mset xs) \<longrightarrow>
        (\<exists>L. (\<forall>p < length rows. query_scandals (arr p) mode (int p + 1) sz s = (Inr (L p), s)) \<and>
           mset (concat (List.map (\<lambda>p. ls_items (L p)) [0..<length rows])) = mset (List.map (scandal_shown (graph s)) rows)))"

definition scandals_tie :: "gostr \<Rightarrow> graph \<Rightarrow> bool" where
  "scandals_tie mode g \<longleftrightarrow>
     (\<exists>a \<in> set (listed_scandals g). \<exists>b \<in> set (listed_scandals g). a \<noteq> b \<and>
        \<not> scandal_order_by mode (scandal_row_of g a) (scandal_row_of g b) \<and>
        \<not> scandal_order_by mode (scandal_row_of g b) (scandal_row_of g a))"

lemma scandal_page:
  assumes "faults s = []" and "1 \<le> sz" "sz \<le> 100" "int p * sz < 2 ^ 63"
  shows "query_scandals arr mode (int p + 1) sz s =
    (Inr \<lparr>ls_items = List.map scandal_list_item (take (nat sz) (drop (p * nat sz)
             (slice_stable (scandal_order_by mode) (List.map (scandal_row_of (graph s)) (arr (listed_scandals (graph s))))))),
           ls_page = int p + 1, ls_page_size = sz, ls_total = length (listed_scandals (graph s))\<rparr>, s)"
proof -
  have c: "clamp_paging (int p + 1) sz default_scandal_page_size = (int p + 1, sz, int p * sz)"
    using assms(2-4) by (subst clamp_in_range) auto
  have "nat (int p * sz) = p * nat sz" "0 \<le> int p * sz" using assms(2) by (simp_all add: nat_mult_distrib)
  then show ?thesis
    unfolding query_scandals_def c prod.case Let_def listed_scandals_def
    by (subst counted_page_calm [OF assms(1)]) (simp_all add: page_of_calm)
qed

lemma untied_walk:
  assumes "faults s = []" and "1 \<le> sz" "sz \<le> 100" and few: "int (length (listed_scandals (graph s))) * 100 < 2 ^ 63"
    and "\<not> scandals_tie mode (graph s)"
  shows "walk_covers mode sz s"
  unfolding walk_covers_def Let_def
proof (intro allI impI)
  let ?rows = "listed_scandals (graph s)" and ?row = "scandal_row_of (graph s)" and ?lt = "scandal_order_by mode"
  fix arr :: "nat \<Rightarrow> node list \<Rightarrow> node list" assume arr: "\<forall>p xs. mset (arr p xs) = mset xs"
  define L where "L p = \<lparr>ls_items = List.map scandal_list_item (take (nat sz) (drop (p * nat sz)
      (slice_stable ?lt (List.map ?row (arr p ?rows))))), ls_page = int p + 1, ls_page_size = sz, ls_total = length ?rows\<rparr>" for p
  have "int p * sz < 2 ^ 63" if "p < length ?rows" for p
  proof -
    have "int p * sz \<le> int (length ?rows) * 100" using that assms(2,3) by (intro mult_mono) auto
    with few show ?thesis by (rule le_less_trans [rotated])
  qed
  then have "\<forall>p < length ?rows. query_scandals (arr p) mode (int p + 1) sz s = (Inr (L p), s)"
    using scandal_page [OF assms(1-3)] by (simp add: L_def)
  moreover have "concat (List.map (\<lambda>p. ls_items (L p)) [0..<length ?rows]) =
      List.map scandal_list_item (slice_stable ?lt (List.map ?row ?rows))"
    unfolding L_def listing.simps
  proof (rule scandal_rank.walk_pages)
    show "?lt a b \<or> ?lt b a" if "a \<in> set (List.map ?row ?rows)" "b \<in> set (List.map ?row ?rows)" "a \<noteq> b" for a b
      using that assms(5) by (auto simp: scandals_tie_def)
    show "mset (List.map ?row (arr p ?rows)) = mset (List.map ?row ?rows)" for p using arr by simp
    have "1 \<le> nat sz" using assms(2) by simp
    then show "length (List.map ?row ?rows) \<le> length ?rows * nat sz" by simp
  qed
  then have "mset (concat (List.map (\<lambda>p. ls_items (L p)) [0..<length ?rows])) = mset (List.map (scandal_shown (graph s)) ?rows)"
    by (simp add: mset_slice scandal_shown_def [abs_def] multiset.map_comp comp_def)
  ultimately show "\<exists>L. (\<forall>p < length ?rows. query_scandals (arr p) mode (int p + 1) sz s = (Inr (L p), s)) \<and>
      mset (concat (List.map (\<lambda>p. ls_items (L p)) [0..<length ?rows])) = mset (List.map (scandal_shown (graph s)) ?rows)"
    by blast
qed

lemma tied_walk_misses:
  assumes "faults s = []" and few: "int (length (listed_scandals (graph s))) * 100 < 2 ^ 63"
    and ids: "distinct (List.map node_id (listed_scandals (graph s)))" and "scandals_tie mode (graph s)"
  shows "\<not> walk_covers mode 1 s"
proof
  let ?g = "graph s" and ?lt = "scandal_order_by mode"
  let ?rows = "listed_scandals ?g" and ?row = "scandal_row_of ?g"
  assume covers: "walk_covers mode 1 s"
  from assms(4) obtain a b where ab: "a \<in> set ?rows" "b \<in> set ?rows" "a \<noteq> b" "\<not> ?lt (?row a) (?row b)" "\<not> ?lt (?row b) (?row a)"
    by (auto simp: scandals_tie_def)
  define rest where "rest = remove1 b (remove1 a ?rows)"
  have "b \<in> set (remove1 a ?rows)" using ab(2,3) by (simp add: in_set_remove1)
  then have "add_mset b (mset rest) = mset (remove1 a ?rows)"
    unfolding rest_def by (subst mset_remove1) (rule insert_DiffM, simp only: set_mset_mset)
  then have perm: "mset (a # b # rest) = mset ?rows" using ab(1) by (simp add: insert_DiffM)
  have sz: "length ?rows = length rest + 2" using arg_cong [OF perm, of size] by simp
  from scandal_rank.tied_rows [OF ab(4,5), of "List.map ?row rest"] obtain u v where
    uv: "slice_stable ?lt (?row a # ?row b # List.map ?row rest) = u @ ?row a # ?row b # v"
      "slice_stable ?lt (?row b # ?row a # List.map ?row rest) = u @ ?row b # ?row a # v" by blast
  from scandal_rank.tied_walk [OF uv, of scandal_list_item] obtain i where
    walk: "concat (List.map (\<lambda>p. List.map scandal_list_item (take 1 (drop p (slice_stable ?lt
        (if p = i then ?row b # ?row a # List.map ?row rest else ?row a # ?row b # List.map ?row rest))))) [0..<length (List.map ?row rest) + 2])
      = List.map scandal_list_item (u @ ?row a # ?row a # v)"
    and rest: "mset (u @ v) = mset (List.map ?row rest)" by blast
  define arr where "arr p xs = (if xs = ?rows then if p = i then b # a # rest else a # b # rest else xs)" for p :: nat and xs
  have "\<forall>p xs. mset (arr p xs) = mset xs" using perm by (auto simp: arr_def add_mset_commute)
  with covers obtain L where L: "\<forall>p < length ?rows. query_scandals (arr p) mode (int p + 1) 1 s = (Inr (L p), s)"
    and all: "mset (concat (List.map (\<lambda>p. ls_items (L p)) [0..<length ?rows])) = mset (List.map (scandal_shown ?g) ?rows)"
    unfolding walk_covers_def Let_def by blast
  let ?page = "\<lambda>p. List.map scandal_list_item (take 1 (drop p (slice_stable ?lt
      (if p = i then ?row b # ?row a # List.map ?row rest else ?row a # ?row b # List.map ?row rest))))"
  have page: "ls_items (L p) = ?page p" if "p < length ?rows" for p
  proof -
    have "int p * 1 < 2 ^ 63" using that few by linarith
    from scandal_page [OF assms(1) _ _ this, of "arr p" mode] L [rule_format, OF that] show ?thesis
      by (auto simp: arr_def)
  qed
  have "List.map (\<lambda>p. ls_items (L p)) [0..<length ?rows] = List.map ?page [0..<length (List.map ?row rest) + 2]"
    by (rule map_cong) (simp_all only: sz length_map page set_upt atLeastLessThan_iff)
  then have met: "concat (List.map (\<lambda>p. ls_items (L p)) [0..<length ?rows]) = List.map scandal_list_item (u @ ?row a # ?row a # v)"
    by (simp only: walk)
  from arg_cong [OF all, of set_mset] have shown: "scandal_list_item ` set (u @ ?row a # ?row a # v) = scandal_shown ?g ` set ?rows"
    by (simp only: met set_mset_mset set_map)
  have uv: "set u \<union> set v = ?row ` set rest" using arg_cong [OF rest, of set_mset] by simp
  have "scandal_shown ?g b \<in> scandal_list_item ` set (u @ ?row a # ?row a # v)" unfolding shown using ab(2) by blast
  then obtain r where r: "r \<in> set (u @ ?row a # ?row a # v)" "scandal_shown ?g b = scandal_list_item r" by blast
  then have "r \<in> ?row ` insert a (set rest)" using uv by auto
  then have "scandal_shown ?g b \<in> scandal_shown ?g ` insert a (set rest)"
    unfolding r(2) by (auto simp: scandal_shown_def)
  then obtain c where c: "c \<in> insert a (set rest)" "scandal_shown ?g b = scandal_shown ?g c" by blast
  have "node_id n = si_id (scandal_shown ?g n)" for n
    by (simp add: scandal_shown_def scandal_list_item_def scandal_list_item_from_props_def scandal_row_of_def node_id_def)
  with c(2) have same: "node_id b = node_id c" by metis
  have "set rest \<subseteq> set ?rows" unfolding rest_def by (meson order_trans set_remove1_subset)
  then have mem: "c \<in> set ?rows" using c(1) ab(1) by auto
  have "c \<noteq> b"
  proof
    assume "c = b"
    with c(1) ab(3) have "b \<in> set rest" by simp
    moreover have "distinct ?rows" using ids by (simp add: distinct_map)
    ultimately show False by (simp add: rest_def)
  qed
  with ids mem ab(2) same show False by (auto simp: distinct_map dest: inj_onD)
qed

definition twin :: "nat \<Rightarrow> gostr \<Rightarrow> node" where
  "twin k i = \<lparr>n_key = k, n_labels = [''Scandal''], n_props = [''id'' \<mapsto> PStr i, ''name'' \<mapsto> PStr [120], ''date_start'' \<mapsto> PStr [50]]\<rparr>"

definition twin_world :: world where
  "twin_world = empty_world\<lparr>graph := \<lparr>g_nodes = [twin 0 [97], twin 1 [98]], g_edges = [], g_next = 2\<rparr>\<rparr>"

text \<open>C19: the scandals are ordered by their date and their name, or by their name alone, which need not tell
  two of them apart. The walk over all pages lists every scandal exactly once, for every page size and
  whatever order the engine meets the rows in for each request, if and only if no two of them tie; as soon
  as two do, the pages of one row can show one of them twice and the other never.\<close>

theorem scandal_pages_cover_iff:
  assumes "faults s = []" and "int (length (listed_scandals (graph s))) * 100 < 2 ^ 63"
    and "distinct (List.map node_id (listed_scandals (graph s)))"
  shows "(\<forall>sz \<in> {1..100}. walk_covers mode sz s) \<longleftrightarrow> \<not> scandals_tie mode (graph s)"
proof
  assume "\<forall>sz \<in> {1..100}. walk_covers mode sz s"
  then have "walk_covers mode 1 s" by simp
  with tied_walk_misses [OF assms] show "\<not> scandals_tie mode (graph s)" by blast
next
  assume "\<not> scandals_tie mode (graph s)"
  then show "\<forall>sz \<in> {1..100}. walk_covers mode sz s" using untied_walk [OF assms(1) _ _ assms(2)] by simp
qed

theorem scandal_pages_cover_iff_witness: "\<exists>sz \<in> {1..100}. \<not> walk_covers (lit ''date'') sz twin_world"
proof -
  have rows: "listed_scandals (graph twin_world) = [twin 0 [97], twin 1 [98]]"
    by (simp add: listed_scandals_def match_nodes_def twin_world_def twin_def has_label_def)
  have calm: "faults twin_world = []" by (simp add: twin_world_def empty_world_def)
  have ids: "distinct (List.map node_id (listed_scandals (graph twin_world)))"
    unfolding rows by (simp add: twin_def node_id_def str_prop_def)
  have "\<not> scandal_order_by (lit ''date'') (scandal_row_of g (twin k i)) (scandal_row_of g (twin l j))" for g k i l j
    by (simp add: scandal_order_by_def scandal_row_of_def ascending_def descending_def str_or_null_def twin_def)
  then have "scandals_tie (lit ''date'') (graph twin_world)"
    unfolding scandals_tie_def rows by (auto simp: twin_def)
  with scandal_pages_cover_iff [OF calm _ ids, of "lit ''date''"] show ?thesis by (auto simp: rows)
qed

end
