(* ===== verification/Public_Records.thy ===== *)
theory Public_Records
  imports Public_Lists
begin

text \<open>
  Counts, filters, masking and single records of the public API, and what becomes of a lost connection.
\<close>

section \<open>Counts and filters\<close>

lemma filter_split3:
  assumes "\<And>x. x \<in> set xs \<Longrightarrow> P x \<longleftrightarrow> (A x \<or> B x \<or> C x)" and "\<And>x. x \<in> set xs \<Longrightarrow> \<not> (A x \<and> B x) \<and> \<not> (A x \<and> C x) \<and> \<not> (B x \<and> C x)"
  shows "length (filter P xs) = length (filter A xs) + length (filter B xs) + length (filter C xs)"
  using assms by (induction xs) auto

lemma page_subset: "x \<in> set (take n (slice_stable lt xs)) \<Longrightarrow> x \<in> set xs"
  by (drule in_set_takeD) simp

lemma proceedings_calm:
  assumes "faults s = []"
  shows "\<exists>L. query_proceedings lw arr court c q mode 1 24 s = (Inr L, s) \<and>
    ls_total L = length (match_nodes ''LegalProceeding'' (proceeding_keeps lw court c q) (graph s)) \<and>
    set (ls_items L) \<subseteq> (\<lambda>n. proceeding_list_item_from_props (n_props n)) `
      set (arr (match_nodes ''LegalProceeding'' (proceeding_keeps lw court c q) (graph s)))"
proof -
  have c: "clamp_paging 1 24 default_proceeding_page_size = (1, 24, 0)" by (simp add: clamp_in_range)
  show ?thesis
    unfolding query_proceedings_def c prod.case Let_def
    by (subst counted_page_calm [OF assms]) (auto simp: page_of_calm intro!: imageI dest: page_subset)
qed

text \<open>C20: the three values of the conviction filter divide the proceedings: under any other filter, the
  numbers found with true, false and unknown add up to the number found without one, and what the first page
  lists under each was examined with a conviction, examined without, and never examined. What DataJud's
  worker writes, a boolean or nothing, is all that is assumed of the stored values.\<close>

theorem conviction_filters_divide:
  assumes "faults s = []" and "\<forall>xs. set (arr xs) = set xs"
    and "\<forall>n \<in> set (g_nodes (graph s)). n_props n ''has_conviction'' \<in> {None, Some (PBool True), Some (PBool False)}"
  shows "\<exists>A T F U. query_proceedings lw arr court [] q mode 1 24 s = (Inr A, s) \<and>
    query_proceedings lw arr court (lit ''true'') q mode 1 24 s = (Inr T, s) \<and>
    query_proceedings lw arr court (lit ''false'') q mode 1 24 s = (Inr F, s) \<and>
    query_proceedings lw arr court (lit ''unknown'') q mode 1 24 s = (Inr U, s) \<and>
    ls_total A = ls_total T + ls_total F + ls_total U \<and>
    (\<forall>i \<in> set (ls_items T). pi_polled i \<and> pi_conviction i) \<and>
    (\<forall>i \<in> set (ls_items F). pi_polled i \<and> \<not> pi_conviction i) \<and>
    (\<forall>i \<in> set (ls_items U). \<not> pi_polled i \<and> \<not> pi_conviction i)"
proof -
  note calm = proceedings_calm [OF assms(1), of lw arr court _ q mode]
  have d: "lit ''true'' \<noteq> lit ''false''" "lit ''true'' \<noteq> lit ''unknown''" "lit ''false'' \<noteq> lit ''unknown''"
    "lit ''true'' \<noteq> []" "lit ''false'' \<noteq> []" "lit ''unknown'' \<noteq> []" by code_simp+
  obtain A where A: "query_proceedings lw arr court [] q mode 1 24 s = (Inr A, s)"
    "ls_total A = length (match_nodes ''LegalProceeding'' (proceeding_keeps lw court [] q) (graph s))" using calm by blast
  obtain T where T: "query_proceedings lw arr court (lit ''true'') q mode 1 24 s = (Inr T, s)"
    "ls_total T = length (match_nodes ''LegalProceeding'' (proceeding_keeps lw court (lit ''true'') q) (graph s))"
    "set (ls_items T) \<subseteq> (\<lambda>n. proceeding_list_item_from_props (n_props n)) `
      set (arr (match_nodes ''LegalProceeding'' (proceeding_keeps lw court (lit ''true'') q) (graph s)))" using calm by blast
  obtain F where F: "query_proceedings lw arr court (lit ''false'') q mode 1 24 s = (Inr F, s)"
    "ls_total F = length (match_nodes ''LegalProceeding'' (proceeding_keeps lw court (lit ''false'') q) (graph s))"
    "set (ls_items F) \<subseteq> (\<lambda>n. proceeding_list_item_from_props (n_props n)) `
      set (arr (match_nodes ''LegalProceeding'' (proceeding_keeps lw court (lit ''false'') q) (graph s)))" using calm by blast
  obtain U where U: "query_proceedings lw arr court (lit ''unknown'') q mode 1 24 s = (Inr U, s)"
    "ls_total U = length (match_nodes ''LegalProceeding'' (proceeding_keeps lw court (lit ''unknown'') q) (graph s))"
    "set (ls_items U) \<subseteq> (\<lambda>n. proceeding_list_item_from_props (n_props n)) `
      set (arr (match_nodes ''LegalProceeding'' (proceeding_keeps lw court (lit ''unknown'') q) (graph s)))" using calm by blast
  have "ls_total A = ls_total T + ls_total F + ls_total U"
    unfolding A(2) T(2) F(2) U(2) match_nodes_def
    by (rule filter_split3) (use assms(3) d in \<open>auto simp: proceeding_keeps_def conviction_keeps_def\<close>)
  moreover have "\<forall>i \<in> set (ls_items T). pi_polled i \<and> pi_conviction i"
    using T(3) assms(2) by (fastforce simp: match_nodes_def proceeding_keeps_def conviction_keeps_def
        proceeding_list_item_from_props_def bool_prop_def)
  moreover have "\<forall>i \<in> set (ls_items F). pi_polled i \<and> \<not> pi_conviction i"
    using F(3) assms(2) d by (fastforce simp: match_nodes_def proceeding_keeps_def conviction_keeps_def
        proceeding_list_item_from_props_def bool_prop_def)
  moreover have "\<forall>i \<in> set (ls_items U). \<not> pi_polled i \<and> \<not> pi_conviction i"
    using U(3) assms(2) d by (fastforce simp: match_nodes_def proceeding_keeps_def conviction_keeps_def
        proceeding_list_item_from_props_def bool_prop_def)
  ultimately show ?thesis using A(1) T(1) F(1) U(1) by blast
qed

theorem conviction_filters_divide_witness:
  "\<exists>A T F U. query_proceedings (\<lambda>s. s) rev [] [] [] [] 1 24 numbered_world = (Inr A, numbered_world) \<and>
    query_proceedings (\<lambda>s. s) rev [] (lit ''true'') [] [] 1 24 numbered_world = (Inr T, numbered_world) \<and>
    query_proceedings (\<lambda>s. s) rev [] (lit ''false'') [] [] 1 24 numbered_world = (Inr F, numbered_world) \<and>
    query_proceedings (\<lambda>s. s) rev [] (lit ''unknown'') [] [] 1 24 numbered_world = (Inr U, numbered_world) \<and>
    ls_total A = ls_total T + ls_total F + ls_total U"
  using conviction_filters_divide [of numbered_world rev "\<lambda>s. s" "[]" "[]" "[]"]
  by (simp add: numbered_world_def case_node_def empty_world_def) blast

text \<open>C22: the number of politicians shown beside a scandal is the number of politicians who are involved
  in it or defendants in one of its cases, each counted once, however many ways lead to them.\<close>

theorem scandal_counts_each_politician:
  assumes "wf_graph g"
  shows "politician_count g s = card {p \<in> set (g_nodes g). has_label ''Politician'' p \<and>
    (has_edge (n_key p) ''INVOLVED_IN'' (n_key s) g \<or>
     (\<exists>lp \<in> set (g_nodes g). has_label ''LegalProceeding'' lp \<and> has_edge (n_key lp) ''INVESTIGATES'' (n_key s) g \<and>
        has_edge (n_key p) ''DEFENDANT_IN'' (n_key lp) g))}"
proof -
  have d: "distinct (direct_politicians g s)"
    using assms by (auto simp: direct_politicians_def linked_from_def match_nodes_def wf_graph_def distinct_map)
  let ?all = "direct_politicians g s @ filter (\<lambda>x. x \<notin> set (direct_politicians g s)) (politicians_via_cases g s)"
  have "distinct ?all" using d by (auto simp: politicians_via_cases_def)
  then have "politician_count g s = card (set ?all)"
    unfolding politician_count_def Let_def by (rule distinct_card [symmetric])
  also have "set ?all = {p \<in> set (g_nodes g). has_label ''Politician'' p \<and>
    (has_edge (n_key p) ''INVOLVED_IN'' (n_key s) g \<or>
     (\<exists>lp \<in> set (g_nodes g). has_label ''LegalProceeding'' lp \<and> has_edge (n_key lp) ''INVESTIGATES'' (n_key s) g \<and>
        has_edge (n_key p) ''DEFENDANT_IN'' (n_key lp) g))}"
    by (auto simp: direct_politicians_def politicians_via_cases_def linked_from_def match_nodes_def)
  finally show ?thesis .
qed

theorem scandal_counts_each_politician_witness:
  "politician_count (graph pair_world) \<lparr>n_key = 1, n_labels = [''Scandal''], n_props = [''id'' \<mapsto> PStr (lit ''s'')]\<rparr> = 1"
proof -
  let ?s = "\<lparr>n_key = 1, n_labels = [''Scandal''], n_props = [''id'' \<mapsto> PStr (lit ''s'')]\<rparr> :: node" and ?g = "graph pair_world"
  let ?p = "\<lparr>n_key = 0, n_labels = [''Politician''], n_props = [''id'' \<mapsto> PStr (lit ''p'')]\<rparr> :: node"
  have "{p \<in> set (g_nodes ?g). has_label ''Politician'' p \<and> (has_edge (n_key p) ''INVOLVED_IN'' (n_key ?s) ?g \<or>
     (\<exists>lp \<in> set (g_nodes ?g). has_label ''LegalProceeding'' lp \<and> has_edge (n_key lp) ''INVESTIGATES'' (n_key ?s) ?g \<and>
        has_edge (n_key p) ''DEFENDANT_IN'' (n_key lp) ?g))} = {?p}"
    by (auto simp: pair_world_def has_label_def has_edge_def edge_is_def)
  with scandal_counts_each_politician [OF pair_world_wf, of ?s] show ?thesis by simp
qed

section \<open>Masking\<close>

text \<open>What an answer shows of CPFs by name: its own field, and the property \<^verbatim>\<open>cpf\<close> of what is beside it.\<close>

fun masked :: "payload \<Rightarrow> bool" where
  "masked (PoliticianProfile p c) \<longleftrightarrow> \<not> full_cpf (pn_cpf p)"
| "masked (PersonProfile p c) \<longleftrightarrow> \<not> full_cpf (pe_cpf p)"
| "masked (ProceedingDetail d) \<longleftrightarrow> (\<forall>x \<in> set (pt_defendants d). public_props (pd_props x))"
| "masked _ \<longleftrightarrow> True"

lemma some_map: "Some x = map_option f z \<longleftrightarrow> (\<exists>y. z = Some y \<and> x = f y)"
  by (cases z) auto

lemmas handlers = get_scandal_graph_def get_politician_graph_def expand_node_def search_handler_def get_politician_def
  get_scandal_def get_person_def get_organization_def get_timeline_def list_politicians_def list_scandals_handler_def
  list_sanctions_def get_sanction_def get_sanction_registries_def list_proceedings_def get_proceeding_def
  found_def show_as_def Let_def

lemma collect_masked:
  assumes "collect_graph failed recs = Inr (ns, es)"
  shows "(\<forall>i a. ns i = Some a \<longrightarrow> public_props (an_props a)) \<and> (\<forall>i e. es i = Some e \<longrightarrow> public_props (ae_props e))"
  using collected(3,4) [OF assms] by fastforce

lemma defendants_masked: "\<forall>x \<in> set (case fst (fold proceeding_step rows (out, seen)) of None \<Rightarrow> [] | Some d \<Rightarrow> pt_defendants d). public_props (pd_props x)"
  if "\<forall>x \<in> set (case out of None \<Rightarrow> [] | Some d \<Rightarrow> pt_defendants d). public_props (pd_props x)"
  using that
proof (induction rows arbitrary: out seen)
  case (Cons r rows)
  obtain o' seen' where s: "proceeding_step r (out, seen) = (o', seen')" by fastforce
  have "\<forall>x \<in> set (case o' of None \<Rightarrow> [] | Some d \<Rightarrow> pt_defendants d). public_props (pd_props x)"
    using Cons.prems s
    by (auto simp: proceeding_step_def Let_def proceeding_head_def defendant_from_node_def split: prod.splits option.splits if_splits)
  from Cons.IH [OF this] s show ?case by simp
qed simp

lemma defendants_public:
  "fst (fold proceeding_step rows (None, seen)) = Some d \<Longrightarrow> x \<in> set (pt_defendants d) \<Longrightarrow> public_props (pd_props x)"
  using defendants_masked [of None rows seen] by simp

text \<open>C17: wherever the public API shows a field or a property called \<^verbatim>\<open>cpf\<close>, it is masked: in the profiles of
  politicians and persons, on every node and relationship of every graph, whichever request it answers, and
  on every defendant of a proceeding; and none of these nodes, relationships and defendants carries an
  operator's or an internal property. This is about properties by name: the id, which a writer may have
  built from the number, is shown as stored, and a list of sanctions has the number in a field of
  another name (C18).\<close>

theorem public_answers_masked:
  assumes "wf_graph (graph s)" and "serve_public e r s = (Inr (Ok200 p), t)"
  shows "masked p \<and> (\<forall>ns es. graph_of p = Some (ns, es) \<longrightarrow>
    (\<forall>i a. ns i = Some a \<longrightarrow> public_props (an_props a)) \<and> (\<forall>i x. es i = Some x \<longrightarrow> public_props (ae_props x)))"
proof
  show "\<forall>ns es. graph_of p = Some (ns, es) \<longrightarrow>
    (\<forall>i a. ns i = Some a \<longrightarrow> public_props (an_props a)) \<and> (\<forall>i x. es i = Some x \<longrightarrow> public_props (ae_props x))"
    using drawn [OF assms] collect_masked by (fastforce simp: drawn_from_def)
  show "masked p"
  proof (cases p)
    case (PoliticianProfile x c)
    with assms(2) show ?thesis
      by (cases r) (auto simp: handlers some_map query_politician_def node_to_polit_def
          dest!: answering_Ok cypher_read_unchecked_ok split: option.splits if_splits prod.splits sum.splits)
  next
    case (PersonProfile x c)
    with assms(2) show ?thesis
      by (cases r) (auto simp: handlers some_map query_person_def node_to_person_def bindR_Inr
          dest!: answering_Ok cypher_read_ok split: option.splits if_splits prod.splits sum.splits)
  next
    case (ProceedingDetail d)
    with assms(2) show ?thesis
      by (cases r) (auto simp: handlers some_map query_proceeding_def proceeding_of_rows_def
          dest!: answering_Ok cypher_read_ok dest: defendants_public split: option.splits if_splits prod.splits sum.splits)
  qed simp_all
qed

definition leak_world :: world where
  "leak_world = empty_world\<lparr>graph := \<lparr>
     g_nodes = [\<lparr>n_key = 0, n_labels = [''Person''], n_props = [''id'' \<mapsto> PStr [112], ''cpf'' \<mapsto> PStr (lit ''12345678901'')]\<rparr>,
                \<lparr>n_key = 1, n_labels = [''Sanction''], n_props = [''id'' \<mapsto> PStr [115], ''registry'' \<mapsto> PStr (lit ''CEAF'')]\<rparr>],
     g_edges = [\<lparr>e_from = 0, e_type = ''SANCTIONED_IN'', e_to = 1, e_props = Map.empty\<rparr>],
     g_next = 2\<rparr>\<rparr>"

text \<open>The columns of a row come from the parties in the order the engine lists them; with one party they are its own.\<close>

lemma counted_page_items:
  assumes "counted_page counting items p n s = (Inr L, t)" shows "items (graph s) = Inr (ls_items L)"
proof -
  from assms obtain m u r v where 1: "cypher_read counting s = (Inr m, u)" and 2: "cypher_read items u = (Inr r, v)"
    and 3: "(case r of Inl e \<Rightarrow> throw e
       | Inr is \<Rightarrow> ret \<lparr>ls_items = is, ls_page = p, ls_page_size = n, ls_total = m\<rparr>) v = (Inr L, t)"
    unfolding counted_page_def bindR_Inr by blast
  from cypher_read_ok [OF 1] cypher_read_ok [OF 2] have "items (graph s) = r" by auto
  with 3 show ?thesis by (cases r) (auto simp: throw_def ret_def)
qed

lemma page_items:
  assumes "page_of lt f skip n rows = Inr is" and "i \<in> set is" shows "\<exists>r \<in> set rows. i = f r"
  using assms by (auto simp: page_of_def skip_limit_def dest!: in_set_takeD in_set_dropD split: if_splits) blast

lemma head_collect_one: "set ps = {x} \<Longrightarrow> head_collect f ps = f x"
proof -
  assume ps: "set ps = {x}"
  have "set qs \<subseteq> {x} \<Longrightarrow> List.map_filter f qs = (case f x of None \<Rightarrow> [] | Some v \<Rightarrow> replicate (length qs) v)" for qs
    by (induction qs) (auto simp: List.map_filter_simps split: option.splits)
  from this [of ps] ps show ?thesis by (cases ps) (auto simp: head_collect_def split: option.split)
qed

lemma full_cpf_trim: "full_cpf c \<Longrightarrow> trim_space c = c"
  by (rule trim_space_none) (auto simp: full_cpf_def is_digit_def is_space_def)

definition party_columns :: "sanction_item \<Rightarrow> gostr \<times> gostr \<times> gostr \<times> gostr" where
  "party_columns i = (sf_party_id i, sf_party_name i, sf_party_document i, sf_party_type i)"

definition party_as_listed :: "node \<Rightarrow> gostr \<times> gostr \<times> gostr \<times> gostr" where
  "party_as_listed x =
     (trim_space (coalesce_empty (str_or_null x ''id'')), trim_space (coalesce_empty (str_or_null x ''name'')),
      trim_space (coalesce_empty (document_of x)), trim_space (coalesce_empty (first_label x)))"



theorem public_answers_masked_witness:
  "\<exists>x c. serve_public plain_engine (PersonOf [112]) leak_world = (Inr (Ok200 (PersonProfile x c)), leak_world) \<and> \<not> full_cpf (pe_cpf x)"
proof -
  let ?person = "\<lparr>n_key = 0, n_labels = [''Person''], n_props = [''id'' \<mapsto> PStr [112], ''cpf'' \<mapsto> PStr (lit ''12345678901'')]\<rparr> :: node"
  have calm: "faults leak_world = []" by (simp add: leak_world_def empty_world_def)
  have wf: "wf_graph (graph leak_world)" by (simp add: leak_world_def wf_graph_def)
  have look: "lookup (\<lambda>x. x) ''Person'' [112] (graph leak_world) = Some ?person"
    by (simp add: lookup_def match_nodes_def leak_world_def has_label_def prop_is_def)
  obtain q where q: "query_graph (\<lambda>x. x) (person_graph_rows [112]) leak_world = (Inr q, leak_world)"
    using calm_graph [OF calm] by blast
  have r: "serve_public plain_engine (PersonOf [112]) leak_world = (Inr (Ok200 (PersonProfile (node_to_person ?person) q)), leak_world)"
    by (simp add: get_person_def query_person_def query_person_graph_def plain_engine_def answering_def bindR_def calm_read [OF calm]
        look q ret_def found_def)
  with public_answers_masked [OF wf r] show ?thesis by auto
qed

section \<open>Single records\<close>

definition defendant_ids :: "proceeding_detail option \<Rightarrow> gostr list" where
  "defendant_ids out = (case out of None \<Rightarrow> [] | Some d \<Rightarrow> List.map pd_id (pt_defendants d))"

definition row_defendant :: "node \<times> node option \<times> (node \<times> edge) option \<Rightarrow> gostr option" where
  "row_defendant row = (case snd (snd row) of None \<Rightarrow> None | Some (x, e) \<Rightarrow> if node_id x = [] then None else Some (node_id x))"

text \<open>The loop keeps the ids it has seen in step with the list it builds.\<close>

lemma proceeding_fold:
  "distinct (defendant_ids out) \<and> seen = set (defendant_ids out) \<Longrightarrow>
   distinct (defendant_ids (fst (fold proceeding_step rows (out, seen)))) \<and>
   set (defendant_ids (fst (fold proceeding_step rows (out, seen)))) = seen \<union> {i. Some i \<in> row_defendant ` set rows}"
proof (induction rows arbitrary: out seen)
  case (Cons r rows)
  obtain o' seen' where s: "proceeding_step r (out, seen) = (o', seen')" by fastforce
  have step: "distinct (defendant_ids o') \<and> seen' = set (defendant_ids o') \<and> seen' = seen \<union> {i. Some i = row_defendant r}"
    using Cons.prems s
    by (auto simp: proceeding_step_def Let_def defendant_ids_def proceeding_head_def row_defendant_def defendant_from_node_def node_id_def
        split: prod.splits option.splits if_splits)
  from Cons.IH [of o' seen'] step s show ?case by auto
qed simp

lemma row_defendants:
  "{i. Some i \<in> row_defendant ` set (proceeding_rows i0 g)} =
     {node_id x | x e lp. (x, e) \<in> set (edges_into g ''DEFENDANT_IN'' lp) \<and> node_id x \<noteq> [] \<and>
        lp \<in> set (match_nodes ''LegalProceeding'' (prop_is ''id'' (PStr i0)) g)}"
proof -
  have ne: "\<exists>s. s \<in> set (optional xs)" for xs :: "node list"
    by (cases xs) (auto simp: optional_def)
  have rows: "(lp, s, d) \<in> set (proceeding_rows i0 g) \<longleftrightarrow>
      lp \<in> set (match_nodes ''LegalProceeding'' (prop_is ''id'' (PStr i0)) g) \<and>
      s \<in> set (optional (linked_to g ''INVESTIGATES'' ''Scandal'' lp)) \<and> d \<in> set (optional (edges_into g ''DEFENDANT_IN'' lp))" for lp s d
    by (auto simp: proceeding_rows_def)
  show ?thesis
  proof (intro set_eqI iffI; clarsimp)
    fix i lp s d
    assume "Some i = row_defendant (lp, s, d)" "(lp, s, d) \<in> set (proceeding_rows i0 g)"
    then show "\<exists>x. i = node_id x \<and> (\<exists>e lp. (x, e) \<in> set (edges_into g ''DEFENDANT_IN'' lp) \<and> node_id x \<noteq> [] \<and>
        lp \<in> set (match_nodes ''LegalProceeding'' (prop_is ''id'' (PStr i0)) g))"
      unfolding rows by (force simp: row_defendant_def optional_iff split: option.splits if_splits prod.splits)
  next
    fix x e lp
    assume x: "(x, e) \<in> set (edges_into g ''DEFENDANT_IN'' lp)" "node_id x \<noteq> []"
      "lp \<in> set (match_nodes ''LegalProceeding'' (prop_is ''id'' (PStr i0)) g)"
    obtain s where "s \<in> set (optional (linked_to g ''INVESTIGATES'' ''Scandal'' lp))" using ne by blast
    with x have "(lp, s, Some (x, e)) \<in> set (proceeding_rows i0 g)" by (auto simp: rows optional_iff)
    then show "Some (node_id x) \<in> row_defendant ` set (proceeding_rows i0 g)"
      by (rule rev_image_eqI) (simp add: row_defendant_def x(2))
  qed
qed

text \<open>The page of a proceeding lists every defendant that has an id, exactly once, although a row is
  returned for each pair of a scandal and a defendant, in whatever order they come.\<close>

theorem proceeding_lists_each_defendant:
  assumes "\<forall>rs. set (arr rs) = set rs" and "query_proceeding arr i s = (Inr (Some d), t)"
  shows "distinct (List.map pd_id (pt_defendants d)) \<and>
    set (List.map pd_id (pt_defendants d)) =
      {node_id x | x e lp. (x, e) \<in> set (edges_into (graph s) ''DEFENDANT_IN'' lp) \<and> node_id x \<noteq> [] \<and>
         lp \<in> set (match_nodes ''LegalProceeding'' (prop_is ''id'' (PStr i)) (graph s))}"
proof -
  have "proceeding_of_rows (arr (proceeding_rows i (graph s))) = Some d"
    using assms(2) by (auto simp: query_proceeding_def dest: cypher_read_ok)
  then show ?thesis
    using proceeding_fold [of None "{}" "arr (proceeding_rows i (graph s))"] assms(1)
    by (simp add: proceeding_of_rows_def defendant_ids_def row_defendants)
qed

section \<open>A lost connection\<close>

text \<open>C21: the page of a politician says that there is none when the answer to its query is lost while its
  rows are read: the error is never asked for. The page of a person, which asks, says that it failed.\<close>

theorem lost_rows_read_as_missing:
  assumes "faults s = RowsLost # fs"
  shows "serve_public e (PoliticianOf i) s = (Inr Missing404, s\<lparr>faults := fs\<rparr>) \<and>
    serve_public e (ScandalOf i) s = (Inr Missing404, s\<lparr>faults := fs\<rparr>) \<and>
    serve_public e (PersonOf i) s = (Inr Error500, s\<lparr>faults := fs\<rparr>) \<and>
    serve_public e (ProceedingOf i) s = (Inr Error500, s\<lparr>faults := fs\<rparr>)"
  using assms
  by (simp add: handlers query_politician_def query_scandal_def query_person_def query_proceeding_def cypher_read_unchecked_def
      answering_def cypher_read_def db_call_def ret_def bindR_def)

theorem lost_rows_read_as_missing_witness:
  "fst (serve_public plain_engine (PoliticianOf (lit ''p'')) (pair_world\<lparr>faults := [RowsLost]\<rparr>)) = Inr Missing404"
  using lost_rows_read_as_missing [of "pair_world\<lparr>faults := [RowsLost]\<rparr>" "[]"] by simp

theorem proceeding_lists_each_defendant_witness:
  "\<exists>d. query_proceeding rev [97] numbered_world = (Inr (Some d), numbered_world) \<and> distinct (List.map pd_id (pt_defendants d))"
proof -
  have calm: "faults numbered_world = []" by (simp add: numbered_world_def empty_world_def)
  have "proceeding_rows [97] (graph numbered_world) = [(case_node 0 [97] [49], None, None)]"
    by (simp add: proceeding_rows_def numbered_world_def match_nodes_def has_label_def prop_is_def case_node_def optional_def
        linked_to_def edges_into_def)
  then obtain d where d: "query_proceeding rev [97] numbered_world = (Inr (Some d), numbered_world)"
    by (simp add: query_proceeding_def calm_read [OF calm] proceeding_of_rows_def proceeding_step_def Let_def)
  have "\<forall>rs. set (rev rs) = set rs" by simp
  from proceeding_lists_each_defendant [OF this d] d show ?thesis by blast
qed

end
