(* ===== verification/Spec2Isabelle.thy ===== *)
theory Spec2Isabelle
  imports Matching Publish Tombstone Sanctions Djen_Props Datajud_Props System_Props Cnpj_Runs
    Election_Props Politicians_Props Registers_Props Photos_Props Public_Records
begin

text \<open>
  A verification library for the backend of corruption.center (the Go module under
  \<^verbatim>\<open>src/backend\<close>): a public graph of Brazilian politicians, companies, sanctions, scandals and court cases.

  \<^bold>\<open>The program.\<close> Two databases are shared by everything. Memgraph holds the graph that is published;
  Postgres holds what must not be: the review queue, the watch list, tombstones of purged subjects,
  removal requests, the audit log and the bookkeeping of the workers. Batch workers read a public source
  each and write both; the back office is where an operator approves what a worker only suspects, records
  outcomes and purges a subject who asked for it; the public API reads the graph, its CPF fields masked. What makes the
  program hard is not any one of these but what they may do to each other's work: a worker must not bring
  back whom the operator purged, claim about a person what only an operator may claim, or publish on weak
  evidence, and all of this must survive a database call failing at any point, since there is no
  transaction over the two databases.

  \<^bold>\<open>The base.\<close>
    \<^item> \<open>Prelude\<close>: a fallible function is a function of a state giving an error or a value, and the state
      (\<open>prog\<close>; \<open>bindR\<close>, \<open>seqR\<close>, \<open>forR\<close>, \<open>attemptR\<close>); an early return is a branch, a discarded error is
      \<open>attemptR\<close>. \<open>moves R m\<close> says that a run of \<open>m\<close> only ever moves along the order \<open>R\<close>; the locale
      \<open>state_order\<close> proves it through every combinator, and \<open>guard\<close> is a question asked before a write.
    \<^item> \<open>UnicodeCase\<close>, \<open>GoText\<close>, \<open>GoValue\<close>, \<open>Float64\<close>, \<open>GoSort\<close>: what the code uses of Go: strings as lists of
      code points with the functions of \<^verbatim>\<open>strings\<close> and \<^verbatim>\<open>unicode\<close> (the case tables of Unicode 15 written out),
      values decoded without a type, \<^verbatim>\<open>float64\<close> as rounding to 53 bits, ties to even, and \<^verbatim>\<open>sort.SliceStable\<close>
      with its blocks and merges, shown stable and sorted on a comparison by key.
    \<^item> \<open>Graph\<close>: the property graph and the Cypher the statements use (\<open>merge_node\<close>, \<open>merge_edge\<close>,
      \<open>map_nodes\<close>, \<open>detach_delete\<close>). A node has a key of its own; \<open>ids_unique\<close> is the constraint Memgraph
      enforces, \<open>wf_graph\<close> says that keys are distinct and relationships end at nodes.
    \<^item> \<open>World\<close>: both databases as one record, and the fault script: each database call takes the next of
      \<open>Up\<close>, \<open>Lost\<close> (it did not happen), \<open>LostAck\<close> (it happened and the caller saw an error) and \<open>RowsLost\<close>
      (the error comes with the rows, unseen by a caller that does not ask the result for it), so a theorem
      about any state is a theorem about a failure at any call. A statement whose result breaks a
      uniqueness constraint fails and changes nothing.

  \<^bold>\<open>The components.\<close>
    \<^item> \<open>Matching\<close> (\<^verbatim>\<open>matching/confidence.go\<close>): the evidence score and the decision to link.
    \<^item> \<open>Publish\<close> (\<^verbatim>\<open>db/memgraph/{fold,mask,sanitize,label,graph,search}.go\<close>): what may be shown and found.
    \<^item> \<open>Tombstone\<close>, \<open>Identity\<close> (\<^verbatim>\<open>db/psql/tombstone.go\<close>): the keys under which a purged subject is
      remembered, the check a worker makes (locale \<open>purge_guard\<close>), whom a node stands for.
    \<^item> \<open>Cases\<close> (\<^verbatim>\<open>db/psql/{watcher,djen}.go\<close>, \<^verbatim>\<open>db/memgraph/datajud_writer.go\<close>): watch list, review queue,
      proceedings.
    \<^item> \<open>Sanction_Records\<close>, \<open>Sanction_Store\<close>, \<open>Sanctions\<close> (\<^verbatim>\<open>workers/sanctions\<close>,
      \<^verbatim>\<open>db/memgraph/{sanctions_writer,retraction}.go\<close>, \<^verbatim>\<open>db/psql/sanctions.go\<close>): the records of the registries,
      the statements, the sync with its retraction sweep (locale \<open>sanction_stores\<close>).
    \<^item> \<open>Djen_Client\<close>, \<open>Djen_Search\<close>, \<open>Djen_Text\<close>, \<open>Djen\<close>, \<open>Djen_Run\<close>, \<open>Djen_Props\<close> (\<^verbatim>\<open>workers/djen\<close>,
      \<^verbatim>\<open>db/memgraph/djen_writer.go\<close>): the court gazette: a client that works around records the server
      cannot serve, the reading of a communication, the three modes of the worker (locales
      \<open>party_stores\<close>, \<open>djen_stores\<close>).
    \<^item> \<open>Datajud_Case\<close>, \<open>Datajud_Client\<close>, \<open>Datajud\<close>, \<open>Datajud_Props\<close> (\<^verbatim>\<open>workers/datajud\<close>): the case
      registry: the reading of a docket as a state machine, a client with two retry ladders, the poll of
      the watched cases (locale \<open>datajud_stores\<close>).
    \<^item> \<open>Cnpj\<close>, \<open>Cnpj_Props\<close>, \<open>Cnpj_Runs\<close> (\<^verbatim>\<open>workers/cnpj\<close>, \<^verbatim>\<open>db/memgraph/cnpj_writer.go\<close>): the company
      enricher: the federal register, the bounded walk over partners (locales \<open>cnpj_stores\<close>,
      \<open>cnpj_any_store\<close>, \<open>cnpj_any_statement\<close>).
    \<^item> \<open>Election\<close>, \<open>Election_Props\<close> (\<^verbatim>\<open>workers/tse/{importer,photo}.go\<close>): a year's archive of candidates, down to one
      record per elected candidate. \<open>Politicians\<close>, \<open>Politicians_Props\<close>
      (\<^verbatim>\<open>db/memgraph/{tse,camara,senado}_writer.go\<close>, \<^verbatim>\<open>workers/{camara,senado}/syncer.go\<close>): the statements that
      write politicians, the lists of the two houses. \<open>Registers\<close>, \<open>Registers_Props\<close>
      (\<^verbatim>\<open>workers/{tse,camara,senado}/cmd/main.go\<close>, \<^verbatim>\<open>db/psql/{tse_import,scrapper,camara_sync,senado_sync}.go\<close>):
      the commands with their downloads and logs (locales \<open>import_stores\<close>, \<open>register_stores\<close>).
    \<^item> \<open>GoUrl\<close>, \<open>Photos\<close>, \<open>Photos_Props\<close> (\<^verbatim>\<open>workers/photos\<close>, \<^verbatim>\<open>db/memgraph/photos_writer.go\<close>): UTF-8 and path
      escaping, the two sources of pictures, the worker that sets them (locale \<open>photo_stores\<close>).
    \<^item> \<open>Office_Graph\<close>, \<open>Office_Tables\<close>, \<open>Office\<close>, \<open>Office_Run\<close>, \<open>Office_Props\<close>, \<open>Office_Writes\<close>
      (\<^verbatim>\<open>api/{backoffice,backoffice_outcomes,seed}.go\<close>, \<^verbatim>\<open>api/middleware\<close>,
      \<^verbatim>\<open>db/memgraph/{backoffice_writer,outcomes,org_cnpj}.go\<close>, \<^verbatim>\<open>db/psql/{backoffice,removal,audit}.go\<close>): the
      statements, the handlers with every banner and redirect, the routes behind the two middlewares
      (locales \<open>desk_order\<close>, \<open>office_order\<close>, \<open>office_stores\<close>, \<open>statement_order\<close>).
    \<^item> \<open>Paging\<close>, \<open>Browse\<close>, \<open>Sanction_Reads\<close>, \<open>Graph_Views\<close>, \<open>Graph_Views_Props\<close>, \<open>Public_Api\<close>, \<open>Public_Props\<close>,
      \<open>Public_Graph\<close>, \<open>Public_Lists\<close>, \<open>Public_Records\<close> (\<^verbatim>\<open>api/handlers\<close>, the routes of \<^verbatim>\<open>api/main.go\<close>,
      \<^verbatim>\<open>db/memgraph/{politicians,scandals,proceedings,sanctions_read,entities_read,graph}.go\<close>): the public API:
      lists with their filters, orders and pages (locale \<open>ranking\<close>, interpreted on the order of each list),
      the rows of each graph query and what \<^verbatim>\<open>collectGraph\<close> makes of them in any order, profiles, the answer
      to each request.
    \<^item> \<open>Graph_Orders\<close>, \<open>System\<close>, \<open>System_Run\<close>, \<open>System_Props\<close>: everything together: a step of the system is a
      request, a start, a run of a worker or a command, or the passing of time, each from and to any state; a run is any
      sequence of steps. The locale \<open>graph_order\<close> names the statement shapes the workers use and
      gives, by sublocales, the contract of each of them; \<open>office_graph_order\<close> adds those of the back office.

  \<^bold>\<open>What the lemmas show.\<close> Each component has lemmas for its pure part (round trips, agreement of two
  computations of one key, what a reading means), a contract locale whose laws are discharged by the
  component's statements, and orders interpreting the contract: \<open>no_resurrection\<close>, \<open>no_revival\<close>,
  \<open>enriching\<close> (nobody purged comes back), \<open>cited_only\<close>, \<open>company_level\<close>, \<open>civic\<close> (who writes what),
  \<open>accumulating\<close> (what an import keeps), \<open>carried\<close> (the relationships of two joined companies), \<open>album\<close> and \<open>shown\<close> (which pictures are set), \<open>unmarking\<close> (nothing but a finished import marks a year), \<open>keeps_wf\<close>,
  \<open>unique\<close> (the graph stays a graph), \<open>tombs_grow\<close>, \<open>records_kept\<close>, \<open>convicts_on_evidence\<close> (of the whole
  system), \<open>same_stores\<close> (a dry run), \<open>stores_kept\<close> (a public request). The properties are stated over the model's own functions and are
  numbered in their text blocks.

  \<^bold>\<open>Bounds and fuel.\<close> Recursion is structural or comes with a measure: the retry ladders by what is left of
  them, the bisection by the width of the range, the enricher's walk by the multiset of hops left. Three
  loops have no bound in the code and take fuel: paging a registry ends at an empty page, paging the
  gazette at the total it reports, and paging the chamber at a short page. Running out is a value of its
  own, never an answer; lemmas \<open>registry_paging_terminates\<close>, \<open>pagination_terminates\<close> and \<open>deputies_end\<close> give
  the fuel that suffices: the number of the page at which a registry stops, one more than the pages of 32
  the reported total needs (two at least), the number of the last page of the chamber. The integers of the code
  count requests, rows and nanoseconds far from 64 bits and are \<open>nat\<close> or \<open>int\<close>; where the code narrows or
  doubles a value (a backoff, a Retry-After) the cap is modelled.

  \<^bold>\<open>Environments.\<close> What is not under \<^verbatim>\<open>src\<close> is an argument: a server is a function of the ordinal of a
  request and the request, giving the time to the answer and the answer (\<open>registry_api\<close>, \<open>djen_api\<close>,
  \<open>dk_api\<close>, \<open>cn_api\<close>, \<open>wk_api\<close>, \<open>register_env\<close>); the machine an import runs on is \<open>tse_host\<close>; the order in which Go ranges over a map and in which concurrent lookups finish is a
  function giving a permutation, and so is the order in which the graph engine finds rows; Postgres' text functions, the constant-time comparison of credentials
  and random ids are arguments too. Decoding JSON, CSV, zip and HTML is part of the environment.

  \<^bold>\<open>Not modelled.\<close> Logging, statistics that are only printed, progress lines, pauses that only slow a
  run, and HTML (a page is the list it shows). Headers, texts of errors and JSON of the public API;
  migrations, pools, flags of the commands and the frontend. Cancellation is modelled in the clients, whose
  waits look at the context; in a database call it is one more \<open>Lost\<close>. Sections of one worker run are not interleaved with another
  run at the level of single calls: a run is one step of the system.
\<close>

end
